(* ===== verification/Prelude.thy ===== *)
theory Prelude
  imports Main "HOL-Library.AList" "HOL-Library.Char_ord" "HOL-Library.List_Lexorder"
begin

text \<open>
  The vocabulary every component of the SecChat development shares: Python's exceptions as
  values, the result type of code that may raise, the state-and-exception actions of code that
  mutates an object while it may raise, Python's dynamically typed JSON values with the
  conversions the sources apply to them (\<open>int\<close>, \<open>str\<close>, \<open>bool\<close>,
  \<open>x or y\<close>, \<open>dict.get\<close>), and decimal and hexadecimal notation.

  A Python \<open>str\<close> is modelled by its UTF-8 encoding and \<open>bytes\<close> by the list of
  its bytes; both are lists of 8-bit characters, so that \<open>encode("utf-8")\<close> is the identity
  and \<open>decode("utf-8")\<close> is a check (\<open>utf8_decode\<close>). \<open>py_len\<close> counts code
  points.  Python's \<open>float\<close> is modelled by its literal.
\<close>

named_theorems res_simps \<open>equations that run the result and state-exception combinators\<close>
named_theorems ascii_simps \<open>facts that a text produced by the model is ASCII\<close>

subsection \<open>Exceptions and results\<close>

datatype exc =
    ValueError string
  | TypeError string
  | KeyError string
  | AttributeError string
  | IndexError
  | OverflowError
  | UnicodeError
  | OSError string
  | RuntimeError string
  | CryptoStateError string
  | AuditError string string
  | InvalidTag
  | InvalidSignature

fun exc_msg :: "exc \<Rightarrow> string" where
  "exc_msg (ValueError m) = m"
| "exc_msg (TypeError m) = m"
| "exc_msg (KeyError k) = [CHR 0x27] @ k @ [CHR 0x27]"
| "exc_msg (AttributeError m) = m"
| "exc_msg IndexError = ''list index out of range''"
| "exc_msg OverflowError = ''cannot convert float infinity to integer''"
| "exc_msg UnicodeError = ''codec error''"
| "exc_msg (OSError m) = m"
| "exc_msg (RuntimeError m) = m"
| "exc_msg (CryptoStateError m) = m"
| "exc_msg (AuditError m c) = m"
| "exc_msg InvalidTag = []"
| "exc_msg InvalidSignature = []"

type_synonym bytes = string
type_synonym 'a res = "exc + 'a"

definition rbind :: "'a res \<Rightarrow> ('a \<Rightarrow> 'b res) \<Rightarrow> 'b res" where
  "rbind m f = (case m of Inl e \<Rightarrow> Inl e | Inr x \<Rightarrow> f x)"

definition rguard :: "bool \<Rightarrow> exc \<Rightarrow> 'a res \<Rightarrow> 'a res" where
  "rguard bad e k = (if bad then Inl e else k)"

definition rcatch :: "'a res \<Rightarrow> (exc \<Rightarrow> 'a res) \<Rightarrow> 'a res" where
  "rcatch m h = (case m of Inl e \<Rightarrow> h e | Inr x \<Rightarrow> Inr x)"

definition opt_res :: "exc \<Rightarrow> 'a option \<Rightarrow> 'a res" where
  "opt_res e x = (case x of None \<Rightarrow> Inl e | Some y \<Rightarrow> Inr y)"

definition res_opt :: "'a res \<Rightarrow> 'a option" where
  "res_opt m = (case m of Inl _ \<Rightarrow> None | Inr x \<Rightarrow> Some x)"

fun rmap :: "('a \<Rightarrow> 'b res) \<Rightarrow> 'a list \<Rightarrow> 'b list res" where
  "rmap f [] = Inr []"
| "rmap f (x # xs) = rbind (f x) (\<lambda>y. rbind (rmap f xs) (\<lambda>ys. Inr (y # ys)))"

fun rfold :: "('a \<Rightarrow> 'b \<Rightarrow> 'b res) \<Rightarrow> 'a list \<Rightarrow> 'b \<Rightarrow> 'b res" where
  "rfold f [] b = Inr b"
| "rfold f (x # xs) b = rbind (f x b) (rfold f xs)"

lemma rbind_Inl [simp, res_simps]: "rbind (Inl e) f = Inl e"
  by (simp add: rbind_def)

lemma rbind_Inr [simp, res_simps]: "rbind (Inr x) f = f x"
  by (simp add: rbind_def)

lemma rbind_eq_Inr [simp]: "rbind m f = Inr y \<longleftrightarrow> (\<exists>x. m = Inr x \<and> f x = Inr y)"
  by (cases m) auto

lemma rbind_eq_Inl: "rbind m f = Inl e \<longleftrightarrow> m = Inl e \<or> (\<exists>x. m = Inr x \<and> f x = Inl e)"
  by (cases m) auto

lemma rbind_cong [fundef_cong]: "m = m' \<Longrightarrow> (\<And>x. m' = Inr x \<Longrightarrow> f x = g x) \<Longrightarrow> rbind m f = rbind m' g"
  by (cases m') auto

lemma rbind_assoc: "rbind (rbind m f) g = rbind m (\<lambda>x. rbind (f x) g)"
  by (cases m) auto

lemma rguard_True [simp, res_simps]: "rguard True e k = Inl e"
  and rguard_False [simp, res_simps]: "rguard False e k = k"
  by (simp_all add: rguard_def)

lemma rguard_eq_Inr [simp]: "rguard b e k = Inr x \<longleftrightarrow> \<not> b \<and> k = Inr x"
  by (simp add: rguard_def)

lemma rcatch_Inl [simp, res_simps]: "rcatch (Inl e) h = h e"
  and rcatch_Inr [simp, res_simps]: "rcatch (Inr x) h = Inr x"
  by (simp_all add: rcatch_def)

lemma opt_res_None [simp, res_simps]: "opt_res e None = Inl e"
  and opt_res_Some [simp, res_simps]: "opt_res e (Some x) = Inr x"
  by (simp_all add: opt_res_def)

lemma opt_res_eq_Inr [simp]: "opt_res e o' = Inr x \<longleftrightarrow> o' = Some x"
  by (cases o') auto

lemma res_opt_Inl [simp, res_simps]: "res_opt (Inl e) = None"
  and res_opt_Inr [simp, res_simps]: "res_opt (Inr x) = Some x"
  by (simp_all add: res_opt_def)

lemma rmap_Inr_length: "rmap f xs = Inr ys \<Longrightarrow> length ys = length xs"
  by (induction xs arbitrary: ys) auto

lemma rmap_total: "(\<And>x. x \<in> set xs \<Longrightarrow> f x = Inr (g x)) \<Longrightarrow> rmap f xs = Inr (map g xs)"
  by (induction xs) auto

subsection \<open>Actions: code that mutates an object and may raise\<close>

text \<open>
  An action returns the outcome and the state left behind, also when it raises: Python does not
  undo the assignments made before an exception.
\<close>

type_synonym ('s, 'a) act = "'s \<Rightarrow> 'a res \<times> 's"

definition sret :: "'a \<Rightarrow> ('s, 'a) act" where
  "sret x s = (Inr x, s)"

definition sraise :: "exc \<Rightarrow> ('s, 'a) act" where
  "sraise e s = (Inl e, s)"

definition sbind :: "('s, 'a) act \<Rightarrow> ('a \<Rightarrow> ('s, 'b) act) \<Rightarrow> ('s, 'b) act" where
  "sbind m f s = (case m s of (r, s') \<Rightarrow> (case r of Inl e \<Rightarrow> (Inl e, s') | Inr x \<Rightarrow> f x s'))"

definition slift :: "'a res \<Rightarrow> ('s, 'a) act" where
  "slift r s = (r, s)"

definition sget :: "('s \<Rightarrow> 'a) \<Rightarrow> ('s, 'a) act" where
  "sget f s = (Inr (f s), s)"

definition smod :: "('s \<Rightarrow> 's) \<Rightarrow> ('s, unit) act" where
  "smod f s = (Inr (), f s)"

definition scatch :: "('s, 'a) act \<Rightarrow> (exc \<Rightarrow> ('s, 'a) act) \<Rightarrow> ('s, 'a) act" where
  "scatch m h s = (case m s of (r, s') \<Rightarrow> (case r of Inl e \<Rightarrow> h e s' | Inr x \<Rightarrow> (Inr x, s')))"

fun sfold :: "('a \<Rightarrow> 'b \<Rightarrow> ('s, 'b) act) \<Rightarrow> 'a list \<Rightarrow> 'b \<Rightarrow> ('s, 'b) act" where
  "sfold f [] b = sret b"
| "sfold f (x # xs) b = sbind (f x b) (sfold f xs)"

fun smap :: "('a \<Rightarrow> ('s, 'b) act) \<Rightarrow> 'a list \<Rightarrow> ('s, 'b list) act" where
  "smap f [] = sret []"
| "smap f (x # xs) = sbind (f x) (\<lambda>y. sbind (smap f xs) (\<lambda>ys. sret (y # ys)))"

lemma sret_run [simp, res_simps]: "sret x s = (Inr x, s)"
  and sraise_run [simp, res_simps]: "sraise e s = (Inl e, s)"
  and slift_run [simp, res_simps]: "slift r s = (r, s)"
  and sget_run [simp, res_simps]: "sget f s = (Inr (f s), s)"
  and smod_run [simp, res_simps]: "smod g s = (Inr (), g s)"
  by (simp_all add: sret_def sraise_def slift_def sget_def smod_def)

lemma sbind_ok: "m s = (Inr x, s') \<Longrightarrow> sbind m f s = f x s'"
  and sbind_err: "m s = (Inl e, s') \<Longrightarrow> sbind m f s = (Inl e, s')"
  by (simp_all add: sbind_def)

lemma scatch_ok: "m s = (Inr x, s') \<Longrightarrow> scatch m h s = (Inr x, s')"
  and scatch_err: "m s = (Inl e, s') \<Longrightarrow> scatch m h s = h e s'"
  by (simp_all add: scatch_def)

lemma sbind_sret [simp, res_simps]: "sbind (sret x) f s = f x s"
  by (simp add: sbind_def)

lemma sbind_sget [simp, res_simps]: "sbind (sget g) f s = f (g s) s"
  by (simp add: sbind_def)

lemma sbind_smod [simp, res_simps]: "sbind (smod h) f s = f () (h s)"
  by (simp add: sbind_def)

lemma sbind_sraise [simp, res_simps]: "sbind (sraise e) f s = (Inl e, s)"
  by (simp add: sbind_def)

lemma sbind_slift_Inr [simp, res_simps]: "sbind (slift (Inr x)) f s = f x s"
  and sbind_slift_Inl [simp, res_simps]: "sbind (slift (Inl e)) f s = (Inl e, s)"
  by (simp_all add: sbind_def)

lemma sbind_eq_Inr:
  "sbind m f s = (Inr y, t) \<longleftrightarrow> (\<exists>x u. m s = (Inr x, u) \<and> f x u = (Inr y, t))"
  by (auto simp: sbind_def split: prod.splits sum.splits)

text \<open>An action that keeps a predicate of the state on every path, errors included.\<close>

definition preserves :: "('s \<Rightarrow> bool) \<Rightarrow> ('s, 'a) act \<Rightarrow> bool" where
  "preserves P m = (\<forall>s. P s \<longrightarrow> P (snd (m s)))"

lemma preservesD: "preserves P m \<Longrightarrow> P s \<Longrightarrow> P (snd (m s))"
  by (simp add: preserves_def)

lemma preserves_sbind [intro]: "preserves P m \<Longrightarrow> (\<And>x. preserves P (f x)) \<Longrightarrow> preserves P (sbind m f)"
  by (auto simp: preserves_def sbind_def split: prod.splits sum.splits; metis snd_conv)

lemma preserves_scatch [intro]: "preserves P m \<Longrightarrow> (\<And>e. preserves P (h e)) \<Longrightarrow> preserves P (scatch m h)"
  by (auto simp: preserves_def scatch_def split: prod.splits sum.splits; metis snd_conv)

lemma preserves_pure [intro, simp]:
  "preserves P (sret x)" "preserves P (sraise e)" "preserves P (slift r)" "preserves P (sget f)"
  "preserves P (\<lambda>s. (g s, s))"
  by (simp_all add: preserves_def)

lemma preserves_smod: "(\<And>s. P s \<Longrightarrow> P (f s)) \<Longrightarrow> preserves P (smod f)"
  by (simp add: preserves_def)

lemma preserves_if [intro]: "(b \<Longrightarrow> preserves P m) \<Longrightarrow> (\<not> b \<Longrightarrow> preserves P k) \<Longrightarrow> preserves P (if b then m else k)"
  by simp

subsection \<open>JSON values\<close>

datatype json =
    JNull
  | JBool bool
  | JInt int
  | JFloat string
  | JStr string
  | JArr "json list"
  | JObj "(string \<times> json) list"

type_synonym dict = "(string \<times> json) list"

lemma json_induct [case_names JNull JBool JInt JFloat JStr JArr JObj]:
  assumes "P JNull" and "\<And>b. P (JBool b)" and "\<And>i. P (JInt i)" and "\<And>s. P (JFloat s)"
    and "\<And>s. P (JStr s)"
    and "\<And>xs. (\<And>x. x \<in> set xs \<Longrightarrow> P x) \<Longrightarrow> P (JArr xs)"
    and "\<And>d. (\<And>kv. kv \<in> set d \<Longrightarrow> P (snd kv)) \<Longrightarrow> P (JObj d)"
  shows "P v"
proof (induction v)
  case (JObj d)
  have "P (snd kv)" if "kv \<in> set d" for kv
    using JObj [OF that, of "snd kv"] by (simp add: snds.simps)
  then show ?case by (rule assms(7))
qed (auto intro: assms)

subsection \<open>Dictionaries\<close>

text \<open>
  A Python \<open>dict\<close> keeps insertion order: assigning an existing key changes its value in
  place, a new key goes to the end.
\<close>

abbreviation dset :: "('k \<times> 'v) list \<Rightarrow> 'k \<Rightarrow> 'v \<Rightarrow> ('k \<times> 'v) list" where
  "dset d k v \<equiv> AList.update k v d"

abbreviation dpop :: "('k \<times> 'v) list \<Rightarrow> 'k \<Rightarrow> ('k \<times> 'v) list" where
  "dpop d k \<equiv> AList.delete k d"

definition dget :: "('k \<times> 'v) list \<Rightarrow> 'k \<Rightarrow> 'v \<Rightarrow> 'v" where
  "dget d k v = (case map_of d k of None \<Rightarrow> v | Some x \<Rightarrow> x)"

definition dkey :: "(string \<times> 'v) list \<Rightarrow> string \<Rightarrow> 'v res" where
  "dkey d k = opt_res (KeyError k) (map_of d k)"

definition dhas :: "('k \<times> 'v) list \<Rightarrow> 'k \<Rightarrow> bool" where
  "dhas d k = (map_of d k \<noteq> None)"

definition dsetdefault :: "('k \<times> 'v) list \<Rightarrow> 'k \<Rightarrow> 'v \<Rightarrow> ('k \<times> 'v) list" where
  "dsetdefault d k v = (if dhas d k then d else d @ [(k, v)])"

fun dupdate :: "('k \<times> 'v) list \<Rightarrow> ('k \<times> 'v) list \<Rightarrow> ('k \<times> 'v) list" where
  "dupdate d [] = d"
| "dupdate d ((k, v) # kvs) = dupdate (dset d k v) kvs"

lemma dget_dset [simp]: "dget (dset d k v) k' x = (if k = k' then v else dget d k' x)"
  by (simp add: dget_def update_conv')

lemma dhas_dset [simp]: "dhas (dset d k v) k' \<longleftrightarrow> k = k' \<or> dhas d k'"
  by (simp add: dhas_def update_conv')

lemma map_of_dsetdefault:
  "map_of (dsetdefault d k v) = (if dhas d k then map_of d else (map_of d)(k \<mapsto> v))"
  by (auto simp: dsetdefault_def dhas_def map_add_def fun_eq_iff split: option.splits)

lemma length_dset: "length (dset d k v) \<le> Suc (length d)"
  by (induction d) auto

lemma distinct_dset [simp]: "distinct (map fst d) \<Longrightarrow> distinct (map fst (dset d k v))"
  by (rule distinct_update)

definition as_dict :: "json \<Rightarrow> dict res" where
  "as_dict j = (case j of JObj d \<Rightarrow> Inr d | _ \<Rightarrow> Inl (AttributeError ''get''))"

lemma as_dict_JObj [simp, res_simps]: "as_dict (JObj d) = Inr d"
  by (simp add: as_dict_def)

lemma as_dict_Inr [simp]: "as_dict j = Inr d \<longleftrightarrow> j = JObj d"
  by (cases j) (auto simp: as_dict_def)

end
