(* ===== verification/Py_Text.thy ===== *)
theory Py_Text
  imports Prelude
begin

text \<open>
  Text and numbers as the Python sources handle them: UTF-8 validity, the string methods in
  use, decimal and hexadecimal notation, and the conversions \<open>int(x)\<close>,
  \<open>str(x)\<close>, \<open>bool(x)\<close> and \<open>x or y\<close> on JSON values.
  \<open>strip\<close> and \<open>lower\<close> act on ASCII characters, the only ones the sources rely on.
\<close>

subsection \<open>Bytes, ASCII and UTF-8\<close>

abbreviation code :: "char \<Rightarrow> nat" where
  "code c \<equiv> of_char c"

lemma code_char_of [simp]: "n < 256 \<Longrightarrow> code (char_of n) = (n::nat)"
  by simp

definition is_ascii :: "string \<Rightarrow> bool" where
  "is_ascii s = list_all (\<lambda>c. code c < 128) s"

definition cont_byte :: "char \<Rightarrow> bool" where
  "cont_byte c = (128 \<le> code c \<and> code c < 192)"

fun utf8_valid :: "string \<Rightarrow> bool" where
  "utf8_valid [] = True"
| "utf8_valid (c # r) =
     (if code c < 128 then utf8_valid r
      else if 194 \<le> code c \<and> code c < 224 then
        (case r of c1 # r1 \<Rightarrow> cont_byte c1 \<and> utf8_valid r1 | _ \<Rightarrow> False)
      else if 224 \<le> code c \<and> code c < 240 then
        (case r of c1 # c2 # r2 \<Rightarrow>
           cont_byte c1 \<and> cont_byte c2 \<and> (code c = 224 \<longrightarrow> 160 \<le> code c1)
           \<and> (code c = 237 \<longrightarrow> code c1 < 160) \<and> utf8_valid r2
         | _ \<Rightarrow> False)
      else if 240 \<le> code c \<and> code c < 245 then
        (case r of c1 # c2 # c3 # r3 \<Rightarrow>
           cont_byte c1 \<and> cont_byte c2 \<and> cont_byte c3 \<and> (code c = 240 \<longrightarrow> 144 \<le> code c1)
           \<and> (code c = 244 \<longrightarrow> code c1 < 144) \<and> utf8_valid r3
         | _ \<Rightarrow> False)
      else False)"

definition utf8_decode :: "bytes \<Rightarrow> string res" where
  "utf8_decode b = (if utf8_valid b then Inr b else Inl UnicodeError)"

definition ascii_encode :: "string \<Rightarrow> bytes res" where
  "ascii_encode s = (if is_ascii s then Inr s else Inl UnicodeError)"

definition py_len :: "string \<Rightarrow> nat" where
  "py_len s = length (filter (\<lambda>c. \<not> cont_byte c) s)"

lemma is_ascii_Nil [simp, ascii_simps]: "is_ascii []"
  and is_ascii_Cons [simp]: "is_ascii (c # s) \<longleftrightarrow> code c < 128 \<and> is_ascii s"
  and is_ascii_append [simp]: "is_ascii (s @ t) \<longleftrightarrow> is_ascii s \<and> is_ascii t"
  by (simp_all add: is_ascii_def)

lemma is_ascii_set: "is_ascii s \<longleftrightarrow> (\<forall>c \<in> set s. code c < 128)"
  by (simp add: is_ascii_def list_all_iff)

lemma is_ascii_concat [simp]: "is_ascii (concat ss) \<longleftrightarrow> list_all is_ascii ss"
  by (induction ss) auto

lemma utf8_valid_append: "utf8_valid a \<Longrightarrow> utf8_valid (a @ b) = utf8_valid b"
  by (induction a rule: utf8_valid.induct) (auto split: if_splits list.splits)

lemma utf8_valid_appendI [intro]: "utf8_valid a \<Longrightarrow> utf8_valid b \<Longrightarrow> utf8_valid (a @ b)"
  by (simp add: utf8_valid_append)

lemma ascii_utf8 [intro]: "is_ascii s \<Longrightarrow> utf8_valid s"
  by (induction s) auto

lemma utf8_valid_concat: "list_all utf8_valid ss \<Longrightarrow> utf8_valid (concat ss)"
  by (induction ss) auto

lemma utf8_decode_ok [simp]: "utf8_valid b \<Longrightarrow> utf8_decode b = Inr b"
  by (simp add: utf8_decode_def)

lemma utf8_decode_Inr [simp]: "utf8_decode b = Inr s \<longleftrightarrow> utf8_valid b \<and> s = b"
  by (auto simp: utf8_decode_def)

lemma ascii_encode_ok [simp]: "is_ascii s \<Longrightarrow> ascii_encode s = Inr s"
  by (simp add: ascii_encode_def)

lemma py_len_ascii: "is_ascii s \<Longrightarrow> py_len s = length s"
  by (induction s) (auto simp: py_len_def cont_byte_def)

lemma py_len_append [simp]: "py_len (a @ b) = py_len a + py_len b"
  by (simp add: py_len_def)

lemma py_len_0 [simp]: "py_len [] = 0"
  by (simp add: py_len_def)

subsection \<open>String methods\<close>

definition starts_with :: "string \<Rightarrow> string \<Rightarrow> bool" where
  "starts_with s p = (take (length p) s = p)"

lemma starts_with_append [simp]: "starts_with (p @ s) p"
  by (simp add: starts_with_def)

lemma starts_with_Nil [simp]: "starts_with s []"
  by (simp add: starts_with_def)

lemma starts_with_Cons [simp]:
  "starts_with (c # s) (d # p) \<longleftrightarrow> c = d \<and> starts_with s p"
  "starts_with [] (d # p) \<longleftrightarrow> False"
  by (auto simp: starts_with_def)

definition ends_with :: "string \<Rightarrow> string \<Rightarrow> bool" where
  "ends_with s p = (length p \<le> length s \<and> drop (length s - length p) s = p)"

fun contains :: "string \<Rightarrow> string \<Rightarrow> bool" where
  "contains sub [] = (sub = [])"
| "contains sub (c # s) = (starts_with (c # s) sub \<or> contains sub s)"

definition py_space :: "char \<Rightarrow> bool" where
  "py_space c = (code c \<in> {9, 10, 11, 12, 13, 28, 29, 30, 31, 32})"

definition strip :: "string \<Rightarrow> string" where
  "strip s = rev (dropWhile py_space (rev (dropWhile py_space s)))"

definition rstrip_char :: "char \<Rightarrow> string \<Rightarrow> string" where
  "rstrip_char ch s = rev (dropWhile (\<lambda>c. c = ch) (rev s))"

definition lower_char :: "char \<Rightarrow> char" where
  "lower_char c = (if 65 \<le> code c \<and> code c \<le> 90 then char_of (code c + 32) else c)"

definition lower :: "string \<Rightarrow> string" where
  "lower s = map lower_char s"

definition replace_char :: "char \<Rightarrow> char \<Rightarrow> string \<Rightarrow> string" where
  "replace_char a b s = map (\<lambda>c. if c = a then b else c) s"

fun join :: "string \<Rightarrow> string list \<Rightarrow> string" where
  "join sep [] = []"
| "join sep [s] = s"
| "join sep (s # t # ts) = s @ sep @ join sep (t # ts)"

fun split_on :: "char \<Rightarrow> string \<Rightarrow> string list" where
  "split_on sep [] = [[]]"
| "split_on sep (c # s) =
     (if c = sep then [] # split_on sep s
      else (case split_on sep s of [] \<Rightarrow> [[c]] | w # ws \<Rightarrow> (c # w) # ws))"

lemma strip_id: "s = [] \<or> (\<not> py_space (hd s) \<and> \<not> py_space (last s)) \<Longrightarrow> strip s = s"
proof -
  assume s: "s = [] \<or> (\<not> py_space (hd s) \<and> \<not> py_space (last s))"
  then have "dropWhile py_space s = s" by (cases s) auto
  moreover from s have "dropWhile py_space (rev s) = rev s" by (cases s rule: rev_cases) auto
  ultimately show ?thesis by (simp add: strip_def)
qed

lemma split_on_nonempty [simp]: "split_on c s \<noteq> []"
  by (induction s) (auto split: list.splits)

lemma split_on_free: "c \<notin> set s \<Longrightarrow> split_on c s = [s]"
  by (induction s) auto

lemma split_on_append: "c \<notin> set s \<Longrightarrow> split_on c (s @ c # t) = s # split_on c t"
  by (induction s) auto

lemma replace_char_id: "a \<notin> set s \<Longrightarrow> replace_char a b s = s"
  by (auto simp: replace_char_def intro: map_idI)

lemma rstrip_char_append:
  "s = [] \<or> last s \<noteq> c \<Longrightarrow> rstrip_char c (s @ replicate n c) = s"
proof -
  assume s: "s = [] \<or> last s \<noteq> c"
  have "dropWhile (\<lambda>x. x = c) (replicate n c @ t) = dropWhile (\<lambda>x. x = c) t" for t
    by (induction n) auto
  with s show ?thesis
    by (cases s rule: rev_cases) (auto simp: rstrip_char_def)
qed

lemma is_ascii_join: "is_ascii sep \<Longrightarrow> list_all is_ascii ss \<Longrightarrow> is_ascii (join sep ss)"
  by (induction sep ss rule: join.induct) auto

lemma utf8_valid_join: "utf8_valid sep \<Longrightarrow> list_all utf8_valid ss \<Longrightarrow> utf8_valid (join sep ss)"
  by (induction sep ss rule: join.induct) auto

subsection \<open>Decimal notation\<close>

definition is_digit :: "char \<Rightarrow> bool" where
  "is_digit c = (48 \<le> code c \<and> code c \<le> 57)"

definition digit_val :: "char \<Rightarrow> nat" where
  "digit_val c = code c - 48"

definition digit_char :: "nat \<Rightarrow> char" where
  "digit_char d = char_of (48 + d)"

fun show_nat :: "nat \<Rightarrow> string" where
  "show_nat n = (if n < 10 then [digit_char n] else show_nat (n div 10) @ [digit_char (n mod 10)])"

declare show_nat.simps [simp del]

definition show_int :: "int \<Rightarrow> string" where
  "show_int i = (if i < 0 then ''-'' @ show_nat (nat (- i)) else show_nat (nat i))"

definition digits_val :: "nat \<Rightarrow> string \<Rightarrow> nat" where
  "digits_val a s = foldl (\<lambda>a c. 10 * a + digit_val c) a s"

lemma digit_char_props [simp]:
  "d < 10 \<Longrightarrow> is_digit (digit_char d)"
  "d < 10 \<Longrightarrow> digit_val (digit_char d) = d"
  "d < 10 \<Longrightarrow> code (digit_char d) = 48 + d"
  by (simp_all add: is_digit_def digit_val_def digit_char_def)

lemma digits_val_simps [simp]:
  "digits_val a [] = a"
  "digits_val a (c # s) = digits_val (10 * a + digit_val c) s"
  "digits_val a (s @ [c]) = 10 * digits_val a s + digit_val c"
  by (simp_all add: digits_val_def)

lemma show_nat_digits [simp]: "list_all is_digit (show_nat n)"
proof (induction n rule: show_nat.induct)
  case (1 n)
  then show ?case by (subst show_nat.simps) simp
qed

lemma show_nat_nonempty [simp]: "show_nat n \<noteq> []"
  by (subst show_nat.simps) simp

lemma digits_val_show_nat [simp]: "digits_val 0 (show_nat n) = n"
proof (induction n rule: show_nat.induct)
  case (1 n)
  then show ?case by (subst show_nat.simps) (auto simp: mult.commute)
qed

lemma digit_char_0: "digit_char 0 = CHR ''0''"
proof -
  have "code (digit_char 0) = code (CHR ''0'')" by simp
  then show ?thesis by (simp only: of_char_eq_iff)
qed

lemma show_nat_0 [simp]: "show_nat 0 = ''0''"
  by (simp add: show_nat.simps [of 0] digit_char_0)

lemma show_nat_hd: "hd (show_nat n) = CHR ''0'' \<longleftrightarrow> n = 0"
proof (induction n rule: show_nat.induct)
  case (1 n)
  show ?case
  proof (cases "n < 10")
    case True
    have "digit_char n = CHR ''0'' \<longleftrightarrow> code (digit_char n) = code (CHR ''0'')"
      by (simp only: of_char_eq_iff)
    with True have "digit_char n = CHR ''0'' \<longleftrightarrow> n = 0" by simp
    with True show ?thesis by (subst show_nat.simps) simp
  next
    case False
    with "1.IH" show ?thesis by (subst show_nat.simps) auto
  qed
qed

lemma show_nat_ascii [simp, ascii_simps]: "is_ascii (show_nat n)"
proof -
  have "c \<in> set (show_nat n) \<Longrightarrow> is_digit c" for c
    using show_nat_digits [of n] by (auto simp: list_all_iff)
  then show ?thesis by (force simp: is_ascii_set is_digit_def)
qed

lemma show_int_ascii [simp, ascii_simps]: "is_ascii (show_int i)"
  by (simp add: show_int_def)

lemma show_int_nonempty [simp]: "show_int i \<noteq> []"
  by (simp add: show_int_def)

text \<open>\<open>int(s)\<close> of a string: surrounding whitespace, a sign, digits with single underscores.\<close>

fun more_digits :: "nat \<Rightarrow> string \<Rightarrow> nat option" where
  "more_digits a [] = Some a"
| "more_digits a (c # r) =
     (if is_digit c then more_digits (10 * a + digit_val c) r
      else if c = CHR ''_'' then
        (case r of d # r' \<Rightarrow> if is_digit d then more_digits (10 * a + digit_val d) r' else None
                 | [] \<Rightarrow> None)
      else None)"

definition nat_of_str :: "string \<Rightarrow> nat option" where
  "nat_of_str s = (case s of c # r \<Rightarrow> if is_digit c then more_digits (digit_val c) r else None
                           | [] \<Rightarrow> None)"

definition int_of_str :: "string \<Rightarrow> int option" where
  "int_of_str s = (case strip s of
       [] \<Rightarrow> None
     | c # r \<Rightarrow> if c = CHR ''-'' then map_option (\<lambda>n. - int n) (nat_of_str r)
               else if c = CHR ''+'' then map_option int (nat_of_str r)
               else map_option int (nat_of_str (c # r)))"

lemma more_digits_val: "list_all is_digit s \<Longrightarrow> more_digits a s = Some (digits_val a s)"
  by (induction s arbitrary: a) auto

lemma nat_of_str_show_nat [simp]: "nat_of_str (show_nat n) = Some n"
proof -
  obtain c r where s: "show_nat n = c # r" by (cases "show_nat n") auto
  with show_nat_digits [of n] have "is_digit c" and "list_all is_digit r" by auto
  moreover have "digits_val 0 (c # r) = n" using s digits_val_show_nat [of n] by simp
  ultimately show ?thesis by (simp add: s nat_of_str_def more_digits_val)
qed

lemma digit_not_space: "is_digit c \<Longrightarrow> \<not> py_space c"
  by (auto simp: is_digit_def py_space_def)

lemma show_nat_strip [simp]: "strip (show_nat n) = show_nat n"
proof -
  have "is_digit c" if "c \<in> set (show_nat n)" for c
    using that show_nat_digits [of n] by (auto simp: list_all_iff)
  then show ?thesis by (intro strip_id) (simp add: digit_not_space)
qed

lemma show_int_strip [simp]: "strip (show_int i) = show_int i"
proof (cases "i < 0")
  case True
  have "\<not> py_space (last (show_nat n))" for n
    using show_nat_digits [of n] by (simp add: list_all_iff digit_not_space)
  moreover have "\<not> py_space (CHR ''-'')" by (simp add: py_space_def)
  ultimately show ?thesis using True by (intro strip_id) (simp add: show_int_def)
qed (simp add: show_int_def)

lemma show_nat_signless:
  assumes "show_nat n = c # r" shows "c \<noteq> CHR ''-''" and "c \<noteq> CHR ''+''"
  using show_nat_digits [of n] assms by (auto simp: is_digit_def)

lemma int_of_str_show_int [simp]: "int_of_str (show_int i) = Some i"
proof (cases "i < 0")
  case True
  have "strip (show_int i) = show_int i" by simp
  with True show ?thesis unfolding int_of_str_def by (simp add: show_int_def)
next
  case False
  obtain c r where s: "show_nat (nat i) = c # r" by (cases "show_nat (nat i)") auto
  have "nat_of_str (c # r) = Some (nat i)" and "strip (c # r) = c # r" by (simp_all flip: s)
  with False s show_nat_signless [OF s] show ?thesis
    by (simp add: int_of_str_def show_int_def)
qed

lemma show_int_inject [simp]: "show_int i = show_int j \<longleftrightarrow> i = j"
  using int_of_str_show_int option.inject by metis

lemma show_nat_inject [simp]: "show_nat i = show_nat j \<longleftrightarrow> i = j"
  using nat_of_str_show_nat option.inject by metis

subsection \<open>Hexadecimal notation\<close>

definition hex_digit :: "nat \<Rightarrow> char" where
  "hex_digit d = (if d < 10 then char_of (48 + d) else char_of (87 + d))"

definition hex_val :: "char \<Rightarrow> nat option" where
  "hex_val c =
     (if 48 \<le> code c \<and> code c \<le> 57 then Some (code c - 48)
      else if 97 \<le> code c \<and> code c \<le> 102 then Some (code c - 87)
      else if 65 \<le> code c \<and> code c \<le> 70 then Some (code c - 55)
      else None)"

text \<open>\<open>bytes.hex()\<close> and \<open>bytes.fromhex\<close>, which skips ASCII whitespace between bytes.\<close>

definition to_hex :: "bytes \<Rightarrow> string" where
  "to_hex b = concat (map (\<lambda>c. [hex_digit (code c div 16), hex_digit (code c mod 16)]) b)"

fun from_hex_opt :: "string \<Rightarrow> bytes option" where
  "from_hex_opt [] = Some []"
| "from_hex_opt [c] = (if py_space c \<and> code c < 28 \<or> c = CHR '' '' then Some [] else None)"
| "from_hex_opt (c # d # s) =
     (if py_space c \<and> code c < 28 \<or> c = CHR '' '' then from_hex_opt (d # s)
      else (case (hex_val c, hex_val d) of
              (Some h, Some l) \<Rightarrow> map_option (\<lambda>r. char_of (16 * h + l) # r) (from_hex_opt s)
            | _ \<Rightarrow> None))"

definition from_hex :: "string \<Rightarrow> bytes res" where
  "from_hex s = opt_res (ValueError ''non-hexadecimal number found in fromhex()'') (from_hex_opt s)"

lemma hex_digit_props:
  assumes "d < 16"
  shows "hex_val (hex_digit d) = Some d" and "\<not> py_space (hex_digit d)"
    and "code (hex_digit d) < 128" and "hex_digit d \<noteq> CHR '' ''"
proof -
  have "d \<in> {0, 1, 2, 3, 4, 5, 6, 7, 8, 9, 10, 11, 12, 13, 14, 15}"
    using assms by simp presburger
  then show "hex_val (hex_digit d) = Some d" and "\<not> py_space (hex_digit d)"
    and "code (hex_digit d) < 128" and "hex_digit d \<noteq> CHR '' ''"
    by (auto simp: hex_digit_def hex_val_def py_space_def char_of_eq_iff)
qed

lemma to_hex_simps [simp]:
  "to_hex [] = []"
  "to_hex (c # b) = hex_digit (code c div 16) # hex_digit (code c mod 16) # to_hex b"
  by (simp_all add: to_hex_def)

lemma length_to_hex [simp]: "length (to_hex b) = 2 * length b"
  by (induction b) auto

lemma code_div_16 [simp]: "code c div 16 < 16"
  using nat_of_char_less_256 [of c] by linarith

lemma to_hex_ascii [simp, ascii_simps]: "is_ascii (to_hex b)"
  by (induction b) (auto simp: hex_digit_props)

lemma from_hex_to_hex_opt [simp]: "from_hex_opt (to_hex b) = Some b"
proof (induction b)
  case (Cons c b)
  have "16 * (code c div 16) + code c mod 16 = code c" by simp
  with Cons show ?case by (simp add: hex_digit_props)
qed simp

lemma from_hex_to_hex [simp]: "from_hex (to_hex b) = Inr b"
  by (simp add: from_hex_def)

lemma to_hex_inject [simp]: "to_hex a = to_hex b \<longleftrightarrow> a = b"
  using from_hex_to_hex_opt option.inject by metis

subsection \<open>Conversions of JSON values\<close>

text \<open>
  A float literal is split into sign, decimal mantissa and decimal exponent; \<open>NaN\<close> and the
  infinities have none.
\<close>

definition split_digits :: "string \<Rightarrow> string \<times> string" where
  "split_digits s = (takeWhile is_digit s, dropWhile is_digit s)"

definition float_parts :: "string \<Rightarrow> (bool \<times> nat \<times> int) option" where
  "float_parts s =
     (let neg = starts_with s ''-'';
          body = (if neg then tl s else s);
          (ip, r1) = split_digits body;
          (fp, r2) = (case r1 of CHR ''.'' # r \<Rightarrow> split_digits r | _ \<Rightarrow> ([], r1));
          ex = (case r2 of
                  [] \<Rightarrow> Some 0
                | c # r \<Rightarrow> if c = CHR ''e'' \<or> c = CHR ''E'' then int_of_str r else None)
      in if ip = [] then None
         else map_option (\<lambda>e. (neg, digits_val 0 (ip @ fp), e - int (length fp))) ex)"

definition float_trunc :: "string \<Rightarrow> int res" where
  "float_trunc s = (case float_parts s of
       None \<Rightarrow> Inl (if s = ''NaN'' then ValueError ''cannot convert float NaN to integer''
                    else OverflowError)
     | Some (neg, m, e) \<Rightarrow>
         let v = (if 0 \<le> e then m * 10 ^ nat e else m div 10 ^ nat (- e))
         in Inr (if neg then - int v else int v))"

text \<open>Whether the number a literal stands for is below an integer; false for \<open>NaN\<close>.\<close>

definition float_below :: "string \<Rightarrow> int \<Rightarrow> bool" where
  "float_below s n = (case float_parts s of
       None \<Rightarrow> s = ''-Infinity''
     | Some (neg, m, e) \<Rightarrow>
         let v = (if neg then - int m else int m)
         in if 0 \<le> e then v * 10 ^ nat e < n else v < n * 10 ^ nat (- e))"

definition truthy :: "json \<Rightarrow> bool" where
  "truthy j = (case j of
       JNull \<Rightarrow> False | JBool b \<Rightarrow> b | JInt i \<Rightarrow> i \<noteq> 0
     | JFloat s \<Rightarrow> (case float_parts s of Some (_, m, _) \<Rightarrow> m \<noteq> 0 | None \<Rightarrow> True)
     | JStr s \<Rightarrow> s \<noteq> [] | JArr xs \<Rightarrow> xs \<noteq> [] | JObj d \<Rightarrow> d \<noteq> [])"

definition py_or :: "json \<Rightarrow> json \<Rightarrow> json" where
  "py_or a b = (if truthy a then a else b)"

definition py_int :: "json \<Rightarrow> int res" where
  "py_int j = (case j of
       JInt i \<Rightarrow> Inr i
     | JBool b \<Rightarrow> Inr (if b then 1 else 0)
     | JFloat s \<Rightarrow> float_trunc s
     | JStr s \<Rightarrow> opt_res (ValueError ''invalid literal for int() with base 10'') (int_of_str s)
     | _ \<Rightarrow> Inl (TypeError ''int() argument must be a string or a number''))"

text \<open>\<open>repr\<close>, which \<open>str\<close> applies to the members of a list or dict.\<close>

definition repr_char :: "char \<Rightarrow> char \<Rightarrow> string" where
  "repr_char q c =
     (if c = q \<or> c = CHR 0x5C then [CHR 0x5C, c]
      else if c = CHR 0x0A then [CHR 0x5C, CHR ''n'']
      else if c = CHR 0x0D then [CHR 0x5C, CHR ''r'']
      else if c = CHR 0x09 then [CHR 0x5C, CHR ''t'']
      else if code c < 32 \<or> code c = 127 then [CHR 0x5C, CHR ''x''] @ to_hex [c]
      else [c])"

definition repr_str :: "string \<Rightarrow> string" where
  "repr_str s =
     (let q = (if CHR 0x27 \<in> set s \<and> CHR 0x22 \<notin> set s then CHR 0x22 else CHR 0x27)
      in [q] @ concat (map (repr_char q) s) @ [q])"

fun py_repr :: "json \<Rightarrow> string" where
  "py_repr JNull = ''None''"
| "py_repr (JBool b) = (if b then ''True'' else ''False'')"
| "py_repr (JInt i) = show_int i"
| "py_repr (JFloat s) = s"
| "py_repr (JStr s) = repr_str s"
| "py_repr (JArr xs) = ''['' @ join '', '' (map py_repr xs) @ '']''"
| "py_repr (JObj d) = ''{'' @ join '', '' (map (\<lambda>kv. repr_str (fst kv) @ '': '' @ py_repr (snd kv)) d) @ ''}''"

definition py_str :: "json \<Rightarrow> string" where
  "py_str j = (case j of JStr s \<Rightarrow> s | _ \<Rightarrow> py_repr j)"

definition is_str :: "json \<Rightarrow> bool" where
  "is_str j = (case j of JStr _ \<Rightarrow> True | _ \<Rightarrow> False)"

definition is_dict :: "json \<Rightarrow> bool" where
  "is_dict j = (case j of JObj _ \<Rightarrow> True | _ \<Rightarrow> False)"

lemma truthy_simps [simp]:
  "truthy JNull = False" "truthy (JBool b) = b" "truthy (JInt i) = (i \<noteq> 0)"
  "truthy (JStr s) = (s \<noteq> [])" "truthy (JArr xs) = (xs \<noteq> [])" "truthy (JObj d) = (d \<noteq> [])"
  by (simp_all add: truthy_def)

lemma py_int_simps [simp]:
  "py_int (JInt i) = Inr i"
  "py_int (JBool b) = Inr (if b then 1 else 0)"
  "py_int JNull = Inl (TypeError ''int() argument must be a string or a number'')"
  "py_int (JStr (show_int i)) = Inr i"
  by (simp_all add: py_int_def)

lemma py_str_simps [simp]:
  "py_str (JStr s) = s" "py_str (JInt i) = show_int i" "py_str JNull = ''None''"
  by (simp_all add: py_str_def)

lemma py_or_simps [simp]:
  "py_or (JInt i) (JInt 0) = JInt i"
  "py_or (JStr s) (JStr []) = JStr s"
  "py_or JNull b = b"
  "py_or (JObj d) (JObj []) = JObj d"
  "py_or (JArr xs) (JArr []) = JArr xs"
  by (simp_all add: py_or_def)

lemma is_str_simps [simp]: "is_str (JStr s)" "is_dict (JObj d)"
  by (simp_all add: is_str_def is_dict_def)

subsection \<open>Iteration, subscripts and equality of values\<close>

text \<open>The code points of a text, each as its UTF-8 bytes.\<close>

fun points_from :: "string \<Rightarrow> string \<Rightarrow> string list" where
  "points_from acc [] = (if acc = [] then [] else [acc])"
| "points_from acc (c # cs) =
     (if cont_byte c then points_from (acc @ [c]) cs
      else (if acc = [] then [] else [acc]) @ points_from [c] cs)"

text \<open>\<open>for x in j\<close>: a dict iterates over its keys, a string over its characters.\<close>

definition as_list :: "json \<Rightarrow> json list res" where
  "as_list j = (case j of
       JArr xs \<Rightarrow> Inr xs
     | JObj d \<Rightarrow> Inr (map (\<lambda>kv. JStr (fst kv)) d)
     | JStr s \<Rightarrow> Inr (map JStr (points_from [] s))
     | _ \<Rightarrow> Inl (TypeError ''object is not iterable''))"

lemma as_list_JArr [simp, res_simps]: "as_list (JArr xs) = Inr xs"
  by (simp add: as_list_def)

text \<open>\<open>dict(j)\<close>\<close>

definition dict_of :: "json \<Rightarrow> dict res" where
  "dict_of j = (case j of
       JObj d \<Rightarrow> Inr d
     | _ \<Rightarrow> rbind (as_list j) (\<lambda>xs. rfold (\<lambda>x d. rbind (as_list x) (\<lambda>kv. case kv of
           [JStr k, v] \<Rightarrow> Inr (dset d k v)
         | _ \<Rightarrow> Inl (ValueError ''dictionary update sequence element''))) xs []))"

lemma dict_of_JObj [simp, res_simps]: "dict_of (JObj d) = Inr d"
  by (simp add: dict_of_def)

text \<open>\<open>j[k]\<close> with a text key\<close>

definition jkey :: "json \<Rightarrow> string \<Rightarrow> json res" where
  "jkey j k = (case j of JObj d \<Rightarrow> dkey d k | _ \<Rightarrow> Inl (TypeError ''indices must be integers''))"

lemma jkey_JObj [simp, res_simps]: "jkey (JObj d) k = dkey d k"
  by (simp add: jkey_def)

lemma dkey_simps [simp, res_simps]:
  "dkey [] k = Inl (KeyError k)" "dkey ((k', v) # d) k = (if k' = k then Inr v else dkey d k)"
  by (simp_all add: dkey_def)

text \<open>\<open>a == b\<close>: numbers compare by value across their types, dicts by their entries.\<close>

definition num_parts :: "json \<Rightarrow> (bool \<times> nat \<times> int) option" where
  "num_parts j = (case j of
       JBool b \<Rightarrow> Some (False, if b then 1 else 0, 0)
     | JInt i \<Rightarrow> Some (i < 0, nat \<bar>i\<bar>, 0)
     | JFloat s \<Rightarrow> float_parts s
     | _ \<Rightarrow> None)"

definition num_eq :: "bool \<times> nat \<times> int \<Rightarrow> bool \<times> nat \<times> int \<Rightarrow> bool" where
  "num_eq a b = (case (a, b) of ((s, m, e), (s', m', e')) \<Rightarrow>
     let k = min e e'; x = m * 10 ^ nat (e - k); y = m' * 10 ^ nat (e' - k)
     in x = y \<and> (s = s' \<or> x = 0))"

function py_eq :: "json \<Rightarrow> json \<Rightarrow> bool" where
  "py_eq a b = (case (a, b) of
       (JNull, JNull) \<Rightarrow> True
     | (JStr s, JStr t) \<Rightarrow> s = t
     | (JArr xs, JArr ys) \<Rightarrow> length xs = length ys \<and> list_all (\<lambda>(x, y). py_eq x y) (zip xs ys)
     | (JObj d, JObj e) \<Rightarrow> length d = length e
         \<and> list_all (\<lambda>(k, v). case map_of e k of None \<Rightarrow> False | Some w \<Rightarrow> py_eq v w) d
     | _ \<Rightarrow> (case (num_parts a, num_parts b) of (Some x, Some y) \<Rightarrow> num_eq x y | _ \<Rightarrow> False))"
  by pat_completeness auto
termination
  by (relation "measure (\<lambda>(a, b). size a)")
     (auto dest!: set_zip_leftD simp: less_Suc_eq_le intro!: order_trans [OF _ size_list_estimation'] dest: map_of_SomeD)

declare py_eq.simps [simp del]

end
