(* ===== verification/Codec.thy ===== *)
theory Codec
  imports Py_Text
begin

text \<open>
  Encodings between values and text. The locale \<open>codec\<close> is the interface the wire and
  file formats rely on (what was encoded decodes to itself, hence encoding is injective);
  \<open>codec_comp\<close> composes two of them. Base64 is modelled with CPython's decoder loop
  (\<open>binascii.a2b_base64\<close> in its non-strict mode, which skips foreign characters and
  stops at a complete padding); \<open>b64e\<close> and \<open>b64d\<close> are the url-safe unpadded
  variants of \<open>client/crypto_engine/secure_protocol.py\<close>.
\<close>

subsection \<open>The interface of an encoding\<close>

locale codec =
  fixes ok :: "'a \<Rightarrow> bool"
    and enc :: "'a \<Rightarrow> string"
    and dec :: "string \<Rightarrow> 'a res"
  assumes dec_enc: "ok x \<Longrightarrow> dec (enc x) = Inr x"
begin

lemma enc_inject:
  assumes "ok x" and "ok y"
  shows "enc x = enc y \<longleftrightarrow> x = y"
proof
  assume "enc x = enc y"
  then have "dec (enc x) = dec (enc y)" by simp
  with assms show "x = y" by (simp add: dec_enc)
qed simp

lemma dec_enc_Inr: "ok x \<Longrightarrow> dec (enc x) = Inr y \<longleftrightarrow> y = x"
  by (auto simp: dec_enc)

end

locale codec_comp = outer: codec ok1 enc1 dec1 + inner: codec ok2 enc2 dec2
  for ok1 :: "string \<Rightarrow> bool" and enc1 dec1 and ok2 :: "'a \<Rightarrow> bool" and enc2 dec2 +
  assumes ok_through: "ok2 x \<Longrightarrow> ok1 (enc2 x)"
begin

lemma dec_enc_comp: "ok2 x \<Longrightarrow> rbind (dec1 (enc1 (enc2 x))) dec2 = Inr x"
  by (simp add: outer.dec_enc inner.dec_enc ok_through)

end

sublocale codec_comp \<subseteq> comp: codec ok2 "\<lambda>x. enc1 (enc2 x)" "\<lambda>s. rbind (dec1 s) dec2"
  by unfold_locales (rule dec_enc_comp)

interpretation hexc: codec "\<lambda>_. True" to_hex from_hex
  by unfold_locales simp

subsection \<open>Base64\<close>

definition sextet_char :: "nat \<Rightarrow> char" where
  "sextet_char i = char_of
     (if i < 26 then 65 + i else if i < 52 then 71 + i else if i < 62 then i - 4
      else if i = 62 then 43 else 47)"

definition sextet_val :: "char \<Rightarrow> nat option" where
  "sextet_val c =
     (let n = code c in
      if 65 \<le> n \<and> n \<le> 90 then Some (n - 65)
      else if 97 \<le> n \<and> n \<le> 122 then Some (n - 71)
      else if 48 \<le> n \<and> n \<le> 57 then Some (n + 4)
      else if n = 43 then Some 62
      else if n = 47 then Some 63
      else None)"

fun b64_body :: "bytes \<Rightarrow> string" where
  "b64_body [] = []"
| "b64_body [a] = [sextet_char (code a div 4), sextet_char (code a mod 4 * 16)]"
| "b64_body [a, b] =
     [sextet_char (code a div 4), sextet_char (code a mod 4 * 16 + code b div 16),
      sextet_char (code b mod 16 * 4)]"
| "b64_body (a # b # c # r) =
     [sextet_char (code a div 4), sextet_char (code a mod 4 * 16 + code b div 16),
      sextet_char (code b mod 16 * 4 + code c div 64), sextet_char (code c mod 64)] @ b64_body r"

definition b64_pad :: "bytes \<Rightarrow> nat" where
  "b64_pad b = (3 - length b mod 3) mod 3"

definition b64encode :: "bytes \<Rightarrow> string" where
  "b64encode b = b64_body b @ replicate (b64_pad b) (CHR ''='')"

fun a2b :: "nat \<Rightarrow> nat \<Rightarrow> nat \<Rightarrow> string \<Rightarrow> bytes option" where
  "a2b q left pads [] = (if q = 0 then Some [] else None)"
| "a2b q left pads (c # s) =
     (if c = CHR ''='' then
        (if 2 \<le> q then (if 4 \<le> q + (pads + 1) then Some [] else a2b q left (pads + 1) s)
         else a2b q left pads s)
      else (case sextet_val c of
              None \<Rightarrow> a2b q left pads s
            | Some v \<Rightarrow>
                if q = 0 then a2b 1 v 0 s
                else if q = 1 then
                  map_option (\<lambda>r. char_of (left * 4 + v div 16) # r) (a2b 2 (v mod 16) 0 s)
                else if q = 2 then
                  map_option (\<lambda>r. char_of (left * 16 + v div 4) # r) (a2b 3 (v mod 4) 0 s)
                else map_option (\<lambda>r. char_of (left * 64 + v) # r) (a2b 0 0 0 s)))"

definition b64decode :: "string \<Rightarrow> bytes res" where
  "b64decode s = rbind (ascii_encode s)
     (\<lambda>r. opt_res (ValueError ''Incorrect padding'') (a2b 0 0 0 r))"

definition to_urlsafe :: "string \<Rightarrow> string" where
  "to_urlsafe s = replace_char (CHR ''/'') (CHR ''_'') (replace_char (CHR ''+'') (CHR ''-'') s)"

definition from_urlsafe :: "string \<Rightarrow> string" where
  "from_urlsafe s = replace_char (CHR ''_'') (CHR ''/'') (replace_char (CHR ''-'') (CHR ''+'') s)"

definition b64e :: "bytes \<Rightarrow> string" where
  "b64e raw = rstrip_char (CHR ''='') (to_urlsafe (b64encode raw))"

definition b64d :: "string \<Rightarrow> bytes res" where
  "b64d text = b64decode (from_urlsafe (text @ replicate ((4 - py_len text mod 4) mod 4) (CHR ''='')))"

lemma code_sextet_char:
  "i < 64 \<Longrightarrow> code (sextet_char i) =
     (if i < 26 then 65 + i else if i < 52 then 71 + i else if i < 62 then i - 4
      else if i = 62 then 43 else 47)"
  by (simp add: sextet_char_def)

lemma sextet_props [simp]:
  assumes "i < 64"
  shows "sextet_val (sextet_char i) = Some i" and "code (sextet_char i) < 128"
    and "sextet_char i \<noteq> CHR ''=''" and "sextet_char i \<noteq> CHR ''-''"
    and "sextet_char i \<noteq> CHR ''_''" and "\<not> py_space (sextet_char i)"
proof -
  note c = code_sextet_char [OF assms]
  show "sextet_val (sextet_char i) = Some i"
    using assms by (auto simp: sextet_val_def c Let_def)
  show "code (sextet_char i) < 128" using assms unfolding c by presburger
  have "code (sextet_char i) \<notin> {61, 45, 95}" using assms unfolding c by simp presburger
  then show "sextet_char i \<noteq> CHR ''=''" and "sextet_char i \<noteq> CHR ''-''"
    and "sextet_char i \<noteq> CHR ''_''"
    by auto
  have "32 < code (sextet_char i)" using assms unfolding c by simp presburger
  then show "\<not> py_space (sextet_char i)" by (auto simp: py_space_def)
qed

text \<open>The arithmetic of splitting three bytes into four sextets and joining them again.\<close>

lemma sextet_bounds:
  fixes a b c :: nat
  assumes "a < 256" and "b < 256" and "c < 256"
  shows "a div 4 < 64" "a mod 4 * 16 < 64" "a mod 4 * 16 + b div 16 < 64"
    "b mod 16 * 4 < 64" "b mod 16 * 4 + c div 64 < 64"
proof -
  have "a mod 4 < 4" "b mod 16 < 16" by simp_all
  moreover have "a div 4 < 64" "b div 16 < 16" "c div 64 < 4" using assms by auto
  ultimately show "a div 4 < 64" "a mod 4 * 16 < 64" "a mod 4 * 16 + b div 16 < 64"
    "b mod 16 * 4 < 64" "b mod 16 * 4 + c div 64 < 64" by linarith+
qed

lemma join_div_mod:
  fixes q r n :: nat
  assumes "r < n"
  shows "(q * n + r) div n = q" and "(q * n + r) mod n = r"
  using assms by simp_all

lemma sextet_join:
  fixes a b c :: nat
  assumes "a < 256" and "b < 256" and "c < 256"
  shows "a div 4 * 4 + (a mod 4 * 16 + b div 16) div 16 = a"
    "(a mod 4 * 16 + b div 16) mod 16 * 16 + (b mod 16 * 4 + c div 64) div 4 = b"
    "(a mod 4 * 16 + b div 16) mod 16 * 16 + b mod 16 = b"
    "(b mod 16 * 4 + c div 64) mod 4 * 64 + c mod 64 = c"
proof -
  have b: "b div 16 < 16" and c: "c div 64 < 4" using assms by auto
  show "a div 4 * 4 + (a mod 4 * 16 + b div 16) div 16 = a"
    unfolding join_div_mod [OF b] by simp
  show "(a mod 4 * 16 + b div 16) mod 16 * 16 + (b mod 16 * 4 + c div 64) div 4 = b"
    unfolding join_div_mod [OF b] join_div_mod [OF c] by simp
  show "(a mod 4 * 16 + b div 16) mod 16 * 16 + b mod 16 = b"
    unfolding join_div_mod [OF b] by simp
  show "(b mod 16 * 4 + c div 64) mod 4 * 64 + c mod 64 = c"
    unfolding join_div_mod [OF c] by simp
qed

lemmas byte_sextets [simp] =
  sextet_bounds [OF nat_of_char_less_256 nat_of_char_less_256 nat_of_char_less_256]
lemmas byte_join =
  sextet_join [OF nat_of_char_less_256 nat_of_char_less_256 nat_of_char_less_256]

lemma b64_pad_step [simp]: "b64_pad (a # b # c # r) = b64_pad r"
  by (simp add: b64_pad_def)

lemma a2b_quad:
  assumes "i < 64" and "j < 64" and "k < 64" and "l < 64"
  shows "a2b 0 0 0 ([sextet_char i, sextet_char j, sextet_char k, sextet_char l] @ s) =
    map_option (\<lambda>r. char_of (i * 4 + j div 16) # char_of (j mod 16 * 16 + k div 4)
                      # char_of (k mod 4 * 64 + l) # r) (a2b 0 0 0 s)"
  using assms by (simp add: option.map_comp comp_def)

lemma a2b_b64encode: "a2b 0 0 0 (b64_body b @ replicate (b64_pad b) (CHR ''='')) = Some b"
proof (induction b rule: b64_body.induct)
  case 1
  then show ?case by (simp add: b64_pad_def)
next
  case (2 a)
  have "b64_pad [a] = 2" by (simp add: b64_pad_def)
  moreover have "code a div 4 * 4 + code a mod 4 * 16 div 16 = code a" by simp
  ultimately show ?case by (simp add: numeral_2_eq_2)
next
  case (3 a b)
  have "b64_pad [a, b] = 1" by (simp add: b64_pad_def)
  then show ?case by (simp add: byte_join del: mod_mult_self3)
next
  case (4 a b c r)
  show ?case
    unfolding b64_body.simps b64_pad_step append_assoc
      a2b_quad [OF byte_sextets(1) byte_sextets(3) byte_sextets(5) mod_less_divisor, OF zero_less_numeral]
      byte_join "4.IH" by simp
qed

definition b64_char :: "char \<Rightarrow> bool" where
  "b64_char c = (\<exists>i < 64. c = sextet_char i)"

lemma b64_charI [intro, simp]: "i < 64 \<Longrightarrow> b64_char (sextet_char i)"
  by (auto simp: b64_char_def)

lemma b64_body_chars: "list_all b64_char (b64_body b)"
  by (induction b rule: b64_body.induct) auto

lemma b64_char_props:
  assumes "b64_char c"
  shows "code c < 128" and "c \<noteq> CHR ''=''" and "c \<noteq> CHR ''-''" and "c \<noteq> CHR ''_''" and "\<not> py_space c"
  using assms by (auto simp: b64_char_def)

lemma b64_body_ascii [simp, ascii_simps]: "is_ascii (b64_body b)"
  using b64_body_chars [of b] by (auto simp: list_all_iff is_ascii_set b64_char_props)

lemma is_ascii_replicate [simp]: "code c < 128 \<Longrightarrow> is_ascii (replicate n c)"
  by (simp add: is_ascii_set)

lemma b64encode_ascii [simp, ascii_simps]: "is_ascii (b64encode b)"
  by (simp add: b64encode_def)

lemma b64decode_b64encode [simp]: "b64decode (b64encode b) = Inr b"
  by (simp add: b64decode_def b64encode_def a2b_b64encode)

interpretation b64std: codec "\<lambda>_. True" b64encode b64decode
  by unfold_locales simp

subsection \<open>The url-safe unpadded variant\<close>

lemma length_b64_body: "(4 - length (b64_body b) mod 4) mod 4 = b64_pad b"
proof (induction b rule: b64_body.induct)
  case (4 a b c r)
  then show ?case by simp
qed (simp_all add: b64_pad_def)

lemma to_urlsafe_append [simp]: "to_urlsafe (s @ t) = to_urlsafe s @ to_urlsafe t"
  and from_urlsafe_append [simp]: "from_urlsafe (s @ t) = from_urlsafe s @ from_urlsafe t"
  by (simp_all add: to_urlsafe_def from_urlsafe_def replace_char_def)

lemma urlsafe_replicate [simp]:
  "to_urlsafe (replicate n (CHR ''='')) = replicate n (CHR ''='')"
  "from_urlsafe (replicate n (CHR ''='')) = replicate n (CHR ''='')"
  by (simp_all add: to_urlsafe_def from_urlsafe_def replace_char_def)

lemma length_to_urlsafe [simp]: "length (to_urlsafe s) = length s"
  by (simp add: to_urlsafe_def replace_char_def)

lemma from_to_urlsafe:
  assumes "list_all b64_char s"
  shows "from_urlsafe (to_urlsafe s) = s"
  using assms by (induction s) (auto simp: from_urlsafe_def to_urlsafe_def replace_char_def b64_char_props)

lemma to_urlsafe_safe:
  assumes "list_all b64_char s"
  shows "is_ascii (to_urlsafe s)" and "CHR ''='' \<notin> set (to_urlsafe s)"
    and "\<forall>c \<in> set (to_urlsafe s). \<not> py_space c"
proof -
  have c: "code c < 128 \<and> c \<noteq> CHR ''='' \<and> \<not> py_space c" if "c \<in> set (to_urlsafe s)" for c
  proof -
    from that obtain d where "d \<in> set s" and "c = d \<or> c = CHR ''-'' \<or> c = CHR ''_''"
      by (auto simp: to_urlsafe_def replace_char_def split: if_splits)
    with assms have "b64_char c \<or> c = CHR ''-'' \<or> c = CHR ''_''" by (auto simp: list_all_iff)
    then show ?thesis by (auto dest: b64_char_props simp: py_space_def)
  qed
  then show "is_ascii (to_urlsafe s)" and "CHR ''='' \<notin> set (to_urlsafe s)"
    and "\<forall>c \<in> set (to_urlsafe s). \<not> py_space c"
    by (auto simp: is_ascii_set)
qed

lemma b64e_body: "b64e raw = to_urlsafe (b64_body raw)"
proof -
  let ?s = "to_urlsafe (b64_body raw)"
  have "CHR ''='' \<notin> set ?s" by (rule to_urlsafe_safe(2)) (rule b64_body_chars)
  then have "?s = [] \<or> last ?s \<noteq> CHR ''=''" by (metis last_in_set)
  then show ?thesis by (simp add: b64e_def b64encode_def rstrip_char_append)
qed

lemma b64e_ascii [simp, ascii_simps]: "is_ascii (b64e b)"
  by (simp add: b64e_body to_urlsafe_safe(1) b64_body_chars)

lemma b64e_Nil [simp]: "b64e [] = []"
  by (simp add: b64e_body to_urlsafe_def replace_char_def)

lemma b64e_eq_Nil [simp]: "b64e b = [] \<longleftrightarrow> b = []"
proof -
  have "b64_body b = [] \<longleftrightarrow> b = []" by (cases b rule: b64_body.cases) auto
  then show ?thesis by (metis b64e_body length_0_conv length_to_urlsafe)
qed

lemma b64d_b64e [simp]: "b64d (b64e b) = Inr b"
proof -
  have "py_len (to_urlsafe (b64_body b)) = length (b64_body b)"
    by (simp add: py_len_ascii to_urlsafe_safe(1) b64_body_chars)
  then show ?thesis
    by (simp add: b64d_def b64e_body length_b64_body b64decode_def a2b_b64encode
        from_to_urlsafe b64_body_chars)
qed

interpretation b64url: codec "\<lambda>_. True" b64e b64d
  by unfold_locales simp

lemma b64e_inject [simp]: "b64e a = b64e b \<longleftrightarrow> a = b"
  by (rule b64url.enc_inject) simp_all

end
