(* ===== verification/Json.thy ===== *)
theory Json
  imports Codec
begin

text \<open>
  Python's \<open>json\<close> module as the sources use it. \<open>dumps\<close> takes the three options
  in use (\<open>ensure_ascii\<close> and the two separators; \<open>sort_keys\<close> is \<open>jsort\<close>
  applied first), \<open>loads\<close> is the decoder: a recursive descent over the text whose fuel
  (two units for every character, since every second call consumes one) is shown to be enough.
  The main result is the round trip \<open>loads (dumps v) = v\<close> on well-formed values.
\<close>

subsection \<open>Writing\<close>

definition u_escape :: "nat \<Rightarrow> string" where
  "u_escape n = [CHR 0x5C, CHR ''u'', hex_digit (n div 4096 mod 16), hex_digit (n div 256 mod 16),
                 hex_digit (n div 16 mod 16), hex_digit (n mod 16)]"

definition esc_char :: "char \<Rightarrow> string" where
  "esc_char c =
     (if c = CHR 0x22 then [CHR 0x5C, CHR 0x22]
      else if c = CHR 0x5C then [CHR 0x5C, CHR 0x5C]
      else if c = CHR 0x0A then [CHR 0x5C, CHR ''n'']
      else if c = CHR 0x0D then [CHR 0x5C, CHR ''r'']
      else if c = CHR 0x09 then [CHR 0x5C, CHR ''t'']
      else if c = CHR 0x08 then [CHR 0x5C, CHR ''b'']
      else if c = CHR 0x0C then [CHR 0x5C, CHR ''f'']
      else if code c < 32 then u_escape (code c)
      else [c])"

text \<open>With \<open>ensure_ascii=True\<close> a code point beyond ASCII is written as one or two \<open>\u\<close> escapes.\<close>

definition u_escape_point :: "nat \<Rightarrow> string" where
  "u_escape_point n =
     (if n < 0x10000 then u_escape n
      else u_escape (0xD800 + (n - 0x10000) div 0x400) @ u_escape (0xDC00 + (n - 0x10000) mod 0x400))"

fun esc_ascii :: "string \<Rightarrow> string" where
  "esc_ascii [] = []"
| "esc_ascii (c # r) =
     (if code c < 128 then esc_char c @ esc_ascii r
      else if code c < 224 then
        (case r of c1 # r1 \<Rightarrow> u_escape_point ((code c - 192) * 64 + (code c1 - 128)) @ esc_ascii r1
                 | _ \<Rightarrow> [])
      else if code c < 240 then
        (case r of c1 # c2 # r2 \<Rightarrow>
           u_escape_point ((code c - 224) * 4096 + (code c1 - 128) * 64 + (code c2 - 128)) @ esc_ascii r2
         | _ \<Rightarrow> [])
      else
        (case r of c1 # c2 # c3 # r3 \<Rightarrow>
           u_escape_point ((code c - 240) * 262144 + (code c1 - 128) * 4096 + (code c2 - 128) * 64
             + (code c3 - 128)) @ esc_ascii r3
         | _ \<Rightarrow> []))"

definition quote :: "bool \<Rightarrow> string \<Rightarrow> string" where
  "quote ascii s = [CHR 0x22] @ (if ascii then esc_ascii s else concat (map esc_char s)) @ [CHR 0x22]"

fun dumps :: "bool \<Rightarrow> string \<Rightarrow> string \<Rightarrow> json \<Rightarrow> string" where
  "dumps a i k JNull = ''null''"
| "dumps a i k (JBool b) = (if b then ''true'' else ''false'')"
| "dumps a i k (JInt n) = show_int n"
| "dumps a i k (JFloat s) = s"
| "dumps a i k (JStr s) = quote a s"
| "dumps a i k (JArr xs) = ''['' @ join i (map (dumps a i k) xs) @ '']''"
| "dumps a i k (JObj d) =
     ''{'' @ join i (map (\<lambda>kv. quote a (fst kv) @ k @ dumps a i k (snd kv)) d) @ ''}''"

text \<open>The option sets in use: compact, the default separators, and the two with \<open>ensure_ascii\<close>.\<close>

definition dumps_compact :: "json \<Rightarrow> string" where
  "dumps_compact = dumps False '','' '':''"

definition dumps_plain :: "json \<Rightarrow> string" where
  "dumps_plain = dumps False '', '' '': ''"

definition dumps_ascii_compact :: "json \<Rightarrow> string" where
  "dumps_ascii_compact = dumps True '','' '':''"

definition dumps_default :: "json \<Rightarrow> string" where
  "dumps_default = dumps True '', '' '': ''"

definition sort_items :: "(string \<times> 'a) list \<Rightarrow> (string \<times> 'a) list" where
  "sort_items d = sort_key fst d"

fun jsort :: "json \<Rightarrow> json" where
  "jsort (JArr xs) = JArr (map jsort xs)"
| "jsort (JObj d) = JObj (sort_items (map (\<lambda>kv. (fst kv, jsort (snd kv))) d))"
| "jsort v = v"

subsection \<open>Reading\<close>

definition json_ws :: "char \<Rightarrow> bool" where
  "json_ws c = (c = CHR '' '' \<or> c = CHR 0x09 \<or> c = CHR 0x0A \<or> c = CHR 0x0D)"

definition skip_ws :: "string \<Rightarrow> string" where
  "skip_ws s = dropWhile json_ws s"

definition utf8_point :: "nat \<Rightarrow> string" where
  "utf8_point n =
     (if n < 0x80 then [char_of n]
      else if n < 0x800 then [char_of (192 + n div 64), char_of (128 + n mod 64)]
      else if n < 0x10000 then
        [char_of (224 + n div 4096), char_of (128 + n div 64 mod 64), char_of (128 + n mod 64)]
      else [char_of (240 + n div 262144), char_of (128 + n div 4096 mod 64),
            char_of (128 + n div 64 mod 64), char_of (128 + n mod 64)])"

definition hex4 :: "string \<Rightarrow> (nat \<times> string) option" where
  "hex4 s = (case s of
       a # b # c # d # r \<Rightarrow>
         (case (hex_val a, hex_val b, hex_val c, hex_val d) of
            (Some w, Some x, Some y, Some z) \<Rightarrow> Some (4096 * w + 256 * x + 16 * y + z, r)
          | _ \<Rightarrow> None)
     | _ \<Rightarrow> None)"

text \<open>After the four digits of a \<open>\u\<close> escape: a high surrogate joins a following low one.\<close>

definition u_point :: "string \<Rightarrow> (string \<times> string) option" where
  "u_point s = (case hex4 s of
       None \<Rightarrow> None
     | Some (n, r) \<Rightarrow>
         (if 0xD800 \<le> n \<and> n \<le> 0xDBFF \<and> starts_with r [CHR 0x5C, CHR ''u''] then
            (case hex4 (drop 2 r) of
               None \<Rightarrow> None
             | Some (m, r') \<Rightarrow>
                 if 0xDC00 \<le> m \<and> m \<le> 0xDFFF
                 then Some (utf8_point (0x10000 + (n - 0xD800) * 0x400 + (m - 0xDC00)), r')
                 else Some (utf8_point n, r))
          else Some (utf8_point n, r)))"

definition unescape :: "char \<Rightarrow> char option" where
  "unescape e =
     (if e = CHR 0x22 \<or> e = CHR 0x5C \<or> e = CHR ''/'' then Some e
      else if e = CHR ''n'' then Some (CHR 0x0A)
      else if e = CHR ''r'' then Some (CHR 0x0D)
      else if e = CHR ''t'' then Some (CHR 0x09)
      else if e = CHR ''b'' then Some (CHR 0x08)
      else if e = CHR ''f'' then Some (CHR 0x0C)
      else None)"

function scan_str :: "string \<Rightarrow> (string \<times> string) option" where
  "scan_str [] = None"
| "scan_str (c # r) =
     (if c = CHR 0x22 then Some ([], r)
      else if c = CHR 0x5C then
        (case r of
           [] \<Rightarrow> None
         | e # r1 \<Rightarrow>
             (if e = CHR ''u'' then
                (case u_point r1 of
                   None \<Rightarrow> None
                 | Some (p, r2) \<Rightarrow>
                     if length r2 < length r1
                     then map_option (\<lambda>(t, z). (p @ t, z)) (scan_str r2) else None)
              else (case unescape e of
                      None \<Rightarrow> None
                    | Some ch \<Rightarrow> map_option (\<lambda>(t, z). (ch # t, z)) (scan_str r1))))
      else if code c < 32 then None
      else map_option (\<lambda>(t, z). (c # t, z)) (scan_str r))"
  by pat_completeness auto
termination
  by (relation "measure length") auto

definition scan_frac :: "string \<Rightarrow> string \<times> string" where
  "scan_frac s = (case s of
       c # d # r \<Rightarrow> if c = CHR ''.'' \<and> is_digit d
                    then (c # takeWhile is_digit (d # r), dropWhile is_digit (d # r)) else ([], s)
     | _ \<Rightarrow> ([], s))"

definition scan_exp :: "string \<Rightarrow> string \<times> string" where
  "scan_exp s = (case s of
       c # d # r \<Rightarrow>
         if (c = CHR ''e'' \<or> c = CHR ''E'') \<and> is_digit d
         then (c # takeWhile is_digit (d # r), dropWhile is_digit (d # r))
         else if (c = CHR ''e'' \<or> c = CHR ''E'') \<and> (d = CHR ''+'' \<or> d = CHR ''-'')
                 \<and> r \<noteq> [] \<and> is_digit (hd r)
         then (c # d # takeWhile is_digit r, dropWhile is_digit r)
         else ([], s)
     | _ \<Rightarrow> ([], s))"

definition scan_num :: "string \<Rightarrow> (json \<times> string) option" where
  "scan_num s =
     (let neg = starts_with s ''-'';
          b = (if neg then tl s else s);
          ip = (if starts_with b ''0'' then ''0'' else takeWhile is_digit b);
          r0 = drop (length ip) b;
          (fp, r1) = scan_frac r0;
          (ep, r2) = scan_exp r1;
          lit = (if neg then ''-'' else []) @ ip @ fp @ ep
      in if ip = [] then None
         else if fp = [] \<and> ep = []
         then Some (JInt (if neg then - int (digits_val 0 ip) else int (digits_val 0 ip)), r2)
         else Some (JFloat lit, r2))"

definition scan_word :: "string \<Rightarrow> (json \<times> string) option" where
  "scan_word s =
     (if starts_with s ''null'' then Some (JNull, drop 4 s)
      else if starts_with s ''true'' then Some (JBool True, drop 4 s)
      else if starts_with s ''false'' then Some (JBool False, drop 5 s)
      else if starts_with s ''NaN'' then Some (JFloat ''NaN'', drop 3 s)
      else if starts_with s ''Infinity'' then Some (JFloat ''Infinity'', drop 8 s)
      else if starts_with s ''-Infinity'' then Some (JFloat ''-Infinity'', drop 9 s)
      else scan_num s)"

fun parse_val :: "nat \<Rightarrow> string \<Rightarrow> (json \<times> string) option"
  and parse_elems :: "nat \<Rightarrow> string \<Rightarrow> (json list \<times> string) option"
  and parse_members :: "nat \<Rightarrow> string \<Rightarrow> (dict \<times> string) option" where
  "parse_val 0 s = None"
| "parse_val (Suc f) s = (case s of
       [] \<Rightarrow> None
     | c # r \<Rightarrow>
         if c = CHR 0x22 then map_option (\<lambda>(t, z). (JStr t, z)) (scan_str r)
         else if c = CHR ''['' then
           (if starts_with (skip_ws r) '']'' then Some (JArr [], tl (skip_ws r))
            else map_option (\<lambda>(xs, z). (JArr xs, z)) (parse_elems f (skip_ws r)))
         else if c = CHR ''{'' then
           (if starts_with (skip_ws r) ''}'' then Some (JObj [], tl (skip_ws r))
            else map_option (\<lambda>(d, z). (JObj (dupdate [] d), z)) (parse_members f (skip_ws r)))
         else scan_word s)"
| "parse_elems 0 s = None"
| "parse_elems (Suc f) s = (case parse_val f s of
       None \<Rightarrow> None
     | Some (v, r) \<Rightarrow>
         (case skip_ws r of
            [] \<Rightarrow> None
          | c # r1 \<Rightarrow>
              if c = CHR '']'' then Some ([v], r1)
              else if c = CHR '','' then map_option (\<lambda>(vs, z). (v # vs, z)) (parse_elems f (skip_ws r1))
              else None))"
| "parse_members 0 s = None"
| "parse_members (Suc f) s = (case s of
       [] \<Rightarrow> None
     | c # r \<Rightarrow>
         if c \<noteq> CHR 0x22 then None
         else (case scan_str r of
                 None \<Rightarrow> None
               | Some (k, r1) \<Rightarrow>
                   (case skip_ws r1 of
                      [] \<Rightarrow> None
                    | c1 # r2 \<Rightarrow>
                        if c1 \<noteq> CHR '':'' then None
                        else (case parse_val f (skip_ws r2) of
                                None \<Rightarrow> None
                              | Some (v, r3) \<Rightarrow>
                                  (case skip_ws r3 of
                                     [] \<Rightarrow> None
                                   | c2 # r4 \<Rightarrow>
                                       if c2 = CHR ''}'' then Some ([(k, v)], r4)
                                       else if c2 = CHR '','' then
                                         map_option (\<lambda>(d, z). ((k, v) # d, z)) (parse_members f (skip_ws r4))
                                       else None)))))"

definition loads :: "string \<Rightarrow> json res" where
  "loads s = (case parse_val (2 * length s + 2) (skip_ws s) of
       Some (v, r) \<Rightarrow> if skip_ws r = [] then Inr v else Inl (ValueError ''Extra data'')
     | None \<Rightarrow> Inl (ValueError ''Expecting value''))"

subsection \<open>Well-formed values\<close>

definition float_lit :: "string \<Rightarrow> bool" where
  "float_lit s = (scan_word s = Some (JFloat s, []))"

fun json_ok :: "json \<Rightarrow> bool" where
  "json_ok (JFloat s) = float_lit s"
| "json_ok (JArr xs) = list_all json_ok xs"
| "json_ok (JObj d) = (distinct (map fst d) \<and> list_all (\<lambda>kv. json_ok (snd kv)) d)"
| "json_ok _ = True"

fun json_text :: "(string \<Rightarrow> bool) \<Rightarrow> json \<Rightarrow> bool" where
  "json_text P (JFloat s) = P s"
| "json_text P (JStr s) = P s"
| "json_text P (JArr xs) = list_all (json_text P) xs"
| "json_text P (JObj d) = list_all (\<lambda>kv. P (fst kv) \<and> json_text P (snd kv)) d"
| "json_text P _ = True"

abbreviation json_utf8 :: "json \<Rightarrow> bool" where
  "json_utf8 \<equiv> json_text utf8_valid"

abbreviation json_ascii :: "json \<Rightarrow> bool" where
  "json_ascii \<equiv> json_text is_ascii"

abbreviation text_ok :: "bool \<Rightarrow> json \<Rightarrow> bool" where
  "text_ok a \<equiv> json_text (\<lambda>s. a \<longrightarrow> utf8_valid s)"

lemma json_text_mono: "(\<And>s. P s \<Longrightarrow> Q s) \<Longrightarrow> json_text P v \<Longrightarrow> json_text Q v"
  by (induction v rule: json_induct) (auto simp: list_all_iff)

lemma json_ascii_utf8: "json_ascii v \<Longrightarrow> json_utf8 v"
  by (erule json_text_mono [rotated]) auto

lemma text_ok_simps [simp]: "json_text (\<lambda>s. True) v" "json_utf8 v \<Longrightarrow> text_ok a v"
  by (induction v rule: json_induct) (auto simp: list_all_iff)

subsection \<open>Reading back a string\<close>

lemma hex4_digits:
  "a < 16 \<Longrightarrow> b < 16 \<Longrightarrow> c < 16 \<Longrightarrow> d < 16 \<Longrightarrow>
   hex4 (hex_digit a # hex_digit b # hex_digit c # hex_digit d # r) =
     Some (4096 * a + 256 * b + 16 * c + d, r)"
  by (simp add: hex4_def hex_digit_props)

lemma u_point_small: "n < 32 \<Longrightarrow> u_point (drop 2 (u_escape n) @ r) = Some ([char_of n], r)"
proof -
  assume n: "n < 32"
  then have "n div 4096 mod 16 = 0" "n div 256 mod 16 = 0" "n div 16 mod 16 = n div 16" by auto
  moreover have "16 * (n div 16) + n mod 16 = n" by simp
  ultimately show ?thesis
    using n by (simp add: u_escape_def u_point_def hex4_digits utf8_point_def)
qed

lemma scan_str_plain:
  "c \<noteq> CHR 0x22 \<Longrightarrow> c \<noteq> CHR 0x5C \<Longrightarrow> \<not> code c < 32 \<Longrightarrow>
   scan_str (c # r) = map_option (\<lambda>(t, z). (c # t, z)) (scan_str r)"
  by simp

lemma scan_str_esc_char:
  "scan_str (esc_char c @ r) = map_option (\<lambda>(t, z). (c # t, z)) (scan_str r)"
proof (cases "code c < 32 \<and> c \<notin> {CHR 0x0A, CHR 0x0D, CHR 0x09, CHR 0x08, CHR 0x0C}")
  case True
  then have "c \<noteq> CHR 0x22" and "c \<noteq> CHR 0x5C" by auto
  with True have e: "esc_char c = CHR 0x5C # CHR ''u'' # drop 2 (u_escape (code c))"
    by (simp add: esc_char_def u_escape_def)
  have "length (drop 2 (u_escape (code c))) = 4" by (simp add: u_escape_def)
  with True u_point_small [of "code c" r] show ?thesis by (simp add: e)
next
  case False
  show ?thesis
  proof (cases "c \<in> {CHR 0x22, CHR 0x5C, CHR 0x0A, CHR 0x0D, CHR 0x09, CHR 0x08, CHR 0x0C}")
    case True
    then consider "c = CHR 0x22" | "c = CHR 0x5C" | "c = CHR 0x0A" | "c = CHR 0x0D"
      | "c = CHR 0x09" | "c = CHR 0x08" | "c = CHR 0x0C" by blast
    then show ?thesis by cases (simp_all add: esc_char_def unescape_def)
  next
    case c: False
    with False have "\<not> code c < 32" by blast
    with c show ?thesis by (simp add: esc_char_def)
  qed
qed

lemma scan_str_quote:
  "scan_str (concat (map esc_char s) @ CHR 0x22 # rest) = Some (s, rest)"
  by (induction s) (simp_all add: scan_str_esc_char)

subsection \<open>Reading back text beyond ASCII\<close>

lemma four_digits:
  assumes "n < (0x10000 :: nat)"
  shows "4096 * (n div 4096 mod 16) + 256 * (n div 256 mod 16) + 16 * (n div 16 mod 16) + n mod 16 = n"
proof -
  define a b c where "a = n div 16" and "b = a div 16" and "c = b div 16"
  have "n div 256 = b" "n div 4096 = c" by (simp_all add: a_def b_def c_def div_mult2_eq [symmetric])
  moreover have "c mod 16 = c" using assms by (simp add: a_def b_def c_def div_mult2_eq [symmetric] less_mult_imp_div_less)
  moreover have "16 * a + n mod 16 = n" "16 * b + a mod 16 = a" "16 * c + b mod 16 = b" by (simp_all add: a_def b_def c_def)
  ultimately show ?thesis unfolding a_def [symmetric] by simp
qed

lemma digits64:
  assumes "y < (64 :: nat)"
  shows "(m * 64 + y) div 64 = m" "(m * 64 + y) mod 64 = y"
  using assms by simp_all

lemma hex4_escape: "n < 0x10000 \<Longrightarrow> hex4 (drop 2 (u_escape n) @ r) = Some (n, r)"
proof -
  assume n: "n < 0x10000"
  have "hex4 (drop 2 (u_escape n) @ r)
      = Some (4096 * (n div 4096 mod 16) + 256 * (n div 256 mod 16) + 16 * (n div 16 mod 16) + n mod 16, r)"
    unfolding u_escape_def numeral_2_eq_2 drop_Suc_Cons drop_0 append_Cons append_Nil by (rule hex4_digits) simp_all
  then show ?thesis unfolding four_digits [OF n] .
qed

lemma u_point_plain:
  assumes "n < 0x10000" and "\<not> (0xD800 \<le> n \<and> n \<le> 0xDBFF)"
  shows "u_point (drop 2 (u_escape n) @ r) = Some (utf8_point n, r)"
  using hex4_escape [OF assms(1), of r] assms(2) by (auto simp: u_point_def)

lemma u_escape_drop: "u_escape n = CHR 0x5C # CHR ''u'' # drop 2 (u_escape n)" "length (drop 2 (u_escape n)) = 4"
  by (simp_all add: u_escape_def)

lemma u_point_pair:
  assumes "0x10000 \<le> n" and "n < 0x110000"
  shows "u_point (drop 2 (u_escape (0xD800 + (n - 0x10000) div 0x400)) @ u_escape (0xDC00 + (n - 0x10000) mod 0x400) @ r)
    = Some (utf8_point n, r)"
proof -
  define h l where "h = (n - 0x10000) div 0x400" and "l = (n - 0x10000) mod 0x400"
  have b: "h < 0x400" "l < 0x400" "0x10000 + h * 0x400 + l = n" using assms by (auto simp: h_def l_def)
  have "drop 2 (u_escape (0xDC00 + l) @ r) = drop 2 (u_escape (0xDC00 + l)) @ r" by (simp add: u_escape_def)
  then have low: "hex4 (drop 2 (u_escape (0xDC00 + l) @ r)) = Some (0xDC00 + l, r)" using hex4_escape [of "0xDC00 + l" r] b(2) by simp
  have "starts_with (u_escape (0xDC00 + l) @ r) [CHR 0x5C, CHR ''u'']" by (simp add: u_escape_def starts_with_def)
  then show ?thesis
    using low hex4_escape [of "0xD800 + h" "u_escape (0xDC00 + l) @ r"] b
    unfolding u_point_def h_def [symmetric] l_def [symmetric] by simp
qed

lemma scan_str_u: "u_point (p @ q) = Some (x, r) \<Longrightarrow> length r < length (p @ q) \<Longrightarrow>
    scan_str (CHR 0x5C # CHR ''u'' # p @ q) = map_option (\<lambda>(t, z). (x @ t, z)) (scan_str r)"
  by simp

lemma scan_str_point:
  assumes "n < 0x110000" and "\<not> (0xD800 \<le> n \<and> n \<le> 0xDFFF)"
  shows "scan_str (u_escape_point n @ r) = map_option (\<lambda>(t, z). (utf8_point n @ t, z)) (scan_str r)"
proof (cases "n < 0x10000")
  case True
  then have "u_point (drop 2 (u_escape n) @ r) = Some (utf8_point n, r)" using u_point_plain [of n r] assms(2) by linarith
  then have "scan_str (CHR 0x5C # CHR ''u'' # drop 2 (u_escape n) @ r) = map_option (\<lambda>(t, z). (utf8_point n @ t, z)) (scan_str r)"
    by (rule scan_str_u) (unfold length_append u_escape_drop(2), simp)
  moreover have "u_escape_point n @ r = CHR 0x5C # CHR ''u'' # drop 2 (u_escape n) @ r"
    using True by (simp add: u_escape_point_def u_escape_def)
  ultimately show ?thesis by metis
next
  case False
  let ?h = "0xD800 + (n - 0x10000) div 0x400" and ?l = "0xDC00 + (n - 0x10000) mod 0x400"
  have "u_point (drop 2 (u_escape ?h) @ u_escape ?l @ r) = Some (utf8_point n, r)" using u_point_pair False assms(1) by simp
  then have "scan_str (CHR 0x5C # CHR ''u'' # drop 2 (u_escape ?h) @ u_escape ?l @ r) = map_option (\<lambda>(t, z). (utf8_point n @ t, z)) (scan_str r)"
    by (rule scan_str_u) (unfold length_append u_escape_drop(2), simp)
  moreover have "u_escape_point n @ r = CHR 0x5C # CHR ''u'' # drop 2 (u_escape ?h) @ u_escape ?l @ r"
    using False by (simp add: u_escape_point_def u_escape_def)
  ultimately show ?thesis by metis
qed

lemma cont_back: "cont_byte c \<Longrightarrow> char_of (128 + (code c - 128) :: nat) = c" "cont_byte c \<Longrightarrow> code c - 128 < 64"
  by (auto simp: cont_byte_def)

lemma utf8_point_two:
  assumes "194 \<le> code c" "code c < 224" "cont_byte c1"
  shows "utf8_point ((code c - 192) * 64 + (code c1 - 128)) = [c, c1]"
proof -
  have "(code c - 192) * 64 + (code c1 - 128) < 0x800" "\<not> (code c - 192) * 64 + (code c1 - 128) < 0x80"
    using assms cont_back(2) [OF assms(3)] by auto
  then show ?thesis using assms cont_back [OF assms(3)] by (simp add: utf8_point_def)
qed

lemma utf8_point_three:
  assumes "224 \<le> code c" "code c < 240" "cont_byte c1" "cont_byte c2" "code c = 224 \<longrightarrow> 160 \<le> code c1"
  shows "utf8_point ((code c - 224) * 4096 + (code c1 - 128) * 64 + (code c2 - 128)) = [c, c1, c2]"
proof -
  define a x y where "a = code c - 224" and "x = code c1 - 128" and "y = code c2 - 128"
  have b: "a < 16" "x < 64" "y < 64" "a = 0 \<longrightarrow> 32 \<le> x" using assms cont_back(2) by (auto simp: a_def x_def y_def)
  have "\<not> a * 4096 + x * 64 + y < 0x800" using b by (cases "a = 0") auto
  moreover have "a * 4096 + x * 64 + y < 0x10000" using b by auto
  moreover have n: "a * 4096 + x * 64 + y = (a * 64 + x) * 64 + y" by simp
  have "(a * 4096 + x * 64 + y) div 64 = a * 64 + x" "(a * 4096 + x * 64 + y) mod 64 = y"
    unfolding n using b digits64 by blast+
  moreover from this(1) have "(a * 4096 + x * 64 + y) div 4096 = a" "(a * 4096 + x * 64 + y) div 64 mod 64 = x"
    using digits64 [OF b(2), of a] div_mult2_eq [of "a * 4096 + x * 64 + y" 64 64] by simp_all
  moreover have "char_of (224 + a) = c" "char_of (128 + x) = c1" "char_of (128 + y) = c2"
    using assms cont_back(1) by (auto simp: a_def x_def y_def)
  ultimately show ?thesis unfolding a_def [symmetric] x_def [symmetric] y_def [symmetric] by (simp add: utf8_point_def)
qed

lemma utf8_point_four:
  assumes "240 \<le> code c" "cont_byte c1" "cont_byte c2" "cont_byte c3" "code c = 240 \<longrightarrow> 144 \<le> code c1"
  shows "utf8_point ((code c - 240) * 262144 + (code c1 - 128) * 4096 + (code c2 - 128) * 64 + (code c3 - 128)) = [c, c1, c2, c3]"
proof -
  define a x y z where "a = code c - 240" and "x = code c1 - 128" and "y = code c2 - 128" and "z = code c3 - 128"
  have b: "x < 64" "y < 64" "z < 64" "a = 0 \<longrightarrow> 16 \<le> x" using assms cont_back(2) by (auto simp: a_def x_def y_def z_def)
  have "\<not> a * 262144 + x * 4096 + y * 64 + z < 0x10000" using b(4) by (cases "a = 0") auto
  moreover define n where "n = a * 262144 + x * 4096 + y * 64 + z"
  have n: "n = ((a * 64 + x) * 64 + y) * 64 + z" by (simp add: n_def)
  have d1: "n div 64 = (a * 64 + x) * 64 + y" "n mod 64 = z" unfolding n using b digits64 by blast+
  moreover have d2: "n div 4096 = a * 64 + x" "n div 64 mod 64 = y"
    using d1(1) digits64 [OF b(2), of "a * 64 + x"] div_mult2_eq [of n 64 64] by simp_all
  moreover have "n div 262144 = a" "n div 4096 mod 64 = x"
    using d2(1) digits64 [OF b(1), of a] div_mult2_eq [of n 4096 64] by simp_all
  moreover have "char_of (240 + a) = c" "char_of (128 + x) = c1" "char_of (128 + y) = c2" "char_of (128 + z) = c3"
    using assms cont_back(1) by (auto simp: a_def x_def y_def z_def)
  ultimately show ?thesis unfolding a_def [symmetric] x_def [symmetric] y_def [symmetric] z_def [symmetric] n_def [symmetric] by (simp add: utf8_point_def)
qed

lemma cont_code: "cont_byte c \<longleftrightarrow> 128 \<le> code c \<and> code c < 192"
  by (simp add: cont_byte_def)

lemma scan_str_ascii:
  "utf8_valid s \<Longrightarrow> scan_str (esc_ascii s @ r) = map_option (\<lambda>(t, z). (s @ t, z)) (scan_str r)"
proof (induction s rule: utf8_valid.induct)
  case (2 c s)
  consider "code c < 128" | "\<not> code c < 128" "194 \<le> code c" "code c < 224" | "\<not> code c < 128" "\<not> code c < 224" "code c < 240"
    | "\<not> code c < 128" "\<not> code c < 224" "\<not> code c < 240" "code c < 245" using 2(5) by (auto split: if_splits)
  then show ?case
  proof cases
    case 1
    with 2(1) 2(5) have "scan_str (esc_ascii s @ r) = map_option (\<lambda>(t, z). (s @ t, z)) (scan_str r)" by simp
    then show ?thesis using 1 by (simp add: scan_str_esc_char option.map_comp comp_def case_prod_unfold)
  next
    case two: 2
    with 2(5) obtain c1 s1 where s: "s = c1 # s1" "cont_byte c1" "utf8_valid s1" by (cases s) auto
    let ?n = "(code c - 192) * 64 + (code c1 - 128)"
    have n: "?n < 0x110000" "\<not> (0xD800 \<le> ?n \<and> ?n \<le> 0xDFFF)" using two s(2) by (auto simp: cont_code)
    have "scan_str (esc_ascii s1 @ r) = map_option (\<lambda>(t, z). (s1 @ t, z)) (scan_str r)" using 2(2) [OF _ _ s(1)] two s by simp
    then show ?thesis using two scan_str_point [OF n] utf8_point_two [OF two(2,3) s(2)] s(1)
      by (simp add: option.map_comp comp_def case_prod_unfold)
  next
    case 3
    with 2(5) obtain c1 c2 s2 where s: "s = c1 # c2 # s2" "cont_byte c1" "cont_byte c2" "code c = 224 \<longrightarrow> 160 \<le> code c1"
      "code c = 237 \<longrightarrow> code c1 < 160" "utf8_valid s2" by (auto split: list.splits)
    let ?n = "(code c - 224) * 4096 + (code c1 - 128) * 64 + (code c2 - 128)"
    have n: "?n < 0x110000" using 3 s(2,3) by (auto simp: cont_code)
    have sur: "\<not> (0xD800 \<le> ?n \<and> ?n \<le> 0xDFFF)"
    proof (cases "code c = 237")
      case True
      then show ?thesis using s(2,3,5) by (auto simp: cont_code)
    next
      case False
      then have "code c \<le> 236 \<or> 238 \<le> code c" by auto
      then show ?thesis using s(2,3) 3 by (auto simp: cont_code)
    qed
    have "scan_str (esc_ascii s2 @ r) = map_option (\<lambda>(t, z). (s2 @ t, z)) (scan_str r)" using 2(3) [OF _ _ _ s(1) refl] 3 s by simp
    then show ?thesis using 3 scan_str_point [OF n sur] utf8_point_three [OF _ 3(3) s(2-4)] s(1)
      by (simp add: option.map_comp comp_def case_prod_unfold)
  next
    case 4
    with 2(5) obtain c1 c2 c3 s3 where s: "s = c1 # c2 # c3 # s3" "cont_byte c1" "cont_byte c2" "cont_byte c3"
      "code c = 240 \<longrightarrow> 144 \<le> code c1" "code c = 244 \<longrightarrow> code c1 < 144" "utf8_valid s3" by (auto split: list.splits)
    let ?n = "(code c - 240) * 262144 + (code c1 - 128) * 4096 + (code c2 - 128) * 64 + (code c3 - 128)"
    have n: "?n < 0x110000"
    proof (cases "code c = 244")
      case True
      then show ?thesis using s(2-4,6) by (auto simp: cont_code)
    next
      case False
      then have "code c \<le> 243" using 4(4) by auto
      then show ?thesis using s(2-4) by (auto simp: cont_code)
    qed
    have sur: "\<not> (0xD800 \<le> ?n \<and> ?n \<le> 0xDFFF)"
    proof (cases "code c = 240")
      case True
      then show ?thesis using s(5) by auto
    next
      case False
      then have "241 \<le> code c" using 4 by auto
      then show ?thesis by auto
    qed
    have "scan_str (esc_ascii s3 @ r) = map_option (\<lambda>(t, z). (s3 @ t, z)) (scan_str r)" using 2(4) [OF _ _ _ _ s(1) refl refl] 4 s by simp
    then show ?thesis using 4 scan_str_point [OF n sur] utf8_point_four [OF _ s(2-5)] s(1)
      by (simp add: option.map_comp comp_def case_prod_unfold)
  qed
qed (simp add: case_prod_unfold option.map_ident)

lemma quote_scan:
  assumes "a \<longrightarrow> utf8_valid s"
  shows "scan_str (tl (quote a s) @ rest) = Some (s, rest)"
  using assms scan_str_quote [of s rest] by (cases a) (simp_all add: quote_def scan_str_ascii)

lemma quote_hd: "quote a s = CHR 0x22 # tl (quote a s)"
  by (simp add: quote_def)

lemma esc_ascii_ascii: "is_ascii s \<Longrightarrow> esc_ascii s = concat (map esc_char s)"
  by (induction s) auto

lemma quote_ascii: "is_ascii s \<Longrightarrow> quote a s = quote False s"
  by (simp add: quote_def esc_ascii_ascii)

lemma dumps_ascii_eq: "json_ascii v \<Longrightarrow> dumps a i k v = dumps False i k v"
proof (induction v rule: json_induct)
  case (JArr xs)
  then have "map (dumps a i k) xs = map (dumps False i k) xs"
    by (intro map_cong refl) (simp add: list_all_iff)
  then show ?case by (simp only: dumps.simps)
next
  case (JObj d)
  then have "map (\<lambda>kv. quote a (fst kv) @ k @ dumps a i k (snd kv)) d =
    map (\<lambda>kv. quote False (fst kv) @ k @ dumps False i k (snd kv)) d"
    by (intro map_cong refl) (simp add: list_all_iff quote_ascii [of _ a])
  then show ?case by (simp only: dumps.simps)
next
  case (JStr s)
  then show ?case by (simp add: quote_ascii [of s a])
qed simp_all

subsection \<open>Reading back a number\<close>

definition delim :: "string \<Rightarrow> bool" where
  "delim r = (r = [] \<or> hd r \<in> {CHR '','', CHR '']'', CHR ''}''} \<or> json_ws (hd r))"

lemma delim_not_num:
  assumes "delim (c # r)"
  shows "\<not> is_digit c" and "c \<noteq> CHR ''.''" and "c \<noteq> CHR ''e''" and "c \<noteq> CHR ''E''"
  using assms by (auto simp: delim_def json_ws_def is_digit_def)

lemma takeWhile_digit_delim [simp]:
  assumes "delim r"
  shows "takeWhile is_digit (s @ r) = takeWhile is_digit s"
    and "dropWhile is_digit (s @ r) = dropWhile is_digit s @ r"
proof -
  have "takeWhile is_digit r = []" and "dropWhile is_digit r = r"
    using assms by (cases r; simp add: delim_not_num)+
  then show "takeWhile is_digit (s @ r) = takeWhile is_digit s"
    and "dropWhile is_digit (s @ r) = dropWhile is_digit s @ r"
    by (induction s) auto
qed

lemma scan_frac_delim:
  assumes "delim r"
  shows "scan_frac (s @ r) = (fst (scan_frac s), snd (scan_frac s) @ r)"
proof (cases s)
  case Nil
  have "scan_frac r = ([], r)"
    using assms by (auto simp: scan_frac_def dest: delim_not_num split: list.split)
  with Nil show ?thesis by (simp add: scan_frac_def [of "[]"])
next
  case (Cons c t)
  show ?thesis
  proof (cases t)
    case Nil
    with Cons assms show ?thesis by (auto simp: scan_frac_def dest: delim_not_num split: list.split)
  next
    case (Cons d u)
    have "takeWhile is_digit (d # u @ r) = takeWhile is_digit (d # u)"
      and "dropWhile is_digit (d # u @ r) = dropWhile is_digit (d # u) @ r"
      using takeWhile_digit_delim [OF assms, of "d # u"] by simp_all
    with \<open>s = c # t\<close> Cons show ?thesis by (simp add: scan_frac_def del: takeWhile.simps dropWhile.simps)
  qed
qed

lemma scan_exp_delim:
  assumes "delim r"
  shows "scan_exp (s @ r) = (fst (scan_exp s), snd (scan_exp s) @ r)"
proof (cases s)
  case Nil
  have "scan_exp r = ([], r)"
    using assms by (auto simp: scan_exp_def dest: delim_not_num split: list.split)
  with Nil show ?thesis by (simp add: scan_exp_def [of "[]"])
next
  case (Cons c t)
  show ?thesis
  proof (cases t)
    case Nil
    have "d \<noteq> CHR ''+''" "d \<noteq> CHR ''-''" if "r = d # u" for d u
      using assms that by (auto simp: delim_def json_ws_def)
    with Cons Nil assms show ?thesis
      by (auto simp: scan_exp_def dest: delim_not_num split: list.split)
  next
    case (Cons d u)
    have t1: "takeWhile is_digit (d # u @ r) = takeWhile is_digit (d # u)"
      and t2: "dropWhile is_digit (d # u @ r) = dropWhile is_digit (d # u) @ r"
      using takeWhile_digit_delim [OF assms, of "d # u"] by simp_all
    have h: "u @ r \<noteq> [] \<and> is_digit (hd (u @ r)) \<longleftrightarrow> u \<noteq> [] \<and> is_digit (hd u)"
      using assms by (cases u; cases r) (auto simp: delim_not_num)
    show ?thesis
      unfolding \<open>s = c # t\<close> Cons scan_exp_def append_Cons list.case t1 t2 h
        takeWhile_digit_delim [OF assms]
      by (simp del: takeWhile.simps dropWhile.simps)
  qed
qed

lemma starts_with_append_delim:
  assumes "\<And>c. c \<in> set p \<Longrightarrow> c \<notin> {CHR '','', CHR '']'', CHR ''}''} \<and> \<not> json_ws c" and "delim r"
  shows "starts_with (s @ r) p = starts_with s p"
  using assms(1)
proof (induction p arbitrary: s)
  case (Cons c p)
  then have c: "c \<notin> {CHR '','', CHR '']'', CHR ''}''}" "\<not> json_ws c" by auto
  show ?case
  proof (cases s)
    case Nil
    with c assms(2) show ?thesis by (cases r) (auto simp: delim_def)
  next
    case (Cons d t)
    with Cons.prems Cons.IH [of t] show ?thesis by simp
  qed
qed simp

lemma scan_num_delim:
  assumes "delim r" and "scan_num s = Some (v, t)"
  shows "scan_num (s @ r) = Some (v, t @ r)"
proof -
  obtain c u where s: "s = c # u"
    using assms(2) by (cases s) (auto simp: scan_num_def Let_def scan_frac_def scan_exp_def)
  have st: "starts_with (x @ r) ''0'' = starts_with x ''0''" "starts_with (x @ r) ''-'' = starts_with x ''-''"
    for x using assms(1) by (rule starts_with_append_delim [rotated]; auto simp: json_ws_def)+
  have tl: "(if b then tl (s @ r) else s @ r) = (if b then tl s else s) @ r" for b
    by (simp add: s)
  define neg where "neg = starts_with s ''-''"
  define b where "b = (if neg then tl s else s)"
  define ip where "ip = (if starts_with b ''0'' then ''0'' else takeWhile is_digit b)"
  have le: "length ip \<le> length b"
    by (cases b) (auto simp: ip_def le_SucI length_takeWhile_le)
  have ip': "(if starts_with b ''0'' then ''0'' else takeWhile is_digit (b @ r)) = ip"
    by (simp add: ip_def st assms(1))
  obtain fp r1 where f: "scan_frac (drop (length ip) b) = (fp, r1)" by fastforce
  obtain ep r2 where e: "scan_exp r1 = (ep, r2)" by fastforce
  have f': "scan_frac (drop (length ip) (b @ r)) = (fp, r1 @ r)" and e': "scan_exp (r1 @ r) = (ep, r2 @ r)"
    using le by (simp_all add: scan_frac_delim [OF assms(1)] scan_exp_delim [OF assms(1)] f e)
  show ?thesis
    using assms(2)
    unfolding scan_num_def Let_def st tl
    unfolding neg_def [symmetric] b_def [symmetric] ip' ip_def [symmetric] f f' prod.case e e'
    by (auto split: if_splits)
qed

lemma scan_word_delim:
  assumes "delim r" and "scan_word s = Some (v, t)"
  shows "scan_word (s @ r) = Some (v, t @ r)"
proof -
  have st: "starts_with (s @ r) p = starts_with s p"
    if "p \<in> {''null'', ''true'', ''false'', ''NaN'', ''Infinity'', ''-Infinity''}" for p
    using that by (intro starts_with_append_delim [OF _ assms(1)]) (auto simp: json_ws_def)
  have drop: "drop n (s @ r) = drop n s @ r" if "starts_with s p" and "n = length p" for p n
  proof -
    from that have "length p = min (length p) (length s)"
      by (metis starts_with_def length_take min.commute)
    then show ?thesis using that(2) by simp
  qed
  show ?thesis
    using assms(2) scan_num_delim [OF assms(1), of s v t]
      drop [of "''null''" 4] drop [of "''true''" 4] drop [of "''false''" 5] drop [of "''NaN''" 3]
      drop [of "''Infinity''" 8] drop [of "''-Infinity''" 9]
    unfolding scan_word_def
    by (auto simp: st split: if_splits)
qed

lemma float_lit_scan:
  assumes "float_lit s" and "delim r"
  shows "scan_word (s @ r) = Some (JFloat s, r)"
  using scan_word_delim [OF assms(2), of s "JFloat s" "[]"] assms(1) by (simp add: float_lit_def)

lemma scan_num_hd:
  assumes "scan_num (c # s) = Some x" shows "is_digit c \<or> c = CHR ''-''"
  using assms by (auto simp: scan_num_def Let_def is_digit_def split: prod.splits if_splits)

lemma scan_word_hd:
  assumes "scan_word (c # s) = Some x"
  shows "c \<notin> {CHR 0x22, CHR ''['', CHR ''{'', CHR '']'', CHR ''}'', CHR '',''}" and "\<not> json_ws c"
proof -
  have "c \<in> {CHR ''n'', CHR ''t'', CHR ''f'', CHR ''N'', CHR ''I'', CHR ''-''} \<or> is_digit c"
    using assms scan_num_hd [of c s x] by (auto simp: scan_word_def split: if_splits)
  then show "c \<notin> {CHR 0x22, CHR ''['', CHR ''{'', CHR '']'', CHR ''}'', CHR '',''}" and "\<not> json_ws c"
    by (auto simp: is_digit_def json_ws_def)
qed

lemma scan_word_Nil [simp]: "scan_word [] = None"
  by (simp add: scan_word_def scan_num_def starts_with_def)

lemma scan_num_show_nat:
  assumes "delim r"
  shows "scan_num (show_nat n @ r) = Some (JInt (int n), r)"
    and "0 < n \<Longrightarrow> scan_num (''-'' @ show_nat n @ r) = Some (JInt (- int n), r)"
proof -
  obtain c u where s: "show_nat n = c # u" by (cases "show_nat n") auto
  have all: "takeWhile is_digit (show_nat n) = show_nat n"
    using show_nat_digits [of n] by (simp add: takeWhile_eq_all_conv list_all_iff)
  have d: "is_digit c" using show_nat_digits [of n] by (simp add: s)
  have z: "c = CHR ''0'' \<longleftrightarrow> n = 0" using show_nat_hd [of n] by (simp add: s)
  have ip: "(if starts_with (show_nat n @ r) ''0'' then ''0'' else takeWhile is_digit (show_nat n @ r)) = show_nat n"
  proof (cases "n = 0")
    case True
    then show ?thesis by simp
  next
    case False
    then have "\<not> starts_with (show_nat n @ r) ''0''" using z by (simp add: s)
    then show ?thesis unfolding takeWhile_digit_delim(1) [OF assms] all by simp
  qed
  have f: "scan_frac r = ([], r)" "scan_exp r = ([], r)"
    using scan_frac_delim [OF assms, of "[]"] scan_exp_delim [OF assms, of "[]"]
    by (simp_all add: scan_frac_def [of "[]"] scan_exp_def [of "[]"])
  have "c \<noteq> CHR ''-''" using d by (auto simp: is_digit_def)
  then have neg: "\<not> starts_with (show_nat n @ r) ''-''" by (simp add: s)
  show "scan_num (show_nat n @ r) = Some (JInt (int n), r)"
    unfolding scan_num_def Let_def if_not_P [OF neg] ip by (simp add: f)
  have neg': "starts_with (''-'' @ show_nat n @ r) ''-''" and tl: "tl (''-'' @ show_nat n @ r) = show_nat n @ r"
    by simp_all
  show "scan_num (''-'' @ show_nat n @ r) = Some (JInt (- int n), r)"
    unfolding scan_num_def Let_def if_P [OF neg'] tl ip by (simp add: f)
qed

lemma scan_word_show_int:
  assumes "delim r" shows "scan_word (show_int i @ r) = Some (JInt i, r)"
proof -
  have "\<not> starts_with (show_int i @ r) p"
    if "p \<in> {''null'', ''true'', ''false'', ''NaN'', ''Infinity'', ''-Infinity''}" for p
  proof -
    obtain c u where s: "show_nat (nat \<bar>i\<bar>) = c # u" by (cases "show_nat (nat \<bar>i\<bar>)") auto
    then have "is_digit c" using show_nat_digits [of "nat \<bar>i\<bar>"] by simp
    with that s show ?thesis by (auto simp: show_int_def is_digit_def abs_if split: if_splits)
  qed
  then have "scan_word (show_int i @ r) = scan_num (show_int i @ r)" by (simp add: scan_word_def)
  also have "\<dots> = Some (JInt i, r)"
    using scan_num_show_nat [OF assms, of "nat i"] scan_num_show_nat [OF assms, of "nat (- i)"]
    by (simp add: show_int_def)
  finally show ?thesis .
qed

subsection \<open>Reading back a value\<close>

fun jfuel :: "json \<Rightarrow> nat" where
  "jfuel (JArr xs) = 2 + sum_list (map (\<lambda>x. Suc (jfuel x)) xs)"
| "jfuel (JObj d) = 2 + sum_list (map (\<lambda>kv. Suc (jfuel (snd kv))) d)"
| "jfuel _ = 1"

definition seps_ok :: "string \<Rightarrow> string \<Rightarrow> bool" where
  "seps_ok i k = (i \<noteq> [] \<and> hd i = CHR '','' \<and> list_all json_ws (tl i)
                 \<and> k \<noteq> [] \<and> hd k = CHR '':'' \<and> list_all json_ws (tl k))"

definition val_start :: "string \<Rightarrow> bool" where
  "val_start s = (s \<noteq> [] \<and> \<not> json_ws (hd s) \<and> hd s \<notin> {CHR '']'', CHR ''}''})"

definition reads_back :: "bool \<Rightarrow> string \<Rightarrow> string \<Rightarrow> json \<Rightarrow> bool" where
  "reads_back a i k v = (\<forall>f rest. jfuel v \<le> f \<longrightarrow> delim rest \<longrightarrow>
     parse_val f (dumps a i k v @ rest) = Some (v, rest))"

lemma seps_ok_simps [simp]: "seps_ok '','' '':''" "seps_ok '', '' '': ''"
  by (simp_all add: seps_ok_def json_ws_def)

lemma skip_ws_id: "s = [] \<or> \<not> json_ws (hd s) \<Longrightarrow> skip_ws s = s"
  by (cases s) (auto simp: skip_ws_def)

lemma skip_ws_simps [simp]:
  "skip_ws [] = []" "\<not> json_ws c \<Longrightarrow> skip_ws (c # s) = c # s"
  by (simp_all add: skip_ws_def)

lemma not_ws [simp]:
  "\<not> json_ws (CHR '','')" "\<not> json_ws (CHR '':'')" "\<not> json_ws (CHR '']'')" "\<not> json_ws (CHR ''}'')"
  "\<not> json_ws (CHR 0x22)" "\<not> json_ws (CHR ''['')" "\<not> json_ws (CHR ''{'')"
  by (simp_all add: json_ws_def)

lemma skip_ws_append: "list_all json_ws w \<Longrightarrow> skip_ws (w @ s) = skip_ws s"
  by (induction w) (auto simp: skip_ws_def)

lemma delim_simps [simp]: "delim []" "delim (CHR '','' # r)" "delim (CHR '']'' # r)" "delim (CHR ''}'' # r)"
  by (simp_all add: delim_def)

lemma val_start_append: "val_start s \<Longrightarrow> val_start (s @ t)"
  by (auto simp: val_start_def)

lemma val_start_skip [simp]: "val_start s \<Longrightarrow> skip_ws s = s"
  by (simp add: val_start_def skip_ws_id)

lemma show_int_val_start: "val_start (show_int i)"
proof -
  obtain c u where s: "show_nat (nat \<bar>i\<bar>) = c # u" by (cases "show_nat (nat \<bar>i\<bar>)") auto
  then have "is_digit c" using show_nat_digits [of "nat \<bar>i\<bar>"] by simp
  then show ?thesis
    using s by (auto simp: val_start_def show_int_def is_digit_def json_ws_def abs_if split: if_splits)
qed

lemma dumps_val_start: "json_ok v \<Longrightarrow> val_start (dumps a i k v)"
proof (cases v)
  case (JFloat s)
  moreover assume "json_ok v"
  ultimately have "scan_word s = Some (JFloat s, [])" by (simp add: float_lit_def)
  then show ?thesis
    using JFloat scan_word_hd [of "hd s" "tl s"] by (cases s) (auto simp: val_start_def)
next
  case (JInt n)
  then show ?thesis by (simp add: show_int_val_start)
qed (auto simp: val_start_def quote_def json_ws_def)

lemma join_val_start:
  "xs \<noteq> [] \<Longrightarrow> val_start (hd xs) \<Longrightarrow> val_start (join i xs)"
  by (induction i xs rule: join.induct) (auto simp: val_start_append)

lemma seps_skip:
  assumes "seps_ok i k" and "val_start s"
  obtains w w' where "i = CHR '','' # w" and "skip_ws (w @ s) = s"
    and "k = CHR '':'' # w'" and "skip_ws (w' @ s) = s"
  using assms by (cases i; cases k) (auto simp: seps_ok_def skip_ws_append)

lemma parse_elems_dumps:
  assumes "seps_ok i k" and "xs \<noteq> []" and "\<forall>x \<in> set xs. reads_back a i k x \<and> json_ok x"
    and "sum_list (map (\<lambda>x. Suc (jfuel x)) xs) < f"
  shows "parse_elems f (join i (map (dumps a i k) xs) @ '']'' @ rest) = Some (xs, rest)"
  using assms(2-4)
proof (induction xs arbitrary: f)
  case (Cons x xs)
  then obtain g where f: "f = Suc g" and g: "jfuel x \<le> g" by (cases f) auto
  have x: "parse_val g (dumps a i k x @ r) = Some (x, r)" if "delim r" for r
    using Cons.prems(2) g that by (simp add: reads_back_def)
  show ?case
  proof (cases xs)
    case Nil
    then show ?thesis by (simp add: f x)
  next
    case (Cons y ys)
    let ?j = "join i (map (dumps a i k) xs) @ '']'' @ rest"
    have st: "val_start ?j"
      using Cons.prems(2) Cons by (intro val_start_append join_val_start) (auto simp: dumps_val_start)
    obtain w where w: "i = CHR '','' # w" "skip_ws (w @ ?j) = ?j" by (rule seps_skip [OF assms(1) st])
    have "parse_elems g ?j = Some (xs, rest)"
      using Cons.prems Cons by (intro Cons.IH) (auto simp: f)
    moreover have "join i (map (dumps a i k) (x # xs)) @ '']'' @ rest = dumps a i k x @ CHR '','' # w @ ?j"
      using Cons w(1) by simp
    ultimately show ?thesis using w(2) by (simp add: f x)
  qed
qed simp

lemma parse_members_dumps:
  assumes "seps_ok i k" and "d \<noteq> []" and "\<forall>kv \<in> set d. reads_back a i k (snd kv) \<and> json_ok (snd kv) \<and> (a \<longrightarrow> utf8_valid (fst kv))"
    and "sum_list (map (\<lambda>kv. Suc (jfuel (snd kv))) d) < f"
  shows "parse_members f (join i (map (\<lambda>kv. quote a (fst kv) @ k @ dumps a i k (snd kv)) d)
      @ ''}'' @ rest) = Some (d, rest)"
  using assms(2-4)
proof (induction d arbitrary: f)
  case (Cons kv d)
  obtain s v where kv: "kv = (s, v)" by (cases kv)
  from Cons.prems obtain g where f: "f = Suc g" and g: "jfuel v \<le> g" by (cases f) (auto simp: kv)
  have v: "parse_val g (dumps a i k v @ r) = Some (v, r)" if "delim r" for r
    using Cons.prems(2) g that by (simp add: kv reads_back_def)
  have vs: "val_start (dumps a i k v @ r)" for r
    using Cons.prems(2) by (intro val_start_append dumps_val_start) (simp add: kv)
  have step: "parse_members f (quote a s @ k @ dumps a i k v @ c # r) =
      (if c = CHR ''}'' then Some ([(s, v)], r)
       else if c = CHR '','' then map_option (\<lambda>(d, z). ((s, v) # d, z)) (parse_members g (skip_ws r))
       else None)" if "c = CHR ''}'' \<or> c = CHR '',''" for c r
  proof -
    define dv where "dv = dumps a i k v"
    obtain w where w: "k = CHR '':'' # w" "skip_ws (w @ dv @ c # r) = dv @ c # r"
      unfolding dv_def by (rule seps_skip [OF assms(1) vs])
    have "a \<longrightarrow> utf8_valid s" using Cons.prems(2) by (simp add: kv)
    then have q: "scan_str (tl (quote a s) @ CHR '':'' # w @ dv @ c # r) = Some (s, CHR '':'' # w @ dv @ c # r)" by (rule quote_scan)
    from that have c: "\<not> json_ws c" and pv: "parse_val g (dv @ c # r) = Some (v, c # r)"
      by (auto simp: dv_def v)
    have eq: "quote a s @ k @ dv @ c # r = CHR 0x22 # tl (quote a s) @ CHR '':'' # w @ dv @ c # r"
      by (subst quote_hd) (simp add: w(1))
    show ?thesis
      unfolding dv_def [symmetric] eq f parse_members.simps list.case q
      using w(2) c by (simp add: pv)
  qed
  show ?case
  proof (cases d)
    case Nil
    then show ?thesis using step [of "CHR ''}''" rest] by (simp add: kv)
  next
    case (Cons kv' d')
    let ?j = "join i (map (\<lambda>kv. quote a (fst kv) @ k @ dumps a i k (snd kv)) d) @ ''}'' @ rest"
    have "val_start (quote a (fst kv') @ x)" for x by (simp add: val_start_def quote_def)
    then have st: "val_start ?j" using Cons by (intro val_start_append join_val_start) auto
    obtain w where w: "i = CHR '','' # w" "skip_ws (w @ ?j) = ?j" by (rule seps_skip [OF assms(1) st])
    have "parse_members g ?j = Some (d, rest)"
      using Cons.prems Cons by (intro Cons.IH) (auto simp: f)
    moreover have "join i (map (\<lambda>kv. quote a (fst kv) @ k @ dumps a i k (snd kv)) (kv # d)) @ ''}'' @ rest
        = quote a s @ k @ dumps a i k v @ CHR '','' # w @ ?j"
      using Cons w(1) by (simp add: kv)
    ultimately show ?thesis using w(2) step [of "CHR '',''" "w @ ?j"] by (simp add: kv)
  qed
qed simp

lemma dupdate_fresh:
  "distinct (map fst (e @ d)) \<Longrightarrow> dupdate e d = e @ d"
proof (induction e d rule: dupdate.induct)
  case (2 e k v d)
  then have "k \<notin> set (map fst e)" by auto
  then have u: "dset e k v = e @ [(k, v)]" by (induction e) auto
  from 2 have "dupdate (e @ [(k, v)]) d = (e @ [(k, v)]) @ d" unfolding u by auto
  with u show ?case by simp
qed simp

lemma array_reads_back:
  assumes "seps_ok i k" and "json_ok (JArr xs)" and "\<And>x. x \<in> set xs \<Longrightarrow> reads_back a i k x"
  shows "reads_back a i k (JArr xs)"
  unfolding reads_back_def
proof (intro allI impI)
  fix f rest assume f: "jfuel (JArr xs) \<le> f"
  then obtain g where g: "f = Suc g" by (cases f) auto
  show "parse_val f (dumps a i k (JArr xs) @ rest) = Some (JArr xs, rest)"
  proof (cases "xs = []")
    case False
    have "val_start (join i (map (dumps a i k) xs) @ '']'' @ rest)"
      using False assms(2) by (intro val_start_append join_val_start) (auto simp: hd_map dumps_val_start list_all_iff)
    moreover have "parse_elems g (join i (map (dumps a i k) xs) @ '']'' @ rest) = Some (xs, rest)"
      using False assms f g by (intro parse_elems_dumps) (auto simp: list_all_iff)
    ultimately show ?thesis
      by (cases "join i (map (dumps a i k) xs)") (auto simp: g val_start_def)
  qed (simp add: g)
qed

lemma object_reads_back:
  assumes "seps_ok i k" and "json_ok (JObj d)" and "text_ok a (JObj d)" and "\<And>kv. kv \<in> set d \<Longrightarrow> reads_back a i k (snd kv)"
  shows "reads_back a i k (JObj d)"
  unfolding reads_back_def
proof (intro allI impI)
  fix f rest assume f: "jfuel (JObj d) \<le> f"
  then obtain g where g: "f = Suc g" by (cases f) auto
  let ?m = "map (\<lambda>kv. quote a (fst kv) @ k @ dumps a i k (snd kv)) d"
  show "parse_val f (dumps a i k (JObj d) @ rest) = Some (JObj d, rest)"
  proof (cases "d = []")
    case False
    have "val_start (join i ?m @ ''}'' @ rest)"
      using False by (intro val_start_append join_val_start) (auto simp: hd_map val_start_def quote_def)
    moreover have "parse_members g (join i ?m @ ''}'' @ rest) = Some (d, rest)"
      using False assms f g by (intro parse_members_dumps) (auto simp: list_all_iff)
    moreover have "dupdate [] d = d" using assms(2) dupdate_fresh [of "[]" d] by simp
    ultimately show ?thesis
      by (cases "join i ?m") (auto simp: g val_start_def)
  qed (simp add: g)
qed

lemma json_reads_back: "seps_ok i k \<Longrightarrow> json_ok v \<Longrightarrow> text_ok a v \<Longrightarrow> reads_back a i k v"
proof (induction v rule: json_induct)
  case (JArr xs)
  then show ?case by (intro array_reads_back) (auto simp: list_all_iff)
next
  case (JObj d)
  then show ?case by (intro object_reads_back) (auto simp: list_all_iff)
next
  case (JInt n)
  have "parse_val (Suc f) (show_int n @ r) = scan_word (show_int n @ r)" if "delim r" for f r
  proof -
    have "scan_word (show_int n @ r) = Some (JInt n, r)" by (rule scan_word_show_int [OF that])
    then show ?thesis
      using scan_word_hd [of "hd (show_int n @ r)" "tl (show_int n @ r)"] by (cases "show_int n @ r") auto
  qed
  then show ?case by (auto simp: reads_back_def scan_word_show_int Suc_le_eq gr0_conv_Suc)
next
  case (JFloat s)
  have "parse_val (Suc f) (s @ r) = scan_word (s @ r)" if "delim r" for f r
  proof -
    have w: "scan_word (s @ r) = Some (JFloat s, r)" using JFloat that by (simp add: float_lit_scan)
    then show ?thesis using scan_word_hd [of "hd (s @ r)" "tl (s @ r)"] by (cases "s @ r") auto
  qed
  then show ?case using JFloat by (auto simp: reads_back_def float_lit_scan Suc_le_eq gr0_conv_Suc)
next
  case (JStr s)
  then have "a \<longrightarrow> utf8_valid s" by simp
  from quote_scan [OF this] have "parse_val (Suc f) (quote a s @ r) = Some (JStr s, r)" for f r
    by (subst quote_hd) simp
  then show ?case by (auto simp: reads_back_def Suc_le_eq gr0_conv_Suc)
qed (auto simp: reads_back_def scan_word_def Suc_le_eq gr0_conv_Suc)

lemma length_join:
  "xs \<noteq> [] \<Longrightarrow> length (join i xs) = sum_list (map length xs) + (length xs - 1) * length i"
  by (induction i xs rule: join.induct) auto

lemma sum_list_fuel:
  assumes "\<And>x. x \<in> set xs \<Longrightarrow> g x \<le> 2 * length (h x)" and "1 \<le> length i"
  shows "sum_list (map (\<lambda>x. Suc (g x)) xs) \<le> 2 * length (join i (map h xs)) + 2"
proof (cases "xs = []")
  case False
  have "sum_list (map (\<lambda>x. Suc (g x)) xs) \<le> sum_list (map (\<lambda>x. 2 * length (h x)) xs) + length xs"
    using assms(1) by (induction xs) fastforce+
  also have "\<dots> = 2 * sum_list (map length (map h xs)) + length xs"
    by (simp add: sum_list_const_mult comp_def)
  also have "\<dots> \<le> 2 * (sum_list (map length (map h xs)) + (length xs - 1) * length i) + 2"
  proof -
    from False obtain n where n: "length xs = Suc n" by (cases xs) auto
    have "n \<le> n * length i" using assms(2) by simp
    moreover have "n \<le> m \<Longrightarrow> 2 * a + Suc n \<le> 2 * (a + m) + 2" for a m by simp
    ultimately show ?thesis unfolding n diff_Suc_1 by blast
  qed
  finally show ?thesis using False by (simp add: length_join)
qed simp

lemma jfuel_dumps: "json_ok v \<Longrightarrow> 1 \<le> length i \<Longrightarrow> jfuel v \<le> 2 * length (dumps a i k v)"
proof (induction v rule: json_induct)
  case (JArr xs)
  have "sum_list (map (\<lambda>x. Suc (jfuel x)) xs) \<le> 2 * length (join i (map (dumps a i k) xs)) + 2"
    using JArr by (intro sum_list_fuel) (auto simp: list_all_iff)
  then show ?case by simp
next
  case (JObj d)
  have "sum_list (map (\<lambda>kv. Suc (jfuel (snd kv))) d) \<le>
      2 * length (join i (map (\<lambda>kv. quote a (fst kv) @ k @ dumps a i k (snd kv)) d)) + 2"
    using JObj by (intro sum_list_fuel) (fastforce simp: list_all_iff)+
  then show ?case by simp
next
  case (JFloat s)
  then show ?case by (cases s) (auto simp: float_lit_def)
next
  case (JInt n)
  have "0 < length (show_int n)" by simp
  then show ?case by (simp del: length_greater_0_conv)
qed (auto simp: quote_def)

theorem loads_dumps_seps:
  assumes "seps_ok i k" and "json_ok v" and "text_ok a v"
  shows "loads (dumps a i k v) = Inr v"
proof -
  let ?s = "dumps a i k v"
  from assms(1) have "1 \<le> length i" by (cases i) (auto simp: seps_ok_def)
  then have "jfuel v \<le> 2 * length ?s + 2" using jfuel_dumps [OF assms(2), of i a k] by simp
  then have "parse_val (2 * length ?s + 2) (?s @ []) = Some (v, [])"
    using json_reads_back [OF assms] delim_simps(1) unfolding reads_back_def by blast
  moreover have "skip_ws ?s = ?s" using dumps_val_start [OF assms(2)] by simp
  ultimately show ?thesis by (simp add: loads_def)
qed

lemma loads_dumps_compact [simp]: "json_ok v \<Longrightarrow> loads (dumps_compact v) = Inr v"
  and loads_dumps_plain [simp]: "json_ok v \<Longrightarrow> loads (dumps_plain v) = Inr v"
  by (simp_all add: dumps_compact_def dumps_plain_def loads_dumps_seps)

lemma loads_dumps_ascii [simp]:
  assumes "json_ok v" and "json_utf8 v"
  shows "loads (dumps_ascii_compact v) = Inr v" and "loads (dumps_default v) = Inr v"
  using assms by (simp_all add: dumps_ascii_compact_def dumps_default_def loads_dumps_seps)

interpretation json_compact: codec json_ok dumps_compact loads
  by unfold_locales simp

interpretation json_plain: codec json_ok dumps_plain loads
  by unfold_locales simp

interpretation json_ascii_c: codec "\<lambda>v. json_ok v \<and> json_utf8 v" dumps_ascii_compact loads
  by unfold_locales simp

subsection \<open>The text written is valid UTF-8\<close>

lemma esc_char_plain:
  "c \<notin> {CHR 0x22, CHR 0x5C, CHR 0x0A, CHR 0x0D, CHR 0x09, CHR 0x08, CHR 0x0C} \<Longrightarrow> 32 \<le> code c \<Longrightarrow>
   esc_char c = [c]"
  by (simp add: esc_char_def)

lemma esc_char_high: "128 \<le> code c \<Longrightarrow> esc_char c = [c]"
  by (rule esc_char_plain) auto

lemma u_escape_ascii: "is_ascii (u_escape n)"
  by (simp add: u_escape_def hex_digit_props)

lemma esc_char_ascii: "code c < 128 \<Longrightarrow> is_ascii (esc_char c)"
  unfolding esc_char_def by (simp add: u_escape_ascii)

lemma utf8_valid_multi:
  assumes "utf8_valid (c # r)" and "128 \<le> code c"
  obtains x r' where "r = x @ r'" and "\<And>d. d \<in> set x \<Longrightarrow> 128 \<le> code d" and "utf8_valid r'"
    and "\<And>t. utf8_valid (c # x @ t) = utf8_valid t"
proof -
  from assms consider
      (two) c1 r' where "r = [c1] @ r'" "194 \<le> code c" "code c < 224"
    | (three) c1 c2 r' where "r = [c1, c2] @ r'" "224 \<le> code c" "code c < 240"
    | (four) c1 c2 c3 r' where "r = [c1, c2, c3] @ r'" "240 \<le> code c" "code c < 245"
    by (auto split: if_splits list.splits)
  then show ?thesis
  proof cases
    case two
    with assms show ?thesis by (intro that [of "[c1]" r']) (auto simp: cont_byte_def)
  next
    case three
    with assms show ?thesis by (intro that [of "[c1, c2]" r']) (auto simp: cont_byte_def)
  next
    case four
    with assms show ?thesis by (intro that [of "[c1, c2, c3]" r']) (auto simp: cont_byte_def)
  qed
qed

lemma utf8_valid_esc: "utf8_valid s \<Longrightarrow> utf8_valid (concat (map esc_char s))"
proof (induction s rule: length_induct)
  case (1 s)
  show ?case
  proof (cases s)
    case (Cons c r)
    show ?thesis
    proof (cases "code c < 128")
      case True
      with 1 Cons have "utf8_valid (concat (map esc_char r))" by simp
      with True show ?thesis by (simp add: Cons utf8_valid_append esc_char_ascii ascii_utf8)
    next
      case False
      from "1.prems" Cons False obtain x r' where x: "r = x @ r'" "\<And>d. d \<in> set x \<Longrightarrow> 128 \<le> code d"
        "utf8_valid r'" and v: "\<And>t. utf8_valid (c # x @ t) = utf8_valid t"
        by (metis utf8_valid_multi not_less)
      have "concat (map esc_char x) = x" using x(2) by (induction x) (auto simp: esc_char_high)
      moreover have "utf8_valid (concat (map esc_char r'))" using 1 Cons x by simp
      ultimately show ?thesis using False by (simp only: Cons x(1) list.map concat.simps map_append
            concat_append esc_char_high not_less append.simps v)
    qed
  qed simp
qed

lemma esc_ascii_is_ascii: "is_ascii (esc_ascii s)"
  by (induction s rule: esc_ascii.induct)
     (auto simp: esc_char_ascii u_escape_ascii u_escape_point_def split: list.splits)

lemma utf8_valid_quote: "utf8_valid s \<Longrightarrow> utf8_valid (quote a s)"
  using utf8_valid_esc [of s] ascii_utf8 [OF esc_ascii_is_ascii [of s]] by (auto simp: quote_def intro: utf8_valid_appendI)

lemma utf8_valid_dumps:
  assumes "is_ascii i" and "is_ascii k"
  shows "json_utf8 v \<Longrightarrow> utf8_valid (dumps a i k v)"
proof (induction v rule: json_induct)
  case (JArr xs)
  then have "utf8_valid (join i (map (dumps a i k) xs))"
    using assms(1) by (intro utf8_valid_join) (auto simp: list_all_iff)
  then show ?case by (auto intro!: utf8_valid_appendI)
next
  case (JObj d)
  then have "utf8_valid (join i (map (\<lambda>kv. quote a (fst kv) @ k @ dumps a i k (snd kv)) d))"
    using assms by (intro utf8_valid_join) (auto simp: list_all_iff intro!: utf8_valid_appendI utf8_valid_quote)
  then show ?case by (auto intro!: utf8_valid_appendI)
qed (auto simp: utf8_valid_quote)

lemma utf8_valid_dumps_compact [simp]: "json_utf8 v \<Longrightarrow> utf8_valid (dumps_compact v)"
  and utf8_valid_dumps_plain [simp]: "json_utf8 v \<Longrightarrow> utf8_valid (dumps_plain v)"
  and utf8_valid_dumps_ascii_compact [simp]: "json_utf8 v \<Longrightarrow> utf8_valid (dumps_ascii_compact v)"
  by (simp_all add: dumps_compact_def dumps_plain_def dumps_ascii_compact_def utf8_valid_dumps)

subsection \<open>JSON in unpadded Base64\<close>

definition json_b64 :: "json \<Rightarrow> string" where
  "json_b64 obj = b64e (dumps_compact obj)"

definition json_unb64 :: "string \<Rightarrow> json res" where
  "json_unb64 token = rbind (b64d token) (\<lambda>raw. rbind (utf8_decode raw) loads)"

text \<open>\<open>b64d(x)\<close> where \<open>x\<close> is a JSON value: anything but a text raises.\<close>

definition b64d_json :: "json \<Rightarrow> bytes res" where
  "b64d_json j = (case j of JStr s \<Rightarrow> b64d s | _ \<Rightarrow> Inl (TypeError ''object has no len()''))"

lemma b64d_json_b64e [simp]: "b64d_json (JStr (b64e b)) = Inr b"
  by (simp add: b64d_json_def)

definition wire_ok :: "json \<Rightarrow> bool" where
  "wire_ok v = (json_ok v \<and> json_utf8 v)"

interpretation utf8_json: codec wire_ok dumps_compact "\<lambda>s. rbind (utf8_decode s) loads"
  by unfold_locales (simp add: wire_ok_def)

interpretation wire: codec_comp "\<lambda>_. True" b64e b64d wire_ok dumps_compact "\<lambda>s. rbind (utf8_decode s) loads"
  by unfold_locales simp

lemma json_unb64_b64 [simp]: "wire_ok v \<Longrightarrow> json_unb64 (json_b64 v) = Inr v"
  unfolding json_unb64_def json_b64_def by (rule wire.dec_enc_comp)

lemma json_b64_inject: "wire_ok v \<Longrightarrow> wire_ok w \<Longrightarrow> json_b64 v = json_b64 w \<longleftrightarrow> v = w"
  unfolding json_b64_def by (rule wire.comp.enc_inject)

subsection \<open>Well-formedness under dictionary updates\<close>

lemma set_dset: "kv \<in> set (dset d k v) \<Longrightarrow> kv = (k, v) \<or> kv \<in> set d"
  by (induction d) (auto split: if_splits)

lemma wire_ok_dset:
  "wire_ok (JObj d) \<Longrightarrow> wire_ok v \<Longrightarrow> utf8_valid k \<Longrightarrow> wire_ok (JObj (dset d k v))"
  by (fastforce simp: wire_ok_def list_all_iff dest: set_dset)

lemma wire_ok_simps [simp]:
  "wire_ok JNull" "wire_ok (JBool b)" "wire_ok (JInt i)" "wire_ok (JStr s) = utf8_valid s"
  "wire_ok (JArr xs) = list_all wire_ok xs"
  "wire_ok (JObj d) = (distinct (map fst d) \<and> list_all (\<lambda>kv. utf8_valid (fst kv) \<and> wire_ok (snd kv)) d)"
  by (auto simp: wire_ok_def list_all_iff)

lemma dset_same: "map_of d k = Some v \<Longrightarrow> dset d k v = d"
  by (induction d) auto

end
