(* ===== verification/Crypto.thy ===== *)
theory Crypto
  imports Json
begin

text \<open>
  The cryptographic environment and the helpers of \<open>client/utils.py\<close>.

  The primitives are not code of the repository: the \<open>cryptography\<close> package, \<open>liboqs\<close>
  and \<open>hashlib\<close>'s compression function are the fields of the record \<open>crypto\<close>, an
  argument of every definition that uses them, and so are the operating system's random bytes and
  clock (\<open>os_random C t n\<close> is what the draw number \<open>t\<close> of \<open>n\<close> bytes returns). So is
  the OpenMLS process: \<open>mls_present\<close> says whether its binary is installed and
  \<open>mls_serve lines\<close> is the line it answers to the last of the lines written to it, empty when
  it has stopped.
  What the code relies on is stated as named predicates: \<open>aead_ok\<close>, \<open>aead_bound\<close>,
  \<open>sig_ok\<close>, \<open>dh_ok\<close>, \<open>kem_ok\<close>, \<open>sizes_ok\<close>. \<open>toy_crypto\<close> is a
  concrete environment that satisfies them all, used by the witnesses.
\<close>

record crypto =
  sha256 :: "bytes \<Rightarrow> bytes"
  hkdf_sha256 :: "bytes option \<Rightarrow> nat \<Rightarrow> bytes \<Rightarrow> bytes \<Rightarrow> bytes"
  pbkdf2_sha256 :: "bytes \<Rightarrow> int \<Rightarrow> bytes \<Rightarrow> bytes"
  aes_enc :: "bytes \<Rightarrow> bytes \<Rightarrow> bytes \<Rightarrow> bytes \<Rightarrow> bytes"
  aes_dec :: "bytes \<Rightarrow> bytes \<Rightarrow> bytes \<Rightarrow> bytes \<Rightarrow> bytes option"
  ed_pub :: "bytes \<Rightarrow> bytes"
  ed_sign :: "bytes \<Rightarrow> bytes \<Rightarrow> bytes"
  ed_verify :: "bytes \<Rightarrow> bytes \<Rightarrow> bytes \<Rightarrow> bool"
  x_pub :: "bytes \<Rightarrow> bytes"
  x_dh :: "bytes \<Rightarrow> bytes \<Rightarrow> bytes option"
  kem_gen :: "string \<Rightarrow> nat \<Rightarrow> (bytes \<times> bytes) option"
  kem_enc :: "string \<Rightarrow> bytes \<Rightarrow> nat \<Rightarrow> (bytes \<times> bytes) option"
  kem_dec :: "string \<Rightarrow> bytes \<Rightarrow> bytes \<Rightarrow> bytes option"
  oqs_present :: bool
  oqs_enabled :: "string list option"
  os_random :: "nat \<Rightarrow> nat \<Rightarrow> bytes"
  ed_seed :: "nat \<Rightarrow> bytes"
  x_seed :: "nat \<Rightarrow> bytes"
  clock_ms :: "nat \<Rightarrow> int"
  mls_present :: bool
  mls_serve :: "string list \<Rightarrow> string"

subsection \<open>What the code relies on\<close>

definition aead_ok :: "crypto \<Rightarrow> bool" where
  "aead_ok C = (\<forall>k n p a. aes_dec C k n (aes_enc C k n p a) a = Some p)"

text \<open>Authenticity: only what was sealed under the key, nonce and associated data opens.\<close>

definition aead_bound :: "crypto \<Rightarrow> bool" where
  "aead_bound C = (\<forall>k n p a k' n' a'. aes_dec C k' n' (aes_enc C k n p a) a' \<noteq> None \<longrightarrow> k' = k \<and> n' = n \<and> a' = a)"

definition sig_ok :: "crypto \<Rightarrow> bool" where
  "sig_ok C = (\<forall>sk m. ed_verify C (ed_pub C sk) m (ed_sign C sk m))"

definition dh_ok :: "crypto \<Rightarrow> bool" where
  "dh_ok C = (\<forall>a b. x_dh C a (x_pub C b) = x_dh C b (x_pub C a) \<and> x_dh C a (x_pub C b) \<noteq> None)"

definition kem_ok :: "crypto \<Rightarrow> bool" where
  "kem_ok C = (\<forall>alg i r pk sk. kem_gen C alg i = Some (pk, sk) \<longrightarrow>
     (\<exists>ct ss. kem_enc C alg pk r = Some (ct, ss) \<and> kem_dec C alg sk ct = Some ss))"

definition sizes_ok :: "crypto \<Rightarrow> bool" where
  "sizes_ok C = ((\<forall>b. length (sha256 C b) = 32)
     \<and> (\<forall>s n i k. length (hkdf_sha256 C s n i k) = n)
     \<and> (\<forall>t n. length (os_random C t n) = n)
     \<and> (\<forall>sk m. length (ed_sign C sk m) = 64)
     \<and> (\<forall>sk. length (ed_pub C sk) = 32)
     \<and> (\<forall>t. length (ed_seed C t) = 32) \<and> (\<forall>t. length (x_seed C t) = 32)
     \<and> (\<forall>sk. length (x_pub C sk) = 32)
     \<and> (\<forall>alg i pk sk. kem_gen C alg i = Some (pk, sk) \<longrightarrow> pk \<noteq> []))"

definition crypto_ok :: "crypto \<Rightarrow> bool" where
  "crypto_ok C = (aead_ok C \<and> sig_ok C \<and> dh_ok C \<and> kem_ok C \<and> sizes_ok C)"

lemma crypto_okD:
  assumes "crypto_ok C"
  shows "aead_ok C" and "sig_ok C" and "dh_ok C" and "kem_ok C" and "sizes_ok C"
  using assms by (simp_all add: crypto_ok_def)

lemma sizes_okD:
  assumes "sizes_ok C"
  shows "length (sha256 C b) = 32" and "length (hkdf_sha256 C s n i k) = n"
    and "length (os_random C t n) = n" and "length (ed_sign C sk m) = 64"
    and "length (ed_pub C sk) = 32" and "length (ed_seed C t) = 32" and "length (x_seed C t) = 32"
    and "length (x_pub C sk) = 32" and "kem_gen C alg j = Some (pk, s') \<Longrightarrow> pk \<noteq> []"
  using assms unfolding sizes_ok_def by blast+

subsection \<open>AES-GCM and the clock\<close>

definition aesgcm_encrypt :: "crypto \<Rightarrow> bytes \<Rightarrow> bytes \<Rightarrow> bytes \<Rightarrow> bytes \<Rightarrow> bytes res" where
  "aesgcm_encrypt C key nonce plain aad =
     rguard (length key \<notin> {16, 24, 32}) (ValueError ''AESGCM key must be 128, 192, or 256 bits.'')
       (rguard (length nonce < 8 \<or> 128 < length nonce) (ValueError ''Nonce must be between 8 and 128 bytes'')
         (Inr (aes_enc C key nonce plain aad)))"

definition aesgcm_decrypt :: "crypto \<Rightarrow> bytes \<Rightarrow> bytes \<Rightarrow> bytes \<Rightarrow> bytes \<Rightarrow> bytes res" where
  "aesgcm_decrypt C key nonce ct aad =
     rguard (length key \<notin> {16, 24, 32}) (ValueError ''AESGCM key must be 128, 192, or 256 bits.'')
       (rguard (length nonce < 8 \<or> 128 < length nonce) (ValueError ''Nonce must be between 8 and 128 bytes'')
         (opt_res InvalidTag (aes_dec C key nonce ct aad)))"

lemma aesgcm_roundtrip:
  assumes "aead_ok C" and "aesgcm_encrypt C key nonce plain aad = Inr ct"
  shows "aesgcm_decrypt C key nonce ct aad = Inr plain"
  using assms by (auto simp: aesgcm_encrypt_def aesgcm_decrypt_def aead_ok_def)

lemma aesgcm_encrypt_32:
  "length key = 32 \<Longrightarrow> length nonce = 12 \<Longrightarrow>
   aesgcm_encrypt C key nonce plain aad = Inr (aes_enc C key nonce plain aad)"
  by (simp add: aesgcm_encrypt_def)

text \<open>\<open>time.time()\<close> at millisecond resolution, as the literal of the float it returns.\<close>

definition pad3 :: "nat \<Rightarrow> string" where
  "pad3 n = [digit_char (n div 100 mod 10), digit_char (n div 10 mod 10), digit_char (n mod 10)]"

definition float_of_ms :: "int \<Rightarrow> string" where
  "float_of_ms ms =
     (let fr = rstrip_char (CHR ''0'') (pad3 (nat (ms mod 1000)))
      in show_int (ms div 1000) @ ''.'' @ (if fr = [] then ''0'' else fr))"

subsection \<open>Password hashing and local sealing (client/utils.py)\<close>

definition REPLAY_WINDOW_MS :: int where
  "REPLAY_WINDOW_MS = 5 * 60 * 1000"

definition hash_password :: "crypto \<Rightarrow> string \<Rightarrow> string \<Rightarrow> string" where
  "hash_password C password salt = to_hex (pbkdf2_sha256 C (lower salt) 100000 password)"

definition ts_short :: "string \<Rightarrow> string" where
  "ts_short ts =
     (if ts = [] then []
      else let parts = split_on (CHR '' '') ts
           in if 1 < length parts then take 5 (parts ! 1) else take 5 ts)"

definition derive_master_key :: "crypto \<Rightarrow> string \<Rightarrow> string \<Rightarrow> bytes" where
  "derive_master_key C password username = pbkdf2_sha256 C (lower username) 600000 password"

definition encrypt_with_key :: "crypto \<Rightarrow> bytes \<Rightarrow> int \<Rightarrow> bytes \<Rightarrow> string \<Rightarrow> string res" where
  "encrypt_with_key C nonce ts_ms key plaintext =
     (let inner = dumps_plain (JObj [(''ts'', JInt ts_ms), (''body'', JStr plaintext)])
      in rbind (aesgcm_encrypt C key nonce inner []) (\<lambda>ciphertext.
         Inr (b64encode (nonce @ ciphertext))))"

definition replay_too_old :: "int \<Rightarrow> json \<Rightarrow> bool res" where
  "replay_too_old now ts = (case ts of
       JInt t \<Rightarrow> Inr (REPLAY_WINDOW_MS < now - t)
     | JBool b \<Rightarrow> Inr (REPLAY_WINDOW_MS < now - (if b then 1 else 0))
     | JFloat s \<Rightarrow> Inr (float_below s (now - REPLAY_WINDOW_MS))
     | _ \<Rightarrow> Inl (TypeError ''unsupported operand type(s) for -''))"

definition decrypt_with_key :: "crypto \<Rightarrow> bytes \<Rightarrow> string \<Rightarrow> int option \<Rightarrow> json res" where
  "decrypt_with_key C key token check =
     rbind (b64decode token) (\<lambda>raw.
     rbind (aesgcm_decrypt C key (take 12 raw) (drop 12 raw) []) (\<lambda>plainbytes.
     rbind (utf8_decode plainbytes) (\<lambda>text.
     rbind (loads text) (\<lambda>j.
     rbind (as_dict j) (\<lambda>envelope.
     rbind (case check of
              None \<Rightarrow> Inr False
            | Some now \<Rightarrow>
                let ts = dget envelope ''ts'' (JInt 0)
                in if truthy ts then replay_too_old now ts else Inr False) (\<lambda>old.
     rguard old (ValueError ''Replay detected'')
       (Inr (dget envelope ''body'' (JStr [])))))))))"

definition as_str :: "json \<Rightarrow> string res" where
  "as_str j = (case j of JStr s \<Rightarrow> Inr s | _ \<Rightarrow> Inl (TypeError ''expected str''))"

text \<open>The at-rest reading every local state file goes through (\<open>check_replay=False\<close>).\<close>

definition open_at_rest :: "crypto \<Rightarrow> bytes \<Rightarrow> string \<Rightarrow> string res" where
  "open_at_rest C key token = rbind (decrypt_with_key C key token None) as_str"

definition encrypt_key_with_master :: "crypto \<Rightarrow> bytes \<Rightarrow> int \<Rightarrow> bytes \<Rightarrow> bytes \<Rightarrow> string res" where
  "encrypt_key_with_master C nonce ts_ms master_key conv_key =
     encrypt_with_key C nonce ts_ms master_key (b64encode conv_key)"

definition decrypt_key_with_master :: "crypto \<Rightarrow> bytes \<Rightarrow> string \<Rightarrow> bytes res" where
  "decrypt_key_with_master C master_key token = rbind (open_at_rest C master_key token) b64decode"

subsection \<open>Ed25519 identity keys\<close>

definition ed_private :: "bytes \<Rightarrow> bytes res" where
  "ed_private sk = rguard (length sk \<noteq> 32) (ValueError ''An Ed25519 private key is 32 bytes long'') (Inr sk)"

definition identity_keygen :: "crypto \<Rightarrow> nat \<Rightarrow> bytes \<times> bytes" where
  "identity_keygen C t = (ed_pub C (ed_seed C t), ed_seed C t)"

definition identity_pk_from_sk :: "crypto \<Rightarrow> bytes \<Rightarrow> bytes res" where
  "identity_pk_from_sk C sk_bytes = rbind (ed_private sk_bytes) (\<lambda>sk. Inr (ed_pub C sk))"

definition identity_sign :: "crypto \<Rightarrow> bytes \<Rightarrow> bytes \<Rightarrow> bytes res" where
  "identity_sign C sk_bytes message = rbind (ed_private sk_bytes) (\<lambda>sk. Inr (ed_sign C sk message))"

definition identity_verify :: "crypto \<Rightarrow> bytes \<Rightarrow> bytes \<Rightarrow> bytes \<Rightarrow> unit res" where
  "identity_verify C pk_bytes message signature =
     rguard (length pk_bytes \<noteq> 32) (ValueError ''An Ed25519 public key is 32 bytes long'')
       (if ed_verify C pk_bytes message signature then Inr ()
        else Inl (ValueError ''Identity signature invalid''))"

lemma ed_private_ok [simp]: "length sk = 32 \<Longrightarrow> ed_private sk = Inr sk"
  by (simp add: ed_private_def)

subsection \<open>Sealed text opens to itself\<close>

definition seal_ok :: "crypto \<Rightarrow> bytes \<Rightarrow> bytes \<Rightarrow> bool" where
  "seal_ok C key nonce = (aead_ok C \<and> length key = 32 \<and> length nonce = 12)"

lemma envelope_ok: "json_ok (JObj [(''ts'', JInt t), (''body'', JStr s)])"
  by simp

lemma decrypt_with_key_sealed:
  assumes "seal_ok C key nonce" and "utf8_valid text"
    and "encrypt_with_key C nonce ts key text = Inr token"
  shows "decrypt_with_key C key token check =
    (case check of
       None \<Rightarrow> Inr (JStr text)
     | Some now \<Rightarrow> if ts \<noteq> 0 \<and> REPLAY_WINDOW_MS < now - ts then Inl (ValueError ''Replay detected'')
                   else Inr (JStr text))"
proof -
  let ?inner = "dumps_plain (JObj [(''ts'', JInt ts), (''body'', JStr text)])"
  from assms(1,3) have tok: "token = b64encode (nonce @ aes_enc C key nonce ?inner [])"
    by (simp add: encrypt_with_key_def seal_ok_def aesgcm_encrypt_def)
  have dec: "aesgcm_decrypt C key nonce (aes_enc C key nonce ?inner []) [] = Inr ?inner"
    using assms(1) by (simp add: aesgcm_decrypt_def seal_ok_def aead_ok_def)
  have "utf8_valid ?inner" using assms(2) by simp
  moreover have "loads ?inner = Inr (JObj [(''ts'', JInt ts), (''body'', JStr text)])"
    by (rule loads_dumps_plain) (rule envelope_ok)
  moreover have "length nonce = 12" using assms(1) by (simp add: seal_ok_def)
  ultimately show ?thesis
    using dec by (cases check) (auto simp: decrypt_with_key_def tok dget_def replay_too_old_def Let_def)
qed

lemma open_at_rest_sealed:
  assumes "seal_ok C key nonce" and "utf8_valid text"
    and "encrypt_with_key C nonce ts key text = Inr token"
  shows "open_at_rest C key token = Inr text"
  using decrypt_with_key_sealed [OF assms, of None] by (simp add: open_at_rest_def as_str_def)

lemma encrypt_with_key_total:
  "length key = 32 \<Longrightarrow> length nonce = 12 \<Longrightarrow> \<exists>token. encrypt_with_key C nonce ts key text = Inr token"
  by (simp add: encrypt_with_key_def aesgcm_encrypt_def Let_def)

lemma encrypt_with_key_clean:
  assumes "encrypt_with_key C nonce ts key text = Inr token"
  shows "is_ascii token"
  using assms by (auto simp: encrypt_with_key_def Let_def)

subsection \<open>A concrete environment\<close>

definition pad_to :: "nat \<Rightarrow> bytes \<Rightarrow> bytes" where
  "pad_to n b = take n (b @ replicate n (CHR ''.''))"

definition toy_prefix :: "bytes \<Rightarrow> bytes \<Rightarrow> bytes \<Rightarrow> bytes" where
  "toy_prefix k n a = to_hex k @ ''.'' @ to_hex n @ ''.'' @ to_hex a @ ''.''"

definition toy_crypto :: crypto where
  "toy_crypto = \<lparr>
     sha256 = pad_to 32,
     hkdf_sha256 = (\<lambda>s n i k. pad_to n (i @ k @ (case s of None \<Rightarrow> [] | Some x \<Rightarrow> x))),
     pbkdf2_sha256 = (\<lambda>s it p. pad_to 32 (s @ p)),
     aes_enc = (\<lambda>k n p a. toy_prefix k n a @ p),
     aes_dec = (\<lambda>k n c a. if starts_with c (toy_prefix k n a)
                          then Some (drop (length (toy_prefix k n a)) c) else None),
     ed_pub = pad_to 32,
     ed_sign = (\<lambda>sk m. pad_to 64 (pad_to 32 sk @ m)),
     ed_verify = (\<lambda>pk m s. s = pad_to 64 (pk @ m)),
     x_pub = pad_to 32,
     x_dh = (\<lambda>a b. Some (if pad_to 32 a \<le> b then pad_to 32 a @ b else b @ pad_to 32 a)),
     kem_gen = (\<lambda>alg i. Some (''pk'' @ show_nat i, ''pk'' @ show_nat i)),
     kem_enc = (\<lambda>alg pk r. Some (show_nat r, pk @ show_nat r)),
     kem_dec = (\<lambda>alg sk ct. Some (sk @ ct)),
     oqs_present = True,
     oqs_enabled = Some [''ML-KEM-1024'', ''ML-KEM-768''],
     os_random = (\<lambda>t n. pad_to n (show_nat t)),
     ed_seed = (\<lambda>t. pad_to 32 (''ed'' @ show_nat t)),
     x_seed = (\<lambda>t. pad_to 32 (''x'' @ show_nat t)),
     clock_ms = (\<lambda>t. 1700000000000 + int t),
     mls_present = True,
     mls_serve = (\<lambda>lines. dumps_compact (JObj [(''ok'', JBool True), (''epoch'', JInt (int (length lines))),
        (''groups'', JArr []), (''state_b64'', JStr (show_nat (length lines))),
        (''message_b64'', JStr ''bWxz''), (''plaintext_b64'', JStr ''aGk'')])) \<rparr>"

lemma length_pad_to [simp]: "length (pad_to n b) = n"
  by (simp add: pad_to_def)

lemma pad_to_id [simp]: "length b = n \<Longrightarrow> pad_to n b = b"
  by (simp add: pad_to_def)

lemma toy_ok: "crypto_ok toy_crypto"
proof -
  have "aead_ok toy_crypto" by (simp add: aead_ok_def toy_crypto_def)
  moreover have "sig_ok toy_crypto" by (simp add: sig_ok_def toy_crypto_def)
  moreover have "dh_ok toy_crypto" by (auto simp: dh_ok_def toy_crypto_def)
  moreover have "kem_ok toy_crypto" by (simp add: kem_ok_def toy_crypto_def)
  moreover have "sizes_ok toy_crypto" by (simp add: sizes_ok_def toy_crypto_def)
  ultimately show ?thesis by (simp add: crypto_ok_def)
qed

lemma toy_sizes [simp]: "sizes_ok toy_crypto"
  by (rule crypto_okD(5) [OF toy_ok])

lemma dot_free_split:
  assumes "CHR ''.'' \<notin> set a" and "CHR ''.'' \<notin> set b" and "a @ ''.'' @ s = b @ ''.'' @ t"
  shows "a = b \<and> s = t"
proof -
  have "split_on (CHR ''.'') (a @ CHR ''.'' # s) = split_on (CHR ''.'') (b @ CHR ''.'' # t)"
    using assms(3) by simp
  then have "a = b" using assms(1,2) by (simp add: split_on_append)
  with assms(3) show ?thesis by simp
qed

lemma to_hex_dot_free: "CHR ''.'' \<notin> set (to_hex b)"
proof -
  have "hex_digit d \<noteq> CHR ''.''" if "d < 16" for d
    using hex_digit_props(1) [OF that] by (auto simp: hex_val_def)
  then show ?thesis by (induction b) (auto dest: sym)
qed

lemma toy_bound: "aead_bound toy_crypto"
  unfolding aead_bound_def
proof (intro allI impI)
  fix k n p a k' n' a'
  assume "aes_dec toy_crypto k' n' (aes_enc toy_crypto k n p a) a' \<noteq> None"
  then have "starts_with (toy_prefix k n a @ p) (toy_prefix k' n' a')"
    by (simp add: toy_crypto_def split: if_splits)
  then obtain q where "toy_prefix k n a @ p = toy_prefix k' n' a' @ q"
    by (metis starts_with_def append_take_drop_id)
  then show "k' = k \<and> n' = n \<and> a' = a"
    using dot_free_split [OF to_hex_dot_free to_hex_dot_free] unfolding toy_prefix_def append_assoc
    by (metis to_hex_inject)
qed

end
