(* ===== verification/Auditor.thy ===== *)
theory Auditor
  imports Crypto
begin

text \<open>
  The identity-transparency auditor (\<open>auditor_service.py\<close>): the Merkle tree over the
  append-only log of identity keys, inclusion proofs, signed checkpoints and the request handler.
  The rows the database returns, the signing seed and the formatted time are arguments. Hashes are
  the hexadecimal strings the code passes around; a string that is no hexadecimal text makes
  \<open>bytes.fromhex\<close> raise, which the handler turns into a 500 reply.

  \<open>tree_levels\<close> and \<open>proof_loop\<close> are the two \<open>while len(cur) > 1\<close> loops; both
  terminate because \<open>pair_level\<close> shortens the level.
\<close>

definition node_hash :: "crypto \<Rightarrow> string \<Rightarrow> string \<Rightarrow> string res" where
  "node_hash C left_hex right_hex =
     rbind (from_hex left_hex) (\<lambda>l.
     rbind (from_hex right_hex) (\<lambda>r.
     Inr (to_hex (sha256 C (CHR 0x01 # l @ r)))))"

fun pair_level :: "crypto \<Rightarrow> string list \<Rightarrow> string list res" where
  "pair_level C [] = Inr []"
| "pair_level C [x] = Inr [x]"
| "pair_level C (x # y # r) =
     rbind (node_hash C x y) (\<lambda>h. rbind (pair_level C r) (\<lambda>t. Inr (h # t)))"

lemma length_pair_level: "pair_level C cur = Inr nxt \<Longrightarrow> length nxt = (length cur + 1) div 2"
  by (induction C cur arbitrary: nxt rule: pair_level.induct) auto

function tree_levels :: "crypto \<Rightarrow> string list \<Rightarrow> string list list res" where
  "tree_levels C cur =
     (if 1 < length cur
      then rbind (pair_level C cur) (\<lambda>nxt. rbind (tree_levels C nxt) (\<lambda>ls. Inr (nxt # ls)))
      else Inr [])"
  by pat_completeness auto
termination
  by (relation "measure (\<lambda>(C, cur). length cur)") (auto dest: length_pair_level)

declare tree_levels.simps [simp del]

definition empty_root :: "crypto \<Rightarrow> string" where
  "empty_root C = to_hex (sha256 C ''SecChatEmptyIdentityTree'')"

definition tree_layers :: "crypto \<Rightarrow> string list \<Rightarrow> string list list res" where
  "tree_layers C leaf_hashes =
     (if leaf_hashes = [] then Inr [[empty_root C]]
      else rbind (tree_levels C leaf_hashes) (\<lambda>ls. Inr (leaf_hashes # ls)))"

definition merkle_root :: "crypto \<Rightarrow> string list \<Rightarrow> string res" where
  "merkle_root C leaf_hashes =
     rbind (tree_layers C leaf_hashes) (\<lambda>ls.
     case last ls of [] \<Rightarrow> Inl IndexError | h # _ \<Rightarrow> Inr h)"

definition proof_item :: "string \<Rightarrow> string \<Rightarrow> json" where
  "proof_item side h = JObj [(''side'', JStr side), (''hash'', JStr h)]"

function proof_loop :: "crypto \<Rightarrow> nat \<Rightarrow> string list \<Rightarrow> json list res" where
  "proof_loop C idx cur =
     (if 1 < length cur then
        (let step = (if idx mod 2 = 0
                     then (if idx + 1 < length cur then [proof_item ''right'' (cur ! (idx + 1))] else [])
                     else [proof_item ''left'' (cur ! (idx - 1))])
         in rbind (pair_level C cur) (\<lambda>nxt.
            rbind (proof_loop C (idx div 2) nxt) (\<lambda>rest. Inr (step @ rest))))
      else Inr [])"
  by pat_completeness auto
termination
  by (relation "measure (\<lambda>(C, idx, cur). length cur)") (auto dest: length_pair_level)

declare proof_loop.simps [simp del]

definition inclusion_proof :: "crypto \<Rightarrow> string list \<Rightarrow> int \<Rightarrow> json list res" where
  "inclusion_proof C leaf_hashes index =
     (if index < 0 \<or> int (length leaf_hashes) \<le> index then Inr []
      else proof_loop C (nat index) leaf_hashes)"

definition checkpoint_msg :: "int \<Rightarrow> string \<Rightarrow> string \<Rightarrow> bytes" where
  "checkpoint_msg tree_size root_hash created_at =
     ''SecChatAuditCheckpoint|'' @ show_int tree_size @ ''|'' @ root_hash @ ''|'' @ created_at"

definition make_checkpoint :: "crypto \<Rightarrow> bytes \<Rightarrow> string \<Rightarrow> string list \<Rightarrow> dict res" where
  "make_checkpoint C sk created_at leaf_hashes =
     rbind (merkle_root C leaf_hashes) (\<lambda>root_hash.
     let tree_size = int (length leaf_hashes);
         msg = checkpoint_msg tree_size root_hash created_at
     in Inr [(''tree_size'', JInt tree_size), (''root_hash'', JStr root_hash),
             (''created_at'', JStr created_at), (''signature'', JStr (to_hex (ed_sign C sk msg))),
             (''auditor_pk'', JStr (to_hex (ed_pub C sk)))])"

fun assign_leaf_indices :: "int \<Rightarrow> dict list \<Rightarrow> dict list" where
  "assign_leaf_indices i [] = []"
| "assign_leaf_indices i (row # rows) =
     dset row ''leaf_index'' (JInt i) # assign_leaf_indices (i + 1) rows"

definition int_column :: "string \<Rightarrow> dict \<Rightarrow> dict res" where
  "int_column k row = rbind (dkey row k) (\<lambda>v. rbind (py_int v) (\<lambda>i. Inr (dset row k (JInt i))))"

definition load_rows :: "dict list \<Rightarrow> dict list res" where
  "load_rows fetched =
     rbind (rmap (\<lambda>row. rbind (int_column ''log_index'' row) (\<lambda>row.
                         rbind (int_column ''user_id'' row) (int_column ''identity_version''))) fetched)
       (\<lambda>rows. Inr (assign_leaf_indices 0 rows))"

definition row_leaves :: "dict list \<Rightarrow> string list res" where
  "row_leaves rows = rmap (\<lambda>r. rbind (dkey r ''leaf_hash'') (\<lambda>h. Inr (py_str h))) rows"

subsection \<open>Requests\<close>

text \<open>
  \<open>urlparse\<close> and \<open>parse_qs\<close> on a target without a fragment, parameters after a semicolon, plus signs and percent
  escapes, which are not decoded here: the client builds no URL that has one.
\<close>

definition url_path :: "string \<Rightarrow> string" where
  "url_path p = takeWhile (\<lambda>c. c \<noteq> CHR ''?'') p"

definition url_query :: "string \<Rightarrow> string" where
  "url_query p = drop 1 (dropWhile (\<lambda>c. c \<noteq> CHR ''?'') p)"

definition strip_slash :: "string \<Rightarrow> string" where
  "strip_slash s = rstrip_char (CHR ''/'') (dropWhile (\<lambda>c. c = CHR ''/'') s)"

definition query_value :: "string \<Rightarrow> string \<Rightarrow> string option" where
  "query_value q k =
     map_of (filter (\<lambda>kv. snd kv \<noteq> [])
       (map (\<lambda>f. (takeWhile (\<lambda>c. c \<noteq> CHR ''='') f, drop 1 (dropWhile (\<lambda>c. c \<noteq> CHR ''='') f)))
         (split_on (CHR ''&'') q))) k"

definition int_text :: "string \<Rightarrow> int res" where
  "int_text s = py_int (JStr s)"

definition row_is :: "int \<Rightarrow> int \<Rightarrow> dict \<Rightarrow> bool" where
  "row_is uid version r = (dget r ''user_id'' JNull = JInt uid \<and> dget r ''identity_version'' JNull = JInt version)"

definition get_identity :: "dict list \<Rightarrow> dict \<Rightarrow> string \<Rightarrow> (int \<times> json) res" where
  "get_identity rows cp uid_text =
     rbind (int_text uid_text) (\<lambda>uid.
     Inr (200, JObj [(''user_id'', JInt uid),
                     (''entries'', JArr (map JObj (filter (\<lambda>r. dget r ''user_id'' JNull = JInt uid) rows))),
                     (''checkpoint'', JObj cp)]))"

definition get_proof ::
  "crypto \<Rightarrow> dict list \<Rightarrow> string list \<Rightarrow> dict \<Rightarrow> string \<Rightarrow> string \<Rightarrow> (int \<times> json) res" where
  "get_proof C rows leaves cp uid_text version_text =
     rbind (int_text uid_text) (\<lambda>uid.
     rbind (int_text version_text) (\<lambda>version.
     case find (row_is uid version) rows of
       None \<Rightarrow> Inr (404, JObj [(''error'', JStr ''identity version not found'')])
     | Some leaf \<Rightarrow>
         rbind (dkey leaf ''leaf_index'') (\<lambda>li.
         rbind (py_int li) (\<lambda>index.
         rbind (inclusion_proof C leaves index) (\<lambda>pr.
         Inr (200, JObj [(''leaf'', JObj leaf), (''leaf_index'', JInt index),
                         (''proof'', JArr pr), (''checkpoint'', JObj cp)]))))))"

definition get_consistency :: "crypto \<Rightarrow> string list \<Rightarrow> string \<Rightarrow> (int \<times> json) res" where
  "get_consistency C leaves q =
     rbind (int_text (case query_value q ''from'' of None \<Rightarrow> ''0'' | Some s \<Rightarrow> s)) (\<lambda>old_size.
     rbind (int_text (case query_value q ''to'' of None \<Rightarrow> show_int (int (length leaves)) | Some s \<Rightarrow> s)) (\<lambda>new_size.
     if old_size < 0 \<or> new_size < old_size \<or> int (length leaves) < new_size
     then Inr (400, JObj [(''error'', JStr ''invalid consistency range'')])
     else rbind (merkle_root C (take (nat old_size) leaves)) (\<lambda>from_root.
          rbind (merkle_root C (take (nat new_size) leaves)) (\<lambda>to_root.
          Inr (200, JObj [(''from_size'', JInt old_size), (''to_size'', JInt new_size),
                          (''from_root'', JStr from_root), (''to_root'', JStr to_root),
                          (''proof'', JArr []), (''status'', JStr ''consistent'')])))))"

definition route :: "crypto \<Rightarrow> bytes \<Rightarrow> string \<Rightarrow> dict list \<Rightarrow> string \<Rightarrow> (int \<times> json) res" where
  "route C sk now fetched target =
     (let path = strip_slash (url_path target);
          pk = to_hex (ed_pub C sk)
      in if path = ''healthz'' \<or> path = ''readyz''
         then Inr (200, JObj [(''status'', JStr ''ok''), (''auditor_pk'', JStr pk)])
         else if path = ''pubkey'' then Inr (200, JObj [(''auditor_pk'', JStr pk)])
         else rbind (load_rows fetched) (\<lambda>rows.
              rbind (row_leaves rows) (\<lambda>leaves.
              rbind (make_checkpoint C sk now leaves) (\<lambda>cp.
              let parts = split_on (CHR ''/'') path
              in if path = ''checkpoint'' then Inr (200, JObj cp)
                 else if length parts = 2 \<and> parts ! 0 = ''identity'' then get_identity rows cp (parts ! 1)
                 else if length parts = 4 \<and> parts ! 0 = ''identity'' \<and> parts ! 3 = ''proof''
                 then get_proof C rows leaves cp (parts ! 1) (parts ! 2)
                 else if path = ''consistency'' then get_consistency C leaves (url_query target)
                 else Inr (404, JObj [(''error'', JStr ''not found'')])))))"

definition do_GET :: "crypto \<Rightarrow> bytes \<Rightarrow> string \<Rightarrow> dict list \<Rightarrow> string \<Rightarrow> int \<times> json" where
  "do_GET C sk now fetched target = (case route C sk now fetched target of
       Inr reply \<Rightarrow> reply
     | Inl e \<Rightarrow> (500, JObj [(''error'', JStr (exc_msg e))]))"

subsection \<open>Levels of the tree\<close>

definition hash_text :: "string \<Rightarrow> bool" where
  "hash_text h = (length h = 64 \<and> (\<exists>b. from_hex_opt h = Some b \<and> length b = 32) \<and> is_ascii h)"

lemma hash_text_to_hex: "length b = 32 \<Longrightarrow> hash_text (to_hex b)"
  by (simp add: hash_text_def)

lemma node_hash_total:
  assumes "sizes_ok C" and "hash_text l" and "hash_text r"
  obtains h where "node_hash C l r = Inr h" and "hash_text h"
  using assms by (auto simp: node_hash_def hash_text_def from_hex_def sizes_okD)

lemma pair_level_total:
  assumes "sizes_ok C" and "list_all hash_text cur"
  shows "\<exists>nxt. pair_level C cur = Inr nxt \<and> list_all hash_text nxt"
  using assms
proof (induction C cur rule: pair_level.induct)
  case (3 C x y r)
  from 3 obtain h where h: "node_hash C x y = Inr h" "hash_text h" by (auto elim: node_hash_total)
  with 3 obtain t where "pair_level C r = Inr t" "list_all hash_text t" by auto
  with h show ?case by simp
qed auto

lemma pair_level_nth:
  assumes "pair_level C cur = Inr nxt" and "i < length cur"
  shows "nxt ! (i div 2) =
    (if even i then (if i + 1 < length cur then projr (node_hash C (cur ! i) (cur ! (i + 1))) else cur ! i)
     else projr (node_hash C (cur ! (i - 1)) (cur ! i)))"
  using assms
proof (induction C cur arbitrary: nxt i rule: pair_level.induct)
  case (3 C x y r)
  from 3 obtain h t where h: "node_hash C x y = Inr h" and t: "pair_level C r = Inr t" and n: "nxt = h # t"
    by auto
  show ?case
  proof (cases "i < 2")
    case True
    then have "i = 0 \<or> i = 1" by auto
    with h n show ?thesis by auto
  next
    case False
    then obtain j where j: "i = j + 2" by (metis add.commute le_Suc_ex not_less)
    with 3 h t n have "t ! (j div 2) =
      (if even j then (if j + 1 < length r then projr (node_hash C (r ! j) (r ! (j + 1))) else r ! j)
       else projr (node_hash C (r ! (j - 1)) (r ! j)))" by simp
    with j n show ?thesis by (cases j) auto
  qed
qed auto

lemma pair_level_node_ok:
  assumes "pair_level C cur = Inr nxt" and "i + 1 < length cur" and "even i"
  shows "node_hash C (cur ! i) (cur ! (i + 1)) = Inr (nxt ! (i div 2))"
  using assms
proof (induction C cur arbitrary: nxt i rule: pair_level.induct)
  case (3 C x y r)
  from 3 obtain h t where h: "node_hash C x y = Inr h" and t: "pair_level C r = Inr t" and n: "nxt = h # t"
    by auto
  show ?case
  proof (cases "i = 0")
    case False
    with \<open>even i\<close> have "2 \<le> i" by presburger
    then obtain j where "i = j + 2" by (metis add.commute le_Suc_ex)
    with 3 h t n show ?thesis by simp
  qed (use h n in simp)
qed auto

text \<open>Every hash of a level is either carried over or the hash of two neighbours below.\<close>

lemma pair_level_elem:
  assumes "pair_level C cur = Inr nxt" and "h \<in> set nxt"
  shows "h \<in> set cur \<or> (\<exists>x \<in> set cur. \<exists>y \<in> set cur. node_hash C x y = Inr h)"
  using assms by (induction C cur arbitrary: nxt rule: pair_level.induct) (auto, blast)

lemma tree_levels_total:
  assumes "sizes_ok C" and "list_all hash_text cur"
  shows "\<exists>ls. tree_levels C cur = Inr ls \<and> list_all (list_all hash_text) ls"
  using assms
proof (induction C cur rule: tree_levels.induct)
  case (1 C cur)
  show ?case
  proof (cases "1 < length cur")
    case True
    from 1 obtain nxt where n: "pair_level C cur = Inr nxt" "list_all hash_text nxt"
      using pair_level_total by blast
    with 1 True obtain ls where "tree_levels C nxt = Inr ls" "list_all (list_all hash_text) ls" by blast
    with n True show ?thesis by (simp add: tree_levels.simps [of C cur])
  qed (simp add: tree_levels.simps [of C cur])
qed

text \<open>The root as one recursion: climb to the level with a single hash.\<close>

lemma tree_levels_top:
  assumes "tree_levels C cur = Inr ls" and "cur \<noteq> []"
  shows "length (last (cur # ls)) = 1"
  using assms
proof (induction C cur arbitrary: ls rule: tree_levels.induct)
  case (1 C cur)
  show ?case
  proof (cases "1 < length cur")
    case True
    with "1.prems" obtain nxt ls' where n: "pair_level C cur = Inr nxt" "tree_levels C nxt = Inr ls'" "ls = nxt # ls'"
      by (auto simp: tree_levels.simps [of C cur])
    then have "nxt \<noteq> []" using length_pair_level [OF n(1)] True by auto
    with 1 True n show ?thesis by auto
  next
    case False
    with "1.prems" show ?thesis by (cases cur) (auto simp: tree_levels.simps)
  qed
qed

lemma merkle_root_step:
  assumes "1 < length cur" and "pair_level C cur = Inr nxt"
  shows "merkle_root C cur = merkle_root C nxt"
proof -
  have "nxt \<noteq> []" and "cur \<noteq> []" using assms length_pair_level [OF assms(2)] by auto
  with assms show ?thesis
    by (simp add: merkle_root_def tree_layers_def tree_levels.simps [of C cur] rbind_assoc)
qed

lemma merkle_root_single [simp]: "merkle_root C [h] = Inr h"
  by (simp add: merkle_root_def tree_layers_def tree_levels.simps)

lemma merkle_root_total:
  assumes "sizes_ok C" and "list_all hash_text leaves"
  obtains r where "merkle_root C leaves = Inr r" and "hash_text r"
proof (cases "leaves = []")
  case True
  then show ?thesis
    using that assms(1) by (simp add: merkle_root_def tree_layers_def empty_root_def hash_text_to_hex sizes_okD)
next
  case False
  from tree_levels_total [OF assms] obtain ls where ls: "tree_levels C leaves = Inr ls"
    "list_all (list_all hash_text) ls" by blast
  have top: "length (last (leaves # ls)) = 1" by (rule tree_levels_top [OF ls(1) False])
  then obtain r where r: "last (leaves # ls) = [r]" by (auto simp: length_Suc_conv)
  moreover have "list_all hash_text (last (leaves # ls))"
    using ls(2) assms(2) by (cases ls) (auto simp: list_all_iff)
  ultimately have "hash_text r" by simp
  moreover from ls r False have "merkle_root C leaves = Inr r"
    by (simp add: merkle_root_def tree_layers_def)
  ultimately show ?thesis using that by blast
qed

lemma proof_loop_total:
  assumes "sizes_ok C" and "list_all hash_text cur"
  shows "\<exists>pr. proof_loop C idx cur = Inr pr"
  using assms
proof (induction C idx cur rule: proof_loop.induct)
  case (1 C idx cur)
  show ?case
  proof (cases "1 < length cur")
    case True
    from 1 obtain nxt where n: "pair_level C cur = Inr nxt" "list_all hash_text nxt"
      using pair_level_total by blast
    with 1 True obtain pr where "proof_loop C (idx div 2) nxt = Inr pr" by blast
    with n True show ?thesis by (simp add: proof_loop.simps [of C idx cur])
  qed (simp add: proof_loop.simps [of C idx cur])
qed

end
