(* ===== verification/Audit_Client.thy ===== *)
theory Audit_Client
  imports Auditor
begin

text \<open>
  The client side of identity transparency (\<open>client/crypto_engine/audit.py\<close>): error codes,
  checkpoint signatures, Merkle inclusion, consistency of checkpoints, and the verification of an
  identity key against the auditor. The HTTP transport is an argument: a function from the request
  target to the reply. The auditor's public key (a module constant read from the environment) is
  the argument \<open>apk\<close>.
\<close>

subsection \<open>Error codes\<close>

definition AUDIT_ERROR_LABELS :: "(string \<times> string) list" where
  "AUDIT_ERROR_LABELS =
    [(''checkpoint_malformed'', ''malformed checkpoint''),
     (''checkpoint_signature_invalid'', ''invalid checkpoint signature''),
     (''empty_root_invalid'', ''invalid empty tree root''),
     (''proof_index_out_of_range'', ''proof index out of range''),
     (''proof_malformed'', ''malformed inclusion proof''),
     (''proof_side_malformed'', ''malformed proof direction''),
     (''proof_root_mismatch'', ''inclusion proof root mismatch''),
     (''checkpoint_rollback'', ''checkpoint rollback''),
     (''checkpoint_split_view'', ''checkpoint split-view''),
     (''consistency_proof_malformed'', ''malformed consistency proof''),
     (''consistency_previous_root_mismatch'', ''consistency proof previous root mismatch''),
     (''consistency_new_root_mismatch'', ''consistency proof new root mismatch''),
     (''identity_user_mismatch'', ''identity proof user mismatch''),
     (''identity_version_mismatch'', ''identity proof version mismatch''),
     (''identity_version_not_found'', ''identity version not in log''),
     (''identity_key_mismatch'', ''identity proof key mismatch''),
     (''auditor_http_error'', ''auditor HTTP error''),
     (''auditor_unavailable'', ''auditor unavailable''),
     (''unknown'', ''unknown audit error'')]"

definition classify_audit_error :: "string \<Rightarrow> string" where
  "classify_audit_error message =
     (let text = lower message; has = (\<lambda>s. contains s text) in
      if has ''identity version not found'' \<or> has ''version not in log'' then ''identity_version_not_found''
      else if has ''auditor http'' \<or> has ''http error'' then ''auditor_http_error''
      else if has ''unavailable'' \<or> has ''timed out'' \<or> has ''connection'' then ''auditor_unavailable''
      else if has ''malformed auditor checkpoint'' then ''checkpoint_malformed''
      else if has ''checkpoint signature'' then ''checkpoint_signature_invalid''
      else if has ''empty identity tree root'' then ''empty_root_invalid''
      else if has ''proof index'' \<or> has ''index is out of range'' then ''proof_index_out_of_range''
      else if has ''proof side'' \<or> has ''proof direction'' then ''proof_side_malformed''
      else if has ''malformed identity log proof'' then ''proof_malformed''
      else if has ''inclusion proof'' \<and> has ''checkpoint'' then ''proof_root_mismatch''
      else if has ''rolled back'' then ''checkpoint_rollback''
      else if has ''split-view'' \<or> has ''same tree size'' \<or> has ''same log size'' then ''checkpoint_split_view''
      else if has ''malformed consistency proof'' then ''consistency_proof_malformed''
      else if has ''previous checkpoint'' \<or> has ''previous root'' then ''consistency_previous_root_mismatch''
      else if has ''new checkpoint'' \<or> has ''new root'' then ''consistency_new_root_mismatch''
      else if has ''different user'' then ''identity_user_mismatch''
      else if has ''different version'' \<or> has ''version not found'' then ''identity_version_mismatch''
      else if has ''key does not match'' then ''identity_key_mismatch''
      else ''unknown'')"

definition audit_error_label :: "string \<Rightarrow> string" where
  "audit_error_label c = dget AUDIT_ERROR_LABELS c (dget AUDIT_ERROR_LABELS ''unknown'' [])"

definition audit_error_detail :: "string \<Rightarrow> string \<Rightarrow> string" where
  "audit_error_detail c message =
     (let label = audit_error_label c; m = strip message
      in if m \<noteq> [] then label @ '': '' @ m else label)"

definition audit_status_for_code :: "string \<Rightarrow> string" where
  "audit_status_for_code c =
     (if c = ''auditor_unavailable'' \<or> c = ''auditor_http_error'' then ''audit_unavailable''
      else ''audit_mismatch'')"

text \<open>\<open>AuditError.__init__\<close>: an error raised without a code is classified by its message.\<close>

definition audit_error :: "string \<Rightarrow> string \<Rightarrow> exc" where
  "audit_error message c = AuditError message (if c \<noteq> [] then c else classify_audit_error message)"

subsection \<open>Identity keys\<close>

definition identity_bytes :: "string \<Rightarrow> bytes res" where
  "identity_bytes text =
     (let raw = strip text
      in if raw = [] then Inr []
         else let raw = replace_char (CHR ''_'') (CHR ''/'') (replace_char (CHR ''-'') (CHR ''+'') raw)
              in b64decode (raw @ replicate ((4 - py_len raw mod 4) mod 4) (CHR ''='')))"

definition same_identity_key :: "string \<Rightarrow> string \<Rightarrow> bool" where
  "same_identity_key a b = (case (identity_bytes a, identity_bytes b) of
       (Inr x, Inr y) \<Rightarrow> x = y
     | _ \<Rightarrow> a = b)"

subsection \<open>HTTP\<close>

datatype http_reply =
    HttpOk bytes
  | HttpStatus int string bytes
  | HttpFail string

definition fetch_json :: "(string \<Rightarrow> http_reply) \<Rightarrow> string \<Rightarrow> json res" where
  "fetch_json http path = (case http path of
       HttpOk body \<Rightarrow> rbind (utf8_decode body) loads
     | HttpFail m \<Rightarrow> Inl (OSError m)
     | HttpStatus c reason body \<Rightarrow>
         rbind (as_dict (case rbind (utf8_decode body) loads of Inl _ \<Rightarrow> JObj [] | Inr j \<Rightarrow> j)) (\<lambda>b.
         let error = py_str (py_or (py_or (dget b ''error'' (JStr [])) (JStr reason)) (JStr []))
         in if contains ''identity version not found'' (lower error)
            then Inl (audit_error ''Identity version not found in auditor log'' ''identity_version_not_found'')
            else Inl (audit_error (''Auditor HTTP error '' @ show_int c @ '': ''
                        @ (if error \<noteq> [] then error else ''unknown error'')) ''auditor_http_error'')))"

subsection \<open>Checkpoints\<close>

definition verify_checkpoint :: "crypto \<Rightarrow> string \<Rightarrow> dict \<Rightarrow> unit res" where
  "verify_checkpoint C pk_hex checkpoint =
     rbind (py_int (dget checkpoint ''tree_size'' (JInt (- 1)))) (\<lambda>tree_size.
     let root_hash = py_str (dget checkpoint ''root_hash'' (JStr []));
         created_at = py_str (dget checkpoint ''created_at'' (JStr []));
         sig_hex = py_str (dget checkpoint ''signature'' (JStr []));
         malformed = audit_error ''Malformed auditor checkpoint'' ''checkpoint_malformed'';
         invalid = audit_error ''Invalid auditor checkpoint signature'' ''checkpoint_signature_invalid''
     in rguard (tree_size < 0 \<or> py_len root_hash \<noteq> 64 \<or> py_len sig_hex \<noteq> 128 \<or> created_at = []) malformed
       (rbind (rcatch (rbind (from_hex root_hash) (\<lambda>_.
                       rbind (from_hex sig_hex) (\<lambda>sig.
                       rbind (from_hex pk_hex) (\<lambda>pk. Inr (sig, pk))))) (\<lambda>_. Inl malformed))
          (\<lambda>(sig, pk). rguard (length pk \<noteq> 32 \<or> \<not> ed_verify C pk (checkpoint_msg tree_size root_hash created_at) sig)
                         invalid (Inr ()))))"

fun climb :: "crypto \<Rightarrow> json list \<Rightarrow> string \<Rightarrow> string res" where
  "climb C [] cur = Inr cur"
| "climb C (item # rest) cur =
     rbind (as_dict item) (\<lambda>it.
     let sibling = py_str (dget it ''hash'' (JStr []));
         side = dget it ''side'' JNull
     in rguard (py_len sibling \<noteq> 64) (audit_error ''Malformed identity log proof'' ''proof_malformed'')
       (if side = JStr ''left'' then rbind (node_hash C sibling cur) (climb C rest)
        else if side = JStr ''right'' then rbind (node_hash C cur sibling) (climb C rest)
        else Inl (audit_error ''Malformed identity log proof side'' ''proof_side_malformed'')))"

definition verify_inclusion :: "crypto \<Rightarrow> string \<Rightarrow> int \<Rightarrow> json list \<Rightarrow> dict \<Rightarrow> unit res" where
  "verify_inclusion C leaf_hash leaf_index pr checkpoint =
     rbind (py_int (dget checkpoint ''tree_size'' (JInt (- 1)))) (\<lambda>tree_size.
     let root_hash = py_str (dget checkpoint ''root_hash'' (JStr []))
     in if tree_size = 0 then
          rguard (root_hash \<noteq> empty_root C)
            (audit_error ''Invalid empty identity tree root'' ''empty_root_invalid'') (Inr ())
        else rguard (leaf_index < 0 \<or> tree_size \<le> leaf_index)
            (audit_error ''Identity log proof index is out of range'' ''proof_index_out_of_range'')
            (rbind (climb C pr leaf_hash) (\<lambda>cur.
             rguard (cur \<noteq> root_hash)
               (audit_error ''Identity log inclusion proof does not match checkpoint'' ''proof_root_mismatch'')
               (Inr ()))))"

definition consistency_target :: "int \<Rightarrow> int \<Rightarrow> string" where
  "consistency_target old_size new_size =
     ''/consistency?from='' @ show_int old_size @ ''&to='' @ show_int new_size"

definition int_field :: "dict \<Rightarrow> string \<Rightarrow> int \<Rightarrow> int res" where
  "int_field d k v = py_int (py_or (dget d k (JInt v)) (JInt v))"

definition check_consistency ::
  "crypto \<Rightarrow> string \<Rightarrow> (string \<Rightarrow> http_reply) \<Rightarrow> dict \<Rightarrow> dict \<Rightarrow> unit res" where
  "check_consistency C apk http old_checkpoint new_checkpoint =
     rbind (verify_checkpoint C apk new_checkpoint) (\<lambda>_.
     if old_checkpoint = [] then Inr ()
     else rbind (int_field old_checkpoint ''tree_size'' 0) (\<lambda>old_size.
          rbind (int_field new_checkpoint ''tree_size'' 0) (\<lambda>new_size.
          rguard (new_size < old_size) (audit_error ''Auditor checkpoint rolled back'' ''checkpoint_rollback'')
          (let old_root = py_str (dget old_checkpoint ''root_hash'' (JStr []));
               new_root = py_str (dget new_checkpoint ''root_hash'' (JStr []))
           in if old_size = new_size then
                rguard (old_root \<noteq> new_root)
                  (audit_error ''Auditor checkpoint changed at the same tree size'' ''checkpoint_split_view'')
                  (Inr ())
              else rbind (fetch_json http (consistency_target old_size new_size)) (\<lambda>j.
                   rbind (as_dict j) (\<lambda>pr.
                   rbind (py_int (dget pr ''from_size'' (JInt (- 1)))) (\<lambda>fs.
                   rguard (fs \<noteq> old_size)
                     (audit_error ''Malformed consistency proof: from_size does not match previous checkpoint''
                        ''consistency_proof_malformed'')
                   (rbind (py_int (dget pr ''to_size'' (JInt (- 1)))) (\<lambda>ts.
                   rguard (ts \<noteq> new_size)
                     (audit_error ''Malformed consistency proof: to_size does not match new checkpoint''
                        ''consistency_proof_malformed'')
                   (rguard (py_str (dget pr ''from_root'' (JStr [])) \<noteq> old_root)
                     (audit_error ''Consistency proof does not match previous checkpoint''
                        ''consistency_previous_root_mismatch'')
                   (rguard (py_str (dget pr ''to_root'' (JStr [])) \<noteq> new_root)
                     (audit_error ''Consistency proof does not match new checkpoint''
                        ''consistency_new_root_mismatch'')
                   (Inr ()))))))))))))"

subsection \<open>Verifying an identity\<close>

definition proof_target :: "int \<Rightarrow> int \<Rightarrow> string" where
  "proof_target user_id identity_version =
     ''/identity/'' @ show_int user_id @ ''/'' @ show_int identity_version @ ''/proof''"

definition int_or :: "int \<Rightarrow> json \<Rightarrow> int res" where
  "int_or v j = (if j = JNull then Inr v else py_int j)"

definition verify_identity_from_auditor ::
  "crypto \<Rightarrow> string \<Rightarrow> (string \<Rightarrow> http_reply) \<Rightarrow> int \<Rightarrow> int \<Rightarrow> string \<Rightarrow> dict \<Rightarrow> dict res" where
  "verify_identity_from_auditor C apk http user_id identity_version identity_pk previous_checkpoint =
     rbind (fetch_json http (proof_target user_id identity_version)) (\<lambda>j.
     rbind (as_dict j) (\<lambda>pr.
     rbind (as_dict (py_or (dget pr ''leaf'' JNull) (JObj []))) (\<lambda>leaf.
     rbind (as_dict (py_or (dget pr ''checkpoint'' JNull) (JObj []))) (\<lambda>checkpoint.
     rbind (verify_checkpoint C apk checkpoint) (\<lambda>_.
     rbind (py_int (dget leaf ''user_id'' (JInt 0))) (\<lambda>leaf_user_id.
     rguard (leaf_user_id \<noteq> user_id)
       (audit_error ''Identity proof belongs to a different user'' ''identity_user_mismatch'')
     (rbind (int_or (- 1) (dget leaf ''identity_version'' JNull)) (\<lambda>leaf_version.
     rguard (leaf_version \<noteq> identity_version)
       (audit_error ''Identity proof belongs to a different version'' ''identity_version_mismatch'')
     (rguard (\<not> same_identity_key (py_str (dget leaf ''identity_pk'' (JStr []))) identity_pk)
       (audit_error ''Identity proof key does not match the PQXDH bundle'' ''identity_key_mismatch'')
     (rbind (int_or (- 1) (dget pr ''leaf_index'' JNull)) (\<lambda>leaf_index.
     rbind (as_list (py_or (dget pr ''proof'' JNull) (JArr []))) (\<lambda>items.
     rbind (verify_inclusion C (py_str (dget leaf ''leaf_hash'' (JStr []))) leaf_index items checkpoint) (\<lambda>_.
     rbind (check_consistency C apk http previous_checkpoint checkpoint) (\<lambda>_.
     Inr [(''status'', JStr ''ok''), (''leaf'', JObj leaf), (''checkpoint'', JObj checkpoint),
          (''proof'', py_or (dget pr ''proof'' JNull) (JArr []))]))))))))))))))"

definition fetch_identity_history :: "crypto \<Rightarrow> string \<Rightarrow> (string \<Rightarrow> http_reply) \<Rightarrow> int \<Rightarrow> dict res" where
  "fetch_identity_history C apk http user_id =
     rbind (fetch_json http (''/identity/'' @ show_int user_id)) (\<lambda>j.
     rbind (as_dict j) (\<lambda>data.
     rbind (as_dict (py_or (dget data ''checkpoint'' JNull) (JObj []))) (\<lambda>checkpoint.
     rbind (verify_checkpoint C apk checkpoint) (\<lambda>_. Inr data))))"

subsection \<open>The auditor's inclusion proofs are accepted\<close>

lemma hash_text_len: "hash_text h \<Longrightarrow> py_len h = 64"
  by (simp add: hash_text_def py_len_ascii)

lemma climb_item:
  assumes "hash_text h"
  shows "climb C (proof_item ''left'' h # rest) cur = rbind (node_hash C h cur) (climb C rest)"
    and "climb C (proof_item ''right'' h # rest) cur = rbind (node_hash C cur h) (climb C rest)"
  using hash_text_len [OF assms] by (simp_all add: proof_item_def dget_def)

lemma climb_level:
  assumes nxt: "pair_level C cur = Inr nxt" and cur: "list_all hash_text cur" "idx < length cur"
    and step: "step = (if idx mod 2 = 0
      then (if idx + 1 < length cur then [proof_item ''right'' (cur ! (idx + 1))] else [])
      else [proof_item ''left'' (cur ! (idx - 1))])"
  shows "climb C (step @ rest) (cur ! idx) = climb C rest (nxt ! (idx div 2))"
proof (cases "even idx")
  case even: True
  show ?thesis
  proof (cases "idx + 1 < length cur")
    case True
    then have "node_hash C (cur ! idx) (cur ! (idx + 1)) = Inr (nxt ! (idx div 2))"
      using pair_level_node_ok [OF nxt] even by blast
    moreover have "step = [proof_item ''right'' (cur ! (idx + 1))]"
      using True even by (simp add: step even_iff_mod_2_eq_zero)
    moreover have "hash_text (cur ! (idx + 1))" using cur(1) True by (simp add: list_all_iff)
    ultimately show ?thesis by (simp add: climb_item del: climb.simps)
  next
    case False
    then have "nxt ! (idx div 2) = cur ! idx" and "step = []"
      using pair_level_nth [OF nxt cur(2)] even by (simp_all add: step even_iff_mod_2_eq_zero)
    then show ?thesis by simp
  qed
next
  case odd: False
  then have i: "even (idx - 1)" "idx - 1 + 1 = idx" "(idx - 1) div 2 = idx div 2"
    by (auto elim: oddE)
  have "node_hash C (cur ! (idx - 1)) (cur ! idx) = Inr (nxt ! (idx div 2))"
    using pair_level_node_ok [OF nxt, of "idx - 1"] cur(2) i by simp
  moreover have "hash_text (cur ! (idx - 1))" using cur by (simp add: list_all_iff)
  ultimately show ?thesis using odd by (simp add: step climb_item odd_iff_mod_2_eq_one del: climb.simps)
qed

lemma climb_proof_loop:
  assumes "sizes_ok C" and "list_all hash_text cur" and "idx < length cur"
    and "proof_loop C idx cur = Inr pr"
  shows "climb C pr (cur ! idx) = merkle_root C cur"
  using assms
proof (induction C idx cur arbitrary: pr rule: proof_loop.induct)
  case (1 C idx cur)
  show ?case
  proof (cases "1 < length cur")
    case False
    with "1.prems" have "cur = [cur ! idx]" by (cases cur) auto
    with "1.prems" False show ?thesis
      by (metis proof_loop.simps climb.simps(1) merkle_root_single sum.inject(2))
  next
    case True
    from "1.prems" obtain nxt where n: "pair_level C cur = Inr nxt" "list_all hash_text nxt"
      using pair_level_total by blast
    define step where "step = (if idx mod 2 = 0
      then (if idx + 1 < length cur then [proof_item ''right'' (cur ! (idx + 1))] else [])
      else [proof_item ''left'' (cur ! (idx - 1))])"
    from "1.prems"(4) True n obtain rest where r: "proof_loop C (idx div 2) nxt = Inr rest" "pr = step @ rest"
      by (auto simp: proof_loop.simps [of C idx cur] step_def Let_def)
    have "idx div 2 < length nxt" using "1.prems"(3) length_pair_level [OF n(1)] by linarith
    then have IH: "climb C rest (nxt ! (idx div 2)) = merkle_root C nxt"
      using "1.IH" [OF True refl n(1)] "1.prems"(1) n(2) r(1) by (simp add: step_def)
    have "climb C (step @ rest) (cur ! idx) = climb C rest (nxt ! (idx div 2))"
      using "1.prems"(2,3) by (intro climb_level [OF n(1)]) (simp_all only: step_def)
    with IH r merkle_root_step [OF True n(1)] show ?thesis by simp
  qed
qed

lemma verify_inclusion_complete:
  assumes "sizes_ok C" and "list_all hash_text leaves" and "0 \<le> i" and "i < int (length leaves)"
    and "inclusion_proof C leaves i = Inr pr" and "merkle_root C leaves = Inr root"
    and "dget cp ''tree_size'' (JInt (- 1)) = JInt (int (length leaves))"
    and "dget cp ''root_hash'' (JStr []) = JStr root"
  shows "verify_inclusion C (leaves ! nat i) i pr cp = Inr ()"
proof -
  from assms(3-5) have "proof_loop C (nat i) leaves = Inr pr" by (simp add: inclusion_proof_def)
  then have "climb C pr (leaves ! nat i) = Inr root"
    using climb_proof_loop [OF assms(1,2)] assms(3,4,6) by simp
  with assms show ?thesis by (auto simp: verify_inclusion_def)
qed

subsection \<open>What an accepted inclusion proof shows\<close>

text \<open>
  SHA-256 is not injective, so soundness is relative to the finitely many inputs that were hashed:
  \<open>tree_inputs\<close> lists what building the tree hashes and \<open>climb_inputs\<close> what the
  client hashes while it climbs.
\<close>

definition hex_bytes :: "string \<Rightarrow> bytes" where
  "hex_bytes h = (case from_hex_opt h of Some b \<Rightarrow> b | None \<Rightarrow> [])"

definition node_input :: "string \<Rightarrow> string \<Rightarrow> bytes" where
  "node_input l r = CHR 0x01 # hex_bytes l @ hex_bytes r"

fun pair_inputs :: "string list \<Rightarrow> bytes list" where
  "pair_inputs (x # y # r) = node_input x y # pair_inputs r"
| "pair_inputs _ = []"

definition tree_inputs :: "crypto \<Rightarrow> string list \<Rightarrow> bytes list" where
  "tree_inputs C leaves = (case tree_levels C leaves of
     Inr ls \<Rightarrow> concat (map pair_inputs (leaves # ls)) | Inl _ \<Rightarrow> [])"

fun climb_inputs :: "crypto \<Rightarrow> json list \<Rightarrow> string \<Rightarrow> bytes list" where
  "climb_inputs C [] cur = []"
| "climb_inputs C (item # rest) cur = (case item of
     JObj it \<Rightarrow>
       let sibling = py_str (dget it ''hash'' (JStr []));
           lr = (if dget it ''side'' JNull = JStr ''left'' then (sibling, cur) else (cur, sibling))
       in node_input (fst lr) (snd lr)
          # (case node_hash C (fst lr) (snd lr) of Inr h \<Rightarrow> climb_inputs C rest h | Inl _ \<Rightarrow> [])
   | _ \<Rightarrow> [])"

definition decodes_32 :: "string \<Rightarrow> bool" where
  "decodes_32 h = (case from_hex_opt h of Some b \<Rightarrow> length b = 32 | None \<Rightarrow> False)"

definition siblings_ok :: "json list \<Rightarrow> bool" where
  "siblings_ok pr = list_all (\<lambda>it. case it of
       JObj d \<Rightarrow> decodes_32 (py_str (dget d ''hash'' (JStr []))) | _ \<Rightarrow> False) pr"

definition tree_nodes :: "crypto \<Rightarrow> string list \<Rightarrow> string list" where
  "tree_nodes C leaves = (case tree_levels C leaves of Inr ls \<Rightarrow> concat (leaves # ls) | Inl _ \<Rightarrow> [])"

lemma decodes_32_hex: "decodes_32 h \<Longrightarrow> from_hex_opt h = Some (hex_bytes h) \<and> length (hex_bytes h) = 32"
  by (auto simp: decodes_32_def hex_bytes_def split: option.splits)

lemma hash_text_decodes: "hash_text h \<Longrightarrow> decodes_32 h"
  by (auto simp: hash_text_def decodes_32_def)

lemma node_hash_input:
  "node_hash C a b = Inr h \<Longrightarrow> h = to_hex (sha256 C (node_input a b))"
  by (auto simp: node_hash_def from_hex_def node_input_def hex_bytes_def)

lemma hex_bytes_to_hex [simp]: "hex_bytes (to_hex b) = b"
  by (simp add: hex_bytes_def)

lemma node_input_inject:
  assumes "node_input a b = node_input x y" and "decodes_32 a" and "decodes_32 x"
  shows "hex_bytes a = hex_bytes x \<and> hex_bytes b = hex_bytes y"
  using assms decodes_32_hex [of a] decodes_32_hex [of x] by (simp add: node_input_def)

lemma pair_level_input:
  assumes "pair_level C cur = Inr nxt" and "h \<in> set nxt"
  shows "h \<in> set cur \<or> (\<exists>x \<in> set cur. \<exists>y \<in> set cur. node_input x y \<in> set (pair_inputs cur)
           \<and> node_hash C x y = Inr h)"
  using assms
proof (induction C cur arbitrary: nxt rule: pair_level.induct)
  case (3 C x y r)
  from "3.prems"(1) obtain d t where t: "node_hash C x y = Inr d" "pair_level C r = Inr t" "nxt = d # t" by auto
  show ?case
  proof (cases "h = d")
    case False
    then have "h \<in> set t" using "3.prems"(2) t(3) by simp
    with "3.IH" [OF t(1,2)] show ?thesis unfolding pair_inputs.simps list.set by blast
  qed (use t(1) in auto)
qed auto

text \<open>Every node of the tree is a leaf or the digest of two nodes, hashed while it was built.\<close>

lemma tree_node_cases:
  assumes "x \<in> set (tree_nodes C leaves)"
  shows "x \<in> set leaves \<or> (\<exists>a \<in> set (tree_nodes C leaves). \<exists>b \<in> set (tree_nodes C leaves).
           node_input a b \<in> set (tree_inputs C leaves) \<and> node_hash C a b = Inr x)"
  using assms
proof (induction C leaves rule: tree_levels.induct)
  case (1 C cur)
  show ?case
  proof (cases "1 < length cur \<and> x \<notin> set cur")
    case True
    with "1.prems" obtain nxt ls where n: "pair_level C cur = Inr nxt" "tree_levels C nxt = Inr ls"
      and t: "tree_levels C cur = Inr (nxt # ls)"
      by (cases "tree_levels C cur") (auto simp: tree_nodes_def tree_levels.simps [of C cur])
    have up: "set (tree_nodes C nxt) \<subseteq> set (tree_nodes C cur)"
      "set (pair_inputs cur) \<union> set (tree_inputs C nxt) \<subseteq> set (tree_inputs C cur)"
      using n t by (auto simp: tree_nodes_def tree_inputs_def)
    have sub: "set cur \<subseteq> set (tree_nodes C cur)" using t by (auto simp: tree_nodes_def)
    have "x \<in> set (tree_nodes C nxt)" using True "1.prems" n t by (auto simp: tree_nodes_def)
    with "1.IH" True n(1) consider "x \<in> set nxt"
      | a b where "a \<in> set (tree_nodes C nxt)" "b \<in> set (tree_nodes C nxt)"
          "node_input a b \<in> set (tree_inputs C nxt)" "node_hash C a b = Inr x" by blast
    then show ?thesis
      using pair_level_input [OF n(1)] True up sub by cases blast+
  next
    case False
    with "1.prems" show ?thesis by (auto simp: tree_nodes_def tree_levels.simps [of C cur])
  qed
qed

lemma tree_nodes_hash_text:
  assumes "sizes_ok C" and "list_all hash_text leaves" and "x \<in> set (tree_nodes C leaves)"
  shows "hash_text x"
  using tree_levels_total [OF assms(1,2)] assms(2,3) by (auto simp: tree_nodes_def list_all_iff)

text \<open>The inputs under which soundness holds: no collision, and no leaf is an inner digest.\<close>

definition hashes_apart :: "crypto \<Rightarrow> string list \<Rightarrow> string list \<Rightarrow> bytes list \<Rightarrow> bool" where
  "hashes_apart C leaves hs inputs =
     (let S = set (tree_inputs C leaves) \<union> set inputs
      in inj_on (sha256 C) S \<and> (\<forall>h \<in> set (hs @ leaves). hex_bytes h \<notin> sha256 C ` S))"

lemma climb_down:
  assumes ok: "sizes_ok C" "list_all hash_text leaves" and ap: "hashes_apart C leaves hs inputs"
    and nh: "node_hash C a b = Inr h" "node_input a b \<in> set inputs" and d: "decodes_32 a"
    and x: "x \<in> set (tree_nodes C leaves)" "hex_bytes h = hex_bytes x"
  shows "\<exists>y \<in> set (tree_nodes C leaves). hex_bytes a = hex_bytes y"
    and "\<exists>y \<in> set (tree_nodes C leaves). hex_bytes b = hex_bytes y"
proof -
  have hb: "hex_bytes x = sha256 C (node_input a b)" using x(2) node_hash_input [OF nh(1)] by simp
  then have "x \<notin> set leaves" using ap nh(2) by (auto simp: hashes_apart_def Let_def)
  then obtain p q where pq: "p \<in> set (tree_nodes C leaves)" "q \<in> set (tree_nodes C leaves)"
    "node_input p q \<in> set (tree_inputs C leaves)" "node_hash C p q = Inr x"
    using tree_node_cases [OF x(1)] by blast
  then have "sha256 C (node_input p q) = sha256 C (node_input a b)"
    using hb node_hash_input [OF pq(4)] by simp
  then have "node_input a b = node_input p q"
    using ap pq(3) nh(2) by (auto simp: hashes_apart_def Let_def inj_on_def)
  then have "hex_bytes a = hex_bytes p \<and> hex_bytes b = hex_bytes q"
    using node_input_inject d hash_text_decodes tree_nodes_hash_text [OF ok pq(1)] by blast
  with pq(1,2) show "\<exists>y \<in> set (tree_nodes C leaves). hex_bytes a = hex_bytes y"
    and "\<exists>y \<in> set (tree_nodes C leaves). hex_bytes b = hex_bytes y" by blast+
qed

lemma node_hash_decodes: "sizes_ok C \<Longrightarrow> node_hash C a b = Inr h \<Longrightarrow> decodes_32 h"
  by (auto simp: node_hash_def decodes_32_def sizes_okD)

lemma climb_sound:
  assumes "sizes_ok C" and "list_all hash_text leaves" and "hashes_apart C leaves hs inputs"
    and "climb C pr h = Inr r" and "set (climb_inputs C pr h) \<subseteq> set inputs"
    and "siblings_ok pr" and "decodes_32 h"
    and "\<exists>x \<in> set (tree_nodes C leaves). hex_bytes r = hex_bytes x"
  shows "\<exists>x \<in> set (tree_nodes C leaves). hex_bytes h = hex_bytes x"
  using assms(4-8)
proof (induction pr arbitrary: h)
  case (Cons item pr)
  from Cons.prems(1,3) obtain d where item: "item = JObj d" and sib: "decodes_32 (py_str (dget d ''hash'' (JStr [])))"
    by (auto simp: siblings_ok_def)
  let ?s = "py_str (dget d ''hash'' (JStr []))"
  from Cons.prems(1) item obtain h' where h': "climb C pr h' = Inr r"
    and nh: "(if dget d ''side'' JNull = JStr ''left'' then node_hash C ?s h else node_hash C h ?s) = Inr h'"
    by (auto simp: Let_def split: if_splits)
  have inp: "set (climb_inputs C pr h') \<subseteq> set inputs"
    "(if dget d ''side'' JNull = JStr ''left'' then node_input ?s h else node_input h ?s) \<in> set inputs"
    using Cons.prems(2) nh item by (auto simp: Let_def split: if_splits)
  have "decodes_32 h'" using nh assms(1) by (auto dest: node_hash_decodes split: if_splits)
  with Cons.IH h' inp(1) Cons.prems(3,5) obtain x where x: "x \<in> set (tree_nodes C leaves)" "hex_bytes h' = hex_bytes x"
    by (auto simp: siblings_ok_def)
  show ?case
    using climb_down [OF assms(1-3) _ _ _ x] nh inp(2) sib Cons.prems(4) by (auto split: if_splits)
qed simp

lemma root_in_tree:
  assumes "leaves \<noteq> []" and "merkle_root C leaves = Inr r"
  shows "r \<in> set (tree_nodes C leaves)"
proof -
  from assms obtain ls where ls: "tree_levels C leaves = Inr ls" "r = hd (last (leaves # ls))"
      "last (leaves # ls) \<noteq> []"
    by (cases "tree_levels C leaves")
       (auto simp: merkle_root_def tree_layers_def split: list.splits if_splits)
  then have "r \<in> set (last (leaves # ls))" by simp
  moreover have "last (leaves # ls) \<in> set (leaves # ls)" by (rule last_in_set) simp
  ultimately show ?thesis using ls(1) by (auto simp: tree_nodes_def)
qed

subsection \<open>An honest auditor\<close>

definition auditor_http :: "crypto \<Rightarrow> bytes \<Rightarrow> string \<Rightarrow> dict list \<Rightarrow> string \<Rightarrow> http_reply" where
  "auditor_http C sk now fetched target =
     (let (status, obj) = do_GET C sk now fetched target; raw = dumps_compact obj
      in if status = 200 then HttpOk raw else HttpStatus status [] raw)"

definition row_hash :: "dict \<Rightarrow> string" where
  "row_hash r = py_str (dget r ''leaf_hash'' JNull)"

definition row_ok :: "dict \<Rightarrow> bool" where
  "row_ok r = (wire_ok (JObj r) \<and> (\<exists>i. map_of r ''log_index'' = Some (JInt i))
     \<and> (\<exists>u. map_of r ''user_id'' = Some (JInt u)) \<and> (\<exists>v. map_of r ''identity_version'' = Some (JInt v))
     \<and> (\<exists>pk. map_of r ''identity_pk'' = Some (JStr pk))
     \<and> (\<exists>h. map_of r ''leaf_hash'' = Some (JStr h) \<and> hash_text h))"

lemma int_column_same: "map_of r k = Some (JInt i) \<Longrightarrow> int_column k r = Inr r"
  by (simp add: int_column_def dkey_def dset_same)

lemma load_rows_ok:
  assumes "list_all row_ok rows"
  shows "load_rows rows = Inr (assign_leaf_indices 0 rows)"
proof -
  have "rmap (\<lambda>row. rbind (int_column ''log_index'' row) (\<lambda>row.
      rbind (int_column ''user_id'' row) (int_column ''identity_version''))) rows = Inr (map (\<lambda>r. r) rows)"
    using assms by (intro rmap_total) (auto simp: list_all_iff row_ok_def int_column_same)
  then show ?thesis by (simp add: load_rows_def)
qed

lemma row_leaves_ok:
  assumes "list_all row_ok rows"
  shows "row_leaves (assign_leaf_indices i rows) = Inr (map row_hash rows)"
proof -
  have "rbind (dkey (dset r ''leaf_index'' (JInt j)) ''leaf_hash'') (\<lambda>h. Inr (py_str h)) = Inr (row_hash r)"
    if "row_ok r" for r j
    using that by (auto simp: row_ok_def dkey_def row_hash_def dget_def update_conv')
  with assms show ?thesis
    unfolding row_leaves_def by (induction rows arbitrary: i) auto
qed

lemma rows_hash_text: "list_all row_ok rows \<Longrightarrow> list_all hash_text (map row_hash rows)"
  by (auto simp: list_all_iff row_ok_def row_hash_def dget_def)

lemma assign_nth:
  "j < length rows \<Longrightarrow> assign_leaf_indices i rows ! j = dset (rows ! j) ''leaf_index'' (JInt (i + int j))"
  by (induction rows arbitrary: i j) (auto simp: nth_Cons' algebra_simps)

lemma length_assign [simp]: "length (assign_leaf_indices i rows) = length rows"
  by (induction rows arbitrary: i) auto

lemma row_is_dset [simp]: "row_is u v (dset r ''leaf_index'' x) = row_is u v r"
  by (simp add: row_is_def)

lemma find_assign:
  assumes "find (row_is u v) rows = Some r"
  obtains j where "j < length rows" and "rows ! j = r"
    and "find (row_is u v) (assign_leaf_indices i rows) = Some (dset r ''leaf_index'' (JInt (i + int j)))"
proof -
  from assms obtain j where j: "j < length rows" "row_is u v (rows ! j)" "rows ! j = r"
    "\<forall>k < j. \<not> row_is u v (rows ! k)"
    by (auto simp: find_Some_iff)
  have "find (row_is u v) (assign_leaf_indices i rows) = Some (dset r ''leaf_index'' (JInt (i + int j)))"
    unfolding find_Some_iff using j by (intro exI [of _ j]) (auto simp: assign_nth)
  with j that show ?thesis by blast
qed

lemma checkpoint_accepted:
  assumes "crypto_ok C" and "list_all hash_text leaves" and "now \<noteq> []"
  obtains cp root where "make_checkpoint C sk now leaves = Inr cp"
    and "verify_checkpoint C (to_hex (ed_pub C sk)) cp = Inr ()"
    and "merkle_root C leaves = Inr root"
    and "dget cp ''tree_size'' (JInt v) = JInt (int (length leaves))"
    and "dget cp ''root_hash'' (JStr []) = JStr root"
    and "cp \<noteq> []" and "utf8_valid now \<Longrightarrow> wire_ok (JObj cp)"
proof -
  note sz = crypto_okD(5) [OF assms(1)]
  obtain root where r: "merkle_root C leaves = Inr root" "hash_text root"
    by (rule merkle_root_total [OF sz assms(2)])
  obtain b where b: "from_hex_opt root = Some b" and ra: "is_ascii root" using r(2) by (auto simp: hash_text_def)
  let ?msg = "checkpoint_msg (int (length leaves)) root now"
  let ?cp = "[(''tree_size'', JInt (int (length leaves))), (''root_hash'', JStr root),
     (''created_at'', JStr now), (''signature'', JStr (to_hex (ed_sign C sk ?msg))),
     (''auditor_pk'', JStr (to_hex (ed_pub C sk)))]"
  have "make_checkpoint C sk now leaves = Inr ?cp" by (simp add: make_checkpoint_def r Let_def)
  moreover have "py_len (to_hex (ed_sign C sk ?msg)) = 128"
    using sz by (simp add: py_len_ascii sizes_okD)
  then have "verify_checkpoint C (to_hex (ed_pub C sk)) ?cp = Inr ()"
    using sz assms(3) hash_text_len [OF r(2)] b crypto_okD(2) [OF assms(1)]
    by (simp add: verify_checkpoint_def dget_def Let_def from_hex_def [of root] sizes_okD sig_ok_def)
  moreover have "utf8_valid now \<Longrightarrow> wire_ok (JObj ?cp)" using ra by (auto simp: ascii_utf8)
  ultimately show ?thesis using r(1) by (intro that [of ?cp root]) (simp_all add: dget_def)
qed


subsection \<open>The requests reach their handlers\<close>

definition num_char :: "char \<Rightarrow> bool" where
  "num_char c = (is_digit c \<or> c = CHR ''-'')"

lemma show_int_chars: "c \<in> set (show_int i) \<Longrightarrow> num_char c"
  using show_nat_digits [of "nat i"] show_nat_digits [of "nat (- i)"]
  by (auto simp: show_int_def num_char_def list_all_iff split: if_splits)

lemma show_int_free [simp]:
  "CHR ''/'' \<notin> set (show_int i)" "CHR ''?'' \<notin> set (show_int i)" "CHR ''&'' \<notin> set (show_int i)"
  "CHR ''='' \<notin> set (show_int i)"
  by (auto dest!: show_int_chars simp: num_char_def is_digit_def)

lemma takeWhile_free: "c \<notin> set s \<Longrightarrow> takeWhile (\<lambda>x. x \<noteq> c) (s @ t) = s @ takeWhile (\<lambda>x. x \<noteq> c) t"
  by (induction s) auto

lemma dropWhile_free: "c \<notin> set s \<Longrightarrow> dropWhile (\<lambda>x. x \<noteq> c) (s @ t) = dropWhile (\<lambda>x. x \<noteq> c) t"
  by (induction s) auto

lemma rstrip_char_last: "s \<noteq> [] \<Longrightarrow> last s \<noteq> c \<Longrightarrow> rstrip_char c s = s"
  by (cases s rule: rev_cases) (auto simp: rstrip_char_def)

lemma proof_target_parts:
  "strip_slash (url_path (proof_target u v)) = ''identity/'' @ show_int u @ ''/'' @ show_int v @ ''/proof''"
  "split_on (CHR ''/'') (''identity/'' @ show_int u @ ''/'' @ show_int v @ ''/proof'')
     = [''identity'', show_int u, show_int v, ''proof'']"
  by (simp_all add: proof_target_def url_path_def strip_slash_def rstrip_char_last takeWhile_free split_on_append
        split_on_free)

lemma consistency_target_parts:
  "strip_slash (url_path (consistency_target a b)) = ''consistency''"
  "split_on (CHR ''/'') ''consistency'' = [''consistency'']"
  "query_value (url_query (consistency_target a b)) ''from'' = Some (show_int a)"
  "query_value (url_query (consistency_target a b)) ''to'' = Some (show_int b)"
  by (simp_all add: consistency_target_def url_path_def strip_slash_def rstrip_char_last url_query_def query_value_def
        takeWhile_free dropWhile_free split_on_append split_on_free)

lemma fetch_json_auditor:
  assumes "route C sk now rows target = Inr (200, obj)" and "wire_ok obj"
  shows "fetch_json (auditor_http C sk now rows) target = Inr obj"
  using assms utf8_json.dec_enc [OF assms(2)]
  by (simp add: fetch_json_def auditor_http_def do_GET_def Let_def)

lemma route_checkpointed:
  assumes "list_all row_ok rows" and "make_checkpoint C sk now (map row_hash rows) = Inr cp"
  shows "route C sk now rows (proof_target u v) =
      get_proof C (assign_leaf_indices 0 rows) (map row_hash rows) cp (show_int u) (show_int v)"
    and "route C sk now rows (consistency_target a b) =
      get_consistency C (map row_hash rows) (url_query (consistency_target a b))"
proof -
  show "route C sk now rows (proof_target u v) =
      get_proof C (assign_leaf_indices 0 rows) (map row_hash rows) cp (show_int u) (show_int v)"
    unfolding route_def Let_def proof_target_parts load_rows_ok [OF assms(1)] rbind_Inr
      row_leaves_ok [OF assms(1)] assms(2) by simp
  show "route C sk now rows (consistency_target a b) =
      get_consistency C (map row_hash rows) (url_query (consistency_target a b))"
    unfolding route_def Let_def consistency_target_parts load_rows_ok [OF assms(1)] rbind_Inr
      row_leaves_ok [OF assms(1)] assms(2) by simp
qed

lemma proof_items_wire:
  assumes "list_all hash_text cur" and "sizes_ok C" and "idx < length cur" and "proof_loop C idx cur = Inr pr"
  shows "list_all wire_ok pr"
  using assms
proof (induction C idx cur arbitrary: pr rule: proof_loop.induct)
  case (1 C idx cur)
  have item: "h \<in> set cur \<Longrightarrow> utf8_valid h" for h
    using "1.prems"(1) by (auto simp: list_all_iff hash_text_def)
  from "1.prems"(1,2) obtain nxt where n: "pair_level C cur = Inr nxt" "list_all hash_text nxt"
    using pair_level_total by blast
  moreover have "idx div 2 < length nxt" using "1.prems"(3) length_pair_level [OF n(1)] by linarith
  ultimately show ?case
    using "1.prems" "1.IH" [OF _ refl n(1)] n item
    by (auto simp: proof_loop.simps [of C idx cur] proof_item_def Let_def split: if_splits)
qed

text \<open>
  A checkpoint this auditor signed over a prefix of the present log (or none): what an honest
  auditor's client has stored.
\<close>

definition earlier_checkpoint :: "crypto \<Rightarrow> bytes \<Rightarrow> dict list \<Rightarrow> dict \<Rightarrow> bool" where
  "earlier_checkpoint C sk rows old = (old = [] \<or> (\<exists>n now'. n \<le> length rows
     \<and> make_checkpoint C sk now' (take n (map row_hash rows)) = Inr old))"

lemma int_field_0: "dget d k (JInt 0) = JInt i \<Longrightarrow> int_field d k 0 = Inr i"
  by (simp add: int_field_def py_or_def)

lemma consistency_accepted:
  assumes ok: "crypto_ok C" "list_all row_ok rows" and now: "now \<noteq> []" "utf8_valid now"
    and cp: "make_checkpoint C sk now (map row_hash rows) = Inr cp"
    and old: "earlier_checkpoint C sk rows old"
  shows "check_consistency C (to_hex (ed_pub C sk)) (auditor_http C sk now rows) old cp = Inr ()"
proof -
  let ?leaves = "map row_hash rows"
  obtain root where r: "verify_checkpoint C (to_hex (ed_pub C sk)) cp = Inr ()" "merkle_root C ?leaves = Inr root"
    "dget cp ''tree_size'' (JInt 0) = JInt (int (length rows))" "dget cp ''root_hash'' (JStr []) = JStr root"
    by (rule checkpoint_accepted [OF ok(1) rows_hash_text [OF ok(2)] now(1), of sk 0]) (use cp in auto)
  have sz: "sizes_ok C" using ok(1) by (rule crypto_okD)
  have hroot: "merkle_root C (take n ?leaves) = Inr x \<Longrightarrow> hash_text x" for n x
    by (rule merkle_root_total [OF sz, of "take n ?leaves"])
       (use rows_hash_text [OF ok(2)] in \<open>auto simp: list_all_iff dest!: in_set_takeD\<close>)
  show ?thesis
  proof (cases "old = []")
    case False
    with old obtain n now' where n: "n \<le> length rows" "make_checkpoint C sk now' (take n ?leaves) = Inr old"
      unfolding earlier_checkpoint_def by blast
    then obtain root0 where r0: "merkle_root C (take n ?leaves) = Inr root0"
      "dget old ''tree_size'' (JInt 0) = JInt (int n)" "dget old ''root_hash'' (JStr []) = JStr root0"
      by (auto simp: make_checkpoint_def Let_def dget_def)
    let ?pr = "[(''from_size'', JInt (int n)), (''to_size'', JInt (int (length rows))),
      (''from_root'', JStr root0), (''to_root'', JStr root), (''proof'', JArr []), (''status'', JStr ''consistent'')]"
    have "route C sk now rows (consistency_target (int n) (int (length rows))) = Inr (200, JObj ?pr)"
      unfolding route_checkpointed(2) [OF ok(2) cp] get_consistency_def
      using n(1) r0(1) r(2) by (simp add: consistency_target_parts int_text_def)
    moreover have "wire_ok (JObj ?pr)"
      using hroot [OF r0(1)] hroot [of "length rows" root] r(2) by (auto simp: hash_text_def)
    ultimately have "fetch_json (auditor_http C sk now rows) (consistency_target (int n) (int (length rows))) = Inr (JObj ?pr)"
      by (rule fetch_json_auditor)
    moreover have "root0 = root" if "n = length rows" using that r0(1) r(2) by simp
    ultimately show ?thesis
      using False n(1) r(1,4) r0(3) int_field_0 [OF r0(2)] int_field_0 [OF r(3)]
      by (simp add: check_consistency_def dget_def [of ?pr] Let_def)
  qed (use r in \<open>simp add: check_consistency_def\<close>)
qed

lemma verify_identity_accepted:
  assumes ok: "crypto_ok C" "list_all row_ok rows" and now: "now \<noteq> []" "utf8_valid now"
    and r: "find (row_is u v) rows = Some r"
    and key: "same_identity_key (py_str (dget r ''identity_pk'' (JStr []))) pk"
    and old: "earlier_checkpoint C sk rows old"
  shows "\<exists>i cp pr. make_checkpoint C sk now (map row_hash rows) = Inr cp
     \<and> verify_identity_from_auditor C (to_hex (ed_pub C sk)) (auditor_http C sk now rows) u v pk old =
       Inr [(''status'', JStr ''ok''), (''leaf'', JObj (dset r ''leaf_index'' (JInt i))),
            (''checkpoint'', JObj cp), (''proof'', pr)]"
proof -
  let ?leaves = "map row_hash rows"
  have sz: "sizes_ok C" and ht: "list_all hash_text ?leaves"
    using ok by (auto intro: crypto_okD rows_hash_text)
  obtain cp root where cp: "make_checkpoint C sk now ?leaves = Inr cp"
    "verify_checkpoint C (to_hex (ed_pub C sk)) cp = Inr ()" "merkle_root C ?leaves = Inr root"
    "dget cp ''tree_size'' (JInt (- 1)) = JInt (int (length rows))" "dget cp ''root_hash'' (JStr []) = JStr root"
    "cp \<noteq> []" "wire_ok (JObj cp)"
    by (rule checkpoint_accepted [OF ok(1) ht now(1), of sk "- 1"]) (use now in auto)
  obtain j where j: "j < length rows" "rows ! j = r"
    "find (row_is u v) (assign_leaf_indices 0 rows) = Some (dset r ''leaf_index'' (JInt (int j)))"
    by (rule find_assign [OF r, of 0]) simp
  let ?leaf = "dset r ''leaf_index'' (JInt (int j))"
  from proof_loop_total [OF sz ht] obtain pr where pr: "proof_loop C j ?leaves = Inr pr" by blast
  have prw: "list_all wire_ok pr" by (rule proof_items_wire [OF ht sz _ pr]) (use j in simp)
  have inc: "inclusion_proof C ?leaves (int j) = Inr pr" using j pr by (simp add: inclusion_proof_def)
  let ?obj = "[(''leaf'', JObj ?leaf), (''leaf_index'', JInt (int j)), (''proof'', JArr pr), (''checkpoint'', JObj cp)]"
  have "row_ok r" using ok(2) j by (auto simp: list_all_iff)
  then obtain h where rk: "wire_ok (JObj r)" "map_of r ''leaf_hash'' = Some (JStr h)" by (auto simp: row_ok_def)
  have ids: "dget r ''user_id'' JNull = JInt u" "dget r ''identity_version'' JNull = JInt v"
    using r by (auto simp: find_Some_iff row_is_def)
  have "route C sk now rows (proof_target u v) = Inr (200, JObj ?obj)"
    unfolding route_checkpointed(1) [OF ok(2) cp(1)] get_proof_def int_text_def
    using j inc by (simp add: dkey_def update_conv')
  moreover have "wire_ok (JObj ?obj)" using wire_ok_dset [OF rk(1), of "JInt (int j)" "''leaf_index''"] cp(7) prw by auto
  ultimately have fetch: "fetch_json (auditor_http C sk now rows) (proof_target u v) = Inr (JObj ?obj)"
    by (rule fetch_json_auditor)
  have "?leaves ! nat (int j) = h" using j rk(2) by (simp add: row_hash_def dget_def)
  then have incl: "verify_inclusion C h (int j) pr cp = Inr ()"
    using verify_inclusion_complete [OF sz ht, of "int j" pr root cp] j inc cp by simp
  have uid: "dget r ''user_id'' (JInt 0) = JInt u"
    using ids(1) by (simp add: dget_def split: option.splits)
  have "as_list (py_or (JArr pr) (JArr [])) = Inr pr" by (simp add: as_list_def py_or_def truthy_def)
  moreover have "py_or (JObj ?leaf) (JObj []) = JObj ?leaf" "py_or (JObj cp) (JObj []) = JObj cp"
    using cp(6) by (simp_all add: py_or_def truthy_def)
  ultimately have "verify_identity_from_auditor C (to_hex (ed_pub C sk)) (auditor_http C sk now rows) u v pk old =
       Inr [(''status'', JStr ''ok''), (''leaf'', JObj ?leaf), (''checkpoint'', JObj cp), (''proof'', py_or (JArr pr) (JArr []))]"
    using fetch incl uid ids(2) key rk(2) cp(2) consistency_accepted [OF ok now cp(1) old]
    by (simp add: verify_identity_from_auditor_def dget_def [of ?obj] int_or_def dget_def [of r "''leaf_hash''"])
  with cp(1) show ?thesis by blast
qed

subsection \<open>Properties\<close>

definition demo_leaf :: "char \<Rightarrow> string" where
  "demo_leaf c = to_hex (replicate 32 c)"

definition demo_row :: "int \<Rightarrow> int \<Rightarrow> char \<Rightarrow> dict" where
  "demo_row i u c = [(''log_index'', JInt i), (''user_id'', JInt u), (''identity_version'', JInt 1),
     (''identity_pk'', JStr ''AAAA''), (''leaf_hash'', JStr (demo_leaf c))]"

lemma demo_leaf_hash [simp]: "hash_text (demo_leaf c)" "hex_bytes (demo_leaf c) = replicate 32 c"
  by (simp_all add: demo_leaf_def hash_text_to_hex)

lemma demo_leaf_neq [simp]: "demo_leaf a = demo_leaf b \<longleftrightarrow> a = b"
  by (simp add: demo_leaf_def)

lemma demo_node:
  "node_hash toy_crypto (demo_leaf a) (demo_leaf b) = Inr (to_hex (CHR 0x01 # replicate 31 a))"
  by (simp add: node_hash_def demo_leaf_def toy_crypto_def pad_to_def)

lemma demo_root:
  "merkle_root toy_crypto [demo_leaf a, demo_leaf b] = Inr (to_hex (CHR 0x01 # replicate 31 a))"
  by (simp add: merkle_root_step [of "[demo_leaf a, demo_leaf b]"] demo_node)

lemma demo_tree_inputs:
  "tree_inputs toy_crypto [demo_leaf a, demo_leaf b] = [node_input (demo_leaf a) (demo_leaf b)]"
proof -
  have "tree_levels toy_crypto [demo_leaf a, demo_leaf b] = Inr [[to_hex (CHR 0x01 # replicate 31 a)]]"
    by (subst tree_levels.simps) (simp add: demo_node tree_levels.simps [of _ "[_]"])
  then show ?thesis by (simp add: tree_inputs_def)
qed

lemma demo_digest: "c \<noteq> CHR 0x01 \<Longrightarrow> replicate 32 c \<noteq> sha256 toy_crypto (node_input (demo_leaf a) (demo_leaf b))"
  by (simp add: node_input_def toy_crypto_def pad_to_def numeral_eq_Suc)

lemma demo_row_ok [simp]: "row_ok (demo_row i u c)"
  by (auto simp: row_ok_def demo_row_def demo_leaf_def hash_text_to_hex)

definition demo_rows :: "dict list" where
  "demo_rows = [demo_row 1 7 (CHR ''a''), demo_row 2 8 (CHR ''b'')]"

definition demo_old :: dict where
  "demo_old = [(''tree_size'', JInt 1), (''root_hash'', JStr (demo_leaf (CHR ''a''))), (''created_at'', JStr ''t''),
     (''signature'', JStr (to_hex (ed_sign toy_crypto ''k'' (checkpoint_msg 1 (demo_leaf (CHR ''a'')) ''t'')))),
     (''auditor_pk'', JStr (to_hex (ed_pub toy_crypto ''k'')))]"

lemma demo_rows_ok: "list_all row_ok demo_rows"
  by (simp add: demo_rows_def)

lemma demo_find: "find (row_is 8 1) demo_rows = Some (demo_row 2 8 (CHR ''b''))"
  by (simp add: demo_rows_def row_is_def demo_row_def dget_def)

lemma demo_key: "same_identity_key (py_str (dget (demo_row 2 8 c) ''identity_pk'' (JStr []))) ''AAAA''"
  by (simp add: demo_row_def dget_def same_identity_key_def split: sum.splits)

lemma demo_earlier: "earlier_checkpoint toy_crypto ''k'' demo_rows demo_old"
  unfolding earlier_checkpoint_def
  by (rule disjI2, rule exI [of _ 1], rule exI [of _ "''t''"])
     (simp add: make_checkpoint_def row_hash_def demo_rows_def demo_old_def demo_row_def dget_def Let_def)

text \<open>
  The auditor's inclusion proofs are accepted. For every log of well-formed leaf hashes and
  every index of it, the proof that \<open>inclusion_proof\<close> computes makes the client's
  \<open>verify_inclusion\<close> succeed against a checkpoint with the log's size and Merkle root.
\<close>

theorem inclusion_proof_accepted:
  assumes "sizes_ok C" and "list_all hash_text leaves" and "0 \<le> i" and "i < int (length leaves)"
    and "dget cp ''tree_size'' (JInt (- 1)) = JInt (int (length leaves))"
    and "merkle_root C leaves = Inr root" and "dget cp ''root_hash'' (JStr []) = JStr root"
  shows "\<exists>pr. inclusion_proof C leaves i = Inr pr \<and> verify_inclusion C (leaves ! nat i) i pr cp = Inr ()"
proof -
  from proof_loop_total [OF assms(1,2)] obtain pr where "inclusion_proof C leaves i = Inr pr"
    using assms(3,4) by (auto simp: inclusion_proof_def)
  with verify_inclusion_complete [OF assms(1-4) this assms(6,5,7)] show ?thesis by blast
qed

theorem inclusion_proof_accepted_witness:
  "\<exists>pr. inclusion_proof toy_crypto [demo_leaf (CHR ''a''), demo_leaf (CHR ''b'')] 1 = Inr pr
     \<and> verify_inclusion toy_crypto ([demo_leaf (CHR ''a''), demo_leaf (CHR ''b'')] ! nat 1) 1 pr
         [(''tree_size'', JInt 2), (''root_hash'', JStr (to_hex (CHR 0x01 # replicate 31 (CHR ''a''))))] = Inr ()"
  by (rule inclusion_proof_accepted) (simp_all add: demo_root dget_def)

text \<open>
  C29: an accepted inclusion proof shows membership. Suppose the checkpoint carries the Merkle root
  of a non-empty log and its size, the siblings of the proof and the leaf hash decode to 32 bytes, the inputs
  hashed by the tree and by the client do not collide, and neither the leaf hash nor a leaf of the
  log is the digest of one of those inner inputs (the domain separation of leaf and node hashes).
  If \<open>verify_inclusion\<close> accepts, the leaf hash is a leaf of the log. Against a checkpoint of an empty log every leaf is
  accepted.
\<close>

theorem inclusion_proof_sound:
  assumes "sizes_ok C" and "list_all hash_text leaves" and "leaves \<noteq> []"
    and "merkle_root C leaves = Inr root"
    and "dget cp ''tree_size'' (JInt (- 1)) = JInt (int (length leaves))"
    and "dget cp ''root_hash'' (JStr []) = JStr root"
    and "siblings_ok pr" and "decodes_32 h"
    and "hashes_apart C leaves [h] (climb_inputs C pr h)"
    and "verify_inclusion C h i pr cp = Inr ()"
  shows "\<exists>leaf \<in> set leaves. hex_bytes h = hex_bytes leaf"
proof -
  from assms have "climb C pr h = Inr root" by (auto simp: verify_inclusion_def Let_def)
  moreover have "\<exists>x \<in> set (tree_nodes C leaves). hex_bytes root = hex_bytes x"
    using root_in_tree [OF assms(3,4)] by blast
  ultimately obtain x where x: "x \<in> set (tree_nodes C leaves)" "hex_bytes h = hex_bytes x"
    using climb_sound [OF assms(1,2,9) _ subset_refl assms(7,8)] by blast
  have "hex_bytes x \<noteq> sha256 C (node_input a b)" if "node_input a b \<in> set (tree_inputs C leaves)" for a b
    using that assms(9) x(2) by (auto simp: hashes_apart_def Let_def)
  then have "x \<in> set leaves" using tree_node_cases [OF x(1)] node_hash_input by (metis hex_bytes_to_hex)
  with x(2) show ?thesis by blast
qed

theorem inclusion_proof_sound_witness:
  "\<exists>leaf \<in> set [demo_leaf (CHR ''a''), demo_leaf (CHR ''b'')]. hex_bytes (demo_leaf (CHR ''b'')) = hex_bytes leaf"
proof (rule inclusion_proof_sound [of toy_crypto])
  let ?pr = "[proof_item ''left'' (demo_leaf (CHR ''a''))]"
  let ?cp = "[(''tree_size'', JInt 2), (''root_hash'', JStr (to_hex (CHR 0x01 # replicate 31 (CHR ''a''))))]"
  show "merkle_root toy_crypto [demo_leaf (CHR ''a''), demo_leaf (CHR ''b'')]
      = Inr (to_hex (CHR 0x01 # replicate 31 (CHR ''a'')))" by (rule demo_root)
  show "siblings_ok ?pr" by (simp add: siblings_ok_def proof_item_def dget_def hash_text_decodes)
  show "verify_inclusion toy_crypto (demo_leaf (CHR ''b'')) 1 ?pr ?cp = Inr ()"
    by (simp add: verify_inclusion_def dget_def climb_item demo_node del: climb.simps(2))
  show "hashes_apart toy_crypto [demo_leaf (CHR ''a''), demo_leaf (CHR ''b'')] [demo_leaf (CHR ''b'')]
      (climb_inputs toy_crypto ?pr (demo_leaf (CHR ''b'')))"
    using demo_tree_inputs demo_digest
    by (auto simp: hashes_apart_def Let_def proof_item_def dget_def demo_node)
qed (simp_all add: dget_def hash_text_decodes)

text \<open>
  C28: an honest auditor is accepted end to end. If the auditor serves a log of well-formed rows,
  the row of the user and version carries the key the client asks about, and the checkpoint the
  client stored (if any) was signed by this auditor over a prefix of the log, then
  \<open>verify_identity_from_auditor\<close>, talking to the auditor's \<open>do_GET\<close> over HTTP, returns
  \<open>ok\<close> with that row and a checkpoint over the whole log.
\<close>

theorem honest_auditor_accepted:
  assumes "crypto_ok C" and "list_all row_ok rows" and "now \<noteq> []" and "utf8_valid now"
    and "find (row_is u v) rows = Some r"
    and "same_identity_key (py_str (dget r ''identity_pk'' (JStr []))) pk"
    and "earlier_checkpoint C sk rows old"
  shows "\<exists>i cp pr. make_checkpoint C sk now (map row_hash rows) = Inr cp
     \<and> verify_identity_from_auditor C (to_hex (ed_pub C sk)) (auditor_http C sk now rows) u v pk old =
       Inr [(''status'', JStr ''ok''), (''leaf'', JObj (dset r ''leaf_index'' (JInt i))),
            (''checkpoint'', JObj cp), (''proof'', pr)]"
  by (rule verify_identity_accepted [OF assms])

theorem honest_auditor_accepted_witness:
  "\<exists>i cp pr. make_checkpoint toy_crypto ''k'' ''now'' (map row_hash demo_rows) = Inr cp
     \<and> verify_identity_from_auditor toy_crypto (to_hex (ed_pub toy_crypto ''k''))
         (auditor_http toy_crypto ''k'' ''now'' demo_rows) 8 1 ''AAAA'' demo_old =
       Inr [(''status'', JStr ''ok''), (''leaf'', JObj (dset (demo_row 2 8 (CHR ''b'')) ''leaf_index'' (JInt i))),
            (''checkpoint'', JObj cp), (''proof'', pr)]"
  by (rule honest_auditor_accepted [OF toy_ok demo_rows_ok _ _ demo_find demo_key demo_earlier]) simp_all

text \<open>
  C30: what the client has checked when it accepts. A successful
  \<open>verify_identity_from_auditor\<close> with a stored checkpoint means: the new checkpoint's
  signature verifies under the pinned auditor key; the log did not shrink; at an unchanged size the
  root is unchanged; and the leaf is for the requested user and version and carries the key.
\<close>

theorem accepted_identity_checked:
  assumes "verify_identity_from_auditor C apk http u v pk old = Inr out" and "old \<noteq> []"
  shows "\<exists>leaf cp items old_size new_size.
      dget out ''leaf'' JNull = JObj leaf \<and> dget out ''checkpoint'' JNull = JObj cp
    \<and> verify_checkpoint C apk cp = Inr ()
    \<and> int_field old ''tree_size'' 0 = Inr old_size \<and> int_field cp ''tree_size'' 0 = Inr new_size
    \<and> old_size \<le> new_size
    \<and> (old_size = new_size \<longrightarrow> py_str (dget old ''root_hash'' (JStr [])) = py_str (dget cp ''root_hash'' (JStr [])))
    \<and> py_int (dget leaf ''user_id'' (JInt 0)) = Inr u
    \<and> int_or (- 1) (dget leaf ''identity_version'' JNull) = Inr v
    \<and> same_identity_key (py_str (dget leaf ''identity_pk'' (JStr []))) pk
    \<and> (\<exists>i. verify_inclusion C (py_str (dget leaf ''leaf_hash'' (JStr []))) i items cp = Inr ())"
proof -
  from assms(1) obtain leaf cp i items where
    v: "verify_checkpoint C apk cp = Inr ()" "py_int (dget leaf ''user_id'' (JInt 0)) = Inr u"
      "int_or (- 1) (dget leaf ''identity_version'' JNull) = Inr v"
      "same_identity_key (py_str (dget leaf ''identity_pk'' (JStr []))) pk"
      "verify_inclusion C (py_str (dget leaf ''leaf_hash'' (JStr []))) i items cp = Inr ()"
      "check_consistency C apk http old cp = Inr ()"
    and out: "dget out ''leaf'' JNull = JObj leaf" "dget out ''checkpoint'' JNull = JObj cp"
    by (auto simp: verify_identity_from_auditor_def dget_def)
  from v(6) assms(2) obtain a b where "int_field old ''tree_size'' 0 = Inr a" "int_field cp ''tree_size'' 0 = Inr b"
    "a \<le> b" "a = b \<longrightarrow> py_str (dget old ''root_hash'' (JStr [])) = py_str (dget cp ''root_hash'' (JStr []))"
    by (auto simp: check_consistency_def Let_def split: if_splits)
  with v out show ?thesis by blast
qed

theorem accepted_identity_checked_witness:
  "\<exists>out leaf cp items old_size new_size.
      verify_identity_from_auditor toy_crypto (to_hex (ed_pub toy_crypto ''k''))
         (auditor_http toy_crypto ''k'' ''now'' demo_rows) 8 1 ''AAAA'' demo_old = Inr out
    \<and> dget out ''leaf'' JNull = JObj leaf \<and> dget out ''checkpoint'' JNull = JObj cp
    \<and> verify_checkpoint toy_crypto (to_hex (ed_pub toy_crypto ''k'')) cp = Inr ()
    \<and> int_field demo_old ''tree_size'' 0 = Inr old_size \<and> int_field cp ''tree_size'' 0 = Inr new_size
    \<and> old_size \<le> new_size \<and> py_int (dget leaf ''user_id'' (JInt 0)) = Inr 8
    \<and> same_identity_key (py_str (dget leaf ''identity_pk'' (JStr []))) ''AAAA''
    \<and> (\<exists>i. verify_inclusion toy_crypto (py_str (dget leaf ''leaf_hash'' (JStr []))) i items cp = Inr ())"
proof -
  obtain out where out: "verify_identity_from_auditor toy_crypto (to_hex (ed_pub toy_crypto ''k''))
         (auditor_http toy_crypto ''k'' ''now'' demo_rows) 8 1 ''AAAA'' demo_old = Inr out"
    using verify_identity_accepted [OF toy_ok demo_rows_ok _ _ demo_find demo_key demo_earlier, of "''now''"]
    by auto
  have "demo_old \<noteq> []" by (simp add: demo_old_def)
  from accepted_identity_checked [OF out this] show ?thesis using out by (elim exE conjE) (intro exI conjI)
qed

end
