(* ===== verification/Ws_Net.thy ===== *)
theory Ws_Net
  imports Crypto "HOL-Library.Word"
begin

text \<open>
  The WebSocket layer (\<open>client/network.py\<close>, class \<open>WSNet\<close>): framing, the receive loop
  on an arbitrary chunking of the byte stream, and the generation counter that decides which worker
  may emit signals, with the threads interleaved at every access to the shared state. TLS and the HTTP upgrade are I/O and are not modelled; a worker's socket is
  identified by the worker.
\<close>

unbundle bit_operations_syntax

subsection \<open>Frames\<close>

definition xor_byte :: "char \<Rightarrow> char \<Rightarrow> char" where
  "xor_byte a b = char_of (unat ((word_of_nat (code a) XOR word_of_nat (code b)) :: 8 word))"

definition mask_data :: "bytes \<Rightarrow> bytes \<Rightarrow> bytes" where
  "mask_data mk data = map (\<lambda>(i, b). xor_byte b (mk ! (i mod 4))) (enumerate 0 data)"

definition be_val :: "bytes \<Rightarrow> nat" where
  "be_val bs = foldl (\<lambda>a c. a * 256 + code c) 0 bs"

fun be_bytes :: "nat \<Rightarrow> nat \<Rightarrow> bytes" where
  "be_bytes 0 n = []"
| "be_bytes (Suc k) n = be_bytes k (n div 256) @ [char_of (n mod 256)]"

definition ws_head :: "bytes \<Rightarrow> (nat \<times> nat) option" where
  "ws_head buf =
     (let plen = code (buf ! 1) mod 128
      in if plen = 126 then (if length buf < 4 then None else Some (be_val (take 2 (drop 2 buf)), 4))
         else if plen = 127 then (if length buf < 10 then None else Some (be_val (take 8 (drop 2 buf)), 10))
         else Some (plen, 2))"

definition ws_parse :: "bytes \<Rightarrow> bytes option \<times> bytes" where
  "ws_parse buf =
     (if length buf < 2 then (None, buf)
      else let op = code (buf ! 0) mod 16; masked = (128 \<le> code (buf ! 1))
           in case ws_head buf of
                None \<Rightarrow> (None, buf)
              | Some (plen, off0) \<Rightarrow>
                  let off = (if masked then off0 + 4 else off0)
                  in if length buf < off + plen then (None, buf)
                     else let data = take plen (drop off buf);
                              data = (if masked then mask_data (take 4 (drop (off - 4) buf)) data else data);
                              rest = drop (off + plen) buf
                          in if op = 8 then (Some ''CLOSE'', rest)
                             else if op = 9 then (Some [], rest)
                             else (Some data, rest))"

definition ws_frame :: "bytes \<Rightarrow> bytes \<Rightarrow> bytes res" where
  "ws_frame mk payload =
     (let n = length payload;
          hdr = (if n \<le> 125 then Inr [char_of (128 + n)]
                 else if n \<le> 65535 then Inr (char_of (128 + 126 :: nat) # be_bytes 2 n)
                 else if n < 256 ^ 8 then Inr (char_of (128 + 127 :: nat) # be_bytes 8 n)
                 else Inl OverflowError)
      in rbind hdr (\<lambda>h. Inr (char_of (129 :: nat) # h @ mk @ mask_data mk payload)))"

lemma xor_byte_cancel [simp]: "xor_byte (xor_byte a m) m = a"
proof -
  have "unat (w :: 8 word) < 256" for w using unsigned_less [of w] by simp
  then have "word_of_nat (code (char_of (unat w))) = (w :: 8 word)" for w by simp
  moreover have "unat (word_of_nat (code a) :: 8 word) = code a" by (simp add: unat_of_nat)
  ultimately show ?thesis by (simp add: xor_byte_def xor.assoc)
qed

lemma length_mask [simp]: "length (mask_data mk d) = length d"
  by (simp add: mask_data_def)

lemma mask_mask [simp]: "mask_data mk (mask_data mk d) = d"
  by (rule nth_equalityI) (simp_all add: mask_data_def nth_enumerate_eq)

lemma length_be_bytes [simp]: "length (be_bytes k n) = k"
  by (induction k n rule: be_bytes.induct) auto

lemma be_val_snoc: "be_val (bs @ [c]) = be_val bs * 256 + code c"
  by (simp add: be_val_def)

lemma be_val_be_bytes [simp]: "n < 256 ^ k \<Longrightarrow> be_val (be_bytes k n) = n"
proof (induction k n rule: be_bytes.induct)
  case (2 k n)
  then have "n div 256 < 256 ^ k" by (simp add: less_mult_imp_div_less mult.commute)
  with 2 show ?case by (simp add: be_val_snoc)
qed (simp add: be_val_def)

lemma drop_exact: "length L = n \<Longrightarrow> drop n (L @ rest) = rest"
  by simp

lemma parse_frame:
  assumes "length mk = 4" and "ws_frame mk p = Inr f"
  shows "ws_parse (f @ rest) = (Some p, rest)"
proof -
  have masked: "take 4 (mk @ x) = mk" "drop 4 (mk @ x) = x" for x using assms(1) by simp_all
  have small: "be_val (be_bytes 2 n) = n" if "n \<le> 65535" for n by (rule be_val_be_bytes) (use that in simp)
  consider "length p \<le> 125" "f = char_of (129 :: nat) # char_of (128 + length p) # mk @ mask_data mk p"
    | "125 < length p" "length p \<le> 65535" "f = char_of (129 :: nat) # char_of (254 :: nat) # be_bytes 2 (length p) @ mk @ mask_data mk p"
    | "65535 < length p" "length p < 256 ^ 8" "f = char_of (129 :: nat) # char_of (255 :: nat) # be_bytes 8 (length p) @ mk @ mask_data mk p"
    using assms(2) by (auto simp: ws_frame_def Let_def split: if_splits)
  then show ?thesis
  proof cases
    case 1
    moreover have "drop (6 + length p) (a # b # mk @ mask_data mk p @ rest) = rest" for a b
      using assms(1) by (simp add: numeral_eq_Suc)
    ultimately show ?thesis using assms(1) by (simp add: ws_parse_def ws_head_def Let_def masked numeral_2_eq_2)
  next
    case 2
    moreover have "drop (8 + length p) (a # b # be_bytes 2 (length p) @ mk @ mask_data mk p @ rest) = rest" for a b
      using drop_exact [of "a # b # be_bytes 2 (length p) @ mk @ mask_data mk p" "8 + length p"] assms(1) by simp
    ultimately show ?thesis using assms(1) by (simp add: ws_parse_def ws_head_def Let_def small)
  next
    case 3
    moreover have "drop (14 + length p) (a # b # be_bytes 8 (length p) @ mk @ mask_data mk p @ rest) = rest" for a b
      using drop_exact [of "a # b # be_bytes 8 (length p) @ mk @ mask_data mk p" "14 + length p"] assms(1)
      by (simp del: be_bytes.simps)
    ultimately show ?thesis using assms(1) by (simp add: ws_parse_def ws_head_def Let_def)
  qed
qed

subsection \<open>The receive loop\<close>

lemma ws_head_append:
  assumes "2 \<le> length buf" and "ws_head buf = Some h"
  shows "ws_head (buf @ x) = Some h"
  using assms by (auto simp: ws_head_def Let_def nth_append split: if_splits)

lemma parse_append:
  assumes "ws_parse buf = (Some p, rest)"
  shows "ws_parse (buf @ x) = (Some p, rest @ x)"
proof -
  from assms obtain plen off0 where h: "2 \<le> length buf" "ws_head buf = Some (plen, off0)"
    "(if 128 \<le> code (buf ! 1) then off0 + 4 else off0) + plen \<le> length buf"
    by (auto simp: ws_parse_def Let_def split: if_splits option.splits prod.splits)
  have "2 \<le> off0" using h(2) by (auto simp: ws_head_def Let_def split: if_splits)
  with h assms ws_head_append [OF h(1,2), of x] show ?thesis
    by (auto simp: ws_parse_def Let_def nth_append split: if_splits)
qed

lemma parse_shorter: "ws_parse buf = (Some p, rest) \<Longrightarrow> length rest < length buf"
  by (auto simp: ws_parse_def ws_head_def Let_def split: if_splits option.splits prod.splits)

text \<open>
  The inner \<open>while True\<close> loop: the payloads up to a close frame, what is left of the buffer,
  and whether the loop returned on a close frame.
\<close>

function drain :: "bytes \<Rightarrow> bytes list \<times> bytes \<times> bool" where
  "drain buf = (case ws_parse buf of
       (None, _) \<Rightarrow> ([], buf, False)
     | (Some p, rest) \<Rightarrow>
         if p = ''CLOSE'' then ([], rest, True)
         else (case drain rest of (ps, b, c) \<Rightarrow> (p # ps, b, c)))"
  by pat_completeness auto
termination
  by (relation "measure length") (auto dest: parse_shorter [OF sym])

declare drain.simps [simp del]

text \<open>The outer loop over the chunks \<open>recv\<close> returns.\<close>

fun recv_chunks :: "bytes \<Rightarrow> bytes list \<Rightarrow> bytes list \<times> bytes \<times> bool" where
  "recv_chunks buf [] = ([], buf, False)"
| "recv_chunks buf (chunk # chunks) = (case drain (buf @ chunk) of (ps, b, c) \<Rightarrow>
     if c then (ps, b, True)
     else (case recv_chunks b chunks of (qs, b', c') \<Rightarrow> (ps @ qs, b', c')))"

text \<open>\<open>on_msg.emit(json.loads(payload.decode()))\<close>: only JSON objects reach the signal.\<close>

definition emitted :: "bytes \<Rightarrow> dict list" where
  "emitted payload =
     (if payload = [] then []
      else case rbind (utf8_decode payload) loads of Inr (JObj d) \<Rightarrow> [d] | _ \<Rightarrow> [])"

definition ws_send :: "bytes \<Rightarrow> dict \<Rightarrow> bytes res" where
  "ws_send mk obj = ws_frame mk (dumps_plain (JObj obj))"

lemma drain_append:
  "drain (buf @ x) = (case drain buf of (ps, b, c) \<Rightarrow>
     if c then (ps, b @ x, True) else (case drain (b @ x) of (qs, b', c') \<Rightarrow> (ps @ qs, b', c')))"
proof (induction buf rule: drain.induct)
  case (1 buf)
  obtain o' rest where p: "ws_parse buf = (o', rest)" by (cases "ws_parse buf")
  show ?case
  proof (cases o')
    case None
    with p have "drain buf = ([], buf, False)" by (simp add: drain.simps [of buf])
    then show ?thesis by (simp split: prod.splits)
  next
    case (Some q)
    note pa = parse_append [OF p [unfolded Some], of x]
    show ?thesis
      using "1.IH" [OF p [unfolded Some, symmetric] refl] p Some
      by (cases "q = ''CLOSE''") (simp_all add: drain.simps [of buf] drain.simps [of "buf @ x"] pa split: prod.splits)
  qed
qed

lemma drain_rest: "drain buf = (ps, b, c) \<Longrightarrow> \<not> c \<Longrightarrow> drain b = ([], b, False)"
proof (induction buf arbitrary: ps b c rule: drain.induct)
  case (1 buf)
  obtain o' rest where p: "ws_parse buf = (o', rest)" by (cases "ws_parse buf")
  show ?case
  proof (cases o')
    case None
    with p have "drain buf = ([], buf, False)" by (simp add: drain.simps [of buf])
    with "1.prems" show ?thesis by simp
  next
    case (Some q)
    with p "1.prems" obtain ps' where "drain rest = (ps', b, c)" "q \<noteq> ''CLOSE''"
      by (auto simp: drain.simps [of buf] split: if_splits prod.splits)
    with "1.IH" [OF p [unfolded Some, symmetric] refl] "1.prems"(2) show ?thesis by blast
  qed
qed

lemma recv_chunks_concat:
  "\<exists>b. recv_chunks buf cs = (fst (drain (buf @ concat cs)), b, snd (snd (drain (buf @ concat cs))))"
  if "drain buf = ([], buf, False)"
  using that
proof (induction cs arbitrary: buf)
  case (Cons chunk cs)
  obtain ps b c where d: "drain (buf @ chunk) = (ps, b, c)" by (cases "drain (buf @ chunk)")
  have whole: "drain (buf @ chunk @ concat cs) = (if c then (ps, b @ concat cs, True)
      else (case drain (b @ concat cs) of (qs, b', c') \<Rightarrow> (ps @ qs, b', c')))"
    using drain_append [of "buf @ chunk" "concat cs"] d by simp
  show ?case
  proof (cases c)
    case False
    have "drain b = ([], b, False)" using d False by (rule drain_rest)
    from Cons.IH [OF this] whole d False show ?thesis by (auto split: prod.splits)
  qed (use whole d in simp)
qed simp

lemma parse_waits: "ws_parse buf = (None, rest) \<Longrightarrow> rest = buf"
  by (auto simp: ws_parse_def Let_def split: if_splits option.splits prod.splits)

subsection \<open>Workers and generations\<close>

datatype signal = Opened | Message dict | Closed string

text \<open>
  Where a worker is. \<open>Connecting\<close>: before the TLS socket is stored. \<open>Upgrading\<close>: the socket is
  stored, the HTTP upgrade runs. \<open>Established\<close>: the flag is raised, the generation not yet read.
  \<open>Receiving\<close>: at the head of the outer loop. \<open>Waiting\<close>: inside \<open>recv\<close>. \<open>Parsing\<close>: at the head of
  the inner loop. \<open>Leaving\<close>: behind the loop, before the last check. \<open>Emitting ev p\<close>: a check of the
  generation has just succeeded, the signal \<open>ev\<close> is to be emitted and the worker goes on as \<open>p\<close>.
\<close>

datatype phase = Connecting | Upgrading | Established | Receiving bytes | Waiting bytes
  | Parsing bytes | Leaving | Emitting signal phase | Finished

text \<open>
  A worker is named by the generation it was started with (\<open>_connect_worker(host, port, gen)\<close>).
  \<open>log\<close> records every signal with the generation current when it was emitted and the worker
  that emitted it, \<open>None\<close> for the thread that called \<open>send\<close>.
\<close>

record wsnet =
  gen :: nat
  active :: bool
  sock :: "nat option"
  workers :: "nat \<Rightarrow> phase option"
  log :: "(nat \<times> nat option \<times> signal) list"

definition ws_init :: wsnet where
  "ws_init = \<lparr> gen = 0, active = False, sock = None, workers = Map.empty, log = [] \<rparr>"

definition goto :: "nat \<Rightarrow> phase \<Rightarrow> wsnet \<Rightarrow> wsnet" where
  "goto g p s = s\<lparr> workers := (workers s)(g \<mapsto> p) \<rparr>"

definition emit :: "nat option \<Rightarrow> signal \<Rightarrow> wsnet \<Rightarrow> wsnet" where
  "emit w ev s = s\<lparr> log := log s @ [(gen s, w, ev)] \<rparr>"

definition ws_connect :: "wsnet \<Rightarrow> wsnet" where
  "ws_connect s = (let g = gen s + 1 in goto g Connecting (s\<lparr> gen := g \<rparr>))"

text \<open>
  The flag is lowered in the same step as the generation is raised: the workers read the flag only
  together with the generation, which is raised first.
\<close>

definition ws_disconnect :: "wsnet \<Rightarrow> wsnet" where
  "ws_disconnect s = s\<lparr> gen := gen s + 1, active := False \<rparr>"

text \<open>\<open>send\<close> when \<open>sendall\<close> raises: the signal needs no worker and no check.\<close>

definition ws_send_failed :: "string \<Rightarrow> wsnet \<Rightarrow> wsnet" where
  "ws_send_failed m s = emit None (Closed m) s"

text \<open>\<open>_connect_worker\<close>: the socket is stored and the flag raised before the generation is read.\<close>

definition ws_stored :: "nat \<Rightarrow> wsnet \<Rightarrow> wsnet" where
  "ws_stored g s = goto g Upgrading (s\<lparr> sock := Some g \<rparr>)"

definition ws_upgraded :: "nat \<Rightarrow> wsnet \<Rightarrow> wsnet" where
  "ws_upgraded g s = goto g Established (s\<lparr> active := True \<rparr>)"

definition ws_opened :: "nat \<Rightarrow> wsnet \<Rightarrow> wsnet" where
  "ws_opened g s = goto g (if gen s \<noteq> g then Finished else Emitting Opened (Receiving [])) s"

definition ws_failed :: "nat \<Rightarrow> string \<Rightarrow> wsnet \<Rightarrow> wsnet" where
  "ws_failed g m s = goto g (if gen s = g then Emitting (Closed m) Finished else Finished) s"

text \<open>\<open>_recv_loop\<close>: the loop head, the three ways \<open>recv\<close> ends, and the code behind the loop.\<close>

definition ws_loop :: "nat \<Rightarrow> bytes \<Rightarrow> wsnet \<Rightarrow> wsnet" where
  "ws_loop g buf s = goto g (if active s \<and> gen s = g then Waiting buf else Leaving) s"

definition ws_received :: "nat \<Rightarrow> bytes \<Rightarrow> bytes \<Rightarrow> wsnet \<Rightarrow> wsnet" where
  "ws_received g buf chunk s = goto g (if chunk = [] then Leaving else Parsing (buf @ chunk)) s"

definition ws_recv_failed :: "nat \<Rightarrow> string \<Rightarrow> wsnet \<Rightarrow> wsnet" where
  "ws_recv_failed g m s = goto g (if active s \<and> gen s = g then Emitting (Closed m) Finished else Leaving) s"

definition ws_leave :: "nat \<Rightarrow> wsnet \<Rightarrow> wsnet" where
  "ws_leave g s = goto g (if gen s = g then Emitting (Closed ''Connection closed'') Finished else Finished) s"

text \<open>One round of the inner \<open>while True\<close> loop, up to the emission of the message.\<close>

definition ws_round :: "nat \<Rightarrow> bytes \<Rightarrow> wsnet \<Rightarrow> wsnet" where
  "ws_round g buf s = (case ws_parse buf of
       (None, rest) \<Rightarrow> goto g (Receiving rest) s
     | (Some p, rest) \<Rightarrow>
         if p = ''CLOSE'' then goto g Finished s
         else if p = [] then goto g (Parsing rest) s
         else if gen s \<noteq> g then goto g Finished s
         else (case emitted p of [] \<Rightarrow> goto g (Parsing rest) s
               | d # _ \<Rightarrow> goto g (Emitting (Message d) (Parsing rest)) s))"

inductive ws_step :: "wsnet \<Rightarrow> wsnet \<Rightarrow> bool" where
  step_connect: "ws_step s (ws_connect s)"
| step_disconnect: "ws_step s (ws_disconnect s)"
| step_send_failed: "ws_step s (ws_send_failed m s)"
| step_stored: "workers s g = Some Connecting \<Longrightarrow> ws_step s (ws_stored g s)"
| step_upgraded: "workers s g = Some Upgrading \<Longrightarrow> ws_step s (ws_upgraded g s)"
| step_failed: "workers s g \<in> {Some Connecting, Some Upgrading} \<Longrightarrow> ws_step s (ws_failed g m s)"
| step_opened: "workers s g = Some Established \<Longrightarrow> ws_step s (ws_opened g s)"
| step_loop: "workers s g = Some (Receiving buf) \<Longrightarrow> ws_step s (ws_loop g buf s)"
| step_received: "workers s g = Some (Waiting buf) \<Longrightarrow> ws_step s (ws_received g buf chunk s)"
| step_recv_failed: "workers s g = Some (Waiting buf) \<Longrightarrow> ws_step s (ws_recv_failed g m s)"
| step_round: "workers s g = Some (Parsing buf) \<Longrightarrow> ws_step s (ws_round g buf s)"
| step_leave: "workers s g = Some Leaving \<Longrightarrow> ws_step s (ws_leave g s)"
| step_emit: "workers s g = Some (Emitting ev p) \<Longrightarrow> ws_step s (emit (Some g) ev (goto g p s))"

inductive_cases ws_stepE: "ws_step s s'"

definition signals_of :: "nat \<Rightarrow> wsnet \<Rightarrow> signal list" where
  "signals_of g s = [ev. (_, w, ev) \<leftarrow> log s, w = Some g]"

lemma goto_simps [simp]:
  "gen (goto g p s) = gen s" "active (goto g p s) = active s" "sock (goto g p s) = sock s"
  "log (goto g p s) = log s" "workers (goto g p s) = (workers s)(g \<mapsto> p)"
  "signals_of h (goto g p s) = signals_of h s"
  by (simp_all add: goto_def signals_of_def)

lemma emit_simps [simp]:
  "gen (emit w ev s) = gen s" "active (emit w ev s) = active s" "sock (emit w ev s) = sock s"
  "log (emit w ev s) = log s @ [(gen s, w, ev)]" "workers (emit w ev s) = workers s"
  "signals_of h (emit w ev s) = signals_of h s @ (if w = Some h then [ev] else [])"
  by (simp_all add: emit_def signals_of_def)

lemma thread_simps [simp]:
  "signals_of g (s\<lparr> gen := n \<rparr>) = signals_of g s" "signals_of g (s\<lparr> active := b \<rparr>) = signals_of g s"
  "signals_of g (s\<lparr> sock := k \<rparr>) = signals_of g s"
  by (simp_all add: signals_of_def)

lemmas ws_defs = ws_connect_def ws_disconnect_def ws_send_failed_def ws_stored_def ws_upgraded_def
  ws_opened_def ws_failed_def ws_loop_def ws_received_def ws_recv_failed_def ws_leave_def ws_round_def Let_def

lemma gen_mono: "ws_step s s' \<Longrightarrow> gen s \<le> gen s'"
  by (induction rule: ws_step.induct) (auto simp: ws_defs split: option.splits list.splits prod.splits)

text \<open>What a worker that has been overtaken may still emit: the signal its last check let through.\<close>

fun last_signal :: "phase option \<Rightarrow> signal list" where
  "last_signal (Some (Emitting ev p)) = [ev]"
| "last_signal _ = []"

lemma stale_step:
  assumes "ws_step s s'" "g < gen s" and "\<And>ev e p. workers s g \<noteq> Some (Emitting ev (Emitting e p))"
  shows "signals_of g s' @ last_signal (workers s' g) = signals_of g s @ last_signal (workers s g)"
  using assms
proof (induction rule: ws_step.induct)
  case (step_emit s h ev p)
  then show ?case by (cases p) auto
qed (auto simp: ws_defs split: option.splits list.splits prod.splits)

inductive ws_reach :: "wsnet \<Rightarrow> bool" where
  reach_init: "ws_reach ws_init"
| reach_step: "ws_reach s \<Longrightarrow> ws_step s s' \<Longrightarrow> ws_reach s'"

lemmas reach_connect = reach_step [OF _ step_connect]
  and reach_disconnect = reach_step [OF _ step_disconnect]
  and reach_stored = reach_step [OF _ step_stored]
  and reach_upgraded = reach_step [OF _ step_upgraded]
  and reach_opened = reach_step [OF _ step_opened]
  and reach_loop = reach_step [OF _ step_loop]
  and reach_emit = reach_step [OF _ step_emit]

lemma flat_step:
  assumes "ws_step s s'" and "\<And>g ev e p. workers s g \<noteq> Some (Emitting ev (Emitting e p))"
  shows "workers s' g \<noteq> Some (Emitting ev (Emitting e p))"
  using assms
proof (induction rule: ws_step.induct)
  case (step_emit s h ev' q)
  then show ?case by (cases q) auto
qed (auto simp: ws_defs split: option.splits list.splits prod.splits)

lemma reach_flat: "ws_reach s \<Longrightarrow> workers s g \<noteq> Some (Emitting ev (Emitting e p))"
proof (induction arbitrary: g ev e p rule: ws_reach.induct)
  case (reach_step s s')
  from flat_step [OF reach_step(2,3)] show ?case .
qed (simp add: ws_init_def)

lemma log_grows: "ws_step s s' \<Longrightarrow> \<exists>evs. log s' = log s @ evs"
  by (induction rule: ws_step.induct) (auto simp: ws_defs split: option.splits list.splits prod.splits)

lemma signals_grow: "ws_step\<^sup>*\<^sup>* s t \<Longrightarrow> \<exists>evs. signals_of g t = signals_of g s @ evs"
proof (induction rule: rtranclp_induct)
  case (step t u)
  with log_grows [OF step(2)] show ?case by (auto simp: signals_of_def)
qed simp

lemma three_steps: "ws_step s t \<Longrightarrow> ws_step t u \<Longrightarrow> ws_step u v \<Longrightarrow> ws_step\<^sup>*\<^sup>* s v"
  by (rule converse_rtranclp_into_rtranclp [OF _ converse_rtranclp_into_rtranclp [OF _ r_into_rtranclp]])

lemma stale_run:
  assumes "ws_step\<^sup>*\<^sup>* s t" "ws_reach s" "g < gen s"
  shows "signals_of g t @ last_signal (workers t g) = signals_of g s @ last_signal (workers s g)
    \<and> ws_reach t \<and> g < gen t"
  using assms
proof (induction rule: rtranclp_induct)
  case (step t u)
  then have t: "ws_reach t" "g < gen t"
    and eq: "signals_of g t @ last_signal (workers t g) = signals_of g s @ last_signal (workers s g)"
    by blast+
  from stale_step [OF step(2) t(2) reach_flat [OF t(1)]] eq reach_step [OF t(1) step(2)] gen_mono [OF step(2)] t(2)
  show ?case by simp
qed simp

text \<open>
  One worker in a run of its own: an undisturbed round of the inner loop delivers exactly what
  \<open>drain\<close> says, one signal a step.
\<close>

lemma worker_round:
  assumes "workers s g = Some (Parsing buf)" "gen s = g" "ws_parse buf = (Some p, rest)" "p \<noteq> ''CLOSE''"
  shows "\<exists>t. ws_step\<^sup>*\<^sup>* s t \<and> workers t g = Some (Parsing rest) \<and> gen t = g
    \<and> signals_of g t = signals_of g s @ map Message (emitted p)"
proof (cases "emitted p")
  case Nil
  have st: "ws_step s (ws_round g buf s)" by (rule step_round [OF assms(1)])
  have "ws_round g buf s = goto g (Parsing rest) s" using assms Nil by (simp add: ws_round_def)
  with st Nil assms(2) show ?thesis by (intro exI [of _ "goto g (Parsing rest) s"]) auto
next
  case (Cons d ds)
  then have one: "emitted p = [d]" and ne: "p \<noteq> []"
    by (auto simp: emitted_def split: if_splits sum.splits json.splits)
  let ?u = "goto g (Emitting (Message d) (Parsing rest)) s"
  have st: "ws_step s (ws_round g buf s)" by (rule step_round [OF assms(1)])
  have "ws_round g buf s = ?u" using assms one ne by (simp add: ws_round_def)
  with st have 1: "ws_step s ?u" by simp
  have 2: "ws_step ?u (emit (Some g) (Message d) (goto g (Parsing rest) ?u))" by (rule step_emit) simp
  have "ws_step\<^sup>*\<^sup>* s (emit (Some g) (Message d) (goto g (Parsing rest) ?u))"
    by (rule converse_rtranclp_into_rtranclp [OF 1 r_into_rtranclp [of ws_step, OF 2]])
  then show ?thesis using one assms(2)
    by (intro exI [of _ "emit (Some g) (Message d) (goto g (Parsing rest) ?u)"]) simp
qed

lemma worker_delivers:
  assumes "workers s g = Some (Parsing buf)" "gen s = g" "drain buf = (ps, b, c)"
  shows "\<exists>t. ws_step\<^sup>*\<^sup>* s t \<and> workers t g = Some (if c then Finished else Receiving b) \<and> gen t = g
    \<and> signals_of g t = signals_of g s @ map Message (concat (map emitted ps))"
  using assms
proof (induction buf arbitrary: s ps rule: drain.induct)
  case (1 buf)
  obtain o' rest where p: "ws_parse buf = (o', rest)" by (cases "ws_parse buf")
  have st: "ws_step s (ws_round g buf s)" by (rule step_round [OF "1.prems"(1)])
  show ?case
  proof (cases o')
    case None
    then have "ws_round g buf s = goto g (Receiving buf) s" "ps = []" "b = buf" "\<not> c"
      using p "1.prems" parse_waits by (auto simp: ws_round_def drain.simps [of buf])
    with st "1.prems"(2) show ?thesis by (intro exI [of _ "goto g (Receiving buf) s"]) auto
  next
    case (Some q)
    show ?thesis
    proof (cases "q = ''CLOSE''")
      case True
      then have "ws_round g buf s = goto g Finished s" "ps = []" "c"
        using p Some "1.prems" by (auto simp: ws_round_def drain.simps [of buf])
      with st "1.prems"(2) show ?thesis by (intro exI [of _ "goto g Finished s"]) auto
    next
      case False
      then obtain qs where qs: "ps = q # qs" "drain rest = (qs, b, c)"
        using p Some "1.prems" by (auto simp: drain.simps [of buf] split: prod.splits)
      from worker_round [OF "1.prems"(1,2) p [unfolded Some] False] obtain u where
        u: "ws_step\<^sup>*\<^sup>* s u" "workers u g = Some (Parsing rest)" "gen u = g"
          "signals_of g u = signals_of g s @ map Message (emitted q)" by blast
      from "1.IH" [OF p [unfolded Some, symmetric] refl False u(2,3) qs(2)] obtain t where
        "ws_step\<^sup>*\<^sup>* u t" "workers t g = Some (if c then Finished else Receiving b)" "gen t = g"
        "signals_of g t = signals_of g u @ map Message (concat (map emitted qs))" by blast
      with u qs show ?thesis by (intro exI [of _ t]) (auto intro: rtranclp_trans)
    qed
  qed
qed

text \<open>
  A worker overtaken by a newer one still stores its socket: the current worker then reads from,
  and the client then sends to, the old connection.
\<close>

lemma stale_worker_takes_socket:
  "\<exists>s. ws_reach s \<and> gen s = 2 \<and> workers s 2 = Some (Waiting []) \<and> sock s = Some 1"
proof -
  define s1 where "s1 = ws_upgraded 2 (ws_stored 2 (ws_connect (ws_connect ws_init)))"
  define s2 where "s2 = emit (Some 2) Opened (goto 2 (Receiving []) (ws_opened 2 s1))"
  have r1: "ws_reach s1" unfolding s1_def
    by (rule reach_upgraded, rule reach_stored, rule reach_connect, rule reach_connect, rule reach_init)
       (simp_all add: ws_connect_def ws_stored_def ws_init_def Let_def del: One_nat_def)
  have s1: "gen s1 = 2" "workers s1 2 = Some Established" "workers s1 1 = Some Connecting" "active s1"
    by (simp_all add: s1_def ws_init_def ws_connect_def ws_stored_def ws_upgraded_def Let_def del: One_nat_def)
  have r2: "ws_reach s2" unfolding s2_def
    by (rule reach_emit, rule reach_opened, rule r1) (simp_all add: s1 ws_opened_def del: One_nat_def)
  have s2: "gen s2 = 2" "workers s2 2 = Some (Receiving [])" "workers s2 1 = Some Connecting" "active s2"
    by (simp_all add: s2_def ws_opened_def s1 del: One_nat_def)
  have "ws_reach (ws_stored 1 (ws_loop 2 [] s2))"
    by (rule reach_stored, rule reach_loop, rule r2) (simp_all add: s2 ws_loop_def del: One_nat_def)
  then show ?thesis by (intro exI [of _ "ws_stored 1 (ws_loop 2 [] s2)"]) (simp add: s2 ws_loop_def ws_stored_def del: One_nat_def)
qed

subsection \<open>Properties\<close>

text \<open>
  A frame parses to its payload. Whatever follows it in the buffer, a frame built by
  \<open>_frame\<close> with a four-byte mask parses to exactly the payload and leaves exactly the rest.
\<close>

theorem frame_parses_back:
  assumes "length mk = 4" and "ws_frame mk p = Inr f"
  shows "ws_parse (f @ rest) = (Some p, rest)"
  by (rule parse_frame [OF assms])

theorem frame_parses_back_witness:
  "\<exists>f. ws_frame ''mask'' ''{}'' = Inr f \<and> ws_parse (f @ ''xyz'') = (Some ''{}'', ''xyz'')"
proof -
  obtain f where "ws_frame ''mask'' ''{}'' = Inr f" by (simp add: ws_frame_def Let_def)
  with frame_parses_back [OF _ this, of "''xyz''"] show ?thesis by simp
qed

text \<open>
  C40: (equivalence) Chunking does not matter. However the network cuts the byte stream into chunks, the receive
  loop delivers the same payloads in the same order, and ends on a close frame or not, as if the whole
  stream came at once.
\<close>

theorem chunking_irrelevant:
  "fst (recv_chunks [] cs) = fst (drain (concat cs)) \<and> snd (snd (recv_chunks [] cs)) = snd (snd (drain (concat cs)))"
  using recv_chunks_concat [of "[]" cs] by (auto simp: drain.simps [of "[]"] ws_parse_def)

text \<open>
  C38: an old connection is silent but for the signal it was about to emit. From every reachable
  state of the client's connection, whatever the threads do next and in whatever order, a worker
  started before the last connect or disconnect emits nothing more, except the one signal for which
  its check of the generation had succeeded before that connect or disconnect and which it had not
  emitted yet. The check and the emission are two steps in the code, so this one late signal happens.
\<close>

theorem stale_worker_at_most_one_signal:
  assumes "ws_reach s" "g < gen s" "ws_step\<^sup>*\<^sup>* s t"
  shows "signals_of g t = signals_of g s
    \<or> (\<exists>ev p. workers s g = Some (Emitting ev p) \<and> signals_of g t = signals_of g s @ [ev])"
proof -
  from stale_run [OF assms(3,1,2)]
  have eq: "signals_of g t @ last_signal (workers t g) = signals_of g s @ last_signal (workers s g)" by blast
  obtain evs where evs: "signals_of g t = signals_of g s @ evs" using signals_grow [OF assms(3)] by blast
  with eq have "evs @ last_signal (workers t g) = last_signal (workers s g)" by simp
  with evs show ?thesis
    by (cases "workers s g" rule: last_signal.cases) (auto simp: append_eq_Cons_conv)
qed

theorem stale_worker_at_most_one_signal_witness:
  "\<exists>s t. ws_reach s \<and> 1 < gen s \<and> ws_step\<^sup>*\<^sup>* s t \<and> signals_of 1 s = [] \<and> signals_of 1 t = [Opened]
    \<and> workers t 1 = Some Finished"
proof -
  define s1 where "s1 = ws_upgraded 1 (ws_stored 1 (ws_connect ws_init))"
  define s where "s = ws_disconnect (ws_opened 1 s1)"
  define t1 where "t1 = emit (Some 1) Opened (goto 1 (Receiving []) s)"
  define t2 where "t2 = ws_loop 1 [] t1"
  have r1: "ws_reach s1" unfolding s1_def
    by (rule reach_upgraded, rule reach_stored, rule reach_connect, rule reach_init)
       (simp_all add: ws_connect_def ws_stored_def ws_init_def Let_def del: One_nat_def)
  have s1: "gen s1 = 1" "workers s1 1 = Some Established" "log s1 = []"
    by (simp_all add: s1_def ws_init_def ws_connect_def ws_stored_def ws_upgraded_def Let_def del: One_nat_def)
  have r: "ws_reach s" unfolding s_def
    by (rule reach_disconnect, rule reach_opened, rule r1) (simp add: s1 del: One_nat_def)
  have s: "gen s = 2" "workers s 1 = Some (Emitting Opened (Receiving []))" "log s = []" "signals_of 1 s = []"
    by (simp_all add: s_def ws_opened_def ws_disconnect_def s1 signals_of_def del: One_nat_def)
  have t1: "ws_step s t1" "workers t1 1 = Some (Receiving [])" "gen t1 = 2" "signals_of 1 t1 = [Opened]"
    unfolding t1_def by (rule step_emit, simp add: s del: One_nat_def) (simp_all add: s del: One_nat_def)
  have t2: "ws_step t1 t2" "workers t2 1 = Some Leaving" "gen t2 = 2" "signals_of 1 t2 = [Opened]"
    unfolding t2_def by (rule step_loop, simp add: t1 del: One_nat_def) (simp_all add: ws_loop_def t1 del: One_nat_def)
  have t: "ws_step t2 (ws_leave 1 t2)" by (rule step_leave) (simp add: t2 del: One_nat_def)
  note run = three_steps [OF t1(1) t2(1) t]
  have f: "signals_of 1 (ws_leave 1 t2) \<noteq> []" "workers (ws_leave 1 t2) 1 = Some Finished"
    by (simp_all add: ws_leave_def t2 del: One_nat_def)
  have "1 < gen s" by (simp add: s del: One_nat_def)
  from stale_worker_at_most_one_signal [OF r this run] f s have "signals_of 1 (ws_leave 1 t2) = [Opened]" by auto
  with r run f s show ?thesis by (intro exI [of _ s] exI [of _ "ws_leave 1 t2"]) simp
qed

lemma parse_rest:
  assumes "ws_parse buf = (Some p, rest)"
  shows "\<exists>k. rest = drop k buf \<and> 2 \<le> k \<and> k \<le> length buf"
proof -
  obtain plen off0 where h: "ws_head buf = Some (plen, off0)" "(if 128 \<le> code (buf ! 1) then off0 + 4 else off0) + plen \<le> length buf"
    "rest = drop ((if 128 \<le> code (buf ! 1) then off0 + 4 else off0) + plen) buf"
    using assms by (auto simp: ws_parse_def Let_def split: if_splits option.splits prod.splits)
  have "2 \<le> off0" using h(1) by (auto simp: ws_head_def Let_def split: if_splits)
  with h(2,3) show ?thesis by (intro exI [of _ "(if 128 \<le> code (buf ! 1) then off0 + 4 else off0) + plen"]) auto
qed

text \<open>
  The \<open>while True\<close> loop over the receive buffer ends: it delivers at most one payload for
  every two bytes received, drops only bytes from the front of the buffer, and stops without a close
  frame exactly when no complete frame is left in what it keeps.
\<close>

theorem drain_exhausts_buffer:
  assumes "drain buf = (ps, b, c)"
  shows "2 * length ps + length b \<le> length buf \<and> (\<exists>k. b = drop k buf) \<and> (\<not> c \<longrightarrow> ws_parse b = (None, b))"
  using assms
proof (induction buf arbitrary: ps rule: drain.induct)
  case (1 buf)
  obtain o' rest where p: "ws_parse buf = (o', rest)" by (cases "ws_parse buf")
  show ?case
  proof (cases o')
    case None
    then have "ps = []" "b = buf" "rest = buf" using p "1.prems" parse_waits by (auto simp: drain.simps [of buf])
    then show ?thesis using p None by (auto intro: exI [of _ 0])
  next
    case (Some q)
    obtain k where k: "rest = drop k buf" "2 \<le> k" "k \<le> length buf" using parse_rest p Some by blast
    show ?thesis
    proof (cases "q = ''CLOSE''")
      case True
      then have "ps = []" "b = rest" "c" using p Some "1.prems" by (auto simp: drain.simps [of buf])
      then show ?thesis using k by auto
    next
      case False
      then obtain qs where "ps = q # qs" "drain rest = (qs, b, c)"
        using p Some "1.prems" by (auto simp: drain.simps [of buf] split: prod.splits)
      moreover from this "1.IH" [OF p [unfolded Some, symmetric] refl False] have
        "2 * length qs + length b \<le> length rest" "\<exists>j. b = drop j rest" "\<not> c \<longrightarrow> ws_parse b = (None, b)" by blast+
      ultimately show ?thesis using k by (auto simp: drop_drop)
    qed
  qed
qed

theorem drain_exhausts_buffer_witness:
  "\<exists>f. ws_frame ''mask'' ''{}'' = Inr f \<and> drain (f @ ''x'') = ([''{}''], ''x'', False) \<and> ws_parse ''x'' = (None, ''x'')"
proof -
  obtain f where f: "ws_frame ''mask'' ''{}'' = Inr f" by (simp add: ws_frame_def Let_def)
  have x: "drain ''x'' = ([], ''x'', False)" by (simp add: drain.simps ws_parse_def)
  have "ws_parse (f @ ''x'') = (Some ''{}'', ''x'')" by (rule parse_frame [OF _ f]) simp
  then have d: "drain (f @ ''x'') = ([''{}''], ''x'', False)" using x by (simp add: drain.simps [of "f @ ''x''"])
  from drain_exhausts_buffer [OF d] f d show ?thesis by blast
qed

end
