(* ===== verification/Prekeys.thy ===== *)
theory Prekeys
  imports Crypto
begin

text \<open>
  The primitives and the prekey bundles of \<open>client/crypto_engine/secure_protocol.py\<close>: the
  protocol's constants, HKDF and AEAD tokens, the choice of a KEM, X25519 and Ed25519 wrappers,
  prekey signatures, the generation of a local bundle and the verification of a peer's bundle.

  What the operating system draws is an argument: a nonce, the time, or the number \<open>t\<close> of a
  draw (\<open>x_seed C t\<close> is the secret that the draw \<open>t\<close> of \<open>x25519_keygen\<close>
  returns).
\<close>

subsection \<open>Constants\<close>

definition SECCHAT_SCHEMA :: int where
  "SECCHAT_SCHEMA = 3"

definition PREFIX_PQ_INIT :: string where
  "PREFIX_PQ_INIT = ''S3PQI:''"

definition PREFIX_DR :: string where
  "PREFIX_DR = ''S3DR:''"

definition PREFIX_MLS :: string where
  "PREFIX_MLS = ''S3MLS:''"

definition DEFAULT_KEM :: string where
  "DEFAULT_KEM = ''ML-KEM-1024''"

definition ALLOWED_KEMS :: "string list" where
  "ALLOWED_KEMS = [''ML-KEM-1024'', ''Kyber1024'', ''ML-KEM-768'', ''Kyber768'']"

definition MAX_SKIP_KEYS :: int where
  "MAX_SKIP_KEYS = 1000"

lemmas protocol_consts = SECCHAT_SCHEMA_def PREFIX_PQ_INIT_def PREFIX_DR_def PREFIX_MLS_def MAX_SKIP_KEYS_def

subsection \<open>Key derivation and AEAD tokens\<close>

definition hkdf :: "crypto \<Rightarrow> bytes \<Rightarrow> bytes \<Rightarrow> bytes option \<Rightarrow> nat \<Rightarrow> bytes" where
  "hkdf C ikm info salt len = hkdf_sha256 C salt len info ikm"

definition aead_encrypt :: "crypto \<Rightarrow> bytes \<Rightarrow> bytes \<Rightarrow> json \<Rightarrow> bytes \<Rightarrow> string res" where
  "aead_encrypt C nonce key obj aad =
     rbind (aesgcm_encrypt C key nonce (dumps_compact obj) aad) (\<lambda>ct. Inr (b64e (nonce @ ct)))"

definition aead_decrypt :: "crypto \<Rightarrow> bytes \<Rightarrow> json \<Rightarrow> bytes \<Rightarrow> json res" where
  "aead_decrypt C key token aad =
     rbind (b64d_json token) (\<lambda>raw.
     rbind (aesgcm_decrypt C key (take 12 raw) (drop 12 raw) aad) (\<lambda>plain.
     rbind (utf8_decode plain) loads))"

lemma aead_roundtrip:
  assumes "aead_ok C" and "length nonce = 12" and "wire_ok obj"
    and "aead_encrypt C nonce key obj aad = Inr token"
  shows "aead_decrypt C key (JStr token) aad = Inr obj"
proof -
  from assms(4) obtain ct where ct: "aesgcm_encrypt C key nonce (dumps_compact obj) aad = Inr ct"
    and tok: "token = b64e (nonce @ ct)"
    by (auto simp: aead_encrypt_def)
  from aesgcm_roundtrip [OF assms(1) ct] utf8_json.dec_enc [OF assms(3)] assms(2) show ?thesis
    by (simp add: aead_decrypt_def tok)
qed

lemma aead_encrypt_32:
  "length key = 32 \<Longrightarrow> length nonce = 12 \<Longrightarrow>
   aead_encrypt C nonce key obj aad = Inr (b64e (nonce @ aes_enc C key nonce (dumps_compact obj) aad))"
  by (simp add: aead_encrypt_def aesgcm_encrypt_32)

subsection \<open>KEM, X25519, Ed25519\<close>

definition available_kems :: "crypto \<Rightarrow> string list" where
  "available_kems C =
     (if \<not> oqs_present C then []
      else let enabled = (case oqs_enabled C of None \<Rightarrow> ALLOWED_KEMS | Some ms \<Rightarrow> ms)
           in filter (\<lambda>name. name \<in> set enabled) ALLOWED_KEMS)"

definition select_kem :: "crypto \<Rightarrow> string option \<Rightarrow> string res" where
  "select_kem C preferred =
     (let enabled = available_kems C;
          fallback = (if DEFAULT_KEM \<in> set enabled then Inr DEFAULT_KEM
            else case find (\<lambda>name. enabled = [] \<or> name \<in> set enabled) ALLOWED_KEMS of
                   Some name \<Rightarrow> Inr name
                 | None \<Rightarrow> Inl (RuntimeError ''No supported ML-KEM/Kyber mechanism is enabled''))
      in case preferred of
           None \<Rightarrow> fallback
         | Some p \<Rightarrow> if p \<noteq> [] \<and> p \<in> set ALLOWED_KEMS \<and> (enabled = [] \<or> p \<in> set enabled) then Inr p
                     else fallback)"

definition no_oqs :: exc where
  "no_oqs = RuntimeError ''liboqs is not available''"

definition kem_error :: exc where
  "kem_error = RuntimeError ''KEM operation failed''"

definition kem_keygen :: "crypto \<Rightarrow> nat \<Rightarrow> string \<Rightarrow> (bytes \<times> bytes) res" where
  "kem_keygen C t alg = rguard (\<not> oqs_present C) no_oqs (opt_res kem_error (kem_gen C alg t))"

definition alg_text :: "json \<Rightarrow> string res" where
  "alg_text j = (case j of JStr s \<Rightarrow> Inr s | _ \<Rightarrow> Inl (AttributeError ''encode''))"

definition kem_encapsulate :: "crypto \<Rightarrow> nat \<Rightarrow> json \<Rightarrow> bytes \<Rightarrow> (bytes \<times> bytes) res" where
  "kem_encapsulate C t alg public_key =
     rguard (\<not> oqs_present C) no_oqs
       (rbind (alg_text alg) (\<lambda>a. opt_res kem_error (kem_enc C a public_key t)))"

definition kem_decapsulate :: "crypto \<Rightarrow> json \<Rightarrow> bytes \<Rightarrow> bytes \<Rightarrow> bytes res" where
  "kem_decapsulate C alg secret_key ciphertext =
     rguard (\<not> oqs_present C) no_oqs
       (rbind (alg_text alg) (\<lambda>a. opt_res kem_error (kem_dec C a secret_key ciphertext)))"

definition x25519_keygen :: "crypto \<Rightarrow> nat \<Rightarrow> bytes \<times> bytes" where
  "x25519_keygen C t = (x_pub C (x_seed C t), x_seed C t)"

definition x25519_dh :: "crypto \<Rightarrow> bytes \<Rightarrow> bytes \<Rightarrow> bytes res" where
  "x25519_dh C sk_bytes peer_pk_bytes =
     rguard (length sk_bytes \<noteq> 32) (ValueError ''An X25519 private key is 32 bytes long'')
       (rguard (length peer_pk_bytes \<noteq> 32) (ValueError ''An X25519 public key is 32 bytes long'')
         (opt_res (ValueError ''Error computing shared key.'') (x_dh C sk_bytes peer_pk_bytes)))"

lemma x25519_agree:
  assumes "dh_ok C" and "sizes_ok C" and "length a = 32" and "length b = 32"
  obtains s where "x25519_dh C a (x_pub C b) = Inr s" and "x25519_dh C b (x_pub C a) = Inr s"
  using assms by (auto simp: x25519_dh_def dh_ok_def sizes_okD)

subsection \<open>Prekey signatures\<close>

definition sig_msg :: "string \<Rightarrow> int \<Rightarrow> string \<Rightarrow> bytes \<Rightarrow> bytes res" where
  "sig_msg kind key_id alg public_key =
     rbind (ascii_encode kind) (\<lambda>k.
     rbind (ascii_encode alg) (\<lambda>a.
     Inr (''SecChatPreKey'' @ [CHR 0x00] @ k @ [CHR 0x00] @ show_int key_id @ [CHR 0x00]
          @ a @ [CHR 0x00] @ public_key)))"

definition sign_prekey :: "crypto \<Rightarrow> bytes \<Rightarrow> string \<Rightarrow> int \<Rightarrow> string \<Rightarrow> bytes \<Rightarrow> bytes res" where
  "sign_prekey C identity_sk kind key_id alg public_key =
     rbind (ed_private identity_sk) (\<lambda>sk.
     rbind (sig_msg kind key_id alg public_key) (\<lambda>m. Inr (ed_sign C sk m)))"

definition verify_prekey ::
  "crypto \<Rightarrow> bytes \<Rightarrow> string \<Rightarrow> int \<Rightarrow> string \<Rightarrow> bytes \<Rightarrow> bytes \<Rightarrow> unit res" where
  "verify_prekey C identity_pk kind key_id alg public_key sig =
     rguard (length identity_pk \<noteq> 32) (ValueError ''An Ed25519 public key is 32 bytes long'')
       (rbind (sig_msg kind key_id alg public_key) (\<lambda>m.
        if ed_verify C identity_pk m sig then Inr () else Inl InvalidSignature))"

lemma sign_verify_prekey:
  assumes "sig_ok C" and "sizes_ok C" and "sign_prekey C sk kind kid alg pk = Inr sig"
  shows "verify_prekey C (ed_pub C sk) kind kid alg pk sig = Inr ()"
  using assms by (auto simp: sign_prekey_def verify_prekey_def ed_private_def sig_ok_def sizes_okD)

lemma sign_prekey_total:
  assumes "length sk = 32" and "is_ascii kind" and "is_ascii alg"
  shows "\<exists>sig. sign_prekey C sk kind kid alg pk = Inr sig"
  using assms by (simp add: sign_prekey_def sig_msg_def)

subsection \<open>Bundles\<close>

definition new_key_id :: "int \<Rightarrow> int" where
  "new_key_id now_ms = now_ms mod 2 ^ 31"

text \<open>The loop over the one-time prekeys; \<open>acc\<close> holds the four collections being filled.\<close>

type_synonym otk_acc = "dict \<times> json list \<times> dict \<times> json list"

fun otk_loop :: "crypto \<Rightarrow> string \<Rightarrow> bytes \<Rightarrow> int \<Rightarrow> nat \<Rightarrow> nat \<Rightarrow> nat \<Rightarrow> otk_acc \<Rightarrow> otk_acc res" where
  "otk_loop C alg identity_sk base t i 0 acc = Inr acc"
| "otk_loop C alg identity_sk base t i (Suc n) (lc, uc, lq, uq) =
     (let kid = base + int i + 1; (cpk, csk) = x25519_keygen C (t + i + 1)
      in rbind (sign_prekey C identity_sk ''curve-otk'' kid ''X25519'' cpk) (\<lambda>csig.
         rbind (kem_keygen C (t + i + 1) alg) (\<lambda>(qpk, qsk).
         rbind (sign_prekey C identity_sk ''pq-otk'' kid alg qpk) (\<lambda>qsig.
         otk_loop C alg identity_sk base t (i + 1) n
           (dset lc (show_int kid) (JObj [(''pk'', JStr (b64e cpk)), (''sk'', JStr (b64e csk))]),
            uc @ [JObj [(''key_id'', JInt kid), (''public_key'', JStr (b64e cpk)), (''signature'', JStr (b64e csig))]],
            dset lq (show_int kid) (JObj [(''alg'', JStr alg), (''pk'', JStr (b64e qpk)), (''sk'', JStr (b64e qsk))]),
            uq @ [JObj [(''key_id'', JInt kid), (''alg'', JStr alg), (''public_key'', JStr (b64e qpk)),
                        (''signature'', JStr (b64e qsig))]])))))"

definition generate_local_bundle ::
  "crypto \<Rightarrow> nat \<Rightarrow> int \<Rightarrow> bytes \<Rightarrow> bytes \<Rightarrow> string option \<Rightarrow> nat \<Rightarrow> (dict \<times> dict) res" where
  "generate_local_bundle C t now_ms identity_pk identity_sk kem_alg otk_count =
     rbind (select_kem C kem_alg) (\<lambda>alg.
     let base = new_key_id now_ms; (curve_pk, curve_sk) = x25519_keygen C t
     in rbind (kem_keygen C t alg) (\<lambda>(pq_pk, pq_sk).
        rbind (sign_prekey C identity_sk ''curve-signed'' base ''X25519'' curve_pk) (\<lambda>curve_sig.
        rbind (sign_prekey C identity_sk ''pq-signed'' base alg pq_pk) (\<lambda>pq_sig.
        rbind (otk_loop C alg identity_sk base t 0 otk_count ([], [], [], [])) (\<lambda>(lc, uc, lq, uq).
        Inr ([(''type'', JStr ''upload_pqxdh_bundle''),
              (''identity_pk'', JStr (b64e identity_pk)),
              (''curve_spk_id'', JInt base),
              (''curve_spk'', JStr (b64e curve_pk)),
              (''curve_spk_sig'', JStr (b64e curve_sig)),
              (''pq_spk_id'', JInt base),
              (''pq_kem_alg'', JStr alg),
              (''pq_spk'', JStr (b64e pq_pk)),
              (''pq_spk_sig'', JStr (b64e pq_sig)),
              (''curve_one_time_prekeys'', JArr uc),
              (''pq_one_time_prekeys'', JArr uq)],
             [(''identity_pk'', JStr (b64e identity_pk)),
              (''curve_signed'', JObj [(''key_id'', JInt base), (''pk'', JStr (b64e curve_pk)), (''sk'', JStr (b64e curve_sk))]),
              (''pq_signed'', JObj [(''key_id'', JInt base), (''alg'', JStr alg), (''pk'', JStr (b64e pq_pk)), (''sk'', JStr (b64e pq_sk))]),
              (''curve_one_time'', JObj lc),
              (''pq_one_time'', JObj lq)]))))))"

definition verify_signed ::
  "crypto \<Rightarrow> dict \<Rightarrow> bytes \<Rightarrow> string \<Rightarrow> string \<Rightarrow> json res \<Rightarrow> string \<Rightarrow> string \<Rightarrow> unit res" where
  "verify_signed C bundle identity_pk kind id_field alg key_field sig_field =
     rbind (rbind (dkey bundle id_field) py_int) (\<lambda>kid.
     rbind alg (\<lambda>a.
     rbind (rbind (dkey bundle key_field) b64d_json) (\<lambda>pk.
     rbind (rbind (dkey bundle sig_field) b64d_json) (\<lambda>sig.
     rguard (length identity_pk \<noteq> 32) (ValueError ''An Ed25519 public key is 32 bytes long'')
       (rbind (alg_text a) (\<lambda>at. verify_prekey C identity_pk kind kid at pk sig))))))"

definition verify_bundle :: "crypto \<Rightarrow> dict \<Rightarrow> unit res" where
  "verify_bundle C bundle =
     rbind (rbind (dkey bundle ''identity_pk'') b64d_json) (\<lambda>identity_pk.
     rbind (verify_signed C bundle identity_pk ''curve-signed'' ''curve_spk_id'' (Inr (JStr ''X25519''))
              ''curve_spk'' ''curve_spk_sig'') (\<lambda>_.
     rbind (verify_signed C bundle identity_pk ''pq-signed'' ''pq_spk_id'' (dkey bundle ''pq_kem_alg'')
              ''pq_spk'' ''pq_spk_sig'') (\<lambda>_.
     rbind (py_int (dget bundle ''curve_otk_id'' (JInt (- 1)))) (\<lambda>cid.
     rbind (if 0 < cid \<and> truthy (dget bundle ''curve_otk'' JNull)
            then verify_signed C bundle identity_pk ''curve-otk'' ''curve_otk_id'' (Inr (JStr ''X25519''))
                   ''curve_otk'' ''curve_otk_sig''
            else Inr ()) (\<lambda>_.
     rbind (py_int (dget bundle ''pq_otk_id'' (JInt (- 1)))) (\<lambda>qid.
     if 0 < qid \<and> truthy (dget bundle ''pq_otk'' JNull)
     then verify_signed C bundle identity_pk ''pq-otk'' ''pq_otk_id'' (dkey bundle ''pq_otk_alg'')
            ''pq_otk'' ''pq_otk_sig''
     else Inr ()))))))"

subsection \<open>Root and chain keys\<close>

definition initial_chains :: "crypto \<Rightarrow> bytes \<Rightarrow> bool \<Rightarrow> bytes \<times> bytes" where
  "initial_chains C root_key initiator =
     (let left = hkdf C root_key ''SecChat-DR-init-left'' None 32;
          right = hkdf C root_key ''SecChat-DR-init-right'' None 32
      in if initiator then (left, right) else (right, left))"

definition kdf_rk :: "crypto \<Rightarrow> bytes \<Rightarrow> bytes \<Rightarrow> bytes \<times> bytes" where
  "kdf_rk C root_key dh_out =
     (let out = hkdf C dh_out ''SecChat-DR-rk'' (Some root_key) 64 in (take 32 out, drop 32 out))"

definition kdf_ck :: "crypto \<Rightarrow> bytes \<Rightarrow> bytes \<times> bytes" where
  "kdf_ck C chain_key =
     (let out = hkdf C chain_key ''SecChat-DR-ck'' None 64 in (take 32 out, drop 32 out))"

lemma kdf_lengths:
  assumes "sizes_ok C"
  shows "length (fst (kdf_rk C r d)) = 32" "length (snd (kdf_rk C r d)) = 32"
    "length (fst (kdf_ck C k)) = 32" "length (snd (kdf_ck C k)) = 32"
    "length (hkdf C ikm info salt n) = n"
    "length (fst (initial_chains C r i)) = 32" "length (snd (initial_chains C r i)) = 32"
  by (simp_all add: kdf_rk_def kdf_ck_def hkdf_def initial_chains_def Let_def sizes_okD [OF assms])

subsection \<open>What a generated bundle contains\<close>

text \<open>
  The entries of the one-time collections after \<open>otk_loop\<close>: every uploaded public key
  is signed by the identity and has its secret in the local store under its key id.
\<close>

definition curve_entry :: "crypto \<Rightarrow> bytes \<Rightarrow> dict \<Rightarrow> int \<Rightarrow> bytes \<Rightarrow> bytes \<Rightarrow> bool" where
  "curve_entry C isk lc kid sk sig = (0 < kid \<and> length sk = 32
     \<and> sign_prekey C isk ''curve-otk'' kid ''X25519'' (x_pub C sk) = Inr sig
     \<and> map_of lc (show_int kid) = Some (JObj [(''pk'', JStr (b64e (x_pub C sk))), (''sk'', JStr (b64e sk))]))"

definition pq_entry :: "crypto \<Rightarrow> bytes \<Rightarrow> string \<Rightarrow> dict \<Rightarrow> int \<Rightarrow> bytes \<Rightarrow> bytes \<Rightarrow> bytes \<Rightarrow> bool" where
  "pq_entry C isk alg lq kid pk sk sig = (0 < kid \<and> (\<exists>i. kem_gen C alg i = Some (pk, sk))
     \<and> sign_prekey C isk ''pq-otk'' kid alg pk = Inr sig
     \<and> map_of lq (show_int kid) = Some (JObj [(''alg'', JStr alg), (''pk'', JStr (b64e pk)), (''sk'', JStr (b64e sk))]))"

definition curve_upload :: "crypto \<Rightarrow> int \<Rightarrow> bytes \<Rightarrow> bytes \<Rightarrow> json" where
  "curve_upload C kid sk sig = JObj [(''key_id'', JInt kid), (''public_key'', JStr (b64e (x_pub C sk))),
     (''signature'', JStr (b64e sig))]"

definition pq_upload :: "string \<Rightarrow> int \<Rightarrow> bytes \<Rightarrow> bytes \<Rightarrow> json" where
  "pq_upload alg kid pk sig = JObj [(''key_id'', JInt kid), (''alg'', JStr alg), (''public_key'', JStr (b64e pk)),
     (''signature'', JStr (b64e sig))]"

definition curve_list_ok :: "crypto \<Rightarrow> bytes \<Rightarrow> int \<Rightarrow> dict \<Rightarrow> json list \<Rightarrow> bool" where
  "curve_list_ok C isk m lc uc = (\<forall>e \<in> set uc. \<exists>kid sk sig. kid \<le> m \<and> curve_entry C isk lc kid sk sig
     \<and> e = curve_upload C kid sk sig)"

definition pq_list_ok :: "crypto \<Rightarrow> bytes \<Rightarrow> string \<Rightarrow> int \<Rightarrow> dict \<Rightarrow> json list \<Rightarrow> bool" where
  "pq_list_ok C isk alg m lq uq = (\<forall>e \<in> set uq. \<exists>kid pk sk sig. kid \<le> m \<and> pq_entry C isk alg lq kid pk sk sig
     \<and> e = pq_upload alg kid pk sig)"

definition otk_ok :: "crypto \<Rightarrow> string \<Rightarrow> bytes \<Rightarrow> int \<Rightarrow> otk_acc \<Rightarrow> bool" where
  "otk_ok C alg isk m acc = (case acc of (lc, uc, lq, uq) \<Rightarrow>
     curve_list_ok C isk m lc uc \<and> pq_list_ok C isk alg m lq uq)"

lemma entry_dset:
  "curve_entry C isk lc kid sk sig \<Longrightarrow> kid < kid' \<Longrightarrow> curve_entry C isk (dset lc (show_int kid') v) kid sk sig"
  "pq_entry C isk alg lq kid pk qsk sig \<Longrightarrow> kid < kid' \<Longrightarrow> pq_entry C isk alg (dset lq (show_int kid') v) kid pk qsk sig"
  by (auto simp: curve_entry_def pq_entry_def update_conv')

lemma curve_list_ok_snoc:
  assumes "curve_list_ok C isk m lc uc" and "m < kid" and "curve_entry C isk (dset lc (show_int kid) v) kid sk sig"
  shows "curve_list_ok C isk kid (dset lc (show_int kid) v) (uc @ [curve_upload C kid sk sig])"
  unfolding curve_list_ok_def
proof
  fix e
  assume "e \<in> set (uc @ [curve_upload C kid sk sig])"
  then consider "e \<in> set uc" | "e = curve_upload C kid sk sig" by auto
  then show "\<exists>kid' sk' sig'. kid' \<le> kid \<and> curve_entry C isk (dset lc (show_int kid) v) kid' sk' sig' \<and> e = curve_upload C kid' sk' sig'"
  proof cases
    case 1
    with assms(1) obtain kid' sk' sig' where "kid' \<le> m" "curve_entry C isk lc kid' sk' sig'" "e = curve_upload C kid' sk' sig'"
      unfolding curve_list_ok_def by blast
    moreover have "kid' < kid" "kid' \<le> kid" using assms(2) calculation(1) by simp_all
    ultimately show ?thesis using entry_dset by blast
  qed (use assms(3) in blast)
qed

lemma pq_list_ok_snoc:
  assumes "pq_list_ok C isk alg m lq uq" and "m < kid" and "pq_entry C isk alg (dset lq (show_int kid) v) kid pk sk sig"
  shows "pq_list_ok C isk alg kid (dset lq (show_int kid) v) (uq @ [pq_upload alg kid pk sig])"
  unfolding pq_list_ok_def
proof
  fix e
  assume "e \<in> set (uq @ [pq_upload alg kid pk sig])"
  then consider "e \<in> set uq" | "e = pq_upload alg kid pk sig" by auto
  then show "\<exists>kid' pk' sk' sig'. kid' \<le> kid \<and> pq_entry C isk alg (dset lq (show_int kid) v) kid' pk' sk' sig' \<and> e = pq_upload alg kid' pk' sig'"
  proof cases
    case 1
    with assms(1) obtain kid' pk' sk' sig' where "kid' \<le> m" "pq_entry C isk alg lq kid' pk' sk' sig'" "e = pq_upload alg kid' pk' sig'"
      unfolding pq_list_ok_def by blast
    moreover have "kid' < kid" "kid' \<le> kid" using assms(2) calculation(1) by simp_all
    ultimately show ?thesis using entry_dset(2) [of C isk alg lq kid' pk' sk' sig' kid v] by blast
  qed (use assms(3) in blast)
qed

lemma otk_loop_ok:
  assumes "otk_loop C alg isk base t i n acc = Inr acc'" and "otk_ok C alg isk (base + int i) acc"
    and "0 \<le> base" and "sizes_ok C"
  shows "otk_ok C alg isk (base + int i + int n) acc'"
  using assms(1,2)
proof (induction n arbitrary: i acc)
  case (Suc n)
  obtain lc uc lq uq where acc: "acc = (lc, uc, lq, uq)" by (cases acc)
  let ?kid = "base + int i + 1" and ?sk = "x_seed C (t + i + 1)"
  from Suc.prems(1) obtain csig qpk qsk qsig where k: "sign_prekey C isk ''curve-otk'' ?kid ''X25519'' (x_pub C ?sk) = Inr csig"
    "kem_gen C alg (t + i + 1) = Some (qpk, qsk)" "sign_prekey C isk ''pq-otk'' ?kid alg qpk = Inr qsig"
    and l: "otk_loop C alg isk base t (i + 1) n
           (dset lc (show_int ?kid) (JObj [(''pk'', JStr (b64e (x_pub C ?sk))), (''sk'', JStr (b64e ?sk))]),
            uc @ [curve_upload C ?kid ?sk csig],
            dset lq (show_int ?kid) (JObj [(''alg'', JStr alg), (''pk'', JStr (b64e qpk)), (''sk'', JStr (b64e qsk))]),
            uq @ [pq_upload alg ?kid qpk qsig]) = Inr acc'"
    by (auto simp: acc x25519_keygen_def kem_keygen_def Let_def curve_upload_def pq_upload_def)
  have new: "curve_entry C isk (dset lc (show_int ?kid) (JObj [(''pk'', JStr (b64e (x_pub C ?sk))), (''sk'', JStr (b64e ?sk))])) ?kid ?sk csig"
    "pq_entry C isk alg (dset lq (show_int ?kid) (JObj [(''alg'', JStr alg), (''pk'', JStr (b64e qpk)), (''sk'', JStr (b64e qsk))])) ?kid qpk qsk qsig"
    using k assms(3) by (auto simp: curve_entry_def pq_entry_def update_conv' sizes_okD [OF assms(4)])
  have next': "base + int (i + 1) = ?kid" by simp
  from curve_list_ok_snoc [OF _ _ new(1)] pq_list_ok_snoc [OF _ _ new(2)] Suc.prems(2)
  have "otk_ok C alg isk (base + int (i + 1)) (dset lc (show_int ?kid) (JObj [(''pk'', JStr (b64e (x_pub C ?sk))), (''sk'', JStr (b64e ?sk))]),
            uc @ [curve_upload C ?kid ?sk csig],
            dset lq (show_int ?kid) (JObj [(''alg'', JStr alg), (''pk'', JStr (b64e qpk)), (''sk'', JStr (b64e qsk))]),
            uq @ [pq_upload alg ?kid qpk qsig])"
    unfolding otk_ok_def acc next' by force
  from Suc.IH [OF l this] show ?case by (simp add: algebra_simps)
qed simp

text \<open>
  A bundle that the server assembles from an upload and the matching local store: the signed
  prekeys, and for each kind either no one-time prekey (id \<open>-1\<close>, empty key) or one of the
  uploaded ones.
\<close>

type_synonym served_curve = "(int \<times> bytes) option"
type_synonym served_pq = "(int \<times> bytes \<times> bytes) option"

definition curve_served :: "crypto \<Rightarrow> bytes \<Rightarrow> dict \<Rightarrow> dict \<Rightarrow> served_curve \<Rightarrow> bool" where
  "curve_served C isk lc b c = (case c of
     None \<Rightarrow> map_of b ''curve_otk_id'' = Some (JInt (- 1)) \<and> map_of b ''curve_otk'' = Some (JStr [])
   | Some (kid, sk) \<Rightarrow> \<exists>sig. curve_entry C isk lc kid sk sig
        \<and> map_of b ''curve_otk_id'' = Some (JInt kid) \<and> map_of b ''curve_otk'' = Some (JStr (b64e (x_pub C sk)))
        \<and> map_of b ''curve_otk_sig'' = Some (JStr (b64e sig)))"

definition pq_served :: "crypto \<Rightarrow> bytes \<Rightarrow> string \<Rightarrow> dict \<Rightarrow> dict \<Rightarrow> served_pq \<Rightarrow> bool" where
  "pq_served C isk alg lq b q = (case q of
     None \<Rightarrow> map_of b ''pq_otk_id'' = Some (JInt (- 1)) \<and> map_of b ''pq_otk'' = Some (JStr [])
   | Some (kid, pk, sk) \<Rightarrow> \<exists>sig. pq_entry C isk alg lq kid pk sk sig
        \<and> map_of b ''pq_otk_id'' = Some (JInt kid) \<and> map_of b ''pq_otk_alg'' = Some (JStr alg)
        \<and> map_of b ''pq_otk'' = Some (JStr (b64e pk)) \<and> map_of b ''pq_otk_sig'' = Some (JStr (b64e sig)))"

definition spk_served :: "crypto \<Rightarrow> bytes \<Rightarrow> dict \<Rightarrow> dict \<Rightarrow> bytes \<Rightarrow> string \<Rightarrow> bytes \<Rightarrow> bytes \<Rightarrow> bool" where
  "spk_served C isk local b csk alg qpk qsk = (length isk = 32 \<and> length csk = 32
     \<and> (\<exists>i. kem_gen C alg i = Some (qpk, qsk))
     \<and> map_of local ''identity_pk'' = Some (JStr (b64e (ed_pub C isk)))
     \<and> map_of b ''identity_pk'' = Some (JStr (b64e (ed_pub C isk)))
     \<and> (\<exists>base csig qsig.
          map_of b ''curve_spk_id'' = Some (JInt base) \<and> map_of b ''curve_spk'' = Some (JStr (b64e (x_pub C csk)))
        \<and> map_of b ''curve_spk_sig'' = Some (JStr (b64e csig))
        \<and> sign_prekey C isk ''curve-signed'' base ''X25519'' (x_pub C csk) = Inr csig
        \<and> map_of b ''pq_spk_id'' = Some (JInt base) \<and> map_of b ''pq_kem_alg'' = Some (JStr alg)
        \<and> map_of b ''pq_spk'' = Some (JStr (b64e qpk)) \<and> map_of b ''pq_spk_sig'' = Some (JStr (b64e qsig))
        \<and> sign_prekey C isk ''pq-signed'' base alg qpk = Inr qsig
        \<and> map_of local ''curve_signed'' = Some (JObj [(''key_id'', JInt base), (''pk'', JStr (b64e (x_pub C csk))), (''sk'', JStr (b64e csk))])
        \<and> map_of local ''pq_signed'' = Some (JObj [(''key_id'', JInt base), (''alg'', JStr alg), (''pk'', JStr (b64e qpk)), (''sk'', JStr (b64e qsk))])))"

text \<open>\<open>bundle_ok\<close>: everything the handshake needs to know of a served bundle.\<close>

definition bundle_ok ::
  "crypto \<Rightarrow> bytes \<Rightarrow> dict \<Rightarrow> dict \<Rightarrow> bytes \<Rightarrow> string \<Rightarrow> bytes \<Rightarrow> bytes \<Rightarrow> served_curve \<Rightarrow> served_pq \<Rightarrow> bool" where
  "bundle_ok C isk local b csk alg qpk qsk c q = (spk_served C isk local b csk alg qpk qsk
     \<and> (\<exists>lc. map_of local ''curve_one_time'' = Some (JObj lc) \<and> curve_served C isk lc b c)
     \<and> (\<exists>lq. map_of local ''pq_one_time'' = Some (JObj lq) \<and> pq_served C isk alg lq b q))"

lemma verify_signed_ok:
  assumes "sig_ok C" and "sizes_ok C" and "sign_prekey C isk kind kid alg pk = Inr sig"
    and "map_of b f1 = Some (JInt kid)" and "map_of b f2 = Some (JStr (b64e pk))" and "map_of b f3 = Some (JStr (b64e sig))"
  shows "verify_signed C b (ed_pub C isk) kind f1 (Inr (JStr alg)) f2 f3 = Inr ()"
  using sign_verify_prekey [OF assms(1-3)] assms(4-6)
  by (simp add: verify_signed_def dkey_def alg_text_def sizes_okD [OF assms(2)])

lemma verify_bundle_ok:
  assumes "crypto_ok C" and "bundle_ok C isk local b csk alg qpk qsk c q"
  shows "verify_bundle C b = Inr ()"
proof -
  note ok = crypto_okD(2,5) [OF assms(1)]
  note vs = verify_signed_ok [OF ok]
  from assms(2) have spk: "spk_served C isk local b csk alg qpk qsk"
    and c: "\<exists>lc. curve_served C isk lc b c" and q: "\<exists>lq. pq_served C isk alg lq b q"
    by (auto simp: bundle_ok_def)
  have id: "dkey b ''identity_pk'' = Inr (JStr (b64e (ed_pub C isk)))" "dkey b ''pq_kem_alg'' = Inr (JStr alg)"
    using spk by (auto simp: spk_served_def dkey_def)
  have 1: "verify_signed C b (ed_pub C isk) ''curve-signed'' ''curve_spk_id'' (Inr (JStr ''X25519'')) ''curve_spk'' ''curve_spk_sig'' = Inr ()"
    "verify_signed C b (ed_pub C isk) ''pq-signed'' ''pq_spk_id'' (Inr (JStr alg)) ''pq_spk'' ''pq_spk_sig'' = Inr ()"
    using spk by (auto simp: spk_served_def intro: vs)
  have 2: "py_int (dget b ''curve_otk_id'' (JInt (- 1))) = Inr (case c of None \<Rightarrow> - 1 | Some (kid, _) \<Rightarrow> kid)"
    "py_int (dget b ''pq_otk_id'' (JInt (- 1))) = Inr (case q of None \<Rightarrow> - 1 | Some (kid, _) \<Rightarrow> kid)"
    using c q by (auto simp: curve_served_def pq_served_def dget_def split: option.splits)
  have 3: "c = Some (kid, sk) \<Longrightarrow> verify_signed C b (ed_pub C isk) ''curve-otk'' ''curve_otk_id'' (Inr (JStr ''X25519'')) ''curve_otk'' ''curve_otk_sig'' = Inr ()" for kid sk
    using c by (auto simp: curve_served_def curve_entry_def intro: vs)
  have 4: "q = Some (kid, pk, sk) \<Longrightarrow> verify_signed C b (ed_pub C isk) ''pq-otk'' ''pq_otk_id'' (dkey b ''pq_otk_alg'') ''pq_otk'' ''pq_otk_sig'' = Inr ()" for kid pk sk
    using q by (auto simp: pq_served_def pq_entry_def dkey_def intro: vs)
  show ?thesis
    using 1 2 3 4 by (cases c; cases q) (auto simp: verify_bundle_def id)
qed

subsection \<open>Generated bundles verify\<close>

text \<open>
  What the server hands to a peer: the signed prekeys of the upload and, of each kind, one of the
  uploaded one-time prekeys or none. The server is not modelled; this is its contract.
\<close>

definition otk_field :: "json option \<Rightarrow> string \<Rightarrow> json \<Rightarrow> json" where
  "otk_field e k v = (case e of Some (JObj d) \<Rightarrow> dget d k v | _ \<Rightarrow> v)"

definition server_bundle :: "dict \<Rightarrow> json option \<Rightarrow> json option \<Rightarrow> dict" where
  "server_bundle upload c q =
     map (\<lambda>k. (k, dget upload k JNull))
       [''identity_pk'', ''curve_spk_id'', ''curve_spk'', ''curve_spk_sig'', ''pq_spk_id'', ''pq_kem_alg'', ''pq_spk'', ''pq_spk_sig'']
     @ [(''curve_otk_id'', otk_field c ''key_id'' (JInt (- 1))), (''curve_otk'', otk_field c ''public_key'' (JStr [])),
        (''curve_otk_sig'', otk_field c ''signature'' (JStr [])),
        (''pq_otk_id'', otk_field q ''key_id'' (JInt (- 1))), (''pq_otk_alg'', otk_field q ''alg'' (JStr [])),
        (''pq_otk'', otk_field q ''public_key'' (JStr [])), (''pq_otk_sig'', otk_field q ''signature'' (JStr []))]"

definition uploaded :: "dict \<Rightarrow> string \<Rightarrow> json option \<Rightarrow> bool" where
  "uploaded upload k e = (case e of None \<Rightarrow> True
     | Some j \<Rightarrow> (case dget upload k JNull of JArr xs \<Rightarrow> j \<in> set xs | _ \<Rightarrow> False))"

definition kem_ready :: "crypto \<Rightarrow> bool" where
  "kem_ready C = (oqs_present C \<and> available_kems C \<noteq> [] \<and> (\<forall>alg \<in> set (available_kems C). \<forall>t. kem_gen C alg t \<noteq> None))"

lemma select_kem_available:
  assumes "kem_ready C"
  obtains alg where "select_kem C p = Inr alg" and "alg \<in> set (available_kems C)" and "is_ascii alg"
proof -
  have all: "x \<in> set (available_kems C) \<Longrightarrow> x \<in> set ALLOWED_KEMS" for x
    by (auto simp: available_kems_def Let_def split: if_splits)
  moreover have "is_ascii x" if "x \<in> set ALLOWED_KEMS" for x
    using that by (auto simp: ALLOWED_KEMS_def)
  moreover obtain n where n: "find (\<lambda>name. name \<in> set (available_kems C)) ALLOWED_KEMS = Some n"
    using hd_in_set [of "available_kems C"] all [of "hd (available_kems C)"] assms
    by (cases "find (\<lambda>name. name \<in> set (available_kems C)) ALLOWED_KEMS") (auto simp: kem_ready_def find_None_iff)
  then have nin: "n \<in> set (available_kems C)" by (auto simp: find_Some_iff)
  moreover have "\<exists>alg \<in> set (available_kems C). select_kem C p = Inr alg"
    using assms n nin by (cases p) (auto simp: select_kem_def kem_ready_def Let_def)
  ultimately show ?thesis using that by blast
qed

lemma otk_loop_total:
  assumes "kem_ready C" and "length isk = 32" and "alg \<in> set (available_kems C)" and "is_ascii alg"
  shows "\<exists>acc'. otk_loop C alg isk base t i n acc = Inr acc'"
proof (induction n arbitrary: i acc)
  case 0
  show ?case by (cases acc) auto
next
  case (Suc n)
  obtain lc uc lq uq where acc: "acc = (lc, uc, lq, uq)" by (cases acc)
  obtain csig where "sign_prekey C isk ''curve-otk'' (base + int i + 1) ''X25519'' (x_pub C (x_seed C (t + i + 1))) = Inr csig"
    using sign_prekey_total [OF assms(2), of "''curve-otk''" "''X25519''" C "base + int i + 1" "x_pub C (x_seed C (t + i + 1))"] by auto
  moreover obtain qpk qsk where "kem_keygen C (t + i + 1) alg = Inr (qpk, qsk)"
    using assms(1,3) by (fastforce simp: kem_keygen_def kem_ready_def)
  moreover obtain qsig where "sign_prekey C isk ''pq-otk'' (base + int i + 1) alg qpk = Inr qsig"
    using sign_prekey_total [OF assms(2) _ assms(4), of "''pq-otk''" C "base + int i + 1" qpk] by auto
  ultimately show ?case using Suc.IH by (auto simp: acc x25519_keygen_def Let_def)
qed

lemma generate_local_bundle_total:
  assumes "kem_ready C" and "length isk = 32"
  shows "\<exists>upload local. generate_local_bundle C t now ipk isk p n = Inr (upload, local)"
proof -
  obtain alg where alg: "select_kem C p = Inr alg" "alg \<in> set (available_kems C)" "is_ascii alg"
    by (rule select_kem_available [OF assms(1)])
  obtain qpk qsk where "kem_keygen C t alg = Inr (qpk, qsk)"
    using assms(1) alg(2) by (fastforce simp: kem_keygen_def kem_ready_def)
  moreover obtain s1 where "sign_prekey C isk ''curve-signed'' (new_key_id now) ''X25519'' (x_pub C (x_seed C t)) = Inr s1"
    using sign_prekey_total [OF assms(2), of "''curve-signed''" "''X25519''" C "new_key_id now" "x_pub C (x_seed C t)"] by auto
  moreover obtain s2 where "sign_prekey C isk ''pq-signed'' (new_key_id now) alg qpk = Inr s2"
    using sign_prekey_total [OF assms(2) _ alg(3), of "''pq-signed''" C "new_key_id now" qpk] by auto
  moreover obtain lc uc lq uq where "otk_loop C alg isk (new_key_id now) t 0 n ([], [], [], []) = Inr (lc, uc, lq, uq)"
    using otk_loop_total [OF assms alg(2,3)] by (metis prod_cases4)
  ultimately show ?thesis using alg(1) by (simp add: generate_local_bundle_def x25519_keygen_def Let_def)
qed

lemma generated_bundle_ok:
  assumes gen: "generate_local_bundle C t now (ed_pub C isk) isk p n = Inr (upload, local)"
    and c: "uploaded upload ''curve_one_time_prekeys'' c" and q: "uploaded upload ''pq_one_time_prekeys'' q"
    and "sizes_ok C"
  shows "\<exists>csk alg qpk qsk c' q'. bundle_ok C isk local (server_bundle upload c q) csk alg qpk qsk c' q'
    \<and> (c = None \<longleftrightarrow> c' = None) \<and> (q = None \<longleftrightarrow> q' = None)"
proof -
  let ?base = "new_key_id now" and ?sk = "x_seed C t" and ?b = "server_bundle upload c q"
  from gen obtain alg qpk qsk csig qsig lc uc lq uq where
    k: "kem_gen C alg t = Some (qpk, qsk)" "sign_prekey C isk ''curve-signed'' ?base ''X25519'' (x_pub C ?sk) = Inr csig"
      "sign_prekey C isk ''pq-signed'' ?base alg qpk = Inr qsig"
    and l: "otk_loop C alg isk ?base t 0 n ([], [], [], []) = Inr (lc, uc, lq, uq)"
    and up: "upload = [(''type'', JStr ''upload_pqxdh_bundle''), (''identity_pk'', JStr (b64e (ed_pub C isk))),
              (''curve_spk_id'', JInt ?base), (''curve_spk'', JStr (b64e (x_pub C ?sk))), (''curve_spk_sig'', JStr (b64e csig)),
              (''pq_spk_id'', JInt ?base), (''pq_kem_alg'', JStr alg), (''pq_spk'', JStr (b64e qpk)), (''pq_spk_sig'', JStr (b64e qsig)),
              (''curve_one_time_prekeys'', JArr uc), (''pq_one_time_prekeys'', JArr uq)]"
    and lo: "local = [(''identity_pk'', JStr (b64e (ed_pub C isk))),
              (''curve_signed'', JObj [(''key_id'', JInt ?base), (''pk'', JStr (b64e (x_pub C ?sk))), (''sk'', JStr (b64e ?sk))]),
              (''pq_signed'', JObj [(''key_id'', JInt ?base), (''alg'', JStr alg), (''pk'', JStr (b64e qpk)), (''sk'', JStr (b64e qsk))]),
              (''curve_one_time'', JObj lc), (''pq_one_time'', JObj lq)]"
    by (auto simp: generate_local_bundle_def x25519_keygen_def kem_keygen_def Let_def)
  have "otk_ok C alg isk (?base + int 0 + int n) (lc, uc, lq, uq)"
    by (rule otk_loop_ok [OF l _ _ assms(4)]) (simp_all add: otk_ok_def curve_list_ok_def pq_list_ok_def new_key_id_def)
  then have otk: "curve_list_ok C isk (?base + int n) lc uc" "pq_list_ok C isk alg (?base + int n) lq uq"
    by (simp_all add: otk_ok_def)
  have "length isk = 32" using k(2) by (auto simp: sign_prekey_def ed_private_def)
  then have spk: "spk_served C isk local ?b ?sk alg qpk qsk"
    using k by (auto simp: spk_served_def server_bundle_def up lo dget_def sizes_okD [OF assms(4)])
  have "\<exists>c'. curve_served C isk lc ?b c' \<and> (c = None \<longleftrightarrow> c' = None)"
  proof (cases c)
    case None
    then show ?thesis by (intro exI [of _ None]) (simp add: curve_served_def server_bundle_def otk_field_def)
  next
    case (Some e)
    with c up have "e \<in> set uc" by (simp add: uploaded_def dget_def)
    with otk(1) obtain kid sk sig where "curve_entry C isk lc kid sk sig" "e = curve_upload C kid sk sig"
      unfolding curve_list_ok_def by blast
    with Some show ?thesis
      by (intro exI [of _ "Some (kid, sk)"]) (simp add: curve_served_def server_bundle_def otk_field_def curve_upload_def dget_def)
  qed
  moreover have "\<exists>q'. pq_served C isk alg lq ?b q' \<and> (q = None \<longleftrightarrow> q' = None)"
  proof (cases q)
    case None
    then show ?thesis by (intro exI [of _ None]) (simp add: pq_served_def server_bundle_def otk_field_def)
  next
    case (Some e)
    with q up have "e \<in> set uq" by (simp add: uploaded_def dget_def)
    with otk(2) obtain kid pk sk sig where "pq_entry C isk alg lq kid pk sk sig" "e = pq_upload alg kid pk sig"
      unfolding pq_list_ok_def by blast
    with Some show ?thesis
      by (intro exI [of _ "Some (kid, pk, sk)"]) (simp add: pq_served_def server_bundle_def otk_field_def pq_upload_def dget_def)
  qed
  moreover have "map_of local ''curve_one_time'' = Some (JObj lc)" "map_of local ''pq_one_time'' = Some (JObj lq)"
    by (simp_all add: lo)
  ultimately show ?thesis using spk unfolding bundle_ok_def by blast
qed

lemma nul_free_split:
  assumes "CHR 0x00 \<notin> set a" and "CHR 0x00 \<notin> set b" and "a @ CHR 0x00 # s = b @ CHR 0x00 # t"
  shows "a = b \<and> s = t"
proof -
  have "split_on (CHR 0x00) (a @ CHR 0x00 # s) = split_on (CHR 0x00) (b @ CHR 0x00 # t)" using assms(3) by simp
  then have "a = b" using assms(1,2) by (simp add: split_on_append)
  with assms(3) show ?thesis by simp
qed

lemma show_int_nul_free: "CHR 0x00 \<notin> set (show_int i)"
proof -
  have "\<not> is_digit (CHR 0x00)" by (simp add: is_digit_def)
  then have "CHR 0x00 \<notin> set (show_nat n)" for n using show_nat_digits [of n] by (auto simp: list_all_iff)
  then show ?thesis by (simp add: show_int_def)
qed

lemma toy_kem_ready: "kem_ready toy_crypto"
  by (simp add: kem_ready_def available_kems_def ALLOWED_KEMS_def toy_crypto_def)

subsection \<open>Properties\<close>

text \<open>
  A client accepts what a client generates. For every bundle made by
  \<open>generate_local_bundle\<close> and every choice of uploaded one-time prekeys the server makes (or
  none), \<open>verify_bundle\<close> succeeds on the served bundle.
\<close>

theorem generated_bundle_verifies:
  assumes "crypto_ok C" and "generate_local_bundle C t now (ed_pub C isk) isk p n = Inr (upload, local)"
    and "uploaded upload ''curve_one_time_prekeys'' c" and "uploaded upload ''pq_one_time_prekeys'' q"
  shows "verify_bundle C (server_bundle upload c q) = Inr ()"
  using generated_bundle_ok [OF assms(2-4) crypto_okD(5) [OF assms(1)]] verify_bundle_ok [OF assms(1)] by blast

theorem generated_bundle_verifies_witness:
  "\<exists>upload local. generate_local_bundle toy_crypto 3 1700000000000 (ed_pub toy_crypto (ed_seed toy_crypto 1))
       (ed_seed toy_crypto 1) None 2 = Inr (upload, local)
     \<and> verify_bundle toy_crypto (server_bundle upload None None) = Inr ()"
proof -
  obtain upload local where g: "generate_local_bundle toy_crypto 3 1700000000000 (ed_pub toy_crypto (ed_seed toy_crypto 1))
       (ed_seed toy_crypto 1) None 2 = Inr (upload, local)"
    using generate_local_bundle_total [OF toy_kem_ready, of "ed_seed toy_crypto 1"] sizes_okD(6) [OF crypto_okD(5) [OF toy_ok]] by blast
  have "verify_bundle toy_crypto (server_bundle upload None None) = Inr ()"
    by (rule generated_bundle_verifies [OF toy_ok g]) (simp_all add: uploaded_def)
  with g show ?thesis by blast
qed

text \<open>
  A prekey signature covers one key in one role. If the messages signed for two prekeys
  coincide (with no NUL in the role and algorithm names), the roles, key ids, algorithms and public
  keys coincide: a signature cannot be moved to another role, id, algorithm or key.
\<close>

theorem prekey_message_binds:
  assumes "sig_msg k1 i1 a1 p1 = Inr m" and "sig_msg k2 i2 a2 p2 = Inr m"
    and "CHR 0x00 \<notin> set k1 \<union> set k2 \<union> set a1 \<union> set a2"
  shows "k1 = k2 \<and> i1 = i2 \<and> a1 = a2 \<and> p1 = p2"
proof -
  from assms(1,2) have eq: "k1 @ CHR 0x00 # show_int i1 @ CHR 0x00 # a1 @ CHR 0x00 # p1
      = k2 @ CHR 0x00 # show_int i2 @ CHR 0x00 # a2 @ CHR 0x00 # p2"
    by (auto simp: sig_msg_def ascii_encode_def split: if_splits)
  from assms(3) have free: "CHR 0x00 \<notin> set k1" "CHR 0x00 \<notin> set k2" "CHR 0x00 \<notin> set a1" "CHR 0x00 \<notin> set a2" by auto
  note 1 = nul_free_split [OF free(1,2) eq]
  note 2 = nul_free_split [OF show_int_nul_free show_int_nul_free conjunct2 [OF 1]]
  note 3 = nul_free_split [OF free(3,4) conjunct2 [OF 2]]
  from 1 2 3 show ?thesis by simp
qed

theorem prekey_message_binds_witness:
  "''pq-otk'' = ''pq-otk'' \<and> (7::int) = 7 \<and> ''ML-KEM-768'' = ''ML-KEM-768'' \<and> ''key'' = ''key''
   \<and> (\<exists>m. sig_msg ''pq-otk'' 7 ''ML-KEM-768'' ''key'' = Inr m)"
proof -
  obtain m where m: "sig_msg ''pq-otk'' 7 ''ML-KEM-768'' ''key'' = Inr m" by (simp add: sig_msg_def)
  from prekey_message_binds [OF m m] m show ?thesis by simp
qed

end
