(* ===== verification/Ratchet.thy ===== *)
theory Ratchet
  imports Prekeys
begin

text \<open>
  The Double Ratchet of \<open>client/crypto_engine/secure_protocol.py\<close> (class
  \<open>DoubleRatchet\<close>). The object is the record \<open>double_ratchet\<close>; a method that mutates
  it is an action, which returns its outcome together with the state it leaves behind, also when it
  raises. The fresh values a method draws (an X25519 secret, nonces, the time) are the arguments
  \<open>new_sk\<close> and \<open>fr\<close>.
\<close>

record double_ratchet =
  root_key :: bytes
  dh_pk :: bytes
  dh_sk :: bytes
  remote_dh :: bytes
  ck_send :: bytes
  ck_recv :: bytes
  hk_send :: bytes
  hk_recv :: bytes
  n_send :: int
  n_recv :: int
  pn :: int
  skipped :: dict
  needs_send_ratchet :: bool
  session_id :: string
  conversation_id :: int
  my_uid :: int
  peer_uid :: int
  sender_identity_version :: int
  seen :: "string set"

record fresh =
  f_sk :: bytes
  f_ts :: int
  f_n1 :: bytes
  f_n2 :: bytes

subsection \<open>Construction and persistence\<close>

definition dr_new :: "crypto \<Rightarrow> bytes \<Rightarrow> bytes \<Rightarrow> bytes \<Rightarrow> bool \<Rightarrow> bytes \<Rightarrow> string \<Rightarrow> double_ratchet" where
  "dr_new C new_sk sid_bytes root initiator remote sid =
     (let (cks, ckr) = initial_chains C root initiator;
          hk_left = hkdf C root ''SecChat-DR-header-init-left'' None 32;
          hk_right = hkdf C root ''SecChat-DR-header-init-right'' None 32;
          (hks, hkr) = (if initiator then (hk_left, hk_right) else (hk_right, hk_left))
      in \<lparr> root_key = root, dh_pk = x_pub C new_sk, dh_sk = new_sk, remote_dh = remote,
           ck_send = cks, ck_recv = ckr, hk_send = hks, hk_recv = hkr, n_send = 0, n_recv = 0, pn = 0,
           skipped = [], needs_send_ratchet = (\<not> initiator \<and> remote \<noteq> []),
           session_id = (if sid \<noteq> [] then sid else b64e sid_bytes),
           conversation_id = 0, my_uid = 0, peer_uid = 0, sender_identity_version = 0, seen = {} \<rparr>)"

definition int_or_else :: "int \<Rightarrow> int \<Rightarrow> int" where
  "int_or_else a b = (if a \<noteq> 0 then a else b)"

definition set_context :: "int \<Rightarrow> int \<Rightarrow> int \<Rightarrow> int option \<Rightarrow> double_ratchet \<Rightarrow> double_ratchet" where
  "set_context conv me peer version s =
     (let s = s\<lparr> conversation_id := int_or_else conv (conversation_id s),
                 my_uid := int_or_else me (my_uid s), peer_uid := int_or_else peer (peer_uid s) \<rparr>
      in case version of None \<Rightarrow> s | Some v \<Rightarrow> s\<lparr> sender_identity_version := v \<rparr>)"

text \<open>\<open>sorted(xs)[-2048:]\<close>\<close>

definition newest_seen :: "string set \<Rightarrow> string list" where
  "newest_seen S = (let xs = sorted_list_of_set S in drop (length xs - 2048) xs)"

definition to_dict :: "double_ratchet \<Rightarrow> dict" where
  "to_dict s =
     [(''v'', JInt SECCHAT_SCHEMA), (''root_key'', JStr (b64e (root_key s))), (''dh_pk'', JStr (b64e (dh_pk s))),
      (''dh_sk'', JStr (b64e (dh_sk s))),
      (''remote_dh'', JStr (if remote_dh s \<noteq> [] then b64e (remote_dh s) else [])),
      (''ck_send'', JStr (b64e (ck_send s))), (''ck_recv'', JStr (b64e (ck_recv s))),
      (''hk_send'', JStr (b64e (hk_send s))), (''hk_recv'', JStr (b64e (hk_recv s))),
      (''n_send'', JInt (n_send s)), (''n_recv'', JInt (n_recv s)), (''pn'', JInt (pn s)),
      (''skipped'', JObj (skipped s)), (''needs_send_ratchet'', JBool (needs_send_ratchet s)),
      (''session_id'', JStr (session_id s)), (''conversation_id'', JInt (conversation_id s)),
      (''my_uid'', JInt (my_uid s)), (''peer_uid'', JInt (peer_uid s)),
      (''sender_identity_version'', JInt (sender_identity_version s)),
      (''seen'', JArr (map JStr (newest_seen (seen s))))]"

definition key_field :: "dict \<Rightarrow> string \<Rightarrow> bytes res" where
  "key_field d k = rbind (dkey d k) b64d_json"

definition opt_key_field :: "dict \<Rightarrow> string \<Rightarrow> bytes res" where
  "opt_key_field d k = (if truthy (dget d k JNull) then key_field d k else Inr [])"

definition int_or_0 :: "dict \<Rightarrow> string \<Rightarrow> int res" where
  "int_or_0 d k = py_int (py_or (dget d k (JInt 0)) (JInt 0))"

definition from_dict :: "dict \<Rightarrow> double_ratchet res" where
  "from_dict d =
     rbind (key_field d ''root_key'') (\<lambda>rk. rbind (key_field d ''dh_pk'') (\<lambda>pk.
     rbind (key_field d ''dh_sk'') (\<lambda>sk. rbind (opt_key_field d ''remote_dh'') (\<lambda>remote.
     rbind (key_field d ''ck_send'') (\<lambda>cks. rbind (key_field d ''ck_recv'') (\<lambda>ckr.
     rbind (opt_key_field d ''hk_send'') (\<lambda>hks. rbind (opt_key_field d ''hk_recv'') (\<lambda>hkr.
     rbind (py_int (dget d ''n_send'' (JInt 0))) (\<lambda>ns. rbind (py_int (dget d ''n_recv'' (JInt 0))) (\<lambda>nr.
     rbind (py_int (dget d ''pn'' (JInt 0))) (\<lambda>p.
     rbind (dict_of (dget d ''skipped'' (JObj []))) (\<lambda>sk'.
     rbind (int_or_0 d ''conversation_id'') (\<lambda>conv. rbind (int_or_0 d ''my_uid'') (\<lambda>me.
     rbind (int_or_0 d ''peer_uid'') (\<lambda>peer. rbind (int_or_0 d ''sender_identity_version'') (\<lambda>ver.
     rbind (as_list (dget d ''seen'' (JArr []))) (\<lambda>xs.
     Inr \<lparr> root_key = rk, dh_pk = pk, dh_sk = sk, remote_dh = remote, ck_send = cks, ck_recv = ckr,
           hk_send = hks, hk_recv = hkr, n_send = ns, n_recv = nr, pn = p, skipped = sk',
           needs_send_ratchet = truthy (dget d ''needs_send_ratchet'' (JBool False)),
           session_id = py_str (py_or (dget d ''session_id'' (JStr [])) (JStr [])),
           conversation_id = conv, my_uid = me, peer_uid = peer, sender_identity_version = ver,
           seen = set (map py_str (filter truthy xs)) \<rparr>)))))))))))))))))"

subsection \<open>Headers\<close>

definition canonical :: "json \<Rightarrow> bytes" where
  "canonical obj = dumps_compact (jsort obj)"

definition header_key :: "crypto \<Rightarrow> bytes \<Rightarrow> bytes \<Rightarrow> bytes" where
  "header_key C root chain = hkdf C (root @ chain) ''SecChat-DR-header-chain'' None 32"

definition dr_header :: "double_ratchet \<Rightarrow> int \<Rightarrow> dict" where
  "dr_header s n =
     [(''v'', JInt SECCHAT_SCHEMA), (''sid'', JStr (session_id s)), (''conversation_id'', JInt (conversation_id s)),
      (''sender_uid'', JInt (my_uid s)), (''recipient_uid'', JInt (peer_uid s)),
      (''sender_identity_version'', JInt (sender_identity_version s)), (''dh'', JStr (b64e (dh_pk s))),
      (''pn'', JInt (pn s)), (''n'', JInt n)]"

definition message_id :: "dict \<Rightarrow> string res" where
  "message_id header =
     rbind (py_int (dget header ''n'' (JInt 0))) (\<lambda>n.
     Inr (py_str (dget header ''sid'' (JStr [])) @ '':'' @ py_str (dget header ''dh'' (JStr [])) @ '':'' @ show_int n))"

definition remember_seen :: "string \<Rightarrow> double_ratchet \<Rightarrow> double_ratchet" where
  "remember_seen mid s =
     (let S = insert mid (seen s)
      in s\<lparr> seen := (if 4096 < card S then set (newest_seen S) else S) \<rparr>)"

definition AAD_HEADER :: bytes where
  "AAD_HEADER = ''SecChat-DR-encrypted-header''"

definition read_header :: "crypto \<Rightarrow> double_ratchet \<Rightarrow> dict \<Rightarrow> json res" where
  "read_header C s obj =
     (let visible = (case dget obj ''h'' JNull of JObj d \<Rightarrow> d | _ \<Rightarrow> []);
          encrypted = dget obj ''eh'' JNull;
          plain = rbind (py_int (dget obj ''v'' (JInt SECCHAT_SCHEMA))) (\<lambda>v.
            rbind (py_int (py_or (dget obj ''conversation_id'' (JInt (conversation_id s))) (JInt 0))) (\<lambda>conv.
            rbind (py_int (py_or (dget obj ''sender_uid'' (JInt (peer_uid s))) (JInt 0))) (\<lambda>su.
            rbind (py_int (py_or (dget obj ''recipient_uid'' (JInt (my_uid s))) (JInt 0))) (\<lambda>ru.
            rbind (int_or_0 obj ''sender_identity_version'') (\<lambda>ver.
            rbind (dkey obj ''dh'') (\<lambda>dh.
            rbind (py_int (dget obj ''pn'' (JInt 0))) (\<lambda>p.
            rbind (rbind (dkey obj ''n'') py_int) (\<lambda>n.
            Inr (JObj [(''v'', JInt v),
              (''sid'', JStr (py_str (py_or (dget obj ''sid'' (JStr (session_id s))) (JStr (session_id s))))),
              (''conversation_id'', JInt conv), (''sender_uid'', JInt su), (''recipient_uid'', JInt ru),
              (''sender_identity_version'', JInt ver), (''dh'', dh), (''pn'', JInt p), (''n'', JInt n)])))))))))
      in if truthy encrypted \<and> hk_recv s \<noteq> [] then
           (case rbind (aead_decrypt C (hk_recv s) encrypted AAD_HEADER) (\<lambda>header.
                   rguard (visible \<noteq> [] \<and> \<not> py_eq header (JObj visible))
                     (ValueError ''Double Ratchet header copy mismatch'') (Inr header)) of
              Inr header \<Rightarrow> Inr header
            | Inl e \<Rightarrow> if visible = [] then Inl e else Inr (JObj visible))
         else if visible \<noteq> [] then Inr (JObj visible)
         else plain)"

subsection \<open>Sending\<close>

definition maybe_send_ratchet :: "crypto \<Rightarrow> bytes \<Rightarrow> (double_ratchet, unit) act" where
  "maybe_send_ratchet C new_sk s =
     (if \<not> needs_send_ratchet s \<or> remote_dh s = [] then (Inr (), s)
      else let s = s\<lparr> pn := n_send s, dh_pk := x_pub C new_sk, dh_sk := new_sk \<rparr>
           in case x25519_dh C (dh_sk s) (remote_dh s) of
                Inl e \<Rightarrow> (Inl e, s)
              | Inr d \<Rightarrow>
                  let (rk, ck) = kdf_rk C (root_key s) d
                  in (Inr (), s\<lparr> root_key := rk, ck_send := ck, hk_send := header_key C rk ck, n_send := 0,
                                 needs_send_ratchet := False \<rparr>))"

definition dr_wire :: "string \<Rightarrow> dict \<Rightarrow> string \<Rightarrow> string \<Rightarrow> string" where
  "dr_wire sid header eh ct =
     PREFIX_DR @ json_b64 (JObj [(''v'', JInt SECCHAT_SCHEMA), (''sid'', JStr sid), (''h'', JObj header),
       (''eh'', JStr eh), (''ct'', JStr ct)])"

definition dr_encrypt :: "crypto \<Rightarrow> fresh \<Rightarrow> string \<Rightarrow> (double_ratchet, string) act" where
  "dr_encrypt C fr plaintext =
     sbind (maybe_send_ratchet C (f_sk fr)) (\<lambda>_ s.
       let (mk, ck) = kdf_ck C (ck_send s);
           n = n_send s;
           s = s\<lparr> ck_send := ck, n_send := n + 1 \<rparr>;
           header = dr_header s n
       in (rbind (aead_encrypt C (f_n1 fr) mk (JObj [(''ts'', JInt (f_ts fr)), (''body'', JStr plaintext)])
                    (canonical (JObj header))) (\<lambda>ct.
           rbind (aead_encrypt C (f_n2 fr) (hk_send s) (JObj header) AAD_HEADER) (\<lambda>eh.
           Inr (dr_wire (session_id s) header eh ct))), s))"

subsection \<open>Receiving\<close>

text \<open>The loop of \<open>_skip_until\<close>, which runs \<open>until_n - n_recv\<close> times.\<close>

fun skip_loop :: "crypto \<Rightarrow> nat \<Rightarrow> double_ratchet \<Rightarrow> double_ratchet" where
  "skip_loop C 0 s = s"
| "skip_loop C (Suc k) s =
     (let (mk, ck) = kdf_ck C (ck_recv s)
      in skip_loop C k (s\<lparr> ck_recv := ck,
           skipped := dset (skipped s) (b64e (remote_dh s) @ '':'' @ show_int (n_recv s)) (JStr (b64e mk)),
           n_recv := n_recv s + 1 \<rparr>))"

definition skip_until :: "crypto \<Rightarrow> int \<Rightarrow> (double_ratchet, unit) act" where
  "skip_until C until_n s =
     (let gap = until_n - n_recv s
      in if gap < 0 then (Inr (), s)
         else if MAX_SKIP_KEYS < gap \<or> MAX_SKIP_KEYS < int (length (skipped s)) + gap
         then (Inl (ValueError ''Too many skipped message keys''), s)
         else (Inr (), skip_loop C (nat gap) s))"

definition dh_ratchet :: "crypto \<Rightarrow> bytes \<Rightarrow> bytes \<Rightarrow> (double_ratchet, unit) act" where
  "dh_ratchet C new_sk new_remote s =
     (let s = s\<lparr> pn := n_send s, n_send := 0, n_recv := 0, remote_dh := new_remote \<rparr>
      in case x25519_dh C (dh_sk s) (remote_dh s) of
           Inl e \<Rightarrow> (Inl e, s)
         | Inr d \<Rightarrow>
             let (rk, ck) = kdf_rk C (root_key s) d;
                 s = s\<lparr> root_key := rk, ck_recv := ck, hk_recv := header_key C rk ck,
                        dh_pk := x_pub C new_sk, dh_sk := new_sk \<rparr>
             in case x25519_dh C (dh_sk s) (remote_dh s) of
                  Inl e \<Rightarrow> (Inl e, s)
                | Inr d' \<Rightarrow>
                    let (rk', ck') = kdf_rk C (root_key s) d'
                    in (Inr (), s\<lparr> root_key := rk', ck_send := ck', hk_send := header_key C rk' ck' \<rparr>))"

definition open_body :: "crypto \<Rightarrow> dict \<Rightarrow> bytes \<Rightarrow> bytes \<Rightarrow> string res" where
  "open_body C obj mk aad =
     rbind (dkey obj ''ct'') (\<lambda>ct.
     rbind (aead_decrypt C mk ct aad) (\<lambda>j.
     rbind (as_dict j) (\<lambda>d. Inr (py_str (dget d ''body'' (JStr []))))))"

definition check_header :: "double_ratchet \<Rightarrow> dict \<Rightarrow> unit res" where
  "check_header s header =
     rguard (session_id s \<noteq> [] \<and> dget header ''sid'' JNull \<noteq> JStr (session_id s))
       (ValueError ''Double Ratchet session mismatch'')
     (rbind (if conversation_id s \<noteq> 0 then int_or_0 header ''conversation_id'' else Inr 0) (\<lambda>conv.
      rguard (conversation_id s \<noteq> 0 \<and> conv \<noteq> conversation_id s)
        (ValueError ''Double Ratchet conversation mismatch'')
      (rbind (if my_uid s \<noteq> 0 then int_or_0 header ''recipient_uid'' else Inr 0) (\<lambda>ru.
       rguard (my_uid s \<noteq> 0 \<and> ru \<noteq> my_uid s) (ValueError ''Double Ratchet recipient mismatch'') (Inr ())))))"

definition unwrap_wire :: "string \<Rightarrow> string \<Rightarrow> dict res" where
  "unwrap_wire prefix wire =
     rbind (json_unb64 (if starts_with wire prefix then drop (length prefix) wire else wire)) as_dict"

definition dr_decrypt :: "crypto \<Rightarrow> bytes \<Rightarrow> string \<Rightarrow> (double_ratchet, string) act" where
  "dr_decrypt C new_sk wire =
     sbind (slift (unwrap_wire PREFIX_DR wire)) (\<lambda>obj.
     sbind (\<lambda>s. (rbind (read_header C s obj) as_dict, s)) (\<lambda>header.
     sbind (\<lambda>s. (check_header s header, s)) (\<lambda>_.
     sbind (slift (rbind (dkey header ''dh'') (\<lambda>j. b64d (py_str j)))) (\<lambda>remote.
     sbind (slift (rbind (dkey header ''n'') py_int)) (\<lambda>n.
     sbind (slift (message_id header)) (\<lambda>mid.
     sbind (\<lambda>s. (rguard (mid \<in> seen s) (ValueError ''Duplicate/replayed Double Ratchet message'') (Inr ()), s)) (\<lambda>_.
     let kid = b64e remote @ '':'' @ show_int n; aad = canonical (JObj header)
     in sbind (sget (\<lambda>s. map_of (skipped s) kid)) (\<lambda>hit. case hit of
          Some key \<Rightarrow>
            sbind (smod (\<lambda>s. s\<lparr> skipped := dpop (skipped s) kid \<rparr>)) (\<lambda>_.
            sbind (slift (rbind (b64d_json key) (\<lambda>mk. open_body C obj mk aad))) (\<lambda>plain.
            sbind (smod (remember_seen mid)) (\<lambda>_. sret plain)))
        | None \<Rightarrow>
            sbind (\<lambda>s. if remote_dh s = [] \<or> remote \<noteq> remote_dh s then dh_ratchet C new_sk remote s else (Inr (), s)) (\<lambda>_.
            sbind (skip_until C n) (\<lambda>_.
            sbind (sget (\<lambda>s. fst (kdf_ck C (ck_recv s)))) (\<lambda>mk.
            sbind (smod (\<lambda>s. s\<lparr> ck_recv := snd (kdf_ck C (ck_recv s)), n_recv := n_recv s + 1 \<rparr>)) (\<lambda>_.
            sbind (slift (open_body C obj mk aad)) (\<lambda>plain.
            sbind (smod (remember_seen mid)) (\<lambda>_. sret plain))))))))))))))"

subsection \<open>Sealed messages\<close>

lemma num_eq_refl [simp]: "num_eq x x"
  by (cases x) (simp add: num_eq_def Let_def)

lemma py_eq_header: "py_eq (JObj (dr_header s n)) (JObj (dr_header s n))"
  by (simp add: py_eq.simps dr_header_def num_parts_def)

lemma dr_header_cong [simp]:
  "dr_header (s\<lparr> ck_send := a, n_send := b \<rparr>) n = dr_header s n"
  by (simp add: dr_header_def)

lemma header_wire_ok: "utf8_valid (session_id s) \<Longrightarrow> wire_ok (JObj (dr_header s n))"
  by (simp add: dr_header_def ascii_utf8)

lemma header_nonempty [simp]: "dr_header s n \<noteq> []"
  by (simp add: dr_header_def)

definition body_obj :: "fresh \<Rightarrow> string \<Rightarrow> json" where
  "body_obj fr p = JObj [(''ts'', JInt (f_ts fr)), (''body'', JStr p)]"

definition sealed_ct :: "crypto \<Rightarrow> fresh \<Rightarrow> bytes \<Rightarrow> dict \<Rightarrow> string \<Rightarrow> string" where
  "sealed_ct C fr mk header p =
     b64e (f_n1 fr @ aes_enc C mk (f_n1 fr) (dumps_compact (body_obj fr p)) (canonical (JObj header)))"

definition sealed_eh :: "crypto \<Rightarrow> fresh \<Rightarrow> bytes \<Rightarrow> dict \<Rightarrow> string" where
  "sealed_eh C fr hk header = b64e (f_n2 fr @ aes_enc C hk (f_n2 fr) (dumps_compact (JObj header)) AAD_HEADER)"

definition sealed_obj :: "crypto \<Rightarrow> fresh \<Rightarrow> bytes \<Rightarrow> bytes \<Rightarrow> double_ratchet \<Rightarrow> int \<Rightarrow> string \<Rightarrow> dict" where
  "sealed_obj C fr mk hk s n p =
     [(''v'', JInt SECCHAT_SCHEMA), (''sid'', JStr (session_id s)), (''h'', JObj (dr_header s n)),
      (''eh'', JStr (sealed_eh C fr hk (dr_header s n))), (''ct'', JStr (sealed_ct C fr mk (dr_header s n) p))]"

definition sealed :: "crypto \<Rightarrow> fresh \<Rightarrow> bytes \<Rightarrow> bytes \<Rightarrow> double_ratchet \<Rightarrow> int \<Rightarrow> string \<Rightarrow> string" where
  "sealed C fr mk hk s n p = PREFIX_DR @ json_b64 (JObj (sealed_obj C fr mk hk s n p))"

definition fresh_ok :: "fresh \<Rightarrow> bool" where
  "fresh_ok fr = (length (f_n1 fr) = 12 \<and> length (f_n2 fr) = 12 \<and> length (f_sk fr) = 32)"

lemma encrypt_in_chain:
  assumes "sizes_ok C" and "fresh_ok fr" and "length (hk_send s) = 32"
    and "\<not> needs_send_ratchet s \<or> remote_dh s = []"
  shows "dr_encrypt C fr p s =
    (Inr (sealed C fr (fst (kdf_ck C (ck_send s))) (hk_send s) s (n_send s) p),
     s\<lparr> ck_send := snd (kdf_ck C (ck_send s)), n_send := n_send s + 1 \<rparr>)"
proof -
  obtain mk ck where k: "kdf_ck C (ck_send s) = (mk, ck)" by (cases "kdf_ck C (ck_send s)")
  have "length mk = 32" using kdf_lengths(3) [OF assms(1), of "ck_send s"] k by simp
  with assms k show ?thesis
    by (simp add: dr_encrypt_def sbind_def maybe_send_ratchet_def Let_def aead_encrypt_32 fresh_ok_def sealed_def
        sealed_obj_def sealed_eh_def sealed_ct_def dr_wire_def body_obj_def)
qed

lemma unwrap_sealed:
  assumes "utf8_valid (session_id s)" and "utf8_valid p"
  shows "unwrap_wire PREFIX_DR (sealed C fr mk hk s n p) = Inr (sealed_obj C fr mk hk s n p)"
proof -
  have "wire_ok (JObj (sealed_obj C fr mk hk s n p))"
    using header_wire_ok [OF assms(1), of n] assms
    by (auto simp: sealed_obj_def sealed_eh_def sealed_ct_def ascii_utf8)
  then show ?thesis by (simp add: unwrap_wire_def sealed_def)
qed

lemma read_header_sealed:
  assumes "aead_ok C" and "fresh_ok fr" and "length hk = 32" and "utf8_valid (session_id s)"
    and "hk_recv r = hk \<or> aead_bound C"
  shows "read_header C r (sealed_obj C fr mk hk s n p) = Inr (JObj (dr_header s n))"
proof -
  let ?h = "dr_header s n" and ?o = "sealed_obj C fr mk hk s n p"
  have f: "dget ?o ''h'' JNull = JObj ?h" "dget ?o ''eh'' JNull = JStr (sealed_eh C fr hk ?h)"
    by (simp_all add: sealed_obj_def dget_def)
  have n12: "length (f_n2 fr) = 12" using assms(2) by (simp add: fresh_ok_def)
  have enc: "aead_encrypt C (f_n2 fr) hk (JObj ?h) AAD_HEADER = Inr (sealed_eh C fr hk ?h)"
    using n12 assms(3) by (simp add: aead_encrypt_32 sealed_eh_def)
  show ?thesis
  proof (cases "hk_recv r = hk")
    case True
    with aead_roundtrip [OF assms(1) n12 header_wire_ok [OF assms(4)] enc] assms(3) show ?thesis
      by (auto simp: read_header_def f Let_def py_eq_header)
  next
    case False
    with assms(5) have "aes_dec C (hk_recv r) (f_n2 fr) (aes_enc C hk (f_n2 fr) (dumps_compact (JObj ?h)) AAD_HEADER) AAD_HEADER = None"
      unfolding aead_bound_def by blast
    then have "\<exists>e. aead_decrypt C (hk_recv r) (JStr (sealed_eh C fr hk ?h)) AAD_HEADER = Inl e"
      using n12 by (simp add: aead_decrypt_def sealed_eh_def aesgcm_decrypt_def rguard_def)
    then show ?thesis by (auto simp: read_header_def f Let_def)
  qed
qed

lemma open_sealed:
  assumes "aead_ok C" and "fresh_ok fr" and "length mk = 32" and "utf8_valid p"
  shows "open_body C (sealed_obj C fr mk hk s n p) mk (canonical (JObj (dr_header s n))) = Inr p"
proof -
  have enc: "aead_encrypt C (f_n1 fr) mk (body_obj fr p) (canonical (JObj (dr_header s n)))
      = Inr (sealed_ct C fr mk (dr_header s n) p)"
    using assms(2,3) by (simp add: aead_encrypt_32 sealed_ct_def fresh_ok_def)
  have "wire_ok (body_obj fr p)" using assms(4) by (simp add: body_obj_def)
  from aead_roundtrip [OF assms(1) _ this enc] assms(2) show ?thesis
    by (simp add: open_body_def sealed_obj_def fresh_ok_def body_obj_def dget_def)
qed

subsection \<open>Receiving a sealed message\<close>

definition mid_of :: "double_ratchet \<Rightarrow> int \<Rightarrow> string" where
  "mid_of s n = session_id s @ '':'' @ b64e (dh_pk s) @ '':'' @ show_int n"

definition kid_of :: "bytes \<Rightarrow> int \<Rightarrow> string" where
  "kid_of dh n = b64e dh @ '':'' @ show_int n"

text \<open>The routing fields of the sender's header match what the receiver expects.\<close>

definition addressed :: "double_ratchet \<Rightarrow> double_ratchet \<Rightarrow> bool" where
  "addressed s r = (session_id r = session_id s \<and> conversation_id r = conversation_id s \<and> my_uid r = peer_uid s)"

lemma check_header_addressed: "addressed s r \<Longrightarrow> check_header r (dr_header s n) = Inr ()"
  by (simp add: check_header_def dr_header_def addressed_def dget_def int_or_0_def)

lemma header_fields:
  "dkey (dr_header s n) ''dh'' = Inr (JStr (b64e (dh_pk s)))" "dkey (dr_header s n) ''n'' = Inr (JInt n)"
  "message_id (dr_header s n) = Inr (mid_of s n)"
  by (simp_all add: dr_header_def message_id_def mid_of_def dget_def)

definition can_read :: "crypto \<Rightarrow> double_ratchet \<Rightarrow> double_ratchet \<Rightarrow> bytes \<Rightarrow> bool" where
  "can_read C s r hk = (crypto_ok C \<and> addressed s r \<and> utf8_valid (session_id s) \<and> length hk = 32
     \<and> (hk_recv r = hk \<or> aead_bound C))"

lemma can_readD:
  assumes "can_read C s r hk"
  shows "aead_ok C" "sizes_ok C" "dh_ok C" "addressed s r" "utf8_valid (session_id s)" "length hk = 32" "hk_recv r = hk \<or> aead_bound C"
  using assms by (auto simp: can_read_def dest: crypto_okD)

lemma decrypt_duplicate:
  assumes "can_read C s r hk" and "fresh_ok fr" and "utf8_valid p" and "mid_of s n \<in> seen r"
  shows "dr_decrypt C new_sk (sealed C fr mk hk s n p) r =
    (Inl (ValueError ''Duplicate/replayed Double Ratchet message''), r)"
  using can_readD [OF assms(1)] assms(2-4) read_header_sealed [OF _ assms(2), of C hk s r mk n p]
  by (simp add: dr_decrypt_def unwrap_sealed check_header_addressed header_fields sbind_def)

lemma decrypt_skipped_key:
  assumes "can_read C s r hk" and "fresh_ok fr" and "utf8_valid p" and "mid_of s n \<notin> seen r"
    and "map_of (skipped r) (kid_of (dh_pk s) n) = Some (JStr (b64e mk))" and "length mk = 32"
  shows "dr_decrypt C new_sk (sealed C fr mk hk s n p) r =
    (Inr p, remember_seen (mid_of s n) (r\<lparr> skipped := dpop (skipped r) (kid_of (dh_pk s) n) \<rparr>))"
  using can_readD [OF assms(1)] assms(2-6) read_header_sealed [OF _ assms(2), of C hk s r mk n p]
  by (simp add: dr_decrypt_def unwrap_sealed check_header_addressed header_fields sbind_def kid_of_def open_sealed Let_def)

text \<open>The rest of \<open>decrypt\<close> once the receiving chain is the message's.\<close>

definition take_message :: "crypto \<Rightarrow> string \<Rightarrow> int \<Rightarrow> double_ratchet \<Rightarrow> double_ratchet" where
  "take_message C mid n r =
     (let r = skip_loop C (nat (n - n_recv r)) r
      in remember_seen mid (r\<lparr> ck_recv := snd (kdf_ck C (ck_recv r)), n_recv := n_recv r + 1 \<rparr>))"

fun chain_key :: "crypto \<Rightarrow> bytes \<Rightarrow> nat \<Rightarrow> bytes" where
  "chain_key C ck 0 = ck"
| "chain_key C ck (Suc k) = chain_key C (snd (kdf_ck C ck)) k"

definition msg_key :: "crypto \<Rightarrow> bytes \<Rightarrow> nat \<Rightarrow> bytes" where
  "msg_key C ck k = fst (kdf_ck C (chain_key C ck k))"

lemma chain_key_step: "snd (kdf_ck C (chain_key C ck k)) = chain_key C ck (Suc k)"
  by (induction k arbitrary: ck) auto

lemma chain_key_add: "chain_key C (chain_key C ck a) b = chain_key C ck (a + b)"
  by (induction a arbitrary: ck) auto

lemma skip_loop_fields [simp]:
  "ck_recv (skip_loop C k r) = chain_key C (ck_recv r) k" "n_recv (skip_loop C k r) = n_recv r + int k"
  "remote_dh (skip_loop C k r) = remote_dh r" "seen (skip_loop C k r) = seen r"
  "root_key (skip_loop C k r) = root_key r" "dh_pk (skip_loop C k r) = dh_pk r" "dh_sk (skip_loop C k r) = dh_sk r"
  "ck_send (skip_loop C k r) = ck_send r" "hk_send (skip_loop C k r) = hk_send r" "hk_recv (skip_loop C k r) = hk_recv r"
  "n_send (skip_loop C k r) = n_send r" "pn (skip_loop C k r) = pn r" "session_id (skip_loop C k r) = session_id r"
  "conversation_id (skip_loop C k r) = conversation_id r" "my_uid (skip_loop C k r) = my_uid r"
  "peer_uid (skip_loop C k r) = peer_uid r" "needs_send_ratchet (skip_loop C k r) = needs_send_ratchet r"
  "sender_identity_version (skip_loop C k r) = sender_identity_version r"
  by (induction k arbitrary: r) (simp_all add: Let_def split: prod.splits)

lemma decrypt_in_chain:
  assumes "can_read C s r hk" and "fresh_ok fr" and "utf8_valid p" and "mid_of s n \<notin> seen r"
    and "map_of (skipped r) (kid_of (dh_pk s) n) = None"
    and "remote_dh r = dh_pk s" and "dh_pk s \<noteq> []" and "n_recv r \<le> n"
    and "int (length (skipped r)) + (n - n_recv r) \<le> MAX_SKIP_KEYS"
    and "mk = msg_key C (ck_recv r) (nat (n - n_recv r))"
  shows "dr_decrypt C new_sk (sealed C fr mk hk s n p) r = (Inr p, take_message C (mid_of s n) n r)"
proof -
  have "skip_until C n r = (Inr (), skip_loop C (nat (n - n_recv r)) r)"
    using assms(8,9) by (simp add: skip_until_def)
  moreover have "length mk = 32"
    using kdf_lengths(3) can_readD(2) [OF assms(1)] by (simp add: assms(10) msg_key_def)
  ultimately show ?thesis
    using can_readD [OF assms(1)] assms(2-7,10) read_header_sealed [OF _ assms(2), of C hk s r mk n p]
    by (simp add: dr_decrypt_def unwrap_sealed check_header_addressed header_fields sbind_def kid_of_def open_sealed
        take_message_def msg_key_def Let_def)
qed

lemma decrypt_new_chain:
  assumes "can_read C s r hk" and "fresh_ok fr" and "utf8_valid p" and "mid_of s n \<notin> seen r"
    and "map_of (skipped r) (kid_of (dh_pk s) n) = None"
    and "remote_dh r = [] \<or> remote_dh r \<noteq> dh_pk s"
    and "dh_ratchet C new_sk (dh_pk s) r = (Inr (), r')" and "0 \<le> n"
    and "int (length (skipped r)) + n \<le> MAX_SKIP_KEYS"
    and "mk = msg_key C (ck_recv r') (nat n)"
  shows "dr_decrypt C new_sk (sealed C fr mk hk s n p) r = (Inr p, take_message C (mid_of s n) n r')"
proof -
  have r': "n_recv r' = 0" "skipped r' = skipped r"
    using assms(7) by (auto simp: dh_ratchet_def Let_def split: sum.splits prod.splits)
  then have "skip_until C n r' = (Inr (), skip_loop C (nat n) r')"
    using assms(8,9) by (simp add: skip_until_def)
  moreover have "length mk = 32"
    using kdf_lengths(3) can_readD(2) [OF assms(1)] by (simp add: assms(10) msg_key_def)
  moreover have "remote_dh r = [] \<or> dh_pk s \<noteq> remote_dh r" using assms(6) by auto
  ultimately show ?thesis
    using can_readD [OF assms(1)] assms(2-5,7,10) r' read_header_sealed [OF _ assms(2), of C hk s r mk n p]
    by (simp add: dr_decrypt_def unwrap_sealed check_header_addressed header_fields sbind_def kid_of_def open_sealed
        take_message_def msg_key_def Let_def)
qed

subsection \<open>Message ids\<close>

lemma colon_free_split:
  assumes "CHR '':'' \<notin> set a" and "CHR '':'' \<notin> set b" and "a @ '':'' @ s = b @ '':'' @ t"
  shows "a = b \<and> s = t"
proof -
  have "split_on (CHR '':'') (a @ CHR '':'' # s) = split_on (CHR '':'') (b @ CHR '':'' # t)" using assms(3) by simp
  then have "a = b" using assms(1,2) by (simp add: split_on_append)
  with assms(3) show ?thesis by simp
qed

lemma b64e_colon_free: "CHR '':'' \<notin> set (b64e b)"
proof -
  have "c \<noteq> CHR '':''" if "c \<in> set (b64_body b)" for c
  proof -
    from that b64_body_chars [of b] obtain i where "i < 64" "c = sextet_char i"
      by (auto simp: list_all_iff b64_char_def)
    then have "sextet_val c = Some i" by simp
    moreover have "sextet_val (CHR '':'') = None" by (simp add: sextet_val_def)
    ultimately show ?thesis by auto
  qed
  then show ?thesis by (auto simp: b64e_body to_urlsafe_def replace_char_def)
qed

lemma kid_of_inject [simp]: "kid_of d n = kid_of d' n' \<longleftrightarrow> d = d' \<and> n = n'"
proof
  assume "kid_of d n = kid_of d' n'"
  from colon_free_split [OF b64e_colon_free b64e_colon_free this [unfolded kid_of_def]]
  show "d = d' \<and> n = n'" by simp
qed simp

lemma mid_of_kid: "mid_of s n = session_id s @ '':'' @ kid_of (dh_pk s) n"
  by (simp add: mid_of_def kid_of_def)

lemma newest_seen_subset: "finite S \<Longrightarrow> set (newest_seen S) \<subseteq> S"
  by (auto simp: newest_seen_def Let_def dest: in_set_dropD)

lemma remember_seen_fields [simp]:
  "ck_recv (remember_seen m r) = ck_recv r" "n_recv (remember_seen m r) = n_recv r"
  "remote_dh (remember_seen m r) = remote_dh r" "skipped (remember_seen m r) = skipped r"
  "root_key (remember_seen m r) = root_key r" "dh_pk (remember_seen m r) = dh_pk r" "dh_sk (remember_seen m r) = dh_sk r"
  "ck_send (remember_seen m r) = ck_send r" "hk_send (remember_seen m r) = hk_send r" "hk_recv (remember_seen m r) = hk_recv r"
  "n_send (remember_seen m r) = n_send r" "pn (remember_seen m r) = pn r" "session_id (remember_seen m r) = session_id r"
  "conversation_id (remember_seen m r) = conversation_id r" "my_uid (remember_seen m r) = my_uid r"
  "peer_uid (remember_seen m r) = peer_uid r" "needs_send_ratchet (remember_seen m r) = needs_send_ratchet r"
  "sender_identity_version (remember_seen m r) = sender_identity_version r"
  by (simp_all add: remember_seen_def Let_def)

lemma seen_remember: "finite (seen r) \<Longrightarrow> seen (remember_seen m r) \<subseteq> insert m (seen r)"
  using newest_seen_subset [of "insert m (seen r)"] by (simp add: remember_seen_def Let_def)

lemma finite_remember: "finite (seen r) \<Longrightarrow> finite (seen (remember_seen m r))"
  by (rule finite_subset [OF seen_remember]) auto

text \<open>
  \<open>seen_ok U r\<close>: every remembered id names a ratchet key of \<open>U\<close>, and for the present
  receiving chain a number already passed.
\<close>

definition seen_ok :: "bytes set \<Rightarrow> double_ratchet \<Rightarrow> bool" where
  "seen_ok U r = (finite (seen r) \<and> (\<forall>m \<in> seen r. \<exists>d n. m = session_id r @ '':'' @ kid_of d n
     \<and> d \<in> U \<and> (d = remote_dh r \<longrightarrow> n < n_recv r)))"

lemma seen_ok_in_chain:
  assumes "seen_ok U r" and "session_id r = session_id s" and "dh_pk s = remote_dh r" and "n_recv r \<le> n"
  shows "mid_of s n \<notin> seen r"
  using assms unfolding seen_ok_def mid_of_kid by force

lemma seen_ok_new_chain:
  assumes "seen_ok U r" and "session_id r = session_id s" and "dh_pk s \<notin> U"
  shows "mid_of s n \<notin> seen r"
  using assms unfolding seen_ok_def mid_of_kid by force

lemma seen_ok_remember:
  assumes "seen_ok U r" and "session_id r = session_id s" and "dh_pk s \<in> U'" and "U \<subseteq> U'"
    and "dh_pk s = remote_dh r" and "n < n_recv r"
  shows "seen_ok U' (remember_seen (mid_of s n) r)"
proof -
  have "finite (seen r)" using assms(1) by (simp add: seen_ok_def)
  then have "seen (remember_seen (mid_of s n) r) \<subseteq> insert (mid_of s n) (seen r)" by (rule seen_remember)
  moreover have "\<exists>d k. m = session_id r @ '':'' @ kid_of d k \<and> d \<in> U' \<and> (d = remote_dh r \<longrightarrow> k < n_recv r)"
    if "m \<in> insert (mid_of s n) (seen r)" for m
    using that
  proof
    assume "m = mid_of s n"
    with assms show ?thesis unfolding mid_of_kid by (intro exI [of _ "dh_pk s"] exI [of _ n]) auto
  next
    assume "m \<in> seen r"
    with assms(1,4) show ?thesis unfolding seen_ok_def by blast
  qed
  ultimately show ?thesis
    using finite_remember [of r "mid_of s n"] assms(1) unfolding seen_ok_def by (simp add: subset_iff)
qed

subsection \<open>Two parties in step\<close>

definition own_key :: "crypto \<Rightarrow> double_ratchet \<Rightarrow> bool" where
  "own_key C s = (length (dh_sk s) = 32 \<and> dh_pk s = x_pub C (dh_sk s) \<and> length (hk_send s) = 32)"

text \<open>
  What both states satisfy throughout: matching routing fields, key pairs in order, nothing
  skipped, ids remembered only for the peer's keys in \<open>V\<close> (those \<open>r\<close> has received)
  and \<open>W\<close> (those \<open>s\<close> has received), all of them among the keys \<open>U\<close> drawn so far.
\<close>

definition parties :: "crypto \<Rightarrow> bytes set \<Rightarrow> bytes set \<Rightarrow> bytes set \<Rightarrow> double_ratchet \<Rightarrow> double_ratchet \<Rightarrow> bool" where
  "parties C U V W s r = (addressed s r \<and> addressed r s \<and> utf8_valid (session_id s) \<and> own_key C s \<and> own_key C r
     \<and> skipped s = [] \<and> skipped r = [] \<and> seen_ok V r \<and> seen_ok W s \<and> V \<subseteq> U \<and> W \<subseteq> U
     \<and> dh_pk s \<in> U \<and> dh_pk r \<in> U \<and> remote_dh s \<in> insert [] U \<and> remote_dh r \<in> insert [] U)"

text \<open>The receiver stands where the sender's chain stands.\<close>

definition in_step :: "double_ratchet \<Rightarrow> double_ratchet \<Rightarrow> bool" where
  "in_step s r = (remote_dh r = dh_pk s \<and> ck_recv r = ck_send s \<and> n_recv r = n_send s \<and> 0 \<le> n_send s)"

text \<open>After the handshake: \<open>r\<close> answers with a ratchet step.\<close>

definition at_start :: "double_ratchet \<Rightarrow> double_ratchet \<Rightarrow> bool" where
  "at_start s r = (in_step s r \<and> remote_dh s = [] \<and> \<not> needs_send_ratchet s \<and> needs_send_ratchet r
     \<and> root_key s = root_key r)"

text \<open>\<open>s\<close> has received \<open>r\<close>'s key and opened a sending chain that \<open>r\<close> has not seen.\<close>

definition ahead :: "crypto \<Rightarrow> bytes set \<Rightarrow> double_ratchet \<Rightarrow> double_ratchet \<Rightarrow> bool" where
  "ahead C V s r = (in_step r s \<and> \<not> needs_send_ratchet s \<and> \<not> needs_send_ratchet r \<and> n_send s = 0
     \<and> dh_pk s \<notin> V \<and> remote_dh r \<noteq> dh_pk s
     \<and> (\<exists>d. x25519_dh C (dh_sk s) (dh_pk r) = Inr d \<and> kdf_rk C (root_key r) d = (root_key s, ck_send s)))"

definition synced :: "crypto \<Rightarrow> bytes set \<Rightarrow> double_ratchet \<Rightarrow> double_ratchet \<Rightarrow> bool" where
  "synced C U s r = (\<exists>V W. parties C U V W s r \<and>
     (at_start s r \<or> at_start r s \<or> ahead C V s r \<or> ahead C W r s))"

lemma parties_sym:
  assumes "parties C U V W s r"
  shows "parties C U W V r s"
proof -
  have "session_id r = session_id s" using assms unfolding parties_def addressed_def by blast
  then have "utf8_valid (session_id r)" using assms by (simp add: parties_def)
  with assms show ?thesis unfolding parties_def by blast
qed

lemma synced_sym: "synced C U s r \<Longrightarrow> synced C U r s"
  unfolding synced_def using parties_sym by blast

lemma addressed_cong:
  "session_id s' = session_id s \<Longrightarrow> conversation_id s' = conversation_id s \<Longrightarrow> peer_uid s' = peer_uid s \<Longrightarrow>
   session_id r' = session_id r \<Longrightarrow> conversation_id r' = conversation_id r \<Longrightarrow> my_uid r' = my_uid r \<Longrightarrow>
   addressed s' r' = addressed s r"
  by (simp add: addressed_def)

lemma seen_ok_mono: "seen_ok V r \<Longrightarrow> V \<subseteq> V' \<Longrightarrow> seen_ok V' r"
  unfolding seen_ok_def by blast

lemma seen_ok_cong:
  "seen r' = seen r \<Longrightarrow> session_id r' = session_id r \<Longrightarrow> remote_dh r' = remote_dh r \<Longrightarrow> n_recv r' = n_recv r \<Longrightarrow>
   seen_ok V r' = seen_ok V r"
  by (simp add: seen_ok_def)

text \<open>A message of the chain the receiver stands in.\<close>

lemma deliver_in_step:
  assumes ok: "crypto_ok C" "aead_bound C" and fr: "fresh_ok fr" "utf8_valid p"
    and pt: "parties C U V W s r" and st: "in_step s r" and nr: "\<not> needs_send_ratchet s \<or> remote_dh s = []"
  defines "s' \<equiv> s\<lparr> ck_send := snd (kdf_ck C (ck_send s)), n_send := n_send s + 1 \<rparr>"
    and "r' \<equiv> remember_seen (mid_of s (n_send s)) (r\<lparr> ck_recv := snd (kdf_ck C (ck_recv r)), n_recv := n_recv r + 1 \<rparr>)"
  shows "dr_encrypt C fr p s = (Inr (sealed C fr (fst (kdf_ck C (ck_send s))) (hk_send s) s (n_send s) p), s')"
    and "dr_decrypt C sk (sealed C fr (fst (kdf_ck C (ck_send s))) (hk_send s) s (n_send s) p) r = (Inr p, r')"
    and "parties C U (insert (dh_pk s) V) W s' r'" and "in_step s' r'"
proof -
  have sz: "sizes_ok C" using ok(1) by (rule crypto_okD)
  have own: "own_key C s" "own_key C r" and ad: "addressed s r" "addressed r s" and so: "seen_ok V r" "seen_ok W s"
    and u: "utf8_valid (session_id s)" "skipped r = []" "skipped s = []" "V \<subseteq> U" "W \<subseteq> U" "dh_pk s \<in> U" "dh_pk r \<in> U"
      "remote_dh s \<in> insert [] U" "remote_dh r \<in> insert [] U"
    using pt by (auto simp: parties_def)
  have ins: "remote_dh r = dh_pk s" "ck_recv r = ck_send s" "n_recv r = n_send s" "0 \<le> n_send s"
    using st by (auto simp: in_step_def)
  show "dr_encrypt C fr p s = (Inr (sealed C fr (fst (kdf_ck C (ck_send s))) (hk_send s) s (n_send s) p), s')"
    unfolding s'_def by (rule encrypt_in_chain [OF sz fr(1) _ nr]) (use own in \<open>simp add: own_key_def\<close>)
  have cr: "can_read C s r (hk_send s)" using ok ad(1) u own by (simp add: can_read_def own_key_def)
  have fresh: "mid_of s (n_send s) \<notin> seen r"
    by (rule seen_ok_in_chain [OF so(1)]) (use ad ins in \<open>auto simp: addressed_def\<close>)
  have "dh_pk s \<noteq> []" using own(1) sizes_okD(8) [OF sz, of "dh_sk s"] by (auto simp: own_key_def)
  then show "dr_decrypt C sk (sealed C fr (fst (kdf_ck C (ck_send s))) (hk_send s) s (n_send s) p) r = (Inr p, r')"
    using decrypt_in_chain [OF cr fr fresh _ ins(1)] u(2) ins
    by (simp add: msg_key_def MAX_SKIP_KEYS_def r'_def take_message_def)
  have "seen_ok (insert (dh_pk s) V) r'"
    unfolding r'_def
  proof (rule seen_ok_remember [where U = V])
    show "seen_ok V (r\<lparr> ck_recv := snd (kdf_ck C (ck_recv r)), n_recv := n_recv r + 1 \<rparr>)"
      using so(1) by (fastforce simp: seen_ok_def)
  qed (use ad ins in \<open>auto simp: addressed_def\<close>)
  moreover have "addressed s' r'" "addressed r' s'" using ad by (simp_all add: addressed_def s'_def r'_def)
  moreover have "own_key C s'" "own_key C r'" using own by (simp_all add: own_key_def s'_def r'_def)
  moreover have "seen_ok W s'" using so(2) by (simp add: seen_ok_def s'_def)
  ultimately show "parties C U (insert (dh_pk s) V) W s' r'"
    using u by (simp add: parties_def s'_def r'_def)
  show "in_step s' r'" using ins by (simp add: in_step_def s'_def r'_def)
qed

text \<open>A message that makes the receiver take a ratchet step.\<close>

lemma deliver_new_key:
  assumes ok: "crypto_ok C" "aead_bound C" and fr: "fresh_ok fr" "utf8_valid p" "length sk = 32"
    and pt: "parties C U V W s r" and nr: "\<not> needs_send_ratchet s \<or> remote_dh s = []"
    and new: "n_send s = 0" "dh_pk s \<notin> V" "remote_dh r \<noteq> dh_pk s" "\<not> needs_send_ratchet s" "\<not> needs_send_ratchet r"
    and key: "x25519_dh C (dh_sk s) (dh_pk r) = Inr d" "kdf_rk C (root_key r) d = (root_key s, ck_send s)"
    and fresh_pk: "x_pub C sk \<notin> U"
  shows "\<exists>w s' r'. dr_encrypt C fr p s = (Inr w, s') \<and> dr_decrypt C sk w r = (Inr p, r')
     \<and> parties C (insert (x_pub C sk) U) (insert (dh_pk s) V) W s' r' \<and> ahead C W r' s'"
proof -
  have sz: "sizes_ok C" and dh: "dh_ok C" using ok(1) by (auto dest: crypto_okD)
  have own: "own_key C s" "own_key C r" and ad: "addressed s r" "addressed r s" and so: "seen_ok V r" "seen_ok W s"
    and u: "utf8_valid (session_id s)" "skipped r = []" "skipped s = []" "V \<subseteq> U" "W \<subseteq> U" "dh_pk s \<in> U" "dh_pk r \<in> U"
      "remote_dh s \<in> insert [] U" "remote_dh r \<in> insert [] U"
    using pt by (auto simp: parties_def)
  let ?s = "s\<lparr> ck_send := snd (kdf_ck C (ck_send s)), n_send := n_send s + 1 \<rparr>"
  let ?w = "sealed C fr (fst (kdf_ck C (ck_send s))) (hk_send s) s (n_send s) p"
  have enc: "dr_encrypt C fr p s = (Inr ?w, ?s)"
    by (rule encrypt_in_chain [OF sz fr(1) _ nr]) (use own in \<open>simp add: own_key_def\<close>)
  have lens: "length (dh_sk r) = 32" "length (dh_sk s) = 32" "dh_pk s = x_pub C (dh_sk s)" "dh_pk r = x_pub C (dh_sk r)"
    using own by (auto simp: own_key_def)
  have d: "x25519_dh C (dh_sk r) (dh_pk s) = Inr d"
    using x25519_agree [OF dh sz lens(2,1)] key(1) lens(3,4) by fastforce
  obtain d' where d': "x25519_dh C sk (dh_pk s) = Inr d'"
    using x25519_agree [OF dh sz fr(3) lens(2)] lens(3) by metis
  obtain rk ck where k: "kdf_rk C (root_key s) d' = (rk, ck)" by (cases "kdf_rk C (root_key s) d'")
  let ?r = "r\<lparr> pn := n_send r, n_send := 0, n_recv := 0, remote_dh := dh_pk s, root_key := rk, ck_recv := ck_send s,
      hk_recv := header_key C (root_key s) (ck_send s), dh_pk := x_pub C sk, dh_sk := sk, ck_send := ck, hk_send := header_key C rk ck \<rparr>"
  have rat: "dh_ratchet C sk (dh_pk s) r = (Inr (), ?r)"
    using d d' k key(2) by (simp add: dh_ratchet_def Let_def)
  have cr: "can_read C s r (hk_send s)" using ok ad(1) u own by (simp add: can_read_def own_key_def)
  have fresh: "mid_of s (n_send s) \<notin> seen r"
    by (rule seen_ok_new_chain [OF so(1) _ new(2)]) (use ad in \<open>simp add: addressed_def\<close>)
  let ?r' = "remember_seen (mid_of s 0) (?r\<lparr> ck_recv := snd (kdf_ck C (ck_send s)), n_recv := 1 \<rparr>)"
  have dec: "dr_decrypt C sk ?w r = (Inr p, ?r')"
    using decrypt_new_chain [OF cr fr(1,2) fresh _ _ rat] new(1,3) u(2)
    by (simp add: msg_key_def MAX_SKIP_KEYS_def take_message_def)
  have "seen_ok (insert (dh_pk s) V) ?r'"
  proof (rule seen_ok_remember [where U = V])
    show "seen_ok V (?r\<lparr> ck_recv := snd (kdf_ck C (ck_send s)), n_recv := 1 \<rparr>)"
      using so(1) new(2) unfolding seen_ok_def by fastforce
  qed (use ad in \<open>auto simp: addressed_def\<close>)
  moreover have "own_key C ?s" "own_key C ?r'"
    using own fr(3) kdf_lengths(5) [OF sz] by (simp_all add: own_key_def header_key_def)
  moreover have "addressed ?s ?r'" "addressed ?r' ?s" using ad by (simp_all add: addressed_def)
  moreover have "seen_ok W ?s" using so(2) by (simp add: seen_ok_def)
  ultimately have "parties C (insert (x_pub C sk) U) (insert (dh_pk s) V) W ?s ?r'"
    using u by (simp add: parties_def) blast
  moreover have "ahead C W ?r' ?s"
  proof -
    have "x_pub C sk \<noteq> []" using sizes_okD(8) [OF sz, of sk] by auto
    then have "remote_dh s \<noteq> x_pub C sk" using fresh_pk u(8) by auto
    moreover have "x_pub C sk \<notin> W" using fresh_pk u(5) by blast
    ultimately show ?thesis using new d' k by (simp add: ahead_def in_step_def)
  qed
  ultimately show ?thesis using enc dec by blast
qed

text \<open>The responder's first answer turns its own ratchet before it encrypts.\<close>

lemma send_ratchet:
  assumes ok: "crypto_ok C" and fr: "fresh_ok fr" and pt: "parties C U V W s r" and st: "at_start r s"
    and new: "x_pub C (f_sk fr) \<notin> U"
  obtains s1 d where "dr_encrypt C fr p s = dr_encrypt C fr p s1"
    and "parties C (insert (x_pub C (f_sk fr)) U) V W s1 r"
    and "n_send s1 = 0" and "dh_pk s1 = x_pub C (f_sk fr)" and "\<not> needs_send_ratchet s1"
    and "x25519_dh C (dh_sk s1) (dh_pk r) = Inr d" and "kdf_rk C (root_key r) d = (root_key s1, ck_send s1)"
proof -
  have sz: "sizes_ok C" and dh: "dh_ok C" using ok by (auto dest: crypto_okD)
  have own: "own_key C s" "own_key C r" and ad: "addressed s r" "addressed r s" and so: "seen_ok V r" "seen_ok W s"
    and u: "utf8_valid (session_id s)" "skipped r = []" "skipped s = []" "V \<subseteq> U" "W \<subseteq> U" "dh_pk s \<in> U" "dh_pk r \<in> U"
      "remote_dh s \<in> insert [] U" "remote_dh r \<in> insert [] U"
    using pt by (auto simp: parties_def)
  have st': "remote_dh s = dh_pk r" "needs_send_ratchet s" "root_key r = root_key s"
    using st by (auto simp: at_start_def in_step_def)
  have len: "length (f_sk fr) = 32" "length (dh_sk r) = 32" "dh_pk r = x_pub C (dh_sk r)"
    using fr own by (auto simp: fresh_ok_def own_key_def)
  then have ne: "remote_dh s \<noteq> []" using st'(1) sizes_okD(8) [OF sz, of "dh_sk r"] by auto
  obtain d where d: "x25519_dh C (f_sk fr) (dh_pk r) = Inr d"
    using x25519_agree [OF dh sz len(1,2)] len(3) by metis
  obtain rk ck where k: "kdf_rk C (root_key s) d = (rk, ck)" by (cases "kdf_rk C (root_key s) d")
  let ?s1 = "s\<lparr> pn := n_send s, dh_pk := x_pub C (f_sk fr), dh_sk := f_sk fr, root_key := rk, ck_send := ck,
      hk_send := header_key C rk ck, n_send := 0, needs_send_ratchet := False \<rparr>"
  have "maybe_send_ratchet C (f_sk fr) s = (Inr (), ?s1)"
    using ne st' d k by (simp add: maybe_send_ratchet_def Let_def)
  then have enc: "dr_encrypt C fr p s = dr_encrypt C fr p ?s1"
    by (simp add: dr_encrypt_def sbind_def maybe_send_ratchet_def [of _ _ ?s1])
  have "own_key C ?s1" using len(1) kdf_lengths(5) [OF sz] by (simp add: own_key_def header_key_def)
  moreover have "addressed ?s1 r" "addressed r ?s1" using ad by (simp_all add: addressed_def)
  moreover have "seen_ok W ?s1" using so(2) by (simp add: seen_ok_def)
  ultimately have "parties C (insert (x_pub C (f_sk fr)) U) V W ?s1 r"
    using u so(1) own(2) by (simp add: parties_def) blast
  moreover have "kdf_rk C (root_key r) d = (root_key ?s1, ck_send ?s1)" using k st'(3) by simp
  ultimately show ?thesis using that [of ?s1 d] d enc by simp
qed

lemma synced_in_chain:
  assumes ok: "crypto_ok C" "aead_bound C" and fr: "fresh_ok fr" "utf8_valid p"
    and pt: "parties C U V W s r" and st: "at_start s r \<or> ahead C W r s"
  shows "\<exists>w s' r'. dr_encrypt C fr p s = (Inr w, s') \<and> dr_decrypt C sk w r = (Inr p, r') \<and> synced C U s' r'"
proof -
  have ins: "in_step s r" and nr: "\<not> needs_send_ratchet s \<or> remote_dh s = []"
    using st by (auto simp: at_start_def ahead_def)
  note del = deliver_in_step [OF ok fr pt ins nr]
  let ?s = "s\<lparr> ck_send := snd (kdf_ck C (ck_send s)), n_send := n_send s + 1 \<rparr>"
  let ?r = "remember_seen (mid_of s (n_send s)) (r\<lparr> ck_recv := snd (kdf_ck C (ck_recv r)), n_recv := n_recv r + 1 \<rparr>)"
  have "at_start ?s ?r \<or> ahead C W ?r ?s"
    using st del(4) by (auto simp: at_start_def ahead_def)
  with del(3) have "synced C U ?s ?r" unfolding synced_def by blast
  with del(1,2) show ?thesis by blast
qed

lemma synced_step:
  assumes ok: "crypto_ok C" "aead_bound C" and fr: "fresh_ok fr" "utf8_valid p" "length sk = 32"
    and sy: "synced C U s r" and fresh: "x_pub C (f_sk fr) \<notin> U" "x_pub C sk \<notin> insert (x_pub C (f_sk fr)) U"
  shows "\<exists>w s' r'. dr_encrypt C fr p s = (Inr w, s') \<and> dr_decrypt C sk w r = (Inr p, r')
     \<and> synced C (insert (x_pub C sk) (insert (x_pub C (f_sk fr)) U)) s' r'"
proof -
  have mono: "synced C U' x y" if "synced C U0 x y" "U0 \<subseteq> U'" for U0 U' x y
    using that unfolding synced_def parties_def by blast
  let ?U = "insert (x_pub C (f_sk fr)) U"
  from sy obtain V W where pt: "parties C U V W s r"
    and st: "(at_start s r \<or> ahead C W r s) \<or> at_start r s \<or> ahead C V s r" unfolding synced_def by blast
  have new_key: "\<exists>w s' r'. dr_encrypt C fr p x = (Inr w, s') \<and> dr_decrypt C sk w r = (Inr p, r')
      \<and> synced C (insert (x_pub C sk) ?U) s' r'"
    if x: "parties C ?U V W x r" "n_send x = 0" "dh_pk x \<notin> V" "remote_dh r \<noteq> dh_pk x" "\<not> needs_send_ratchet x"
      "\<not> needs_send_ratchet r" "x25519_dh C (dh_sk x) (dh_pk r) = Inr d" "kdf_rk C (root_key r) d = (root_key x, ck_send x)"
    for x d
    using deliver_new_key [OF ok fr x(1) _ x(2-8) fresh(2)] x(5) unfolding synced_def by blast
  from st consider "at_start s r \<or> ahead C W r s" | "at_start r s" | "ahead C V s r" by blast
  then show ?thesis
  proof cases
    case 1
    from synced_in_chain [OF ok fr(1,2) pt 1] show ?thesis using mono by (meson subset_insertI subset_trans)
  next
    case 2
    obtain s1 d where s1: "dr_encrypt C fr p s = dr_encrypt C fr p s1" "parties C ?U V W s1 r"
      "n_send s1 = 0" "dh_pk s1 = x_pub C (f_sk fr)" "\<not> needs_send_ratchet s1"
      "x25519_dh C (dh_sk s1) (dh_pk r) = Inr d" "kdf_rk C (root_key r) d = (root_key s1, ck_send s1)"
      by (rule send_ratchet [OF ok(1) fr(1) pt 2 fresh(1)])
    have "V \<subseteq> U" using pt by (simp add: parties_def)
    moreover have "remote_dh r = []" "\<not> needs_send_ratchet r" using 2 by (auto simp: at_start_def)
    moreover have "x_pub C (f_sk fr) \<noteq> []" using sizes_okD(8) [OF crypto_okD(5) [OF ok(1)], of "f_sk fr"] by auto
    ultimately show ?thesis unfolding s1(1) using new_key [OF s1(2,3) _ _ s1(5) _ s1(6,7)] s1(4) fresh(1) by auto
  next
    case 3
    have "parties C ?U V W s r" using pt unfolding parties_def by blast
    with 3 new_key show ?thesis unfolding ahead_def by blast
  qed
qed

subsection \<open>A conversation\<close>

text \<open>
  One message from one side to the other (\<open>True\<close>: from the first to the second), encrypted
  by the sender's object and decrypted at once by the receiver's; \<open>sk\<close> is the key the
  receiver draws if it takes a ratchet step.
\<close>

type_synonym talk = "bool \<times> fresh \<times> bytes \<times> string"

definition exchange :: "crypto \<Rightarrow> talk \<Rightarrow> double_ratchet \<times> double_ratchet \<Rightarrow> string res \<times> double_ratchet \<times> double_ratchet" where
  "exchange C m ab = (case (m, ab) of ((dir, fr, sk, p), (a, b)) \<Rightarrow>
     let (s, r) = (if dir then (a, b) else (b, a));
         (w, s') = dr_encrypt C fr p s;
         (q, r') = (case w of Inl e \<Rightarrow> (Inl e, r) | Inr wire \<Rightarrow> dr_decrypt C sk wire r)
     in (q, if dir then (s', r') else (r', s')))"

fun converse :: "crypto \<Rightarrow> talk list \<Rightarrow> double_ratchet \<times> double_ratchet \<Rightarrow> string res list" where
  "converse C [] ab = []"
| "converse C (m # ms) ab = (case exchange C m ab of (q, ab') \<Rightarrow> q # converse C ms ab')"

definition drawn :: "crypto \<Rightarrow> talk list \<Rightarrow> bytes list" where
  "drawn C ms = concat (map (\<lambda>(dir, fr, sk, p). [x_pub C (f_sk fr), x_pub C sk]) ms)"

definition talk_ok :: "talk \<Rightarrow> bool" where
  "talk_ok m = (case m of (dir, fr, sk, p) \<Rightarrow> fresh_ok fr \<and> length sk = 32 \<and> utf8_valid p)"

lemma synced_exchange:
  assumes "crypto_ok C" and "aead_bound C" and "synced C U a b" and "talk_ok (dir, fr, sk, p)"
    and "x_pub C (f_sk fr) \<notin> U" and "x_pub C sk \<notin> insert (x_pub C (f_sk fr)) U"
  shows "\<exists>a' b'. exchange C (dir, fr, sk, p) (a, b) = (Inr p, a', b')
     \<and> synced C (insert (x_pub C sk) (insert (x_pub C (f_sk fr)) U)) a' b'"
proof (cases dir)
  case True
  from synced_step [OF assms(1,2) _ _ _ assms(3,5,6)] assms(4) True show ?thesis
    by (fastforce simp: exchange_def talk_ok_def)
next
  case False
  from synced_step [OF assms(1,2) _ _ _ synced_sym [OF assms(3)] assms(5,6)] assms(4) False show ?thesis
    by (fastforce simp: exchange_def talk_ok_def dest: synced_sym)
qed

lemma converse_delivers:
  assumes "crypto_ok C" and "aead_bound C" and "synced C U a b" and "list_all talk_ok ms"
    and "distinct (drawn C ms)" and "set (drawn C ms) \<inter> U = {}"
  shows "converse C ms (a, b) = map (\<lambda>(dir, fr, sk, p). Inr p) ms"
  using assms(3-6)
proof (induction ms arbitrary: U a b)
  case (Cons m ms)
  obtain dir fr sk p where m: "m = (dir, fr, sk, p)" by (cases m)
  from Cons.prems m obtain a' b' where ex: "exchange C m (a, b) = (Inr p, a', b')"
    and sy: "synced C (insert (x_pub C sk) (insert (x_pub C (f_sk fr)) U)) a' b'"
    using synced_exchange [OF assms(1,2), of U a b dir fr sk p] by (auto simp: drawn_def)
  have "converse C ms (a', b') = map (\<lambda>(dir, fr, sk, p). Inr p) ms"
    by (rule Cons.IH [OF sy]) (use Cons.prems in \<open>auto simp: m drawn_def\<close>)
  with ex m show ?case by simp
qed simp

subsection \<open>Messages of one chain in any order\<close>

lemma skip_loop_skipped:
  "map_of (skipped (skip_loop C j r)) (kid_of (remote_dh r) m) =
     (if n_recv r \<le> m \<and> m < n_recv r + int j
      then Some (JStr (b64e (msg_key C (ck_recv r) (nat (m - n_recv r)))))
      else map_of (skipped r) (kid_of (remote_dh r) m))"
proof (induction j arbitrary: r)
  case (Suc j)
  obtain mk ck where k: "kdf_ck C (ck_recv r) = (mk, ck)" by (cases "kdf_ck C (ck_recv r)")
  let ?r = "r\<lparr> ck_recv := ck, skipped := dset (skipped r) (kid_of (remote_dh r) (n_recv r)) (JStr (b64e mk)),
    n_recv := n_recv r + 1 \<rparr>"
  have step: "skip_loop C (Suc j) r = skip_loop C j ?r" by (simp add: k kid_of_def)
  have key: "msg_key C ck (nat (m - n_recv r - 1)) = msg_key C (ck_recv r) (nat (m - n_recv r))" if "n_recv r < m"
  proof -
    have "nat (m - n_recv r) = Suc (nat (m - n_recv r - 1))" using that by simp
    then show ?thesis by (simp add: msg_key_def k)
  qed
  have first: "msg_key C (ck_recv r) 0 = mk" by (simp add: msg_key_def k)
  show ?case
    unfolding step using Suc.IH [of ?r] key first by (auto simp: update_conv' algebra_simps)
qed auto

lemma skip_loop_length: "length (skipped (skip_loop C j r)) \<le> length (skipped r) + j"
proof (induction j arbitrary: r)
  case (Suc j)
  obtain mk ck where k: "kdf_ck C (ck_recv r) = (mk, ck)" by (cases "kdf_ck C (ck_recv r)")
  let ?r = "r\<lparr> ck_recv := ck, skipped := dset (skipped r) (kid_of (remote_dh r) (n_recv r)) (JStr (b64e mk)),
    n_recv := n_recv r + 1 \<rparr>"
  have "skip_loop C (Suc j) r = skip_loop C j ?r" by (simp add: k kid_of_def)
  moreover have "length (skipped ?r) \<le> Suc (length (skipped r))" by (simp add: length_dset)
  ultimately show ?case using Suc.IH [of ?r] by simp
qed simp

fun send_all :: "crypto \<Rightarrow> (fresh \<times> string) list \<Rightarrow> double_ratchet \<Rightarrow> string res list" where
  "send_all C [] s = []"
| "send_all C ((fr, p) # ms) s = (case dr_encrypt C fr p s of (w, s') \<Rightarrow> w # send_all C ms s')"

fun recv_all :: "crypto \<Rightarrow> bytes \<Rightarrow> string res list \<Rightarrow> double_ratchet \<Rightarrow> string res list" where
  "recv_all C sk [] r = []"
| "recv_all C sk (w # ws) r =
     (case (case w of Inl e \<Rightarrow> (Inl e, r) | Inr wire \<Rightarrow> dr_decrypt C sk wire r) of (q, r') \<Rightarrow> q # recv_all C sk ws r')"

lemma length_send_all [simp]: "length (send_all C ms s) = length ms"
  by (induction C ms s rule: send_all.induct) (auto split: prod.splits)

lemma send_all_nth:
  assumes "sizes_ok C" and "list_all (\<lambda>(fr, p). fresh_ok fr) ms" and "length (hk_send s) = 32"
    and "\<not> needs_send_ratchet s \<or> remote_dh s = []" and "i < length ms"
  shows "send_all C ms s ! i =
    Inr (sealed C (fst (ms ! i)) (msg_key C (ck_send s) i) (hk_send s) s (n_send s + int i) (snd (ms ! i)))"
  using assms(2-5)
proof (induction ms arbitrary: s i)
  case (Cons m ms)
  obtain fr p where m: "m = (fr, p)" by (cases m)
  let ?s = "s\<lparr> ck_send := snd (kdf_ck C (ck_send s)), n_send := n_send s + 1 \<rparr>"
  have enc: "dr_encrypt C fr p s = (Inr (sealed C fr (msg_key C (ck_send s) 0) (hk_send s) s (n_send s) p), ?s)"
    using encrypt_in_chain [OF assms(1), of fr s p] Cons.prems m by (simp add: msg_key_def)
  show ?case
  proof (cases i)
    case (Suc j)
    have "sealed C fr mk hk ?s n q = sealed C fr mk hk s n q" for fr mk hk n q
      by (simp add: sealed_def sealed_obj_def)
    with Cons.IH [of ?s j] Cons.prems Suc enc m show ?thesis
      by (simp add: msg_key_def algebra_simps)
  qed (use enc m in simp)
qed simp

text \<open>
  The receiver after some messages of the chain: \<open>k\<close> is how far the chain was advanced,
  \<open>D\<close> the offsets delivered; a key is kept for every other offset below \<open>k\<close>.
\<close>

definition chain_inv :: "crypto \<Rightarrow> double_ratchet \<Rightarrow> bytes \<Rightarrow> int \<Rightarrow> nat set \<Rightarrow> nat \<Rightarrow> double_ratchet \<Rightarrow> bool" where
  "chain_inv C s ck n0 D k r = (can_read C s r (hk_send s) \<and> remote_dh r = dh_pk s \<and> dh_pk s \<noteq> []
     \<and> n_recv r = n0 + int k \<and> ck_recv r = chain_key C ck k \<and> D \<subseteq> {..<k} \<and> length (skipped r) \<le> k \<and> finite (seen r)
     \<and> (\<forall>i. map_of (skipped r) (kid_of (dh_pk s) (n0 + int i)) =
            (if i < k \<and> i \<notin> D then Some (JStr (b64e (msg_key C ck i))) else None))
     \<and> (\<forall>i. i \<notin> D \<longrightarrow> mid_of s (n0 + int i) \<notin> seen r))"

lemma mid_of_inject: "mid_of s n = mid_of s n' \<longleftrightarrow> n = n'"
  by (simp add: mid_of_kid)

lemma seen_remember_other:
  assumes "finite (seen r)" and "\<forall>i. i \<notin> D \<longrightarrow> mid_of s (n0 + int i) \<notin> seen r" and "j \<notin> insert i D"
  shows "mid_of s (n0 + int j) \<notin> seen (remember_seen (mid_of s (n0 + int i)) r)"
  using seen_remember [OF assms(1), of "mid_of s (n0 + int i)"] assms(2,3) by (auto simp: mid_of_inject)

lemma can_read_cong:
  assumes "can_read C s r hk" and "session_id r' = session_id r" and "conversation_id r' = conversation_id r"
    and "my_uid r' = my_uid r" and "hk_recv r' = hk_recv r"
  shows "can_read C s r' hk"
  using assms by (simp add: can_read_def addressed_def)

lemma deliver_stored:
  assumes inv: "chain_inv C s ck n0 D k r" and new: "i \<notin> D" and old: "i < k" and fr: "fresh_ok fr" "utf8_valid p"
  shows "\<exists>r'. dr_decrypt C sk (sealed C fr (msg_key C ck i) (hk_send s) s (n0 + int i) p) r = (Inr p, r')
     \<and> chain_inv C s ck n0 (insert i D) (max k (Suc i)) r'"
proof -
  have cr: "can_read C s r (hk_send s)" and rem: "remote_dh r = dh_pk s" "dh_pk s \<noteq> []"
    and pos: "n_recv r = n0 + int k" "ck_recv r = chain_key C ck k" "D \<subseteq> {..<k}" "length (skipped r) \<le> k" "finite (seen r)"
    and sk: "\<And>j. map_of (skipped r) (kid_of (dh_pk s) (n0 + int j)) =
            (if j < k \<and> j \<notin> D then Some (JStr (b64e (msg_key C ck j))) else None)"
    and sn: "\<forall>j. j \<notin> D \<longrightarrow> mid_of s (n0 + int j) \<notin> seen r"
    using inv unfolding chain_inv_def by auto
  have fresh: "mid_of s (n0 + int i) \<notin> seen r" using sn new by blast
  note mklen = kdf_lengths(3) [OF can_readD(2) [OF cr]]
  let ?r = "r\<lparr> skipped := dpop (skipped r) (kid_of (dh_pk s) (n0 + int i)) \<rparr>"
  let ?r' = "remember_seen (mid_of s (n0 + int i)) ?r"
  have "dr_decrypt C sk (sealed C fr (msg_key C ck i) (hk_send s) s (n0 + int i) p) r = (Inr p, ?r')"
    by (rule decrypt_skipped_key [OF cr fr fresh]) (use sk new old mklen in \<open>simp_all add: msg_key_def\<close>)
  moreover have "can_read C s ?r' (hk_send s)" by (rule can_read_cong [OF cr]) simp_all
  moreover have "length (dpop (skipped r) (kid_of (dh_pk s) (n0 + int i))) \<le> k"
    using length_delete_le [of "kid_of (dh_pk s) (n0 + int i)" "skipped r"] pos(4) by linarith
  moreover have "\<forall>j. j \<notin> insert i D \<longrightarrow> mid_of s (n0 + int j) \<notin> seen ?r'"
    using seen_remember_other [of ?r D s n0 _ i] pos(5) sn by auto
  moreover have "max k (Suc i) = k" using old by simp
  ultimately show ?thesis
    using old rem pos sk finite_remember [of ?r] by (auto simp: chain_inv_def delete_conv')
qed

lemma deliver_ahead:
  assumes inv: "chain_inv C s ck n0 D k r" and new: "i \<notin> D" and ahead: "\<not> i < k" and bound: "int i \<le> MAX_SKIP_KEYS"
    and fr: "fresh_ok fr" "utf8_valid p"
  shows "\<exists>r'. dr_decrypt C sk (sealed C fr (msg_key C ck i) (hk_send s) s (n0 + int i) p) r = (Inr p, r')
     \<and> chain_inv C s ck n0 (insert i D) (max k (Suc i)) r'"
proof -
  have cr: "can_read C s r (hk_send s)" and rem: "remote_dh r = dh_pk s" "dh_pk s \<noteq> []"
    and pos: "n_recv r = n0 + int k" "ck_recv r = chain_key C ck k" "D \<subseteq> {..<k}" "length (skipped r) \<le> k" "finite (seen r)"
    and sk: "\<And>j. map_of (skipped r) (kid_of (dh_pk s) (n0 + int j)) =
            (if j < k \<and> j \<notin> D then Some (JStr (b64e (msg_key C ck j))) else None)"
    and sn: "\<forall>j. j \<notin> D \<longrightarrow> mid_of s (n0 + int j) \<notin> seen r"
    using inv unfolding chain_inv_def by auto
  have fresh: "mid_of s (n0 + int i) \<notin> seen r" using sn new by blast
  let ?r = "skip_loop C (i - k) r"
  let ?r' = "take_message C (mid_of s (n0 + int i)) (n0 + int i) r"
  have gap: "nat (n0 + int i - n_recv r) = i - k" using ahead pos(1) by simp
  have r': "?r' = remember_seen (mid_of s (n0 + int i)) (?r\<lparr> ck_recv := snd (kdf_ck C (ck_recv ?r)), n_recv := n_recv ?r + 1 \<rparr>)"
    by (simp add: take_message_def gap)
  have "msg_key C ck i = msg_key C (ck_recv r) (nat (n0 + int i - n_recv r))"
    using ahead by (simp add: gap pos(2) msg_key_def chain_key_add)
  then have dec: "dr_decrypt C sk (sealed C fr (msg_key C ck i) (hk_send s) s (n0 + int i) p) r = (Inr p, ?r')"
    using decrypt_in_chain [OF cr fr fresh _ rem] ahead pos sk bound by simp
  have idx: "k \<le> j \<Longrightarrow> k + nat (int j - int k) = j" for j by simp
  have kept: "map_of (skipped ?r) (kid_of (dh_pk s) (n0 + int j)) =
      (if j < i \<and> j \<notin> D then Some (JStr (b64e (msg_key C ck j))) else None)" for j
    using skip_loop_skipped [of C "i - k" r "n0 + int j"] sk [of j] rem(1) pos(1-3) ahead
    by (auto simp: msg_key_def chain_key_add idx)
  have "can_read C s ?r' (hk_send s)" unfolding r' by (rule can_read_cong [OF cr]) simp_all
  moreover have "length (skipped ?r') \<le> Suc i"
    using skip_loop_length [of C "i - k" r] pos(4) ahead by (simp add: r')
  moreover have "\<forall>j. j \<notin> insert i D \<longrightarrow> mid_of s (n0 + int j) \<notin> seen ?r'"
    unfolding r' using seen_remember_other [of "?r\<lparr> ck_recv := snd (kdf_ck C (ck_recv ?r)), n_recv := n_recv ?r + 1 \<rparr>" D s n0 _ i] pos(5) sn by auto
  moreover have "ck_recv ?r' = chain_key C ck (Suc i)"
    unfolding r' using ahead pos(2) by (simp add: chain_key_add chain_key_step del: chain_key.simps)
  ultimately have "chain_inv C s ck n0 (insert i D) (Suc i) ?r'"
    using rem pos kept ahead finite_remember by (auto simp: chain_inv_def r' less_Suc_eq)
  with dec ahead show ?thesis by (auto simp: max_def)
qed

lemma deliver_offset:
  assumes inv: "chain_inv C s ck n0 D k r" and new: "i \<notin> D" and bound: "int i \<le> MAX_SKIP_KEYS"
    and fr: "fresh_ok fr" "utf8_valid p"
  shows "\<exists>r'. dr_decrypt C sk (sealed C fr (msg_key C ck i) (hk_send s) s (n0 + int i) p) r = (Inr p, r')
     \<and> chain_inv C s ck n0 (insert i D) (max k (Suc i)) r'"
  using deliver_stored [OF inv new _ fr] deliver_ahead [OF inv new _ bound fr] by (cases "i < k") auto

lemma recv_any_order:
  assumes "chain_inv C s ck n0 D k r" and "distinct js" and "set js \<inter> D = {}"
    and "\<forall>j \<in> set js. j < length ms" and "int (length ms) \<le> MAX_SKIP_KEYS + 1"
    and "list_all (\<lambda>(fr, p). fresh_ok fr \<and> utf8_valid p) ms"
  shows "recv_all C sk (map (\<lambda>j. Inr (sealed C (fst (ms ! j)) (msg_key C ck j) (hk_send s) s (n0 + int j) (snd (ms ! j)))) js) r
    = map (\<lambda>j. Inr (snd (ms ! j))) js"
  using assms(1-4)
proof (induction js arbitrary: D k r)
  case (Cons j js)
  have m: "fresh_ok (fst (ms ! j))" "utf8_valid (snd (ms ! j))"
    using assms(6) Cons.prems(4) by (auto simp: list_all_length case_prod_unfold)
  obtain r' where "dr_decrypt C sk (sealed C (fst (ms ! j)) (msg_key C ck j) (hk_send s) s (n0 + int j) (snd (ms ! j))) r
      = (Inr (snd (ms ! j)), r')" "chain_inv C s ck n0 (insert j D) (max k (Suc j)) r'"
    using deliver_offset [OF Cons.prems(1) _ _ m, of j sk] Cons.prems(3,4) assms(5) by auto
  with Cons show ?case by simp
qed simp

subsection \<open>Replays\<close>

lemma encrypt_sealed:
  assumes "sizes_ok C" and "fresh_ok fr" and "length (hk_send s) = 32" and "dr_encrypt C fr p s = (Inr w, s')"
  obtains s1 mk hk n where "w = sealed C fr mk hk s1 n p" and "length hk = 32" and "session_id s1 = session_id s"
    and "conversation_id s1 = conversation_id s" and "peer_uid s1 = peer_uid s"
proof -
  obtain s1 where s1: "maybe_send_ratchet C (f_sk fr) s = (Inr (), s1)"
    using assms(4) by (auto simp: dr_encrypt_def sbind_eq_Inr)
  then have f: "session_id s1 = session_id s" "conversation_id s1 = conversation_id s" "peer_uid s1 = peer_uid s"
    "\<not> needs_send_ratchet s1 \<or> remote_dh s1 = []" "length (hk_send s1) = 32"
    using assms(3) kdf_lengths(5) [OF assms(1)]
    by (auto simp: maybe_send_ratchet_def header_key_def Let_def split: if_splits sum.splits prod.splits)
  have "dr_encrypt C fr p s = dr_encrypt C fr p s1"
    using s1 f(4) by (auto simp: dr_encrypt_def sbind_def maybe_send_ratchet_def [of _ _ s1])
  with encrypt_in_chain [OF assms(1,2) f(5,4)] assms(4) that f show ?thesis by fastforce
qed

lemma decrypt_remembers:
  assumes "dr_decrypt C sk w r = (Inr q, r')"
  obtains obj header mid r0 where "unwrap_wire PREFIX_DR w = Inr obj" and "read_header C r obj = Inr (JObj header)"
    and "message_id header = Inr mid" and "mid \<notin> seen r" and "r' = remember_seen mid r0" and "seen r0 = seen r"
    and "session_id r0 = session_id r" and "conversation_id r0 = conversation_id r" and "my_uid r0 = my_uid r"
proof -
  have rat: "seen r0 = seen r \<and> session_id r0 = session_id r \<and> conversation_id r0 = conversation_id r \<and> my_uid r0 = my_uid r"
    if "(if c then dh_ratchet C sk x r else (Inr (), r)) = (Inr (), r0)" for c x r0
    using that by (auto simp: dh_ratchet_def Let_def split: if_splits sum.splits prod.splits)
  have skip: "seen r1 = seen r0 \<and> session_id r1 = session_id r0 \<and> conversation_id r1 = conversation_id r0 \<and> my_uid r1 = my_uid r0"
    if "skip_until C n r0 = (Inr (), r1)" for n r0 r1
    using that by (auto simp: skip_until_def Let_def split: if_splits)
  show ?thesis
    using assms that
    by (auto simp: dr_decrypt_def sbind_eq_Inr Let_def split: option.splits dest!: rat skip)
qed

lemma remember_seen_in:
  assumes "finite (seen r)" and "card (seen r) < 4096"
  shows "m \<in> seen (remember_seen m r)"
  using assms card_insert_le_m1 [of 4096 "seen r" m] by (simp add: remember_seen_def Let_def card_insert_if)

text \<open>The parts of a ratchet that \<open>decrypt\<close> leaves alone until it remembers an id.\<close>

definition fixed_part :: "double_ratchet \<Rightarrow> string \<times> int \<times> int \<times> string set" where
  "fixed_part r = (session_id r, conversation_id r, my_uid r, seen r)"

definition one_more_seen :: "double_ratchet \<Rightarrow> double_ratchet \<Rightarrow> bool" where
  "one_more_seen r r' = (\<exists>r0. fixed_part r0 = fixed_part r \<and> (r' = r0 \<or> (\<exists>m. r' = remember_seen m r0)))"

lemma one_more_seenI:
  "fixed_part r' = fixed_part r \<Longrightarrow> one_more_seen r r'"
  "fixed_part r0 = fixed_part r \<Longrightarrow> one_more_seen r (remember_seen m r0)"
  by (auto simp: one_more_seen_def)

lemma fixed_part_update [simp]:
  "fixed_part (s\<lparr> ck_recv := a, n_recv := b \<rparr>) = fixed_part s" "fixed_part (s\<lparr> skipped := d \<rparr>) = fixed_part s"
  by (simp_all add: fixed_part_def)

lemma dh_ratchet_fixed: "fixed_part (snd (dh_ratchet C sk x r)) = fixed_part r"
  by (auto simp: fixed_part_def dh_ratchet_def Let_def split: sum.splits prod.splits)

lemma skip_until_fixed: "fixed_part (snd (skip_until C n r)) = fixed_part r"
  by (auto simp: fixed_part_def skip_until_def Let_def split: sum.splits prod.splits)

lemma decrypt_one_more:
  assumes "dr_decrypt C sk w r = (x, r')"
  shows "one_more_seen r r'"
proof -
  have rat: "fixed_part r1 = fixed_part r" if "(if c then dh_ratchet C sk y r else (Inr (), r)) = (z, r1)" for c y z r1
    using that dh_ratchet_fixed [of C sk y r] by (auto split: if_splits)
  have skip: "fixed_part r2 = fixed_part r1" if "skip_until C n r1 = (z, r2)" for n r1 z r2
    using that skip_until_fixed [of C n r1] by simp
  show ?thesis
    using assms
    by (auto simp: dr_decrypt_def sbind_def Let_def split: option.splits sum.splits prod.splits dest!: rat skip
        intro!: one_more_seenI(2) intro: one_more_seenI(1))
qed

text \<open>The receiver's state after it was handed further wire messages, accepted or not.\<close>

fun decrypt_all :: "crypto \<Rightarrow> (bytes \<times> string) list \<Rightarrow> double_ratchet \<Rightarrow> double_ratchet" where
  "decrypt_all C [] r = r"
| "decrypt_all C ((sk, w) # ws) r = decrypt_all C ws (snd (dr_decrypt C sk w r))"

lemma one_more_seen_keeps:
  assumes "one_more_seen r r'" and "finite (seen r)" and "card (seen r) < 4096"
  shows "seen r \<subseteq> seen r' \<and> finite (seen r') \<and> card (seen r') \<le> card (seen r) + 1
    \<and> session_id r' = session_id r \<and> conversation_id r' = conversation_id r \<and> my_uid r' = my_uid r"
  using assms by (auto simp: one_more_seen_def fixed_part_def remember_seen_def Let_def card_insert_if)

lemma decrypt_all_keeps:
  assumes "finite (seen r)" and "card (seen r) + length ws \<le> 4096"
  shows "seen r \<subseteq> seen (decrypt_all C ws r) \<and> session_id (decrypt_all C ws r) = session_id r
    \<and> conversation_id (decrypt_all C ws r) = conversation_id r \<and> my_uid (decrypt_all C ws r) = my_uid r"
  using assms
proof (induction C ws r rule: decrypt_all.induct)
  case (2 C sk w ws r)
  have "one_more_seen r (snd (dr_decrypt C sk w r))" by (rule decrypt_one_more [of C sk w r "fst (dr_decrypt C sk w r)"]) simp
  from one_more_seen_keeps [OF this] 2 show ?case by auto
qed simp

lemma replay_refused:
  assumes ok: "crypto_ok C" "aead_bound C" and fr: "fresh_ok fr" "utf8_valid p"
    and s: "addressed s r" "utf8_valid (session_id s)" "length (hk_send s) = 32"
    and r: "finite (seen r)" "card (seen r) + length ws < 4096"
    and enc: "dr_encrypt C fr p s = (Inr w, s')" and dec: "dr_decrypt C sk w r = (Inr q, r')"
  shows "dr_decrypt C sk' w (decrypt_all C ws r')
    = (Inl (ValueError ''Duplicate/replayed Double Ratchet message''), decrypt_all C ws r')"
proof -
  have sz: "sizes_ok C" using ok(1) by (rule crypto_okD)
  obtain s1 mk hk n where w: "w = sealed C fr mk hk s1 n p" "length hk = 32" "session_id s1 = session_id s"
    "conversation_id s1 = conversation_id s" "peer_uid s1 = peer_uid s"
    by (rule encrypt_sealed [OF sz fr(1) s(3) enc])
  have u: "utf8_valid (session_id s1)" using s(2) w(3) by simp
  obtain obj header mid r0 where d: "unwrap_wire PREFIX_DR w = Inr obj" "read_header C r obj = Inr (JObj header)"
    "message_id header = Inr mid" "r' = remember_seen mid r0" "seen r0 = seen r"
    "session_id r0 = session_id r" "conversation_id r0 = conversation_id r" "my_uid r0 = my_uid r"
    by (rule decrypt_remembers [OF dec])
  have "obj = sealed_obj C fr mk hk s1 n p" using d(1) unwrap_sealed [OF u fr(2)] w(1) by simp
  then have "header = dr_header s1 n"
    using d(2) read_header_sealed [OF crypto_okD(1) [OF ok(1)] fr(1) w(2) u] ok(2) by auto
  then have "mid = mid_of s1 n" using d(3) by (simp add: header_fields)
  then have "mid_of s1 n \<in> seen r'" using d(4,5) remember_seen_in [of r0] r by simp
  moreover have "seen r' \<subseteq> seen (decrypt_all C ws r') \<and> session_id (decrypt_all C ws r') = session_id r'
    \<and> conversation_id (decrypt_all C ws r') = conversation_id r' \<and> my_uid (decrypt_all C ws r') = my_uid r'"
    by (rule decrypt_all_keeps) (use one_more_seen_keeps [OF decrypt_one_more [OF dec] r(1)] r(2) in auto)
  moreover have "can_read C s1 (decrypt_all C ws r') hk"
    using ok s(1) w u d(4,6-8) calculation(2) by (simp add: can_read_def addressed_def)
  ultimately show ?thesis unfolding w(1) using decrypt_duplicate fr by blast
qed

subsection \<open>Bounds on what a peer can make the client keep\<close>

definition dr_bounded :: "double_ratchet \<Rightarrow> bool" where
  "dr_bounded r = (int (length (skipped r)) \<le> MAX_SKIP_KEYS \<and> finite (seen r) \<and> card (seen r) \<le> 4096)"

lemma newest_seen_card: "finite S \<Longrightarrow> card (set (newest_seen S)) \<le> 2048"
  by (rule order_trans [OF card_length]) (simp add: newest_seen_def Let_def)

lemma remember_bounded: "dr_bounded r \<Longrightarrow> dr_bounded (remember_seen m r)"
  using newest_seen_card [of "insert m (seen r)"]
  by (auto simp: dr_bounded_def remember_seen_def Let_def)

lemma skip_until_bounded: "preserves dr_bounded (skip_until C n)"
proof -
  have "int (length (skipped (skip_loop C (nat (n - n_recv s)) s))) \<le> MAX_SKIP_KEYS"
    if "int (length (skipped s)) + (n - n_recv s) \<le> MAX_SKIP_KEYS" "n_recv s \<le> n" for s
    using skip_loop_length [of C "nat (n - n_recv s)" s] that by linarith
  then show ?thesis by (auto simp: preserves_def skip_until_def Let_def dr_bounded_def)
qed

lemma dh_ratchet_bounded: "preserves dr_bounded (dh_ratchet C sk x)"
  by (auto simp: preserves_def dh_ratchet_def dr_bounded_def Let_def split: sum.splits prod.splits)

lemma dr_decrypt_bounded: "preserves dr_bounded (dr_decrypt C sk w)"
proof -
  have pop: "dr_bounded (s\<lparr> skipped := dpop (skipped s) k \<rparr>)" if "dr_bounded s" for s k
    using that length_delete_le [of k "skipped s"] by (simp add: dr_bounded_def)
  have rat: "preserves dr_bounded (\<lambda>s. if c s then dh_ratchet C sk x s else (Inr (), s))" for c x
    using dh_ratchet_bounded [of C sk x] by (simp add: preserves_def)
  have adv: "dr_bounded (s\<lparr> ck_recv := a, n_recv := b \<rparr>) = dr_bounded s" for s a b
    by (simp add: dr_bounded_def)
  have hit: "preserves dr_bounded (sbind (smod (\<lambda>s. s\<lparr> skipped := dpop (skipped s) k \<rparr>)) (\<lambda>_.
      sbind (slift (rbind (b64d_json key) f)) (\<lambda>plain. sbind (smod (remember_seen m)) (\<lambda>_. sret plain))))" for k key f m
    by (intro preserves_sbind preserves_pure preserves_smod) (simp_all add: pop remember_bounded)
  have miss: "preserves dr_bounded (sbind (\<lambda>s. if c s then dh_ratchet C sk x s else (Inr (), s)) (\<lambda>_.
      sbind (skip_until C n) (\<lambda>_. sbind (sget (\<lambda>s. fst (kdf_ck C (ck_recv s)))) (\<lambda>mk.
      sbind (smod (\<lambda>s. s\<lparr> ck_recv := snd (kdf_ck C (ck_recv s)), n_recv := n_recv s + 1 \<rparr>)) (\<lambda>_.
      sbind (slift (f mk)) (\<lambda>plain. sbind (smod (remember_seen m)) (\<lambda>_. sret plain)))))))" for c x n f m
    by (intro preserves_sbind preserves_pure preserves_smod rat skip_until_bounded) (simp_all add: adv remember_bounded)
  show ?thesis
    unfolding dr_decrypt_def Let_def
    by (intro preserves_sbind preserves_pure) (auto intro: hit miss split: option.split)
qed

subsection \<open>Saving and loading\<close>

lemma py_int_or_0 [simp]: "py_int (py_or (JInt i) (JInt 0)) = Inr i"
  by (simp add: py_or_def)

lemma to_dict_fields:
  "key_field (to_dict s) ''root_key'' = Inr (root_key s)" "key_field (to_dict s) ''dh_pk'' = Inr (dh_pk s)"
  "key_field (to_dict s) ''dh_sk'' = Inr (dh_sk s)" "opt_key_field (to_dict s) ''remote_dh'' = Inr (remote_dh s)"
  "key_field (to_dict s) ''ck_send'' = Inr (ck_send s)" "key_field (to_dict s) ''ck_recv'' = Inr (ck_recv s)"
  "opt_key_field (to_dict s) ''hk_send'' = Inr (hk_send s)" "opt_key_field (to_dict s) ''hk_recv'' = Inr (hk_recv s)"
  by (simp_all add: key_field_def opt_key_field_def to_dict_def dget_def truthy_def)

lemma to_dict_ints:
  "dget (to_dict s) ''n_send'' (JInt 0) = JInt (n_send s)" "dget (to_dict s) ''n_recv'' (JInt 0) = JInt (n_recv s)"
  "dget (to_dict s) ''pn'' (JInt 0) = JInt (pn s)" "dget (to_dict s) ''skipped'' (JObj []) = JObj (skipped s)"
  "int_or_0 (to_dict s) ''conversation_id'' = Inr (conversation_id s)" "int_or_0 (to_dict s) ''my_uid'' = Inr (my_uid s)"
  "int_or_0 (to_dict s) ''peer_uid'' = Inr (peer_uid s)"
  "int_or_0 (to_dict s) ''sender_identity_version'' = Inr (sender_identity_version s)"
  "dget (to_dict s) ''needs_send_ratchet'' (JBool False) = JBool (needs_send_ratchet s)"
  "dget (to_dict s) ''session_id'' (JStr []) = JStr (session_id s)"
  "dget (to_dict s) ''seen'' (JArr []) = JArr (map JStr (newest_seen (seen s)))"
  by (simp_all add: to_dict_def dget_def int_or_0_def)

lemma from_to_dict:
  assumes "[] \<notin> seen s"
  shows "from_dict (to_dict s) = Inr (s\<lparr> seen := set (newest_seen (seen s)) \<rparr>)"
proof -
  have "[] \<notin> set (newest_seen (seen s))"
  proof (cases "finite (seen s)")
    case True
    with newest_seen_subset assms show ?thesis by blast
  qed (simp add: newest_seen_def)
  then have "set (map py_str (filter truthy (map JStr (newest_seen (seen s))))) = set (newest_seen (seen s))"
    by (auto simp: filter_map o_def truthy_def image_iff)
  moreover have "py_str (py_or (JStr x) (JStr [])) = x" for x by (simp add: py_or_def)
  ultimately show ?thesis
    unfolding from_dict_def to_dict_fields to_dict_ints rbind_Inr py_int_simps dict_of_JObj as_list_JArr by simp
qed

lemma newest_seen_small: "finite S \<Longrightarrow> card S \<le> 2048 \<Longrightarrow> set (newest_seen S) = S"
  by (simp add: newest_seen_def Let_def)

lemma to_dict_wire_ok:
  assumes "wire_ok (JObj (skipped s))" and "utf8_valid (session_id s)" and "\<forall>m \<in> seen s. utf8_valid m" and "finite (seen s)"
  shows "wire_ok (JObj (to_dict s))"
proof -
  have "list_all utf8_valid (newest_seen (seen s))"
    using newest_seen_subset [OF assms(4)] assms(3) by (auto simp: list_all_iff)
  then show ?thesis
    using assms(1,2) by (auto simp: to_dict_def ascii_utf8 list_all_iff)
qed

lemma chain_start:
  assumes "crypto_ok C" and "aead_bound C" and "parties C U V W s r" and "in_step s r"
  shows "chain_inv C s (ck_send s) (n_send s) {} 0 r"
proof -
  have own: "own_key C s" "addressed s r" "utf8_valid (session_id s)" "skipped r = []" "seen_ok V r"
    using assms(3) by (auto simp: parties_def)
  have "dh_pk s \<noteq> []" using own(1) sizes_okD(8) [OF crypto_okD(5) [OF assms(1)], of "dh_sk s"] by (auto simp: own_key_def)
  moreover have "can_read C s r (hk_send s)" using assms(1,2) own by (simp add: can_read_def own_key_def)
  moreover have "mid_of s (n_send s + int i) \<notin> seen r" for i
    by (rule seen_ok_in_chain [OF own(5)]) (use own(2) assms(4) in \<open>auto simp: addressed_def in_step_def\<close>)
  moreover have "finite (seen r)" using own(5) by (simp add: seen_ok_def)
  ultimately show ?thesis using assms(4) own(4) by (simp add: chain_inv_def in_step_def)
qed

lemma out_of_order:
  assumes "crypto_ok C" and "aead_bound C" and "synced C U s r" and "in_step s r" and "\<not> needs_send_ratchet s"
    and "list_all (\<lambda>(fr, p). fresh_ok fr \<and> utf8_valid p) ms" and "length ms \<le> 1000"
    and "distinct js" and "\<forall>j \<in> set js. j < length ms"
  shows "recv_all C sk (map (\<lambda>j. send_all C ms s ! j) js) r = map (\<lambda>j. Inr (snd (ms ! j))) js"
proof -
  from assms(3) obtain V W where pt: "parties C U V W s r" unfolding synced_def by blast
  have "length (hk_send s) = 32" using pt by (simp add: parties_def own_key_def)
  then have ws: "map (\<lambda>j. send_all C ms s ! j) js =
      map (\<lambda>j. Inr (sealed C (fst (ms ! j)) (msg_key C (ck_send s) j) (hk_send s) s (n_send s + int j) (snd (ms ! j)))) js"
    using send_all_nth [OF crypto_okD(5) [OF assms(1)], of ms s] assms(5,6,9)
    by (auto simp: list_all_iff case_prod_unfold)
  show ?thesis
    unfolding ws by (rule recv_any_order [OF chain_start [OF assms(1,2) pt assms(4)] assms(8) _ assms(9) _ assms(6)])
      (use assms(7) in \<open>simp_all add: MAX_SKIP_KEYS_def\<close>)
qed

text \<open>
  The copy of the header is not enforced: whatever the encrypted copy says, a message with a
  visible header is read with a header and never rejected by \<open>_read_header\<close>; when the copies
  differ the visible one is used.
\<close>

lemma header_mismatch_ignored:
  assumes "dget obj ''h'' JNull = JObj visible" and "visible \<noteq> []"
    and "aead_decrypt C (hk_recv s) (dget obj ''eh'' JNull) AAD_HEADER = Inr header" and "\<not> py_eq header (JObj visible)"
  shows "read_header C s obj = Inr (JObj visible)"
  using assms by (simp add: read_header_def Let_def)

end
