(* ===== verification/Pqxdh.thy ===== *)
theory Pqxdh
  imports Ratchet
begin

text \<open>
  The PQXDH handshake of \<open>client/crypto_engine/secure_protocol.py\<close>
  (\<open>pqxdh_initiate\<close>, \<open>pqxdh_respond\<close>, \<open>safety_fingerprint\<close>). The responder mutates
  its local store (one-time prekeys are popped), so it is an action on that store. The values drawn
  by the initiator are the record \<open>init_fresh\<close>.
\<close>

record init_fresh =
  i_kem :: nat
  i_eph :: bytes
  i_sid :: bytes
  i_dr :: bytes
  i_nonce :: bytes
  i_ts :: int

definition upper_char :: "char \<Rightarrow> char" where
  "upper_char c = (if CHR ''a'' \<le> c \<and> c \<le> CHR ''z'' then char_of (code c - 32) else c)"

definition safety_fingerprint :: "crypto \<Rightarrow> bytes \<Rightarrow> bytes \<Rightarrow> string" where
  "safety_fingerprint C a b =
     (let (left, right) = (if a \<le> b then (a, b) else (b, a));
          h = map upper_char (to_hex (sha256 C (''SecChatSafety'' @ [CHR 0x00] @ left @ right)))
      in join '' '' (map (\<lambda>i. take 4 (drop (4 * i) h)) [0, 1, 2, 3, 4, 5, 6, 7]))"

lemma safety_fingerprint_sym: "safety_fingerprint C a b = safety_fingerprint C b a"
  by (auto simp: safety_fingerprint_def)

subsection \<open>The initiator\<close>

definition jkey_bytes :: "json \<Rightarrow> string \<Rightarrow> bytes res" where
  "jkey_bytes j k = rbind (jkey j k) b64d_json"

definition init_payload ::
  "string \<Rightarrow> int \<Rightarrow> int \<Rightarrow> int \<Rightarrow> bytes \<Rightarrow> int \<times> bytes \<times> bytes \<Rightarrow> bytes \<Rightarrow> int \<times> int \<times> int \<times> int \<Rightarrow> json \<Rightarrow> bytes \<Rightarrow> bytes
     \<Rightarrow> int option \<Rightarrow> dict" where
  "init_payload sid conv me peer identity_pk curve eph_pk ids alg pq_ct dr_pub version =
     (case (curve, ids) of ((curve_key_id, curve_pk, curve_sig), (curve_spk_id, curve_otk_id, pq_spk_id, pq_otk_id)) \<Rightarrow>
     [(''v'', JInt SECCHAT_SCHEMA), (''sid'', JStr sid), (''conversation_id'', JInt conv),
      (''sender_uid'', JInt me), (''recipient_uid'', JInt peer),
      (''identity_pk'', JStr (b64e identity_pk)),
      (''sender_curve_spk_id'', JInt curve_key_id),
      (''sender_curve_spk'', JStr (b64e curve_pk)),
      (''sender_curve_spk_sig'', JStr (b64e curve_sig)),
      (''eph_curve_pk'', JStr (b64e eph_pk)),
      (''curve_spk_id'', JInt curve_spk_id), (''curve_otk_id'', JInt curve_otk_id),
      (''pq_spk_id'', JInt pq_spk_id), (''pq_otk_id'', JInt pq_otk_id),
      (''pq_kem_alg'', alg), (''pq_ct'', JStr (b64e pq_ct)), (''dr_pub'', JStr (b64e dr_pub))]
     @ (case version of None \<Rightarrow> [] | Some v \<Rightarrow> [(''sender_identity_version'', JInt v)]))"

definition pqxdh_initiate ::
  "crypto \<Rightarrow> init_fresh \<Rightarrow> dict \<Rightarrow> dict \<Rightarrow> bytes \<Rightarrow> bytes \<Rightarrow> int \<Rightarrow> int \<Rightarrow> string \<Rightarrow> int option \<Rightarrow> int
     \<Rightarrow> (string \<times> double_ratchet \<times> string) res" where
  "pqxdh_initiate C fr bundle local_store identity_pk identity_sk me peer initial_body version conv =
     rbind (verify_bundle C bundle) (\<lambda>_.
     rbind (py_int (dget bundle ''pq_otk_id'' (JInt (- 1)))) (\<lambda>pq_otk_id.
     rbind (if 0 < pq_otk_id then Inr (dget bundle ''pq_otk_alg'' JNull) else dkey bundle ''pq_kem_alg'') (\<lambda>alg.
     rbind (if truthy (dget bundle ''pq_otk'' JNull) then key_field bundle ''pq_otk'' else key_field bundle ''pq_spk'') (\<lambda>pq_pk.
     rbind (kem_encapsulate C (i_kem fr) alg pq_pk) (\<lambda>(pq_ct, pq_ss).
     let eph_sk = i_eph fr; eph_pk = x_pub C eph_sk
     in rbind (dkey local_store ''curve_signed'') (\<lambda>local_curve.
        rbind (jkey_bytes local_curve ''pk'') (\<lambda>local_curve_pk.
        rbind (jkey_bytes local_curve ''sk'') (\<lambda>local_curve_sk.
        rbind (key_field bundle ''curve_spk'') (\<lambda>peer_curve_spk.
        rbind (py_int (dget bundle ''curve_otk_id'' (JInt (- 1)))) (\<lambda>curve_otk_id.
        rbind (if 0 < curve_otk_id then key_field bundle ''curve_otk'' else Inr []) (\<lambda>peer_curve_otk.
        rbind (x25519_dh C local_curve_sk peer_curve_spk) (\<lambda>dh1.
        rbind (x25519_dh C eph_sk peer_curve_spk) (\<lambda>dh2.
        rbind (if peer_curve_otk \<noteq> [] then x25519_dh C eph_sk peer_curve_otk else Inr []) (\<lambda>dh3.
        let root = hkdf C (dh1 @ dh2 @ dh3 @ pq_ss) ''SecChat-PQXDH'' None 32;
            sid = b64e (i_sid fr);
            state = set_context conv me peer version (dr_new C (i_dr fr) (i_sid fr) root True [] sid);
            (mk, ck) = kdf_ck C (ck_send state);
            state = state\<lparr> ck_send := ck, n_send := n_send state + 1 \<rparr>
        in rbind (rbind (jkey local_curve ''key_id'') py_int) (\<lambda>curve_key_id.
           rbind (sign_prekey C identity_sk ''curve-signed'' curve_key_id ''X25519'' local_curve_pk) (\<lambda>curve_sig.
           rbind (rbind (dkey bundle ''curve_spk_id'') py_int) (\<lambda>curve_spk_id.
           rbind (rbind (dkey bundle ''pq_spk_id'') py_int) (\<lambda>pq_spk_id.
           let payload = init_payload sid conv me peer identity_pk (curve_key_id, local_curve_pk, curve_sig) eph_pk
                          (curve_spk_id, curve_otk_id, pq_spk_id, pq_otk_id) alg pq_ct (dh_pk state) version
           in rbind (aead_encrypt C (i_nonce fr) mk (JObj [(''ts'', JInt (i_ts fr)), (''body'', JStr initial_body)])
                       (canonical (JObj payload))) (\<lambda>ct.
              rbind (key_field bundle ''identity_pk'') (\<lambda>peer_identity.
              Inr (PREFIX_PQ_INIT @ json_b64 (JObj (payload @ [(''ct'', JStr ct)])), state,
                   safety_fingerprint C identity_pk peer_identity)))))))))))))))))))))"

subsection \<open>The responder\<close>

definition pop_otk :: "string \<Rightarrow> int \<Rightarrow> (dict, json) act" where
  "pop_otk coll kid st = (case map_of st coll of
       None \<Rightarrow> (Inr JNull, st)
     | Some (JObj d) \<Rightarrow> (Inr (dget d (show_int kid) JNull), dset st coll (JObj (dpop d (show_int kid))))
     | Some _ \<Rightarrow> (Inl (AttributeError ''pop''), st))"

definition opt_int :: "json \<Rightarrow> int option res" where
  "opt_int j = (if j = JNull then Inr None else rbind (py_int j) (\<lambda>i. Inr (Some i)))"

definition signed_key :: "string \<Rightarrow> (dict, bytes) act" where
  "signed_key k st = (rbind (dkey st k) (\<lambda>j. jkey_bytes j ''sk''), st)"

definition take_curve_otk :: "int \<Rightarrow> (dict, bytes) act" where
  "take_curve_otk kid =
     (if 0 < kid
      then sbind (pop_otk ''curve_one_time'' kid) (\<lambda>hit. slift (if truthy hit then jkey_bytes hit ''sk'' else Inr []))
      else sret [])"

definition take_pq_key :: "int \<Rightarrow> (dict, bytes) act" where
  "take_pq_key kid =
     (if 0 < kid
      then sbind (pop_otk ''pq_one_time'' kid) (\<lambda>hit.
           if truthy hit then slift (jkey_bytes hit ''sk'') else signed_key ''pq_signed'')
      else signed_key ''pq_signed'')"

definition respond_keys :: "crypto \<Rightarrow> dict \<Rightarrow> (dict, bytes \<times> bytes \<times> bytes) act" where
  "respond_keys C obj =
     sbind (slift (py_int (dget obj ''curve_otk_id'' (JInt (- 1))))) (\<lambda>curve_otk_id.
     sbind (slift (py_int (dget obj ''pq_otk_id'' (JInt (- 1))))) (\<lambda>pq_otk_id.
     sbind (signed_key ''curve_signed'') (\<lambda>curve_sk.
     sbind (take_curve_otk curve_otk_id) (\<lambda>otk_sk.
     sbind (slift (dkey obj ''pq_kem_alg'')) (\<lambda>_.
     sbind (take_pq_key pq_otk_id) (\<lambda>pq_sk.
     sret (curve_sk, otk_sk, pq_sk)))))))"

definition respond_finish ::
  "crypto \<Rightarrow> bytes \<Rightarrow> bytes \<Rightarrow> dict \<Rightarrow> bytes \<times> bytes \<times> bytes \<Rightarrow> bytes \<Rightarrow> int \<Rightarrow> (string \<times> double_ratchet) res" where
  "respond_finish C new_sk sid_bytes obj keys sender_curve sender_uid = (case keys of (curve_sk, otk_sk, pq_sk) \<Rightarrow>
     rbind (key_field obj ''eph_curve_pk'') (\<lambda>eph_pk.
     rbind (x25519_dh C curve_sk sender_curve) (\<lambda>dh1.
     rbind (x25519_dh C curve_sk eph_pk) (\<lambda>dh2.
     rbind (if otk_sk \<noteq> [] then x25519_dh C otk_sk eph_pk else Inr []) (\<lambda>dh3.
     rbind (key_field obj ''pq_ct'') (\<lambda>pq_ct.
     rbind (dkey obj ''pq_kem_alg'') (\<lambda>alg.
     rbind (kem_decapsulate C alg pq_sk pq_ct) (\<lambda>pq_ss.
     let root = hkdf C (dh1 @ dh2 @ dh3 @ pq_ss) ''SecChat-PQXDH'' None 32
     in rbind (key_field obj ''dr_pub'') (\<lambda>remote.
        rbind (int_or_0 obj ''conversation_id'') (\<lambda>conv.
        rbind (int_or_0 obj ''recipient_uid'') (\<lambda>me.
        rbind (opt_int (dget obj ''sender_identity_version'' JNull)) (\<lambda>version.
        let state = set_context conv me sender_uid version
              (dr_new C new_sk sid_bytes root False remote (py_str (py_or (dget obj ''sid'' (JStr [])) (JStr []))));
            (mk, ck) = kdf_ck C (ck_recv state);
            state = state\<lparr> ck_recv := ck, n_recv := n_recv state + 1 \<rparr>
        in rbind (open_body C obj mk (canonical (JObj (dpop obj ''ct'')))) (\<lambda>plain.
           Inr (plain, state))))))))))))))"

definition pqxdh_respond ::
  "crypto \<Rightarrow> bytes \<Rightarrow> bytes \<Rightarrow> int option \<Rightarrow> string \<Rightarrow> (dict, string \<times> double_ratchet \<times> string \<times> int) act" where
  "pqxdh_respond C new_sk sid_bytes expected_uid wire =
     sbind (slift (unwrap_wire PREFIX_PQ_INIT wire)) (\<lambda>obj.
     sbind (slift (rbind (dkey obj ''sender_uid'') py_int)) (\<lambda>sender_uid.
     sbind (slift (case expected_uid of None \<Rightarrow> Inr ()
                   | Some u \<Rightarrow> rbind (rbind (dkey obj ''recipient_uid'') py_int) (\<lambda>ru.
                       rguard (ru \<noteq> u) (ValueError ''PQXDH recipient mismatch'') (Inr ())))) (\<lambda>_.
     sbind (slift (key_field obj ''identity_pk'')) (\<lambda>sender_identity.
     sbind (slift (key_field obj ''sender_curve_spk'')) (\<lambda>sender_curve.
     sbind (slift (verify_signed C obj sender_identity ''curve-signed'' ''sender_curve_spk_id'' (Inr (JStr ''X25519''))
                     ''sender_curve_spk'' ''sender_curve_spk_sig'')) (\<lambda>_.
     sbind (respond_keys C obj) (\<lambda>keys.
     sbind (slift (respond_finish C new_sk sid_bytes obj keys sender_curve sender_uid)) (\<lambda>(plain, state).
     sbind (\<lambda>st. (key_field st ''identity_pk'', st)) (\<lambda>own_identity.
     sret (plain, state, safety_fingerprint C own_identity sender_identity, sender_uid))))))))))"

subsection \<open>What both sides compute\<close>

text \<open>The key material of a served bundle, as the two sides name it.\<close>

definition served_kem :: "bytes \<Rightarrow> bytes \<Rightarrow> served_pq \<Rightarrow> bytes \<times> bytes" where
  "served_kem qpk qsk q = (case q of None \<Rightarrow> (qpk, qsk) | Some (kid, pk, sk) \<Rightarrow> (pk, sk))"

definition served_id :: "(int \<times> 'a) option \<Rightarrow> int" where
  "served_id x = (case x of None \<Rightarrow> - 1 | Some (kid, _) \<Rightarrow> kid)"

definition served_otk :: "served_curve \<Rightarrow> bytes" where
  "served_otk c = (case c of None \<Rightarrow> [] | Some (kid, sk) \<Rightarrow> sk)"

lemma bundle_fields:
  assumes b: "bundle_ok C isk local b csk alg qpk qsk c q" and sz: "sizes_ok C"
  shows "py_int (dget b ''pq_otk_id'' (JInt (- 1))) = Inr (served_id q)"
    and "py_int (dget b ''curve_otk_id'' (JInt (- 1))) = Inr (served_id c)"
    and "(if 0 < served_id q then Inr (dget b ''pq_otk_alg'' JNull) else dkey b ''pq_kem_alg'') = Inr (JStr alg)"
    and "(if truthy (dget b ''pq_otk'' JNull) then key_field b ''pq_otk'' else key_field b ''pq_spk'')
           = Inr (fst (served_kem qpk qsk q))"
    and "key_field b ''curve_spk'' = Inr (x_pub C csk)"
    and "(if 0 < served_id c then key_field b ''curve_otk'' else Inr []) = Inr (if c = None then [] else x_pub C (served_otk c))"
    and "\<exists>i. rbind (dkey b ''curve_spk_id'') py_int = Inr i" and "\<exists>i. rbind (dkey b ''pq_spk_id'') py_int = Inr i"
    and "key_field b ''identity_pk'' = Inr (ed_pub C isk)"
    and "is_ascii alg" and "\<exists>i. kem_gen C alg i = Some (served_kem qpk qsk q)" and "length csk = 32"
    and "c \<noteq> None \<Longrightarrow> length (served_otk c) = 32"
proof -
  from b obtain lc lq where spk: "spk_served C isk local b csk alg qpk qsk"
    and c: "curve_served C isk lc b c" and q: "pq_served C isk alg lq b q"
    by (auto simp: bundle_ok_def)
  have nz: "c = Some (k, x) \<Longrightarrow> 0 < k" "q = Some (k, y) \<Longrightarrow> 0 < k" for k x y
    using c q by (auto simp: curve_served_def curve_entry_def pq_served_def pq_entry_def split: prod.splits)
  have pkne: "q = Some (k, pk, sk) \<Longrightarrow> pk \<noteq> []" for k pk sk
    using q sizes_okD(9) [OF sz] by (auto simp: pq_served_def pq_entry_def)
  show "py_int (dget b ''pq_otk_id'' (JInt (- 1))) = Inr (served_id q)"
    "py_int (dget b ''curve_otk_id'' (JInt (- 1))) = Inr (served_id c)"
    using c q by (auto simp: curve_served_def pq_served_def dget_def served_id_def split: option.splits prod.splits)
  show "(if 0 < served_id q then Inr (dget b ''pq_otk_alg'' JNull) else dkey b ''pq_kem_alg'') = Inr (JStr alg)"
    using spk q nz by (auto simp: served_id_def spk_served_def pq_served_def dkey_def dget_def split: option.splits prod.splits)
  show "(if truthy (dget b ''pq_otk'' JNull) then key_field b ''pq_otk'' else key_field b ''pq_spk'')
           = Inr (fst (served_kem qpk qsk q))"
    using spk q pkne
    by (auto simp: served_kem_def spk_served_def pq_served_def dkey_def dget_def key_field_def truthy_def split: option.splits prod.splits)
  show "key_field b ''curve_spk'' = Inr (x_pub C csk)" "\<exists>i. rbind (dkey b ''curve_spk_id'') py_int = Inr i"
    "\<exists>i. rbind (dkey b ''pq_spk_id'') py_int = Inr i" "key_field b ''identity_pk'' = Inr (ed_pub C isk)" "length csk = 32"
    using spk by (auto simp: spk_served_def key_field_def dkey_def)
  show "(if 0 < served_id c then key_field b ''curve_otk'' else Inr []) = Inr (if c = None then [] else x_pub C (served_otk c))"
    using c nz by (auto simp: served_id_def served_otk_def curve_served_def key_field_def dkey_def split: option.splits prod.splits)
  show "is_ascii alg" using spk by (auto simp: spk_served_def sign_prekey_def sig_msg_def ascii_encode_def split: if_splits)
  show "\<exists>i. kem_gen C alg i = Some (served_kem qpk qsk q)"
    using spk q by (auto simp: served_kem_def spk_served_def pq_served_def pq_entry_def split: option.splits prod.splits)
  show "c \<noteq> None \<Longrightarrow> length (served_otk c) = 32"
    using c by (auto simp: served_otk_def curve_served_def curve_entry_def split: option.splits prod.splits)
qed

definition init_fresh_ok :: "init_fresh \<Rightarrow> bool" where
  "init_fresh_ok fr = (length (i_eph fr) = 32 \<and> length (i_sid fr) = 16 \<and> length (i_dr fr) = 32 \<and> length (i_nonce fr) = 12)"

text \<open>The initiator's own signed curve prekey.\<close>

definition own_prekey :: "crypto \<Rightarrow> dict \<Rightarrow> int \<Rightarrow> bytes \<Rightarrow> bool" where
  "own_prekey C store kid sk = (length sk = 32 \<and> map_of store ''curve_signed'' =
     Some (JObj [(''key_id'', JInt kid), (''pk'', JStr (b64e (x_pub C sk))), (''sk'', JStr (b64e sk))]))"

lemma own_prekey_fields:
  assumes "own_prekey C store kid sk"
  obtains j where "dkey store ''curve_signed'' = Inr j" and "jkey_bytes j ''pk'' = Inr (x_pub C sk)"
    and "jkey_bytes j ''sk'' = Inr sk" and "rbind (jkey j ''key_id'') py_int = Inr kid"
  using assms by (simp add: own_prekey_def dkey_def jkey_bytes_def)

text \<open>The ratchet states the handshake produces from a root key.\<close>

definition init_state :: "crypto \<Rightarrow> init_fresh \<Rightarrow> bytes \<Rightarrow> int \<Rightarrow> int \<Rightarrow> int \<Rightarrow> int option \<Rightarrow> double_ratchet" where
  "init_state C fr root conv me peer version =
     (let st = set_context conv me peer version (dr_new C (i_dr fr) (i_sid fr) root True [] (b64e (i_sid fr)))
      in st\<lparr> ck_send := snd (kdf_ck C (ck_send st)), n_send := 1 \<rparr>)"

definition resp_state :: "crypto \<Rightarrow> bytes \<Rightarrow> bytes \<Rightarrow> bytes \<Rightarrow> string \<Rightarrow> bytes \<Rightarrow> int \<Rightarrow> int \<Rightarrow> int \<Rightarrow> int option \<Rightarrow> double_ratchet" where
  "resp_state C new_sk sid_bytes remote sid root conv me peer version =
     (let st = set_context conv me peer version (dr_new C new_sk sid_bytes root False remote sid)
      in st\<lparr> ck_recv := snd (kdf_ck C (ck_recv st)), n_recv := 1 \<rparr>)"

lemma set_context_fields [simp]:
  "ck_send (set_context a b c v s) = ck_send s" "ck_recv (set_context a b c v s) = ck_recv s"
  "n_send (set_context a b c v s) = n_send s" "n_recv (set_context a b c v s) = n_recv s"
  "dh_pk (set_context a b c v s) = dh_pk s" "dh_sk (set_context a b c v s) = dh_sk s"
  "remote_dh (set_context a b c v s) = remote_dh s" "root_key (set_context a b c v s) = root_key s"
  "hk_send (set_context a b c v s) = hk_send s" "hk_recv (set_context a b c v s) = hk_recv s"
  "skipped (set_context a b c v s) = skipped s" "seen (set_context a b c v s) = seen s"
  "needs_send_ratchet (set_context a b c v s) = needs_send_ratchet s" "session_id (set_context a b c v s) = session_id s"
  "pn (set_context a b c v s) = pn s"
  "conversation_id (set_context a b c v s) = int_or_else a (conversation_id s)"
  "my_uid (set_context a b c v s) = int_or_else b (my_uid s)" "peer_uid (set_context a b c v s) = int_or_else c (peer_uid s)"
  by (simp_all add: set_context_def Let_def split: option.splits)

lemma dr_new_fields [simp]:
  "ck_send (dr_new C k b root i rem sid) = fst (initial_chains C root i)"
  "ck_recv (dr_new C k b root i rem sid) = snd (initial_chains C root i)"
  "n_send (dr_new C k b root i rem sid) = 0" "n_recv (dr_new C k b root i rem sid) = 0"
  "dh_pk (dr_new C k b root i rem sid) = x_pub C k" "dh_sk (dr_new C k b root i rem sid) = k"
  "remote_dh (dr_new C k b root i rem sid) = rem" "root_key (dr_new C k b root i rem sid) = root"
  "skipped (dr_new C k b root i rem sid) = []" "seen (dr_new C k b root i rem sid) = {}"
  "needs_send_ratchet (dr_new C k b root i rem sid) = (\<not> i \<and> rem \<noteq> [])"
  "session_id (dr_new C k b root i rem sid) = (if sid \<noteq> [] then sid else b64e b)"
  "conversation_id (dr_new C k b root i rem sid) = 0" "my_uid (dr_new C k b root i rem sid) = 0"
  "peer_uid (dr_new C k b root i rem sid) = 0"
  by (simp_all add: dr_new_def Let_def split: prod.splits)

lemma dr_new_hk: "sizes_ok C \<Longrightarrow> length (hk_send (dr_new C k b root i rem sid)) = 32"
  by (simp add: dr_new_def Let_def hkdf_def sizes_okD split: prod.splits)

lemma initiate_token:
  assumes ok: "crypto_ok C" "oqs_present C" and b: "bundle_ok C isk peer_store b csk alg qpk qsk c q"
    and own: "own_prekey C store kid sk" "length me_sk = 32" and fr: "init_fresh_ok fr"
  obtains ct ss d1 d2 d3 sig spk pqspk where
    "kem_enc C alg (fst (served_kem qpk qsk q)) (i_kem fr) = Some (ct, ss)"
    and "kem_dec C alg (snd (served_kem qpk qsk q)) ct = Some ss"
    and "x25519_dh C csk (x_pub C sk) = Inr d1" and "x25519_dh C csk (x_pub C (i_eph fr)) = Inr d2"
    and "(if c \<noteq> None then x25519_dh C (served_otk c) (x_pub C (i_eph fr)) else Inr []) = Inr d3"
    and "sign_prekey C me_sk ''curve-signed'' kid ''X25519'' (x_pub C sk) = Inr sig"
    and "pqxdh_initiate C fr b store (ed_pub C me_sk) me_sk me peer body version conv =
      (let root = hkdf C (d1 @ d2 @ d3 @ ss) ''SecChat-PQXDH'' None 32;
           payload = init_payload (b64e (i_sid fr)) conv me peer (ed_pub C me_sk) (kid, x_pub C sk, sig) (x_pub C (i_eph fr))
             (spk, served_id c, pqspk, served_id q) (JStr alg) ct (x_pub C (i_dr fr)) version;
           mk = fst (kdf_ck C (fst (initial_chains C root True)))
       in Inr (PREFIX_PQ_INIT @ json_b64 (JObj (payload @ [(''ct'', JStr (b64e (i_nonce fr
                 @ aes_enc C mk (i_nonce fr) (dumps_compact (JObj [(''ts'', JInt (i_ts fr)), (''body'', JStr body)])) (canonical (JObj payload)))))])),
               init_state C fr root conv me peer version, safety_fingerprint C (ed_pub C me_sk) (ed_pub C isk)))"
proof -
  note cok = crypto_okD [OF ok(1)]
  note bf = bundle_fields [OF b cok(5)]
  obtain j where j: "dkey store ''curve_signed'' = Inr j" "jkey_bytes j ''pk'' = Inr (x_pub C sk)"
    "jkey_bytes j ''sk'' = Inr sk" "rbind (jkey j ''key_id'') py_int = Inr kid"
    by (rule own_prekey_fields [OF own(1)])
  have len: "length sk = 32" "length (i_eph fr) = 32" "length (i_nonce fr) = 12" "length (i_sid fr) = 16"
    using own(1) fr by (auto simp: own_prekey_def init_fresh_ok_def)
  obtain i where "kem_gen C alg i = Some (served_kem qpk qsk q)" using bf(11) by blast
  then obtain ct ss where kem: "kem_enc C alg (fst (served_kem qpk qsk q)) (i_kem fr) = Some (ct, ss)"
    "kem_dec C alg (snd (served_kem qpk qsk q)) ct = Some ss"
    using cok(4) unfolding kem_ok_def by (metis prod.collapse)
  obtain d1 where d1: "x25519_dh C sk (x_pub C csk) = Inr d1" "x25519_dh C csk (x_pub C sk) = Inr d1"
    by (rule x25519_agree [OF cok(3,5) len(1) bf(12)])
  obtain d2 where d2: "x25519_dh C (i_eph fr) (x_pub C csk) = Inr d2" "x25519_dh C csk (x_pub C (i_eph fr)) = Inr d2"
    by (rule x25519_agree [OF cok(3,5) len(2) bf(12)])
  obtain d3 where d3: "(if c \<noteq> None then x25519_dh C (served_otk c) (x_pub C (i_eph fr)) else Inr []) = Inr d3"
    "(if (if c = None then [] else x_pub C (served_otk c)) \<noteq> [] then x25519_dh C (i_eph fr) (if c = None then [] else x_pub C (served_otk c))
      else Inr []) = Inr d3"
  proof (cases "c = None")
    case False
    have "x_pub C (served_otk c) \<noteq> []" using sizes_okD(8) [OF cok(5), of "served_otk c"] by auto
    moreover obtain e where "x25519_dh C (i_eph fr) (x_pub C (served_otk c)) = Inr e"
      "x25519_dh C (served_otk c) (x_pub C (i_eph fr)) = Inr e"
      by (rule x25519_agree [OF cok(3,5) len(2) bf(13) [OF False]])
    ultimately show ?thesis using that [of e] False by simp
  qed (use that in simp)
  obtain sig where sig: "sign_prekey C me_sk ''curve-signed'' kid ''X25519'' (x_pub C sk) = Inr sig"
    using sign_prekey_total [OF own(2), of "''curve-signed''" "''X25519''" C kid "x_pub C sk"] by auto
  obtain spk pqspk where ids: "rbind (dkey b ''curve_spk_id'') py_int = Inr spk" "rbind (dkey b ''pq_spk_id'') py_int = Inr pqspk"
    using bf(7,8) by blast
  have kenc: "kem_encapsulate C (i_kem fr) (JStr alg) (fst (served_kem qpk qsk q)) = Inr (ct, ss)"
    using kem ok(2) by (simp add: kem_encapsulate_def alg_text_def)
  let ?root = "hkdf C (d1 @ d2 @ d3 @ ss) ''SecChat-PQXDH'' None 32"
  let ?st = "set_context conv me peer version (dr_new C (i_dr fr) (i_sid fr) ?root True [] (b64e (i_sid fr)))"
  obtain mk ck where k: "kdf_ck C (fst (initial_chains C ?root True)) = (mk, ck)" by (cases "kdf_ck C (fst (initial_chains C ?root True))")
  have "length mk = 32" using kdf_lengths(3) [OF cok(5)] k by (metis fst_conv)
  then have "pqxdh_initiate C fr b store (ed_pub C me_sk) me_sk me peer body version conv =
      (let root = hkdf C (d1 @ d2 @ d3 @ ss) ''SecChat-PQXDH'' None 32;
           payload = init_payload (b64e (i_sid fr)) conv me peer (ed_pub C me_sk) (kid, x_pub C sk, sig) (x_pub C (i_eph fr))
             (spk, served_id c, pqspk, served_id q) (JStr alg) ct (x_pub C (i_dr fr)) version;
           mk = fst (kdf_ck C (fst (initial_chains C root True)))
       in Inr (PREFIX_PQ_INIT @ json_b64 (JObj (payload @ [(''ct'', JStr (b64e (i_nonce fr
                 @ aes_enc C mk (i_nonce fr) (dumps_compact (JObj [(''ts'', JInt (i_ts fr)), (''body'', JStr body)])) (canonical (JObj payload)))))])),
               init_state C fr root conv me peer version, safety_fingerprint C (ed_pub C me_sk) (ed_pub C isk)))"
    unfolding pqxdh_initiate_def verify_bundle_ok [OF ok(1) b] rbind_Inr bf(1-6,9) kenc case_prod_conv Let_def j d1 d2 d3(2) sig ids
    by (simp add: aead_encrypt_32 len init_state_def k)
  with kem d1(2) d2(2) d3(1) sig that show ?thesis by blast
qed

text \<open>The store after the one-time prekeys of a message were popped.\<close>

definition drop_otk :: "string \<Rightarrow> (int \<times> 'a) option \<Rightarrow> dict \<Rightarrow> dict" where
  "drop_otk coll x st = (case x of None \<Rightarrow> st
     | Some (kid, _) \<Rightarrow> (case map_of st coll of
         Some (JObj d) \<Rightarrow> dset st coll (JObj (dpop d (show_int kid))) | _ \<Rightarrow> st))"

definition consumed :: "served_curve \<Rightarrow> served_pq \<Rightarrow> dict \<Rightarrow> dict" where
  "consumed c q st = drop_otk ''pq_one_time'' q (drop_otk ''curve_one_time'' c st)"

lemma drop_otk_other: "coll \<noteq> k \<Longrightarrow> map_of (drop_otk coll x st) k = map_of st k"
  by (auto simp: drop_otk_def update_conv' split: option.splits json.splits prod.splits)

lemma pop_curve:
  assumes "bundle_ok C isk store b csk alg qpk qsk c q" and "c = Some (kid, sk)"
  shows "\<exists>hit. pop_otk ''curve_one_time'' kid store = (Inr hit, drop_otk ''curve_one_time'' c store)
    \<and> truthy hit \<and> jkey_bytes hit ''sk'' = Inr sk"
  using assms
  by (auto simp: bundle_ok_def curve_served_def curve_entry_def pop_otk_def drop_otk_def dget_def truthy_def jkey_bytes_def)

lemma pop_pq:
  assumes "bundle_ok C isk store b csk alg qpk qsk c q" and "q = Some (kid, pk, sk)"
  shows "\<exists>hit. pop_otk ''pq_one_time'' kid (drop_otk ''curve_one_time'' c store) = (Inr hit, consumed c q store)
    \<and> truthy hit \<and> jkey_bytes hit ''sk'' = Inr sk"
proof -
  have "map_of (drop_otk ''curve_one_time'' c store) ''pq_one_time'' = map_of store ''pq_one_time''"
    by (rule drop_otk_other) simp
  with assms show ?thesis
    by (auto simp: bundle_ok_def pq_served_def pq_entry_def pop_otk_def consumed_def drop_otk_def [of "''pq_one_time''"]
        dget_def truthy_def jkey_bytes_def)
qed

lemma respond_keys_ok:
  assumes b: "bundle_ok C isk store b csk alg qpk qsk c q"
    and obj: "dget obj ''curve_otk_id'' (JInt (- 1)) = JInt (served_id c)" "dget obj ''pq_otk_id'' (JInt (- 1)) = JInt (served_id q)"
      "dkey obj ''pq_kem_alg'' = Inr a"
  shows "respond_keys C obj store = (Inr (csk, served_otk c, snd (served_kem qpk qsk q)), consumed c q store)"
proof -
  let ?st = "drop_otk ''curve_one_time'' c store"
  have spk: "spk_served C isk store b csk alg qpk qsk" using b by (simp add: bundle_ok_def)
  have pos: "c = Some (k, x) \<Longrightarrow> 0 < k" "q = Some (k, pk, sk) \<Longrightarrow> 0 < k" for k x pk sk
    using b by (auto simp: bundle_ok_def curve_served_def curve_entry_def pq_served_def pq_entry_def)
  have 0: "signed_key ''curve_signed'' store = (Inr csk, store)"
    using spk by (auto simp: spk_served_def dkey_def jkey_bytes_def signed_key_def)
  have "map_of ?st ''pq_signed'' = map_of store ''pq_signed''" by (rule drop_otk_other) simp
  then have pqs: "signed_key ''pq_signed'' ?st = (Inr qsk, ?st)"
    using spk by (auto simp: spk_served_def dkey_def jkey_bytes_def signed_key_def)
  have 1: "take_curve_otk (served_id c) store = (Inr (served_otk c), ?st)"
    using pop_curve [OF b] pos(1)
    by (cases c) (fastforce simp: take_curve_otk_def served_id_def served_otk_def drop_otk_def sbind_def split: prod.splits)+
  have 2: "take_pq_key (served_id q) ?st = (Inr (snd (served_kem qpk qsk q)), consumed c q store)"
    using pop_pq [OF b] pos(2) pqs
    by (cases q) (fastforce simp: take_pq_key_def served_id_def served_kem_def consumed_def drop_otk_def [of "''pq_one_time''"]
        sbind_def split: prod.splits)+
  show ?thesis
    unfolding respond_keys_def using obj 0 1 2 by (simp add: sbind_def)
qed

lemma payload_fields:
  fixes sid ipk cpk csig epk pct drp ct :: string and conv me peer kid spk cid qspk qid :: int
    and alg :: json and version :: "int option"
  defines "p \<equiv> init_payload sid conv me peer ipk (kid, cpk, csig) epk (spk, cid, qspk, qid) alg pct drp version @ [(''ct'', JStr ct)]"
  shows "dkey p ''sender_uid'' = Inr (JInt me)" "dkey p ''recipient_uid'' = Inr (JInt peer)"
    "key_field p ''identity_pk'' = Inr ipk" "key_field p ''sender_curve_spk'' = Inr cpk"
    "dget p ''curve_otk_id'' (JInt (- 1)) = JInt cid" "dget p ''pq_otk_id'' (JInt (- 1)) = JInt qid"
    "dkey p ''pq_kem_alg'' = Inr alg" "key_field p ''eph_curve_pk'' = Inr epk" "key_field p ''pq_ct'' = Inr pct"
    "key_field p ''dr_pub'' = Inr drp" "int_or_0 p ''conversation_id'' = Inr conv" "int_or_0 p ''recipient_uid'' = Inr peer"
    "opt_int (dget p ''sender_identity_version'' JNull) = Inr version" "dget p ''sid'' (JStr []) = JStr sid"
    "dkey p ''ct'' = Inr (JStr ct)" "map_of p ''sender_curve_spk_id'' = Some (JInt kid)"
    "map_of p ''sender_curve_spk'' = Some (JStr (b64e cpk))" "map_of p ''sender_curve_spk_sig'' = Some (JStr (b64e csig))"
    "dpop p ''ct'' = init_payload sid conv me peer ipk (kid, cpk, csig) epk (spk, cid, qspk, qid) alg pct drp version"
  by (auto simp: p_def init_payload_def key_field_def int_or_0_def dget_def opt_int_def split: option.splits)

lemma payload_wire_ok:
  assumes "utf8_valid sid" and "wire_ok alg" and "is_ascii ct"
  shows "wire_ok (JObj (init_payload sid conv me peer ipk (kid, cpk, csig) epk (spk, cid, qspk, qid) alg pct drp version @ [(''ct'', JStr ct)]))"
  using assms by (auto simp: init_payload_def ascii_utf8 split: option.splits)

lemma chains_swap: "initial_chains C root False = (snd (initial_chains C root True), fst (initial_chains C root True))"
  by (simp add: initial_chains_def Let_def)

lemma pqxdh_respond_token:
  fixes drp :: bytes and conv me peer spk qspk ts :: int and version :: "int option"
  assumes ok: "crypto_ok C" "oqs_present C" and b: "bundle_ok C isk store b csk alg qpk qsk c q"
    and kem: "kem_dec C alg (snd (served_kem qpk qsk q)) pct = Some ss"
    and d: "x25519_dh C csk (x_pub C sk) = Inr d1" "x25519_dh C csk epk = Inr d2"
      "(if c \<noteq> None then x25519_dh C (served_otk c) epk else Inr []) = Inr d3"
    and sig: "sign_prekey C me_sk ''curve-signed'' kid ''X25519'' (x_pub C sk) = Inr sig"
    and sid: "utf8_valid sid" "sid \<noteq> []" and body: "utf8_valid body" and nonce: "length nonce = 12"
  defines "root \<equiv> hkdf C (d1 @ d2 @ d3 @ ss) ''SecChat-PQXDH'' None 32"
    and "payload \<equiv> init_payload sid conv me peer (ed_pub C me_sk) (kid, x_pub C sk, sig) epk (spk, served_id c, qspk, served_id q)
           (JStr alg) pct drp version"
  defines "mk \<equiv> fst (kdf_ck C (fst (initial_chains C root True)))"
  defines "ct \<equiv> b64e (nonce @ aes_enc C mk nonce (dumps_compact (JObj [(''ts'', JInt ts), (''body'', JStr body)])) (canonical (JObj payload)))"
  shows "pqxdh_respond C new_sk sid_bytes (Some peer) (PREFIX_PQ_INIT @ json_b64 (JObj (payload @ [(''ct'', JStr ct)]))) store =
    (Inr (body, resp_state C new_sk sid_bytes drp sid root conv peer me version,
          safety_fingerprint C (ed_pub C isk) (ed_pub C me_sk), me), consumed c q store)"
proof -
  note cok = crypto_okD [OF ok(1)]
  let ?obj = "payload @ [(''ct'', JStr ct)]"
  note pf = payload_fields [of sid conv me peer "ed_pub C me_sk" kid "x_pub C sk" sig epk spk "served_id c" qspk "served_id q"
      "JStr alg" pct drp version ct, folded payload_def]
  have "is_ascii alg" by (rule bundle_fields(10) [OF b cok(5)])
  then have "wire_ok (JObj ?obj)" unfolding payload_def
    by (intro payload_wire_ok) (use sid in \<open>auto simp: ct_def ascii_utf8\<close>)
  then have unwrap: "unwrap_wire PREFIX_PQ_INIT (PREFIX_PQ_INIT @ json_b64 (JObj ?obj)) = Inr ?obj"
    by (simp add: unwrap_wire_def)
  have ver: "verify_signed C ?obj (ed_pub C me_sk) ''curve-signed'' ''sender_curve_spk_id'' (Inr (JStr ''X25519''))
      ''sender_curve_spk'' ''sender_curve_spk_sig'' = Inr ()"
    by (rule verify_signed_ok [OF cok(2,5) sig pf(16-18)])
  have keys: "respond_keys C ?obj store = (Inr (csk, served_otk c, snd (served_kem qpk qsk q)), consumed c q store)"
    by (rule respond_keys_ok [OF b pf(5-7)])
  have d3: "(if served_otk c \<noteq> [] then x25519_dh C (served_otk c) epk else Inr []) = Inr d3"
    using d(3) bundle_fields(13) [OF b cok(5)] by (cases c) (auto simp: served_otk_def split: if_splits)
  have "length mk = 32" by (simp add: mk_def kdf_lengths [OF cok(5)])
  then have enc: "aead_encrypt C nonce mk (JObj [(''ts'', JInt ts), (''body'', JStr body)]) (canonical (JObj payload)) = Inr ct"
    using nonce by (simp add: aead_encrypt_32 ct_def)
  have "wire_ok (JObj [(''ts'', JInt ts), (''body'', JStr body)])" using body by simp
  from aead_roundtrip [OF cok(1) nonce this enc]
  have op: "open_body C ?obj mk (canonical (JObj payload)) = Inr body"
    by (simp add: open_body_def pf(15) dget_def)
  have sid': "py_str (py_or (JStr sid) (JStr [])) = sid" by (simp add: py_or_def)
  have kd: "kem_decapsulate C (JStr alg) (snd (served_kem qpk qsk q)) pct = Inr ss"
    using kem ok(2) by (simp add: kem_decapsulate_def alg_text_def)
  have fin: "respond_finish C new_sk sid_bytes ?obj (csk, served_otk c, snd (served_kem qpk qsk q)) (x_pub C sk) me =
      Inr (body, resp_state C new_sk sid_bytes drp sid root conv peer me version)"
    unfolding respond_finish_def case_prod_conv pf(7-14,19) rbind_Inr d(1,2) d3 kd sid' Let_def root_def [symmetric]
    using op by (simp add: mk_def resp_state_def chains_swap case_prod_unfold)
  have "map_of (consumed c q store) ''identity_pk'' = map_of store ''identity_pk''"
    by (simp add: consumed_def drop_otk_other)
  then have idk: "key_field (consumed c q store) ''identity_pk'' = Inr (ed_pub C isk)"
    using b by (simp add: bundle_ok_def spk_served_def key_field_def dkey_def)
  show ?thesis
    using keys fin idk ver by (simp add: pqxdh_respond_def unwrap pf(1-4) sbind_def)
qed

subsection \<open>Agreement\<close>

lemma handshake_synced:
  assumes "sizes_ok C" and "init_fresh_ok fr" and "length new_sk = 32"
    and "sA = init_state C fr root conv me peer version"
    and "sB = resp_state C new_sk sid_bytes (x_pub C (i_dr fr)) (b64e (i_sid fr)) root conv peer me version'"
  shows "synced C {dh_pk sA, dh_pk sB} sA sB" and "root_key sA = root_key sB"
proof -
  have ne: "b64e (i_sid fr) \<noteq> []" "x_pub C (i_dr fr) \<noteq> []"
    using assms(2) sizes_okD(8) [OF assms(1), of "i_dr fr"] by (auto simp: init_fresh_ok_def)
  have own: "own_key C sA" "own_key C sB"
    using assms(2,3) by (simp_all add: own_key_def assms(4,5) init_state_def resp_state_def Let_def dr_new_hk [OF assms(1)] init_fresh_ok_def)
  have "addressed sA sB" "addressed sB sA"
    using ne by (simp_all add: addressed_def assms(4,5) init_state_def resp_state_def Let_def)
  with own have "parties C {dh_pk sA, dh_pk sB} {} {} sA sB"
    using ne by (simp add: parties_def assms(4,5) init_state_def resp_state_def Let_def seen_ok_def ascii_utf8)
  moreover have "at_start sA sB"
    using ne by (simp add: at_start_def in_step_def assms(4,5) init_state_def resp_state_def Let_def chains_swap)
  ultimately show "synced C {dh_pk sA, dh_pk sB} sA sB" unfolding synced_def by blast
  show "root_key sA = root_key sB" by (simp add: assms(4,5) init_state_def resp_state_def Let_def)
qed

lemma pqxdh_agree:
  assumes ok: "crypto_ok C" "oqs_present C" and b: "bundle_ok C isk peer_store b csk alg qpk qsk c q"
    and own: "own_prekey C store kid sk" "length me_sk = 32" and fr: "init_fresh_ok fr" "length new_sk = 32"
    and body: "utf8_valid body"
  shows "\<exists>token sA sB fp.
      pqxdh_initiate C fr b store (ed_pub C me_sk) me_sk me peer body version conv = Inr (token, sA, fp)
    \<and> pqxdh_respond C new_sk sid_bytes (Some peer) token peer_store = (Inr (body, sB, fp, me), consumed c q peer_store)
    \<and> root_key sA = root_key sB \<and> synced C {dh_pk sA, dh_pk sB} sA sB
    \<and> dh_pk sA = x_pub C (i_dr fr) \<and> dh_pk sB = x_pub C new_sk"
proof -
  have sz: "sizes_ok C" using ok(1) by (rule crypto_okD)
  obtain ct ss d1 d2 d3 sig spk pqspk where
    k: "kem_dec C alg (snd (served_kem qpk qsk q)) ct = Some ss"
    and d: "x25519_dh C csk (x_pub C sk) = Inr d1" "x25519_dh C csk (x_pub C (i_eph fr)) = Inr d2"
    "(if c \<noteq> None then x25519_dh C (served_otk c) (x_pub C (i_eph fr)) else Inr []) = Inr d3"
    and sig: "sign_prekey C me_sk ''curve-signed'' kid ''X25519'' (x_pub C sk) = Inr sig"
    and init: "pqxdh_initiate C fr b store (ed_pub C me_sk) me_sk me peer body version conv =
      (let root = hkdf C (d1 @ d2 @ d3 @ ss) ''SecChat-PQXDH'' None 32;
           payload = init_payload (b64e (i_sid fr)) conv me peer (ed_pub C me_sk) (kid, x_pub C sk, sig) (x_pub C (i_eph fr))
             (spk, served_id c, pqspk, served_id q) (JStr alg) ct (x_pub C (i_dr fr)) version;
           mk = fst (kdf_ck C (fst (initial_chains C root True)))
       in Inr (PREFIX_PQ_INIT @ json_b64 (JObj (payload @ [(''ct'', JStr (b64e (i_nonce fr
                 @ aes_enc C mk (i_nonce fr) (dumps_compact (JObj [(''ts'', JInt (i_ts fr)), (''body'', JStr body)])) (canonical (JObj payload)))))])),
               init_state C fr root conv me peer version, safety_fingerprint C (ed_pub C me_sk) (ed_pub C isk)))"
    by (rule initiate_token [OF ok b own fr(1)])
  have sid: "utf8_valid (b64e (i_sid fr))" "b64e (i_sid fr) \<noteq> []" "length (i_nonce fr) = 12"
    using fr(1) by (auto simp: init_fresh_ok_def ascii_utf8)
  note resp = pqxdh_respond_token [OF ok b k d sig sid(1,2) body sid(3),
      where drp = "x_pub C (i_dr fr)" and conv = conv and me = me and peer = peer and spk = spk and qspk = pqspk
        and ts = "i_ts fr" and version = version and new_sk = new_sk and sid_bytes = sid_bytes]
  note sync = handshake_synced [OF sz fr refl refl]
  show ?thesis
    unfolding init Let_def using resp sync
    by (auto simp: safety_fingerprint_sym [of C "ed_pub C me_sk" "ed_pub C isk"] init_state_def [of C fr] resp_state_def Let_def)
qed

lemma generated_own_prekey:
  assumes "generate_local_bundle C t now ipk isk p n = Inr (upload, store)" and "sizes_ok C"
  shows "own_prekey C store (new_key_id now) (x_seed C t) \<and> length isk = 32"
  using assms
  by (auto simp: generate_local_bundle_def own_prekey_def x25519_keygen_def Let_def sizes_okD sign_prekey_def ed_private_def rguard_def
      split: if_splits)

definition otk_present :: "string \<Rightarrow> int \<Rightarrow> dict \<Rightarrow> bool" where
  "otk_present coll kid store = (case map_of store coll of Some (JObj d) \<Rightarrow> dhas d (show_int kid) | _ \<Rightarrow> False)"

lemma drop_otk_gone: "0 < served_id x \<Longrightarrow> \<not> otk_present coll (served_id x) (drop_otk coll x store)"
  by (auto simp: otk_present_def drop_otk_def served_id_def update_conv' dhas_def delete_conv'
      split: option.splits json.splits prod.splits)

lemma otk_present_other: "coll \<noteq> coll' \<Longrightarrow> otk_present coll kid (drop_otk coll' x store) = otk_present coll kid store"
  by (simp add: otk_present_def drop_otk_other)

lemma consumed_gone:
  "0 < served_id c \<Longrightarrow> \<not> otk_present ''curve_one_time'' (served_id c) (consumed c q store)"
  "0 < served_id q \<Longrightarrow> \<not> otk_present ''pq_one_time'' (served_id q) (consumed c q store)"
  by (simp_all add: consumed_def drop_otk_gone otk_present_other)

text \<open>
  A store without one of its one-time prekeys. An id that is not positive names none.
\<close>

definition without_otk :: "string \<Rightarrow> int \<Rightarrow> dict \<Rightarrow> dict" where
  "without_otk coll kid st = map (\<lambda>(k, v). (k, if k = coll \<and> 0 < kid
     then (case v of JObj d \<Rightarrow> JObj (filter (\<lambda>e. fst e \<noteq> show_int kid) d) | _ \<Rightarrow> v) else v)) st"

lemma without_otk_absent: "map_of st coll = None \<Longrightarrow> without_otk coll kid st = st"
  by (induction st) (auto simp: without_otk_def split: if_splits)

lemma without_otk_keys [simp]: "map fst (without_otk coll kid st) = map fst st"
  by (auto simp: without_otk_def)

lemma dset_without:
  assumes "distinct (map fst st)" and "map_of st coll = Some (JObj d)" and "0 < kid"
  shows "dset st coll (JObj (dpop d (show_int kid))) = without_otk coll kid st"
  using assms(1,2)
proof (induction st)
  case (Cons kv st)
  obtain k v where kv: "kv = (k, v)" by (cases kv)
  show ?case
  proof (cases "k = coll")
    case True
    with Cons.prems(1) kv have "map_of st coll = None" by (auto simp: map_of_eq_None_iff)
    from without_otk_absent [OF this, of kid] True Cons.prems(2) kv assms(3) show ?thesis
      by (simp add: without_otk_def AList.delete_eq case_prod_unfold eq_commute)
  next
    case False
    with Cons kv show ?thesis by (simp add: without_otk_def)
  qed
qed simp

lemma pop_otk_without:
  assumes "pop_otk coll kid st = (Inr h, st')" and "distinct (map fst st)" and "0 < kid"
  shows "st' = without_otk coll kid st"
  using assms dset_without [OF assms(2) _ assms(3)] without_otk_absent
  by (fastforce simp: pop_otk_def split: option.splits json.splits)

lemma without_otk_no_id: "\<not> 0 < kid \<Longrightarrow> without_otk coll kid st = st"
  by (simp add: without_otk_def case_prod_unfold)

lemma take_curve_without:
  assumes "take_curve_otk kid st = (Inr h, st')" and "distinct (map fst st)"
  shows "st' = without_otk ''curve_one_time'' kid st"
proof (cases "0 < kid")
  case True
  with assms obtain x where "pop_otk ''curve_one_time'' kid st = (Inr x, st')" by (auto simp: take_curve_otk_def sbind_eq_Inr)
  from pop_otk_without [OF this assms(2) True] show ?thesis .
qed (use assms without_otk_no_id in \<open>auto simp: take_curve_otk_def\<close>)

lemma take_pq_without:
  assumes "take_pq_key kid st = (Inr h, st')" and "distinct (map fst st)"
  shows "st' = without_otk ''pq_one_time'' kid st"
proof (cases "0 < kid")
  case True
  with assms obtain x where "pop_otk ''pq_one_time'' kid st = (Inr x, st')"
    by (auto simp: take_pq_key_def sbind_eq_Inr signed_key_def split: if_splits)
  from pop_otk_without [OF this assms(2) True] show ?thesis .
qed (use assms without_otk_no_id in \<open>auto simp: take_pq_key_def signed_key_def\<close>)

lemma respond_without:
  assumes "pqxdh_respond C new_sk sid_bytes me wire st = (Inr r, st')" and "distinct (map fst st)"
  shows "\<exists>obj i j. unwrap_wire PREFIX_PQ_INIT wire = Inr obj \<and> py_int (dget obj ''curve_otk_id'' (JInt (- 1))) = Inr i
    \<and> py_int (dget obj ''pq_otk_id'' (JInt (- 1))) = Inr j
    \<and> st' = without_otk ''pq_one_time'' j (without_otk ''curve_one_time'' i st)"
proof -
  obtain obj keys where o: "unwrap_wire PREFIX_PQ_INIT wire = Inr obj" "respond_keys C obj st = (Inr keys, st')"
    using assms(1) by (auto simp: pqxdh_respond_def sbind_eq_Inr split: prod.splits)
  then obtain i j h h' st1 where k: "py_int (dget obj ''curve_otk_id'' (JInt (- 1))) = Inr i"
    "py_int (dget obj ''pq_otk_id'' (JInt (- 1))) = Inr j" "take_curve_otk i st = (Inr h, st1)" "take_pq_key j st1 = (Inr h', st')"
    by (auto simp: respond_keys_def sbind_eq_Inr signed_key_def)
  note s1 = take_curve_without [OF k(3) assms(2)]
  have "st' = without_otk ''pq_one_time'' j st1" by (rule take_pq_without [OF k(4)]) (simp add: s1 assms(2))
  with o k s1 show ?thesis by blast
qed

lemma otk_loop_length:
  "otk_loop C alg isk base t i n (lc, uc, lq, uq) = Inr (lc', uc', lq', uq') \<Longrightarrow> length uc' = length uc + n"
  by (induction n arbitrary: i lc uc lq uq) (auto simp: Let_def split: prod.splits)

lemma generated_has_otk:
  assumes "generate_local_bundle C t now ipk isk p n = Inr (upload, store)" and "0 < n"
  obtains c where "uploaded upload ''curve_one_time_prekeys'' (Some c)"
proof -
  obtain lc uc lq uq alg where l: "otk_loop C alg isk (new_key_id now) t 0 n ([], [], [], []) = Inr (lc, uc, lq, uq)"
    and up: "dget upload ''curve_one_time_prekeys'' JNull = JArr uc"
    using assms(1) by (auto simp: generate_local_bundle_def x25519_keygen_def kem_keygen_def Let_def dget_def)
  from otk_loop_length [OF l] assms(2) have "hd uc \<in> set uc" by (cases uc) auto
  with up that show ?thesis by (auto simp: uploaded_def)
qed

lemma served_present:
  assumes "bundle_ok C isk store b csk alg qpk qsk (Some (kid, sk)) q"
  shows "0 < kid \<and> otk_present ''curve_one_time'' kid store"
  using assms by (auto simp: bundle_ok_def curve_served_def curve_entry_def otk_present_def dhas_def)

lemma pqxdh_generated:
  assumes ok: "crypto_ok C" "oqs_present C"
    and genB: "generate_local_bundle C tB nowB (ed_pub C skB) skB pB nB = Inr (upload, storeB)"
    and genA: "generate_local_bundle C tA nowA (ed_pub C skA) skA pA nA = Inr (uploadA, storeA)"
    and otk: "uploaded upload ''curve_one_time_prekeys'' c" "uploaded upload ''pq_one_time_prekeys'' q"
    and fr: "init_fresh_ok fr" "length new_sk = 32" and body: "utf8_valid body"
  shows "\<exists>token sA sB fp storeB' cid qid.
      pqxdh_initiate C fr (server_bundle upload c q) storeA (ed_pub C skA) skA me peer body version conv = Inr (token, sA, fp)
    \<and> pqxdh_respond C new_sk sid_bytes (Some peer) token storeB = (Inr (body, sB, fp, me), storeB')
    \<and> root_key sA = root_key sB \<and> synced C {dh_pk sA, dh_pk sB} sA sB
    \<and> dh_pk sA = x_pub C (i_dr fr) \<and> dh_pk sB = x_pub C new_sk
    \<and> dget (server_bundle upload c q) ''curve_otk_id'' JNull = JInt cid \<and> dget (server_bundle upload c q) ''pq_otk_id'' JNull = JInt qid
    \<and> (0 < cid \<longrightarrow> \<not> otk_present ''curve_one_time'' cid storeB') \<and> (0 < qid \<longrightarrow> \<not> otk_present ''pq_one_time'' qid storeB')"
proof -
  have sz: "sizes_ok C" using ok(1) by (rule crypto_okD)
  obtain csk alg qpk qsk c' q' where b: "bundle_ok C skB storeB (server_bundle upload c q) csk alg qpk qsk c' q'"
    using generated_bundle_ok [OF genB otk sz] by blast
  have own: "own_prekey C storeA (new_key_id nowA) (x_seed C tA)" "length skA = 32"
    using generated_own_prekey [OF genA sz] by auto
  have ids: "dget (server_bundle upload c q) ''curve_otk_id'' JNull = JInt (served_id c')"
    "dget (server_bundle upload c q) ''pq_otk_id'' JNull = JInt (served_id q')"
    using b by (auto simp: bundle_ok_def curve_served_def pq_served_def served_id_def dget_def split: option.splits)
  from pqxdh_agree [OF ok b own fr body, of me peer version conv sid_bytes] ids consumed_gone show ?thesis by blast
qed

subsection \<open>Properties\<close>

definition demo_init :: init_fresh where
  "demo_init = \<lparr> i_kem = 4, i_eph = replicate 32 (CHR ''e''), i_sid = replicate 16 (CHR ''s''),
     i_dr = replicate 32 (CHR ''d''), i_nonce = replicate 12 (CHR ''n''), i_ts = 7 \<rparr>"

definition demo_fresh :: "char \<Rightarrow> fresh" where
  "demo_fresh c = \<lparr> f_sk = replicate 32 c, f_ts = 9, f_n1 = replicate 12 c, f_n2 = replicate 12 c \<rparr>"

definition demo_A :: double_ratchet where
  "demo_A = init_state toy_crypto demo_init ''root'' 5 1 2 None"

definition demo_B :: double_ratchet where
  "demo_B = resp_state toy_crypto (replicate 32 (CHR ''b'')) [] (x_pub toy_crypto (i_dr demo_init)) (b64e (i_sid demo_init)) ''root'' 5 2 1 None"

lemma demo_init_ok [simp]: "init_fresh_ok demo_init"
  by (simp add: init_fresh_ok_def demo_init_def)

lemma demo_fresh_ok [simp]: "fresh_ok (demo_fresh c)"
  by (simp add: fresh_ok_def demo_fresh_def)

lemma demo_synced: "synced toy_crypto {dh_pk demo_A, dh_pk demo_B} demo_A demo_B"
  by (rule handshake_synced(1) [OF toy_sizes demo_init_ok _ demo_A_def demo_B_def]) simp

lemma toy_x_pub [simp]: "length k = 32 \<Longrightarrow> x_pub toy_crypto k = k"
  by (simp add: toy_crypto_def)

lemma demo_keys [simp]:
  "dh_pk demo_A = replicate 32 (CHR ''d'')" "dh_pk demo_B = replicate 32 (CHR ''b'')"
  by (simp_all add: demo_A_def demo_B_def init_state_def resp_state_def demo_init_def Let_def)

lemma demo_uploaded: "uploaded upload k None"
  by (simp add: uploaded_def)

lemma demo_b32: "length (replicate 32 (CHR ''b'')) = 32" and demo_hi: "utf8_valid ''hi''"
  by simp_all

lemma demo_generated:
  obtains upload store where
    "generate_local_bundle toy_crypto t 1700000000000 (ed_pub toy_crypto (ed_seed toy_crypto 1)) (ed_seed toy_crypto 1) None n
       = Inr (upload, store)"
  using generate_local_bundle_total [OF toy_kem_ready, of "ed_seed toy_crypto 1"] sizes_okD(6) [OF toy_sizes] by blast

text \<open>
  C3: PQXDH agreement. When both clients generated their prekeys and the initiator uses the
  bundle the server assembled from the responder's upload (with or without one-time prekeys), the
  responder accepts the initial message addressed to it, recovers the initial body and the sender,
  both sides hold the same root key and the same safety fingerprint, their ratchets are in step,
  and the one-time prekeys used are gone from the responder's store.
\<close>

theorem pqxdh_agreement:
  assumes "crypto_ok C" and "oqs_present C"
    and "generate_local_bundle C tB nowB (ed_pub C skB) skB pB nB = Inr (upload, storeB)"
    and "generate_local_bundle C tA nowA (ed_pub C skA) skA pA nA = Inr (uploadA, storeA)"
    and "uploaded upload ''curve_one_time_prekeys'' c" and "uploaded upload ''pq_one_time_prekeys'' q"
    and "init_fresh_ok fr" and "length new_sk = 32" and "utf8_valid body"
  shows "\<exists>token sA sB fp storeB' cid qid.
      pqxdh_initiate C fr (server_bundle upload c q) storeA (ed_pub C skA) skA me peer body version conv = Inr (token, sA, fp)
    \<and> pqxdh_respond C new_sk sid_bytes (Some peer) token storeB = (Inr (body, sB, fp, me), storeB')
    \<and> root_key sA = root_key sB \<and> synced C {dh_pk sA, dh_pk sB} sA sB
    \<and> dget (server_bundle upload c q) ''curve_otk_id'' JNull = JInt cid \<and> dget (server_bundle upload c q) ''pq_otk_id'' JNull = JInt qid
    \<and> (0 < cid \<longrightarrow> \<not> otk_present ''curve_one_time'' cid storeB') \<and> (0 < qid \<longrightarrow> \<not> otk_present ''pq_one_time'' qid storeB')"
  using pqxdh_generated [OF assms] by blast

theorem pqxdh_agreement_witness:
  "\<exists>upload storeB token sA sB fp storeB'.
      pqxdh_initiate toy_crypto demo_init (server_bundle upload None None) storeB (ed_pub toy_crypto (ed_seed toy_crypto 1))
        (ed_seed toy_crypto 1) 1 2 ''hi'' None 5 = Inr (token, sA, fp)
    \<and> pqxdh_respond toy_crypto (replicate 32 (CHR ''b'')) [] (Some 2) token storeB = (Inr (''hi'', sB, fp, 1), storeB')
    \<and> root_key sA = root_key sB"
proof -
  obtain upload store where g: "generate_local_bundle toy_crypto 3 1700000000000 (ed_pub toy_crypto (ed_seed toy_crypto 1))
      (ed_seed toy_crypto 1) None 2 = Inr (upload, store)" by (rule demo_generated)
  have "oqs_present toy_crypto" by (simp add: toy_crypto_def)
  from pqxdh_agreement [OF toy_ok this g g demo_uploaded demo_uploaded demo_init_ok demo_b32 demo_hi, of 1 2 None 5 "[]"]
  show ?thesis by (elim exE conjE) (intro exI conjI)
qed

text \<open>
  C2: a conversation after the handshake. After PQXDH, whatever the two sides say in whatever
  order of turns (each message delivered before the next is sent), every message decrypts to the
  plaintext that was encrypted: the ratchets never lose step. The keys drawn along the way are
  assumed distinct, and AEAD ciphertexts open under their own key only.
\<close>

theorem conversation_delivered:
  assumes "crypto_ok C" and "aead_bound C" and "oqs_present C"
    and "generate_local_bundle C tB nowB (ed_pub C skB) skB pB nB = Inr (upload, storeB)"
    and "generate_local_bundle C tA nowA (ed_pub C skA) skA pA nA = Inr (uploadA, storeA)"
    and "uploaded upload ''curve_one_time_prekeys'' c" and "uploaded upload ''pq_one_time_prekeys'' q"
    and "init_fresh_ok fr" and "length new_sk = 32" and "utf8_valid body"
    and "list_all talk_ok ms" and "distinct (drawn C ms)"
    and "set (drawn C ms) \<inter> {x_pub C (i_dr fr), x_pub C new_sk} = {}"
  shows "\<exists>token sA sB fp storeB'.
      pqxdh_initiate C fr (server_bundle upload c q) storeA (ed_pub C skA) skA me peer body version conv = Inr (token, sA, fp)
    \<and> pqxdh_respond C new_sk sid_bytes (Some peer) token storeB = (Inr (body, sB, fp, me), storeB')
    \<and> converse C ms (sA, sB) = map (\<lambda>(dir, fr, sk, p). Inr p) ms"
proof -
  obtain token sA sB fp storeB' where
    h: "pqxdh_initiate C fr (server_bundle upload c q) storeA (ed_pub C skA) skA me peer body version conv = Inr (token, sA, fp)"
    "pqxdh_respond C new_sk sid_bytes (Some peer) token storeB = (Inr (body, sB, fp, me), storeB')"
    and sy: "synced C {dh_pk sA, dh_pk sB} sA sB" "dh_pk sA = x_pub C (i_dr fr)" "dh_pk sB = x_pub C new_sk"
    using pqxdh_generated [OF assms(1,3-10), of me peer version conv sid_bytes] by blast
  have "converse C ms (sA, sB) = map (\<lambda>(dir, fr, sk, p). Inr p) ms"
    by (rule converse_delivers [OF assms(1,2) sy(1) assms(11,12)]) (use assms(13) sy(2,3) in simp)
  with h show ?thesis by blast
qed

theorem conversation_delivered_witness:
  "\<exists>upload store token sA sB fp storeB'.
      pqxdh_initiate toy_crypto demo_init (server_bundle upload None None) store (ed_pub toy_crypto (ed_seed toy_crypto 1))
        (ed_seed toy_crypto 1) 1 2 ''hi'' None 5 = Inr (token, sA, fp)
    \<and> pqxdh_respond toy_crypto (replicate 32 (CHR ''b'')) [] (Some 2) token store = (Inr (''hi'', sB, fp, 1), storeB')
    \<and> converse toy_crypto [(False, demo_fresh (CHR ''1''), replicate 32 (CHR ''2''), ''reply''),
         (True, demo_fresh (CHR ''3''), replicate 32 (CHR ''4''), ''again'')] (sA, sB) = [Inr ''reply'', Inr ''again'']"
proof -
  obtain upload store where g: "generate_local_bundle toy_crypto 3 1700000000000 (ed_pub toy_crypto (ed_seed toy_crypto 1))
      (ed_seed toy_crypto 1) None 2 = Inr (upload, store)" by (rule demo_generated)
  have "oqs_present toy_crypto" by (simp add: toy_crypto_def)
  from conversation_delivered [OF toy_ok toy_bound this g g demo_uploaded demo_uploaded demo_init_ok demo_b32 demo_hi,
      of "[(False, demo_fresh (CHR ''1''), replicate 32 (CHR ''2''), ''reply''),
        (True, demo_fresh (CHR ''3''), replicate 32 (CHR ''4''), ''again'')]" 1 2 None 5 "[]"]
  have "\<exists>token sA sB fp storeB'.
      pqxdh_initiate toy_crypto demo_init (server_bundle upload None None) store (ed_pub toy_crypto (ed_seed toy_crypto 1))
        (ed_seed toy_crypto 1) 1 2 ''hi'' None 5 = Inr (token, sA, fp)
    \<and> pqxdh_respond toy_crypto (replicate 32 (CHR ''b'')) [] (Some 2) token store = (Inr (''hi'', sB, fp, 1), storeB')
    \<and> converse toy_crypto [(False, demo_fresh (CHR ''1''), replicate 32 (CHR ''2''), ''reply''),
         (True, demo_fresh (CHR ''3''), replicate 32 (CHR ''4''), ''again'')] (sA, sB) = [Inr ''reply'', Inr ''again'']"
    by (simp add: talk_ok_def drawn_def demo_fresh_def fresh_ok_def demo_init_def)
  then show ?thesis by blast
qed

text \<open>
  C4: out-of-order delivery. Let the receiver stand where the sender's chain stands and the
  sender encrypt up to 1000 messages. Delivered in any order, and with any of them lost, every
  message that arrives decrypts to its plaintext.
\<close>

theorem out_of_order_delivered:
  assumes "crypto_ok C" and "aead_bound C" and "synced C U s r" and "in_step s r" and "\<not> needs_send_ratchet s"
    and "list_all (\<lambda>(fr, p). fresh_ok fr \<and> utf8_valid p) ms" and "length ms \<le> 1000"
    and "distinct js" and "\<forall>j \<in> set js. j < length ms"
  shows "recv_all C sk (map (\<lambda>j. send_all C ms s ! j) js) r = map (\<lambda>j. Inr (snd (ms ! j))) js"
  by (rule out_of_order [OF assms])

lemma demo_in_step: "in_step demo_A demo_B" "\<not> needs_send_ratchet demo_A"
  by (simp_all add: in_step_def demo_A_def demo_B_def init_state_def resp_state_def Let_def chains_swap)

theorem out_of_order_delivered_witness:
  "recv_all toy_crypto [] (map (\<lambda>j. send_all toy_crypto [(demo_fresh (CHR ''1''), ''a''), (demo_fresh (CHR ''2''), ''b''),
      (demo_fresh (CHR ''3''), ''c'')] demo_A ! j) [2, 0]) demo_B = [Inr ''c'', Inr ''a'']"
  using out_of_order_delivered [OF toy_ok toy_bound demo_synced demo_in_step,
      of "[(demo_fresh (CHR ''1''), ''a''), (demo_fresh (CHR ''2''), ''b''), (demo_fresh (CHR ''3''), ''c'')]" "[2, 0]" "[]"]
  by simp

text \<open>
  C5: replays are refused. A wire message that was decrypted once is rejected as a duplicate when
  it is delivered again, at once or after any further wire messages the receiver accepted or
  refused, and the receiver's state is left as it was. The receiver must have remembered so few ids
  that the set stays below 4096 with one for each of the later messages: a larger set is cut down to the
  2048 greatest ids, whatever their age.
\<close>

theorem replay_rejected:
  assumes "crypto_ok C" and "aead_bound C" and "fresh_ok fr" and "utf8_valid p"
    and "addressed s r" and "utf8_valid (session_id s)" and "length (hk_send s) = 32"
    and "finite (seen r)" and "card (seen r) + length ws < 4096"
    and "dr_encrypt C fr p s = (Inr w, s')" and "dr_decrypt C sk w r = (Inr q, r')"
  shows "dr_decrypt C sk' w (decrypt_all C ws r')
    = (Inl (ValueError ''Duplicate/replayed Double Ratchet message''), decrypt_all C ws r')"
  by (rule replay_refused [OF assms])

lemma demo_parties: "parties toy_crypto {dh_pk demo_A, dh_pk demo_B} {} {} demo_A demo_B"
proof -
  have "addressed demo_A demo_B" "addressed demo_B demo_A"
    by (simp_all add: addressed_def demo_A_def demo_B_def init_state_def resp_state_def Let_def demo_init_def)
  then show ?thesis
    by (simp add: parties_def own_key_def demo_A_def demo_B_def init_state_def resp_state_def Let_def seen_ok_def dr_new_hk
        demo_init_def ascii_utf8)
qed

theorem replay_rejected_witness:
  "\<exists>w s' v s'' q r'. dr_encrypt toy_crypto (demo_fresh (CHR ''1'')) ''a'' demo_A = (Inr w, s')
     \<and> dr_encrypt toy_crypto (demo_fresh (CHR ''2'')) ''b'' s' = (Inr v, s'')
     \<and> dr_decrypt toy_crypto [] w demo_B = (Inr q, r')
     \<and> dr_decrypt toy_crypto [] w (decrypt_all toy_crypto [([], v), ([], ''junk'')] r')
       = (Inl (ValueError ''Duplicate/replayed Double Ratchet message''), decrypt_all toy_crypto [([], v), ([], ''junk'')] r')"
proof -
  have "at_start demo_A demo_B"
    using demo_in_step by (simp add: at_start_def demo_A_def demo_B_def init_state_def resp_state_def Let_def demo_init_def)
  from synced_in_chain [OF toy_ok toy_bound demo_fresh_ok [of "CHR ''1''"] _ demo_parties disjI1 [OF this], where p = "''a''" and sk = "[]"]
  obtain w s' r' where w: "dr_encrypt toy_crypto (demo_fresh (CHR ''1'')) ''a'' demo_A = (Inr w, s')"
    "dr_decrypt toy_crypto [] w demo_B = (Inr ''a'', r')" by auto
  have "addressed demo_A demo_B" "utf8_valid (session_id demo_A)" "length (hk_send demo_A) = 32" "seen demo_B = {}"
    using demo_parties by (auto simp: parties_def own_key_def demo_B_def resp_state_def Let_def)
  note hyp = this
  have n: "\<not> needs_send_ratchet demo_A \<or> remote_dh demo_A = []"
    using demo_in_step by (simp add: demo_A_def init_state_def Let_def demo_init_def)
  note enc = encrypt_in_chain [OF toy_sizes demo_fresh_ok]
  from w(1) enc [OF hyp(3) n] have "hk_send s' = hk_send demo_A" "\<not> needs_send_ratchet s' \<or> remote_dh s' = []"
    using n by auto
  with enc [of s'] hyp(3) obtain v s'' where "dr_encrypt toy_crypto (demo_fresh (CHR ''2'')) ''b'' s' = (Inr v, s'')" by simp
  with replay_rejected [OF toy_ok toy_bound demo_fresh_ok _ hyp(1-3) _ _ w, of "[([], v), ([], ''junk'')]" "[]"] hyp(4) w
  show ?thesis by auto
qed

text \<open>
  C31: what a peer can make the client keep is bounded. On every input, accepted or rejected,
  \<open>decrypt\<close> leaves at most 1000 skipped message keys and at most 4096 remembered ids.
\<close>

theorem ratchet_memory_bounded:
  assumes "int (length (skipped r)) \<le> MAX_SKIP_KEYS" and "finite (seen r)" and "card (seen r) \<le> 4096"
    and "dr_decrypt C sk w r = (q, r')"
  shows "int (length (skipped r')) \<le> 1000 \<and> finite (seen r') \<and> card (seen r') \<le> 4096"
  using preservesD [OF dr_decrypt_bounded, of r C sk w] assms by (simp add: dr_bounded_def MAX_SKIP_KEYS_def)

theorem ratchet_memory_bounded_witness:
  "int (length (skipped (snd (dr_decrypt toy_crypto [] ''junk'' demo_B)))) \<le> 1000
   \<and> finite (seen (snd (dr_decrypt toy_crypto [] ''junk'' demo_B)))
   \<and> card (seen (snd (dr_decrypt toy_crypto [] ''junk'' demo_B))) \<le> 4096"
  by (rule ratchet_memory_bounded [of demo_B toy_crypto "[]" "''junk''" "fst (dr_decrypt toy_crypto [] ''junk'' demo_B)"])
     (simp_all add: MAX_SKIP_KEYS_def demo_B_def resp_state_def Let_def)

text \<open>
  A ratchet survives being saved. Writing a state with \<open>to_dict\<close> as JSON text and reading
  it back with \<open>from_dict\<close> gives the same state, when at most 2048 ids are remembered and the
  texts in it are well-formed.
\<close>

theorem ratchet_saved_and_loaded:
  assumes "wire_ok (JObj (skipped s))" and "utf8_valid (session_id s)" and "finite (seen s)" and "card (seen s) \<le> 2048"
    and "\<forall>m \<in> seen s. m \<noteq> [] \<and> utf8_valid m"
  shows "rbind (loads (dumps_plain (JObj (to_dict s)))) (\<lambda>j. rbind (as_dict j) from_dict) = Inr s"
proof -
  have "wire_ok (JObj (to_dict s))" by (rule to_dict_wire_ok) (use assms in auto)
  then have "loads (dumps_plain (JObj (to_dict s))) = Inr (JObj (to_dict s))"
    by (intro loads_dumps_plain) (simp add: wire_ok_def)
  moreover have "from_dict (to_dict s) = Inr s"
    using from_to_dict [of s] newest_seen_small [OF assms(3,4)] assms(5) by auto
  ultimately show ?thesis by simp
qed

theorem ratchet_saved_and_loaded_witness:
  "rbind (loads (dumps_plain (JObj (to_dict demo_A)))) (\<lambda>j. rbind (as_dict j) from_dict) = Inr demo_A"
  by (rule ratchet_saved_and_loaded)
     (simp_all add: demo_A_def init_state_def Let_def ascii_utf8)

text \<open>
  The safety number does not depend on who computes it: both sides get the same text from the
  two identity keys.
\<close>

theorem safety_number_symmetric: "safety_fingerprint C a b = safety_fingerprint C b a"
  by (auto simp: safety_fingerprint_def)

text \<open>
  An unsigned KEM key is used when the one-time id is not positive: \<open>verify_bundle\<close> skips the
  one-time key then, but \<open>pqxdh_initiate\<close> still prefers it to the signed one. Here the KEM
  refuses the planted key and the handshake fails with it, though the bundle verified.
\<close>

lemma unsigned_pq_key_used:
  assumes ok: "crypto_ok C" "oqs_present C" and b: "bundle_ok C isk store b csk alg qpk qsk c None"
    and k: "K \<noteq> []" "kem_enc C alg K (i_kem fr) = None"
  shows "verify_bundle C (dset b ''pq_otk'' (JStr (b64e K))) = Inr ()"
    and "pqxdh_initiate C fr (dset b ''pq_otk'' (JStr (b64e K))) st ipk isk' me peer body version conv = Inl kem_error"
proof -
  let ?b = "dset b ''pq_otk'' (JStr (b64e K))"
  have id: "map_of b ''pq_otk_id'' = Some (JInt (- 1))" using b by (auto simp: bundle_ok_def pq_served_def)
  have same: "verify_signed C ?b ipk kind f1 alg' f2 f3 = verify_signed C b ipk kind f1 alg' f2 f3"
    if "f1 \<noteq> ''pq_otk''" "f2 \<noteq> ''pq_otk''" "f3 \<noteq> ''pq_otk''" for ipk kind f1 alg' f2 f3
    using that by (simp add: verify_signed_def dkey_def update_conv')
  have id': "py_int (dget b ''pq_otk_id'' (JInt (- 1))) = Inr (- 1)" using id by (simp add: dget_def)
  have keys: "k \<noteq> ''pq_otk'' \<Longrightarrow> dkey ?b k = dkey b k" for k by (simp add: dkey_def update_conv')
  have "verify_bundle C ?b = verify_bundle C b"
    by (simp add: verify_bundle_def same keys id' cong: if_cong)
  then show v: "verify_bundle C ?b = Inr ()" using verify_bundle_ok [OF ok(1) b] by simp
  have "map_of b ''pq_kem_alg'' = Some (JStr alg)" using b by (auto simp: bundle_ok_def spk_served_def)
  with id k v ok(2) show "pqxdh_initiate C fr ?b st ipk isk' me peer body version conv = Inl kem_error"
    by (simp add: pqxdh_initiate_def dget_def update_conv' dkey_def key_field_def truthy_def kem_encapsulate_def alg_text_def)
qed

end
