(* ===== verification/Session.thy ===== *)
theory Session
  imports Pqxdh
begin

text \<open>
  The state of one login (\<open>client/crypto_engine/session.py\<close>, class \<open>CryptoSession\<close>) and
  the local files under \<open>~/.secchat/<username>\<close>. Files are an association list from the file's
  name to its text; the file system does not fail. \<open>tick\<close> counts the draws of randomness and
  of the clock, which the environment \<open>C\<close> answers. Double Ratchet objects live in
  \<open>ratchets\<close> and are referred to by index, because the two dictionaries
  \<open>double_ratchet_states\<close> and \<open>double_ratchet_session_states\<close> share them.
  An absent master key is the empty text (the code only tests it for truth).
  \<open>mls_bridge\<close> says whether the bridge object exists and \<open>mls_proc\<close> holds the lines
  written to its running process, if one runs.
\<close>

record crypto_session =
  master_key :: bytes
  secchat_dir :: string
  uid :: int
  identity_pk :: bytes
  identity_sk :: bytes
  conv_peer_uids :: "(int \<times> int) list"
  conv_fingerprints :: "(int \<times> string) list"
  conv_verified :: "(int \<times> bool) list"
  identity_audit_states :: "(int \<times> dict) list"
  auditor_state :: dict
  group_conv_ids :: "int set"
  group_epochs :: "(int \<times> int) list"
  pqxdh_prekeys :: "dict option"
  ratchets :: "double_ratchet list"
  double_ratchet_states :: "(int \<times> nat) list"
  double_ratchet_session_states :: "(int \<times> (string \<times> nat) list) list"
  mls_bridge :: bool
  mls_proc :: "string list option"
  mls_identity_ready :: bool
  mls_credential_identity_b64 :: string
  mls_group_ready :: "int set"
  mls_handshake_seen :: "string set"
  cache_enabled :: bool
  cache_ttl_days :: int
  cache_clear_on_logout :: bool
  cache_disabled_convs :: "int set"
  control_warnings :: "(int \<times> string list) list"
  disk :: "(string \<times> string) list"
  tick :: nat

type_synonym 'a ses = "(crypto_session, 'a) act"

definition session_reset :: "crypto_session \<Rightarrow> crypto_session" where
  "session_reset s = s\<lparr> master_key := [], secchat_dir := [], uid := 0, identity_pk := [], identity_sk := [],
     conv_peer_uids := [], conv_fingerprints := [], conv_verified := [], identity_audit_states := [],
     auditor_state := [], group_conv_ids := {}, group_epochs := [], pqxdh_prekeys := None, ratchets := [],
     double_ratchet_states := [], double_ratchet_session_states := [], mls_bridge := False, mls_proc := None, mls_identity_ready := False,
     mls_credential_identity_b64 := [], mls_group_ready := {},
     mls_handshake_seen := {}, cache_enabled := True, cache_ttl_days := 30, cache_clear_on_logout := False,
     cache_disabled_convs := {}, control_warnings := [] \<rparr>"

definition configure :: "bytes \<Rightarrow> string \<Rightarrow> int \<Rightarrow> crypto_session \<Rightarrow> crypto_session" where
  "configure key dir me s = s\<lparr> master_key := key, secchat_dir := dir, uid := me \<rparr>"

subsection \<open>File names\<close>

definition identity_key_path :: string where
  "identity_key_path = ''identity_sk.bin''"

definition msg_cache_path :: "int \<Rightarrow> string" where
  "msg_cache_path conv = ''msgs_'' @ show_int conv @ ''.bin''"

definition cache_policy_path :: string where
  "cache_policy_path = ''cache_policy.bin''"

definition backup_state_path :: string where
  "backup_state_path = ''backup_state.bin''"

definition transcript_path :: "int \<Rightarrow> string" where
  "transcript_path conv = ''transcript_'' @ show_int conv @ ''.bin''"

definition wire_cache_key :: "crypto \<Rightarrow> string \<Rightarrow> string" where
  "wire_cache_key C wire = ''wire:'' @ to_hex (sha256 C wire)"

definition pqxdh_prekeys_path :: string where
  "pqxdh_prekeys_path = ''pqxdh_prekeys.bin''"

definition double_ratchet_path :: "int \<Rightarrow> string" where
  "double_ratchet_path conv = ''dr_'' @ show_int conv @ ''.bin''"

definition double_ratchet_sessions_path :: "int \<Rightarrow> string" where
  "double_ratchet_sessions_path conv = ''dr_sessions_'' @ show_int conv @ ''.bin''"

definition mls_state_path :: string where
  "mls_state_path = ''mls_state.bin''"

definition verified_path :: "int \<Rightarrow> string" where
  "verified_path conv = ''verified_'' @ show_int conv @ ''.bin''"

definition identity_audit_path :: "int \<Rightarrow> string" where
  "identity_audit_path user = ''identity_audit_'' @ show_int user @ ''.bin''"

definition auditor_state_path :: string where
  "auditor_state_path = ''auditor_state.bin''"

subsection \<open>Warnings\<close>

definition add_control_warning :: "int \<Rightarrow> string \<Rightarrow> crypto_session \<Rightarrow> crypto_session" where
  "add_control_warning conv warning s =
     (let w = strip warning
      in if w = [] then s
         else s\<lparr> control_warnings := dset (control_warnings s) conv (dget (control_warnings s) conv [] @ [w]) \<rparr>)"

definition pop_control_warnings :: "int \<Rightarrow> crypto_session \<Rightarrow> string list \<times> crypto_session" where
  "pop_control_warnings conv s =
     (dget (control_warnings s) conv [], s\<lparr> control_warnings := dpop (control_warnings s) conv \<rparr>)"

subsection \<open>Sealed files\<close>

definition can_store :: "crypto_session \<Rightarrow> bool" where
  "can_store s = (secchat_dir s \<noteq> [] \<and> master_key s \<noteq> [])"

definition write_file :: "string \<Rightarrow> string \<Rightarrow> crypto_session \<Rightarrow> crypto_session" where
  "write_file name text s = s\<lparr> disk := dset (disk s) name text \<rparr>"

definition remove_file :: "string \<Rightarrow> crypto_session \<Rightarrow> crypto_session" where
  "remove_file name s = s\<lparr> disk := dpop (disk s) name \<rparr>"

definition has_file :: "string \<Rightarrow> crypto_session \<Rightarrow> bool" where
  "has_file name s = dhas (disk s) name"

text \<open>\<open>encrypt_with_key(self.master_key, text)\<close>: one draw of the nonce and the clock.\<close>

definition seal :: "crypto \<Rightarrow> string \<Rightarrow> string ses" where
  "seal C text s =
     (encrypt_with_key C (os_random C (tick s) 12) (clock_ms C (tick s)) (master_key s) text, s\<lparr> tick := tick s + 1 \<rparr>)"

definition now_ms :: "crypto \<Rightarrow> crypto_session \<Rightarrow> int" where
  "now_ms C s = clock_ms C (tick s)"

text \<open>\<open>decrypt_with_key(key, open(path).read().strip(), check_replay=False)\<close>\<close>

definition unseal_text :: "crypto \<Rightarrow> crypto_session \<Rightarrow> string \<Rightarrow> string res" where
  "unseal_text C s token = open_at_rest C (master_key s) token"

definition read_sealed :: "crypto \<Rightarrow> crypto_session \<Rightarrow> string \<Rightarrow> string res" where
  "read_sealed C s name = (case map_of (disk s) name of
       None \<Rightarrow> Inl (OSError ''No such file or directory'')
     | Some text \<Rightarrow> unseal_text C s (strip text))"

definition read_sealed_json :: "crypto \<Rightarrow> crypto_session \<Rightarrow> string \<Rightarrow> json res" where
  "read_sealed_json C s name = rbind (read_sealed C s name) loads"

definition write_sealed :: "crypto \<Rightarrow> string \<Rightarrow> string \<Rightarrow> unit ses" where
  "write_sealed C name text = sbind (seal C text) (\<lambda>token. smod (write_file name token))"

text \<open>A body run in a \<open>try\<close> whose \<open>except\<close> only logs.\<close>

definition logged :: "unit ses \<Rightarrow> unit ses" where
  "logged m = scatch m (\<lambda>_. sret ())"

lemma logged_run [simp]: "logged m s = (Inr (), snd (m s))"
  by (cases "m s") (auto simp: logged_def scatch_def split: sum.splits)

lemma token_strip: "encrypt_with_key C nonce ts key text = Inr token \<Longrightarrow> strip token = token"
proof -
  assume "encrypt_with_key C nonce ts key text = Inr token"
  then obtain b where t: "token = b64encode b" by (auto simp: encrypt_with_key_def Let_def)
  have "\<not> py_space c" if "c \<in> set (b64encode b)" for c
    using that b64_body_chars [of b] b64_char_props(5) by (auto simp: b64encode_def list_all_iff py_space_def split: if_splits)
  then show ?thesis unfolding t by (intro strip_id) (metis hd_in_set last_in_set)
qed

text \<open>What is written sealed is read back.\<close>

definition key_ok :: "crypto \<Rightarrow> crypto_session \<Rightarrow> bool" where
  "key_ok C s = (aead_ok C \<and> sizes_ok C \<and> length (master_key s) = 32)"

lemma seal_total:
  assumes "key_ok C s"
  obtains token where "seal C text s = (Inr token, s\<lparr> tick := tick s + 1 \<rparr>)"
    and "encrypt_with_key C (os_random C (tick s) 12) (clock_ms C (tick s)) (master_key s) text = Inr token"
  using assms encrypt_with_key_total [of "master_key s" "os_random C (tick s) 12" C "clock_ms C (tick s)" "text"]
  by (auto simp: key_ok_def seal_def sizes_okD)

lemma seal_ok_tick: "key_ok C s \<Longrightarrow> seal_ok C (master_key s) (os_random C t 12)"
  by (simp add: key_ok_def seal_ok_def sizes_okD)

lemma write_read_sealed:
  assumes "key_ok C s" and "utf8_valid text"
  obtains s' where "write_sealed C name text s = (Inr (), s')" and "read_sealed C s' name = Inr text"
    and "s' = s\<lparr> tick := tick s + 1, disk := disk s' \<rparr>"
    and "\<And>n. n \<noteq> name \<Longrightarrow> map_of (disk s') n = map_of (disk s) n"
proof -
  obtain token where t: "seal C text s = (Inr token, s\<lparr> tick := tick s + 1 \<rparr>)"
    "encrypt_with_key C (os_random C (tick s) 12) (clock_ms C (tick s)) (master_key s) text = Inr token"
    by (rule seal_total [OF assms(1)])
  let ?s' = "write_file name token (s\<lparr> tick := tick s + 1 \<rparr>)"
  have "write_sealed C name text s = (Inr (), ?s')" by (simp add: write_sealed_def sbind_def t(1))
  moreover have "read_sealed C ?s' name = Inr text"
    using open_at_rest_sealed [OF seal_ok_tick [OF assms(1)] assms(2) t(2)] token_strip [OF t(2)]
    by (simp add: read_sealed_def write_file_def update_conv' unseal_text_def)
  ultimately show ?thesis using that [of ?s'] by (simp add: write_file_def update_conv')
qed

text \<open>Writing a sealed file changes that file and the clock only.\<close>

lemma seal_effect: "snd (seal C t s) = s\<lparr> tick := tick s + 1 \<rparr>"
  by (simp add: seal_def)

lemma write_sealed_effect:
  obtains d where "snd (write_sealed C name t s) = s\<lparr> tick := tick s + 1, disk := d \<rparr>"
    and "\<And>m. m \<noteq> name \<Longrightarrow> map_of d m = map_of (disk s) m"
proof (cases "fst (seal C t s)")
  case (Inl e)
  then show ?thesis using that [of "disk s"] by (simp add: write_sealed_def sbind_def seal_def)
next
  case (Inr token)
  then show ?thesis using that [of "dset (disk s) name token"]
    by (simp add: write_sealed_def sbind_def seal_def write_file_def update_conv')
qed

lemma read_sealed_cong:
  "map_of (disk t) n = map_of (disk s) n \<Longrightarrow> master_key t = master_key s \<Longrightarrow> read_sealed C t n = read_sealed C s n"
  by (simp add: read_sealed_def unseal_text_def cong: option.case_cong)

lemma has_file_cong: "map_of (disk t) n = map_of (disk s) n \<Longrightarrow> has_file n t = has_file n s"
  by (simp add: has_file_def dhas_def)

lemma dumps_ascii_props:
  assumes "json_ok v" and "json_utf8 v"
  shows "loads (dumps_ascii_compact v) = Inr v" and "utf8_valid (dumps_ascii_compact v)"
  using assms by simp_all

text \<open>What a sealed file holds, as seen by every session with the same key.\<close>

definition stores :: "crypto \<Rightarrow> crypto_session \<Rightarrow> string \<Rightarrow> string \<Rightarrow> bool" where
  "stores C s name text = (has_file name s \<and> read_sealed C s name = Inr text)"

lemma write_stores:
  assumes "key_ok C s" and "utf8_valid text"
  obtains s' where "write_sealed C name text s = (Inr (), s')" and "stores C s' name text"
    and "s' = s\<lparr> tick := tick s + 1, disk := disk s' \<rparr>" and "\<And>n. n \<noteq> name \<Longrightarrow> map_of (disk s') n = map_of (disk s) n"
proof -
  obtain s' where w: "write_sealed C name text s = (Inr (), s')" "read_sealed C s' name = Inr text"
    "s' = s\<lparr> tick := tick s + 1, disk := disk s' \<rparr>" "\<And>n. n \<noteq> name \<Longrightarrow> map_of (disk s') n = map_of (disk s) n"
    by (rule write_read_sealed [OF assms, of name]) blast
  then have "stores C s' name text"
    by (cases "map_of (disk s') name") (simp_all add: stores_def has_file_def dhas_def read_sealed_def)
  with w show ?thesis by (intro that)
qed

lemma stores_cong:
  "stores C s name text \<Longrightarrow> map_of (disk t) name = map_of (disk s) name \<Longrightarrow> master_key t = master_key s \<Longrightarrow> stores C t name text"
  by (simp add: stores_def read_sealed_cong [of t name s] has_file_cong [of t name s])

subsection \<open>A concrete session\<close>

definition demo_session :: crypto_session where
  "demo_session = \<lparr> master_key = replicate 32 (CHR ''k''), secchat_dir = ''d'', uid = 1, identity_pk = [], identity_sk = [],
     conv_peer_uids = [], conv_fingerprints = [], conv_verified = [], identity_audit_states = [], auditor_state = [],
     group_conv_ids = {}, group_epochs = [], pqxdh_prekeys = None, ratchets = [], double_ratchet_states = [],
     double_ratchet_session_states = [], mls_bridge = False, mls_proc = None, mls_identity_ready = False,
     mls_credential_identity_b64 = [], mls_group_ready = {}, mls_handshake_seen = {}, cache_enabled = True,
     cache_ttl_days = 30, cache_clear_on_logout = False, cache_disabled_convs = {}, control_warnings = [],
     disk = [], tick = 0 \<rparr>"

lemma demo_stores: "key_ok toy_crypto demo_session" "can_store demo_session"
  using crypto_okD(1) [OF toy_ok] by (simp_all add: key_ok_def can_store_def demo_session_def)

end
