(* ===== verification/Mls.thy ===== *)
theory Mls
  imports Session
begin

text \<open>
  Group encryption: the JSON line protocol to the OpenMLS process
  (\<open>client/crypto_engine/openmls_bridge.py\<close>) and the operations of \<open>CryptoSession\<close> built
  on it (\<open>_require_mls_bridge\<close> to \<open>is_mls_application_wire\<close>). The process is not code of
  the repository: \<open>mls_serve C lines\<close> is its answer to the last of the lines written to it since
  it was started, empty when it has stopped. The binary is the one \<open>resolved_binary\<close> finds, if any.
\<close>

subsection \<open>The bridge\<close>

definition PQ_HYBRID_CIPHERSUITE :: string where
  "PQ_HYBRID_CIPHERSUITE = ''MLS_256_XWING_CHACHA20POLY1305_SHA256_Ed25519''"

definition bridge_start :: "crypto \<Rightarrow> unit ses" where
  "bridge_start C s =
     (if mls_proc s \<noteq> None then (Inr (), s)
      else if \<not> mls_present C then (Inl (RuntimeError ''OpenMLS bridge binary is not available''), s)
      else (Inr (), s\<lparr> mls_proc := Some [] \<rparr>))"

definition bridge_close :: "crypto_session \<Rightarrow> crypto_session" where
  "bridge_close s = s\<lparr> mls_proc := None \<rparr>"

definition command_line :: "string \<Rightarrow> dict \<Rightarrow> string" where
  "command_line cmd args = dumps_compact (JObj ((''cmd'', JStr cmd) # args))"

text \<open>What \<open>command\<close> makes of the line it reads.\<close>

definition bridge_reply :: "string \<Rightarrow> dict res" where
  "bridge_reply raw =
     (if raw = [] then Inl (RuntimeError ''OpenMLS bridge stopped unexpectedly'')
      else case loads raw of
             Inl _ \<Rightarrow> Inl (RuntimeError ''OpenMLS bridge returned invalid JSON'')
           | Inr j \<Rightarrow> rbind (as_dict j) (\<lambda>d.
               if truthy (dget d ''ok'' JNull) then Inr d
               else Inl (RuntimeError (py_str (py_or (dget d ''error'' JNull) (JStr raw))))))"

definition bridge_command :: "crypto \<Rightarrow> string \<Rightarrow> dict \<Rightarrow> dict ses" where
  "bridge_command C cmd args = sbind (bridge_start C) (\<lambda>_ s.
     let lines = (case mls_proc s of None \<Rightarrow> [] | Some ls \<Rightarrow> ls) @ [command_line cmd args];
         raw = mls_serve C lines
     in (bridge_reply raw, s\<lparr> mls_proc := (if raw = [] then None else Some lines) \<rparr>))"

definition bridge_init_identity :: "crypto \<Rightarrow> int \<Rightarrow> string \<Rightarrow> string \<Rightarrow> int \<Rightarrow> dict ses" where
  "bridge_init_identity C user email pk version =
     bridge_command C ''init_identity'' [(''user_id'', JInt user), (''email'', JStr email), (''secchat_identity_pk'', JStr pk),
       (''secchat_identity_version'', JInt version)]"

definition bridge_top_up_key_packages :: "crypto \<Rightarrow> int \<Rightarrow> json list ses" where
  "bridge_top_up_key_packages C count =
     sbind (bridge_command C ''top_up_key_packages'' [(''count'', JInt count)]) (\<lambda>result.
       slift (as_list (py_or (dget result ''key_packages'' JNull) (JArr []))))"

definition bridge_export_state :: "crypto \<Rightarrow> dict ses" where
  "bridge_export_state C = bridge_command C ''export_state'' []"

definition bridge_import_state :: "crypto \<Rightarrow> string \<Rightarrow> dict ses" where
  "bridge_import_state C state_b64 = bridge_command C ''import_state'' [(''state_b64'', JStr state_b64)]"

definition bridge_create_group :: "crypto \<Rightarrow> int \<Rightarrow> dict ses" where
  "bridge_create_group C conv = bridge_command C ''create_group'' [(''conversation_id'', JInt conv)]"

definition bridge_add_members :: "crypto \<Rightarrow> int \<Rightarrow> string list \<Rightarrow> dict ses" where
  "bridge_add_members C conv kps =
     bridge_command C ''add_members'' [(''conversation_id'', JInt conv), (''key_packages'', JArr (map JStr kps))]"

definition bridge_remove_members :: "crypto \<Rightarrow> int \<Rightarrow> int list \<Rightarrow> dict ses" where
  "bridge_remove_members C conv users =
     bridge_command C ''remove_members'' [(''conversation_id'', JInt conv), (''user_ids'', JArr (map JInt users))]"

definition bridge_join_from_welcome :: "crypto \<Rightarrow> int \<Rightarrow> string \<Rightarrow> dict ses" where
  "bridge_join_from_welcome C conv welcome =
     bridge_command C ''join_from_welcome'' [(''conversation_id'', JInt conv), (''welcome_b64'', JStr welcome)]"

definition bridge_process_commit :: "crypto \<Rightarrow> int \<Rightarrow> string \<Rightarrow> dict ses" where
  "bridge_process_commit C conv commit =
     bridge_command C ''process_commit'' [(''conversation_id'', JInt conv), (''commit_b64'', JStr commit)]"

definition bridge_encrypt_application :: "crypto \<Rightarrow> int \<Rightarrow> string \<Rightarrow> string ses" where
  "bridge_encrypt_application C conv plaintext =
     sbind (bridge_command C ''encrypt_application'' [(''conversation_id'', JInt conv), (''plaintext_b64'', JStr (b64e plaintext))]) (\<lambda>result.
     sbind (slift (dkey result ''message_b64'')) (\<lambda>m. sret (py_str m)))"

definition bridge_decrypt_application :: "crypto \<Rightarrow> int \<Rightarrow> string \<Rightarrow> string ses" where
  "bridge_decrypt_application C conv message =
     sbind (bridge_command C ''decrypt_application'' [(''conversation_id'', JInt conv), (''message_b64'', JStr message)]) (\<lambda>result.
     sbind (slift (dkey result ''plaintext_b64'')) (\<lambda>p.
       slift (rbind (b64d (py_str p)) utf8_decode)))"

subsection \<open>Saving and restoring\<close>

definition make_bridge :: "crypto_session \<Rightarrow> crypto_session" where
  "make_bridge s = s\<lparr> mls_bridge := True \<rparr>"

definition require_mls_bridge :: "unit ses" where
  "require_mls_bridge s =
     (if \<not> mls_identity_ready s then (Inl (CryptoStateError ''MLS identity is not initialized yet.''), make_bridge s)
      else (Inr (), make_bridge s))"

definition mls_snapshot :: "dict \<Rightarrow> string \<Rightarrow> dict res" where
  "mls_snapshot snapshot credential =
     rbind (as_list (py_or (dget snapshot ''groups'' (JArr [])) (JArr []))) (\<lambda>gs.
     rbind (rmap py_int gs) (\<lambda>groups.
       Inr [(''schema_version'', JInt 1), (''state_b64'', JStr (py_str (py_or (dget snapshot ''state_b64'' (JStr [])) (JStr [])))),
            (''ciphersuite'', JStr (py_str (py_or (dget snapshot ''ciphersuite'' (JStr [])) (JStr [])))),
            (''pq_hybrid'', JBool (truthy (dget snapshot ''pq_hybrid'' (JBool False)))),
            (''pq_authentication'', JBool (truthy (dget snapshot ''pq_authentication'' (JBool False)))),
            (''credential_identity_b64'', JStr (py_str (py_or (dget snapshot ''credential_identity_b64'' (JStr [])) (JStr credential)))),
            (''groups'', JArr (map JInt (sort groups)))]))"

definition save_mls_state :: "crypto \<Rightarrow> unit ses" where
  "save_mls_state C s =
     (if \<not> can_store s \<or> \<not> mls_bridge s \<or> \<not> mls_identity_ready s then (Inr (), s)
      else logged (sbind (bridge_export_state C) (\<lambda>snapshot.
                   sbind (\<lambda>s. (mls_snapshot snapshot (mls_credential_identity_b64 s), s)) (\<lambda>payload.
                   if dget payload ''state_b64'' JNull = JStr [] then sret ()
                   else write_sealed C mls_state_path (dumps_compact (JObj payload))))) s)"

text \<open>\<open>{int(x) for x in xs if int(x or 0) > 0}\<close>\<close>

fun group_set :: "json list \<Rightarrow> int set res" where
  "group_set [] = Inr {}"
| "group_set (x # xs) =
     rbind (py_int (py_or x (JInt 0))) (\<lambda>i. rbind (if 0 < i then py_int x else Inr 0) (\<lambda>j.
     rbind (group_set xs) (\<lambda>rest. Inr (if 0 < i then insert j rest else rest))))"

definition import_mls_state :: "crypto \<Rightarrow> bool ses" where
  "import_mls_state C =
     sbind (\<lambda>s. (case map_of (disk s) mls_state_path of
                   None \<Rightarrow> Inl (OSError ''No such file or directory'') | Some t \<Rightarrow> Inr (strip t), s)) (\<lambda>token.
     if token = [] then sret False
     else sbind (\<lambda>s. (rbind (rbind (unseal_text C s token) loads) as_dict, s)) (\<lambda>payload.
       let state_b64 = py_str (py_or (dget payload ''state_b64'' (JStr [])) (JStr []))
       in if state_b64 = [] then sret False
          else sbind (smod make_bridge) (\<lambda>_.
               sbind (bridge_import_state C state_b64) (\<lambda>result.
               sbind (smod (\<lambda>s. s\<lparr> mls_identity_ready := True, mls_credential_identity_b64 :=
                   py_str (py_or (py_or (dget result ''credential_identity_b64'' (JStr []))
                                        (dget payload ''credential_identity_b64'' (JStr []))) (JStr [])) \<rparr>)) (\<lambda>_.
               sbind (slift (rbind (as_list (py_or (py_or (dget result ''groups'' (JArr [])) (dget payload ''groups'' (JArr []))) (JArr [])))
                                   group_set)) (\<lambda>groups.
               sbind (smod (\<lambda>s. s\<lparr> mls_group_ready := mls_group_ready s \<union> groups, group_conv_ids := group_conv_ids s \<union> groups \<rparr>)) (\<lambda>_.
               sret True)))))))"

definition discard_mls_state :: "crypto \<Rightarrow> crypto_session \<Rightarrow> crypto_session" where
  "discard_mls_state C s =
     (if mls_bridge s \<and> mls_present C
      then (remove_file mls_state_path s)\<lparr> mls_identity_ready := False, mls_credential_identity_b64 := [], mls_group_ready := {} \<rparr>
      else s)"

definition load_mls_state_into_bridge :: "crypto \<Rightarrow> crypto_session \<Rightarrow> bool \<times> crypto_session" where
  "load_mls_state_into_bridge C s =
     (if \<not> can_store s \<or> \<not> has_file mls_state_path s then (False, s)
      else case import_mls_state C s of
             (Inr b, s') \<Rightarrow> (b, s')
           | (Inl _, s') \<Rightarrow> (False, discard_mls_state C s'))"

definition initialize_mls_identity :: "crypto \<Rightarrow> string \<Rightarrow> int \<Rightarrow> dict ses" where
  "initialize_mls_identity C email version s =
     (if identity_pk s = [] then (Inl (CryptoStateError ''SecChat identity key is not loaded.''), s)
      else case load_mls_state_into_bridge C (make_bridge s) of
        (True, s1) \<Rightarrow>
          (Inr [(''ok'', JBool True), (''restored'', JBool True), (''ciphersuite'', JStr PQ_HYBRID_CIPHERSUITE),
                (''pq_hybrid'', JBool True), (''pq_authentication'', JBool False),
                (''credential_identity_b64'', JStr (mls_credential_identity_b64 s1))], s1)
      | (False, s1) \<Rightarrow>
          sbind (bridge_init_identity C (uid s1) email (b64e (identity_pk s1)) version) (\<lambda>result.
          sbind (smod (\<lambda>s. s\<lparr> mls_identity_ready := True, mls_credential_identity_b64 :=
              py_str (py_or (dget result ''credential_identity_b64'' (JStr [])) (JStr [])) \<rparr>)) (\<lambda>_.
          sbind (save_mls_state C) (\<lambda>_. sret result))) s1)"

definition mls_key_package_sig_msg :: "dict \<Rightarrow> bytes" where
  "mls_key_package_sig_msg pkg =
     (let field = (\<lambda>k. py_str (py_or (dget pkg k (JStr [])) (JStr [])))
      in ''SecChatMLSKeyPackage'' @ [CHR 0x00] @ field ''key_package_ref'' @ [CHR 0x00] @ field ''key_package_b64''
         @ [CHR 0x00] @ field ''ciphersuite'')"

definition sign_package :: "crypto \<Rightarrow> string \<Rightarrow> bytes \<Rightarrow> json \<Rightarrow> json res" where
  "sign_package C credential sk j =
     (case j of
        JObj d \<Rightarrow>
          let d1 = dset d ''credential_identity_b64'' (JStr credential)
          in rbind (identity_sign C sk (mls_key_package_sig_msg d1)) (\<lambda>sig.
               Inr (JObj (dset d1 ''secchat_signature'' (JStr (b64e sig)))))
      | _ \<Rightarrow> Inl (TypeError ''object does not support item assignment''))"

definition mls_key_package_upload_command :: "crypto \<Rightarrow> int \<Rightarrow> dict ses" where
  "mls_key_package_upload_command C count s =
     (if identity_sk s = [] then (Inl (CryptoStateError ''SecChat identity secret is not loaded.''), s)
      else sbind require_mls_bridge (\<lambda>_.
           sbind (bridge_top_up_key_packages C count) (\<lambda>packages.
           sbind (\<lambda>s. (rmap (sign_package C (mls_credential_identity_b64 s) (identity_sk s)) packages, s)) (\<lambda>signed.
           sbind (save_mls_state C) (\<lambda>_.
           sret [(''type'', JStr ''upload_mls_key_packages''), (''key_packages'', JArr signed)])))) s)"

subsection \<open>Groups\<close>

definition ready_group :: "int \<Rightarrow> crypto_session \<Rightarrow> crypto_session" where
  "ready_group conv s = s\<lparr> mls_group_ready := insert conv (mls_group_ready s) \<rparr>"

definition know_group :: "int \<Rightarrow> crypto_session \<Rightarrow> crypto_session" where
  "know_group conv s = s\<lparr> group_conv_ids := insert conv (group_conv_ids s) \<rparr>"

definition leave_group :: "int \<Rightarrow> crypto_session \<Rightarrow> crypto_session" where
  "leave_group conv s = s\<lparr> mls_group_ready := mls_group_ready s - {conv} \<rparr>"

text \<open>\<open>self.group_epochs[conv_id] = int(result.get("epoch", 0) or 0)\<close>\<close>

definition set_epoch :: "int \<Rightarrow> dict \<Rightarrow> unit ses" where
  "set_epoch conv result = sbind (slift (int_or_0 result ''epoch'')) (\<lambda>e.
     smod (\<lambda>s. s\<lparr> group_epochs := dset (group_epochs s) conv e \<rparr>))"

definition create_mls_group :: "crypto \<Rightarrow> int \<Rightarrow> dict ses" where
  "create_mls_group C conv =
     sbind require_mls_bridge (\<lambda>_.
     sbind (bridge_create_group C conv) (\<lambda>result.
     sbind (smod (\<lambda>s. ready_group conv (know_group conv s))) (\<lambda>_.
     sbind (set_epoch conv result) (\<lambda>_.
     sbind (save_mls_state C) (\<lambda>_. sret result)))))"

definition add_mls_members :: "crypto \<Rightarrow> int \<Rightarrow> string list \<Rightarrow> dict ses" where
  "add_mls_members C conv kps =
     sbind require_mls_bridge (\<lambda>_.
     sbind (bridge_add_members C conv (filter (\<lambda>kp. kp \<noteq> []) kps)) (\<lambda>result.
     sbind (smod (ready_group conv)) (\<lambda>_.
     sbind (set_epoch conv result) (\<lambda>_.
     sbind (save_mls_state C) (\<lambda>_. sret result)))))"

definition remove_mls_members :: "crypto \<Rightarrow> int \<Rightarrow> int list \<Rightarrow> dict ses" where
  "remove_mls_members C conv users =
     sbind require_mls_bridge (\<lambda>_.
     sbind (bridge_remove_members C conv (filter (\<lambda>u. 0 < u) users)) (\<lambda>result.
     sbind (set_epoch conv result) (\<lambda>_.
     sbind (smod (if truthy (dget result ''active'' (JBool True)) then id else leave_group conv)) (\<lambda>_.
     sbind (save_mls_state C) (\<lambda>_. sret result)))))"

definition join_mls_group_from_welcome :: "crypto \<Rightarrow> int \<Rightarrow> string \<Rightarrow> dict ses" where
  "join_mls_group_from_welcome C conv welcome =
     sbind require_mls_bridge (\<lambda>_.
     sbind (bridge_join_from_welcome C conv welcome) (\<lambda>result.
     sbind (smod (\<lambda>s. ready_group conv (know_group conv s))) (\<lambda>_.
     sbind (set_epoch conv result) (\<lambda>_.
     sbind (save_mls_state C) (\<lambda>_. sret result)))))"

definition process_mls_commit :: "crypto \<Rightarrow> int \<Rightarrow> string \<Rightarrow> dict option ses" where
  "process_mls_commit C conv commit s =
     (if conv \<notin> mls_group_ready s then (Inr None, s)
      else sbind require_mls_bridge (\<lambda>_.
           sbind (bridge_process_commit C conv commit) (\<lambda>result.
           sbind (set_epoch conv result) (\<lambda>_.
           sbind (smod (if dget result ''active'' JNull = JBool False then leave_group conv else id)) (\<lambda>_.
           sbind (save_mls_state C) (\<lambda>_. sret (Some result)))))) s)"

subsection \<open>Handshake items\<close>

text \<open>\<open>seen_key = f"{row_id}:{kind}:{item.get('epoch', '')}"\<close>\<close>

definition handshake_key :: "int \<Rightarrow> string \<Rightarrow> dict \<Rightarrow> string" where
  "handshake_key row kind item = show_int row @ '':'' @ kind @ '':'' @ py_str (dget item ''epoch'' (JStr []))"

definition mark_seen :: "string \<Rightarrow> crypto_session \<Rightarrow> crypto_session" where
  "mark_seen k s = s\<lparr> mls_handshake_seen := insert k (mls_handshake_seen s) \<rparr>"

definition apply_handshake :: "crypto \<Rightarrow> int \<Rightarrow> string \<Rightarrow> string \<Rightarrow> dict \<Rightarrow> string \<Rightarrow> unit ses" where
  "apply_handshake C conv kind key item message =
     (if kind = ''welcome''
      then sbind (slift (int_or_0 item ''target_user_id'')) (\<lambda>target s.
             if target \<noteq> 0 \<and> target \<noteq> uid s then (Inr (), mark_seen key s)
             else if conv \<in> mls_group_ready s then (Inr (), mark_seen key s)
             else sbind (join_mls_group_from_welcome C conv message) (\<lambda>_. smod (mark_seen key)) s)
      else if kind = ''commit''
      then sbind (process_mls_commit C conv message) (\<lambda>_. smod (mark_seen key))
      else smod (mark_seen key))"

definition handshake_item :: "crypto \<Rightarrow> int \<Rightarrow> int \<times> dict \<Rightarrow> crypto_session \<Rightarrow> crypto_session" where
  "handshake_item C conv ri s = (case ri of (row, item) \<Rightarrow>
     let kind = py_str (py_or (dget item ''kind'' (JStr [])) (JStr []));
         key = handshake_key row kind item;
         message = py_str (py_or (dget item ''mls_message_b64'' (JStr [])) (JStr []))
     in if key \<in> mls_handshake_seen s \<or> message = [] then s
        else snd (logged (apply_handshake C conv kind key item message) s))"

definition process_mls_handshake_items :: "crypto \<Rightarrow> int \<Rightarrow> dict list \<Rightarrow> unit ses" where
  "process_mls_handshake_items C conv items s =
     (case rmap (\<lambda>item. rbind (int_or_0 item ''id'') (\<lambda>i. Inr (i, item))) items of
        Inl e \<Rightarrow> (Inl e, s)
      | Inr rows \<Rightarrow> (Inr (), fold (handshake_item C conv) (sort_key fst rows) s))"

subsection \<open>Application messages\<close>

definition group_not_ready :: exc where
  "group_not_ready = CryptoStateError ''MLS group state is not initialized yet.''"

definition mls_envelope :: "int \<Rightarrow> int \<Rightarrow> int \<Rightarrow> string \<Rightarrow> string" where
  "mls_envelope conv sender epoch message =
     PREFIX_MLS @ json_b64 (JObj [(''schema_version'', JInt 1), (''kind'', JStr ''application''), (''conversation_id'', JInt conv),
       (''sender_uid'', JInt sender), (''epoch_hint'', JInt epoch), (''message_b64'', JStr message)])"

definition mls_application_wire :: "crypto \<Rightarrow> int \<Rightarrow> string \<Rightarrow> string ses" where
  "mls_application_wire C conv plaintext s =
     (if conv \<notin> mls_group_ready s then (Inl group_not_ready, s)
      else sbind require_mls_bridge (\<lambda>_.
           sbind (bridge_encrypt_application C conv plaintext) (\<lambda>message.
           sbind (save_mls_state C) (\<lambda>_.
           sget (\<lambda>s. mls_envelope conv (uid s) (dget (group_epochs s) conv 0) message)))) s)"

definition mls_control_message_b64 :: "crypto \<Rightarrow> int \<Rightarrow> dict \<Rightarrow> string ses" where
  "mls_control_message_b64 C conv control s =
     (if conv \<notin> mls_group_ready s then (Inl group_not_ready, s)
      else sbind require_mls_bridge (\<lambda>_.
           sbind (bridge_encrypt_application C conv (dumps_compact (JObj (dupdate [(''type'', JStr ''group_control'')] control)))) (\<lambda>message.
           sbind (save_mls_state C) (\<lambda>_. sret message))) s)"

definition open_mls_application_wire :: "crypto \<Rightarrow> int \<Rightarrow> string \<Rightarrow> string ses" where
  "open_mls_application_wire C conv wire =
     sbind (slift (rbind (json_unb64 (drop (length PREFIX_MLS) wire)) as_dict)) (\<lambda>payload.
     if dget payload ''kind'' JNull \<noteq> JStr ''application'' then sraise (ValueError ''Not an MLS application envelope'')
     else sbind (slift (py_int (py_or (dget payload ''conversation_id'' (JInt conv)) (JInt 0)))) (\<lambda>msg_conv.
       if msg_conv \<noteq> 0 \<and> msg_conv \<noteq> conv then sraise (ValueError ''MLS conversation mismatch'')
       else sbind (sget (\<lambda>s. conv \<in> mls_group_ready s)) (\<lambda>ready.
         if \<not> ready then sraise group_not_ready
         else sbind require_mls_bridge (\<lambda>_.
              sbind (bridge_decrypt_application C conv (py_str (py_or (dget payload ''message_b64'' (JStr [])) (JStr [])))) (\<lambda>plain.
              sbind (save_mls_state C) (\<lambda>_. sret plain))))))"

definition is_mls_application_wire :: "string \<Rightarrow> bool" where
  "is_mls_application_wire body =
     (starts_with body PREFIX_MLS \<and>
      (case rbind (json_unb64 (drop (length PREFIX_MLS) body)) as_dict of
         Inl _ \<Rightarrow> False | Inr payload \<Rightarrow> dget payload ''kind'' JNull = JStr ''application''))"

subsection \<open>Replayed handshakes\<close>

text \<open>No operation forgets a handshake item that was applied.\<close>

definition seen_grows :: "(crypto_session, 'a) act \<Rightarrow> bool" where
  "seen_grows m = (\<forall>s. mls_handshake_seen s \<subseteq> mls_handshake_seen (snd (m s)))"

lemma seen_grows_sbind [intro]: "seen_grows m \<Longrightarrow> (\<And>x. seen_grows (f x)) \<Longrightarrow> seen_grows (sbind m f)"
  unfolding seen_grows_def sbind_def by (fastforce split: prod.splits sum.splits)

lemma seen_grows_basic [intro, simp]:
  "seen_grows (sret x)" "seen_grows (slift r)" "seen_grows (sget f)" "seen_grows (sraise e)" "seen_grows (\<lambda>s. (g s, s))"
  "seen_grows require_mls_bridge" "seen_grows (bridge_start C)"
  by (auto simp: seen_grows_def require_mls_bridge_def make_bridge_def bridge_start_def)

lemma seen_grows_smod: "(\<And>s. mls_handshake_seen s \<subseteq> mls_handshake_seen (f s)) \<Longrightarrow> seen_grows (smod f)"
  by (simp add: seen_grows_def)

lemma seen_grows_logged: "seen_grows m \<Longrightarrow> seen_grows (logged m)"
  by (simp add: seen_grows_def)

lemma seen_grows_bridge: "seen_grows (bridge_command C cmd args)"
  unfolding bridge_command_def by (intro seen_grows_sbind seen_grows_basic) (simp add: seen_grows_def Let_def)

lemma seen_grows_write: "seen_grows (write_sealed C n t)"
proof -
  have "mls_handshake_seen (snd (write_sealed C n t s)) = mls_handshake_seen s" for s
    by (rule write_sealed_effect [of C n t s]) simp
  then show ?thesis by (simp add: seen_grows_def)
qed

lemma seen_grows_save: "seen_grows (save_mls_state C)"
proof -
  let ?m = "sbind (bridge_export_state C) (\<lambda>snapshot.
     sbind (\<lambda>s. (mls_snapshot snapshot (mls_credential_identity_b64 s), s)) (\<lambda>payload.
     if dget payload ''state_b64'' JNull = JStr [] then sret () else write_sealed C mls_state_path (dumps_compact (JObj payload))))"
  have "seen_grows ?m"
    unfolding bridge_export_state_def by (intro seen_grows_sbind seen_grows_bridge) (auto intro: seen_grows_write)
  then show ?thesis by (auto simp: seen_grows_def save_mls_state_def)
qed

lemma seen_grows_group:
  "seen_grows (set_epoch conv result)" "seen_grows (join_mls_group_from_welcome C conv w)" "seen_grows (process_mls_commit C conv c)"
proof -
  show e: "seen_grows (set_epoch conv result)" for conv result
    unfolding set_epoch_def by (intro seen_grows_sbind seen_grows_basic seen_grows_smod) simp
  show "seen_grows (join_mls_group_from_welcome C conv w)"
    unfolding join_mls_group_from_welcome_def bridge_join_from_welcome_def
    by (intro seen_grows_sbind seen_grows_basic seen_grows_bridge seen_grows_smod e seen_grows_save) (simp add: ready_group_def know_group_def)
  have "seen_grows (sbind require_mls_bridge (\<lambda>_. sbind (bridge_process_commit C conv c) (\<lambda>result.
      sbind (set_epoch conv result) (\<lambda>_. sbind (smod (if dget result ''active'' JNull = JBool False then leave_group conv else id)) (\<lambda>_.
      sbind (save_mls_state C) (\<lambda>_. sret (Some result)))))))"
    unfolding bridge_process_commit_def
    by (intro seen_grows_sbind seen_grows_basic seen_grows_bridge seen_grows_smod e seen_grows_save) (simp add: leave_group_def)
  then show "seen_grows (process_mls_commit C conv c)" by (simp add: seen_grows_def process_mls_commit_def)
qed

lemma seen_grows_apply: "seen_grows (apply_handshake C conv kind key item message)"
proof -
  have mark: "seen_grows (smod (mark_seen key))" by (rule seen_grows_smod) (auto simp: mark_seen_def)
  have "seen_grows (sbind (join_mls_group_from_welcome C conv message) (\<lambda>_. smod (mark_seen key)))"
    by (intro seen_grows_sbind seen_grows_group mark)
  then have "seen_grows (\<lambda>s. if target \<noteq> 0 \<and> target \<noteq> uid s then (Inr (), mark_seen key s)
      else if conv \<in> mls_group_ready s then (Inr (), mark_seen key s)
      else sbind (join_mls_group_from_welcome C conv message) (\<lambda>_. smod (mark_seen key)) s)" for target
    by (auto simp: seen_grows_def mark_seen_def)
  moreover have "seen_grows (sbind (process_mls_commit C conv message) (\<lambda>_. smod (mark_seen key)))"
    by (intro seen_grows_sbind seen_grows_group mark)
  ultimately show ?thesis
    unfolding apply_handshake_def using mark by (simp add: seen_grows_sbind)
qed

lemma handshake_seen_grows: "mls_handshake_seen s \<subseteq> mls_handshake_seen (handshake_item C conv ri s)"
  using seen_grows_apply by (auto simp: handshake_item_def Let_def seen_grows_def split: prod.split)

lemma fold_seen_grows: "mls_handshake_seen s \<subseteq> mls_handshake_seen (fold (handshake_item C conv) rows s)"
  by (induction rows arbitrary: s) (use handshake_seen_grows in fastforce)+

text \<open>Whether an item needs nothing more: it was applied, or it carries no message.\<close>

definition settled :: "int \<times> dict \<Rightarrow> crypto_session \<Rightarrow> bool" where
  "settled ri s = (case ri of (row, item) \<Rightarrow>
     handshake_key row (py_str (py_or (dget item ''kind'' (JStr [])) (JStr []))) item \<in> mls_handshake_seen s
     \<or> py_str (py_or (dget item ''mls_message_b64'' (JStr [])) (JStr [])) = [])"

lemma settled_skipped: "settled ri s \<Longrightarrow> handshake_item C conv ri s = s"
  by (auto simp: settled_def handshake_item_def Let_def split: prod.splits)

lemma fold_settled: "list_all (\<lambda>ri. settled ri s) rows \<Longrightarrow> fold (handshake_item C conv) rows s = s"
  by (induction rows) (simp_all add: settled_skipped)

lemma applied_settled:
  assumes "fst (apply_handshake C conv kind key item message s) = Inr ()"
  shows "key \<in> mls_handshake_seen (snd (apply_handshake C conv kind key item message s))"
  using assms by (auto simp: apply_handshake_def sbind_def mark_seen_def split: prod.splits sum.splits if_splits)

text \<open>
  Handshake items are applied once: items that were applied by one pass over a server's
  list, whatever else that list holds, are skipped by every later pass, even if the server sends
  them again in another list and another order; a list all of whose items are settled leaves the
  session, the MLS process and the disk as they were.
\<close>

theorem handshakes_applied_once:
  assumes "process_mls_handshake_items C conv xs s = (Inr (), s')"
    and "\<forall>(row, item) \<in> set rows. settled (row, item) s \<or> settled (row, item) s'"
    and "rmap (\<lambda>item. rbind (int_or_0 item ''id'') (\<lambda>i. Inr (i, item))) ys = Inr rows"
  shows "process_mls_handshake_items C conv ys s' = (Inr (), s')"
proof -
  obtain rs where "s' = fold (handshake_item C conv) rs s"
    using assms(1) by (auto simp: process_mls_handshake_items_def split: sum.splits)
  then have "mls_handshake_seen s \<subseteq> mls_handshake_seen s'" using fold_seen_grows by simp
  then have "list_all (\<lambda>ri. settled ri s') (sort_key fst rows)"
    using assms(2) by (fastforce simp: list_all_iff settled_def)
  then show ?thesis by (simp add: process_mls_handshake_items_def assms(3) fold_settled)
qed

definition demo_commit :: dict where
  "demo_commit = [(''id'', JInt 1), (''kind'', JStr ''commit''), (''epoch'', JInt 2), (''mls_message_b64'', JStr ''AAAA'')]"

lemma demo_commit_rows: "rmap (\<lambda>item. rbind (int_or_0 item ''id'') (\<lambda>i. Inr (i, item))) [demo_commit] = Inr [(1, demo_commit)]"
  by (simp add: demo_commit_def int_or_0_def dget_def py_or_def)

lemma demo_commit_key: "handshake_key 1 (py_str (py_or (dget demo_commit ''kind'' (JStr [])) (JStr []))) demo_commit = ''1:commit:2''"
  by code_simp

lemma demo_commit_applied:
  "process_mls_handshake_items toy_crypto 5 [demo_commit] demo_session = (Inr (), mark_seen ''1:commit:2'' demo_session)"
proof -
  have fields: "py_str (py_or (dget demo_commit ''kind'' (JStr [])) (JStr [])) = ''commit''"
      "py_str (py_or (dget demo_commit ''mls_message_b64'' (JStr [])) (JStr [])) = ''AAAA''"
    by (simp_all add: demo_commit_def dget_def py_or_def)
  have "mls_group_ready demo_session = {}" "mls_handshake_seen demo_session = {}"
    by (simp_all add: demo_session_def session_reset_def)
  then have "handshake_item toy_crypto 5 (1, demo_commit) demo_session = mark_seen ''1:commit:2'' demo_session"
    using demo_commit_key
    by (simp add: handshake_item_def Let_def fields apply_handshake_def process_mls_commit_def sbind_def logged_def scatch_def)
  then show ?thesis unfolding process_mls_handshake_items_def demo_commit_rows by simp
qed

theorem handshakes_applied_once_witness:
  "process_mls_handshake_items toy_crypto 5 [demo_commit] (mark_seen ''1:commit:2'' demo_session)
    = (Inr (), mark_seen ''1:commit:2'' demo_session)"
proof (rule handshakes_applied_once [OF demo_commit_applied])
  show "\<forall>(row, item) \<in> set [(1, demo_commit)]. settled (row, item) demo_session \<or> settled (row, item) (mark_seen ''1:commit:2'' demo_session)"
    using demo_commit_key by (simp add: settled_def mark_seen_def)
qed (rule demo_commit_rows)

text \<open>
  A group message belongs to its conversation: an application envelope that names one
  conversation is refused in every other one, before the MLS process is asked, and the session is
  left unchanged.
\<close>

theorem mls_wire_bound_to_conversation:
  assumes "conv \<noteq> 0" and "conv' \<noteq> conv" and "utf8_valid message"
  shows "open_mls_application_wire C conv' (mls_envelope conv sender epoch message) s
    = (Inl (ValueError ''MLS conversation mismatch''), s)"
proof -
  let ?p = "[(''schema_version'', JInt 1), (''kind'', JStr ''application''), (''conversation_id'', JInt conv),
       (''sender_uid'', JInt sender), (''epoch_hint'', JInt epoch), (''message_b64'', JStr message)]"
  have "json_unb64 (drop (length PREFIX_MLS) (mls_envelope conv sender epoch message)) = Inr (JObj ?p)"
    using assms(3) by (simp add: mls_envelope_def ascii_utf8)
  then have opened: "slift (rbind (json_unb64 (drop (length PREFIX_MLS) (mls_envelope conv sender epoch message))) as_dict) s = (Inr ?p, s)"
    by simp
  have fields: "dget ?p ''kind'' JNull = JStr ''application''" "dget ?p ''conversation_id'' (JInt conv') = JInt conv"
    by (simp_all add: dget_def)
  show ?thesis
    using assms(1,2) by (simp only: open_mls_application_wire_def sbind_def opened) (simp add: fields py_or_def sbind_def)
qed

theorem mls_wire_bound_to_conversation_witness:
  "open_mls_application_wire toy_crypto 6 (mls_envelope 5 1 0 ''bWxz'') demo_session
    = (Inl (ValueError ''MLS conversation mismatch''), demo_session)"
  by (rule mls_wire_bound_to_conversation) (simp_all add: ascii_utf8)

end
