(* ===== verification/Cache.thy ===== *)
theory Cache
  imports Session
begin

text \<open>
  The encrypted plaintext cache and its policy (\<open>client/crypto_engine/session.py\<close>,
  \<open>get_cache_policy\<close> to \<open>clear_message_cache\<close>). Every conversation has one
  append-only file \<open>msgs_<id>.bin\<close>, one sealed JSON entry per line. The clock does not
  advance between two draws of randomness.
\<close>

subsection \<open>Times in seconds\<close>

text \<open>\<open>float(text)\<close>: the literal of the number the text denotes.\<close>

definition float_of_str :: "string \<Rightarrow> string res" where
  "float_of_str s =
     (let t = strip s;
          neg = starts_with t ''-'';
          body = (if neg \<or> starts_with t ''+'' then tl t else t);
          sign = (if neg then ''-'' else []);
          (ip, r1) = split_digits body;
          (fp, r2) = (case r1 of CHR ''.'' # r \<Rightarrow> split_digits r | _ \<Rightarrow> ([], r1));
          lit = sign @ (if ip = [] then ''0'' else ip) @ ''.'' @ (if fp = [] then ''0'' else fp) @ r2
      in if lower body \<in> {''inf'', ''infinity''} then Inr (sign @ ''Infinity'')
         else if lower body = ''nan'' then Inr ''NaN''
         else if (ip = [] \<and> fp = []) \<or> float_parts lit = None
         then Inl (ValueError ''could not convert string to float'')
         else Inr lit)"

definition py_float :: "json \<Rightarrow> json res" where
  "py_float j = (case j of
       JInt i \<Rightarrow> Inr (JInt i)
     | JBool b \<Rightarrow> Inr (JInt (if b then 1 else 0))
     | JFloat s \<Rightarrow> Inr (JFloat s)
     | JStr s \<Rightarrow> rbind (float_of_str s) (\<lambda>lit. Inr (JFloat lit))
     | _ \<Rightarrow> Inl (TypeError ''float() argument must be a string or a real number''))"

text \<open>Whether a number of seconds is at least a number of milliseconds.\<close>

definition seconds_ge :: "json \<Rightarrow> int \<Rightarrow> bool" where
  "seconds_ge j ms = (case num_parts j of
       None \<Rightarrow> j = JFloat ''Infinity''
     | Some (neg, m, e) \<Rightarrow>
         let v = (if neg then - int m else int m)
         in if 0 \<le> e + 3 then ms \<le> v * 10 ^ nat (e + 3) else ms * 10 ^ nat (- (e + 3)) \<le> v)"

definition time_now :: "crypto \<Rightarrow> crypto_session \<Rightarrow> json" where
  "time_now C s = JFloat (float_of_ms (now_ms C s))"

subsection \<open>The literal of a clock reading\<close>

lemma digits_val_append: "digits_val n (a @ b) = digits_val 0 b + digits_val n a * 10 ^ length b"
proof (induction b rule: rev_induct)
  case (snoc d b)
  then show ?case by (simp add: digits_val_def algebra_simps)
qed (simp add: digits_val_def)

lemma pad3_props:
  assumes "n < 1000"
  shows "list_all is_digit (pad3 n)" and "digits_val 0 (pad3 n) = n" and "length (pad3 n) = 3"
proof -
  have "n div 100 < 10" using assms by simp
  then have "digits_val 0 (pad3 n) = 100 * (n div 100) + 10 * (n div 10 mod 10) + n mod 10"
    by (simp add: pad3_def)
  moreover have "n div 10 = 10 * (n div 100) + n div 10 mod 10"
    using mult_div_mod_eq [of 10 "n div 10"] by (simp add: div_mult2_eq [symmetric])
  moreover have "n = 10 * (n div 10) + n mod 10" by simp
  ultimately show "digits_val 0 (pad3 n) = n" by linarith
qed (simp_all add: pad3_def)

lemma rstrip_zeros:
  obtains j where "s = rstrip_char c s @ replicate j c"
proof -
  have "s = rstrip_char c s @ rev (takeWhile (\<lambda>x. x = c) (rev s))"
    unfolding rstrip_char_def rev_append [symmetric] takeWhile_dropWhile_id by simp
  moreover have "takeWhile (\<lambda>x. x = c) t = replicate (length (takeWhile (\<lambda>x. x = c) t)) c" for t
    by (induction t) auto
  ultimately show ?thesis using that by (metis rev_replicate)
qed

lemma digits_zeros: "digits_val 0 (replicate j (CHR ''0'')) = 0"
  by (induction j) (simp_all add: digits_val_append [of 0 "[CHR ''0'']", simplified] digits_val_def digit_val_def)

lemma float_of_ms_parts:
  assumes "0 \<le> ms"
  obtains ip fp where "float_of_ms ms = ip @ CHR ''.'' # fp" and "ip = show_nat (nat (ms div 1000))"
    and "list_all is_digit fp" and "fp \<noteq> []" and "length fp \<le> 3"
    and "ms = int (digits_val 0 (ip @ fp)) * 10 ^ (3 - length fp)"
proof -
  define n where "n = nat (ms mod 1000)"
  have n: "n < 1000" by (simp add: n_def)
  let ?r = "rstrip_char (CHR ''0'') (pad3 n)"
  obtain j where j: "pad3 n = ?r @ replicate j (CHR ''0'')" by (rule rstrip_zeros)
  have len: "length ?r + j = 3" using arg_cong [OF j, of length] pad3_props(3) [OF n] by simp
  have val: "n = digits_val 0 ?r * 10 ^ j"
    using arg_cong [OF j, of "digits_val 0"] pad3_props(2) [OF n] by (simp add: digits_val_append digits_zeros)
  have dig: "list_all is_digit ?r" using pad3_props(1) [OF n] by (subst (asm) j) simp
  define q where "q = nat (ms div 1000)"
  have q: "ms div 1000 = int q" using assms by (simp add: q_def pos_imp_zdiv_nonneg_iff)
  have ms: "ms = int q * 1000 + int n"
    using div_mult_mod_eq [of ms 1000] by (simp add: q [symmetric] n_def)
  define fp where "fp = (if ?r = [] then ''0'' else ?r)"
  have lit: "float_of_ms ms = show_nat q @ CHR ''.'' # fp"
    by (simp add: float_of_ms_def fp_def n_def show_int_def Let_def q)
  have d: "list_all is_digit fp" "fp \<noteq> []" "length fp \<le> 3"
    using dig len by (auto simp: fp_def is_digit_def)
  have v: "int (digits_val 0 (show_nat q @ fp)) * 10 ^ (3 - length fp) = ms"
  proof (cases "?r = []")
    case True
    then show ?thesis using val ms by (simp add: fp_def digits_val_append digit_val_def)
  next
    case False
    have "(10::nat) ^ length ?r * 10 ^ j = 1000" unfolding power_add [symmetric] len by simp
    then have e: "q * 10 ^ length ?r * 10 ^ j = q * 1000" by (simp only: mult.assoc)
    have "digits_val 0 (show_nat q @ ?r) * 10 ^ j = digits_val 0 ?r * 10 ^ j + q * 10 ^ length ?r * 10 ^ j"
      by (simp only: digits_val_append digits_val_show_nat add_mult_distrib)
    also have "\<dots> = n + q * 1000" by (simp only: e val [symmetric])
    finally have "int (digits_val 0 (show_nat q @ ?r) * 10 ^ j) = ms" by (simp only: ms of_nat_add of_nat_mult of_nat_numeral add.commute)
    moreover have "3 - length ?r = j" using len by simp
    ultimately show ?thesis using False by (simp add: fp_def)
  qed
  show ?thesis by (rule that [OF lit _ d v [symmetric]]) (simp only: q_def)
qed

lemma takeWhile_all:
  assumes "list_all P s" and "t = [] \<or> \<not> P (hd t)"
  shows "takeWhile P (s @ t) = s" and "dropWhile P (s @ t) = t"
  using assms by (induction s) (cases t; simp)+

lemma float_of_ms_read:
  assumes "0 \<le> ms"
  shows "float_lit (float_of_ms ms)" and "is_ascii (float_of_ms ms)"
    and "\<And>b. seconds_ge (JFloat (float_of_ms ms)) b \<longleftrightarrow> b \<le> ms"
    and "truthy (JFloat (float_of_ms ms)) \<longleftrightarrow> ms \<noteq> 0"
proof -
  obtain ip fp where f: "float_of_ms ms = ip @ CHR ''.'' # fp" "ip = show_nat (nat (ms div 1000))"
    "list_all is_digit fp" "fp \<noteq> []" "length fp \<le> 3"
    "ms = int (digits_val 0 (ip @ fp)) * 10 ^ (3 - length fp)"
    by (rule float_of_ms_parts [OF assms])
  have ip: "list_all is_digit ip" "ip \<noteq> []" by (simp_all add: f(2))
  have dot: "\<not> is_digit (CHR ''.'')" by (simp add: is_digit_def)
  have hd: "is_digit (hd ip)" using ip by (cases ip) auto
  have nominus: "\<not> starts_with (ip @ x) ''-''" for x
    using hd ip by (cases ip) (auto simp: is_digit_def)
  have t: "takeWhile is_digit (ip @ CHR ''.'' # fp) = ip" "dropWhile is_digit (ip @ CHR ''.'' # fp) = CHR ''.'' # fp"
    "takeWhile is_digit fp = fp" "dropWhile is_digit fp = []"
    using takeWhile_all [OF ip(1), of "CHR ''.'' # fp"] takeWhile_all [OF f(3), of "[]"] dot by simp_all
  have parts: "float_parts (float_of_ms ms) = Some (False, digits_val 0 (ip @ fp), - int (length fp))"
    using ip(2) nominus by (simp add: float_parts_def f(1) split_digits_def t)
  show "is_ascii (float_of_ms ms)" using f(3) ip(1) by (auto simp: f(1) is_ascii_set list_all_iff is_digit_def)
  have "nat (3 - int (length fp)) = 3 - length fp" by simp
  then have "seconds_ge (JFloat (float_of_ms ms)) b \<longleftrightarrow> b \<le> int (digits_val 0 (ip @ fp)) * 10 ^ (3 - length fp)" for b
    using f(5) by (simp add: seconds_ge_def num_parts_def parts)
  then show "seconds_ge (JFloat (float_of_ms ms)) b \<longleftrightarrow> b \<le> ms" for b unfolding f(6) [symmetric] .
  have "truthy (JFloat (float_of_ms ms)) \<longleftrightarrow> digits_val 0 (ip @ fp) \<noteq> 0" by (simp add: truthy_def parts)
  then show "truthy (JFloat (float_of_ms ms)) \<longleftrightarrow> ms \<noteq> 0" using f(6) by simp
  obtain d fp' where fp: "fp = d # fp'" "is_digit d" using f(3,4) by (cases fp) auto
  have frac: "scan_frac (CHR ''.'' # fp) = (CHR ''.'' # fp, [])"
    using t(3,4) fp by (simp add: scan_frac_def)
  have ipe: "(if starts_with (ip @ CHR ''.'' # fp) ''0'' then ''0'' else takeWhile is_digit (ip @ CHR ''.'' # fp)) = ip"
    using t(1) ip(2) show_nat_hd [of "nat (ms div 1000)"] by (cases ip) (auto simp: f(2))
  have ex: "scan_exp [] = ([], [])" by (simp add: scan_exp_def)
  have "scan_num (ip @ CHR ''.'' # fp) = Some (JFloat (ip @ CHR ''.'' # fp), [])"
    unfolding scan_num_def Let_def if_not_P [OF nominus] ipe using ip(2) by (simp add: frac ex)
  moreover have "\<not> starts_with (ip @ x) p"
    if "p \<in> {''null'', ''true'', ''false'', ''NaN'', ''Infinity'', ''-Infinity''}" for p x
    using hd ip(2) that by (cases ip) (auto simp: is_digit_def)
  ultimately show "float_lit (float_of_ms ms)" by (simp add: float_lit_def scan_word_def f(1))
qed

subsection \<open>Policy\<close>

definition get_cache_policy :: "crypto_session \<Rightarrow> dict" where
  "get_cache_policy s =
     [(''enabled'', JBool (cache_enabled s)),
      (''ttl_days'', JInt (cache_ttl_days s)),
      (''clear_on_logout'', JBool (cache_clear_on_logout s)),
      (''disabled_conversation_ids'', JArr (map JInt (sorted_list_of_set (cache_disabled_convs s))))]"

text \<open>\<open>str(cid).lstrip("-").isdigit()\<close>, for ASCII digits\<close>

definition digits_only :: "string \<Rightarrow> bool" where
  "digits_only s = (let t = dropWhile (\<lambda>c. c = CHR ''-'') s in t \<noteq> [] \<and> list_all is_digit t)"

fun disabled_ids :: "json list \<Rightarrow> int set res" where
  "disabled_ids [] = Inr {}"
| "disabled_ids (cid # cids) =
     rbind (if digits_only (py_str cid) then py_int cid else Inr 0) (\<lambda>i.
     rbind (disabled_ids cids) (\<lambda>rest. Inr (if 0 < i then insert i rest else rest)))"

definition read_cache_policy :: "crypto \<Rightarrow> unit ses" where
  "read_cache_policy C =
     sbind (\<lambda>s. (rbind (read_sealed_json C s cache_policy_path) as_dict, s)) (\<lambda>policy.
     sbind (smod (cache_enabled_update (\<lambda>_. truthy (dget policy ''enabled'' (JBool True))))) (\<lambda>_.
     sbind (slift (py_int (dget policy ''ttl_days'' (JInt 30)))) (\<lambda>ttl.
     sbind (smod (cache_ttl_days_update (\<lambda>_. ttl))) (\<lambda>_.
     sbind (smod (cache_clear_on_logout_update (\<lambda>_. truthy (dget policy ''clear_on_logout'' (JBool False))))) (\<lambda>_.
     sbind (slift (as_list (let d = dget policy ''disabled_conversation_ids'' (JArr [])
                            in if truthy d then d else dget policy ''no_cache_conversation_ids'' (JArr [])))) (\<lambda>cids.
     sbind (slift (disabled_ids cids)) (\<lambda>ids.
       smod (cache_disabled_convs_update (\<lambda>_. ids)))))))))"

definition load_cache_policy :: "crypto \<Rightarrow> dict ses" where
  "load_cache_policy C s =
     (if \<not> can_store s \<or> \<not> has_file cache_policy_path s then (Inr (get_cache_policy s), s)
      else sbind (logged (read_cache_policy C)) (\<lambda>_. sget get_cache_policy) s)"

definition save_cache_policy :: "crypto \<Rightarrow> unit ses" where
  "save_cache_policy C s =
     (if \<not> can_store s then (Inr (), s)
      else logged (write_sealed C cache_policy_path (dumps_plain (JObj (get_cache_policy s)))) s)"

definition is_conversation_cache_enabled :: "int \<Rightarrow> crypto_session \<Rightarrow> bool" where
  "is_conversation_cache_enabled conv s = (cache_enabled s \<and> 0 < conv \<and> conv \<notin> cache_disabled_convs s)"

subsection \<open>Removing files\<close>

text \<open>\<open>glob("msgs_*.bin")\<close>\<close>

definition is_msg_cache :: "string \<Rightarrow> bool" where
  "is_msg_cache name = (starts_with name ''msgs_'' \<and> ends_with name ''.bin'')"

fun remove_files :: "string list \<Rightarrow> crypto_session \<Rightarrow> crypto_session" where
  "remove_files [] s = s"
| "remove_files (n # ns) s = remove_files ns (remove_file n s)"

definition clear_message_cache :: "int option \<Rightarrow> crypto_session \<Rightarrow> nat \<times> crypto_session" where
  "clear_message_cache conv s =
     (if secchat_dir s = [] then (0, s)
      else let names = filter (case conv of None \<Rightarrow> is_msg_cache | Some c \<Rightarrow> (\<lambda>n. n = msg_cache_path c)) (map fst (disk s))
           in (length names, remove_files names s))"

definition set_conversation_cache_enabled :: "crypto \<Rightarrow> int \<Rightarrow> bool \<Rightarrow> dict ses" where
  "set_conversation_cache_enabled C conv enabled s =
     (if conv \<le> 0 then (Inr (get_cache_policy s), s)
      else let s' = (if enabled then s\<lparr> cache_disabled_convs := cache_disabled_convs s - {conv} \<rparr>
                     else snd (clear_message_cache (Some conv)
                            (s\<lparr> cache_disabled_convs := insert conv (cache_disabled_convs s) \<rparr>)))
           in sbind (save_cache_policy C) (\<lambda>_. sget get_cache_policy) s')"

subsection \<open>Entries\<close>

definition cache_entry_is_fresh :: "crypto \<Rightarrow> crypto_session \<Rightarrow> json \<Rightarrow> bool res" where
  "cache_entry_is_fresh C s entry =
     (if cache_ttl_days s < 0 then Inr True
      else rbind (as_dict entry) (\<lambda>d.
           rbind (py_float (py_or (dget d ''cached_at'' JNull) (time_now C s))) (\<lambda>cached_at.
             Inr (seconds_ge cached_at (now_ms C s - cache_ttl_days s * 86400000)))))"

definition append_file :: "string \<Rightarrow> string \<Rightarrow> crypto_session \<Rightarrow> crypto_session" where
  "append_file name t s = write_file name (dget (disk s) name [] @ t) s"

definition append_sealed :: "crypto \<Rightarrow> string \<Rightarrow> string \<Rightarrow> unit ses" where
  "append_sealed C name t = sbind (seal C t) (\<lambda>token. smod (append_file name (token @ [CHR 0x0A])))"

definition message_entry :: "crypto \<Rightarrow> crypto_session \<Rightarrow> int \<Rightarrow> int \<Rightarrow> string \<Rightarrow> string \<Rightarrow> dict" where
  "message_entry C s mid sender plaintext ts =
     [(''id'', JInt mid), (''from'', JInt sender), (''body'', JStr plaintext), (''ts'', JStr ts),
      (''cached_at'', time_now C s)]"

definition cache_message :: "crypto \<Rightarrow> int \<Rightarrow> int \<Rightarrow> int \<Rightarrow> string \<Rightarrow> string \<Rightarrow> unit ses" where
  "cache_message C conv mid sender plaintext ts s =
     (if \<not> is_conversation_cache_enabled conv s \<or> \<not> can_store s \<or> mid = 0 then (Inr (), s)
      else logged (append_sealed C (msg_cache_path conv)
             (dumps_plain (JObj (message_entry C s mid sender plaintext ts)))) s)"

definition cache_outgoing_wire :: "crypto \<Rightarrow> int \<Rightarrow> string \<Rightarrow> int \<Rightarrow> string \<Rightarrow> string \<Rightarrow> unit ses" where
  "cache_outgoing_wire C conv wire sender plaintext ts s =
     (if \<not> is_conversation_cache_enabled conv s \<or> \<not> can_store s \<or> wire = [] then (Inr (), s)
      else logged (append_sealed C (msg_cache_path conv)
             (dumps_plain (JObj (message_entry C s 0 sender plaintext ts
                @ [(''wire_hash'', JStr (drop 5 (wire_cache_key C wire)))])))) s)"

subsection \<open>Reading the cache\<close>

text \<open>The dictionary is indexed by message id and by \<open>"wire:" + hash\<close>.\<close>

datatype cache_key = ById int | ByWire string

type_synonym cached = "(cache_key \<times> dict) list"

record cache_scan =
  scan_out :: cached
  kept_tokens :: "string list"
  scan_changed :: bool

text \<open>Lines of a text file under universal newlines; blank lines are skipped by the caller.\<close>

definition text_lines :: "string \<Rightarrow> string list" where
  "text_lines t = split_on (CHR 0x0A) (replace_char (CHR 0x0D) (CHR 0x0A) t)"

definition index_entry :: "json \<Rightarrow> cached \<Rightarrow> cached res" where
  "index_entry entry out =
     rbind (as_dict entry) (\<lambda>d.
     rbind (py_int (dget d ''id'' (JInt 0))) (\<lambda>mid.
       let out1 = (if mid \<noteq> 0 then dset out (ById mid) d else out);
           wire_hash = py_str (py_or (dget d ''wire_hash'' (JStr [])) (JStr []))
       in Inr (if wire_hash \<noteq> [] then dset out1 (ByWire (''wire:'' @ wire_hash)) d else out1)))"

definition scan_line :: "crypto \<Rightarrow> crypto_session \<Rightarrow> string \<Rightarrow> cache_scan \<Rightarrow> cache_scan" where
  "scan_line C s raw_line acc =
     (let line = strip raw_line
      in if line = [] then acc
         else case rbind (unseal_text C s line) loads of
           Inl _ \<Rightarrow> acc\<lparr> scan_changed := True \<rparr>
         | Inr entry \<Rightarrow> (case cache_entry_is_fresh C s entry of
             Inl _ \<Rightarrow> acc\<lparr> scan_changed := True \<rparr>
           | Inr False \<Rightarrow> acc\<lparr> scan_changed := True \<rparr>
           | Inr True \<Rightarrow>
               let acc1 = acc\<lparr> kept_tokens := kept_tokens acc @ [line] \<rparr>
               in (case index_entry entry (scan_out acc1) of
                     Inl _ \<Rightarrow> acc1\<lparr> scan_changed := True \<rparr>
                   | Inr out \<Rightarrow> acc1\<lparr> scan_out := out \<rparr>)))"

definition scan_cache :: "crypto \<Rightarrow> crypto_session \<Rightarrow> string \<Rightarrow> cache_scan" where
  "scan_cache C s t = fold (scan_line C s) (text_lines t) \<lparr> scan_out = [], kept_tokens = [], scan_changed = False \<rparr>"

definition cache_text :: "string list \<Rightarrow> string" where
  "cache_text tokens = (if tokens = [] then [] else join [CHR 0x0A] tokens @ [CHR 0x0A])"

definition load_cached_messages :: "crypto \<Rightarrow> int \<Rightarrow> crypto_session \<Rightarrow> cached \<times> crypto_session" where
  "load_cached_messages C conv s =
     (if \<not> is_conversation_cache_enabled conv s \<or> \<not> can_store s then ([], s)
      else case map_of (disk s) (msg_cache_path conv) of
        None \<Rightarrow> ([], s)
      | Some t \<Rightarrow>
          let scan = scan_cache C s t
          in (scan_out scan,
              if scan_changed scan then write_file (msg_cache_path conv) (cache_text (kept_tokens scan)) s else s))"

subsection \<open>Enforcing the policy\<close>

definition file_size :: "string \<Rightarrow> crypto_session \<Rightarrow> nat" where
  "file_size name s = length (dget (disk s) name [])"

definition enforce_file :: "crypto \<Rightarrow> string \<Rightarrow> nat \<times> crypto_session \<Rightarrow> nat \<times> crypto_session" where
  "enforce_file C name acc = (case acc of (touched, s) \<Rightarrow>
     (case int_of_str (take (length name - 9) (drop 5 name)) of
        None \<Rightarrow> (touched, s)
      | Some conv \<Rightarrow>
          if \<not> is_conversation_cache_enabled conv s then (touched + 1, remove_file name s)
          else let s' = snd (load_cached_messages C conv s)
               in (if file_size name s' \<noteq> file_size name s then touched + 1 else touched, s')))"

definition enforce_cache_policy :: "crypto \<Rightarrow> crypto_session \<Rightarrow> nat \<times> crypto_session" where
  "enforce_cache_policy C s =
     (if \<not> cache_enabled s then clear_message_cache None s
      else if \<not> can_store s then (0, s)
      else fold (enforce_file C) (filter is_msg_cache (map fst (disk s))) (0, s))"

definition positive_ids :: "json list \<Rightarrow> int set" where
  "positive_ids cids = set (filter (\<lambda>i. 0 < i) (concat (map (\<lambda>cid. case py_int cid of Inl _ \<Rightarrow> [] | Inr i \<Rightarrow> [i]) cids)))"

definition set_policy_fields :: "bool option \<Rightarrow> int option \<Rightarrow> bool option \<Rightarrow> json list option \<Rightarrow> crypto_session \<Rightarrow> crypto_session" where
  "set_policy_fields enabled ttl_days clear_on_logout cids s =
     (let s1 = (case enabled of None \<Rightarrow> s | Some b \<Rightarrow> s\<lparr> cache_enabled := b \<rparr>);
          s2 = (case ttl_days of None \<Rightarrow> s1 | Some d \<Rightarrow> s1\<lparr> cache_ttl_days := d \<rparr>);
          s3 = (case clear_on_logout of None \<Rightarrow> s2 | Some b \<Rightarrow> s2\<lparr> cache_clear_on_logout := b \<rparr>)
      in case cids of None \<Rightarrow> s3 | Some ids \<Rightarrow> s3\<lparr> cache_disabled_convs := positive_ids ids \<rparr>)"

definition apply_policy :: "crypto \<Rightarrow> dict ses" where
  "apply_policy C s =
     (let s' = snd (if \<not> cache_enabled s then clear_message_cache None s else enforce_cache_policy C s)
      in (Inr (get_cache_policy s'), s'))"

definition set_cache_policy :: "crypto \<Rightarrow> bool option \<Rightarrow> int option \<Rightarrow> bool option \<Rightarrow> json list option \<Rightarrow> dict ses" where
  "set_cache_policy C enabled ttl_days clear_on_logout cids s =
     sbind (save_cache_policy C) (\<lambda>_. apply_policy C) (set_policy_fields enabled ttl_days clear_on_logout cids s)"

subsection \<open>What the operations keep\<close>

text \<open>The policy and the storage key, which no operation on the files changes.\<close>

definition same_policy :: "crypto_session \<Rightarrow> crypto_session \<Rightarrow> bool" where
  "same_policy s t = (cache_enabled t = cache_enabled s \<and> cache_disabled_convs t = cache_disabled_convs s
     \<and> cache_ttl_days t = cache_ttl_days s \<and> secchat_dir t = secchat_dir s \<and> master_key t = master_key s)"

lemma same_policyD:
  assumes "same_policy s t"
  shows "is_conversation_cache_enabled conv t = is_conversation_cache_enabled conv s"
    and "can_store t = can_store s"
  using assms by (simp_all add: same_policy_def is_conversation_cache_enabled_def can_store_def)

lemma same_policy_refl [simp]: "same_policy s s"
  by (simp add: same_policy_def)

lemma same_policy_trans: "same_policy s t \<Longrightarrow> same_policy t u \<Longrightarrow> same_policy s u"
  by (simp add: same_policy_def)

lemma policy_write [simp]:
  "same_policy s (write_file n t s)" "same_policy s (remove_file n s)" "same_policy s (append_file n t s)"
  "same_policy s (s\<lparr> tick := k \<rparr>)"
  by (simp_all add: same_policy_def write_file_def remove_file_def append_file_def)

lemma has_file_simps [simp]:
  "has_file n (write_file m t s) \<longleftrightarrow> n = m \<or> has_file n s"
  "has_file n (append_file m t s) \<longleftrightarrow> n = m \<or> has_file n s"
  "has_file n (remove_file m s) \<longleftrightarrow> n \<noteq> m \<and> has_file n s"
  "has_file n (s\<lparr> tick := k \<rparr>) \<longleftrightarrow> has_file n s"
  by (auto simp: has_file_def write_file_def append_file_def remove_file_def dhas_def delete_conv' update_conv')

lemma has_file_names: "has_file n s \<longleftrightarrow> n \<in> set (map fst (disk s))"
  by (simp add: has_file_def dhas_def map_of_eq_None_iff)

lemma remove_files_effect:
  "same_policy s (remove_files ns s)" "has_file n (remove_files ns s) \<longleftrightarrow> n \<notin> set ns \<and> has_file n s"
  by (induction ns arbitrary: s) (auto intro: same_policy_trans [OF policy_write(2)])

lemma msg_path_is_cache [simp]: "is_msg_cache (msg_cache_path conv)"
  by (simp add: is_msg_cache_def msg_cache_path_def ends_with_def)

lemma msg_path_number: "int_of_str (take (length (msg_cache_path conv) - 9) (drop 5 (msg_cache_path conv))) = Some conv"
  by (simp add: msg_cache_path_def)

lemma msg_path_inject [simp]: "msg_cache_path a = msg_cache_path b \<longleftrightarrow> a = b"
  by (simp add: msg_cache_path_def)

lemma append_sealed_effect:
  "same_policy s (snd (append_sealed C n t s))"
  "has_file m (snd (append_sealed C n t s)) \<Longrightarrow> m = n \<or> has_file m s"
  using seal_effect [of C t s]
  by (auto simp: append_sealed_def sbind_def same_policy_def append_file_def write_file_def has_file_def
           split: prod.splits sum.splits)

lemma save_policy_effect:
  "same_policy s (snd (save_cache_policy C s))"
  "has_file (msg_cache_path conv) (snd (save_cache_policy C s)) \<longleftrightarrow> has_file (msg_cache_path conv) s"
proof -
  have ne: "msg_cache_path conv \<noteq> cache_policy_path" by (simp add: msg_cache_path_def cache_policy_path_def)
  obtain d where d: "snd (write_sealed C cache_policy_path (dumps_plain (JObj (get_cache_policy s))) s) = s\<lparr> tick := tick s + 1, disk := d \<rparr>"
    and m: "\<And>m. m \<noteq> cache_policy_path \<Longrightarrow> map_of d m = map_of (disk s) m"
    by (rule write_sealed_effect) blast
  show "same_policy s (snd (save_cache_policy C s))"
    by (simp add: save_cache_policy_def d same_policy_def)
  show "has_file (msg_cache_path conv) (snd (save_cache_policy C s)) \<longleftrightarrow> has_file (msg_cache_path conv) s"
    using m [OF ne] by (simp add: save_cache_policy_def d has_file_def dhas_def)
qed

lemma save_policy_total: "save_cache_policy C s = (Inr (), snd (save_cache_policy C s))"
  by (simp add: save_cache_policy_def)

lemma load_effect:
  "same_policy s (snd (load_cached_messages C conv s))"
  "has_file n (snd (load_cached_messages C conv s)) \<longleftrightarrow> has_file n s"
  by (auto simp: load_cached_messages_def Let_def has_file_def dhas_def write_file_def same_policy_def update_conv' split: option.splits)

lemma clear_effect:
  "same_policy s (snd (clear_message_cache c s))"
  "has_file n (snd (clear_message_cache c s)) \<Longrightarrow> has_file n s"
  by (auto simp: clear_message_cache_def Let_def remove_files_effect split: if_splits)

lemma clear_removes:
  assumes "secchat_dir s \<noteq> []" and "c = None \<or> c = Some conv"
  shows "\<not> has_file (msg_cache_path conv) (snd (clear_message_cache c s))"
  using assms has_file_names [of "msg_cache_path conv" s] by (auto simp: clear_message_cache_def Let_def remove_files_effect)

lemma enforce_file_effect:
  assumes "enforce_file C name (k, s) = (k', s')"
  shows "same_policy s s'" and "has_file n s' \<Longrightarrow> has_file n s"
    and "name = msg_cache_path conv \<Longrightarrow> \<not> is_conversation_cache_enabled conv s \<Longrightarrow> \<not> has_file name s'"
  using assms load_effect(1) [of s C] load_effect(2) [of _ C _ s] msg_path_number [of conv]
  by (auto simp: enforce_file_def Let_def split: option.splits if_splits)

lemma enforce_fold_effect:
  assumes "fold (enforce_file C) names (k, s) = (k', s')"
  shows "same_policy s s' \<and> (\<forall>n. has_file n s' \<longrightarrow> has_file n s)
    \<and> (\<forall>conv. msg_cache_path conv \<in> set names \<longrightarrow> \<not> is_conversation_cache_enabled conv s \<longrightarrow> \<not> has_file (msg_cache_path conv) s')"
  using assms
proof (induction names arbitrary: k s)
  case (Cons name names)
  obtain k1 s1 where 1: "enforce_file C name (k, s) = (k1, s1)" by fastforce
  note e = enforce_file_effect [OF 1] and ih = Cons.IH [of k1 s1]
  show ?case using ih Cons.prems 1 e same_policy_trans [OF e(1)] same_policyD(1) [OF e(1)] by auto
qed simp

subsection \<open>Sequences of operations\<close>

inductive cache_step :: "crypto \<Rightarrow> crypto_session \<Rightarrow> crypto_session \<Rightarrow> bool" for C where
  step_message: "cache_step C s (snd (cache_message C conv mid sender body ts s))"
| step_wire: "cache_step C s (snd (cache_outgoing_wire C conv wire sender body ts s))"
| step_load: "cache_step C s (snd (load_cached_messages C conv s))"
| step_clear: "cache_step C s (snd (clear_message_cache c s))"
| step_enforce: "cache_step C s (snd (enforce_cache_policy C s))"
| step_conv: "cache_step C s (snd (set_conversation_cache_enabled C conv on s))"
| step_policy: "cache_step C s (snd (set_cache_policy C enabled ttl on_logout cids s))"

text \<open>A conversation whose cache is off has no cache file.\<close>

definition no_hidden_cache :: "crypto_session \<Rightarrow> bool" where
  "no_hidden_cache s = (\<forall>conv. has_file (msg_cache_path conv) s \<longrightarrow> is_conversation_cache_enabled conv s)"

lemma no_hidden_mono:
  assumes "no_hidden_cache s" and "same_policy s t"
    and "\<And>conv. has_file (msg_cache_path conv) t \<Longrightarrow> is_conversation_cache_enabled conv s \<or> has_file (msg_cache_path conv) s"
  shows "no_hidden_cache t"
  using assms same_policyD(1) by (auto simp: no_hidden_cache_def)

lemma no_hidden_append:
  assumes "no_hidden_cache s" and "is_conversation_cache_enabled conv s"
  shows "no_hidden_cache (snd (append_sealed C (msg_cache_path conv) t s))"
  by (rule no_hidden_mono [OF assms(1) append_sealed_effect(1)]) (metis append_sealed_effect(2) assms(2) msg_path_inject)

lemma enforce_no_hidden:
  assumes "can_store s"
  shows "no_hidden_cache (snd (enforce_cache_policy C s))" and "same_policy s (snd (enforce_cache_policy C s))"
proof -
  have dir: "secchat_dir s \<noteq> []" using assms by (simp add: can_store_def)
  obtain k' s' where f: "fold (enforce_file C) (filter is_msg_cache (map fst (disk s))) (0, s) = (k', s')" by fastforce
  note e = enforce_fold_effect [OF f]
  show "same_policy s (snd (enforce_cache_policy C s))"
    using e clear_effect(1) by (simp add: enforce_cache_policy_def f)
  show "no_hidden_cache (snd (enforce_cache_policy C s))"
  proof (cases "cache_enabled s")
    case True
    have "is_conversation_cache_enabled conv s'" if "has_file (msg_cache_path conv) s'" for conv
    proof -
      have "has_file (msg_cache_path conv) s" using e that by blast
      then have "msg_cache_path conv \<in> set (filter is_msg_cache (map fst (disk s)))"
        by (simp add: has_file_names)
      then show ?thesis using e that same_policyD(1) by blast
    qed
    then show ?thesis using True assms by (simp add: enforce_cache_policy_def f no_hidden_cache_def)
  next
    case False
    then show ?thesis using clear_removes [OF dir, of None]
      by (simp add: enforce_cache_policy_def no_hidden_cache_def)
  qed
qed

lemma set_conv_no_hidden:
  assumes "no_hidden_cache s" and "can_store s"
  shows "no_hidden_cache (snd (set_conversation_cache_enabled C conv on s))"
    and "can_store (snd (set_conversation_cache_enabled C conv on s))"
proof -
  let ?on = "s\<lparr> cache_disabled_convs := cache_disabled_convs s - {conv} \<rparr>"
  let ?off = "s\<lparr> cache_disabled_convs := insert conv (cache_disabled_convs s) \<rparr>"
  define t where "t = (if on then ?on else snd (clear_message_cache (Some conv) ?off))"
  have run: "snd (set_conversation_cache_enabled C conv on s) = (if conv \<le> 0 then s else snd (save_cache_policy C t))"
    by (simp add: set_conversation_cache_enabled_def t_def sbind_def save_cache_policy_def)
  have store: "can_store t"
    using assms(2) same_policyD(2) [OF clear_effect(1), of "Some conv" ?off] by (simp add: t_def can_store_def)
  have "no_hidden_cache t"
  proof (cases on)
    case True
    then show ?thesis using assms(1) by (auto simp: t_def no_hidden_cache_def has_file_def is_conversation_cache_enabled_def)
  next
    case False
    have en: "is_conversation_cache_enabled c t = is_conversation_cache_enabled c ?off" for c
      using same_policyD(1) [OF clear_effect(1)] False by (simp add: t_def)
    have "is_conversation_cache_enabled c t" if f: "has_file (msg_cache_path c) t" for c
    proof -
      have "has_file (msg_cache_path c) ?off" using f False clear_effect(2) by (auto simp: t_def)
      then have "is_conversation_cache_enabled c s" using assms(1) by (simp add: no_hidden_cache_def has_file_def)
      moreover have "c \<noteq> conv"
        using f False assms(2) clear_removes [of ?off "Some conv" conv] by (auto simp: t_def can_store_def)
      ultimately show ?thesis unfolding en by (simp add: is_conversation_cache_enabled_def)
    qed
    then show ?thesis by (simp add: no_hidden_cache_def)
  qed
  then have "no_hidden_cache (snd (save_cache_policy C t))"
    by (rule no_hidden_mono) (simp_all add: save_policy_effect)
  then show "no_hidden_cache (snd (set_conversation_cache_enabled C conv on s))" using assms(1) by (simp add: run)
  show "can_store (snd (set_conversation_cache_enabled C conv on s))"
    using store assms(2) same_policyD(2) [OF save_policy_effect(1)] by (simp add: run)
qed

lemma set_policy_no_hidden:
  assumes "can_store s"
  shows "no_hidden_cache (snd (set_cache_policy C enabled ttl on_logout cids s))"
    and "can_store (snd (set_cache_policy C enabled ttl on_logout cids s))"
proof -
  let ?t = "snd (save_cache_policy C (set_policy_fields enabled ttl on_logout cids s))"
  have "can_store (set_policy_fields enabled ttl on_logout cids s)"
    using assms by (simp add: set_policy_fields_def can_store_def Let_def split: option.splits)
  then have t: "can_store ?t" using same_policyD(2) [OF save_policy_effect(1)] by simp
  have "snd (apply_policy C u) = snd (enforce_cache_policy C u)" for u
    by (simp add: apply_policy_def enforce_cache_policy_def Let_def)
  then have "snd (set_cache_policy C enabled ttl on_logout cids s) = snd (enforce_cache_policy C ?t)"
    by (simp add: set_cache_policy_def sbind_ok [OF save_policy_total])
  then show "no_hidden_cache (snd (set_cache_policy C enabled ttl on_logout cids s))"
    and "can_store (snd (set_cache_policy C enabled ttl on_logout cids s))"
    using enforce_no_hidden [OF t, of C] same_policyD(2) t by simp_all
qed

lemma cache_step_inv:
  assumes "cache_step C s t" and "no_hidden_cache s" and "can_store s"
  shows "no_hidden_cache t \<and> can_store t"
  using assms(1)
proof cases
  case (step_message conv mid sender body ts)
  then show ?thesis
    using assms no_hidden_append [of s conv C] same_policyD(2) [OF append_sealed_effect(1)]
    by (auto simp: cache_message_def)
next
  case (step_wire conv wire sender body ts)
  then show ?thesis
    using assms no_hidden_append [of s conv C] same_policyD(2) [OF append_sealed_effect(1)]
    by (auto simp: cache_outgoing_wire_def)
next
  case (step_load conv)
  then show ?thesis
    using assms same_policyD(2) [OF load_effect(1)] no_hidden_mono [OF assms(2) load_effect(1)] load_effect(2) by simp
next
  case (step_clear c)
  then show ?thesis
    using assms same_policyD(2) [OF clear_effect(1)] no_hidden_mono [OF assms(2) clear_effect(1)] clear_effect(2) by blast
next
  case step_enforce
  then show ?thesis using assms enforce_no_hidden [OF assms(3)] same_policyD(2) by blast
next
  case (step_conv conv on)
  then show ?thesis using set_conv_no_hidden [OF assms(2,3)] by simp
next
  case (step_policy enabled ttl on_logout cids)
  then show ?thesis using set_policy_no_hidden [OF assms(3)] by simp
qed

subsection \<open>Lines\<close>

lemma split_on_sep: "split_on c (a @ c # b) = split_on c a @ split_on c b"
  by (induction a) (auto split: list.splits)

lemma text_lines_append:
  assumes "t = [] \<or> last t = CHR 0x0A" and "CHR 0x0A \<notin> set u" and "CHR 0x0D \<notin> set u"
  shows "text_lines (t @ u @ [CHR 0x0A]) = butlast (text_lines t) @ [u, []]"
proof -
  have u: "replace_char (CHR 0x0D) (CHR 0x0A) (x @ u @ [CHR 0x0A]) = replace_char (CHR 0x0D) (CHR 0x0A) x @ u @ [CHR 0x0A]" for x
    using replace_char_id [OF assms(3)] by (simp add: replace_char_def)
  show ?thesis
  proof (cases t rule: rev_cases)
    case Nil
    then show ?thesis using assms(2) u [of "[]"] by (simp add: text_lines_def split_on_append replace_char_def)
  next
    case (snoc t' c)
    then have c: "c = CHR 0x0A" using assms(1) by simp
    have "replace_char (CHR 0x0D) (CHR 0x0A) t = replace_char (CHR 0x0D) (CHR 0x0A) t' @ [CHR 0x0A]"
      by (simp add: snoc c replace_char_def)
    then show ?thesis using assms(2) u [of t] by (simp add: text_lines_def split_on_sep split_on_free)
  qed
qed

lemma token_chars:
  assumes "encrypt_with_key C nonce ts key t = Inr token"
  shows "CHR 0x0A \<notin> set token" and "CHR 0x0D \<notin> set token" and "strip token = token" and "token \<noteq> []"
proof -
  obtain ct where "token = b64encode (nonce @ ct)" and "8 \<le> length nonce"
    using assms by (auto simp: encrypt_with_key_def aesgcm_encrypt_def Let_def)
  then obtain b where t: "token = b64encode b" and b: "b \<noteq> []" by (cases nonce) auto
  have sp: "\<not> py_space c" if "c \<in> set token" for c
    using that b64_body_chars [of b] b64_char_props(5) by (auto simp: t b64encode_def list_all_iff py_space_def split: if_splits)
  have "py_space (CHR 0x0A)" "py_space (CHR 0x0D)" by (simp_all add: py_space_def)
  then show "CHR 0x0A \<notin> set token" and "CHR 0x0D \<notin> set token" using sp by blast+
  show "strip token = token" by (rule token_strip [OF assms])
  have "b64encode [] = []" by (simp add: b64encode_def b64_pad_def)
  then show "token \<noteq> []" using b b64decode_b64encode [of b] b64decode_b64encode [of "[]"] by (metis Inr_inject t)
qed

lemma scan_line_blank [simp]: "scan_line C s [] acc = acc"
  by (simp add: scan_line_def strip_def)


definition cache_ready :: "crypto \<Rightarrow> int \<Rightarrow> crypto_session \<Rightarrow> bool" where
  "cache_ready C conv s = (key_ok C s \<and> can_store s \<and> is_conversation_cache_enabled conv s
     \<and> (let t = dget (disk s) (msg_cache_path conv) [] in t = [] \<or> last t = CHR 0x0A))"

lemma message_entry_ok:
  assumes "0 \<le> now_ms C s" and "utf8_valid body" and "utf8_valid ts"
  shows "json_ok (JObj (message_entry C s mid sender body ts))"
    and "utf8_valid (dumps_plain (JObj (message_entry C s mid sender body ts)))"
proof -
  note f = float_of_ms_read(1,2) [OF assms(1)]
  show "json_ok (JObj (message_entry C s mid sender body ts))" using f by (simp add: message_entry_def time_now_def)
  have "json_utf8 (JObj (message_entry C s mid sender body ts))"
    using assms ascii_utf8 [OF f(2)] by (simp add: message_entry_def time_now_def)
  then show "utf8_valid (dumps_plain (JObj (message_entry C s mid sender body ts)))" by simp
qed

lemma cached_at_entry:
  "map_of (message_entry C s mid sender body ts) ''cached_at'' = Some (time_now C s)"
  "map_of (message_entry C s mid sender body ts @ d) ''cached_at'' = Some (time_now C s)"
  by (simp_all add: message_entry_def)

lemma append_sealed_line:
  assumes "key_ok C s" and "t = [] \<or> last t = CHR 0x0A" and "t = dget (disk s) name []"
  obtains token where "seal C text s = (Inr token, s\<lparr> tick := tick s + 1 \<rparr>)"
    and "unseal_text C s token = (if utf8_valid text then Inr text else unseal_text C s token)"
    and "snd (append_sealed C name text s) = s\<lparr> tick := tick s + 1, disk := dset (disk s) name (t @ token @ [CHR 0x0A]) \<rparr>"
    and "text_lines (t @ token @ [CHR 0x0A]) = butlast (text_lines t) @ [token, []]"
    and "strip token = token" and "token \<noteq> []"
proof -
  obtain token where t: "seal C text s = (Inr token, s\<lparr> tick := tick s + 1 \<rparr>)"
    "encrypt_with_key C (os_random C (tick s) 12) (clock_ms C (tick s)) (master_key s) text = Inr token"
    by (rule seal_total [OF assms(1)])
  have "utf8_valid text \<Longrightarrow> unseal_text C s token = Inr text"
    using open_at_rest_sealed [OF seal_ok_tick [OF assms(1)] _ t(2)] by (simp add: unseal_text_def)
  moreover have "snd (append_sealed C name text s) = s\<lparr> tick := tick s + 1, disk := dset (disk s) name (t @ token @ [CHR 0x0A]) \<rparr>"
    by (simp add: append_sealed_def sbind_def t(1) append_file_def write_file_def assms(3))
  ultimately show ?thesis
    using that [OF t(1)] text_lines_append [OF assms(2) token_chars(1,2) [OF t(2)]] token_chars(3,4) [OF t(2)] by simp
qed

text \<open>An entry appended now is indexed by every later reading within the time to live.\<close>

definition within_ttl :: "crypto \<Rightarrow> crypto_session \<Rightarrow> nat \<Rightarrow> bool" where
  "within_ttl C s k = (cache_ttl_days s < 0 \<or> clock_ms C k - cache_ttl_days s * 86400000 \<le> now_ms C s)"

lemma fresh_entry:
  assumes "0 < now_ms C s" and "within_ttl C s k" and "cache_ttl_days t = cache_ttl_days s" and "tick t = k"
    and "map_of d ''cached_at'' = Some (time_now C s)"
  shows "cache_entry_is_fresh C t (JObj d) = Inr True"
proof -
  have "py_or (dget d ''cached_at'' JNull) (time_now C t) = time_now C s"
    using assms(1,5) float_of_ms_read(4) [of "now_ms C s"] by (simp add: py_or_def dget_def time_now_def)
  then show ?thesis
    using assms float_of_ms_read(3) [of "now_ms C s"]
    by (auto simp: cache_entry_is_fresh_def py_float_def time_now_def within_ttl_def now_ms_def)
qed

lemma appended_entry_read:
  assumes "cache_ready C conv s" and "0 < now_ms C s" and "within_ttl C s k"
    and "map_of d ''cached_at'' = Some (time_now C s)" and "json_ok (JObj d)"
    and "utf8_valid (dumps_plain (JObj d))" and "\<And>out. index_entry (JObj d) out = Inr (ix out)"
  shows "\<exists>out. fst (load_cached_messages C conv
    ((snd (append_sealed C (msg_cache_path conv) (dumps_plain (JObj d)) s))\<lparr> tick := k \<rparr>)) = ix out"
proof -
  define t where "t = dget (disk s) (msg_cache_path conv) []"
  have ready: "key_ok C s" "can_store s" "is_conversation_cache_enabled conv s" "t = [] \<or> last t = CHR 0x0A"
    using assms(1) by (simp_all add: cache_ready_def t_def Let_def)
  obtain token where tok: "seal C (dumps_plain (JObj d)) s = (Inr token, s\<lparr> tick := tick s + 1 \<rparr>)"
    "unseal_text C s token = Inr (dumps_plain (JObj d))"
    "snd (append_sealed C (msg_cache_path conv) (dumps_plain (JObj d)) s) =
       s\<lparr> tick := tick s + 1, disk := dset (disk s) (msg_cache_path conv) (t @ token @ [CHR 0x0A]) \<rparr>"
    "text_lines (t @ token @ [CHR 0x0A]) = butlast (text_lines t) @ [token, []]" "strip token = token" "token \<noteq> []"
    by (rule append_sealed_line [OF ready(1,4) t_def, of "dumps_plain (JObj d)"]) (use assms(6) in simp)
  define u where "u = s\<lparr> tick := k, disk := dset (disk s) (msg_cache_path conv) (t @ token @ [CHR 0x0A]) \<rparr>"
  have u: "cache_ttl_days u = cache_ttl_days s" "tick u = k" "unseal_text C u token = Inr (dumps_plain (JObj d))"
    using tok(2) by (simp_all add: u_def unseal_text_def)
  have "scan_line C u token acc = acc\<lparr> kept_tokens := kept_tokens acc @ [token], scan_out := ix (scan_out acc) \<rparr>" for acc
    using fresh_entry [OF assms(2,3) u(1,2) assms(4)] assms(5,7)
    by (simp add: scan_line_def tok(5,6) u(3) Let_def loads_dumps_plain)
  then have "\<exists>out. scan_out (scan_cache C u (t @ token @ [CHR 0x0A])) = ix out"
    by (auto simp: scan_cache_def tok(4))
  moreover have "is_conversation_cache_enabled conv u" "can_store u" "map_of (disk u) (msg_cache_path conv) = Some (t @ token @ [CHR 0x0A])"
    using ready(2,3) by (simp_all add: u_def can_store_def is_conversation_cache_enabled_def update_conv')
  moreover have "(snd (append_sealed C (msg_cache_path conv) (dumps_plain (JObj d)) s))\<lparr> tick := k \<rparr> = u"
    by (simp add: tok(3) u_def)
  ultimately show ?thesis by (auto simp: load_cached_messages_def Let_def)
qed

text \<open>Reading twice changes nothing more.\<close>

lemma text_lines_clean:
  assumes "u \<in> set (text_lines t)"
  shows "CHR 0x0A \<notin> set u" and "CHR 0x0D \<notin> set u"
proof -
  have split: "x \<in> set (split_on c y) \<Longrightarrow> c \<notin> set x \<and> set x \<subseteq> set y" for x c y
    by (induction y arbitrary: x) (fastforce split: if_splits list.splits)+
  have "CHR 0x0D \<notin> set (replace_char (CHR 0x0D) (CHR 0x0A) t)" by (auto simp: replace_char_def)
  then show "CHR 0x0A \<notin> set u" and "CHR 0x0D \<notin> set u" using assms split unfolding text_lines_def by blast+
qed

lemma strip_subset: "set (strip s) \<subseteq> set s"
  unfolding strip_def by (metis set_dropWhileD set_rev subsetI)

lemma strip_strip [simp]: "strip (strip s) = strip s"
proof (rule strip_id, safe)
  assume ne: "strip s \<noteq> []"
  let ?a = "dropWhile py_space s"
  have a: "?a \<noteq> []"
  proof
    assume "?a = []"
    then have "strip s = []" unfolding strip_def by (simp only: rev.simps dropWhile.simps)
    then show False using ne by contradiction
  qed
  have "?a = strip s @ rev (takeWhile py_space (rev ?a))"
    unfolding strip_def rev_append [symmetric] takeWhile_dropWhile_id by simp
  then have "hd (strip s) = hd ?a" using ne by (metis hd_append)
  then show "py_space (hd (strip s)) \<Longrightarrow> False" using a hd_dropWhile by metis
  have "dropWhile py_space (rev ?a) \<noteq> []" using ne by (simp only: strip_def rev_is_Nil_conv simp_thms)
  then have "\<not> py_space (last (strip s))" using hd_dropWhile by (metis strip_def last_rev)
  then show "py_space (last (strip s)) \<Longrightarrow> False" by contradiction
qed

lemma text_lines_cache_text:
  assumes "\<And>k. k \<in> set ks \<Longrightarrow> CHR 0x0A \<notin> set k \<and> CHR 0x0D \<notin> set k"
  shows "text_lines (cache_text ks) = ks @ [[]]"
proof -
  have "text_lines (join [CHR 0x0A] (k # ks) @ [CHR 0x0A]) = (k # ks) @ [[]]"
    if "\<And>x. x \<in> set (k # ks) \<Longrightarrow> CHR 0x0A \<notin> set x \<and> CHR 0x0D \<notin> set x" for k ks
    using that
  proof (induction ks arbitrary: k)
    case (Cons k' ks)
    have "replace_char (CHR 0x0D) (CHR 0x0A) k = k" using Cons.prems by (intro replace_char_id) simp
    then show ?case using Cons.IH [of k'] Cons.prems
      by (simp add: text_lines_def replace_char_def split_on_append)
  next
    case Nil
    then show ?case using text_lines_append [of "[]" k] by (simp add: text_lines_def replace_char_def)
  qed
  then show ?thesis using assms by (cases ks) (auto simp: cache_text_def text_lines_def replace_char_def)
qed


lemma scan_line_strip: "scan_line C s (strip l) acc = scan_line C s l acc"
  by (simp add: scan_line_def)

text \<open>Scanning the kept lines gives the same index and keeps them all.\<close>

definition scan_agree :: "cache_scan \<Rightarrow> cache_scan \<Rightarrow> bool" where
  "scan_agree a b = (scan_out a = scan_out b \<and> kept_tokens a = kept_tokens b)"

lemma scan_line_cases:
  obtains (skip) "\<And>acc. kept_tokens (scan_line C s l acc) = kept_tokens acc \<and> scan_out (scan_line C s l acc) = scan_out acc"
  | (keep) ix where "strip l \<noteq> []" and "\<And>acc. kept_tokens (scan_line C s l acc) = kept_tokens acc @ [strip l]
      \<and> scan_out (scan_line C s l acc) = ix (scan_out acc)"
proof (cases "strip l = [] \<or> (\<forall>entry. rbind (unseal_text C s (strip l)) loads = Inr entry \<longrightarrow> cache_entry_is_fresh C s entry \<noteq> Inr True)")
  case True
  then show ?thesis by (intro skip) (auto simp: scan_line_def Let_def split: sum.splits bool.splits)
next
  case False
  then obtain entry where e: "strip l \<noteq> []" "rbind (unseal_text C s (strip l)) loads = Inr entry" "cache_entry_is_fresh C s entry = Inr True"
    by blast
  have "scan_line C s l acc = (let acc1 = acc\<lparr> kept_tokens := kept_tokens acc @ [strip l] \<rparr>
       in (case index_entry entry (scan_out acc) of Inl _ \<Rightarrow> acc1\<lparr> scan_changed := True \<rparr> | Inr out \<Rightarrow> acc1\<lparr> scan_out := out \<rparr>))" for acc
    unfolding scan_line_def Let_def e(2) using e(1,3) by simp
  then show ?thesis
    by (intro keep [OF e(1), of "\<lambda>o'. case index_entry entry o' of Inl _ \<Rightarrow> o' | Inr out \<Rightarrow> out"])
       (simp add: Let_def split: sum.splits)
qed

definition one_line :: "string \<Rightarrow> bool" where
  "one_line l = (CHR 0x0A \<notin> set l \<and> CHR 0x0D \<notin> set l)"

lemma one_line_strip: "one_line l \<Longrightarrow> one_line (strip l)"
  using strip_subset [of l] unfolding one_line_def by blast

lemma scan_kept:
  assumes "list_all one_line ls" and "list_all one_line (kept_tokens acc)"
  shows "list_all one_line (kept_tokens (fold (scan_line C s) ls acc))"
  using assms
proof (induction ls arbitrary: acc)
  case (Cons l ls)
  have "one_line (strip l)" using Cons.prems(1) by (simp add: one_line_strip)
  then have "list_all one_line (kept_tokens (scan_line C s l acc))"
    using Cons.prems(2) by (cases l rule: scan_line_cases [of C s]) (simp_all only: list_all_append list.pred_inject simp_thms)
  then show ?case using Cons by simp
qed simp

lemma rescan:
  assumes "scan_agree a b"
  shows "\<exists>new. kept_tokens (fold (scan_line C s) ls a) = kept_tokens a @ new
    \<and> scan_agree (fold (scan_line C s) new b) (fold (scan_line C s) ls a)"
  using assms
proof (induction ls arbitrary: a b)
  case (Cons l ls)
  show ?case
  proof (cases l rule: scan_line_cases [of C s])
    case skip
    then have "scan_agree (scan_line C s l a) b" using Cons.prems by (simp add: scan_agree_def)
    then show ?thesis using Cons.IH skip by fastforce
  next
    case (keep ix)
    then have "scan_agree (scan_line C s l a) (scan_line C s (strip l) b)"
      using Cons.prems by (simp add: scan_agree_def scan_line_strip)
    then obtain new where "kept_tokens (fold (scan_line C s) ls (scan_line C s l a)) = kept_tokens (scan_line C s l a) @ new"
      "scan_agree (fold (scan_line C s) new (scan_line C s (strip l) b)) (fold (scan_line C s) ls (scan_line C s l a))"
      using Cons.IH by blast
    then show ?thesis using keep by (intro exI [of _ "strip l # new"]) simp
  qed
qed (simp add: scan_agree_def)

lemma load_twice:
  assumes "load_cached_messages C conv s = (out, s')"
  shows "load_cached_messages C conv s' = (out, s')"
proof (cases "\<not> is_conversation_cache_enabled conv s \<or> \<not> can_store s \<or> map_of (disk s) (msg_cache_path conv) = None")
  case True
  then show ?thesis using assms by (auto simp: load_cached_messages_def split: option.splits if_splits)
next
  case False
  then obtain t where t: "is_conversation_cache_enabled conv s" "can_store s" "map_of (disk s) (msg_cache_path conv) = Some t" by auto
  define scan where "scan = scan_cache C s t"
  show ?thesis
  proof (cases "scan_changed scan")
    case False
    then show ?thesis using assms t by (auto simp: load_cached_messages_def scan_def Let_def)
  next
    case True
    let ?start = "\<lparr> scan_out = [], kept_tokens = [], scan_changed = False \<rparr>"
    have s': "s' = write_file (msg_cache_path conv) (cache_text (kept_tokens scan)) s" and out: "out = scan_out scan"
      using assms t True by (simp_all add: load_cached_messages_def scan_def Let_def)
    have "cache_entry_is_fresh C s' = cache_entry_is_fresh C s" "unseal_text C s' = unseal_text C s"
      by (simp_all add: fun_eq_iff s' write_file_def unseal_text_def cache_entry_is_fresh_def time_now_def now_ms_def)
    then have eqs: "scan_line C s' = scan_line C s" by (intro ext) (simp only: scan_line_def)
    have "list_all one_line (text_lines t)" using text_lines_clean by (auto simp: list_all_iff one_line_def)
    then have "list_all one_line (kept_tokens scan)" unfolding scan_def scan_cache_def by (rule scan_kept) simp
    then have lines: "text_lines (cache_text (kept_tokens scan)) = kept_tokens scan @ [[]]"
      by (intro text_lines_cache_text) (auto simp: list_all_iff one_line_def)
    obtain new where new: "kept_tokens scan = kept_tokens ?start @ new" "scan_agree (fold (scan_line C s) new ?start) scan"
      using rescan [of ?start ?start C s "text_lines t"] by (auto simp: scan_def scan_cache_def scan_agree_def)
    have "scan_cache C s' (cache_text (kept_tokens scan)) = fold (scan_line C s) new ?start"
      unfolding scan_cache_def lines eqs using new(1) by simp
    then have agree: "scan_agree (scan_cache C s' (cache_text (kept_tokens scan))) scan" using new(2) by simp
    have "is_conversation_cache_enabled conv s'" "can_store s'"
      "map_of (disk s') (msg_cache_path conv) = Some (cache_text (kept_tokens scan))"
      using t by (simp_all add: s' write_file_def is_conversation_cache_enabled_def can_store_def update_conv')
    moreover have "write_file (msg_cache_path conv) (cache_text (kept_tokens scan)) s' = s'"
      by (simp add: s' write_file_def dset_same update_conv')
    ultimately show ?thesis using agree by (simp add: load_cached_messages_def Let_def scan_agree_def out)
  qed
qed

subsection \<open>The policy file\<close>

lemma show_int_digits: "0 < i \<Longrightarrow> digits_only (show_int i)"
proof -
  assume i: "0 < i"
  obtain c u where s: "show_nat (nat i) = c # u" by (cases "show_nat (nat i)") auto
  have d: "list_all is_digit (c # u)" using show_nat_digits [of "nat i"] by (simp add: s)
  then have "c \<noteq> CHR ''-''" by (auto simp: is_digit_def)
  then show ?thesis using i d by (simp add: digits_only_def show_int_def s Let_def)
qed

lemma disabled_ids_ints: "\<forall>i \<in> set is'. 0 < i \<Longrightarrow> disabled_ids (map JInt is') = Inr (set is')"
  by (induction is') (simp_all add: show_int_digits)

lemma policy_json_ok:
  "json_ok (JObj (get_cache_policy s))" "utf8_valid (dumps_plain (JObj (get_cache_policy s)))"
proof -
  show "json_ok (JObj (get_cache_policy s))" by (simp add: get_cache_policy_def list_all_iff)
  have "json_utf8 (JObj (get_cache_policy s))" by (simp add: get_cache_policy_def list_all_iff)
  then show "utf8_valid (dumps_plain (JObj (get_cache_policy s)))" by simp
qed

subsection \<open>Properties\<close>

text \<open>
  C37: (invariant) Start from a session that can store, in which only conversations that may be
  cached have a cache file. Whatever sequence of cache operations follows (caching messages and
  outgoing wires, reading, clearing, enforcing, switching a conversation or the whole policy on or
  off), a conversation whose caching is off has no plaintext cache file on disk.
\<close>

theorem cache_off_leaves_no_file:
  assumes "(cache_step C)\<^sup>*\<^sup>* s t" and "no_hidden_cache s" and "can_store s"
    and "\<not> is_conversation_cache_enabled conv t"
  shows "\<not> has_file (msg_cache_path conv) t"
proof -
  have "no_hidden_cache t \<and> can_store t"
    using assms(1-3) by (induction rule: rtranclp_induct) (auto dest: cache_step_inv)
  then show ?thesis using assms(4) by (auto simp: no_hidden_cache_def)
qed

lemma demo_session_ok:
  "key_ok toy_crypto demo_session" "can_store demo_session" "no_hidden_cache demo_session" "cache_ready toy_crypto 5 demo_session"
proof -
  show k: "key_ok toy_crypto demo_session" and c: "can_store demo_session" by (rule demo_stores)+
  show "no_hidden_cache demo_session" by (simp add: no_hidden_cache_def has_file_def dhas_def demo_session_def)
  show "cache_ready toy_crypto 5 demo_session"
    using k c by (simp add: cache_ready_def is_conversation_cache_enabled_def demo_session_def dget_def)
qed

theorem cache_off_leaves_no_file_witness:
  "\<not> has_file (msg_cache_path 5)
     (snd (set_conversation_cache_enabled toy_crypto 5 False (snd (cache_message toy_crypto 5 9 2 ''hi'' [] demo_session))))"
proof (rule cache_off_leaves_no_file [OF _ demo_session_ok(3,2)])
  let ?m = "snd (cache_message toy_crypto 5 9 2 ''hi'' [] demo_session)"
  show "(cache_step toy_crypto)\<^sup>*\<^sup>* demo_session (snd (set_conversation_cache_enabled toy_crypto 5 False ?m))"
    using step_message [of toy_crypto demo_session 5 9 2 "''hi''" "[]"] step_conv [of toy_crypto ?m 5 False]
    by (meson converse_rtranclp_into_rtranclp r_into_rtranclp)
  let ?u = "snd (clear_message_cache (Some 5) (?m\<lparr> cache_disabled_convs := insert 5 (cache_disabled_convs ?m) \<rparr>))"
  have "same_policy (?m\<lparr> cache_disabled_convs := insert 5 (cache_disabled_convs ?m) \<rparr>) (snd (save_cache_policy toy_crypto ?u))"
    by (rule same_policy_trans [OF clear_effect(1) save_policy_effect(1)])
  then have "5 \<in> cache_disabled_convs (snd (save_cache_policy toy_crypto ?u))" by (simp add: same_policy_def)
  moreover have "snd (set_conversation_cache_enabled toy_crypto 5 False ?m) = snd (save_cache_policy toy_crypto ?u)"
    by (simp add: set_conversation_cache_enabled_def Let_def sbind_ok [OF save_policy_total])
  ultimately show "\<not> is_conversation_cache_enabled 5 (snd (set_conversation_cache_enabled toy_crypto 5 False ?m))"
    by (simp add: is_conversation_cache_enabled_def)
qed

text \<open>
  A message cached while its conversation may be cached is found by its id in
  every later reading of the conversation within the time to live, with the sender, text and time
  it was cached with, whatever lines the file already held; and an outgoing message cached by its
  ciphertext is found by the hash of that ciphertext.
\<close>

theorem cached_message_read_back:
  assumes "cache_ready C conv s" and "0 < now_ms C s" and "within_ttl C s k" and "utf8_valid body" and "utf8_valid ts"
  shows "(mid \<noteq> 0 \<longrightarrow>
      map_of (fst (load_cached_messages C conv ((snd (cache_message C conv mid sender body ts s))\<lparr> tick := k \<rparr>))) (ById mid)
        = Some (message_entry C s mid sender body ts))
    \<and> (wire \<noteq> [] \<longrightarrow>
      map_of (fst (load_cached_messages C conv ((snd (cache_outgoing_wire C conv wire sender body ts s))\<lparr> tick := k \<rparr>)))
          (ByWire (wire_cache_key C wire))
        = Some (message_entry C s 0 sender body ts @ [(''wire_hash'', JStr (to_hex (sha256 C wire)))]))"
proof -
  have ready: "can_store s" "is_conversation_cache_enabled conv s" "0 \<le> now_ms C s" and
    sha: "length (sha256 C wire) = 32"
    using assms(1,2) sizes_okD(1) by (simp_all add: cache_ready_def key_ok_def)
  note ok = message_entry_ok [OF ready(3) assms(4,5)]
  note f = float_of_ms_read(1,2) [OF ready(3)]
  let ?e = "message_entry C s mid sender body ts"
  have "index_entry (JObj ?e) out = Inr (if mid \<noteq> 0 then dset out (ById mid) ?e else out)" for out
    by (simp add: index_entry_def message_entry_def dget_def)
  then obtain out where "fst (load_cached_messages C conv ((snd (append_sealed C (msg_cache_path conv) (dumps_plain (JObj ?e)) s))\<lparr> tick := k \<rparr>))
      = (if mid \<noteq> 0 then dset out (ById mid) ?e else out)"
    using appended_entry_read [OF assms(1-3) _ ok [of mid sender], where ix = "\<lambda>out. if mid \<noteq> 0 then dset out (ById mid) ?e else out"]
      cached_at_entry by blast
  then have byid: "mid \<noteq> 0 \<Longrightarrow> map_of (fst (load_cached_messages C conv ((snd (cache_message C conv mid sender body ts s))\<lparr> tick := k \<rparr>))) (ById mid) = Some ?e"
    using ready(1,2) by (simp add: cache_message_def update_conv')
  let ?w = "message_entry C s 0 sender body ts @ [(''wire_hash'', JStr (to_hex (sha256 C wire)))]"
  have wk: "drop 5 (wire_cache_key C wire) = to_hex (sha256 C wire)" by (simp add: wire_cache_key_def)
  have ne: "to_hex (sha256 C wire) \<noteq> []" using sha by (metis length_0_conv length_to_hex mult_eq_0_iff zero_neq_numeral)
  have wok: "json_ok (JObj ?w)" using f by (simp add: message_entry_def time_now_def)
  have "json_utf8 (JObj ?w)"
    using assms(4,5) ascii_utf8 [OF f(2)] ascii_utf8 [OF to_hex_ascii] by (simp add: message_entry_def time_now_def)
  then have wtext: "utf8_valid (dumps_plain (JObj ?w))" by simp
  have "index_entry (JObj ?w) out = Inr (dset out (ByWire (wire_cache_key C wire)) ?w)" for out
    using ne by (simp add: index_entry_def message_entry_def dget_def wire_cache_key_def Let_def)
  then obtain out where "fst (load_cached_messages C conv ((snd (append_sealed C (msg_cache_path conv) (dumps_plain (JObj ?w)) s))\<lparr> tick := k \<rparr>))
      = dset out (ByWire (wire_cache_key C wire)) ?w"
    using appended_entry_read [OF assms(1-3) _ wok wtext, where ix = "\<lambda>out. dset out (ByWire (wire_cache_key C wire)) ?w"]
      cached_at_entry by blast
  then have "wire \<noteq> [] \<Longrightarrow> map_of (fst (load_cached_messages C conv ((snd (cache_outgoing_wire C conv wire sender body ts s))\<lparr> tick := k \<rparr>)))
      (ByWire (wire_cache_key C wire)) = Some ?w"
    using ready(1,2) by (simp add: cache_outgoing_wire_def wk update_conv')
  with byid show ?thesis by blast
qed

theorem cached_message_read_back_witness:
  "map_of (fst (load_cached_messages toy_crypto 5
      ((snd (cache_message toy_crypto 5 9 2 ''hi'' [] demo_session))\<lparr> tick := 7 \<rparr>))) (ById 9)
    = Some (message_entry toy_crypto demo_session 9 2 ''hi'' [])"
  by (rule cached_message_read_back [OF demo_session_ok(4), THEN conjunct1, rule_format])
     (simp_all add: now_ms_def within_ttl_def toy_crypto_def demo_session_def utf8_valid.simps)

text \<open>
  The cache policy survives a restart: a session that opens the same directory with
  the same key after the policy was saved loads exactly the saved settings, and nothing else of it
  changes.
\<close>

theorem cache_policy_saved_and_loaded:
  assumes "key_ok C s" and "can_store s" and "finite (cache_disabled_convs s)" and "\<forall>i \<in> cache_disabled_convs s. 0 < i"
    and "master_key t = master_key s" and "secchat_dir t = secchat_dir s"
  shows "load_cache_policy C (t\<lparr> disk := disk (snd (save_cache_policy C s)) \<rparr>) =
    (Inr (get_cache_policy s),
     t\<lparr> disk := disk (snd (save_cache_policy C s)), cache_enabled := cache_enabled s, cache_ttl_days := cache_ttl_days s,
        cache_clear_on_logout := cache_clear_on_logout s, cache_disabled_convs := cache_disabled_convs s \<rparr>)"
proof -
  obtain s' where w: "write_sealed C cache_policy_path (dumps_plain (JObj (get_cache_policy s))) s = (Inr (), s')"
    and r: "read_sealed C s' cache_policy_path = Inr (dumps_plain (JObj (get_cache_policy s)))"
    and s': "s' = s\<lparr> tick := tick s + 1, disk := disk s' \<rparr>"
    by (rule write_read_sealed [OF assms(1) policy_json_ok(2)]) blast
  have save: "snd (save_cache_policy C s) = s'" using assms(2) w by (simp add: save_cache_policy_def)
  define u where "u = t\<lparr> disk := disk s' \<rparr>"
  have "master_key s' = master_key s" by (subst s') simp
  then have "read_sealed C u cache_policy_path = Inr (dumps_plain (JObj (get_cache_policy s)))"
    using r assms(5) by (simp add: u_def read_sealed_def unseal_text_def cong: option.case_cong)
  then have rd: "read_sealed_json C u cache_policy_path = Inr (JObj (get_cache_policy s))"
    by (simp add: read_sealed_json_def loads_dumps_plain [OF policy_json_ok(1)])
  have stored: "can_store u" "has_file cache_policy_path u"
    using assms(2,5,6) r by (auto simp: u_def can_store_def has_file_def dhas_def read_sealed_def split: option.splits)
  have ids: "disabled_ids (map JInt (sorted_list_of_set (cache_disabled_convs s))) = Inr (cache_disabled_convs s)"
    using disabled_ids_ints [of "sorted_list_of_set (cache_disabled_convs s)"] assms(3,4) by simp
  have "read_cache_policy C u = (Inr (), u\<lparr> cache_enabled := cache_enabled s, cache_ttl_days := cache_ttl_days s,
      cache_clear_on_logout := cache_clear_on_logout s, cache_disabled_convs := cache_disabled_convs s \<rparr>)"
    using ids by (auto simp: read_cache_policy_def sbind_def rd get_cache_policy_def dget_def Let_def)
  then show ?thesis using stored
    by (simp add: load_cache_policy_def save u_def [symmetric] sbind_def get_cache_policy_def)
qed

theorem cache_policy_saved_and_loaded_witness:
  "fst (load_cache_policy toy_crypto (demo_session\<lparr> disk := disk (snd (save_cache_policy toy_crypto
      (demo_session\<lparr> cache_ttl_days := 7, cache_disabled_convs := {4} \<rparr>))) \<rparr>))
    = Inr (get_cache_policy (demo_session\<lparr> cache_ttl_days := 7, cache_disabled_convs := {4} \<rparr>))"
proof -
  let ?s = "demo_session\<lparr> cache_ttl_days := 7, cache_disabled_convs := {4} \<rparr>"
  have "key_ok toy_crypto ?s" "can_store ?s" using demo_session_ok(1,2) by (simp_all add: key_ok_def can_store_def)
  from cache_policy_saved_and_loaded [OF this, of demo_session] show ?thesis by simp
qed

text \<open>
  Reading a conversation's cache settles it: a second reading at the same time
  returns the same messages and leaves every file as the first one left it, so the clean-up of
  expired and damaged lines loses no entry that was returned.
\<close>

theorem cache_read_settles:
  "load_cached_messages C conv (snd (load_cached_messages C conv s)) = load_cached_messages C conv s"
  by (cases "load_cached_messages C conv s") (simp add: load_twice)

end
