(* ===== verification/Keys.thy ===== *)
theory Keys
  imports Mls Cache
begin

text \<open>
  Identity keys and prekey bundles of a login (\<open>client/crypto_engine/session.py\<close>,
  \<open>save_identity_key\<close> to \<open>rotate_identity_commands\<close>). \<open>draw n\<close> reserves
  \<open>n\<close> draws of randomness and returns the index of the first; the environment answers them.
  A prekey file whose content is not a JSON object counts as one that cannot be read.
\<close>

definition draw :: "nat \<Rightarrow> nat ses" where
  "draw n s = (Inr (tick s), s\<lparr> tick := tick s + n \<rparr>)"

subsection \<open>The identity key\<close>

definition save_identity_key :: "crypto \<Rightarrow> unit ses" where
  "save_identity_key C s =
     (if \<not> can_store s \<or> identity_sk s = [] then (Inr (), s)
      else logged (write_sealed C identity_key_path (b64encode (identity_sk s))) s)"

definition read_identity_key :: "crypto \<Rightarrow> unit ses" where
  "read_identity_key C =
     sbind (\<lambda>s. (rbind (read_sealed C s identity_key_path) b64decode, s)) (\<lambda>sk.
     sbind (smod (\<lambda>s. s\<lparr> identity_sk := sk \<rparr>)) (\<lambda>_.
     sbind (slift (identity_pk_from_sk C sk)) (\<lambda>pk.
     smod (\<lambda>s. s\<lparr> identity_pk := pk \<rparr>))))"

text \<open>\<open>self.identity_pk, self.identity_sk = identity_keygen()\<close> and the save that follows it.\<close>

definition create_identity_key :: "crypto \<Rightarrow> unit ses" where
  "create_identity_key C =
     sbind (draw 1) (\<lambda>t.
     sbind (smod (\<lambda>s. s\<lparr> identity_pk := fst (identity_keygen C t), identity_sk := snd (identity_keygen C t) \<rparr>)) (\<lambda>_.
     save_identity_key C))"

definition load_or_create_identity_key :: "crypto \<Rightarrow> unit ses" where
  "load_or_create_identity_key C s =
     (if \<not> can_store s then (Inr (), s)
      else if has_file identity_key_path s then scatch (read_identity_key C) (\<lambda>_. create_identity_key C) s
      else create_identity_key C s)"

subsection \<open>The prekey store\<close>

definition save_pqxdh_prekeys :: "crypto \<Rightarrow> unit ses" where
  "save_pqxdh_prekeys C s = (case pqxdh_prekeys s of
       Some (kv # store) \<Rightarrow>
         if \<not> can_store s then (Inr (), s)
         else logged (write_sealed C pqxdh_prekeys_path (dumps_compact (JObj (kv # store)))) s
     | _ \<Rightarrow> (Inr (), s))"

definition load_pqxdh_prekeys :: "crypto \<Rightarrow> crypto_session \<Rightarrow> dict option \<times> crypto_session" where
  "load_pqxdh_prekeys C s =
     (if pqxdh_prekeys s \<noteq> None \<and> pqxdh_prekeys s \<noteq> Some [] then (pqxdh_prekeys s, s)
      else if \<not> can_store s \<or> \<not> has_file pqxdh_prekeys_path s then (None, s)
      else case rbind (read_sealed_json C s pqxdh_prekeys_path) as_dict of
             Inl _ \<Rightarrow> (None, s)
           | Inr store \<Rightarrow> (Some store, s\<lparr> pqxdh_prekeys := Some store \<rparr>))"

definition clone_pqxdh_prekey_store :: "dict \<Rightarrow> dict res" where
  "clone_pqxdh_prekey_store store = rbind (loads (dumps_default (JObj store))) as_dict"

text \<open>The handshake runs on a copy of the store, which is kept only when it succeeds.\<close>

definition respond_on_copy :: "crypto \<Rightarrow> string \<Rightarrow> dict \<Rightarrow> (string \<times> double_ratchet \<times> string \<times> int) ses" where
  "respond_on_copy C body candidate = sbind (draw 1) (\<lambda>t s.
     case pqxdh_respond C (x_seed C t) (os_random C t 16) (Some (uid s)) body candidate of
       (Inl e, _) \<Rightarrow> (Inl e, s)
     | (Inr result, popped) \<Rightarrow>
         sbind (smod (\<lambda>s. s\<lparr> pqxdh_prekeys := Some popped \<rparr>)) (\<lambda>_.
         sbind (save_pqxdh_prekeys C) (\<lambda>_. sret result)) s)"

definition respond_pqxdh_with_current_prekey :: "crypto \<Rightarrow> string \<Rightarrow> (string \<times> double_ratchet \<times> string \<times> int) ses" where
  "respond_pqxdh_with_current_prekey C body s = (case load_pqxdh_prekeys C s of
       (Some (kv # store), s1) \<Rightarrow> sbind (slift (clone_pqxdh_prekey_store (kv # store))) (respond_on_copy C body) s1
     | (_, s1) \<Rightarrow> (Inl (CryptoStateError ''SecChat prekey store is not available.''), s1))"

subsection \<open>Bundles\<close>

text \<open>\<open>generate_local_bundle(..., otk_count=12)\<close>, storing the private half and returning the public one.\<close>

definition new_bundle :: "crypto \<Rightarrow> dict ses" where
  "new_bundle C =
     sbind (draw 13) (\<lambda>t.
     sbind (\<lambda>s. (generate_local_bundle C t (clock_ms C t) (identity_pk s) (identity_sk s) None 12, s)) (\<lambda>(upload, local).
     sbind (smod (\<lambda>s. s\<lparr> pqxdh_prekeys := Some local \<rparr>)) (\<lambda>_.
     sbind (save_pqxdh_prekeys C) (\<lambda>_. sret upload))))"

definition ensure_pqxdh_bundle_command :: "crypto \<Rightarrow> dict option ses" where
  "ensure_pqxdh_bundle_command C s = (case load_pqxdh_prekeys C s of (store, s1) \<Rightarrow>
     if store \<noteq> None then (Inr None, s1)
     else if identity_pk s1 = [] \<or> identity_sk s1 = [] then (Inr None, s1)
     else sbind (new_bundle C) (\<lambda>upload. sret (Some upload)) s1)"

text \<open>The one-time prekeys of a store, signed again for the upload, in the order of their names.\<close>

definition curve_otk_upload :: "crypto \<Rightarrow> bytes \<Rightarrow> string \<times> json \<Rightarrow> json res" where
  "curve_otk_upload C isk kv =
     rbind (py_int (JStr (fst kv))) (\<lambda>kid.
     rbind (as_dict (snd kv)) (\<lambda>item.
     rbind (b64d_json (dget item ''pk'' (JStr []))) (\<lambda>pk.
     rbind (sign_prekey C isk ''curve-otk'' kid ''X25519'' pk) (\<lambda>sig.
     Inr (JObj [(''key_id'', JInt kid), (''public_key'', JStr (b64e pk)), (''signature'', JStr (b64e sig))])))))"

definition pq_otk_upload :: "crypto \<Rightarrow> bytes \<Rightarrow> string \<Rightarrow> string \<times> json \<Rightarrow> json res" where
  "pq_otk_upload C isk pq_alg kv =
     rbind (py_int (JStr (fst kv))) (\<lambda>kid.
     rbind (as_dict (snd kv)) (\<lambda>item.
     let alg = py_str (py_or (dget item ''alg'' (JStr pq_alg)) (JStr pq_alg))
     in rbind (b64d_json (dget item ''pk'' (JStr []))) (\<lambda>pk.
        rbind (sign_prekey C isk ''pq-otk'' kid alg pk) (\<lambda>sig.
        Inr (JObj [(''key_id'', JInt kid), (''alg'', JStr alg), (''public_key'', JStr (b64e pk)),
                   (''signature'', JStr (b64e sig))])))))"

definition dict_or_empty :: "dict \<Rightarrow> string \<Rightarrow> dict res" where
  "dict_or_empty d k = as_dict (py_or (dget d k JNull) (JObj []))"

definition signed_upload :: "crypto \<Rightarrow> bytes \<Rightarrow> bytes \<Rightarrow> int \<Rightarrow> bytes \<Rightarrow> int \<Rightarrow> string \<Rightarrow> bytes \<Rightarrow> dict res" where
  "signed_upload C ipk isk curve_id curve_pk pq_id pq_alg pq_pk =
     rbind (sign_prekey C isk ''curve-signed'' curve_id ''X25519'' curve_pk) (\<lambda>curve_sig.
     rbind (sign_prekey C isk ''pq-signed'' pq_id pq_alg pq_pk) (\<lambda>pq_sig.
     Inr [(''type'', JStr ''upload_pqxdh_bundle''), (''identity_pk'', JStr (b64e ipk)),
          (''curve_spk_id'', JInt curve_id), (''curve_spk'', JStr (b64e curve_pk)), (''curve_spk_sig'', JStr (b64e curve_sig)),
          (''pq_spk_id'', JInt pq_id), (''pq_kem_alg'', JStr pq_alg), (''pq_spk'', JStr (b64e pq_pk)),
          (''pq_spk_sig'', JStr (b64e pq_sig))]))"

definition store_upload :: "crypto \<Rightarrow> bytes \<Rightarrow> bytes \<Rightarrow> dict \<Rightarrow> dict option res" where
  "store_upload C ipk isk store =
     rbind (dict_or_empty store ''curve_signed'') (\<lambda>curve.
     rbind (dict_or_empty store ''pq_signed'') (\<lambda>pq.
     rbind (int_or_0 curve ''key_id'') (\<lambda>curve_id.
     rbind (int_or_0 pq ''key_id'') (\<lambda>pq_id.
     rbind (b64d_json (dget curve ''pk'' (JStr []))) (\<lambda>curve_pk.
     rbind (b64d_json (dget pq ''pk'' (JStr []))) (\<lambda>pq_pk.
     let pq_alg = py_str (py_or (dget pq ''alg'' (JStr [])) (JStr []))
     in if curve_id \<le> 0 \<or> pq_id \<le> 0 \<or> curve_pk = [] \<or> pq_pk = [] \<or> pq_alg = [] then Inr None
        else rbind (signed_upload C ipk isk curve_id curve_pk pq_id pq_alg pq_pk) (\<lambda>upload.
             rbind (dict_or_empty store ''curve_one_time'') (\<lambda>lc.
             rbind (rmap (curve_otk_upload C isk) (sort_items lc)) (\<lambda>uc.
             rbind (dict_or_empty store ''pq_one_time'') (\<lambda>lq.
             rbind (rmap (pq_otk_upload C isk pq_alg) (sort_items lq)) (\<lambda>uq.
             Inr (Some (upload @ [(''curve_one_time_prekeys'', JArr uc), (''pq_one_time_prekeys'', JArr uq)])))))))))))))"

definition current_pqxdh_bundle_command :: "crypto \<Rightarrow> dict option ses" where
  "current_pqxdh_bundle_command C s = (case load_pqxdh_prekeys C s of
       (Some (kv # rest), s1) \<Rightarrow>
         let store = kv # rest
         in sbind (\<lambda>s. if identity_sk s = [] then load_or_create_identity_key C s else (Inr (), s)) (\<lambda>_ s.
            if identity_sk s = [] then (Inr None, s)
            else case (if identity_pk s \<noteq> [] then Inr (identity_pk s) else b64d_json (dget store ''identity_pk'' (JStr []))) of
                   Inl e \<Rightarrow> (Inl e, s)
                 | Inr ipk \<Rightarrow> if ipk = [] then (Inr None, s) else (store_upload C ipk (identity_sk s) store, s)) s1
     | (_, s1) \<Rightarrow> ensure_pqxdh_bundle_command C s1)"

definition fresh_pqxdh_bundle_command :: "crypto \<Rightarrow> dict option ses" where
  "fresh_pqxdh_bundle_command C =
     sbind (\<lambda>s. if identity_sk s = [] then load_or_create_identity_key C s else (Inr (), s)) (\<lambda>_ s.
       if identity_pk s = [] \<or> identity_sk s = [] then (Inr None, s)
       else sbind (new_bundle C) (\<lambda>upload. sret (Some upload)) s)"

subsection \<open>The identity record on the server\<close>

definition seal_key :: "crypto \<Rightarrow> bytes \<Rightarrow> string ses" where
  "seal_key C key = sbind (draw 1) (\<lambda>t s.
     (encrypt_key_with_master C (os_random C t 12) (clock_ms C t) (master_key s) key, s))"

definition current_identity_key_record_command :: "crypto \<Rightarrow> dict option ses" where
  "current_identity_key_record_command C s =
     (if master_key s = [] \<or> identity_pk s = [] \<or> identity_sk s = [] then (Inr None, s)
      else sbind (slift (identity_sign C (identity_sk s) (identity_pk s))) (\<lambda>sig.
           sbind (seal_key C (identity_sk s)) (\<lambda>enc.
           sret (Some [(''type'', JStr ''upload_keys''), (''identity_pk'', JStr (b64encode (identity_pk s))),
                       (''identity_sig'', JStr (b64encode sig)), (''identity_sk_enc'', JStr enc)]))) s)"

definition new_identity_key_record_command :: "crypto \<Rightarrow> dict option ses" where
  "new_identity_key_record_command C = current_identity_key_record_command C"

text \<open>The public key the server claims, in either Base64 alphabet.\<close>

definition claimed_key :: "json \<Rightarrow> bytes res" where
  "claimed_key j = rcatch (rbind (as_str j) b64decode) (\<lambda>_. b64d_json j)"

definition restore_identity_secret :: "crypto \<Rightarrow> json \<Rightarrow> json \<Rightarrow> unit ses" where
  "restore_identity_secret C enc claimed =
     sbind (\<lambda>s. (rbind (as_str enc) (decrypt_key_with_master C (master_key s)), s)) (\<lambda>sk.
     sbind (slift (identity_pk_from_sk C sk)) (\<lambda>pk.
     sbind (slift (if truthy claimed
                   then rbind (claimed_key claimed) (\<lambda>server_pk.
                        rguard (server_pk \<noteq> pk) (CryptoStateError ''Server identity backup does not match public identity'') (Inr ()))
                   else Inr ())) (\<lambda>_.
     sbind (smod (\<lambda>s. s\<lparr> identity_sk := sk, identity_pk := pk \<rparr>)) (\<lambda>_.
     save_identity_key C))))"

definition restore_identity_key_record :: "crypto \<Rightarrow> dict \<Rightarrow> dict ses" where
  "restore_identity_key_record C msg s =
     (if \<not> truthy (dget msg ''found'' JNull)
      then sbind (load_or_create_identity_key C) (\<lambda>_.
           sbind (new_identity_key_record_command C) (\<lambda>upload.
           sret [(''found'', JBool False), (''upload'', case upload of None \<Rightarrow> JNull | Some d \<Rightarrow> JObj d)])) s
      else let enc = py_or (dget msg ''identity_sk_enc'' (JStr [])) (JStr []);
               claimed = py_or (dget msg ''identity_pk'' (JStr [])) (JStr []);
               result = (\<lambda>restored. [(''found'', JBool True), (''identity_secret_restored'', JBool restored),
                                      (''identity_secret_backup_missing'', JBool (\<not> truthy enc))]);
               (restored, s1) = (if truthy enc
                                 then case restore_identity_secret C enc claimed s of (Inr _, t) \<Rightarrow> (True, t) | (Inl _, t) \<Rightarrow> (False, t)
                                 else (False, s))
           in if restored then (Inr (result True), s1)
              else sbind (load_or_create_identity_key C) (\<lambda>_. sret (result False)) s1)"

text \<open>\<open>glob("mls_*.bin")\<close>\<close>

definition is_mls_file :: "string \<Rightarrow> bool" where
  "is_mls_file name = (starts_with name ''mls_'' \<and> ends_with name ''.bin'')"

definition forget_mls :: "crypto_session \<Rightarrow> crypto_session" where
  "forget_mls s = remove_files (filter is_mls_file (map fst (disk s)))
     (s\<lparr> mls_identity_ready := False, mls_credential_identity_b64 := [], mls_group_ready := {}, mls_handshake_seen := {},
         mls_bridge := False, mls_proc := None \<rparr>)"

definition rotate_identity_commands :: "crypto \<Rightarrow> (dict \<times> dict) ses" where
  "rotate_identity_commands C s =
     (if master_key s = [] then (Inl (CryptoStateError ''Master key is not available''), s)
      else sbind (create_identity_key C) (\<lambda>_.
           sbind (new_identity_key_record_command C) (\<lambda>upload.
           case upload of
             None \<Rightarrow> sraise (CryptoStateError ''Could not build the rotated key bundle'')
           | Some keys \<Rightarrow>
               sbind (new_bundle C) (\<lambda>bundle.
               sbind (smod forget_mls) (\<lambda>_.
               sret (dset keys ''type'' (JStr ''rotate_identity''), bundle))))) s)"

subsection \<open>The identity key on disk\<close>

lemma draw_run [simp]: "draw n s = (Inr (tick s), s\<lparr> tick := tick s + n \<rparr>)"
  by (simp add: draw_def)

lemma draw_then [simp]: "sbind (draw n) f s = f (tick s) (s\<lparr> tick := tick s + n \<rparr>)"
  by (simp add: sbind_def)

lemma sbind_read: "sbind (\<lambda>s. (g s, s)) f s = (case g s of Inl e \<Rightarrow> (Inl e, s) | Inr x \<Rightarrow> f x s)"
  by (simp add: sbind_def)

lemma read_identity_stored:
  assumes "stores C s identity_key_path (b64encode sk)" and "length sk = 32"
  shows "read_identity_key C s = (Inr (), s\<lparr> identity_sk := sk, identity_pk := ed_pub C sk \<rparr>)"
  using assms by (simp add: read_identity_key_def sbind_def stores_def identity_pk_from_sk_def)

lemma read_identity_ok:
  assumes "read_identity_key C s = (Inr (), s')"
  shows "rbind (read_sealed C s identity_key_path) b64decode = Inr (identity_sk s')" and "length (identity_sk s') = 32"
    and "identity_pk s' = ed_pub C (identity_sk s')" and "disk s' = disk s" and "s' = s\<lparr> identity_sk := identity_sk s', identity_pk := identity_pk s' \<rparr>"
  using assms by (auto simp: read_identity_key_def sbind_eq_Inr identity_pk_from_sk_def ed_private_def rguard_def simp del: rbind_eq_Inr split: if_splits)

lemma read_identity_cong:
  assumes "read_identity_key C s = (Inr (), s')" and "disk t = disk s" and "master_key t = master_key s"
  shows "read_identity_key C t = (Inr (), t\<lparr> identity_sk := identity_sk s', identity_pk := identity_pk s' \<rparr>)"
proof -
  have "rbind (read_sealed C t identity_key_path) b64decode = Inr (identity_sk s')"
    using read_identity_ok(1) [OF assms(1)] read_sealed_cong [of t identity_key_path s C] assms(2,3) by simp
  then show ?thesis
    using read_identity_ok(2,3) [OF assms(1)]
    by (simp add: read_identity_key_def sbind_def identity_pk_from_sk_def del: rbind_eq_Inr)
qed

lemma saved_identity:
  assumes "key_ok C s" and "can_store s" and "identity_sk s \<noteq> []"
  obtains s' where "save_identity_key C s = (Inr (), s')" and "stores C s' identity_key_path (b64encode (identity_sk s))"
    and "s' = s\<lparr> tick := tick s + 1, disk := disk s' \<rparr>"
proof -
  obtain s' where "write_sealed C identity_key_path (b64encode (identity_sk s)) s = (Inr (), s')"
      "stores C s' identity_key_path (b64encode (identity_sk s))" "s' = s\<lparr> tick := tick s + 1, disk := disk s' \<rparr>"
    by (rule write_stores [OF assms(1), of "b64encode (identity_sk s)" identity_key_path]) (auto simp: ascii_utf8)
  then show ?thesis using that assms(2,3) by (simp add: save_identity_key_def)
qed

lemma created_identity:
  assumes "key_ok C s" and "can_store s"
  obtains s' where "create_identity_key C s = (Inr (), s')" and "stores C s' identity_key_path (b64encode (ed_seed C (tick s)))"
    and "s' = s\<lparr> identity_pk := ed_pub C (ed_seed C (tick s)), identity_sk := ed_seed C (tick s), tick := tick s + 2, disk := disk s' \<rparr>"
proof -
  let ?s = "s\<lparr> tick := tick s + 1, identity_pk := ed_pub C (ed_seed C (tick s)), identity_sk := ed_seed C (tick s) \<rparr>"
  have "length (ed_seed C (tick s)) = 32" using assms(1) by (simp add: key_ok_def sizes_okD)
  then have "ed_seed C (tick s) \<noteq> []" by auto
  moreover have "key_ok C ?s" "can_store ?s" using assms by (simp_all add: key_ok_def can_store_def)
  ultimately obtain s' where "save_identity_key C ?s = (Inr (), s')"
      "stores C s' identity_key_path (b64encode (ed_seed C (tick s)))" "s' = ?s\<lparr> tick := tick s + 2, disk := disk s' \<rparr>"
    using saved_identity [of C ?s] by auto
  then show ?thesis using that by (simp add: create_identity_key_def sbind_def identity_keygen_def)
qed

text \<open>Whatever the file held before, after loading it holds the login's identity key.\<close>

lemma loaded_identity:
  assumes "key_ok C s" and "can_store s"
  obtains s' where "load_or_create_identity_key C s = (Inr (), s')" and "identity_pk s' = ed_pub C (identity_sk s')"
    and "length (identity_sk s') = 32" and "master_key s' = master_key s"
    and "\<And>t. disk t = disk s' \<Longrightarrow> master_key t = master_key s \<Longrightarrow>
           has_file identity_key_path t \<and> read_identity_key C t = (Inr (), t\<lparr> identity_sk := identity_sk s', identity_pk := identity_pk s' \<rparr>)"
proof (cases "has_file identity_key_path s \<and> fst (read_identity_key C s) = Inr ()")
  case True
  then obtain s' where r: "read_identity_key C s = (Inr (), s')" by (cases "read_identity_key C s") auto
  have "load_or_create_identity_key C s = (Inr (), s')"
    using True assms(2) r by (simp add: load_or_create_identity_key_def scatch_ok)
  moreover have "master_key s' = master_key s" by (subst read_identity_ok(5) [OF r]) simp
  moreover have "has_file identity_key_path t \<and> read_identity_key C t = (Inr (), t\<lparr> identity_sk := identity_sk s', identity_pk := identity_pk s' \<rparr>)"
    if "disk t = disk s'" "master_key t = master_key s" for t
    using that True read_identity_cong [OF r, of t] read_identity_ok(4) [OF r] by (simp add: has_file_def)
  ultimately show ?thesis using that read_identity_ok(2,3) [OF r] by blast
next
  case False
  define u where "u = (if has_file identity_key_path s then snd (read_identity_key C s) else s)"
  have u: "master_key u = master_key s" "secchat_dir u = secchat_dir s"
    by (auto simp: u_def read_identity_key_def sbind_def identity_pk_from_sk_def split: sum.splits)
  have "key_ok C u" "can_store u" using assms u by (simp_all add: key_ok_def can_store_def)
  then obtain s' where c: "create_identity_key C u = (Inr (), s')" "stores C s' identity_key_path (b64encode (ed_seed C (tick u)))"
      "s' = u\<lparr> identity_pk := ed_pub C (ed_seed C (tick u)), identity_sk := ed_seed C (tick u), tick := tick u + 2, disk := disk s' \<rparr>"
    by (rule created_identity)
  have id: "identity_sk s' = ed_seed C (tick u)" "identity_pk s' = ed_pub C (ed_seed C (tick u))" "master_key s' = master_key s"
    by (subst c(3), simp add: u)+
  have len: "length (ed_seed C (tick u)) = 32" using assms(1) by (simp add: key_ok_def sizes_okD)
  have "load_or_create_identity_key C s = (Inr (), s')"
  proof (cases "read_identity_key C s")
    case (Pair r v)
    with False assms(2) c(1) show ?thesis
      by (cases r) (auto simp: load_or_create_identity_key_def scatch_def u_def split: if_splits)
  qed
  moreover have "has_file identity_key_path t \<and> read_identity_key C t = (Inr (), t\<lparr> identity_sk := identity_sk s', identity_pk := identity_pk s' \<rparr>)"
    if "disk t = disk s'" "master_key t = master_key s" for t
  proof -
    have "stores C t identity_key_path (b64encode (ed_seed C (tick u)))"
      using stores_cong [OF c(2), of t] that id(3) by simp
    then show ?thesis using read_identity_stored [OF _ len] id by (simp add: stores_def)
  qed
  ultimately show ?thesis using that id len by simp
qed

text \<open>
  The identity survives a restart: whatever the identity file held, after
  \<open>load_or_create_identity_key\<close> the login has a key pair, and every later login on the same
  directory with the same master key loads the same key pair and writes nothing, so the safety
  numbers of the contacts stay as they were.
\<close>

theorem identity_key_survives_restart:
  assumes "key_ok C s" and "can_store s" and "load_or_create_identity_key C s = (r, s')"
    and "disk t = disk s'" and "master_key t = master_key s" and "can_store t"
  shows "identity_pk s' = ed_pub C (identity_sk s')
    \<and> load_or_create_identity_key C t = (Inr (), t\<lparr> identity_sk := identity_sk s', identity_pk := identity_pk s' \<rparr>)"
proof (rule loaded_identity [OF assms(1,2)])
  fix s''
  assume l: "load_or_create_identity_key C s = (Inr (), s'')" "identity_pk s'' = ed_pub C (identity_sk s'')"
    and later: "\<And>t. disk t = disk s'' \<Longrightarrow> master_key t = master_key s \<Longrightarrow>
      has_file identity_key_path t \<and> read_identity_key C t = (Inr (), t\<lparr> identity_sk := identity_sk s'', identity_pk := identity_pk s'' \<rparr>)"
  have "s'' = s'" using l(1) assms(3) by simp
  then have "has_file identity_key_path t" "read_identity_key C t = (Inr (), t\<lparr> identity_sk := identity_sk s', identity_pk := identity_pk s' \<rparr>)"
    using later [of t] assms(4,5) by simp_all
  then have "load_or_create_identity_key C t = (Inr (), t\<lparr> identity_sk := identity_sk s', identity_pk := identity_pk s' \<rparr>)"
    using assms(6) by (simp add: load_or_create_identity_key_def scatch_ok)
  with l(2) \<open>s'' = s'\<close> show ?thesis by simp
qed

subsection \<open>Prekeys are used up only by a handshake that succeeds\<close>

lemma load_prekeys_cases:
  obtains "load_pqxdh_prekeys C s = (None, s)"
  | store where "load_pqxdh_prekeys C s = (Some store, s\<lparr> pqxdh_prekeys := Some store \<rparr>)"
      and "pqxdh_prekeys s = Some store \<or> has_file pqxdh_prekeys_path s \<and> can_store s
        \<and> rbind (read_sealed_json C s pqxdh_prekeys_path) as_dict = Inr store"
proof (cases "pqxdh_prekeys s \<noteq> None \<and> pqxdh_prekeys s \<noteq> Some []")
  case True
  then show ?thesis using that(2) by (auto simp: load_pqxdh_prekeys_def)
next
  case False
  define x where "x = rbind (read_sealed_json C s pqxdh_prekeys_path) as_dict"
  have ld: "load_pqxdh_prekeys C s = (if \<not> can_store s \<or> \<not> has_file pqxdh_prekeys_path s then (None, s)
      else case x of Inl _ \<Rightarrow> (None, s) | Inr store \<Rightarrow> (Some store, s\<lparr> pqxdh_prekeys := Some store \<rparr>))"
    unfolding load_pqxdh_prekeys_def x_def using False by (simp only: if_False)
  show ?thesis
  proof (cases "can_store s \<and> has_file pqxdh_prekeys_path s \<and> (\<exists>y. x = Inr y)")
    case True
    then obtain store where "x = Inr store" by blast
    with True ld show ?thesis using that(2) [of store] by (simp add: x_def)
  next
    case False
    with ld show ?thesis using that(1) by (cases x) auto
  qed
qed

lemma load_prekeys_cong:
  assumes "pqxdh_prekeys t = pqxdh_prekeys s" "disk t = disk s" "master_key t = master_key s" "secchat_dir t = secchat_dir s"
  shows "fst (load_pqxdh_prekeys C t) = fst (load_pqxdh_prekeys C s)"
  using assms read_sealed_cong [of t pqxdh_prekeys_path s C]
  by (auto simp: load_pqxdh_prekeys_def can_store_def has_file_def read_sealed_json_def split: sum.splits)

lemma load_prekeys_again: "fst (load_pqxdh_prekeys C (snd (load_pqxdh_prekeys C s))) = fst (load_pqxdh_prekeys C s)"
proof (rule load_prekeys_cases [of C s])
  fix store
  assume l: "load_pqxdh_prekeys C s = (Some store, s\<lparr> pqxdh_prekeys := Some store \<rparr>)"
    and src: "pqxdh_prekeys s = Some store \<or> has_file pqxdh_prekeys_path s \<and> can_store s
        \<and> rbind (read_sealed_json C s pqxdh_prekeys_path) as_dict = Inr store"
  show ?thesis
  proof (cases "pqxdh_prekeys s = Some store")
    case True
    then show ?thesis using load_prekeys_cong [of "s\<lparr> pqxdh_prekeys := Some store \<rparr>" s C] l by simp
  next
    case False
    have "read_sealed C (s\<lparr> pqxdh_prekeys := Some u \<rparr>) pqxdh_prekeys_path = read_sealed C s pqxdh_prekeys_path" for u
      by (rule read_sealed_cong) simp_all
    then show ?thesis using src False l
      by (simp add: load_pqxdh_prekeys_def [of C "s\<lparr> pqxdh_prekeys := Some store \<rparr>"] can_store_def has_file_def read_sealed_json_def
            del: rbind_eq_Inr)
  qed
qed simp

lemma save_prekeys_then [simp]: "sbind (save_pqxdh_prekeys C) f s = f () (snd (save_pqxdh_prekeys C s))"
proof -
  have "fst (save_pqxdh_prekeys C s) = Inr ()" by (auto simp: save_pqxdh_prekeys_def split: option.splits list.splits)
  then show ?thesis by (cases "save_pqxdh_prekeys C s") (simp add: sbind_def)
qed

lemma respond_on_copy_err:
  assumes "respond_on_copy C body cand s = (Inl e, s')"
  shows "s' = s\<lparr> tick := tick s + 1 \<rparr>"
  using assms by (auto simp: respond_on_copy_def split: prod.splits sum.splits)

text \<open>
  A handshake message that fails costs no prekey: when \<open>_respond_pqxdh_with_current_prekey\<close>
  raises, for whatever reason and however far it got, the files are untouched and the store still
  offers every prekey it offered before.
\<close>

theorem failed_handshake_keeps_prekeys:
  assumes "respond_pqxdh_with_current_prekey C body s = (Inl e, s')"
  shows "disk s' = disk s \<and> fst (load_pqxdh_prekeys C s') = fst (load_pqxdh_prekeys C s)"
proof -
  obtain st s1 where l: "load_pqxdh_prekeys C s = (st, s1)" by fastforce
  have s1: "s1 = s\<lparr> pqxdh_prekeys := pqxdh_prekeys s1 \<rparr>" by (rule load_prekeys_cases [of C s]) (use l in auto)
  have "s' = s1 \<or> s' = s1\<lparr> tick := tick s1 + 1 \<rparr>"
    using assms respond_on_copy_err [of C body _ s1 e s'] l
    by (auto simp: respond_pqxdh_with_current_prekey_def sbind_def split: option.splits list.splits sum.splits)
  then have "fst (load_pqxdh_prekeys C s') = fst (load_pqxdh_prekeys C s1)" "disk s' = disk s1"
    using load_prekeys_cong [of s' s1 C] by auto
  moreover have "fst (load_pqxdh_prekeys C s1) = fst (load_pqxdh_prekeys C s)" using load_prekeys_again [of C s] l by simp
  moreover have "disk s1 = disk s" by (subst s1) simp
  ultimately show ?thesis by simp
qed

text \<open>A store that is written and read back unchanged: well-formed texts and distinct names throughout.\<close>

definition store_ok :: "dict \<Rightarrow> bool" where
  "store_ok st = (json_ok (JObj st) \<and> json_utf8 (JObj st))"

lemma store_ok_dset:
  assumes "store_ok st" and "json_ok v" and "json_utf8 v" and "utf8_valid k"
  shows "store_ok (dset st k v)"
  using assms by (fastforce simp: store_ok_def list_all_iff dest: set_dset)

lemma store_ok_dpop: "store_ok d \<Longrightarrow> store_ok (dpop d k)"
  by (auto simp: store_ok_def list_all_iff AList.delete_eq distinct_map_filter)

lemma store_ok_clone: "store_ok st \<Longrightarrow> clone_pqxdh_prekey_store st = Inr st"
  unfolding clone_pqxdh_prekey_store_def store_ok_def by (simp only: loads_dumps_ascii rbind_Inr as_dict_JObj)

lemma store_ok_coll: "store_ok st \<Longrightarrow> map_of st coll = Some (JObj d) \<Longrightarrow> store_ok d \<and> utf8_valid coll"
proof -
  assume ok: "store_ok st" and "map_of st coll = Some (JObj d)"
  then have "(coll, JObj d) \<in> set st" by (simp add: map_of_SomeD)
  with ok have "json_ok (JObj d)" "json_utf8 (JObj d)" "utf8_valid coll" unfolding store_ok_def by (fastforce simp: list_all_iff)+
  then show ?thesis by (simp only: store_ok_def)
qed

lemma pop_otk_ok: "preserves store_ok (pop_otk coll kid)"
  unfolding preserves_def
proof (intro allI impI)
  fix st assume ok: "store_ok st"
  show "store_ok (snd (pop_otk coll kid st))"
  proof (cases "\<exists>d. map_of st coll = Some (JObj d)")
    case True
    then obtain d where d: "map_of st coll = Some (JObj d)" by blast
    have "store_ok (dpop d (show_int kid))" using store_ok_dpop store_ok_coll [OF ok d] by blast
    then show ?thesis
      using store_ok_dset [OF ok, of "JObj (dpop d (show_int kid))" coll] store_ok_coll [OF ok d] d
      by (simp add: pop_otk_def store_ok_def)
  qed (use ok in \<open>auto simp: pop_otk_def split: option.splits json.splits\<close>)
qed

lemma respond_keeps_store_ok: "preserves store_ok (pqxdh_respond C new_sk sid_bytes me wire)"
proof -
  have signed: "preserves store_ok (signed_key k)" for k by (simp add: signed_key_def preserves_def)
  have "preserves store_ok (take_curve_otk kid)" "preserves store_ok (take_pq_key kid)" for kid
    by (auto simp: take_curve_otk_def take_pq_key_def intro!: preserves_sbind pop_otk_ok preserves_if signed)
  then have "preserves store_ok (respond_keys C obj)" for obj
    unfolding respond_keys_def by (auto intro!: preserves_sbind signed)
  then show ?thesis unfolding pqxdh_respond_def by (auto intro!: preserves_sbind split: prod.split)
qed

lemma respond_leaves_identity:
  assumes "pqxdh_respond C new_sk sid_bytes me wire st = (Inr r, popped)"
  shows "popped \<noteq> []"
proof
  assume "popped = []"
  with assms show False by (auto simp: pqxdh_respond_def sbind_eq_Inr key_field_def dkey_def split: prod.splits)
qed

lemma saved_prekeys:
  assumes "key_ok C s" and "can_store s" and "pqxdh_prekeys s = Some store" and "store \<noteq> []" and "store_ok store"
  obtains s' where "save_pqxdh_prekeys C s = (Inr (), s')" and "stores C s' pqxdh_prekeys_path (dumps_compact (JObj store))"
    and "s' = s\<lparr> tick := tick s + 1, disk := disk s' \<rparr>"
proof -
  have "utf8_valid (dumps_compact (JObj store))"
    using assms(5) by (simp add: store_ok_def del: json_text.simps json_ok.simps)
  then obtain s' where "write_sealed C pqxdh_prekeys_path (dumps_compact (JObj store)) s = (Inr (), s')"
      "stores C s' pqxdh_prekeys_path (dumps_compact (JObj store))" "s' = s\<lparr> tick := tick s + 1, disk := disk s' \<rparr>"
    by (rule write_stores [OF assms(1), of _ pqxdh_prekeys_path]) blast
  then show ?thesis using that assms(2-4) by (cases store) (simp_all add: save_pqxdh_prekeys_def)
qed

lemma stored_prekeys_load:
  assumes "stores C t pqxdh_prekeys_path (dumps_compact (JObj store))" and "store_ok store" and "can_store t" and "pqxdh_prekeys t = None"
  shows "load_pqxdh_prekeys C t = (Some store, t\<lparr> pqxdh_prekeys := Some store \<rparr>)"
proof -
  have "loads (dumps_compact (JObj store)) = Inr (JObj store)" using assms(2) by (simp add: store_ok_def del: json_ok.simps)
  then have "rbind (read_sealed_json C t pqxdh_prekeys_path) as_dict = Inr store"
    using assms(1) by (simp add: stores_def read_sealed_json_def)
  then show ?thesis using assms(1,3,4) by (simp add: load_pqxdh_prekeys_def stores_def del: rbind_eq_Inr)
qed

text \<open>
  C39: (roundtrip) Prekeys that a handshake used up stay used: after a handshake message was accepted, the store is
  the one before without the two one-time prekeys the message names (an id that is not positive names
  none), and nothing else in it has changed; a new login on the same directory with the same master key
  loads exactly this store, never an older one that still holds them.
\<close>

theorem used_prekeys_stay_used:
  assumes "key_ok C s" and "can_store s" and "pqxdh_prekeys s = Some store" and "store_ok store" and "store \<noteq> []"
    and "respond_pqxdh_with_current_prekey C body s = (Inr result, s')"
    and "disk t = disk s'" and "master_key t = master_key s" and "can_store t" and "pqxdh_prekeys t = None"
  shows "\<exists>obj i j. unwrap_wire PREFIX_PQ_INIT body = Inr obj
    \<and> py_int (dget obj ''curve_otk_id'' (JInt (- 1))) = Inr i \<and> py_int (dget obj ''pq_otk_id'' (JInt (- 1))) = Inr j
    \<and> pqxdh_prekeys s' = Some (without_otk ''pq_one_time'' j (without_otk ''curve_one_time'' i store))
    \<and> fst (load_pqxdh_prekeys C t) = pqxdh_prekeys s'"
proof -
  let ?u = "s\<lparr> tick := tick s + 1 \<rparr>"
  let ?p = "pqxdh_respond C (x_seed C (tick s)) (os_random C (tick s) 16) (Some (uid s)) body store"
  have run: "respond_on_copy C body store s = (Inr result, s')"
    using assms(3,5,6) store_ok_clone [OF assms(4)]
    by (cases store) (auto simp: respond_pqxdh_with_current_prekey_def load_pqxdh_prekeys_def)
  define popped where "popped = snd ?p"
  obtain r where p: "?p = (Inr r, popped)" using run
    by (cases ?p) (auto simp: respond_on_copy_def popped_def split: sum.splits)
  have pop: "popped \<noteq> []" "store_ok popped"
    using respond_leaves_identity [OF p] preservesD [OF respond_keeps_store_ok assms(4)] by (simp_all add: popped_def)
  let ?v = "?u\<lparr> pqxdh_prekeys := Some popped \<rparr>"
  have "key_ok C ?v" "can_store ?v" "pqxdh_prekeys ?v = Some popped" using assms(1,2) by (simp_all add: key_ok_def can_store_def)
  then obtain v where v: "save_pqxdh_prekeys C ?v = (Inr (), v)" "stores C v pqxdh_prekeys_path (dumps_compact (JObj popped))"
      "v = ?v\<lparr> tick := tick ?v + 1, disk := disk v \<rparr>"
    using pop by (rule saved_prekeys)
  have "s' = v" using run p v(1) by (simp add: respond_on_copy_def)
  moreover have "pqxdh_prekeys v = Some popped" "master_key v = master_key s" by (subst v(3), simp)+
  moreover have "distinct (map fst store)" using assms(4) by (simp add: store_ok_def)
  ultimately show ?thesis
    using respond_without [OF p] stored_prekeys_load [OF stores_cong [OF v(2), of t] pop(2) assms(9,10)] assms(7,8) by auto
qed

subsection \<open>Generated stores\<close>

lemma otk_loop_store_ok:
  assumes "otk_loop C alg isk base t i n (lc, uc, lq, uq) = Inr (lc', uc', lq', uq')" and "is_ascii alg" and "store_ok lc" and "store_ok lq"
  shows "store_ok lc' \<and> store_ok lq'"
  using assms(1,3,4)
proof (induction n arbitrary: i lc uc lq uq)
  case (Suc n)
  then obtain cpk csk qpk qsk uc1 uq1 where
    "otk_loop C alg isk base t (i + 1) n
       (dset lc (show_int (base + int i + 1)) (JObj [(''pk'', JStr (b64e cpk)), (''sk'', JStr (b64e csk))]), uc1,
        dset lq (show_int (base + int i + 1)) (JObj [(''alg'', JStr alg), (''pk'', JStr (b64e qpk)), (''sk'', JStr (b64e qsk))]), uq1)
     = Inr (lc', uc', lq', uq')"
    by (auto simp: Let_def split: prod.splits)
  moreover have "store_ok (dset lc (show_int (base + int i + 1)) (JObj [(''pk'', JStr (b64e cpk)), (''sk'', JStr (b64e csk))]))"
    using Suc.prems(2) by (rule store_ok_dset) (simp_all add: ascii_utf8)
  moreover have "store_ok (dset lq (show_int (base + int i + 1)) (JObj [(''alg'', JStr alg), (''pk'', JStr (b64e qpk)), (''sk'', JStr (b64e qsk))]))"
    using Suc.prems(3) by (rule store_ok_dset) (simp_all add: assms(2) ascii_utf8)
  ultimately show ?case by (rule Suc.IH)
qed simp

lemma generated_store_ok:
  assumes "generate_local_bundle C t now ipk isk p n = Inr (upload, store)"
  shows "store_ok store" and "store \<noteq> []"
proof -
  let ?base = "new_key_id now" and ?sk = "x_seed C t"
  from assms obtain alg qpk qsk qsig lc uc lq uq where
    g: "otk_loop C alg isk ?base t 0 n ([], [], [], []) = Inr (lc, uc, lq, uq)" "sign_prekey C isk ''pq-signed'' ?base alg qpk = Inr qsig"
    and st: "store = [(''identity_pk'', JStr (b64e ipk)),
              (''curve_signed'', JObj [(''key_id'', JInt ?base), (''pk'', JStr (b64e (x_pub C ?sk))), (''sk'', JStr (b64e ?sk))]),
              (''pq_signed'', JObj [(''key_id'', JInt ?base), (''alg'', JStr alg), (''pk'', JStr (b64e qpk)), (''sk'', JStr (b64e qsk))]),
              (''curve_one_time'', JObj lc), (''pq_one_time'', JObj lq)]"
    by (auto simp: generate_local_bundle_def x25519_keygen_def kem_keygen_def Let_def)
  have alg: "is_ascii alg" using g(2) by (auto simp: sign_prekey_def sig_msg_def ascii_encode_def split: if_splits)
  have "store_ok lc \<and> store_ok lq" by (rule otk_loop_store_ok [OF g(1) alg]) (simp_all add: store_ok_def)
  then show "store_ok store" "store \<noteq> []" by (simp_all add: st store_ok_def alg ascii_utf8)
qed

lemma respond_with_store:
  assumes "pqxdh_prekeys s = Some store" and "store \<noteq> []" and "store_ok store"
  shows "respond_pqxdh_with_current_prekey C body s = respond_on_copy C body store s"
  using assms store_ok_clone [OF assms(3)]
  by (cases store) (simp_all add: respond_pqxdh_with_current_prekey_def load_pqxdh_prekeys_def)

subsection \<open>The identity on the server\<close>

lemma b64encode_eq_Nil [simp]: "b64encode b = [] \<longleftrightarrow> b = []"
proof
  assume "b64encode b = []"
  then show "b = []" using b64decode_b64encode [of b] by (simp add: b64decode_def)
qed (simp add: b64encode_def b64_pad_def)

lemma save_identity_effect:
  obtains d k where "save_identity_key C s = (Inr (), s\<lparr> tick := k, disk := d \<rparr>)"
proof (cases "\<not> can_store s \<or> identity_sk s = []")
  case True
  then show ?thesis using that [of "disk s" "tick s"] by (simp add: save_identity_key_def)
next
  case False
  obtain d where "snd (write_sealed C identity_key_path (b64encode (identity_sk s)) s) = s\<lparr> tick := tick s + 1, disk := d \<rparr>"
    by (rule write_sealed_effect)
  then show ?thesis using that [of d "tick s + 1"] False by (simp add: save_identity_key_def)
qed

text \<open>What the sealed backup of the secret key opens to.\<close>

lemma sealed_key_opens:
  assumes "key_ok C s" and "encrypt_key_with_master C (os_random C t 12) now (master_key s) sk = Inr enc"
  shows "decrypt_key_with_master C (master_key s) enc = Inr sk" and "enc \<noteq> []"
proof -
  have "open_at_rest C (master_key s) enc = Inr (b64encode sk)"
    by (rule open_at_rest_sealed [OF seal_ok_tick [OF assms(1), of t] _ assms(2) [unfolded encrypt_key_with_master_def]]) (simp add: ascii_utf8)
  then show "decrypt_key_with_master C (master_key s) enc = Inr sk" by (simp add: decrypt_key_with_master_def)
  have "os_random C t 12 \<noteq> []" using assms(1) sizes_okD(3) [of C t 12] by (auto simp: key_ok_def)
  then show "enc \<noteq> []" using assms(2) by (auto simp: encrypt_key_with_master_def encrypt_with_key_def Let_def)
qed

lemma identity_record_made:
  assumes "key_ok C s" and "identity_pk s = ed_pub C (identity_sk s)" and "length (identity_sk s) = 32"
  obtains enc where "encrypt_key_with_master C (os_random C (tick s) 12) (clock_ms C (tick s)) (master_key s) (identity_sk s) = Inr enc"
    and "current_identity_key_record_command C s = (Inr (Some [(''type'', JStr ''upload_keys''),
       (''identity_pk'', JStr (b64encode (identity_pk s))),
       (''identity_sig'', JStr (b64encode (ed_sign C (identity_sk s) (identity_pk s)))), (''identity_sk_enc'', JStr enc)]),
       s\<lparr> tick := tick s + 1 \<rparr>)"
proof -
  have sz: "length (os_random C (tick s) 12) = 12" "length (ed_pub C (identity_sk s)) = 32" "length (master_key s) = 32"
    using assms(1) by (simp_all add: key_ok_def sizes_okD)
  then obtain enc where "encrypt_key_with_master C (os_random C (tick s) 12) (clock_ms C (tick s)) (master_key s) (identity_sk s) = Inr enc"
    using encrypt_with_key_total unfolding encrypt_key_with_master_def by blast
  moreover have "master_key s \<noteq> []" "identity_pk s \<noteq> []" "identity_sk s \<noteq> []" using sz assms(2,3) by auto
  ultimately show ?thesis
    using that assms(3) by (simp add: current_identity_key_record_command_def seal_key_def sbind_def identity_sign_def)
qed

text \<open>
  The identity can be restored on another device: the record that one device publishes
  makes every login with the same master key, whatever key it had, take over exactly that key pair;
  and when the server returns the record with another public key, the secret is not taken over and
  the login keeps its own identity.
\<close>

theorem identity_record_restores:
  assumes "key_ok C s" and "identity_pk s = ed_pub C (identity_sk s)" and "length (identity_sk s) = 32"
    and "current_identity_key_record_command C s = (Inr (Some d), s1)"
    and "master_key t = master_key s" and "pk \<noteq> []"
  shows "\<exists>t'. restore_identity_key_record C (dset (dset d ''found'' (JBool True)) ''identity_pk'' (JStr (b64encode pk))) t
      = (Inr [(''found'', JBool True), (''identity_secret_restored'', JBool (pk = identity_pk s)), (''identity_secret_backup_missing'', JBool False)], t')
    \<and> (if pk = identity_pk s then identity_sk t' = identity_sk s \<and> identity_pk t' = identity_pk s
       else t' = snd (load_or_create_identity_key C t))"
proof -
  obtain enc where e: "encrypt_key_with_master C (os_random C (tick s) 12) (clock_ms C (tick s)) (master_key s) (identity_sk s) = Inr enc"
    and d: "d = [(''type'', JStr ''upload_keys''), (''identity_pk'', JStr (b64encode (identity_pk s))),
       (''identity_sig'', JStr (b64encode (ed_sign C (identity_sk s) (identity_pk s)))), (''identity_sk_enc'', JStr enc)]"
    by (rule identity_record_made [OF assms(1-3)]) (use assms(4) in auto)
  note op = sealed_key_opens [OF assms(1) e]
  let ?m = "dset (dset d ''found'' (JBool True)) ''identity_pk'' (JStr (b64encode pk))"
  have ne: "b64encode pk \<noteq> []" using assms(6) by simp
  have f: "dget ?m ''found'' JNull = JBool True" "py_or (dget ?m ''identity_sk_enc'' (JStr [])) (JStr []) = JStr enc"
     "py_or (dget ?m ''identity_pk'' (JStr [])) (JStr []) = JStr (b64encode pk)"
    using op(2) ne by (simp_all add: d dget_def py_or_def)
  have cl: "claimed_key (JStr (b64encode pk)) = Inr pk" by (simp add: claimed_key_def as_str_def rcatch_def)
  have load: "fst (load_or_create_identity_key C u) = Inr ()" for u
    by (auto simp: load_or_create_identity_key_def scatch_def create_identity_key_def save_identity_key_def split: prod.splits sum.splits)
  have r: "restore_identity_secret C (JStr enc) (JStr (b64encode pk)) t
      = (if pk = identity_pk s then save_identity_key C (t\<lparr> identity_sk := identity_sk s, identity_pk := identity_pk s \<rparr>)
         else (Inl (CryptoStateError ''Server identity backup does not match public identity''), t))"
    using op(1) ne cl assms(2,3,5)
    by (simp add: restore_identity_secret_def sbind_def as_str_def identity_pk_from_sk_def truthy_def)
  show ?thesis
  proof (cases "pk = identity_pk s")
    case True
    let ?t = "t\<lparr> identity_sk := identity_sk s, identity_pk := identity_pk s \<rparr>"
    obtain t' where w: "save_identity_key C ?t = (Inr (), t')" "identity_sk t' = identity_sk s" "identity_pk t' = identity_pk s"
      by (rule save_identity_effect [of C ?t]) auto
    then show ?thesis using True r f op(2) by (simp add: restore_identity_key_record_def truthy_def Let_def)
  next
    case False
    obtain t' where "load_or_create_identity_key C t = (Inr (), t')" using load [of t] by (cases "load_or_create_identity_key C t") auto
    then show ?thesis using False r f op(2) by (simp add: restore_identity_key_record_def truthy_def Let_def sbind_def)
  qed
qed

subsection \<open>Rotation\<close>

lemma bundle_made:
  assumes "kem_ready C" and "length (identity_sk s) = 32"
  obtains upload local where "generate_local_bundle C (tick s) (clock_ms C (tick s)) (identity_pk s) (identity_sk s) None 12 = Inr (upload, local)"
    and "new_bundle C s = (Inr upload, snd (save_pqxdh_prekeys C (s\<lparr> tick := tick s + 13, pqxdh_prekeys := Some local \<rparr>)))"
proof -
  obtain upload local where "generate_local_bundle C (tick s) (clock_ms C (tick s)) (identity_pk s) (identity_sk s) None 12 = Inr (upload, local)"
    using generate_local_bundle_total [OF assms] by blast
  then show ?thesis using that by (simp add: new_bundle_def sbind_read)
qed

lemma save_prekeys_keeps:
  obtains d k where "snd (save_pqxdh_prekeys C s) = s\<lparr> tick := k, disk := d \<rparr>"
proof (cases "\<exists>kv store. pqxdh_prekeys s = Some (kv # store) \<and> can_store s")
  case True
  then obtain kv store where s: "pqxdh_prekeys s = Some (kv # store)" "can_store s" by blast
  obtain d where "snd (write_sealed C pqxdh_prekeys_path (dumps_compact (JObj (kv # store))) s) = s\<lparr> tick := tick s + 1, disk := d \<rparr>"
    by (rule write_sealed_effect)
  then show ?thesis using that [of d "tick s + 1"] s by (simp add: save_pqxdh_prekeys_def)
next
  case False
  then show ?thesis using that [of "disk s" "tick s"] by (auto simp: save_pqxdh_prekeys_def split: option.splits list.splits)
qed

lemma remove_files_keeps: "\<exists>d. remove_files ns s = s\<lparr> disk := d \<rparr>"
proof (induction ns arbitrary: s)
  case Nil
  have "remove_files [] s = s\<lparr> disk := disk s \<rparr>" by simp
  then show ?case by blast
next
  case (Cons n ns)
  obtain d where "remove_files ns (remove_file n s) = (remove_file n s)\<lparr> disk := d \<rparr>" using Cons by blast
  then have "remove_files (n # ns) s = s\<lparr> disk := d \<rparr>" by (simp add: remove_file_def)
  then show ?case by blast
qed

lemma forget_mls_forgets: "is_mls_file n \<Longrightarrow> \<not> has_file n (forget_mls s)"
  by (simp only: forget_mls_def remove_files_effect(2)) (auto simp: has_file_names)

text \<open>
  Rotating the identity always succeeds when a KEM is available and publishes a complete new
  identity: a fresh key pair, its self-signature and a prekey bundle that verify under the new public key,
  both naming that key; and no group state of the old identity is left in memory or on disk.
\<close>

theorem rotation_publishes_new_identity:
  assumes "crypto_ok C" and "kem_ready C" and "key_ok C s" and "can_store s"
  shows "\<exists>keys bundle s' sig. rotate_identity_commands C s = (Inr (keys, bundle), s')
    \<and> identity_sk s' = ed_seed C (tick s) \<and> identity_pk s' = ed_pub C (ed_seed C (tick s))
    \<and> dget keys ''type'' JNull = JStr ''rotate_identity'' \<and> dget keys ''identity_pk'' JNull = JStr (b64encode (identity_pk s'))
    \<and> dget keys ''identity_sig'' JNull = JStr (b64encode sig) \<and> identity_verify C (identity_pk s') (identity_pk s') sig = Inr ()
    \<and> verify_bundle C (server_bundle bundle None None) = Inr () \<and> dget bundle ''identity_pk'' JNull = JStr (b64e (identity_pk s'))
    \<and> mls_group_ready s' = {} \<and> \<not> mls_identity_ready s' \<and> (\<forall>n. is_mls_file n \<longrightarrow> \<not> has_file n s')"
proof -
  let ?sk = "ed_seed C (tick s)"
  note sz = sizes_okD [OF crypto_okD(5) [OF assms(1)]]
  obtain s1 where c: "create_identity_key C s = (Inr (), s1)"
      "s1 = s\<lparr> identity_pk := ed_pub C ?sk, identity_sk := ?sk, tick := tick s + 2, disk := disk s1 \<rparr>"
    by (rule created_identity [OF assms(3,4)])
  have s1: "key_ok C s1" "identity_pk s1 = ed_pub C ?sk" "identity_sk s1 = ?sk" "length (identity_sk s1) = 32"
    using assms(3) sz(6) by (subst c(2), simp add: key_ok_def)+
  obtain enc where r: "current_identity_key_record_command C s1 = (Inr (Some [(''type'', JStr ''upload_keys''),
       (''identity_pk'', JStr (b64encode (identity_pk s1))),
       (''identity_sig'', JStr (b64encode (ed_sign C (identity_sk s1) (identity_pk s1)))), (''identity_sk_enc'', JStr enc)]),
       s1\<lparr> tick := tick s1 + 1 \<rparr>)"
    by (rule identity_record_made [OF s1(1)]) (use s1 in simp_all)
  let ?s2 = "s1\<lparr> tick := tick s1 + 1 \<rparr>"
  obtain upload local where g: "generate_local_bundle C (tick ?s2) (clock_ms C (tick ?s2)) (identity_pk ?s2) (identity_sk ?s2) None 12 = Inr (upload, local)"
    "new_bundle C ?s2 = (Inr upload, snd (save_pqxdh_prekeys C (?s2\<lparr> tick := tick ?s2 + 13, pqxdh_prekeys := Some local \<rparr>)))"
    by (rule bundle_made [OF assms(2), of ?s2]) (use s1 in simp_all)
  obtain d k where sv: "snd (save_pqxdh_prekeys C (?s2\<lparr> tick := tick ?s2 + 13, pqxdh_prekeys := Some local \<rparr>))
      = ?s2\<lparr> pqxdh_prekeys := Some local, tick := k, disk := d \<rparr>"
    by (rule save_prekeys_keeps [of C "?s2\<lparr> tick := tick ?s2 + 13, pqxdh_prekeys := Some local \<rparr>"]) simp
  let ?s3 = "?s2\<lparr> pqxdh_prekeys := Some local, tick := k, disk := d \<rparr>"
  have mk: "master_key s \<noteq> []" using assms(4) by (simp add: can_store_def)
  have run: "rotate_identity_commands C s = (Inr (dset [(''type'', JStr ''upload_keys''),
       (''identity_pk'', JStr (b64encode (identity_pk s1))),
       (''identity_sig'', JStr (b64encode (ed_sign C (identity_sk s1) (identity_pk s1)))), (''identity_sk_enc'', JStr enc)]
       ''type'' (JStr ''rotate_identity''), upload), forget_mls ?s3)"
    using mk by (simp add: rotate_identity_commands_def new_identity_key_record_command_def sbind_def c(1) r g(2) [unfolded sv, simplified])
  obtain csk alg qpk qsk c q where "bundle_ok C ?sk local (server_bundle upload None None) csk alg qpk qsk c q"
    using generated_bundle_ok [OF g(1) [simplified, unfolded s1(2,3)], of None None] crypto_okD(5) [OF assms(1)] by (auto simp: uploaded_def)
  then have "verify_bundle C (server_bundle upload None None) = Inr ()" by (rule verify_bundle_ok [OF assms(1)])
  moreover have "dget upload ''identity_pk'' JNull = JStr (b64e (ed_pub C ?sk))"
    using g(1) s1(2) by (auto simp: generate_local_bundle_def Let_def x25519_keygen_def kem_keygen_def dget_def)
  moreover have "identity_verify C (ed_pub C ?sk) (ed_pub C ?sk) (ed_sign C ?sk (ed_pub C ?sk)) = Inr ()"
    using crypto_okD(2) [OF assms(1)] sz(5) by (simp add: identity_verify_def sig_ok_def)
  moreover obtain d' where "forget_mls ?s3 = ?s3\<lparr> mls_identity_ready := False, mls_credential_identity_b64 := [], mls_group_ready := {},
      mls_handshake_seen := {}, mls_bridge := False, mls_proc := None, disk := d' \<rparr>"
    unfolding forget_mls_def using remove_files_keeps by metis
  ultimately show ?thesis
    using forget_mls_forgets [of _ ?s3] s1(2,3) run by (auto simp: dget_def)
qed

subsection \<open>Witnesses\<close>

theorem identity_key_survives_restart_witness:
  "let s' = snd (load_or_create_identity_key toy_crypto demo_session); t = demo_session\<lparr> disk := disk s' \<rparr>
   in load_or_create_identity_key toy_crypto t = (Inr (), t\<lparr> identity_sk := identity_sk s', identity_pk := identity_pk s' \<rparr>)"
  using identity_key_survives_restart [OF demo_stores prod.collapse [symmetric], of "demo_session\<lparr> disk := disk (snd (load_or_create_identity_key toy_crypto demo_session)) \<rparr>"]
    demo_stores(2) by (simp add: Let_def can_store_def)

definition demo_keys_session :: "dict \<Rightarrow> crypto_session" where
  "demo_keys_session store = demo_session\<lparr> pqxdh_prekeys := Some store \<rparr>"

lemma demo_keys_session [simp]:
  "key_ok toy_crypto (demo_keys_session store)" "can_store (demo_keys_session store)" "pqxdh_prekeys (demo_keys_session store) = Some store"
  "uid (demo_keys_session store) = 1" "tick (demo_keys_session store) = 0" "master_key (demo_keys_session store) = master_key demo_session"
  using demo_stores by (simp_all add: demo_keys_session_def key_ok_def can_store_def demo_session_def)

theorem failed_handshake_keeps_prekeys_witness:
  "\<exists>s'. respond_pqxdh_with_current_prekey toy_crypto ''e30'' (demo_keys_session [(''identity_pk'', JStr ''QQ'')])
      = (Inl (KeyError ''sender_uid''), s')
    \<and> fst (load_pqxdh_prekeys toy_crypto s') = Some [(''identity_pk'', JStr ''QQ'')]"
proof -
  let ?s = "demo_keys_session [(''identity_pk'', JStr ''QQ'')]"
  let ?e = "KeyError ''sender_uid''"
  have "unwrap_wire PREFIX_PQ_INIT ''e30'' = Inr []" by code_simp
  then have "respond_on_copy toy_crypto ''e30'' [(''identity_pk'', JStr ''QQ'')] ?s = (Inl ?e, ?s\<lparr> tick := 1 \<rparr>)"
    by (simp add: respond_on_copy_def sbind_def pqxdh_respond_def dkey_def)
  then have "respond_pqxdh_with_current_prekey toy_crypto ''e30'' ?s = (Inl ?e, ?s\<lparr> tick := 1 \<rparr>)"
    using respond_with_store [of ?s "[(''identity_pk'', JStr ''QQ'')]"] by (simp add: store_ok_def)
  moreover from failed_handshake_keeps_prekeys [OF this]
  have "fst (load_pqxdh_prekeys toy_crypto (?s\<lparr> tick := 1 \<rparr>)) = Some [(''identity_pk'', JStr ''QQ'')]"
    by (simp add: load_pqxdh_prekeys_def)
  ultimately show ?thesis by blast
qed

theorem used_prekeys_stay_used_witness:
  "\<exists>store token result s' kid left. respond_pqxdh_with_current_prekey toy_crypto token (demo_keys_session store) = (Inr result, s')
    \<and> 0 < kid \<and> otk_present ''curve_one_time'' kid store
    \<and> fst (load_pqxdh_prekeys toy_crypto (demo_session\<lparr> disk := disk s' \<rparr>)) = Some left \<and> \<not> otk_present ''curve_one_time'' kid left"
proof -
  let ?isk = "ed_seed toy_crypto 1"
  obtain upload store where g: "generate_local_bundle toy_crypto 3 1700000000000 (ed_pub toy_crypto ?isk) ?isk None 2 = Inr (upload, store)"
    by (rule demo_generated)
  obtain c where c: "uploaded upload ''curve_one_time_prekeys'' (Some c)" by (rule generated_has_otk [OF g]) simp
  obtain csk alg qpk qsk kid sk q' where b: "bundle_ok toy_crypto ?isk store (server_bundle upload (Some c) None) csk alg qpk qsk (Some (kid, sk)) q'"
    using generated_bundle_ok [OF g c demo_uploaded toy_sizes] by auto
  have own: "own_prekey toy_crypto store (new_key_id 1700000000000) (x_seed toy_crypto 3)" "length ?isk = 32"
    using generated_own_prekey [OF g toy_sizes] by auto
  have "oqs_present toy_crypto" "length (x_seed toy_crypto 0) = 32" using sizes_okD(7) [OF toy_sizes] by (simp_all add: toy_crypto_def)
  from pqxdh_agree [OF toy_ok this(1) b own demo_init_ok this(2) demo_hi, of 2 1 None 5 "os_random toy_crypto 0 16"]
  obtain token sB fp where p: "pqxdh_respond toy_crypto (x_seed toy_crypto 0) (os_random toy_crypto 0 16) (Some 1) token store
      = (Inr (''hi'', sB, fp, 2), consumed (Some (kid, sk)) q' store)" by blast
  let ?s = "demo_keys_session store"
  note ok = generated_store_ok [OF g]
  let ?v = "?s\<lparr> tick := tick ?s + 1, pqxdh_prekeys := Some (consumed (Some (kid, sk)) q' store) \<rparr>"
  obtain d k where sv: "snd (save_pqxdh_prekeys toy_crypto ?v) = ?v\<lparr> tick := k, disk := d \<rparr>" by (rule save_prekeys_keeps)
  obtain s' where on: "respond_on_copy toy_crypto token store ?s = (Inr (''hi'', sB, fp, 2), s')"
    using p by (simp add: respond_on_copy_def)
  then have r: "respond_pqxdh_with_current_prekey toy_crypto token ?s = (Inr (''hi'', sB, fp, 2), s')"
    using respond_with_store [OF _ ok(2,1)] by simp
  have s': "pqxdh_prekeys s' = Some (consumed (Some (kid, sk)) q' store)"
    using on p sv by (cases "save_pqxdh_prekeys toy_crypto ?v") (auto simp: respond_on_copy_def sbind_def split: sum.splits)
  have t: "can_store (demo_session\<lparr> disk := disk s' \<rparr>)" "pqxdh_prekeys (demo_session\<lparr> disk := disk s' \<rparr>) = None"
    using demo_stores(2) by (simp_all add: can_store_def demo_session_def)
  have "fst (load_pqxdh_prekeys toy_crypto (demo_session\<lparr> disk := disk s' \<rparr>)) = pqxdh_prekeys s'"
    using used_prekeys_stay_used [OF demo_keys_session(1-3) ok r _ _ t] by auto
  with s' have "fst (load_pqxdh_prekeys toy_crypto (demo_session\<lparr> disk := disk s' \<rparr>)) = Some (consumed (Some (kid, sk)) q' store)" by simp
  moreover have "\<not> otk_present ''curve_one_time'' kid (consumed (Some (kid, sk)) q' store)"
    using consumed_gone(1) [of "Some (kid, sk)" q' store] served_present [OF b] by (simp add: served_id_def)
  ultimately show ?thesis using r served_present [OF b] by blast
qed

theorem rotation_publishes_new_identity_witness:
  "\<exists>keys bundle s'. rotate_identity_commands toy_crypto demo_session = (Inr (keys, bundle), s')
    \<and> identity_sk s' = ed_seed toy_crypto 0 \<and> verify_bundle toy_crypto (server_bundle bundle None None) = Inr ()"
proof -
  have "tick demo_session = 0" by (simp add: demo_session_def)
  with rotation_publishes_new_identity [OF toy_ok toy_kem_ready demo_stores] show ?thesis by metis
qed

definition demo_device :: crypto_session where
  "demo_device = demo_session\<lparr> identity_sk := ed_seed toy_crypto 1, identity_pk := ed_pub toy_crypto (ed_seed toy_crypto 1) \<rparr>"

theorem identity_record_restores_witness:
  "\<exists>d s1 t'. current_identity_key_record_command toy_crypto demo_device = (Inr (Some d), s1)
    \<and> snd (restore_identity_key_record toy_crypto (dset (dset d ''found'' (JBool True)) ''identity_pk''
          (JStr (b64encode (identity_pk demo_device)))) demo_session) = t'
    \<and> identity_sk t' = ed_seed toy_crypto 1"
proof -
  have s: "key_ok toy_crypto demo_device" "identity_pk demo_device = ed_pub toy_crypto (identity_sk demo_device)"
      "length (identity_sk demo_device) = 32" "identity_pk demo_device \<noteq> []" "master_key demo_session = master_key demo_device"
      "identity_sk demo_device = ed_seed toy_crypto 1"
    using demo_stores sizes_okD(5,6) [OF toy_sizes] by (auto simp: key_ok_def demo_device_def) (metis list.size(3) zero_neq_numeral)
  obtain d s1 where d: "current_identity_key_record_command toy_crypto demo_device = (Inr (Some d), s1)"
    by (rule identity_record_made [OF s(1-3)]) blast
  from identity_record_restores [OF s(1-3) d s(5,4)] s(6) d show ?thesis by auto
qed

end
