(* ===== verification/Dr_Sessions.thy ===== *)
theory Dr_Sessions
  imports Session
begin

text \<open>
  The Double Ratchet sessions of a login (\<open>client/crypto_engine/session.py\<close>,
  \<open>load_double_ratchet\<close> to \<open>_state_for_double_ratchet_wire\<close>): loading and saving the
  current ratchet of a conversation and its map of parallel sessions, the choice of the canonical
  session after a simultaneous start, and the choice of the session a wire message belongs to.
  Ratchet objects are shared by the two dictionaries, so they live in the store
  \<open>ratchets\<close> and the dictionaries hold their index.
\<close>

subsection \<open>The store of ratchet objects\<close>

definition deref :: "crypto_session \<Rightarrow> nat \<Rightarrow> double_ratchet" where
  "deref s a = ratchets s ! a"

definition alloc :: "double_ratchet \<Rightarrow> crypto_session \<Rightarrow> nat \<times> crypto_session" where
  "alloc st s = (length (ratchets s), s\<lparr> ratchets := ratchets s @ [st] \<rparr>)"

definition assign :: "nat \<Rightarrow> double_ratchet \<Rightarrow> crypto_session \<Rightarrow> crypto_session" where
  "assign a st s = s\<lparr> ratchets := (ratchets s)[a := st] \<rparr>"

definition set_current :: "int \<Rightarrow> nat \<Rightarrow> crypto_session \<Rightarrow> crypto_session" where
  "set_current conv a s = s\<lparr> double_ratchet_states := dset (double_ratchet_states s) conv a \<rparr>"

definition set_sessions :: "int \<Rightarrow> (string \<times> nat) list \<Rightarrow> crypto_session \<Rightarrow> crypto_session" where
  "set_sessions conv m s = s\<lparr> double_ratchet_session_states := dset (double_ratchet_session_states s) conv m \<rparr>"

definition current :: "int \<Rightarrow> crypto_session \<Rightarrow> nat option" where
  "current conv s = map_of (double_ratchet_states s) conv"

definition known_sessions :: "int \<Rightarrow> crypto_session \<Rightarrow> (string \<times> nat) list" where
  "known_sessions conv s = dget (double_ratchet_session_states s) conv []"

text \<open>\<open>if current and current.session_id: sessions[current.session_id] = current\<close>\<close>

definition with_current :: "int \<Rightarrow> crypto_session \<Rightarrow> (string \<times> nat) list \<Rightarrow> (string \<times> nat) list" where
  "with_current conv s m = (case current conv s of
       Some a \<Rightarrow> if session_id (deref s a) \<noteq> [] then dset m (session_id (deref s a)) a else m
     | None \<Rightarrow> m)"

subsection \<open>Loading and saving\<close>

definition load_double_ratchet :: "crypto \<Rightarrow> int \<Rightarrow> crypto_session \<Rightarrow> nat option \<times> crypto_session" where
  "load_double_ratchet C conv s =
     (if current conv s \<noteq> None then (current conv s, s)
      else if \<not> can_store s \<or> \<not> has_file (double_ratchet_path conv) s then (None, s)
      else case rbind (rbind (read_sealed_json C s (double_ratchet_path conv)) as_dict) from_dict of
             Inl _ \<Rightarrow> (None, s)
           | Inr st \<Rightarrow> let (a, s') = alloc st s in (Some a, set_current conv a s'))"

definition sessions_json :: "crypto_session \<Rightarrow> (string \<times> nat) list \<Rightarrow> json" where
  "sessions_json s m = JObj (map (\<lambda>(sid, a). (sid, JObj (to_dict (deref s a)))) (filter (\<lambda>(sid, a). sid \<noteq> []) m))"

definition save_double_ratchet_sessions :: "crypto \<Rightarrow> int \<Rightarrow> unit ses" where
  "save_double_ratchet_sessions C conv s =
     (if \<not> can_store s then (Inr (), s)
      else let sessions = with_current conv s (known_sessions conv s)
           in if sessions = [] then (Inr (), s)
              else logged (sbind (write_sealed C (double_ratchet_sessions_path conv)
                                    (dumps_ascii_compact (sessions_json s sessions))) (\<lambda>_.
                           smod (set_sessions conv sessions))) s)"

definition save_double_ratchet :: "crypto \<Rightarrow> int \<Rightarrow> unit ses" where
  "save_double_ratchet C conv s = (case current conv s of
       None \<Rightarrow> (Inr (), s)
     | Some a \<Rightarrow>
         if \<not> can_store s then (Inr (), s)
         else sbind (logged (write_sealed C (double_ratchet_path conv) (dumps_ascii_compact (JObj (to_dict (deref s a)))))) (\<lambda>_.
              save_double_ratchet_sessions C conv) s)"

text \<open>The loop over the stored map stops at the first entry that does not load and keeps those before it.\<close>

fun read_sessions :: "dict \<Rightarrow> (string \<times> nat) list \<Rightarrow> crypto_session \<Rightarrow> (string \<times> nat) list \<times> crypto_session" where
  "read_sessions [] m s = (m, s)"
| "read_sessions ((sid, item) # rest) m s =
     (case item of
        JObj d \<Rightarrow>
          if sid = [] then read_sessions rest m s
          else (case from_dict d of
                  Inl _ \<Rightarrow> (m, s)
                | Inr st \<Rightarrow> let (a, s') = alloc st s in read_sessions rest (dset m sid a) s')
      | _ \<Rightarrow> read_sessions rest m s)"

definition load_double_ratchet_sessions :: "crypto \<Rightarrow> int \<Rightarrow> crypto_session \<Rightarrow> (string \<times> nat) list \<times> crypto_session" where
  "load_double_ratchet_sessions C conv s =
     (let (m, s1) =
        (if dhas (double_ratchet_session_states s) conv then (known_sessions conv s, s)
         else if can_store s \<and> has_file (double_ratchet_sessions_path conv) s
         then (case rbind (read_sealed_json C s (double_ratchet_sessions_path conv)) (\<lambda>j. as_dict (py_or j (JObj []))) of
                 Inl _ \<Rightarrow> ([], s)
               | Inr d \<Rightarrow> read_sessions d [] s)
         else ([], s));
          m' = with_current conv s1 m
      in (m', set_sessions conv m' s1))"

definition remember_double_ratchet_session :: "crypto \<Rightarrow> int \<Rightarrow> nat option \<Rightarrow> crypto_session \<Rightarrow> crypto_session" where
  "remember_double_ratchet_session C conv state s = (case state of
       None \<Rightarrow> s
     | Some a \<Rightarrow>
         if session_id (deref s a) = [] then s
         else let (m, s') = load_double_ratchet_sessions C conv s
              in set_sessions conv (dset m (session_id (deref s' a)) a) s')"

text \<open>The canonical session is the one with the smallest session id.\<close>

definition select_canonical_double_ratchet_state ::
  "crypto \<Rightarrow> int \<Rightarrow> nat option \<Rightarrow> crypto_session \<Rightarrow> nat option \<times> crypto_session" where
  "select_canonical_double_ratchet_state C conv candidate s =
     (let (cur, s1) = load_double_ratchet C conv s;
          s2 = remember_double_ratchet_session C conv cur s1;
          s3 = remember_double_ratchet_session C conv candidate s2;
          (sessions, s4) = load_double_ratchet_sessions C conv s3
      in if sessions = [] then (if cur \<noteq> None then cur else candidate, s4)
         else let chosen = dget sessions (Min (set (map fst sessions))) 0
              in (Some chosen, snd (save_double_ratchet C conv (set_current conv chosen s4))))"

definition wire_sid :: "string \<Rightarrow> string" where
  "wire_sid body =
     (case rbind (json_unb64 (drop (length PREFIX_DR) body)) as_dict of
        Inl _ \<Rightarrow> []
      | Inr payload \<Rightarrow>
          let header = (case dget payload ''h'' JNull of JObj h \<Rightarrow> h | _ \<Rightarrow> [])
          in py_str (py_or (py_or (dget header ''sid'' JNull) (dget payload ''sid'' JNull)) (JStr [])))"

definition state_for_double_ratchet_wire :: "crypto \<Rightarrow> int \<Rightarrow> string \<Rightarrow> crypto_session \<Rightarrow> nat option \<times> crypto_session" where
  "state_for_double_ratchet_wire C conv body s =
     (let sid = wire_sid body; (cur, s1) = load_double_ratchet C conv s
      in if (case cur of Some a \<Rightarrow> sid = [] \<or> session_id (deref s1 a) = sid | None \<Rightarrow> False) then (cur, s1)
         else let (sessions, s2) = load_double_ratchet_sessions C conv s1
              in if sid \<noteq> [] \<and> dhas sessions sid then (map_of sessions sid, s2) else (cur, s2))"

subsection \<open>The store stays well-formed\<close>

text \<open>Every index held by the two dictionaries refers to an object, and the session map is keyed by the
  objects' own non-empty session ids.\<close>

definition heap_ok :: "crypto_session \<Rightarrow> bool" where
  "heap_ok s = ((\<forall>conv a. current conv s = Some a \<longrightarrow> a < length (ratchets s))
     \<and> (\<forall>conv sid a. map_of (known_sessions conv s) sid = Some a \<longrightarrow> a < length (ratchets s)))"

definition keyed :: "crypto_session \<Rightarrow> (string \<times> nat) list \<Rightarrow> bool" where
  "keyed s m = (\<forall>sid a. map_of m sid = Some a \<longrightarrow> a < length (ratchets s) \<and> session_id (deref s a) = sid \<and> sid \<noteq> [])"

lemma known_set_sessions [simp]:
  "known_sessions c (set_sessions conv m s) = (if c = conv then m else known_sessions c s)"
  by (simp add: known_sessions_def set_sessions_def)

lemma set_sessions_simps [simp]:
  "current c (set_sessions conv m s) = current c s" "ratchets (set_sessions conv m s) = ratchets s"
  "deref (set_sessions conv m s) = deref s" "can_store (set_sessions conv m s) = can_store s"
  "master_key (set_sessions conv m s) = master_key s" "disk (set_sessions conv m s) = disk s"
  by (simp_all add: current_def set_sessions_def deref_def fun_eq_iff can_store_def)

lemma dr_disk_simps [simp]:
  "current c (s\<lparr> tick := k, disk := d \<rparr>) = current c s" "known_sessions c (s\<lparr> tick := k, disk := d \<rparr>) = known_sessions c s"
  "deref (s\<lparr> tick := k, disk := d \<rparr>) = deref s" "can_store (s\<lparr> tick := k, disk := d \<rparr>) = can_store s"
  "has_file n (set_sessions conv m s) = has_file n s"
  "dhas (double_ratchet_session_states (set_sessions conv m s)) c \<longleftrightarrow> c = conv \<or> dhas (double_ratchet_session_states s) c"
  by (auto simp: current_def known_sessions_def deref_def fun_eq_iff can_store_def has_file_def set_sessions_def)

lemma with_current_set_sessions [simp]: "with_current conv (set_sessions c m s) m' = with_current conv s m'"
  by (simp add: with_current_def split: option.split)

lemma set_current_simps [simp]:
  "current c (set_current conv a s) = (if c = conv then Some a else current c s)"
  "known_sessions c (set_current conv a s) = known_sessions c s" "ratchets (set_current conv a s) = ratchets s"
  "deref (set_current conv a s) = deref s"
  by (simp_all add: current_def set_current_def known_sessions_def deref_def fun_eq_iff update_conv')

lemma alloc_simps:
  assumes "alloc st s = (a, s')"
  shows "a = length (ratchets s)" and "ratchets s' = ratchets s @ [st]" and "deref s' a = st"
    and "b < length (ratchets s) \<Longrightarrow> deref s' b = deref s b"
    and "current c s' = current c s" and "known_sessions c s' = known_sessions c s"
  using assms by (auto simp: alloc_def deref_def nth_append current_def known_sessions_def)

lemma heap_okD:
  assumes "heap_ok s"
  shows "current conv s = Some a \<Longrightarrow> a < length (ratchets s)"
    and "map_of (known_sessions conv s) sid = Some a \<Longrightarrow> a < length (ratchets s)"
  using assms by (auto simp: heap_ok_def)

lemma with_current_valid:
  assumes "heap_ok s" and "\<And>sid a. map_of m sid = Some a \<Longrightarrow> a < length (ratchets s)"
    and "map_of (with_current conv s m) sid = Some a"
  shows "a < length (ratchets s)"
  using assms heap_okD(1) [OF assms(1)]
  by (auto simp: with_current_def update_conv' split: option.splits if_splits)

lemma read_sessions_valid:
  assumes "read_sessions d m s = (m', s')" and "heap_ok s"
    and "\<And>sid a. map_of m sid = Some a \<Longrightarrow> a < length (ratchets s)"
  shows "heap_ok s' \<and> (\<forall>sid a. map_of m' sid = Some a \<longrightarrow> a < length (ratchets s'))
    \<and> (\<exists>new. ratchets s' = ratchets s @ new) \<and> (\<forall>c. current c s' = current c s) \<and> (\<forall>c. known_sessions c s' = known_sessions c s)"
  using assms
proof (induction d arbitrary: m s)
  case (Cons kv rest)
  obtain sid item where kv: "kv = (sid, item)" by fastforce
  show ?case
  proof (cases "\<exists>d st. item = JObj d \<and> sid \<noteq> [] \<and> from_dict d = Inr st")
    case False
    then show ?thesis using Cons kv by (auto split: json.splits if_splits sum.splits)
  next
    case True
    then obtain d st where it: "item = JObj d" "sid \<noteq> []" "from_dict d = Inr st" by blast
    obtain a s1 where al: "alloc st s = (a, s1)" by fastforce
    have r: "read_sessions rest (dset m sid a) s1 = (m', s')" using Cons.prems(1) it al kv by simp
    have h: "heap_ok s1"
      using Cons.prems(2) by (auto simp: heap_ok_def alloc_simps [OF al] less_Suc_eq)
    have v: "map_of (dset m sid a) k = Some b \<Longrightarrow> b < length (ratchets s1)" for k b
      using Cons.prems(3) [of k b] by (auto simp: alloc_simps(1,2) [OF al] update_conv' split: if_splits)
    have "heap_ok s' \<and> (\<forall>sid a. map_of m' sid = Some a \<longrightarrow> a < length (ratchets s'))
      \<and> (\<exists>new. ratchets s' = ratchets s1 @ new) \<and> (\<forall>c. current c s' = current c s1) \<and> (\<forall>c. known_sessions c s' = known_sessions c s1)"
      by (rule Cons.IH [OF r h]) (rule v)
    then show ?thesis by (auto simp: alloc_simps(2,5,6) [OF al])
  qed
qed auto

lemma load_ratchet_ok:
  assumes "load_double_ratchet C conv s = (r, s')" and "heap_ok s"
  shows "heap_ok s'" and "r = current conv s'" and "\<And>c. known_sessions c s' = known_sessions c s"
    and "\<And>a. a < length (ratchets s) \<Longrightarrow> a < length (ratchets s') \<and> deref s' a = deref s a"
proof -
  consider "r = current conv s \<and> s' = s" | st a s1 where "alloc st s = (a, s1)" "r = Some a" "s' = set_current conv a s1"
  proof -
    define x where "x = rbind (rbind (read_sealed_json C s (double_ratchet_path conv)) as_dict) from_dict"
    have ld: "(r, s') = (if current conv s \<noteq> None then (current conv s, s)
      else if \<not> can_store s \<or> \<not> has_file (double_ratchet_path conv) s then (None, s)
      else case x of Inl _ \<Rightarrow> (None, s) | Inr st \<Rightarrow> let (a, s') = alloc st s in (Some a, set_current conv a s'))"
      using assms(1) unfolding load_double_ratchet_def x_def by simp
    show ?thesis
    proof (cases "current conv s \<noteq> None \<or> \<not> can_store s \<or> \<not> has_file (double_ratchet_path conv) s \<or> (\<exists>e. x = Inl e)")
      case True
      then have "r = current conv s \<and> s' = s" using ld by (elim disjE) (auto split: if_splits)
      then show ?thesis by (rule that(1))
    next
      case False
      then obtain st where "x = Inr st" by (cases x) auto
      then have "(r, s') = (let (a, s1) = alloc st s in (Some a, set_current conv a s1))" using ld False by simp
      then show ?thesis by (cases "alloc st s") (auto intro: that(2))
    qed
  qed
  then have "heap_ok s' \<and> r = current conv s' \<and> (\<forall>c. known_sessions c s' = known_sessions c s)
    \<and> (\<forall>a. a < length (ratchets s) \<longrightarrow> a < length (ratchets s') \<and> deref s' a = deref s a)"
  proof cases
    case 1
    then show ?thesis using assms(2) by simp
  next
    case (2 st a s1)
    note al = alloc_simps [OF 2(1)]
    have "heap_ok s'"
      unfolding heap_ok_def using heap_okD [OF assms(2)] al 2(3)
      by (auto simp: less_Suc_eq split: if_splits)
    then show ?thesis using al 2 by auto
  qed
  then show "heap_ok s'" and "r = current conv s'" and "\<And>c. known_sessions c s' = known_sessions c s"
    and "\<And>a. a < length (ratchets s) \<Longrightarrow> a < length (ratchets s') \<and> deref s' a = deref s a" by blast+
qed

lemma load_sessions_ok:
  assumes "load_double_ratchet_sessions C conv s = (m, s')" and "heap_ok s"
  shows "heap_ok s'" and "m = known_sessions conv s'" and "\<And>c. current c s' = current c s"
    and "\<And>a. a < length (ratchets s) \<Longrightarrow> a < length (ratchets s') \<and> deref s' a = deref s a"
proof -
  obtain m1 s1 where ld: "m = with_current conv s1 m1" "s' = set_sessions conv m s1"
    and s1: "(m1 = known_sessions conv s \<and> s1 = s) \<or> (m1 = [] \<and> s1 = s) \<or> (\<exists>d. read_sessions d [] s = (m1, s1))"
    using assms(1) by (auto simp: load_double_ratchet_sessions_def Let_def split: if_splits sum.splits prod.splits)
  have base: "heap_ok s1 \<and> (\<forall>sid a. map_of m1 sid = Some a \<longrightarrow> a < length (ratchets s1))
    \<and> (\<exists>new. ratchets s1 = ratchets s @ new) \<and> (\<forall>c. current c s1 = current c s)"
    using s1 assms(2) heap_okD(2) [OF assms(2)] read_sessions_valid [of _ "[]" s m1 s1] by auto
  then have "heap_ok s1" and v: "\<And>sid a. map_of m1 sid = Some a \<Longrightarrow> a < length (ratchets s1)"
    and ext: "\<exists>new. ratchets s1 = ratchets s @ new" "\<And>c. current c s1 = current c s" by blast+
  then have "map_of m sid = Some a \<Longrightarrow> a < length (ratchets s1)" for sid a
    using with_current_valid ld(1) by blast
  then show "heap_ok s'" using \<open>heap_ok s1\<close> by (auto simp: heap_ok_def ld(2))
  show "m = known_sessions conv s'" by (simp add: ld(2))
  show "current c s' = current c s" for c by (simp add: ld(2) ext(2))
  show "a < length (ratchets s) \<Longrightarrow> a < length (ratchets s') \<and> deref s' a = deref s a" for a
    using ext(1) by (auto simp: ld(2) deref_def nth_append)
qed

lemma remember_ok:
  assumes "heap_ok s" and "\<And>a. st = Some a \<Longrightarrow> a < length (ratchets s)"
  shows "heap_ok (remember_double_ratchet_session C conv st s)"
    and "\<And>c. current c (remember_double_ratchet_session C conv st s) = current c s"
    and "\<And>a. a < length (ratchets s) \<Longrightarrow> a < length (ratchets (remember_double_ratchet_session C conv st s))
           \<and> deref (remember_double_ratchet_session C conv st s) a = deref s a"
proof -
  obtain m s' where l: "load_double_ratchet_sessions C conv s = (m, s')" by fastforce
  note ok = load_sessions_ok [OF l assms(1)]
  have "heap_ok (set_sessions conv (dset m sid a) s')" if "st = Some a" for sid a
    using ok(1,2) heap_okD [OF ok(1)] ok(4) [OF assms(2) [OF that]]
    by (auto simp: heap_ok_def update_conv' split: if_splits)
  then show "heap_ok (remember_double_ratchet_session C conv st s)"
    using assms(1) by (simp add: remember_double_ratchet_session_def l split: option.split)
  show "current c (remember_double_ratchet_session C conv st s) = current c s" for c
    by (simp add: remember_double_ratchet_session_def l ok(3) split: option.split)
  show "a < length (ratchets s) \<Longrightarrow> a < length (ratchets (remember_double_ratchet_session C conv st s))
           \<and> deref (remember_double_ratchet_session C conv st s) a = deref s a" for a
    using ok(4) by (simp add: remember_double_ratchet_session_def l split: option.split)
qed

subsection \<open>The canonical session\<close>

text \<open>The ids of the sessions a client knows for a conversation, its current one included.\<close>

definition session_ids :: "int \<Rightarrow> crypto_session \<Rightarrow> string set" where
  "session_ids conv s = fst ` set (with_current conv s (known_sessions conv s))"

text \<open>The conversation's sessions are in memory, keyed by their ids.\<close>

definition sessions_loaded :: "int \<Rightarrow> crypto_session \<Rightarrow> bool" where
  "sessions_loaded conv s = (heap_ok s \<and> keyed s (known_sessions conv s) \<and> dhas (double_ratchet_session_states s) conv
     \<and> (current conv s = None \<longrightarrow> \<not> has_file (double_ratchet_path conv) s))"

lemma load_loaded: "sessions_loaded conv s \<Longrightarrow> load_double_ratchet C conv s = (current conv s, s)"
  by (simp add: sessions_loaded_def load_double_ratchet_def)

lemma load_sessions_loaded:
  "sessions_loaded conv s \<Longrightarrow> load_double_ratchet_sessions C conv s =
     (with_current conv s (known_sessions conv s), set_sessions conv (with_current conv s (known_sessions conv s)) s)"
  by (simp add: sessions_loaded_def load_double_ratchet_sessions_def Let_def)

lemma keyed_dset:
  "keyed s m \<Longrightarrow> a < length (ratchets s) \<Longrightarrow> session_id (deref s a) \<noteq> [] \<Longrightarrow> keyed s (dset m (session_id (deref s a)) a)"
  by (auto simp: keyed_def update_conv')

lemma keyed_with_current: "heap_ok s \<Longrightarrow> keyed s m \<Longrightarrow> keyed s (with_current conv s m)"
  by (auto simp: with_current_def keyed_dset heap_okD(1) split: option.split)

lemma loaded_set_sessions:
  assumes "sessions_loaded conv s" and "keyed s m"
  shows "sessions_loaded conv (set_sessions conv m s)"
proof -
  have "keyed (set_sessions conv m s) m" using assms(2) by (simp add: keyed_def)
  moreover have "heap_ok (set_sessions conv m s)"
    using assms by (auto simp: sessions_loaded_def heap_ok_def keyed_def)
  ultimately show ?thesis
    using assms(1) by (simp add: sessions_loaded_def)
qed

lemma set_sessions_twice [simp]: "set_sessions conv m (set_sessions conv m' s) = set_sessions conv m s"
  by (simp add: set_sessions_def)

lemma keys_dset [simp]: "fst ` set (dset m k v) = insert k (fst ` set m)"
  using dom_map_of_conv_image_fst [of "dset m k v"] by (simp add: update_conv' dom_map_of_conv_image_fst)

lemma remember_loaded:
  assumes "sessions_loaded conv s" and "a < length (ratchets s)" and "session_id (deref s a) \<noteq> []"
  obtains m where "remember_double_ratchet_session C conv (Some a) s = set_sessions conv m s" and "keyed s m"
    and "fst ` set (with_current conv s m) = insert (session_id (deref s a)) (session_ids conv s)"
proof (rule that)
  let ?m = "dset (with_current conv s (known_sessions conv s)) (session_id (deref s a)) a"
  show "remember_double_ratchet_session C conv (Some a) s = set_sessions conv ?m s"
    using assms(3) by (simp add: remember_double_ratchet_session_def load_sessions_loaded [OF assms(1)])
  have "heap_ok s" "keyed s (known_sessions conv s)" using assms(1) by (simp_all add: sessions_loaded_def)
  then show "keyed s ?m" using assms(2,3) by (intro keyed_dset keyed_with_current)
  show "fst ` set (with_current conv s ?m) = insert (session_id (deref s a)) (session_ids conv s)"
    by (auto simp: session_ids_def with_current_def image_image split: option.split)
qed

lemma save_sessions_effect:
  "ratchets (snd (save_double_ratchet_sessions C conv s)) = ratchets s"
  "current c (snd (save_double_ratchet_sessions C conv s)) = current c s"
proof -
  let ?t = "dumps_ascii_compact (sessions_json s (with_current conv s (known_sessions conv s)))"
  obtain d where d: "snd (write_sealed C (double_ratchet_sessions_path conv) ?t s) = s\<lparr> tick := tick s + 1, disk := d \<rparr>"
    by (rule write_sealed_effect) blast
  show "ratchets (snd (save_double_ratchet_sessions C conv s)) = ratchets s"
    using d by (auto simp: save_double_ratchet_sessions_def Let_def sbind_def split: prod.splits sum.splits)
  show "current c (snd (save_double_ratchet_sessions C conv s)) = current c s"
    using d by (auto simp: save_double_ratchet_sessions_def Let_def sbind_def current_def set_sessions_def split: prod.splits sum.splits)
qed

lemma save_ratchet_effect:
  "ratchets (snd (save_double_ratchet C conv s)) = ratchets s"
  "current c (snd (save_double_ratchet C conv s)) = current c s"
proof -
  have "ratchets (snd (save_double_ratchet C conv s)) = ratchets s \<and> current c (snd (save_double_ratchet C conv s)) = current c s"
  proof (cases "current conv s")
    case (Some a)
    obtain d where d: "snd (write_sealed C (double_ratchet_path conv) (dumps_ascii_compact (JObj (to_dict (deref s a)))) s)
        = s\<lparr> tick := tick s + 1, disk := d \<rparr>" by (rule write_sealed_effect) blast
    show ?thesis
      by (simp add: save_double_ratchet_def Some sbind_ok [OF logged_run] d save_sessions_effect)
  qed (simp add: save_double_ratchet_def)
  then show "ratchets (snd (save_double_ratchet C conv s)) = ratchets s"
    and "current c (snd (save_double_ratchet C conv s)) = current c s" by blast+
qed

lemma remember_ids:
  assumes "sessions_loaded conv s" and "a < length (ratchets s)" and "session_id (deref s a) \<noteq> []"
    and "t = remember_double_ratchet_session C conv (Some a) s"
  shows "sessions_loaded conv t" and "session_ids conv t = insert (session_id (deref s a)) (session_ids conv s)"
    and "current conv t = current conv s" and "ratchets t = ratchets s"
proof -
  obtain m where m: "t = set_sessions conv m s" "keyed s m"
    "fst ` set (with_current conv s m) = insert (session_id (deref s a)) (session_ids conv s)"
    using remember_loaded [OF assms(1-3)] assms(4) by metis
  show "sessions_loaded conv t" unfolding m(1) by (rule loaded_set_sessions [OF assms(1) m(2)])
  show "session_ids conv t = insert (session_id (deref s a)) (session_ids conv s)"
    using m(3) by (simp add: session_ids_def m(1))
  show "current conv t = current conv s" and "ratchets t = ratchets s" by (simp_all add: m(1))
qed

lemma select_canonical:
  assumes "sessions_loaded conv s" and "a < length (ratchets s)" and "session_id (deref s a) \<noteq> []"
    and "select_canonical_double_ratchet_state C conv (Some a) s = (r, t)"
  shows "\<exists>b. r = Some b \<and> current conv t = Some b \<and> ratchets t = ratchets s
    \<and> session_id (deref t b) = Min (insert (session_id (deref s a)) (session_ids conv s))"
proof -
  define s2 where "s2 = remember_double_ratchet_session C conv (current conv s) s"
  have s2: "sessions_loaded conv s2 \<and> session_ids conv s2 = session_ids conv s \<and> current conv s2 = current conv s \<and> ratchets s2 = ratchets s"
  proof (cases "current conv s")
    case None
    then show ?thesis using assms(1) by (simp add: s2_def remember_double_ratchet_session_def)
  next
    case (Some c)
    have c: "c < length (ratchets s)" using assms(1) Some heap_okD(1) by (auto simp: sessions_loaded_def)
    show ?thesis
    proof (cases "session_id (deref s c) = []")
      case True
      then show ?thesis using assms(1) by (simp add: s2_def Some remember_double_ratchet_session_def)
    next
      case False
      have "session_id (deref s c) \<in> session_ids conv s" using False by (simp add: session_ids_def with_current_def Some)
      then show ?thesis using remember_ids [OF assms(1) c False, of s2 C] by (simp add: s2_def Some insert_absorb)
    qed
  qed
  then have d2: "deref s2 = deref s" by (simp add: fun_eq_iff deref_def)
  define s3 where "s3 = remember_double_ratchet_session C conv (Some a) s2"
  note s3 = remember_ids [of conv s2 a s3 C, OF _ _ _ s3_def]
  have l3: "sessions_loaded conv s3" "session_ids conv s3 = insert (session_id (deref s a)) (session_ids conv s)"
    "ratchets s3 = ratchets s"
    using s3 s2 assms(2,3) by (simp_all add: d2)
  define m where "m = with_current conv s3 (known_sessions conv s3)"
  have km: "keyed s3 m" unfolding m_def using l3(1) by (intro keyed_with_current) (simp_all add: sessions_loaded_def)
  have ids: "set (map fst m) = insert (session_id (deref s a)) (session_ids conv s)"
    using l3(2) by (simp add: session_ids_def m_def)
  then have ne: "m \<noteq> []" by auto
  let ?k = "Min (set (map fst m))"
  have "?k \<in> set (map fst m)" using ne by (intro Min_in) auto
  then obtain b where b: "map_of m ?k = Some b" by (metis map_of_eq_None_iff list.set_map not_None_eq)
  have "r = Some b \<and> t = snd (save_double_ratchet C conv (set_current conv b (set_sessions conv m s3)))"
    using assms(4) ne b
    by (simp add: select_canonical_double_ratchet_state_def load_loaded [OF assms(1)] Let_def s2_def [symmetric]
        s3_def [symmetric] load_sessions_loaded [OF l3(1)] m_def [symmetric] dget_def)
  moreover have "session_id (deref s3 b) = ?k" using km b by (simp add: keyed_def)
  ultimately show ?thesis using ids l3(3) by (simp add: save_ratchet_effect deref_def)
qed

text \<open>
  C33: (equivalence) Simultaneous start converges: two clients that know the same sessions of a
  conversation, each after taking in a further session that the other already knows, choose the
  same current session without exchanging anything, namely the one with the smallest id.
\<close>

theorem simultaneous_start_converges:
  assumes "sessions_loaded conv s" and "a < length (ratchets s)" and "session_id (deref s a) \<noteq> []"
    and "sessions_loaded conv' t" and "b < length (ratchets t)" and "session_id (deref t b) \<noteq> []"
    and "insert (session_id (deref s a)) (session_ids conv s) = insert (session_id (deref t b)) (session_ids conv' t)"
    and "select_canonical_double_ratchet_state C conv (Some a) s = (r, s')"
    and "select_canonical_double_ratchet_state C' conv' (Some b) t = (q, t')"
  shows "\<exists>x y. r = Some x \<and> q = Some y \<and> current conv s' = Some x \<and> current conv' t' = Some y
    \<and> session_id (deref s' x) = session_id (deref t' y)
    \<and> (\<forall>k \<in> insert (session_id (deref s a)) (session_ids conv s). session_id (deref s' x) \<le> k)"
proof -
  have "finite (session_ids conv s)" "finite (session_ids conv' t)" by (simp_all add: session_ids_def)
  then show ?thesis
    using select_canonical [OF assms(1-3,8)] select_canonical [OF assms(4-6,9)] assms(7) by auto
qed

definition demo_two :: "nat \<Rightarrow> crypto_session" where
  "demo_two cur = demo_session\<lparr> ratchets := [demo_A\<lparr> session_id := ''b'' \<rparr>, demo_A\<lparr> session_id := ''a'' \<rparr>],
     double_ratchet_states := [(5, cur)], double_ratchet_session_states := [(5, [])] \<rparr>"

lemma demo_two_loaded: "cur < 2 \<Longrightarrow> sessions_loaded 5 (demo_two cur)"
  by (auto simp: sessions_loaded_def heap_ok_def keyed_def known_sessions_def dget_def current_def dhas_def demo_two_def split: if_splits)

lemma demo_two_ids: "session_ids 5 (demo_two 0) = {''b''}" "session_ids 5 (demo_two (Suc 0)) = {''a''}"
  "deref (demo_two c) 0 = demo_A\<lparr> session_id := ''b'' \<rparr>" "deref (demo_two c) (Suc 0) = demo_A\<lparr> session_id := ''a'' \<rparr>"
  by (simp_all add: session_ids_def with_current_def current_def known_sessions_def dget_def deref_def demo_two_def)

theorem simultaneous_start_converges_witness:
  "\<exists>x y. fst (select_canonical_double_ratchet_state toy_crypto 5 (Some 1) (demo_two 0)) = Some x
     \<and> fst (select_canonical_double_ratchet_state toy_crypto 5 (Some 0) (demo_two 1)) = Some y
     \<and> session_id (deref (snd (select_canonical_double_ratchet_state toy_crypto 5 (Some 1) (demo_two 0))) x)
        = session_id (deref (snd (select_canonical_double_ratchet_state toy_crypto 5 (Some 0) (demo_two 1))) y)"
proof -
  have len: "length (ratchets (demo_two c)) = 2" for c by (simp add: demo_two_def)
  have "\<exists>x y. fst (select_canonical_double_ratchet_state toy_crypto 5 (Some 1) (demo_two 0)) = Some x
     \<and> fst (select_canonical_double_ratchet_state toy_crypto 5 (Some 0) (demo_two 1)) = Some y
     \<and> current 5 (snd (select_canonical_double_ratchet_state toy_crypto 5 (Some 1) (demo_two 0))) = Some x
     \<and> current 5 (snd (select_canonical_double_ratchet_state toy_crypto 5 (Some 0) (demo_two 1))) = Some y
     \<and> session_id (deref (snd (select_canonical_double_ratchet_state toy_crypto 5 (Some 1) (demo_two 0))) x)
        = session_id (deref (snd (select_canonical_double_ratchet_state toy_crypto 5 (Some 0) (demo_two 1))) y)
     \<and> (\<forall>k \<in> insert (session_id (deref (demo_two 0) 1)) (session_ids 5 (demo_two 0)).
          session_id (deref (snd (select_canonical_double_ratchet_state toy_crypto 5 (Some 1) (demo_two 0))) x) \<le> k)"
    by (rule simultaneous_start_converges [OF demo_two_loaded _ _ demo_two_loaded])
       (simp_all add: len demo_two_ids insert_commute)
  then show ?thesis by blast
qed

subsection \<open>Restart\<close>

text \<open>The texts of the ratchet are well formed, no skipped key is held twice, and no remembered id is empty.\<close>

definition storable :: "double_ratchet \<Rightarrow> bool" where
  "storable st = (json_ok (JObj (to_dict st)) \<and> json_utf8 (JObj (to_dict st)) \<and> [] \<notin> seen st)"

lemma storable_reads:
  assumes "storable st"
  shows "loads (dumps_ascii_compact (JObj (to_dict st))) = Inr (JObj (to_dict st))"
    and "utf8_valid (dumps_ascii_compact (JObj (to_dict st)))" and "from_dict (to_dict st) = Inr (st\<lparr> seen := set (newest_seen (seen st)) \<rparr>)"
proof -
  note a = dumps_ascii_props [of "JObj (to_dict st)"]
  show "loads (dumps_ascii_compact (JObj (to_dict st))) = Inr (JObj (to_dict st))"
    and "utf8_valid (dumps_ascii_compact (JObj (to_dict st)))"
    using a assms by (simp_all only: storable_def)
  show "from_dict (to_dict st) = Inr (st\<lparr> seen := set (newest_seen (seen st)) \<rparr>)"
    using from_to_dict [of st] assms by (simp add: storable_def)
qed

lemma dr_paths_distinct [simp]: "double_ratchet_path c \<noteq> double_ratchet_sessions_path d"
proof
  assume "double_ratchet_path c = double_ratchet_sessions_path d"
  then have "hd (show_int c @ ''.bin'') = CHR ''s''" by (simp add: double_ratchet_path_def double_ratchet_sessions_path_def)
  moreover have "hd (show_int c @ ''.bin'') = hd (show_int c)" by (cases "show_int c") auto
  moreover have "hd (show_int c) \<noteq> CHR ''s''"
  proof -
    obtain x u where s: "show_nat (nat \<bar>c\<bar>) = x # u" by (cases "show_nat (nat \<bar>c\<bar>)") auto
    then have "is_digit x" using show_nat_digits [of "nat \<bar>c\<bar>"] by simp
    then show ?thesis using s by (auto simp: show_int_def is_digit_def abs_if split: if_splits)
  qed
  ultimately show False by simp
qed

lemma save_sessions_disk:
  "n \<noteq> double_ratchet_sessions_path conv \<Longrightarrow> map_of (disk (snd (save_double_ratchet_sessions C conv s))) n = map_of (disk s) n"
  "master_key (snd (save_double_ratchet_sessions C conv s)) = master_key s"
proof -
  let ?t = "dumps_ascii_compact (sessions_json s (with_current conv s (known_sessions conv s)))"
  obtain d where d: "snd (write_sealed C (double_ratchet_sessions_path conv) ?t s) = s\<lparr> tick := tick s + 1, disk := d \<rparr>"
    "\<And>m. m \<noteq> double_ratchet_sessions_path conv \<Longrightarrow> map_of d m = map_of (disk s) m"
    by (rule write_sealed_effect) blast
  show "n \<noteq> double_ratchet_sessions_path conv \<Longrightarrow> map_of (disk (snd (save_double_ratchet_sessions C conv s))) n = map_of (disk s) n"
    using d by (auto simp: save_double_ratchet_sessions_def Let_def sbind_def split: prod.splits sum.splits)
  show "master_key (snd (save_double_ratchet_sessions C conv s)) = master_key s"
    using d(1) by (auto simp: save_double_ratchet_sessions_def Let_def sbind_def split: prod.splits sum.splits)
qed

lemma save_ratchet_stores:
  assumes "key_ok C s" and "can_store s" and "current conv s = Some a" and "storable (deref s a)"
  shows "stores C (snd (save_double_ratchet C conv s)) (double_ratchet_path conv) (dumps_ascii_compact (JObj (to_dict (deref s a))))"
    and "master_key (snd (save_double_ratchet C conv s)) = master_key s"
proof -
  let ?t = "dumps_ascii_compact (JObj (to_dict (deref s a)))"
  obtain s' where w: "write_sealed C (double_ratchet_path conv) ?t s = (Inr (), s')" "stores C s' (double_ratchet_path conv) ?t"
    "s' = s\<lparr> tick := tick s + 1, disk := disk s' \<rparr>"
    by (rule write_stores [OF assms(1) storable_reads(2) [OF assms(4)]]) blast
  have run: "snd (save_double_ratchet C conv s) = snd (save_double_ratchet_sessions C conv s')"
    using assms(2,3) by (simp add: save_double_ratchet_def sbind_ok [OF logged_run] w(1))
  have "master_key s' = master_key s" by (subst w(3)) simp
  then show "master_key (snd (save_double_ratchet C conv s)) = master_key s" by (simp add: run save_sessions_disk)
  show "stores C (snd (save_double_ratchet C conv s)) (double_ratchet_path conv) ?t"
    unfolding run by (rule stores_cong [OF w(2)]) (simp_all add: save_sessions_disk)
qed

text \<open>
  C32: (roundtrip) A ratchet survives a restart: after the conversation's current ratchet was saved,
  a new login on the same directory with the same master key, which has not loaded the conversation
  yet, loads an object with the saved keys and counters and makes it the conversation's current
  ratchet. Its replay memory holds the 2048 greatest of the saved ids, so a ratchet that remembers at most
  2048 ids is loaded exactly as it was. The ratchet is \<open>storable\<close>: its texts are well formed, as every
  Python text that came from JSON or Base64 is, no skipped key is held twice and no remembered id is empty.
\<close>

theorem ratchet_survives_restart:
  assumes "key_ok C s" and "can_store s" and "current conv s = Some a" and "storable (deref s a)"
    and "heap_ok t" and "current conv t = None" and "can_store t" and "master_key t = master_key s"
    and "disk t = disk (snd (save_double_ratchet C conv s))"
  shows "\<exists>b t'. load_double_ratchet C conv t = (Some b, t') \<and> current conv t' = Some b \<and> heap_ok t'
    \<and> deref t' b = (deref s a)\<lparr> seen := set (newest_seen (seen (deref s a))) \<rparr>
    \<and> (finite (seen (deref s a)) \<and> card (seen (deref s a)) \<le> 2048 \<longrightarrow> deref t' b = deref s a)"
proof -
  let ?st = "(deref s a)\<lparr> seen := set (newest_seen (seen (deref s a))) \<rparr>"
  have st: "stores C t (double_ratchet_path conv) (dumps_ascii_compact (JObj (to_dict (deref s a))))"
    using save_ratchet_stores [OF assms(1-4)] assms(8,9) by (auto intro: stores_cong)
  then have rd: "rbind (rbind (read_sealed_json C t (double_ratchet_path conv)) as_dict) from_dict = Inr ?st"
    using storable_reads [OF assms(4)] by (simp add: stores_def read_sealed_json_def)
  obtain b t' where al: "alloc ?st t = (b, t')" by fastforce
  have ld: "load_double_ratchet C conv t = (Some b, set_current conv b t')"
    using assms(6,7) st al by (simp add: load_double_ratchet_def stores_def rd)
  have "?st = deref s a" if "finite (seen (deref s a)) \<and> card (seen (deref s a)) \<le> 2048"
    using newest_seen_small that by simp
  then show ?thesis using load_ratchet_ok(1) [OF ld assms(5)] alloc_simps(3) [OF al] ld by auto
qed

lemma demo_storable: "storable (demo_A\<lparr> session_id := ''b'' \<rparr>)"
  by (simp add: storable_def to_dict_def newest_seen_def demo_A_def init_state_def Let_def ascii_utf8)

theorem ratchet_survives_restart_witness:
  "\<exists>b t'. load_double_ratchet toy_crypto 5 (demo_session\<lparr> disk := disk (snd (save_double_ratchet toy_crypto 5 (demo_two 0))) \<rparr>)
     = (Some b, t') \<and> deref t' b = demo_A\<lparr> session_id := ''b'' \<rparr>"
proof -
  let ?t = "demo_session\<lparr> disk := disk (snd (save_double_ratchet toy_crypto 5 (demo_two 0))) \<rparr>"
  have "key_ok toy_crypto (demo_two 0)" "can_store (demo_two 0)" "can_store ?t" "master_key ?t = master_key (demo_two 0)"
    using demo_stores by (simp_all add: demo_two_def key_ok_def can_store_def)
  moreover have "current 5 (demo_two 0) = Some 0" "storable (deref (demo_two 0) 0)"
    by (simp_all add: demo_two_ids demo_storable) (simp add: current_def demo_two_def)
  moreover have "heap_ok ?t" "current 5 ?t = None"
    by (simp_all add: heap_ok_def current_def known_sessions_def dget_def demo_session_def)
  ultimately show ?thesis
    using ratchet_survives_restart [of toy_crypto "demo_two 0" 5 0 ?t] demo_two_ids(3)
    by (auto simp: demo_A_def init_state_def Let_def)
qed

end
