(* ===== verification/Membership.thy ===== *)
theory Membership
  imports Ratchet
begin

text \<open>
  Group membership as the client compares it (\<open>client/crypto_engine/session.py\<close>,
  \<open>normalize_group_members\<close>, \<open>group_membership_hash\<close>, \<open>_group_role_for_uid\<close>,
  \<open>group_member_ids_hash\<close>): member lists of any shape are brought to one entry per user, sorted,
  with the stronger role, and hashed.
\<close>

definition member_value :: "json \<Rightarrow> json \<times> string" where
  "member_value m = (case m of
       JObj d \<Rightarrow> (dget d ''user_id'' (dget d ''id'' (JInt 0)), py_str (py_or (dget d ''role'' (JStr ''member'')) (JStr ''member'')))
     | v \<Rightarrow> (v, ''member''))"

text \<open>The user and role an entry stands for, if it stands for one.\<close>

definition member_of :: "json \<Rightarrow> (int \<times> string) option" where
  "member_of m = (case member_value m of (v, role) \<Rightarrow>
     (case py_int v of
        Inl _ \<Rightarrow> None
      | Inr u \<Rightarrow> if u \<le> 0 then None else Some (u, if role \<in> {''admin'', ''member''} then role else ''member'')))"

definition add_member :: "json \<Rightarrow> (int \<times> string) list \<Rightarrow> (int \<times> string) list" where
  "add_member m by_uid = (case member_of m of
       None \<Rightarrow> by_uid
     | Some (u, role) \<Rightarrow>
         dset by_uid u (if map_of by_uid u = Some ''admin'' \<or> role = ''admin'' then ''admin'' else role))"

definition normalize_group_members :: "json list \<Rightarrow> (int \<times> string) list" where
  "normalize_group_members ms =
     (let by_uid = fold add_member ms []
      in map (\<lambda>u. (u, dget by_uid u [])) (sorted_list_of_set (fst ` set by_uid)))"

definition members_json :: "(int \<times> string) list \<Rightarrow> json" where
  "members_json ms = JArr (map (\<lambda>(u, role). JObj [(''user_id'', JInt u), (''role'', JStr role)]) ms)"

definition group_membership_hash :: "crypto \<Rightarrow> json list \<Rightarrow> string" where
  "group_membership_hash C ms = to_hex (sha256 C (dumps_ascii_compact (jsort (members_json (normalize_group_members ms)))))"

definition group_role_for_uid :: "json list \<Rightarrow> int \<Rightarrow> string" where
  "group_role_for_uid ms u = (case find (\<lambda>(v, role). v = u) (normalize_group_members ms) of
       None \<Rightarrow> [] | Some (v, role) \<Rightarrow> if role = [] then ''member'' else role)"

definition group_member_ids_hash :: "crypto \<Rightarrow> json list \<Rightarrow> string" where
  "group_member_ids_hash C ms =
     to_hex (sha256 C (dumps_ascii_compact (JArr (map JInt (sorted_list_of_set (set (map fst (normalize_group_members ms))))))))"

subsection \<open>What the normal form says\<close>

text \<open>The role of a user: admin if some entry makes it one.\<close>

definition members_set :: "json list \<Rightarrow> (int \<times> string) set" where
  "members_set ms = {p. \<exists>m \<in> set ms. member_of m = Some p}"

definition role_in :: "(int \<times> string) set \<Rightarrow> int \<Rightarrow> string" where
  "role_in S u = (if (u, ''admin'') \<in> S then ''admin'' else ''member'')"

lemma member_of_role: "member_of m = Some (u, role) \<Longrightarrow> 0 < u \<and> role \<in> {''admin'', ''member''}"
  by (auto simp: member_of_def split: prod.splits sum.splits if_splits)

definition good_table :: "(int \<times> string) list \<Rightarrow> (int \<times> string) set \<Rightarrow> bool" where
  "good_table t S = (\<forall>u. map_of t u = (if u \<in> fst ` S then Some (role_in S u) else None))"

lemma add_member_good:
  assumes "good_table t S"
  shows "good_table (add_member m t) (S \<union> {p. member_of m = Some p})"
proof (cases "member_of m")
  case None
  then show ?thesis using assms by (simp add: add_member_def)
next
  case (Some p)
  obtain u role where p: "p = (u, role)" by fastforce
  have r: "role = ''admin'' \<or> role = ''member''" using member_of_role [of m u role] Some p by auto
  have "{q. member_of m = Some q} = {(u, role)}" using Some p by auto
  moreover have "add_member m t = dset t u (if map_of t u = Some ''admin'' \<or> role = ''admin'' then ''admin'' else role)"
    by (simp add: add_member_def Some p)
  moreover have "map_of t u = Some ''admin'' \<longleftrightarrow> (u, ''admin'') \<in> S"
    using assms by (force simp: good_table_def role_in_def)
  ultimately show ?thesis using assms r by (auto simp: good_table_def update_conv' role_in_def)
qed

lemma fold_members_good: "good_table t S \<Longrightarrow> good_table (fold add_member ms t) (S \<union> members_set ms)"
proof (induction ms arbitrary: t S)
  case (Cons m ms)
  have "S \<union> members_set (m # ms) = (S \<union> {p. member_of m = Some p}) \<union> members_set ms" by (auto simp: members_set_def)
  then show ?case using Cons.IH [OF add_member_good [OF Cons.prems]] by simp
qed (simp add: members_set_def)

lemma normal_form:
  "normalize_group_members ms = map (\<lambda>u. (u, role_in (members_set ms) u)) (sorted_list_of_set (fst ` members_set ms))"
proof -
  have g: "good_table (fold add_member ms []) (members_set ms)"
    using fold_members_good [of "[]" "{}" ms] by (simp add: good_table_def)
  then have dom: "fst ` set (fold add_member ms []) = fst ` members_set ms"
    unfolding dom_map_of_conv_image_fst [symmetric] good_table_def by (auto simp: domIff split: if_splits)
  have fin: "finite (fst ` members_set ms)" unfolding dom [symmetric] by simp
  show ?thesis unfolding normalize_group_members_def Let_def dom
    using g fin by (intro map_cong refl) (auto simp: good_table_def dget_def)
qed

text \<open>
  The normal form of a member list: exactly the valid users of the list, once each and in
  ascending order, with role admin when some entry of the user says admin and member otherwise, so
  two lists that name the same users and roles in any order and with any repetitions have the same
  membership hash.
\<close>

theorem membership_normal_form:
  "normalize_group_members ms = map (\<lambda>u. (u, role_in (members_set ms) u)) (sorted_list_of_set (fst ` members_set ms))
   \<and> sorted (map fst (normalize_group_members ms)) \<and> distinct (map fst (normalize_group_members ms))
   \<and> (members_set ms = members_set ms' \<longrightarrow> group_membership_hash C ms = group_membership_hash C ms')"
proof -
  have "map fst (normalize_group_members ms) = sorted_list_of_set (fst ` members_set ms)"
    by (simp add: normal_form comp_def)
  then show ?thesis by (simp add: normal_form [of ms] normal_form [of ms'] group_membership_hash_def comp_def)
qed

theorem membership_normal_form_witness:
  "group_membership_hash toy_crypto [JInt 2, JObj [(''id'', JInt 1), (''role'', JStr ''admin'')]]
   = group_membership_hash toy_crypto [JObj [(''user_id'', JInt 1), (''role'', JStr ''admin'')], JInt 2, JInt 2, JInt (- 4)]"
proof -
  have "members_set [JInt 2, JObj [(''id'', JInt 1), (''role'', JStr ''admin'')]]
    = members_set [JObj [(''user_id'', JInt 1), (''role'', JStr ''admin'')], JInt 2, JInt 2, JInt (- 4)]"
    by (auto simp: members_set_def member_of_def member_value_def dget_def py_or_def)
  then show ?thesis using membership_normal_form by blast
qed

end
