(* ===== verification/Transcript.thy ===== *)
theory Transcript
  imports Cache Membership
begin

text \<open>
  Detection of an inconsistent server (\<open>client/crypto_engine/session.py\<close>,
  \<open>_load_transcript_state\<close> to \<open>verify_group_membership\<close>): the digests of the messages a
  conversation was seen to hold, the hash chain over them, the comparison of a history with them, and
  the signed checkpoints by which group members compare their views.
\<close>

subsection \<open>The transcript file\<close>

definition empty_transcript :: dict where
  "empty_transcript = [(''messages'', JObj [])]"

definition load_transcript_state :: "crypto \<Rightarrow> int \<Rightarrow> crypto_session \<Rightarrow> dict" where
  "load_transcript_state C conv s =
     (if \<not> can_store s \<or> \<not> has_file (transcript_path conv) s then empty_transcript
      else case rbind (read_sealed_json C s (transcript_path conv)) as_dict of
             Inl _ \<Rightarrow> empty_transcript
           | Inr d \<Rightarrow> if is_dict (dget d ''messages'' JNull) then d else empty_transcript)"

definition save_transcript_state :: "crypto \<Rightarrow> int \<Rightarrow> dict \<Rightarrow> crypto_session \<Rightarrow> crypto_session" where
  "save_transcript_state C conv state s =
     (if \<not> can_store s then s
      else snd (logged (write_sealed C (transcript_path conv) (dumps_plain (JObj state))) s))"

definition is_user_visible_body :: "json \<Rightarrow> bool" where
  "is_user_visible_body j =
     (let body = py_str (py_or j (JStr []))
      in body \<notin> {''__S2_CONTROL__'', ''__S3_INIT__''} \<and> body \<noteq> []
         \<and> \<not> starts_with body ''[Forward-secret]'' \<and> \<not> starts_with body ''[Cannot'' \<and> \<not> starts_with body ''[Encrypted'')"

subsection \<open>Digests and the chain\<close>

definition message_canonical :: "dict \<Rightarrow> json res" where
  "message_canonical item =
     rbind (py_int (py_or (dget item ''id'' (dget item ''msg_id'' (JInt 0))) (JInt 0))) (\<lambda>mid.
     rbind (py_int (py_or (dget item ''sender_id'' (dget item ''from_id'' (JInt 0))) (JInt 0))) (\<lambda>sender.
     rbind (int_or_0 item ''edit_target_message_id'') (\<lambda>edit.
       Inr (JObj [(''id'', JInt mid), (''sender_id'', JInt sender), (''body'', JStr (py_str (dget item ''body'' (JStr [])))),
                  (''edit_target'', JInt edit), (''deleted'', JBool (truthy (dget item ''deleted'' (JBool False))))]))))"

definition message_digest :: "crypto \<Rightarrow> dict \<Rightarrow> string res" where
  "message_digest C item = rbind (message_canonical item) (\<lambda>c. Inr (to_hex (sha256 C (canonical c))))"

definition canonical_transcript_checkpoint :: "dict \<Rightarrow> bytes" where
  "canonical_transcript_checkpoint payload =
     canonical (JObj (filter (\<lambda>kv. fst kv \<notin> {''sig'', ''checkpoint_hash''}) payload))"

definition transcript_checkpoint_hash :: "crypto \<Rightarrow> dict \<Rightarrow> string" where
  "transcript_checkpoint_hash C payload = to_hex (sha256 C (canonical_transcript_checkpoint payload))"

text \<open>The known messages with a positive id and a digest, by id (and digest).\<close>

definition transcript_messages :: "dict \<Rightarrow> dict" where
  "transcript_messages state = (case dget state ''messages'' (JObj []) of JObj m \<Rightarrow> m | _ \<Rightarrow> [])"

definition chain_items :: "dict \<Rightarrow> (int \<times> string) list" where
  "chain_items m = sort_key fst (sort_key snd (concat (map (\<lambda>(sid, digest).
     case (int_of_str sid, digest) of (Some mid, JStr d) \<Rightarrow> if 0 < mid \<and> d \<noteq> [] then [(mid, d)] else [] | _ \<Rightarrow> []) m)))"

definition link :: "int \<Rightarrow> int \<Rightarrow> string \<Rightarrow> string \<Rightarrow> json" where
  "link conv mid digest prev =
     JObj [(''domain'', JStr ''SecChatTranscript''), (''conversation_id'', JInt conv), (''message_id'', JInt mid),
           (''message_digest'', JStr digest), (''prev'', JStr prev)]"

fun chain_heads :: "crypto \<Rightarrow> int \<Rightarrow> string \<Rightarrow> (int \<times> string) list \<Rightarrow> dict \<Rightarrow> string \<times> dict" where
  "chain_heads C conv head [] heads = (head, heads)"
| "chain_heads C conv head ((mid, digest) # items) heads =
     (let head' = to_hex (sha256 C (canonical (link conv mid digest head)))
      in chain_heads C conv head' items (dset heads (show_int mid) (JStr head')))"

definition recompute_transcript_chain :: "crypto \<Rightarrow> int \<Rightarrow> dict \<Rightarrow> dict" where
  "recompute_transcript_chain C conv state =
     (let st = dsetdefault state ''messages'' (JObj []);
          items = chain_items (transcript_messages st);
          (head, heads) = chain_heads C conv (replicate 64 (CHR ''0'')) items []
      in dupdate st
           [(''transcript_head'', JStr (if items \<noteq> [] then head else [])),
            (''transcript_message_count'', JInt (int (length items))),
            (''transcript_first_message_id'', JInt (if items \<noteq> [] then fst (hd items) else 0)),
            (''transcript_last_message_id'', JInt (if items \<noteq> [] then fst (last items) else 0)),
            (''transcript_heads_by_id'', JObj heads)])"

definition record_transcript_message :: "crypto \<Rightarrow> int \<Rightarrow> int \<Rightarrow> int \<Rightarrow> string \<Rightarrow> string \<Rightarrow> int \<Rightarrow> bool \<Rightarrow> unit ses" where
  "record_transcript_message C conv mid sender body ts edit deleted s =
     (if mid = 0 \<or> \<not> is_user_visible_body (JStr body) then (Inr (), s)
      else let state = load_transcript_state C conv s
           in case message_digest C [(''id'', JInt mid), (''sender_id'', JInt sender), (''body'', JStr body), (''time'', JStr ts),
                     (''edit_target_message_id'', JInt edit), (''deleted'', JBool deleted)] of
                Inl e \<Rightarrow> (Inl e, s)
              | Inr digest \<Rightarrow>
                  let state1 = dset state ''messages'' (JObj (dset (transcript_messages state) (show_int mid) (JStr digest)));
                      state2 = dset (recompute_transcript_chain C conv state1) ''updated_at'' (time_now C s)
                  in (Inr (), save_transcript_state C conv state2 s))"

subsection \<open>Comparing a history\<close>

definition relevant_messages :: "dict list \<Rightarrow> dict list res" where
  "relevant_messages msgs =
     rbind (rmap (\<lambda>m. rbind (int_or_0 m ''id'') (\<lambda>mid.
        Inr (0 < mid \<and> is_user_visible_body (JStr (py_str (dget m ''body'' (JStr [])))), m))) msgs) (\<lambda>tagged.
     Inr (map snd (filter fst tagged)))"

fun compare_known :: "(string \<times> string) list \<Rightarrow> int \<Rightarrow> int \<Rightarrow> (int \<times> string \<times> json) list \<Rightarrow> string list" where
  "compare_known incoming lo hi [] = []"
| "compare_known incoming lo hi ((mid, sid, digest) # known) =
     (if lo \<le> mid \<and> mid \<le> hi \<and> \<not> dhas incoming sid
      then [''Previously seen message #'' @ show_int mid @ '' is missing from server history.'']
      else if dhas incoming sid \<and> JStr (dget incoming sid []) \<noteq> digest
      then [''Previously seen message #'' @ show_int mid @ '' changed in server history.'']
      else []) @ compare_known incoming lo hi known"

text \<open>\<open>sorted(known.items(), key=lambda item: int(item[0]))\<close>\<close>

definition known_by_id :: "dict \<Rightarrow> (int \<times> string \<times> json) list res" where
  "known_by_id m =
     rbind (rmap (\<lambda>(sid, digest). rbind (py_int (JStr sid)) (\<lambda>mid. Inr (mid, sid, digest))) m) (\<lambda>items.
     Inr (sort_key fst items))"

definition order_warning :: "int list \<Rightarrow> string list" where
  "order_warning ids = (if ids \<noteq> sort ids then [''Server returned this history out of message order.''] else [])"

definition history_warnings :: "int list \<Rightarrow> (string \<times> string) list \<Rightarrow> (int \<times> string \<times> json) list \<Rightarrow> string list" where
  "history_warnings ids incoming known =
     order_warning ids @ compare_known incoming (Min (set ids)) (Max (set ids)) known"

definition verify_history_consistency :: "crypto \<Rightarrow> int \<Rightarrow> dict list \<Rightarrow> string list ses" where
  "verify_history_consistency C conv msgs s =
     (case rbind (relevant_messages msgs) (\<lambda>relevant.
        if relevant = [] then Inr None
        else rbind (rmap (\<lambda>m. int_or_0 m ''id'') relevant) (\<lambda>ids.
             rbind (rmap (message_digest C) relevant) (\<lambda>digests.
             let incoming = dupdate [] (zip (map show_int ids) digests);
                 state = dsetdefault (load_transcript_state C conv s) ''messages'' (JObj [])
             in rbind (known_by_id (transcript_messages state)) (\<lambda>known.
                let warnings = history_warnings ids incoming known;
                    messages = dupdate (transcript_messages state) (map (\<lambda>(k, v). (k, JStr v)) incoming);
                    window = to_hex (sha256 C (join ''|'' (map (\<lambda>i. show_int i @ '':'' @ dget incoming (show_int i) []) ids)));
                    state1 = dset (dset state ''messages'' (JObj messages)) ''last_window_hash'' (JStr window);
                    state2 = dset (recompute_transcript_chain C conv state1) ''updated_at'' (time_now C s)
                in Inr (Some (warnings, state2)))))) of
        Inl e \<Rightarrow> (Inl e, s)
      | Inr None \<Rightarrow> (Inr [], s)
      | Inr (Some (warnings, state)) \<Rightarrow> (Inr (take 3 warnings), save_transcript_state C conv state s))"

subsection \<open>Checkpoints\<close>

definition checkpoint_payload :: "crypto \<Rightarrow> int \<Rightarrow> dict \<Rightarrow> int \<Rightarrow> int \<Rightarrow> int \<Rightarrow> string \<Rightarrow> crypto_session \<Rightarrow> dict" where
  "checkpoint_payload C conv state count first_id last_id head s =
     [(''v'', JInt 2), (''event'', JStr ''transcript_checkpoint''), (''conversation_id'', JInt conv), (''actor_uid'', JInt (uid s)),
      (''message_count'', JInt count), (''first_message_id'', JInt first_id), (''last_message_id'', JInt last_id),
      (''transcript_head'', JStr head),
      (''prev_checkpoint_hash'', JStr (py_str (py_or (dget state ''last_own_transcript_checkpoint_hash'' (JStr [])) (JStr [])))),
      (''identity_pk'', JStr (b64encode (identity_pk s))), (''ts'', JInt (now_ms C s))]"

definition create_transcript_checkpoint :: "crypto \<Rightarrow> int \<Rightarrow> string ses" where
  "create_transcript_checkpoint C conv s =
     (if identity_sk s = [] \<or> identity_pk s = [] then (Inl (CryptoStateError ''Identity key is not loaded.''), s)
      else let state = recompute_transcript_chain C conv (load_transcript_state C conv s)
           in case rbind (int_or_0 state ''transcript_message_count'') (\<lambda>count.
                   rbind (int_or_0 state ''transcript_first_message_id'') (\<lambda>first_id.
                   rbind (int_or_0 state ''transcript_last_message_id'') (\<lambda>last_id.
                   let head = py_str (py_or (dget state ''transcript_head'' (JStr [])) (JStr []))
                   in if count \<le> 0 \<or> first_id \<le> 0 \<or> last_id \<le> 0 \<or> head = [] then Inr None
                      else let payload = checkpoint_payload C conv state count first_id last_id head s
                           in rbind (identity_sign C (identity_sk s) (canonical_transcript_checkpoint payload)) (\<lambda>sig.
                                Inr (Some (payload @ [(''sig'', JStr (b64encode sig))])))))) of
                Inl e \<Rightarrow> (Inl e, s)
              | Inr None \<Rightarrow> (Inr [], s)
              | Inr (Some signed) \<Rightarrow>
                  let h = transcript_checkpoint_hash C signed;
                      payload = signed @ [(''checkpoint_hash'', JStr h)];
                      state' = dupdate state [(''last_own_transcript_checkpoint_hash'', JStr h),
                                 (''last_own_transcript_checkpoint'', JObj payload), (''updated_at'', time_now C s)]
                  in (Inr (PREFIX_MLS @ json_b64 (JObj payload)), save_transcript_state C conv state' s))"

text \<open>The fields of a peer's checkpoint: actor, first and last message id, head and identity key.\<close>

definition checkpoint_fields :: "dict \<Rightarrow> (int \<times> int \<times> int \<times> string \<times> string) res" where
  "checkpoint_fields payload =
     rbind (int_or_0 payload ''actor_uid'') (\<lambda>actor.
     rbind (int_or_0 payload ''first_message_id'') (\<lambda>first_id.
     rbind (int_or_0 payload ''last_message_id'') (\<lambda>last_id.
       Inr (actor, first_id, last_id, py_str (py_or (dget payload ''transcript_head'' (JStr [])) (JStr [])),
            py_str (py_or (dget payload ''identity_pk'' (JStr [])) (JStr []))))))"

definition ascii_b64decode :: "string \<Rightarrow> bytes res" where
  "ascii_b64decode s = rbind (ascii_encode s) b64decode"

definition checkpoint_signature :: "crypto \<Rightarrow> dict \<Rightarrow> string \<Rightarrow> unit res" where
  "checkpoint_signature C payload identity_pk_b64 =
     rbind (ascii_b64decode identity_pk_b64) (\<lambda>pk.
     rbind (ascii_b64decode (py_str (dget payload ''sig'' (JStr [])))) (\<lambda>sig.
       identity_verify C pk (canonical_transcript_checkpoint payload) sig))"

text \<open>The checks of the \<open>try\<close> block: the warnings collected and whether it raised.\<close>

definition checkpoint_checks :: "crypto \<Rightarrow> int \<Rightarrow> dict \<Rightarrow> bool \<Rightarrow> string list \<times> bool" where
  "checkpoint_checks C conv payload verify =
     (case int_or_0 payload ''conversation_id'' of
        Inl _ \<Rightarrow> ([], True)
      | Inr c \<Rightarrow>
          let w1 = (if c \<noteq> conv then [''Transcript checkpoint targets a different conversation.''] else []);
              w2 = (if py_str (py_or (dget payload ''event'' (JStr [])) (JStr [])) \<noteq> ''transcript_checkpoint''
                    then [''Transcript checkpoint has an invalid event type.''] else [])
          in case rbind (checkpoint_fields payload) (\<lambda>f. rbind (int_or_0 payload ''message_count'') (\<lambda>n. Inr (f, n))) of
               Inl _ \<Rightarrow> (w1 @ w2, True)
             | Inr ((actor, first_id, last_id, head, pk), count) \<Rightarrow>
                 let w3 = (if actor \<le> 0 \<or> first_id \<le> 0 \<or> last_id \<le> 0 \<or> count \<le> 0 \<or> py_len head \<noteq> 64
                           then [''Transcript checkpoint is missing required fields.''] else [])
                 in (w1 @ w2 @ w3, verify \<and> (case checkpoint_signature C payload pk of Inl _ \<Rightarrow> True | Inr _ \<Rightarrow> False)))"

definition peer_view_warnings :: "dict \<Rightarrow> dict \<Rightarrow> int \<Rightarrow> string \<Rightarrow> string list res" where
  "peer_view_warnings previous payload last_id head =
     rbind (int_or_0 previous ''last_message_id'') (\<lambda>prev_last.
     let prev_head = py_str (py_or (dget previous ''transcript_head'' (JStr [])) (JStr []));
         prev_hash = py_str (py_or (dget previous ''checkpoint_hash'' (JStr [])) (JStr []));
         declared = py_str (py_or (dget payload ''prev_checkpoint_hash'' (JStr [])) (JStr []))
     in Inr ((if last_id < prev_last then [''Transcript checkpoint rolled back a peer view.''] else [])
          @ (if last_id = prev_last \<and> prev_head \<noteq> [] \<and> head \<noteq> [] \<and> prev_head \<noteq> head
             then [''Transcript checkpoint changed a peer view at the same message.''] else [])
          @ (if declared \<noteq> [] \<and> prev_hash \<noteq> [] \<and> declared \<noteq> prev_hash
             then [''Transcript checkpoint chain does not continue the previous peer checkpoint.''] else [])))"

definition order_mismatch :: string where
  "order_mismatch = ''Transcript checkpoint does not match the local message order.''"

definition local_view_warnings :: "dict \<Rightarrow> int \<Rightarrow> int \<Rightarrow> string \<Rightarrow> string list res" where
  "local_view_warnings state first_id last_id head =
     rbind (int_or_0 state ''transcript_first_message_id'') (\<lambda>local_first.
       if local_first > 0 \<and> first_id > 0 \<and> local_first = first_id
       then let at_last = (case dget state ''transcript_heads_by_id'' (JObj []) of
                             JObj heads \<Rightarrow> dget heads (show_int last_id) JNull | _ \<Rightarrow> JStr [])
            in if truthy at_last \<and> head \<noteq> [] \<and> at_last \<noteq> JStr head then Inr [order_mismatch]
               else rbind (int_or_0 state ''transcript_last_message_id'') (\<lambda>local_last.
                    let local_head = py_str (py_or (dget state ''transcript_head'' (JStr [])) (JStr []))
                    in Inr (if local_last = last_id \<and> local_head \<noteq> [] \<and> head \<noteq> [] \<and> local_head \<noteq> head
                            then [order_mismatch] else []))
       else Inr [])"

definition stored_checkpoint :: "crypto \<Rightarrow> dict \<Rightarrow> int \<Rightarrow> int \<Rightarrow> int \<Rightarrow> string \<Rightarrow> string \<Rightarrow> crypto_session \<Rightarrow> dict res" where
  "stored_checkpoint C payload actor first_id last_id head pk s =
     rbind (int_or_0 payload ''message_count'') (\<lambda>count.
     rbind (int_or_0 payload ''ts'') (\<lambda>ts.
       Inr [(''actor_uid'', JInt actor), (''identity_pk'', JStr pk), (''message_count'', JInt count),
            (''first_message_id'', JInt first_id), (''last_message_id'', JInt last_id), (''transcript_head'', JStr head),
            (''prev_checkpoint_hash'', JStr (py_str (py_or (dget payload ''prev_checkpoint_hash'' (JStr [])) (JStr [])))),
            (''checkpoint_hash'', JStr (transcript_checkpoint_hash C payload)), (''ts'', JInt ts), (''seen_at'', time_now C s)]))"

definition record_transcript_checkpoint :: "crypto \<Rightarrow> int \<Rightarrow> dict \<Rightarrow> bool \<Rightarrow> string list ses" where
  "record_transcript_checkpoint C conv payload verify s =
     (let (checked, raised) = checkpoint_checks C conv payload verify;
          w0 = checked @ (if raised then [''Transcript checkpoint has an invalid signature or encoding.''] else [])
      in case rbind (checkpoint_fields payload) (\<lambda>(actor, first_id, last_id, head, pk).
              let state = dsetdefault (recompute_transcript_chain C conv (load_transcript_state C conv s))
                            ''peer_transcript_checkpoints'' (JObj []);
                  peer_key = (if pk \<noteq> [] then pk else ''uid:'' @ show_int actor)
              in rbind (case dget state ''peer_transcript_checkpoints'' JNull of
                          JObj peers \<Rightarrow> (case dget peers peer_key JNull of
                              JObj previous \<Rightarrow> peer_view_warnings previous payload last_id head
                            | _ \<Rightarrow> Inr [])
                        | _ \<Rightarrow> Inr []) (\<lambda>w1.
                 rbind (local_view_warnings state first_id last_id head) (\<lambda>w2.
                 rbind (stored_checkpoint C payload actor first_id last_id head pk s) (\<lambda>stored.
                 rbind (case dget state ''peer_transcript_checkpoints'' JNull of
                          JObj peers \<Rightarrow> Inr peers | _ \<Rightarrow> Inl (TypeError ''indices must be integers'')) (\<lambda>peers.
                   Inr (w0 @ w1 @ w2,
                        dupdate state [(''peer_transcript_checkpoints'', JObj (dset peers peer_key (JObj stored))),
                                       (''updated_at'', time_now C s)])))))) of
           Inl e \<Rightarrow> (Inl e, s)
         | Inr (warnings, state) \<Rightarrow>
             (Inr (take 5 warnings), fold (add_control_warning conv) warnings (save_transcript_state C conv state s)))"

definition verify_group_membership :: "crypto \<Rightarrow> int \<Rightarrow> json list \<Rightarrow> crypto_session \<Rightarrow> string list \<times> crypto_session" where
  "verify_group_membership C conv members s =
     (let canonical_members = (case members_json (normalize_group_members members) of JArr xs \<Rightarrow> xs | _ \<Rightarrow> []);
          state = dupdate (load_transcript_state C conv s)
            [(''membership_hash'', JStr (group_membership_hash C canonical_members)),
             (''member_ids_hash'', JStr (group_member_ids_hash C canonical_members)),
             (''membership_members'', JArr canonical_members), (''membership_updated_at'', time_now C s)]
      in ([], save_transcript_state C conv state s))"

subsection \<open>What is saved is loaded\<close>

lemma wire_ok_dupdate:
  assumes "wire_ok (JObj d)" and "\<forall>kv \<in> set kvs. utf8_valid (fst kv) \<and> wire_ok (snd kv)"
  shows "wire_ok (JObj (dupdate d kvs))"
  using assms
proof (induction d kvs rule: dupdate.induct)
  case (2 d k v kvs)
  have "wire_ok (JObj (dset d k v))" using 2(2,3) by (intro wire_ok_dset) simp_all
  then show ?case using 2 by simp
qed simp

lemma wire_ok_dsetdefault:
  "wire_ok (JObj d) \<Longrightarrow> wire_ok v \<Longrightarrow> utf8_valid k \<Longrightarrow> wire_ok (JObj (dsetdefault d k v))"
  by (auto simp: dsetdefault_def dhas_def map_of_eq_None_iff)

lemma wire_ok_dget: "wire_ok (JObj d) \<Longrightarrow> wire_ok x \<Longrightarrow> wire_ok (dget d k x)"
  by (auto simp: dget_def list_all_iff dest: map_of_SomeD split: option.split)

lemma chain_heads_ok: "wire_ok (JObj heads) \<Longrightarrow> wire_ok (JObj (snd (chain_heads C conv head items heads)))"
proof (induction C conv head items heads rule: chain_heads.induct)
  case (2 C conv head mid digest items heads)
  let ?h = "to_hex (sha256 C (canonical (link conv mid digest head)))"
  have "wire_ok (JObj (dset heads (show_int mid) (JStr ?h)))"
    using 2(2) by (intro wire_ok_dset) (simp_all add: ascii_utf8)
  then show ?case using 2(1) by (simp add: Let_def)
qed simp

lemma chain_head_ascii: "is_ascii head \<Longrightarrow> is_ascii (fst (chain_heads C conv head items heads))"
  by (induction C conv head items heads rule: chain_heads.induct) (simp_all add: Let_def)

lemma recompute_ok:
  assumes "wire_ok (JObj state)"
  shows "wire_ok (JObj (recompute_transcript_chain C conv state))"
proof -
  let ?st = "dsetdefault state ''messages'' (JObj [])"
  let ?items = "chain_items (transcript_messages ?st)"
  obtain head heads where ch: "chain_heads C conv (replicate 64 (CHR ''0'')) ?items [] = (head, heads)" by fastforce
  have "wire_ok (JObj heads)" using chain_heads_ok [of "[]" C conv "replicate 64 (CHR ''0'')" ?items] by (simp add: ch)
  moreover have "is_ascii (replicate 64 (CHR ''0''))" by (simp add: is_ascii_set)
  then have "is_ascii head" using chain_head_ascii [of "replicate 64 (CHR ''0'')" C conv ?items "[]"] by (simp add: ch)
  moreover have "wire_ok (JObj ?st)" using assms by (rule wire_ok_dsetdefault) simp_all
  ultimately show ?thesis
    unfolding recompute_transcript_chain_def Let_def ch prod.case
    by (intro wire_ok_dupdate) (auto simp: ascii_utf8)
qed

lemma recompute_messages:
  "dget (recompute_transcript_chain C conv state) ''messages'' x = dget (dsetdefault state ''messages'' (JObj [])) ''messages'' x"
  by (simp add: recompute_transcript_chain_def Let_def split: prod.split)

lemma time_now_ok: "0 \<le> now_ms C s \<Longrightarrow> wire_ok (time_now C s)"
  using float_of_ms_read(1,2) [of "now_ms C s"] by (auto simp: wire_ok_def time_now_def)

lemma transcript_saved:
  assumes "key_ok C s" and "can_store s" and "wire_ok (JObj state)" and "is_dict (dget state ''messages'' JNull)"
  shows "load_transcript_state C conv (save_transcript_state C conv state s) = state"
    and "key_ok C (save_transcript_state C conv state s)" and "can_store (save_transcript_state C conv state s)"
proof -
  have "utf8_valid (dumps_plain (JObj state))" using assms(3) by (simp only: wire_ok_def utf8_valid_dumps_plain)
  then obtain s' where w: "write_sealed C (transcript_path conv) (dumps_plain (JObj state)) s = (Inr (), s')"
    "stores C s' (transcript_path conv) (dumps_plain (JObj state))" "s' = s\<lparr> tick := tick s + 1, disk := disk s' \<rparr>"
    by (rule write_stores [OF assms(1)]) blast
  have save: "save_transcript_state C conv state s = s'" using assms(2) by (simp add: save_transcript_state_def w(1))
  have keep: "can_store s' = can_store s" "key_ok C s' = key_ok C s" by (subst w(3), simp add: can_store_def key_ok_def)+
  have "loads (dumps_plain (JObj state)) = Inr (JObj state)" using assms(3) by (intro loads_dumps_plain) (simp add: wire_ok_def)
  then have rd: "rbind (read_sealed_json C s' (transcript_path conv)) as_dict = Inr state"
    using w(2) by (simp add: stores_def read_sealed_json_def)
  then show "load_transcript_state C conv (save_transcript_state C conv state s) = state"
    using keep assms(2,4) w(2) by (simp only: save load_transcript_state_def rd) (simp add: stores_def)
  show "key_ok C (save_transcript_state C conv state s)" and "can_store (save_transcript_state C conv state s)"
    using keep assms(1,2) by (simp_all add: save)
qed

lemma loaded_messages: "is_dict (dget (load_transcript_state C conv s) ''messages'' JNull)"
proof -
  have "is_dict (JObj d)" for d by (simp add: is_dict_def)
  then show ?thesis by (simp add: load_transcript_state_def empty_transcript_def dget_def split: sum.split)
qed

lemma loaded_transcript:
  obtains m where "map_of (load_transcript_state C conv s) ''messages'' = Some (JObj m)" and "transcript_messages (load_transcript_state C conv s) = m"
  using loaded_messages [of C conv s] by (auto simp: is_dict_def transcript_messages_def dget_def split: json.splits option.splits)

subsection \<open>Warnings\<close>

text \<open>A known digest agrees with the window the server returned.\<close>

definition agrees :: "(string \<times> string) list \<Rightarrow> int \<Rightarrow> int \<Rightarrow> int \<times> string \<times> json \<Rightarrow> bool" where
  "agrees incoming lo hi k = (case k of (mid, sid, digest) \<Rightarrow>
     (lo \<le> mid \<and> mid \<le> hi \<longrightarrow> dhas incoming sid) \<and> (dhas incoming sid \<longrightarrow> digest = JStr (dget incoming sid [])))"

lemma compare_known_Nil: "compare_known incoming lo hi known = [] \<longleftrightarrow> (\<forall>k \<in> set known. agrees incoming lo hi k)"
  by (induction incoming lo hi known rule: compare_known.induct) (auto simp: agrees_def)

lemma history_warnings_Nil:
  "history_warnings ids incoming known = [] \<longleftrightarrow>
     sorted ids \<and> (\<forall>k \<in> set known. agrees incoming (Min (set ids)) (Max (set ids)) k)"
proof -
  have "ids = sort ids \<longleftrightarrow> sorted ids" by (metis sorted_sort sorted_sort_id)
  then show ?thesis by (simp add: history_warnings_def order_warning_def compare_known_Nil)
qed

text \<open>The digest of a plain message, and the window a list of such messages makes.\<close>

definition item_of :: "int \<Rightarrow> int \<Rightarrow> string \<Rightarrow> dict" where
  "item_of mid sender body = [(''id'', JInt mid), (''sender_id'', JInt sender), (''body'', JStr body)]"

definition plain_digest :: "crypto \<Rightarrow> int \<Rightarrow> int \<Rightarrow> string \<Rightarrow> string" where
  "plain_digest C mid sender body = to_hex (sha256 C (canonical (JObj [(''id'', JInt mid), (''sender_id'', JInt sender),
     (''body'', JStr body), (''edit_target'', JInt 0), (''deleted'', JBool False)])))"

lemma item_digest:
  "message_digest C (item_of mid sender body) = Inr (plain_digest C mid sender body)"
  "message_digest C [(''id'', JInt mid), (''sender_id'', JInt sender), (''body'', JStr body), (''time'', JStr ts),
     (''edit_target_message_id'', JInt 0), (''deleted'', JBool False)] = Inr (plain_digest C mid sender body)"
  by (simp_all add: message_digest_def message_canonical_def item_of_def plain_digest_def dget_def int_or_0_def)

definition visible_item :: "int \<times> int \<times> string \<Rightarrow> bool" where
  "visible_item m = (case m of (mid, sender, body) \<Rightarrow> 0 < mid \<and> is_user_visible_body (JStr body))"

definition items :: "(int \<times> int \<times> string) list \<Rightarrow> dict list" where
  "items ms = map (\<lambda>(mid, sender, body). item_of mid sender body) ms"

definition window :: "crypto \<Rightarrow> (int \<times> int \<times> string) list \<Rightarrow> (string \<times> string) list" where
  "window C ms = dupdate [] (map (\<lambda>(mid, sender, body). (show_int mid, plain_digest C mid sender body)) ms)"

lemma relevant_items:
  "list_all visible_item ms \<Longrightarrow> relevant_messages (items ms) = Inr (items ms)"
  "rmap (\<lambda>m. int_or_0 m ''id'') (items ms) = Inr (map fst ms)"
  "rmap (message_digest C) (items ms) = Inr (map (\<lambda>(mid, sender, body). plain_digest C mid sender body) ms)"
proof -
  have id: "int_or_0 (item_of mid sender body) ''id'' = Inr mid" for mid sender body
    by (simp add: item_of_def int_or_0_def dget_def)
  show "rmap (\<lambda>m. int_or_0 m ''id'') (items ms) = Inr (map fst ms)"
    by (induction ms) (auto simp: items_def id)
  show "rmap (message_digest C) (items ms) = Inr (map (\<lambda>(mid, sender, body). plain_digest C mid sender body) ms)"
    by (induction ms) (auto simp: items_def item_digest)
  assume "list_all visible_item ms"
  then have "rmap (\<lambda>m. rbind (int_or_0 m ''id'') (\<lambda>mid. Inr (0 < mid \<and> is_user_visible_body (JStr (py_str (dget m ''body'' (JStr [])))), m))) (items ms)
      = Inr (map (Pair True) (items ms))"
    by (induction ms) (auto simp: items_def id visible_item_def, auto simp: item_of_def dget_def)
  then show "relevant_messages (items ms) = Inr (items ms)"
    by (simp add: relevant_messages_def comp_def)
qed

text \<open>The known messages all have numeric ids, which is how the code writes them.\<close>

definition numbered :: "dict \<Rightarrow> bool" where
  "numbered m = (\<forall>(sid, d) \<in> set m. \<exists>i. sid = show_int i)"

lemma known_numbered:
  assumes "numbered m"
  obtains known where "known_by_id m = Inr known"
    and "set known = {(i, show_int i, d) | i d. (show_int i, d) \<in> set m}"
proof -
  have "\<exists>xs. rmap (\<lambda>(sid, digest). rbind (py_int (JStr sid)) (\<lambda>mid. Inr (mid, sid, digest))) m = Inr xs
    \<and> set xs = {(i, show_int i, d) | i d. (show_int i, d) \<in> set m}"
    using assms by (induction m) (fastforce simp: numbered_def)+
  then show ?thesis using that by (auto simp: known_by_id_def)
qed

lemma verify_items:
  assumes "list_all visible_item ms" and "ms \<noteq> []" and "numbered (transcript_messages (load_transcript_state C conv s))"
  shows "\<exists>ws s'. verify_history_consistency C conv (items ms) s = (Inr ws, s')
    \<and> (ws = [] \<longleftrightarrow> sorted (map fst ms) \<and> (\<forall>i d. (show_int i, d) \<in> set (transcript_messages (load_transcript_state C conv s)) \<longrightarrow>
         agrees (window C ms) (Min (set (map fst ms))) (Max (set (map fst ms))) (i, show_int i, d)))"
proof -
  obtain m where m: "map_of (load_transcript_state C conv s) ''messages'' = Some (JObj m)"
    "transcript_messages (load_transcript_state C conv s) = m" by (rule loaded_transcript)
  have dd: "dsetdefault (load_transcript_state C conv s) ''messages'' (JObj []) = load_transcript_state C conv s"
    using m(1) by (simp add: dsetdefault_def dhas_def)
  obtain known where k: "known_by_id m = Inr known" "set known = {(i, show_int i, d) | i d. (show_int i, d) \<in> set m}"
    by (rule known_numbered [OF assms(3) [unfolded m(2)]])
  have inc: "dupdate [] (zip (map (show_int \<circ> fst) ms) (map (\<lambda>(mid, sender, body). plain_digest C mid sender body) ms)) = window C ms"
    by (simp add: window_def zip_map_map zip_same_conv_map comp_def split_def)
  have ne: "items ms \<noteq> []" using assms(2) by (simp add: items_def)
  let ?w = "history_warnings (map fst ms) (window C ms) known"
  have "fst (verify_history_consistency C conv (items ms) s) = Inr (take 3 ?w)"
    by (simp add: verify_history_consistency_def relevant_items assms(1) ne Let_def dd inc m(2) k(1))
  then obtain s' where run: "verify_history_consistency C conv (items ms) s = (Inr (take 3 ?w), s')" by (metis prod.collapse)
  have "take 3 ?w = [] \<longleftrightarrow> ?w = []" by simp
  also have "\<dots> \<longleftrightarrow> sorted (map fst ms) \<and> (\<forall>i d. (show_int i, d) \<in> set m \<longrightarrow>
         agrees (window C ms) (Min (set (map fst ms))) (Max (set (map fst ms))) (i, show_int i, d))"
    unfolding history_warnings_Nil k(2) by blast
  finally show ?thesis unfolding m(2) using run by blast
qed

lemma window_keys: "dhas (window C ms) (show_int i) \<longleftrightarrow> i \<in> set (map fst ms)"
proof -
  have "dhas (dupdate d kvs) k \<longleftrightarrow> k \<in> fst ` set kvs \<or> dhas d k" for d :: "(string \<times> string) list" and kvs k
    by (induction d kvs rule: dupdate.induct) auto
  then have "dhas (window C ms) (show_int i) \<longleftrightarrow> show_int i \<in> show_int ` set (map fst ms)"
    by (simp add: window_def dhas_def image_image split_def)
  also have "\<dots> \<longleftrightarrow> i \<in> set (map fst ms)" by (rule inj_image_mem_iff) (simp add: inj_def)
  finally show ?thesis .
qed

lemma record_message_loaded:
  assumes "key_ok C s" and "can_store s" and "0 \<le> now_ms C s" and "wire_ok (JObj (load_transcript_state C conv s))"
    and "visible_item (mid, sender, body)"
    and "record_transcript_message C conv mid sender body ts 0 False s = (r, s')"
  shows "r = Inr ()" and "transcript_messages (load_transcript_state C conv s') =
      dset (transcript_messages (load_transcript_state C conv s)) (show_int mid) (JStr (plain_digest C mid sender body))"
    and "key_ok C s'" and "can_store s'"
proof -
  obtain m where m: "map_of (load_transcript_state C conv s) ''messages'' = Some (JObj m)"
    "transcript_messages (load_transcript_state C conv s) = m" by (rule loaded_transcript)
  let ?st = "load_transcript_state C conv s"
  let ?m' = "dset m (show_int mid) (JStr (plain_digest C mid sender body))"
  let ?st1 = "dset ?st ''messages'' (JObj ?m')"
  let ?st2 = "dset (recompute_transcript_chain C conv ?st1) ''updated_at'' (time_now C s)"
  have mok: "wire_ok (JObj m)" using wire_ok_dget [OF assms(4), of JNull "''messages''"] m(1)
    by (simp add: dget_def del: wire_ok_simps(6))
  have "wire_ok (JObj ?m')" by (rule wire_ok_dset [OF mok]) (simp_all add: ascii_utf8 plain_digest_def)
  then have "wire_ok (JObj ?st1)" by (rule wire_ok_dset [OF assms(4)]) (simp add: ascii_utf8)
  then have ok: "wire_ok (JObj ?st2)"
    by (rule wire_ok_dset [OF recompute_ok time_now_ok [OF assms(3)]]) (simp add: ascii_utf8)
  have msgs: "dget ?st2 ''messages'' x = JObj ?m'" for x
    by (simp add: recompute_messages) (simp add: dget_def map_of_dsetdefault update_conv' dhas_def)
  then have d: "is_dict (dget ?st2 ''messages'' JNull)" by (simp add: is_dict_def)
  have run: "record_transcript_message C conv mid sender body ts 0 False s = (Inr (), save_transcript_state C conv ?st2 s)"
    using assms(5) by (simp add: record_transcript_message_def visible_item_def item_digest Let_def m(2))
  then have r: "r = Inr ()" "s' = save_transcript_state C conv ?st2 s" using assms(6) by simp_all
  show "r = Inr ()" by (rule r)
  note saved = transcript_saved [OF assms(1,2) ok d, of conv]
  show "key_ok C s'" and "can_store s'" using saved r by simp_all
  show "transcript_messages (load_transcript_state C conv s') = dset (transcript_messages ?st) (show_int mid) (JStr (plain_digest C mid sender body))"
    using saved(1) msgs by (simp add: r(2) transcript_messages_def [of ?st2] m(2))
qed

text \<open>
  C34: (safety) A server that hides or alters a message the client has recorded is noticed when the window
  reaches around it. Once a message is in the transcript, a later history window draws a warning when it
  has ids on both sides of the message and leaves it out, and when it contains its id and the digest of what it
  returns differs; a window that is in order and agrees with everything recorded between its least
  and its greatest id draws none. So a server that leaves out the newest or the oldest recorded messages draws no
  warning. The recorded message and those of the window are visible, not edited and not deleted, and the
  window is not empty.
\<close>

theorem tampered_history_noticed:
  assumes "key_ok C s" and "can_store s" and "0 \<le> now_ms C s" and "wire_ok (JObj (load_transcript_state C conv s))"
    and "numbered (transcript_messages (load_transcript_state C conv s))" and "visible_item (mid, sender, body)"
    and "record_transcript_message C conv mid sender body ts 0 False s = (r, s')"
    and "list_all visible_item ms" and "ms \<noteq> []"
  shows "\<exists>ws s''. verify_history_consistency C conv (items ms) s' = (Inr ws, s'')
    \<and> (mid \<notin> set (map fst ms) \<and> Min (set (map fst ms)) \<le> mid \<and> mid \<le> Max (set (map fst ms)) \<longrightarrow> ws \<noteq> [])
    \<and> (mid \<in> set (map fst ms) \<and> dget (window C ms) (show_int mid) [] \<noteq> plain_digest C mid sender body \<longrightarrow> ws \<noteq> [])
    \<and> (sorted (map fst ms) \<and> (\<forall>i d. (show_int i, d) \<in> set (transcript_messages (load_transcript_state C conv s')) \<longrightarrow>
          agrees (window C ms) (Min (set (map fst ms))) (Max (set (map fst ms))) (i, show_int i, d)) \<longrightarrow> ws = [])"
proof -
  note rec = record_message_loaded [OF assms(1-4,6,7)]
  have "numbered (transcript_messages (load_transcript_state C conv s'))"
    unfolding rec(2) using assms(5) by (fastforce simp: numbered_def dest: set_dset)
  from verify_items [OF assms(8,9) this]
  obtain ws s'' where v: "verify_history_consistency C conv (items ms) s' = (Inr ws, s'')"
    and iff: "ws = [] \<longleftrightarrow> sorted (map fst ms) \<and> (\<forall>i d. (show_int i, d) \<in> set (transcript_messages (load_transcript_state C conv s')) \<longrightarrow>
         agrees (window C ms) (Min (set (map fst ms))) (Max (set (map fst ms))) (i, show_int i, d))" by blast
  have "(show_int mid, JStr (plain_digest C mid sender body)) \<in> set (transcript_messages (load_transcript_state C conv s'))"
    unfolding rec(2) by (rule map_of_SomeD) (simp add: update_conv')
  then have "ws = [] \<Longrightarrow> agrees (window C ms) (Min (set (map fst ms))) (Max (set (map fst ms))) (mid, show_int mid, JStr (plain_digest C mid sender body))"
    using iff by blast
  then have "ws = [] \<Longrightarrow> (Min (set (map fst ms)) \<le> mid \<and> mid \<le> Max (set (map fst ms)) \<longrightarrow> mid \<in> set (map fst ms))
      \<and> (mid \<in> set (map fst ms) \<longrightarrow> plain_digest C mid sender body = dget (window C ms) (show_int mid) [])"
    unfolding agrees_def prod.case window_keys json.inject .
  then show ?thesis using v iff by metis
qed

theorem tampered_history_noticed_witness:
  "\<exists>ws s''. verify_history_consistency toy_crypto 5 (items [(1, 2, ''a''), (3, 2, ''c'')])
      (snd (record_transcript_message toy_crypto 5 2 7 ''b'' [] 0 False demo_session)) = (Inr ws, s'') \<and> ws \<noteq> []"
proof -
  have load: "load_transcript_state toy_crypto 5 demo_session = [(''messages'', JObj [])]"
    by (simp add: load_transcript_state_def has_file_def dhas_def demo_session_def empty_transcript_def)
  have vis: "visible_item (2, 7, ''b'')" "list_all visible_item [(1, 2, ''a''), (3, 2, ''c'')]"
    by (simp_all add: visible_item_def is_user_visible_body_def)
  obtain r s' where r: "record_transcript_message toy_crypto 5 2 7 ''b'' [] 0 False demo_session = (r, s')" by fastforce
  have "0 \<le> now_ms toy_crypto demo_session" by (simp add: now_ms_def toy_crypto_def demo_session_def)
  moreover have "wire_ok (JObj (load_transcript_state toy_crypto 5 demo_session))"
    "numbered (transcript_messages (load_transcript_state toy_crypto 5 demo_session))"
    by (simp_all add: load numbered_def transcript_messages_def dget_def ascii_utf8)
  ultimately obtain ws s'' where "verify_history_consistency toy_crypto 5 (items [(1, 2, ''a''), (3, 2, ''c'')]) s' = (Inr ws, s'')"
    "2 \<notin> set (map fst [(1::int, 2::int, ''a''), (3, 2, ''c'')]) \<and> Min (set (map fst [(1::int, 2::int, ''a''), (3, 2, ''c'')])) \<le> 2
        \<and> 2 \<le> Max (set (map fst [(1::int, 2::int, ''a''), (3, 2, ''c'')])) \<longrightarrow> ws \<noteq> []"
    using tampered_history_noticed [OF demo_stores _ _ _ vis(1) r vis(2)] by blast
  then show ?thesis using r by auto
qed

end
