(* ===== verification/Identity_State.thy ===== *)
theory Identity_State
  imports Session
begin

text \<open>
  What the client remembers of its peers' identities (\<open>client/crypto_engine/session.py\<close>,
  \<open>load_verified\<close> to \<open>mark_identity_reviewed\<close>): the verified flag of a conversation, the
  audit state of a peer's identity key with its history, and the pinned checkpoint of the auditor.
  Whole seconds of the clock are \<open>now_ms div 1000\<close>.
\<close>

definition now_s :: "crypto \<Rightarrow> crypto_session \<Rightarrow> int" where
  "now_s C s = now_ms C s div 1000"

text \<open>\<open>xs[-n:]\<close>\<close>

definition last_n :: "nat \<Rightarrow> 'a list \<Rightarrow> 'a list" where
  "last_n n xs = drop (length xs - n) xs"

definition str_or_empty :: "dict \<Rightarrow> string \<Rightarrow> string" where
  "str_or_empty d k = py_str (py_or (dget d k (JStr [])) (JStr []))"

definition list_or_empty :: "dict \<Rightarrow> string \<Rightarrow> json list res" where
  "list_or_empty d k = as_list (py_or (dget d k JNull) (JArr []))"

text \<open>\<open>_same_identity_key\<close>: by bytes, or by text when one of them is not Base64.\<close>

definition same_key_text :: "string \<Rightarrow> string \<Rightarrow> bool" where
  "same_key_text a b = (case (b64d a, b64d b) of (Inr x, Inr y) \<Rightarrow> x = y | _ \<Rightarrow> a = b)"

subsection \<open>The verified flag\<close>

definition load_verified :: "crypto \<Rightarrow> int \<Rightarrow> crypto_session \<Rightarrow> bool \<times> crypto_session" where
  "load_verified C conv s = (case map_of (conv_verified s) conv of
       Some b \<Rightarrow> (b, s)
     | None \<Rightarrow>
         if \<not> can_store s \<or> \<not> has_file (verified_path conv) s then (False, s)
         else (case rbind (opt_res (OSError []) (map_of (disk s) (verified_path conv)))
                      (\<lambda>t. decrypt_with_key C (master_key s) (strip t) None) of
                 Inl _ \<Rightarrow> (False, s)
               | Inr v \<Rightarrow> (v = JStr ''1'', s\<lparr> conv_verified := dset (conv_verified s) conv (v = JStr ''1'') \<rparr>)))"

definition save_verified :: "crypto \<Rightarrow> int \<Rightarrow> bool \<Rightarrow> unit ses" where
  "save_verified C conv verified s =
     (let s' = s\<lparr> conv_verified := dset (conv_verified s) conv verified \<rparr>
      in if \<not> can_store s' then (Inr (), s')
         else logged (write_sealed C (verified_path conv) (if verified then ''1'' else ''0'')) s')"

subsection \<open>The audit state of a peer\<close>

definition unknown_audit :: "int \<Rightarrow> dict" where
  "unknown_audit user = [(''user_id'', JInt user), (''status'', JStr ''unknown''), (''history'', JArr [])]"

definition load_identity_audit :: "crypto \<Rightarrow> int \<Rightarrow> crypto_session \<Rightarrow> dict \<times> crypto_session" where
  "load_identity_audit C user s = (case map_of (identity_audit_states s) user of
       Some d \<Rightarrow> (d, s)
     | None \<Rightarrow>
         if \<not> can_store s \<or> \<not> has_file (identity_audit_path user) s then (unknown_audit user, s)
         else (case rbind (read_sealed_json C s (identity_audit_path user)) as_dict of
                 Inl _ \<Rightarrow> (unknown_audit user, s)
               | Inr d \<Rightarrow>
                   let d' = dsetdefault (dsetdefault (dsetdefault d ''user_id'' (JInt user)) ''history'' (JArr []))
                              ''last_error_code'' (JStr [])
                   in (d', s\<lparr> identity_audit_states := dset (identity_audit_states s) user d' \<rparr>)))"

definition save_identity_audit :: "crypto \<Rightarrow> int \<Rightarrow> dict \<Rightarrow> crypto_session \<Rightarrow> crypto_session" where
  "save_identity_audit C user state s =
     (let d = dsetdefault (dset state ''user_id'' (JInt user)) ''history'' (JArr []);
          s' = s\<lparr> identity_audit_states := dset (identity_audit_states s) user d \<rparr>
      in if \<not> can_store s' then s'
         else snd (logged (write_sealed C (identity_audit_path user) (dumps_compact (JObj d))) s'))"

definition settled_status :: "bool \<Rightarrow> json \<Rightarrow> json" where
  "settled_status flag old =
     (let st = (if flag then JStr ''key_changed'' else old)
      in if st \<in> {JStr ''unknown'', JStr ''audit_unavailable'', JStr ''audit_mismatch''} then JStr ''unverified'' else st)"

definition old_version :: "dict \<Rightarrow> int res" where
  "old_version old = py_int (py_or (dget old ''identity_version'' (JInt (- 1))) (JInt (- 1)))"

definition key_changed :: "dict \<Rightarrow> string \<Rightarrow> bool" where
  "key_changed old pk =
     (let old_pk = str_or_empty old ''identity_pk'' in old_pk \<noteq> [] \<and> \<not> same_key_text old_pk pk)"

definition history_entry :: "int \<Rightarrow> json \<Rightarrow> int \<Rightarrow> string \<Rightarrow> string \<Rightarrow> json \<Rightarrow> json \<Rightarrow> dict" where
  "history_entry now event version pk number device created =
     [(''seen_at'', JInt now), (''event_type'', event), (''identity_version'', JInt version),
      (''identity_pk'', JStr pk), (''safety_number'', JStr number), (''device_label'', device),
      (''created_at'', created), (''verified_after_change'', JBool False)]"

definition record_identity_audit_ok ::
  "crypto \<Rightarrow> int \<Rightarrow> string \<Rightarrow> int \<Rightarrow> string \<Rightarrow> dict \<Rightarrow> dict \<Rightarrow> dict ses" where
  "record_identity_audit_ok C user pk version number checkpoint leaf s =
     (let (old, s1) = load_identity_audit C user s
      in case rbind (old_version old) (\<lambda>ov. rbind (list_or_empty old ''history'') (\<lambda>history.
           let changed = key_changed old pk; rollback = version < ov;
               hist = (if changed \<or> rollback \<or> history = []
                       then last_n 20 (history @ [JObj (history_entry (now_s C s1) (dget leaf ''event_type'' (JStr ''initial''))
                              version pk number (dget leaf ''device_label'' (JStr ''primary device''))
                              (dget leaf ''created_at'' (JStr [])))])
                       else history)
           in Inr [(''user_id'', JInt user),
                   (''status'', settled_status (changed \<or> rollback) (dget old ''status'' (JStr ''unverified''))),
                   (''identity_pk'', JStr pk), (''identity_version'', JInt version), (''safety_number'', JStr number),
                   (''checkpoint'', JObj checkpoint), (''leaf'', JObj leaf), (''history'', JArr hist),
                   (''reviewed_at'', if changed then JInt 0 else dget old ''reviewed_at'' (JInt 0)),
                   (''last_error'', JStr []), (''last_error_code'', JStr [])])) of
           Inl e \<Rightarrow> (Inl e, s1)
         | Inr state \<Rightarrow> (Inr state, save_identity_audit C user state s1))"

text \<open>\<open>int(identity_version) if identity_version is not None else int(old...)\<close> with the fallback of its \<open>except\<close>;
  \<open>identity_version\<close> is what the wire message carries, already converted by the caller.\<close>

definition record_identity_seen_unverified ::
  "crypto \<Rightarrow> int \<Rightarrow> string \<Rightarrow> int option \<Rightarrow> string \<Rightarrow> string \<Rightarrow> dict ses" where
  "record_identity_seen_unverified C user pk version number event s =
     (let (old, s1) = load_identity_audit C user s;
          stored = py_int (py_or (dget old ''identity_version'' (JInt 0)) (JInt 0));
          ov = (case old_version old of Inl _ \<Rightarrow> - 1 | Inr v \<Rightarrow> v)
      in case rbind (case version of Some v \<Rightarrow> Inr v | None \<Rightarrow> stored) (\<lambda>vi.
              rbind (list_or_empty old ''history'') (\<lambda>history.
           let changed = key_changed old pk; rollback = version \<noteq> None \<and> vi < ov;
               hist = (if changed \<or> rollback \<or> history = []
                       then last_n 20 (history @ [JObj (history_entry (now_s C s1) (JStr (if event = [] then ''seen'' else event))
                              vi pk number (JStr ''primary device'') (JStr []))])
                       else history);
               status = settled_status (changed \<or> rollback) (dget old ''status'' (JStr ''unverified''));
               flagged = (status = JStr ''key_changed'')
           in Inr (dupdate old
                [(''user_id'', JInt user), (''status'', status), (''identity_pk'', JStr pk),
                 (''identity_version'', JInt vi), (''safety_number'', JStr number), (''history'', JArr hist),
                 (''last_error'', if \<not> flagged then JStr []
                    else dget old ''last_error'' (JStr ''Safety number changed and needs review.'')),
                 (''last_error_code'', if \<not> flagged then JStr [] else dget old ''last_error_code'' (JStr [])),
                 (''reviewed_at'', if changed then JInt 0 else dget old ''reviewed_at'' (JInt 0))]))) of
           Inl e \<Rightarrow> (Inl e, s1)
         | Inr state \<Rightarrow> (Inr state, save_identity_audit C user state s1))"

definition same_problem :: "json \<Rightarrow> string \<Rightarrow> int \<Rightarrow> string \<Rightarrow> bool res" where
  "same_problem entry status version pk =
     rbind (as_dict entry) (\<lambda>e.
       if py_str (dget e ''event_type'' (JStr [])) \<noteq> status then Inr False
       else rbind (old_version e) (\<lambda>v.
         if v \<noteq> version then Inr False
         else Inr (same_key_text (py_str (dget e ''identity_pk'' (JStr []))) pk)))"

definition problem_history :: "int \<Rightarrow> json list \<Rightarrow> string \<Rightarrow> int \<Rightarrow> string \<Rightarrow> string \<Rightarrow> string \<Rightarrow> string \<Rightarrow> json list res" where
  "problem_history now history status version pk number error ecode =
     rbind (if history = [] then Inr False else same_problem (last history) status version pk) (\<lambda>duplicate.
       if duplicate
       then rbind (as_dict (last history)) (\<lambda>e.
         Inr (butlast history @ [JObj (dupdate e [(''seen_at'', JInt now), (''safety_number'', JStr number),
           (''error'', JStr error), (''error_code'', JStr ecode)])]))
       else Inr (history @ [JObj (history_entry now (JStr status) version pk number (JStr ''primary device'') (JStr [])
              @ [(''error'', JStr error), (''error_code'', JStr ecode)])]))"

definition record_identity_audit_problem ::
  "crypto \<Rightarrow> int \<Rightarrow> string \<Rightarrow> int \<Rightarrow> string \<Rightarrow> string \<Rightarrow> string \<Rightarrow> string \<Rightarrow> dict ses" where
  "record_identity_audit_problem C user pk version number status error ecode s =
     (let (old, s1) = load_identity_audit C user s
      in case rbind (list_or_empty old ''history'') (\<lambda>history.
              rbind (problem_history (now_s C s1) history status version pk number error ecode) (\<lambda>hist.
           Inr (dupdate old
                [(''user_id'', JInt user), (''status'', JStr status), (''identity_pk'', JStr pk),
                 (''identity_version'', JInt version), (''safety_number'', JStr number),
                 (''history'', JArr (last_n 20 hist)), (''last_error'', JStr error), (''last_error_code'', JStr ecode)]))) of
           Inl e \<Rightarrow> (Inl e, s1)
         | Inr state \<Rightarrow> (Inr state, save_identity_audit C user state s1))"

text \<open>\<open>state["history"][-1]["verified_after_change"] = verified\<close>, when the history is not empty\<close>

definition mark_last :: "dict \<Rightarrow> bool \<Rightarrow> dict res" where
  "mark_last state verified = (case dget state ''history'' JNull of
       JArr xs \<Rightarrow>
         if xs = [] then Inr state
         else (case last xs of
                 JObj e \<Rightarrow> Inr (dset state ''history'' (JArr (butlast xs @ [JObj (dset e ''verified_after_change'' (JBool verified))])))
               | _ \<Rightarrow> Inl (TypeError ''object does not support item assignment''))
     | h \<Rightarrow> if truthy h then Inl (TypeError ''object is not subscriptable'') else Inr state)"

definition mark_identity_reviewed :: "crypto \<Rightarrow> int \<Rightarrow> bool \<Rightarrow> dict ses" where
  "mark_identity_reviewed C user verified s =
     (let (old, s1) = load_identity_audit C user s;
          state = dset (dset old ''status'' (JStr (if verified then ''verified'' else ''reviewed_unverified'')))
                    ''reviewed_at'' (JInt (now_s C s1))
      in case mark_last state verified of
           Inl e \<Rightarrow> (Inl e, s1)
         | Inr state' \<Rightarrow> (Inr state', save_identity_audit C user state' s1))"

subsection \<open>The auditor's checkpoint\<close>

definition unknown_auditor :: dict where
  "unknown_auditor = [(''status'', JStr ''unknown''), (''checkpoint'', JObj []), (''observations'', JArr [])]"

definition with_defaults :: "dict \<Rightarrow> dict" where
  "with_defaults d = dsetdefault (dsetdefault (dsetdefault (dsetdefault d ''status'' (JStr ''unknown''))
     ''checkpoint'' (JObj [])) ''observations'' (JArr [])) ''last_error_code'' (JStr [])"

definition load_auditor_state :: "crypto \<Rightarrow> crypto_session \<Rightarrow> dict \<times> crypto_session" where
  "load_auditor_state C s =
     (if auditor_state s \<noteq> [] then (auditor_state s, s)
      else if \<not> can_store s \<or> \<not> has_file auditor_state_path s then (unknown_auditor, s)
      else (case rbind (read_sealed_json C s auditor_state_path) as_dict of
              Inl _ \<Rightarrow> (unknown_auditor, s)
            | Inr d \<Rightarrow> (with_defaults d, s\<lparr> auditor_state := with_defaults d \<rparr>)))"

definition save_auditor_state :: "crypto \<Rightarrow> dict \<Rightarrow> crypto_session \<Rightarrow> crypto_session" where
  "save_auditor_state C state s =
     (let d = with_defaults state; s' = s\<lparr> auditor_state := d \<rparr>
      in if \<not> can_store s' then s'
         else snd (logged (write_sealed C auditor_state_path (dumps_compact (JObj d))) s'))"

text \<open>The comparison with the pinned checkpoint.\<close>

definition check_pinned :: "dict \<Rightarrow> int \<Rightarrow> string \<Rightarrow> unit res" where
  "check_pinned old_cp new_size new_root =
     (if old_cp = [] then Inr ()
      else rbind (py_int (py_or (dget old_cp ''tree_size'' (JInt 0)) (JInt 0))) (\<lambda>old_size.
           let old_root = str_or_empty old_cp ''root_hash''
           in rguard (new_size < old_size) (CryptoStateError ''Auditor checkpoint rolled back across identity checks'')
              (rguard (new_size = old_size \<and> old_root \<noteq> [] \<and> new_root \<noteq> old_root)
                 (CryptoStateError ''Auditor split-view detected at the same log size'') (Inr ()))))"

definition observation :: "int \<Rightarrow> string \<Rightarrow> int \<Rightarrow> int \<Rightarrow> int \<Rightarrow> string \<Rightarrow> dict \<Rightarrow> json" where
  "observation now source user version tsize root cp =
     JObj [(''seen_at'', JInt now), (''source'', JStr source), (''user_id'', JInt user), (''identity_version'', JInt version),
           (''tree_size'', JInt tsize), (''root_hash'', JStr root), (''created_at'', JStr (str_or_empty cp ''created_at''))]"

definition record_auditor_checkpoint :: "crypto \<Rightarrow> dict \<Rightarrow> string \<Rightarrow> int \<Rightarrow> int \<Rightarrow> dict ses" where
  "record_auditor_checkpoint C cp source user version s =
     (let new_size = (case py_int (dget cp ''tree_size'' (JInt (- 1))) of Inl _ \<Rightarrow> - 1 | Inr n \<Rightarrow> n);
          new_root = str_or_empty cp ''root_hash''
      in if new_size < 0 \<or> py_len new_root \<noteq> 64 then (Inl (CryptoStateError ''Malformed auditor checkpoint''), s)
         else let (state, s1) = load_auditor_state C s
              in case rbind (dict_of (py_or (dget state ''checkpoint'' JNull) (JObj []))) (\<lambda>old_cp.
                      rbind (check_pinned old_cp new_size new_root) (\<lambda>_.
                      rbind (list_or_empty state ''observations'') (\<lambda>obs.
                        Inr (dupdate state
                          [(''status'', JStr ''ok''), (''checkpoint'', JObj cp),
                           (''observations'', JArr (last_n 50 (obs @ [observation (now_s C s1) source user version new_size new_root cp]))),
                           (''last_error'', JStr []), (''last_error_code'', JStr []), (''updated_at'', JInt (now_s C s1))])))) of
                   Inl e \<Rightarrow> (Inl e, s1)
                 | Inr state' \<Rightarrow> (Inr state', save_auditor_state C state' s1))"

subsection \<open>What was recorded is what is read\<close>

lemma last_n_length: "length (last_n n xs) \<le> n"
  by (simp add: last_n_def)

lemma save_audit_effect:
  "map_of (identity_audit_states (save_identity_audit C user state s)) u =
     (if u = user then Some (dsetdefault (dset state ''user_id'' (JInt user)) ''history'' (JArr []))
      else map_of (identity_audit_states s) u)"
proof -
  let ?d = "dsetdefault (dset state ''user_id'' (JInt user)) ''history'' (JArr [])"
  let ?s = "s\<lparr> identity_audit_states := dset (identity_audit_states s) user ?d \<rparr>"
  obtain d where "snd (write_sealed C (identity_audit_path user) (dumps_compact (JObj ?d)) ?s) = ?s\<lparr> tick := tick ?s + 1, disk := d \<rparr>"
    by (rule write_sealed_effect) blast
  then show ?thesis by (simp add: save_identity_audit_def Let_def update_conv')
qed

lemma load_after_save:
  "fst (load_identity_audit C' user (save_identity_audit C user state s)) =
     dsetdefault (dset state ''user_id'' (JInt user)) ''history'' (JArr [])"
  by (simp add: load_identity_audit_def save_audit_effect)

lemma dset_kept: "map_of d k = Some v \<Longrightarrow> dsetdefault (dset d k v) h w = (if dhas d h then d else d @ [(h, w)])"
  by (simp add: dset_same dsetdefault_def)

lemma dsetdefault_present: "dhas d k \<Longrightarrow> dsetdefault d k v = d"
  by (simp add: dsetdefault_def)

lemma dhas_dupdate: "dhas (dupdate d kvs) k \<longleftrightarrow> k \<in> fst ` set kvs \<or> dhas d k"
  by (induction d kvs rule: dupdate.induct) auto

lemma dget_dupdate: "k \<notin> fst ` set kvs \<Longrightarrow> dget (dupdate d kvs) k x = dget d k x"
  by (induction d kvs rule: dupdate.induct) auto

text \<open>The record of a peer, as the next operation reads it.\<close>

abbreviation audit_of :: "crypto \<Rightarrow> int \<Rightarrow> crypto_session \<Rightarrow> dict" where
  "audit_of C user s \<equiv> fst (load_identity_audit C user s)"

definition status_of :: "dict \<Rightarrow> json" where
  "status_of d = dget d ''status'' (JStr ''unverified'')"

lemma load_audit_stable:
  "load_identity_audit C user (snd (load_identity_audit C user s)) = load_identity_audit C user s"
proof (cases "map_of (identity_audit_states s) user")
  case (Some d)
  then show ?thesis by (simp add: load_identity_audit_def)
next
  case None
  define x where "x = rbind (read_sealed_json C s (identity_audit_path user)) as_dict"
  have ld: "load_identity_audit C user s = (if \<not> can_store s \<or> \<not> has_file (identity_audit_path user) s then (unknown_audit user, s)
         else (case x of Inl _ \<Rightarrow> (unknown_audit user, s)
               | Inr d \<Rightarrow> let d' = dsetdefault (dsetdefault (dsetdefault d ''user_id'' (JInt user)) ''history'' (JArr [])) ''last_error_code'' (JStr [])
                   in (d', s\<lparr> identity_audit_states := dset (identity_audit_states s) user d' \<rparr>)))"
    unfolding load_identity_audit_def None x_def by simp
  show ?thesis
  proof (cases "\<not> can_store s \<or> \<not> has_file (identity_audit_path user) s \<or> (\<exists>e. x = Inl e)")
    case True
    then have "load_identity_audit C user s = (unknown_audit user, s)" unfolding ld by auto
    then show ?thesis by simp
  next
    case False
    then obtain d where "x = Inr d" by (cases x) auto
    with False show ?thesis unfolding ld by (simp add: Let_def) (simp add: load_identity_audit_def update_conv')
  qed
qed

lemma record_ok_state:
  assumes "record_identity_audit_ok C user pk version number cp leaf s = (Inr state, s')"
    and "audit_of C user s = old" and "old_version old = Inr ov"
  shows "audit_of C' user s' = state"
    and "status_of state = settled_status (key_changed old pk \<or> version < ov) (status_of old)"
    and "str_or_empty state ''identity_pk'' = pk" and "old_version state = Inr (if version = 0 then - 1 else version)"
    and "dget state ''reviewed_at'' JNull = (if key_changed old pk then JInt 0 else dget old ''reviewed_at'' (JInt 0))"
proof -
  obtain s1 where ld: "load_identity_audit C user s = (old, s1)" using assms(2) by (metis prod.collapse)
  obtain hist where st: "state = [(''user_id'', JInt user),
        (''status'', settled_status (key_changed old pk \<or> version < ov) (status_of old)),
        (''identity_pk'', JStr pk), (''identity_version'', JInt version), (''safety_number'', JStr number),
        (''checkpoint'', JObj cp), (''leaf'', JObj leaf), (''history'', JArr hist),
        (''reviewed_at'', if key_changed old pk then JInt 0 else dget old ''reviewed_at'' (JInt 0)),
        (''last_error'', JStr []), (''last_error_code'', JStr [])]"
    and s': "s' = save_identity_audit C user state s1"
    using assms(1,3) by (auto simp: record_identity_audit_ok_def ld Let_def status_of_def split: sum.splits)
  have u: "map_of state ''user_id'' = Some (JInt user)" "dhas state ''history''" by (simp_all add: st dhas_def)
  show "audit_of C' user s' = state" by (simp add: s' load_after_save dset_kept [OF u(1)] u(2))
  show "status_of state = settled_status (key_changed old pk \<or> version < ov) (status_of old)"
    by (simp add: st status_of_def dget_def)
  show "str_or_empty state ''identity_pk'' = pk" by (simp add: st str_or_empty_def dget_def)
  show "old_version state = Inr (if version = 0 then - 1 else version)" by (simp add: st old_version_def dget_def py_or_def)
  show "dget state ''reviewed_at'' JNull = (if key_changed old pk then JInt 0 else dget old ''reviewed_at'' (JInt 0))"
    by (simp add: st dget_def)
qed

subsection \<open>A flagged key change\<close>

lemma status_saved: "status_of (dsetdefault (dset d ''user_id'' v) ''history'' w) = status_of d"
  by (simp add: status_of_def dget_def map_of_dsetdefault update_conv')

lemma record_ok_status:
  assumes "record_identity_audit_ok C user pk version number cp leaf s = (r, s')" and "status_of (audit_of C user s) = JStr ''key_changed''"
  shows "status_of (audit_of C user s') = JStr ''key_changed''"
proof (cases r)
  case (Inl e)
  then have "s' = snd (load_identity_audit C user s)"
    using assms(1) by (auto simp: record_identity_audit_ok_def Let_def split: prod.splits sum.splits)
  then show ?thesis using assms(2) by (simp add: load_audit_stable)
next
  case (Inr state)
  obtain ov where "old_version (audit_of C user s) = Inr ov"
    using assms(1) Inr by (auto simp: record_identity_audit_ok_def Let_def split: prod.splits sum.splits)
  from record_ok_state [OF assms(1) [unfolded Inr] refl this] assms(2) show ?thesis by (simp add: settled_status_def)
qed

lemma record_seen_status:
  assumes "record_identity_seen_unverified C user pk version number event s = (r, s')" and "status_of (audit_of C user s) = JStr ''key_changed''"
  shows "status_of (audit_of C user s') = JStr ''key_changed''"
proof (cases r)
  case (Inl e)
  then have "s' = snd (load_identity_audit C user s)"
    using assms(1) by (auto simp: record_identity_seen_unverified_def Let_def split: prod.splits sum.splits)
  then show ?thesis using assms(2) by (simp add: load_audit_stable)
next
  case (Inr state)
  obtain old s1 where ld: "load_identity_audit C user s = (old, s1)" by fastforce
  then have old: "dget old ''status'' (JStr ''unverified'') = JStr ''key_changed''" using assms(2) by (simp add: status_of_def)
  have "status_of state = JStr ''key_changed'' \<and> s' = save_identity_audit C user state s1"
    using assms(1) Inr by (auto simp: record_identity_seen_unverified_def ld Let_def old settled_status_def status_of_def split: sum.splits)
  then show ?thesis by (simp add: load_after_save status_saved)
qed

text \<open>Successful audits and sightings of a peer's key, in any number and order.\<close>

inductive sighting :: "crypto \<Rightarrow> int \<Rightarrow> crypto_session \<Rightarrow> crypto_session \<Rightarrow> bool" for C user where
  audited: "sighting C user s (snd (record_identity_audit_ok C user pk version number cp leaf s))"
| seen_on_wire: "sighting C user s (snd (record_identity_seen_unverified C user pk version number event s))"

lemma sighting_status:
  assumes "(sighting C user)\<^sup>*\<^sup>* s t" and "status_of (audit_of C user s) = JStr ''key_changed''"
  shows "status_of (audit_of C user t) = JStr ''key_changed''"
  using assms
proof (induction rule: rtranclp_induct)
  case (step t u)
  from step.hyps(2) show ?case
  proof cases
    case (audited pk version number cp leaf)
    then show ?thesis using record_ok_status [OF prod.collapse [symmetric]] step by auto
  next
    case (seen_on_wire pk version number event)
    then show ?thesis using record_seen_status [OF prod.collapse [symmetric]] step by auto
  qed
qed simp

text \<open>
  C35: (safety) A changed identity key is flagged until the user reviews it or an audit fails: when an audited key
  differs from the remembered one, or its version went back, the peer's status becomes \<open>key_changed\<close>, and
  it stays so through any further successful audits and sightings on messages, of whatever keys and versions. An
  audit that fails replaces the status (\<open>outage_forgets_key_change\<close> below).
\<close>

theorem key_change_stays_flagged:
  assumes "record_identity_audit_ok C user pk version number cp leaf s = (Inr state, s')"
    and "old_version (audit_of C user s) = Inr ov" and "key_changed (audit_of C user s) pk \<or> version < ov"
    and "(sighting C user)\<^sup>*\<^sup>* s' t"
  shows "status_of (audit_of C user t) = JStr ''key_changed''"
proof (rule sighting_status [OF assms(4)])
  show "status_of (audit_of C user s') = JStr ''key_changed''"
    using record_ok_state [OF assms(1) refl assms(2)] assms(3) by (simp add: settled_status_def)
qed

definition demo_peer :: crypto_session where
  "demo_peer = demo_session\<lparr> identity_audit_states :=
     [(2, [(''user_id'', JInt 2), (''status'', JStr ''verified''), (''identity_pk'', JStr ''QUFB''),
           (''identity_version'', JInt 3), (''history'', JArr [])])] \<rparr>"

theorem key_change_stays_flagged_witness:
  "status_of (audit_of toy_crypto 2 (snd (record_identity_audit_ok toy_crypto 2 ''QkJC'' 4 ''n'' [] []
     (snd (record_identity_audit_ok toy_crypto 2 ''QkJC'' 4 ''n'' [] [] demo_peer))))) = JStr ''key_changed''"
proof -
  have old: "audit_of toy_crypto 2 demo_peer = [(''user_id'', JInt 2), (''status'', JStr ''verified''), (''identity_pk'', JStr ''QUFB''),
           (''identity_version'', JInt 3), (''history'', JArr [])]"
    by (simp add: demo_peer_def load_identity_audit_def)
  have v: "old_version (audit_of toy_crypto 2 demo_peer) = Inr 3" by (simp add: old old_version_def dget_def py_or_def)
  have "b64d ''QUFB'' = Inr ''AAA''" "b64d ''QkJC'' = Inr ''BBB''" by code_simp+
  then have k: "key_changed (audit_of toy_crypto 2 demo_peer) ''QkJC'' \<or> 4 < (3::int)"
    by (simp add: old key_changed_def str_or_empty_def dget_def same_key_text_def)
  obtain r s' where r: "record_identity_audit_ok toy_crypto 2 ''QkJC'' 4 ''n'' [] [] demo_peer = (r, s')" by fastforce
  then obtain state where "record_identity_audit_ok toy_crypto 2 ''QkJC'' 4 ''n'' [] [] demo_peer = (Inr state, s')"
    using v by (auto simp: record_identity_audit_ok_def Let_def demo_peer_def load_identity_audit_def list_or_empty_def dget_def py_or_def split: sum.splits)
  from key_change_stays_flagged [OF this v k] show ?thesis by (simp add: r audited r_into_rtranclp)
qed

text \<open>
  An auditor outage forgets a flagged change: recording the outage replaces the status, and the next
  successful audit of the same key turns it into \<open>unverified\<close>, without any review by the user.
\<close>

lemma outage_forgets_key_change:
  assumes "record_identity_audit_problem C user pk version number ''audit_unavailable'' error ecode s = (Inr d, s')"
    and "record_identity_audit_ok C user pk version number cp leaf s' = (Inr state, s'')" and "0 < version"
  shows "status_of (audit_of C user s'') = JStr ''unverified''"
proof -
  obtain old s1 where ld: "load_identity_audit C user s = (old, s1)" by fastforce
  have s': "status_of d = JStr ''audit_unavailable'' \<and> str_or_empty d ''identity_pk'' = pk \<and> old_version d = Inr version
      \<and> s' = save_identity_audit C user d s1"
    using assms(1,3) by (auto simp: record_identity_audit_problem_def ld Let_def status_of_def str_or_empty_def old_version_def py_or_def split: sum.splits)
  define old' where "old' = audit_of C user s'"
  have o: "old' = dsetdefault (dset d ''user_id'' (JInt user)) ''history'' (JArr [])" using s' by (simp add: old'_def load_after_save)
  have st: "status_of old' = JStr ''audit_unavailable''" using s' by (simp add: o status_saved)
  have "str_or_empty old' ''identity_pk'' = str_or_empty d ''identity_pk''" "old_version old' = old_version d"
    by (simp_all add: o str_or_empty_def old_version_def dget_def map_of_dsetdefault update_conv')
  then have "\<not> key_changed old' pk" "old_version old' = Inr version"
    using s' by (auto simp: key_changed_def same_key_text_def Let_def split: sum.splits)
  from record_ok_state(1,2) [OF assms(2) old'_def [symmetric] this(2)] this(1) st show ?thesis
    by (simp add: settled_status_def)
qed

subsection \<open>Pinned checkpoints\<close>

definition cp_size :: "dict \<Rightarrow> int" where
  "cp_size cp = (case py_int (dget cp ''tree_size'' (JInt (- 1))) of Inl _ \<Rightarrow> - 1 | Inr n \<Rightarrow> n)"

definition extends :: "dict \<Rightarrow> dict \<Rightarrow> bool" where
  "extends a b = (cp_size a \<le> cp_size b \<and> (cp_size a = cp_size b \<longrightarrow> str_or_empty a ''root_hash'' = str_or_empty b ''root_hash''))"

definition pinned :: "crypto_session \<Rightarrow> dict \<Rightarrow> bool" where
  "pinned s cp = (map_of (auditor_state s) ''checkpoint'' = Some (JObj cp) \<and> 0 \<le> cp_size cp \<and> str_or_empty cp ''root_hash'' \<noteq> [])"

lemma falsy_int: "py_int v = Inr n \<Longrightarrow> \<not> truthy v \<Longrightarrow> n = 0"
  by (cases v) (auto simp: py_int_def truthy_def float_trunc_def Let_def int_of_str_def nat_of_str_def strip_def split: option.splits if_splits)

lemma old_size_same:
  assumes "0 \<le> cp_size cp"
  shows "py_int (py_or (dget cp ''tree_size'' (JInt 0)) (JInt 0)) = Inr (cp_size cp)" and "cp \<noteq> []"
proof -
  obtain v where v: "map_of cp ''tree_size'' = Some v" "py_int v = Inr (cp_size cp)"
    using assms by (auto simp: cp_size_def dget_def split: option.splits sum.splits)
  then show "py_int (py_or (dget cp ''tree_size'' (JInt 0)) (JInt 0)) = Inr (cp_size cp)"
    using falsy_int by (auto simp: dget_def py_or_def)
  show "cp \<noteq> []" using v(1) by auto
qed

lemma save_auditor_effect: "auditor_state (save_auditor_state C d s) = with_defaults d"
proof -
  let ?s = "s\<lparr> auditor_state := with_defaults d \<rparr>"
  obtain k where "snd (write_sealed C auditor_state_path (dumps_compact (JObj (with_defaults d))) ?s) = ?s\<lparr> tick := tick ?s + 1, disk := k \<rparr>"
    by (rule write_sealed_effect) blast
  then show ?thesis by (simp add: save_auditor_state_def Let_def)
qed

lemma dsetdefault_keeps: "map_of d k = Some v \<Longrightarrow> map_of (dsetdefault d h w) k = Some v"
  by (auto simp: map_of_dsetdefault dhas_def)

lemma map_of_with_defaults: "map_of d k = Some v \<Longrightarrow> map_of (with_defaults d) k = Some v"
  unfolding with_defaults_def by (intro dsetdefault_keeps)

lemma map_of_dupdate: "map_of (dupdate d kvs) k = (case map_of (rev kvs) k of None \<Rightarrow> map_of d k | Some v \<Rightarrow> Some v)"
  by (induction d kvs rule: dupdate.induct) (auto simp: update_conv' map_add_def split: option.splits)

lemma pinned_checkpoint_accepted:
  assumes "record_auditor_checkpoint C cp source user version s = (Inr d, s')"
  shows "pinned s' cp" and "pinned s old \<Longrightarrow> extends old cp"
proof -
  obtain state s1 where ld: "load_auditor_state C s = (state, s1)" by fastforce
  have "\<not> (cp_size cp < 0 \<or> py_len (str_or_empty cp ''root_hash'') \<noteq> 64)"
  proof
    assume "cp_size cp < 0 \<or> py_len (str_or_empty cp ''root_hash'') \<noteq> 64"
    then have "fst (record_auditor_checkpoint C cp source user version s) = Inl (CryptoStateError ''Malformed auditor checkpoint'')"
      unfolding record_auditor_checkpoint_def Let_def cp_size_def [symmetric] by simp
    then show False using assms by simp
  qed
  then have size: "0 \<le> cp_size cp" "py_len (str_or_empty cp ''root_hash'') = 64" by simp_all
  have root: "str_or_empty cp ''root_hash'' \<noteq> []" using size(2) by auto
  define x where "x = rbind (dict_of (py_or (dget state ''checkpoint'' JNull) (JObj []))) (\<lambda>old_cp.
      rbind (check_pinned old_cp (cp_size cp) (str_or_empty cp ''root_hash'')) (\<lambda>_.
      rbind (list_or_empty state ''observations'') (\<lambda>obs.
        Inr (dupdate state
          [(''status'', JStr ''ok''), (''checkpoint'', JObj cp),
           (''observations'', JArr (last_n 50 (obs @ [observation (now_s C s1) source user version (cp_size cp) (str_or_empty cp ''root_hash'') cp]))),
           (''last_error'', JStr []), (''last_error_code'', JStr []), (''updated_at'', JInt (now_s C s1))]))))"
  have "(Inr d, s') = (case x of Inl e \<Rightarrow> (Inl e, s1) | Inr state' \<Rightarrow> (Inr state', save_auditor_state C state' s1))"
    using assms size unfolding record_auditor_checkpoint_def Let_def cp_size_def [symmetric] ld x_def by simp
  then have xd: "x = Inr d" and s': "s' = save_auditor_state C d s1" by (auto split: sum.splits)
  then have "map_of d ''checkpoint'' = Some (JObj cp)" by (auto simp: x_def map_of_dupdate update_conv')
  then show "pinned s' cp" using size root by (simp add: pinned_def s' save_auditor_effect map_of_with_defaults)
  assume p: "pinned s old"
  then have "auditor_state s \<noteq> []" by (auto simp: pinned_def)
  then have state: "state = auditor_state s" using ld by (auto simp: load_auditor_state_def)
  have o: "0 \<le> cp_size old" "str_or_empty old ''root_hash'' \<noteq> []" using p by (simp_all add: pinned_def)
  then have "dict_of (py_or (dget state ''checkpoint'' JNull) (JObj [])) = Inr old"
    using p old_size_same(2) by (simp add: state pinned_def dget_def py_or_def)
  then have "check_pinned old (cp_size cp) (str_or_empty cp ''root_hash'') = Inr ()"
    using xd by (auto simp: x_def)
  then show "extends old cp"
    using old_size_same [OF o(1)] o(2) by (auto simp: check_pinned_def extends_def Let_def)
qed

lemma pinned_checkpoint_rejected:
  assumes "record_auditor_checkpoint C cp source user version s = (Inl e, s')" and "pinned s old"
  shows "pinned s' old"
proof -
  obtain state s1 where ld: "load_auditor_state C s = (state, s1)" by fastforce
  have "auditor_state s \<noteq> []" using assms(2) by (auto simp: pinned_def)
  then have "s1 = s" using ld by (simp add: load_auditor_state_def)
  then have "s' = s" using assms(1) by (auto simp: record_auditor_checkpoint_def Let_def ld split: if_splits sum.splits)
  then show ?thesis using assms(2) by simp
qed

text \<open>The checkpoints a login accepts, in order.\<close>

fun accepted :: "crypto \<Rightarrow> (dict \<times> string \<times> int \<times> int) list \<Rightarrow> crypto_session \<Rightarrow> dict list" where
  "accepted C [] s = []"
| "accepted C ((cp, source, user, version) # calls) s =
     (case record_auditor_checkpoint C cp source user version s of
        (Inl _, s') \<Rightarrow> accepted C calls s'
      | (Inr _, s') \<Rightarrow> cp # accepted C calls s')"

lemma extends_trans: "extends a b \<Longrightarrow> extends b c \<Longrightarrow> extends a c"
  by (auto simp: extends_def)

lemma accepted_extend: "pinned s old \<Longrightarrow> cp \<in> set (accepted C calls s) \<Longrightarrow> extends old cp"
proof (induction calls arbitrary: s old)
  case (Cons call calls)
  obtain cp' source user version where call: "call = (cp', source, user, version)" by (cases call)
  obtain r s' where r: "record_auditor_checkpoint C cp' source user version s = (r, s')" by fastforce
  show ?case
  proof (cases r)
    case (Inl e)
    then show ?thesis using Cons call r pinned_checkpoint_rejected [OF r [unfolded Inl] Cons.prems(1)] by simp
  next
    case (Inr d)
    note a = pinned_checkpoint_accepted [OF r [unfolded Inr]]
    have "cp = cp' \<or> cp \<in> set (accepted C calls s')" using Cons.prems(2) call r Inr by simp
    then show ?thesis using Cons.IH [OF a(1)] a(2) [OF Cons.prems(1)] extends_trans by blast
  qed
qed simp

text \<open>
  C36: (invariant) The auditor cannot roll back or split its log for one client: of the checkpoints that a
  login accepts, in the order it accepts them and over any sequence of calls, each one is at least
  as large as every earlier one, and two of the same size have the same root.
\<close>

theorem accepted_checkpoints_extend: "sorted_wrt extends (accepted C calls s)"
proof (induction calls arbitrary: s)
  case (Cons call calls)
  obtain cp source user version where call: "call = (cp, source, user, version)" by (cases call)
  obtain r s' where r: "record_auditor_checkpoint C cp source user version s = (r, s')" by fastforce
  show ?case
  proof (cases r)
    case (Inl e)
    then show ?thesis using Cons call r by simp
  next
    case (Inr d)
    then show ?thesis
      using Cons call r accepted_extend [OF pinned_checkpoint_accepted(1) [OF r [unfolded Inr]]] by simp
  qed
qed simp

end
