(* ===== verification/Messaging.thy ===== *)
theory Messaging
  imports Keys Dr_Sessions Transcript Identity_State
begin

text \<open>
  Sending and receiving messages (\<open>client/crypto_engine/session.py\<close>, \<open>initiate_pqxdh_dm\<close> to
  \<open>decrypt_history_messages\<close>): the padded payload, encryption for a conversation, and the
  classification and decryption of live messages and of a history page. Every draw of randomness is
  taken from the environment at the session's \<open>tick\<close>.
\<close>

subsection \<open>Randomness\<close>

definition init_draw :: "crypto \<Rightarrow> nat \<Rightarrow> init_fresh" where
  "init_draw C t = \<lparr> i_kem = t, i_eph = x_seed C t, i_sid = os_random C t 16, i_dr = x_seed C (t + 1),
     i_nonce = os_random C (t + 1) 12, i_ts = clock_ms C t \<rparr>"

definition fresh_draw :: "crypto \<Rightarrow> nat \<Rightarrow> fresh" where
  "fresh_draw C t = \<lparr> f_sk = x_seed C t, f_ts = clock_ms C t, f_n1 = os_random C t 12, f_n2 = os_random C (t + 1) 12 \<rparr>"

subsection \<open>Starting a conversation\<close>

definition set_peer :: "int \<Rightarrow> int \<Rightarrow> string \<Rightarrow> crypto_session \<Rightarrow> crypto_session" where
  "set_peer conv peer fp s = s\<lparr> conv_peer_uids := dset (conv_peer_uids s) conv peer, conv_fingerprints := dset (conv_fingerprints s) conv fp \<rparr>"

text \<open>\<open>self.double_ratchet_states[conv_id] = state\<close> and what follows it.\<close>

definition start_session :: "crypto \<Rightarrow> int \<Rightarrow> int \<Rightarrow> string \<Rightarrow> double_ratchet \<Rightarrow> unit ses" where
  "start_session C conv peer fp state s =
     (let (a, s1) = alloc state s
      in save_double_ratchet C conv
           (set_peer conv peer fp (remember_double_ratchet_session C conv (Some a) (set_current conv a s1))))"

definition initiate_pqxdh_dm :: "crypto \<Rightarrow> dict \<Rightarrow> int \<Rightarrow> int \<Rightarrow> int option \<Rightarrow> (string \<times> string) ses" where
  "initiate_pqxdh_dm C peer_bundle conv peer version s = (case load_double_ratchet C conv s of
       (Some _, s1) \<Rightarrow> (Inl (CryptoStateError ''DM key exchange is already complete.''), s1)
     | (None, s1) \<Rightarrow> (case load_pqxdh_prekeys C s1 of
           (Some (kv # store), s2) \<Rightarrow>
             sbind (draw 2) (\<lambda>t.
             sbind (\<lambda>s. (pqxdh_initiate C (init_draw C t) peer_bundle (kv # store) (identity_pk s) (identity_sk s)
                           (uid s) peer ''__S3_INIT__'' version conv, s)) (\<lambda>(token, state, fp).
             sbind (start_session C conv peer fp state) (\<lambda>_. sret (token, fp)))) s2
         | (_, s2) \<Rightarrow> (Inl (CryptoStateError ''Local SecChat prekeys are not available yet.''), s2)))"

subsection \<open>The padded payload\<close>

definition PADDED_PLAINTEXT_MARKER :: string where
  "PADDED_PLAINTEXT_MARKER = ''__secchat_payload_v1__''"

definition PAD_BUCKETS :: "nat list" where
  "PAD_BUCKETS = [256, 512, 1024, 2048, 4096, 8192, 16384]"

definition padding_bucket :: "nat \<Rightarrow> nat" where
  "padding_bucket n = (case find (\<lambda>bucket. n \<le> bucket) PAD_BUCKETS of Some bucket \<Rightarrow> bucket | None \<Rightarrow> n)"

definition padded :: "string \<Rightarrow> string \<Rightarrow> string" where
  "padded body pad = dumps_compact (JObj [(''_type'', JStr PADDED_PLAINTEXT_MARKER), (''body'', JStr body), (''pad'', JStr pad)])"

text \<open>
  \<open>int(gap * 0.72)\<close> is \<open>72 * gap div 100\<close>: the product of an integer below \<open>2^14\<close> with the
  double nearest to 0.72 rounds to the exact integer whenever \<open>25\<close> divides it.
\<close>

definition pad_need :: "nat \<Rightarrow> nat" where
  "pad_need n = max 1 (72 * (padding_bucket n - n) div 100)"

definition pack_plaintext :: "crypto \<Rightarrow> string \<Rightarrow> string ses" where
  "pack_plaintext C body =
     (let n = length (padded body [])
      in if n < padding_bucket n
         then sbind (draw 1) (\<lambda>t. sret (padded body (b64encode (os_random C t (pad_need n)))))
         else sret (padded body []))"

definition unpack_plaintext :: "string \<Rightarrow> string" where
  "unpack_plaintext body =
     (if \<not> starts_with body ''{'' then body
      else case loads body of
             Inr (JObj d) \<Rightarrow> if dget d ''_type'' JNull \<noteq> JStr PADDED_PLAINTEXT_MARKER then body else py_str (dget d ''body'' (JStr []))
           | _ \<Rightarrow> body)"

definition unpack_value :: "json \<Rightarrow> json" where
  "unpack_value j = (case j of JStr b \<Rightarrow> JStr (unpack_plaintext b) | _ \<Rightarrow> j)"

subsection \<open>Encrypting\<close>

text \<open>\<open>state.encrypt(payload_body)\<close> on a ratchet object, which it changes even when it raises.\<close>

definition ratchet_encrypt :: "crypto \<Rightarrow> nat \<Rightarrow> string \<Rightarrow> string ses" where
  "ratchet_encrypt C a payload = sbind (draw 2) (\<lambda>t s.
     case dr_encrypt C (fresh_draw C t) payload (deref s a) of (r, state) \<Rightarrow> (r, assign a state s))"

definition encrypt_for_conv :: "crypto \<Rightarrow> int \<Rightarrow> string \<Rightarrow> string ses" where
  "encrypt_for_conv C conv body =
     sbind (pack_plaintext C body) (\<lambda>payload s.
       if conv \<in> group_conv_ids s then mls_application_wire C conv payload s
       else case load_double_ratchet C conv s of
              (None, s1) \<Rightarrow> (Inl (CryptoStateError ''DM key exchange is not complete yet.''), s1)
            | (Some a, s1) \<Rightarrow>
                sbind (ratchet_encrypt C a payload) (\<lambda>wire.
                sbind (save_double_ratchet C conv) (\<lambda>_. sret wire)) s1)"

subsection \<open>Receiving\<close>

definition is_prefixed :: "string \<Rightarrow> json \<Rightarrow> bool" where
  "is_prefixed prefix j = (case j of JStr b \<Rightarrow> starts_with b prefix | _ \<Rightarrow> False)"

definition body_of :: "dict \<Rightarrow> json" where
  "body_of msg = py_or (dget msg ''body'' (JStr [])) (JStr [])"

definition handle_group_integrity_control :: "crypto \<Rightarrow> int \<Rightarrow> json \<Rightarrow> bool ses" where
  "handle_group_integrity_control C conv body s =
     (if \<not> is_prefixed PREFIX_MLS body then (Inr False, s)
      else case json_unb64 (drop (length PREFIX_MLS) (py_str body)) of
             Inl _ \<Rightarrow> (Inr False, s)
           | Inr j \<Rightarrow>
               sbind (slift (as_dict j)) (\<lambda>payload.
                 if py_or (dget payload ''event'' JNull) (dget payload ''kind'' JNull) = JStr ''transcript_checkpoint''
                 then sbind (record_transcript_checkpoint C conv payload True) (\<lambda>_. sret True)
                 else sret False) s)"

definition hidden_result :: "string \<Rightarrow> dict" where
  "hidden_result body = [(''status'', JStr ''hidden''), (''body'', JStr body), (''hidden'', JBool True)]"

definition message_result :: "json \<Rightarrow> dict" where
  "message_result body = [(''status'', JStr ''message''), (''body'', body)]"

definition status_result :: "string \<Rightarrow> dict" where
  "status_result status = [(''status'', JStr status)]"

text \<open>\<open>meta = json_unb64(...)\<close>, or nothing when it cannot be decoded\<close>

definition init_meta :: "string \<Rightarrow> dict res" where
  "init_meta body = (case json_unb64 (drop (length PREFIX_PQ_INIT) body) of Inl _ \<Rightarrow> Inr [] | Inr j \<Rightarrow> as_dict j)"

text \<open>The session a handshake message opens becomes known and the canonical one becomes current.\<close>

definition install_session :: "crypto \<Rightarrow> int \<Rightarrow> double_ratchet \<Rightarrow> int \<Rightarrow> string \<Rightarrow> crypto_session \<Rightarrow> crypto_session" where
  "install_session C conv state peer fp s =
     (let (a, s1) = alloc state s;
          s2 = remember_double_ratchet_session C conv (Some a) s1
      in set_peer conv peer fp (snd (select_canonical_double_ratchet_state C conv (Some a) s2)))"

definition note_identity :: "crypto \<Rightarrow> dict \<Rightarrow> int \<Rightarrow> string \<Rightarrow> unit ses" where
  "note_identity C meta peer fp =
     (if str_or_empty meta ''identity_pk'' = [] then sret ()
      else sbind (slift (opt_int (dget meta ''sender_identity_version'' JNull))) (\<lambda>version.
           sbind (record_identity_seen_unverified C peer (str_or_empty meta ''identity_pk'') version fp ''pqxdh_initial'') (\<lambda>_.
           sret ())))"

definition init_result :: "dict \<Rightarrow> string \<Rightarrow> int \<Rightarrow> string \<Rightarrow> dict" where
  "init_result meta plain peer fp =
     (if plain = ''__S3_INIT__'' then [(''status'', JStr ''control'')]
      else [(''status'', JStr ''message''), (''body'', JStr (unpack_plaintext plain))])
     @ [(''ready'', JBool True), (''fingerprint'', JStr fp), (''peer_uid'', JInt peer),
        (''peer_identity_pk'', JStr (str_or_empty meta ''identity_pk'')),
        (''peer_identity_version'', dget meta ''sender_identity_version'' JNull)]"

definition accept_init :: "crypto \<Rightarrow> int \<Rightarrow> string \<Rightarrow> dict \<Rightarrow> dict ses" where
  "accept_init C conv body meta =
     sbind (respond_pqxdh_with_current_prekey C body) (\<lambda>(plain, state, fp, peer).
     sbind (smod (install_session C conv state peer fp)) (\<lambda>_.
     sbind (save_double_ratchet C conv) (\<lambda>_.
     sbind (note_identity C meta peer fp) (\<lambda>_.
     sret (init_result meta plain peer fp)))))"

text \<open>Whether the handshake message names a session that is already known.\<close>

definition known_init :: "crypto \<Rightarrow> int \<Rightarrow> dict \<Rightarrow> crypto_session \<Rightarrow> bool \<times> crypto_session" where
  "known_init C conv meta s =
     (let sid = str_or_empty meta ''sid''
      in if sid = [] then (False, s)
         else (case load_double_ratchet_sessions C conv s of (sessions, s1) \<Rightarrow> (dhas sessions sid, s1)))"

definition live_init :: "crypto \<Rightarrow> int \<Rightarrow> int \<Rightarrow> string \<Rightarrow> dict ses" where
  "live_init C conv sender body s =
     (if sender = uid s then (Inr (status_result ''control''), s)
      else case load_double_ratchet C conv s of (existing, s1) \<Rightarrow>
        sbind (slift (init_meta body)) (\<lambda>meta s.
          case known_init C conv meta s of (known, s2) \<Rightarrow>
            if known then (Inr (status_result ''control''), s2)
            else case load_pqxdh_prekeys C s2 of (store, s3) \<Rightarrow>
              if store = None \<or> store = Some []
              then (Inr (status_result (if existing \<noteq> None then ''control'' else ''pending'')), s3)
              else scatch (accept_init C conv body meta) (\<lambda>_. sret (hidden_result ''[Cannot decrypt]'')) s3) s1)"

text \<open>
  \<open>state.decrypt(body)\<close> with a snapshot taken before. On success the ratchet is saved; on failure
  the object stays changed and the snapshot takes its place, in the dictionary that held it.
\<close>

definition keep_ratchet :: "crypto \<Rightarrow> int \<Rightarrow> nat \<Rightarrow> crypto_session \<Rightarrow> crypto_session" where
  "keep_ratchet C conv a s =
     (if current conv s = Some a then snd (save_double_ratchet C conv s)
      else snd (save_double_ratchet_sessions C conv (remember_double_ratchet_session C conv (Some a) s)))"

definition restore_ratchet :: "int \<Rightarrow> nat \<Rightarrow> string \<Rightarrow> double_ratchet \<Rightarrow> crypto_session \<Rightarrow> crypto_session" where
  "restore_ratchet conv a sid snapshot s =
     (case alloc snapshot s of (b, s1) \<Rightarrow>
        if current conv s = Some a then set_current conv b s1
        else if sid \<noteq> [] then set_sessions conv (dset (known_sessions conv s1) sid b) s1
        else s)"

definition receive_ratchet :: "crypto \<Rightarrow> int \<Rightarrow> string \<Rightarrow> nat \<Rightarrow> string option ses" where
  "receive_ratchet C conv body a =
     sbind (\<lambda>s. (from_dict (to_dict (deref s a)), s)) (\<lambda>snapshot.
     sbind (draw 1) (\<lambda>t s.
       case dr_decrypt C (x_seed C t) body (deref s a) of
         (Inr plain, state) \<Rightarrow> (Inr (Some plain), keep_ratchet C conv a (assign a state s))
       | (Inl _, state) \<Rightarrow> (Inr None, restore_ratchet conv a (session_id (deref s a)) snapshot (assign a state s))))"

definition live_ratchet :: "crypto \<Rightarrow> int \<Rightarrow> string \<Rightarrow> dict ses" where
  "live_ratchet C conv body s = (case state_for_double_ratchet_wire C conv body s of
       (None, s1) \<Rightarrow> (Inr (status_result ''pending''), s1)
     | (Some a, s1) \<Rightarrow>
         sbind (receive_ratchet C conv body a) (\<lambda>r. sret (case r of
            Some plain \<Rightarrow> message_result (JStr (unpack_plaintext plain))
          | None \<Rightarrow> hidden_result ''[Cannot decrypt]'')) s1)"

definition MLS_UNAVAILABLE :: string where
  "MLS_UNAVAILABLE = ''[Encrypted message - MLS state unavailable]''"

definition live_group :: "crypto \<Rightarrow> int \<Rightarrow> string \<Rightarrow> dict ses" where
  "live_group C conv body =
     scatch (sbind (open_mls_application_wire C conv body) (\<lambda>plain. sret (message_result (JStr (unpack_plaintext plain)))))
       (\<lambda>_. sret (hidden_result MLS_UNAVAILABLE))"

definition decrypt_live_message :: "crypto \<Rightarrow> dict \<Rightarrow> dict ses" where
  "decrypt_live_message C msg =
     sbind (slift (int_or_0 msg ''conversation_id'')) (\<lambda>conv.
     sbind (slift (py_int (py_or (py_or (dget msg ''from_id'' (JInt 0)) (dget msg ''sender_id'' (JInt 0))) (JInt 0)))) (\<lambda>sender.
       let body = body_of msg
       in if is_prefixed PREFIX_PQ_INIT body then live_init C conv sender (py_str body)
          else sbind (handle_group_integrity_control C conv body) (\<lambda>handled s.
            if handled then (Inr [(''status'', JStr ''control''), (''ready'', JBool True)], s)
            else if 0 < sender \<and> sender = uid s then (Inr (status_result ''self_echo''), s)
            else if is_prefixed PREFIX_DR body then live_ratchet C conv (py_str body) s
            else if is_prefixed PREFIX_MLS body then live_group C conv (py_str body) s
            else (Inr (message_result body), s))))"

subsection \<open>History\<close>

definition FS_PLACEHOLDER :: string where
  "FS_PLACEHOLDER = ''[Forward-secret]''"

definition CONTROL_BODY :: string where
  "CONTROL_BODY = ''__S2_CONTROL__''"

definition set_body :: "json \<Rightarrow> dict \<Rightarrow> dict" where
  "set_body body m = dset m ''body'' body"

definition hide_history_message :: "string \<Rightarrow> dict \<Rightarrow> dict" where
  "hide_history_message body m = dset (dset m ''body'' (JStr body)) ''hidden'' (JBool True)"

text \<open>The cached entry of a message, by its id or by the hash of its ciphertext; an empty entry is none.\<close>

definition cache_hit :: "crypto \<Rightarrow> cached \<Rightarrow> int \<Rightarrow> string \<Rightarrow> dict" where
  "cache_hit C entries mid body =
     (let hit = (if mid \<noteq> 0 then dget entries (ById mid) [] else [])
      in if hit = [] then dget entries (ByWire (wire_cache_key C body)) [] else hit)"

text \<open>Bodies in the cache are texts; \<open>cache_message\<close> writes nothing else.\<close>

definition cache_again :: "crypto \<Rightarrow> int \<Rightarrow> int \<Rightarrow> int \<Rightarrow> json \<Rightarrow> string \<Rightarrow> unit ses" where
  "cache_again C conv mid sender plain when =
     (case plain of JStr p \<Rightarrow> if mid \<noteq> 0 then cache_message C conv mid sender p when else sret () | _ \<Rightarrow> sret ())"

definition history_accept_init :: "crypto \<Rightarrow> int \<Rightarrow> string \<Rightarrow> dict \<Rightarrow> json ses" where
  "history_accept_init C conv body meta =
     sbind (respond_pqxdh_with_current_prekey C body) (\<lambda>(plain, state, fp, peer).
     sbind (smod (install_session C conv state peer fp)) (\<lambda>_.
     sbind (note_identity C meta peer fp) (\<lambda>_.
     sbind (save_double_ratchet C conv) (\<lambda>_.
     sret (JStr (if plain = ''__S3_INIT__'' then CONTROL_BODY else unpack_plaintext plain))))))"

definition history_init :: "crypto \<Rightarrow> int \<Rightarrow> int \<Rightarrow> string \<Rightarrow> dict \<Rightarrow> dict ses" where
  "history_init C conv sender body m s =
     (if sender = uid s then (Inr (set_body (JStr CONTROL_BODY) m), s)
      else case load_double_ratchet C conv s of (existing, s1) \<Rightarrow>
        sbind (slift (init_meta body)) (\<lambda>meta s.
          case known_init C conv meta s of (known, s2) \<Rightarrow>
            if known then (Inr (set_body (JStr CONTROL_BODY) m), s2)
            else case load_pqxdh_prekeys C s2 of (store, s3) \<Rightarrow>
              if store = None \<or> store = Some []
              then (Inr (if existing \<noteq> None then set_body (JStr CONTROL_BODY) m else hide_history_message FS_PLACEHOLDER m), s3)
              else scatch (sbind (history_accept_init C conv body meta) (\<lambda>b. sret (set_body b m)))
                     (\<lambda>_. sret (hide_history_message FS_PLACEHOLDER m)) s3) s1)"

text \<open>A cached message is shown from the cache and written again under its id.\<close>

definition history_cached :: "crypto \<Rightarrow> int \<Rightarrow> int \<Rightarrow> int \<Rightarrow> string \<Rightarrow> dict \<Rightarrow> dict \<Rightarrow> dict ses" where
  "history_cached C conv mid sender when hit m =
     (let plain = unpack_value (dget hit ''body'' (JStr FS_PLACEHOLDER))
      in sbind (cache_again C conv mid sender plain when) (\<lambda>_. sret (set_body plain m)))"

definition history_ratchet :: "crypto \<Rightarrow> int \<Rightarrow> int \<Rightarrow> int \<Rightarrow> string \<Rightarrow> string \<Rightarrow> dict \<Rightarrow> dict ses" where
  "history_ratchet C conv mid sender when body m s =
     (if sender = uid s then (Inr (hide_history_message FS_PLACEHOLDER m), s)
      else case state_for_double_ratchet_wire C conv body s of
        (None, s1) \<Rightarrow> (Inr (hide_history_message FS_PLACEHOLDER m), s1)
      | (Some a, s1) \<Rightarrow>
          sbind (receive_ratchet C conv body a) (\<lambda>r. case r of
             Some plain \<Rightarrow>
               let p = JStr (unpack_plaintext plain)
               in sbind (cache_again C conv mid sender p when) (\<lambda>_. sret (set_body p m))
           | None \<Rightarrow> sret (hide_history_message FS_PLACEHOLDER m)) s1)"

definition history_group :: "crypto \<Rightarrow> int \<Rightarrow> int \<Rightarrow> int \<Rightarrow> string \<Rightarrow> string \<Rightarrow> dict \<Rightarrow> dict ses" where
  "history_group C conv mid sender when body m s =
     (if sender = uid s then (Inr (hide_history_message FS_PLACEHOLDER m), s)
      else if conv \<notin> mls_group_ready s then (Inr (hide_history_message MLS_UNAVAILABLE m), s)
      else scatch (sbind (open_mls_application_wire C conv body) (\<lambda>plain.
                   let p = JStr (unpack_plaintext plain)
                   in sbind (cache_again C conv mid sender p when) (\<lambda>_. sret (set_body p m))))
             (\<lambda>_. sret (hide_history_message MLS_UNAVAILABLE m)) s)"

definition history_time :: "dict \<Rightarrow> string res" where
  "history_time m = (let t = dget m ''time'' (JStr [])
     in if truthy t then rbind (as_str t) (\<lambda>x. Inr (ts_short x)) else Inr [])"

definition history_item :: "crypto \<Rightarrow> int \<Rightarrow> cached \<Rightarrow> bool \<times> dict \<Rightarrow> dict ses" where
  "history_item C conv entries pm = (case pm of (prehandled, m) \<Rightarrow>
     sbind (slift (int_or_0 m ''id'')) (\<lambda>mid.
     sbind (slift (int_or_0 m ''sender_id'')) (\<lambda>sender.
     sbind (slift (history_time m)) (\<lambda>when.
       let body = body_of m
       in if truthy (dget m ''deleted'' (JBool False)) then sret (set_body (JStr []) m)
          else if prehandled then sret (set_body (JStr CONTROL_BODY) m)
          else if is_prefixed PREFIX_PQ_INIT body then history_init C conv sender (py_str body) m
          else sbind (handle_group_integrity_control C conv body) (\<lambda>handled.
            if handled then sret (set_body (JStr CONTROL_BODY) m)
            else if is_prefixed PREFIX_DR body \<or> is_prefixed PREFIX_MLS body
            then let hit = cache_hit C entries mid (py_str body)
                 in if hit \<noteq> [] then history_cached C conv mid sender when hit m
                    else if is_prefixed PREFIX_DR body then history_ratchet C conv mid sender when (py_str body) m
                    else history_group C conv mid sender when (py_str body) m
            else sret (set_body (unpack_value body) m))))))"

text \<open>The first pass over the page: the group controls are applied before anything is decrypted.\<close>

definition prehandle :: "crypto \<Rightarrow> int \<Rightarrow> dict \<Rightarrow> bool ses" where
  "prehandle C conv m =
     (if is_prefixed PREFIX_MLS (body_of m) then handle_group_integrity_control C conv (body_of m) else sret False)"

definition decrypt_history_messages :: "crypto \<Rightarrow> int \<Rightarrow> dict list \<Rightarrow> dict list ses" where
  "decrypt_history_messages C conv messages s = (case load_cached_messages C conv s of (entries, s1) \<Rightarrow>
     sbind (smap (prehandle C conv) messages) (\<lambda>handled.
       smap (history_item C conv entries) (zip handled messages)) s1)"

subsection \<open>The payload\<close>

lemma length_b64encode: "length (b64encode b) = 4 * ((length b + 2) div 3)"
proof -
  have "length (b64_body b) + b64_pad b = 4 * ((length b + 2) div 3)"
  proof (induction b rule: b64_body.induct)
    case (4 a b c r)
    have "(length (a # b # c # r) + 2) div 3 = Suc ((length r + 2) div 3)" by simp
    moreover have "b64_pad (a # b # c # r) = b64_pad r" by (simp add: b64_pad_def)
    ultimately show ?case using 4 by simp
  qed (simp_all add: b64_pad_def)
  then show ?thesis by (simp add: b64encode_def)
qed

lemma padded_unpacks: "unpack_plaintext (padded body pad) = body"
proof -
  let ?d = "[(''_type'', JStr PADDED_PLAINTEXT_MARKER), (''body'', JStr body), (''pad'', JStr pad)]"
  have "loads (padded body pad) = Inr (JObj ?d)" by (simp add: padded_def)
  moreover have "starts_with (padded body pad) ''{''" by (simp add: padded_def dumps_compact_def)
  ultimately show ?thesis by (simp add: unpack_plaintext_def dget_def)
qed

lemma packed:
  obtains pad k where "pack_plaintext C body s = (Inr (padded body pad), s\<lparr> tick := k \<rparr>)" and "is_ascii pad"
    and "tick s \<le> k" and "k \<le> tick s + 1"
proof (cases "length (padded body []) < padding_bucket (length (padded body []))")
  case True
  then show ?thesis
    using that [of "b64encode (os_random C (tick s) (pad_need (length (padded body []))))" "tick s + 1"]
    by (simp add: pack_plaintext_def Let_def)
next
  case False
  then show ?thesis using that [of "[]" "tick s"] by (simp add: pack_plaintext_def Let_def)
qed

text \<open>
  Every text survives the padded payload: whatever the body is, even one that looks like a
  payload itself, \<open>unpack_plaintext\<close> of what \<open>pack_plaintext\<close> makes is the body.
\<close>

theorem payload_unpacks: "\<exists>p s'. pack_plaintext C body s = (Inr p, s') \<and> unpack_plaintext p = body"
  by (rule packed [of C body s]) (auto simp: padded_unpacks)

lemma b64_esc_free: "b64_char c \<Longrightarrow> c \<notin> {CHR 0x22, CHR 0x5C, CHR 0x0A, CHR 0x0D, CHR 0x09, CHR 0x08, CHR 0x0C} \<and> 32 \<le> code c"
proof -
  assume "b64_char c"
  then obtain i where "i < 64" "c = sextet_char i" by (auto simp: b64_char_def)
  then have "43 \<le> code c \<and> code c \<noteq> 92" by (simp add: code_sextet_char) linarith
  then show ?thesis by auto
qed

lemma esc_b64: "concat (map esc_char (b64encode b)) = b64encode b"
proof -
  have "esc_char c = [c]" if "c \<in> set (b64encode b)" for c
  proof -
    have "b64_char c \<or> c = CHR ''=''" using that b64_body_chars [of b] by (auto simp: b64encode_def list_all_iff)
    then show ?thesis by (intro esc_char_plain) (auto dest!: b64_esc_free)
  qed
  moreover have "(\<And>c. c \<in> set xs \<Longrightarrow> esc_char c = [c]) \<Longrightarrow> concat (map esc_char xs) = xs" for xs
    by (induction xs) auto
  ultimately show ?thesis by blast
qed

lemma length_padded: "length (padded body (b64encode b)) = length (padded body []) + length (b64encode b)"
  by (simp add: padded_def dumps_compact_def quote_def esc_b64)

lemma bucket_bounds: "n \<le> 16384 \<Longrightarrow> n \<le> padding_bucket n \<and> padding_bucket n \<in> set PAD_BUCKETS"
  by (auto simp: padding_bucket_def PAD_BUCKETS_def)

lemma pad_arith:
  assumes "0 < gap" and "need = max 1 (72 * gap div 100)"
  shows "4 * ((need + 2) div 3) \<le> gap + (3 :: nat)" and "gap \<le> 4 * ((need + 2) div 3) + gap div 25 + 2"
proof -
  define q r w where "q = 72 * gap div 100" and "r = (need + 2) div 3" and "w = gap div 25"
  have d: "100 * q \<le> 72 * gap" "72 * gap < 100 + 100 * q" "3 * r \<le> need + 2" "need + 2 < 3 + 3 * r" "gap < 25 + 25 * w"
    unfolding q_def r_def w_def by (rule times_div_less_eq_dividend dividend_less_times_div zero_less_numeral)+
  consider "need = q" "1 \<le> q" | "need = 1" "q = 0" using assms(2) by (fold q_def) linarith
  then have "4 * r \<le> gap + 3 \<and> gap \<le> 4 * r + w + 2" using d assms(1) by cases linarith+
  then show "4 * ((need + 2) div 3) \<le> gap + 3" "gap \<le> 4 * ((need + 2) div 3) + gap div 25 + 2"
    unfolding r_def w_def by blast+
qed

text \<open>
  How well the padding hides the length: a body that fits the largest bucket is padded to
  within three bytes above its bucket and to no less than the bucket short of one 25th of the gap and
  two bytes, so the length of the payload still varies with the length of the body.
\<close>

theorem padding_near_bucket:
  assumes "sizes_ok C" and "length (padded body []) \<le> 16384" and "pack_plaintext C body s = (Inr p, s')"
  shows "let n = length (padded body []); bucket = padding_bucket n
    in bucket \<in> set PAD_BUCKETS \<and> n \<le> length p \<and> length p \<le> bucket + 3 \<and> bucket \<le> length p + (bucket - n) div 25 + 2"
proof -
  define n where "n = length (padded body [])"
  note b = bucket_bounds [OF assms(2), folded n_def]
  show ?thesis
  proof (cases "n < padding_bucket n")
    case True
    then have p: "p = padded body (b64encode (os_random C (tick s) (pad_need n)))"
      using assms(3) by (auto simp: pack_plaintext_def Let_def n_def)
    have lp: "length p = n + 4 * ((pad_need n + 2) div 3)"
      by (simp add: p length_padded length_b64encode sizes_okD(3) [OF assms(1)] n_def)
    have "0 < padding_bucket n - n" using True by simp
    note a = pad_arith [OF this pad_need_def]
    have "padding_bucket n \<in> set PAD_BUCKETS" using b by blast
    moreover have "length p \<le> padding_bucket n + 3" "padding_bucket n \<le> length p + (padding_bucket n - n) div 25 + 2"
      using a True unfolding lp by linarith+
    ultimately show ?thesis unfolding Let_def n_def [symmetric] lp by simp
  next
    case False
    then have "p = padded body []" using assms(3) by (auto simp: pack_plaintext_def Let_def n_def)
    then show ?thesis using b False by (auto simp: Let_def n_def [symmetric])
  qed
qed

theorem padding_near_bucket_witness:
  "\<exists>p s'. pack_plaintext toy_crypto ''hi'' demo_session = (Inr p, s') \<and> length p \<le> 256 + 3"
proof -
  have n: "length (padded ''hi'' []) \<le> 256" by code_simp
  then have "padding_bucket (length (padded ''hi'' [])) = 256" by (simp add: padding_bucket_def PAD_BUCKETS_def)
  moreover obtain p s' where p: "pack_plaintext toy_crypto ''hi'' demo_session = (Inr p, s')" by (rule packed)
  ultimately show ?thesis using padding_near_bucket [OF toy_sizes _ p] n by (auto simp: Let_def)
qed

end
