(* ===== verification/Dm_Chat.thy ===== *)
theory Dm_Chat
  imports Messaging
begin

text \<open>
  A direct conversation end to end: the session operations \<open>encrypt_for_conv\<close> and
  \<open>decrypt_live_message\<close> (\<open>client/crypto_engine/session.py\<close>) refine the operations of
  the Double Ratchet under the abstraction \<open>holds\<close>, and two clients whose ratchets are in
  step deliver every message of every conversation.
\<close>

subsection \<open>A direct conversation over its ratchet\<close>

text \<open>
  \<open>holds conv s st\<close>: in session \<open>s\<close> the direct conversation \<open>conv\<close> runs over a current ratchet
  whose value is \<open>st\<close>. This is the abstraction under which the session operations below act
  like the operations of the Double Ratchet.
\<close>

definition holds :: "int \<Rightarrow> crypto_session \<Rightarrow> double_ratchet \<Rightarrow> bool" where
  "holds conv s st = (conv \<notin> group_conv_ids s \<and> (\<exists>a. current conv s = Some a \<and> a < length (ratchets s) \<and> deref s a = st))"

lemma save_sessions_full:
  obtains d k m where "save_double_ratchet_sessions C conv s = (Inr (), s\<lparr> disk := d, tick := k, double_ratchet_session_states := m \<rparr>)"
    and "tick s \<le> k" and "k \<le> tick s + 1"
proof (cases "can_store s \<and> with_current conv s (known_sessions conv s) \<noteq> []")
  case True
  define ss where "ss = with_current conv s (known_sessions conv s)"
  define w where "w = write_sealed C (double_ratchet_sessions_path conv) (dumps_ascii_compact (sessions_json s ss)) s"
  obtain d where d: "snd w = s\<lparr> tick := tick s + 1, disk := d \<rparr>"
    unfolding w_def by (rule write_sealed_effect)
  have sv: "save_double_ratchet_sessions C conv s = (Inr (), case fst w of Inl _ \<Rightarrow> snd w | Inr _ \<Rightarrow> set_sessions conv ss (snd w))"
    using True by (simp add: save_double_ratchet_sessions_def ss_def [symmetric] sbind_def w_def [symmetric] split: prod.split sum.split)
  show ?thesis
  proof (cases "fst w")
    case (Inl e)
    then show ?thesis using sv d that [of "double_ratchet_session_states s" "tick s + 1" d] by simp
  next
    case (Inr u)
    then show ?thesis
      using sv d that [of "dset (double_ratchet_session_states s) conv ss" "tick s + 1" d] by (simp add: set_sessions_def)
  qed
next
  case False
  then have "save_double_ratchet_sessions C conv s = (Inr (), s)" by (auto simp: save_double_ratchet_sessions_def Let_def)
  then show ?thesis using that [of "double_ratchet_session_states s" "tick s" "disk s"] by simp
qed

lemma save_ratchet_full:
  obtains d k m where "save_double_ratchet C conv s = (Inr (), s\<lparr> disk := d, tick := k, double_ratchet_session_states := m \<rparr>)"
    and "tick s \<le> k" and "k \<le> tick s + 2"
proof (cases "current conv s = None \<or> \<not> can_store s")
  case True
  then have "save_double_ratchet C conv s = (Inr (), s)" by (auto simp: save_double_ratchet_def split: option.split)
  then show ?thesis using that [of "double_ratchet_session_states s" "tick s" "disk s"] by simp
next
  case False
  then obtain a where a: "current conv s = Some a" "can_store s" by auto
  obtain d where d: "snd (write_sealed C (double_ratchet_path conv) (dumps_ascii_compact (JObj (to_dict (deref s a)))) s)
      = s\<lparr> tick := tick s + 1, disk := d \<rparr>" by (rule write_sealed_effect)
  have "save_double_ratchet C conv s = save_double_ratchet_sessions C conv (s\<lparr> tick := tick s + 1, disk := d \<rparr>)"
    by (simp add: save_double_ratchet_def a d sbind_def)
  moreover obtain d' k m where "save_double_ratchet_sessions C conv (s\<lparr> tick := tick s + 1, disk := d \<rparr>)
      = (Inr (), s\<lparr> tick := tick s + 1, disk := d \<rparr>\<lparr> disk := d', tick := k, double_ratchet_session_states := m \<rparr>)"
      "tick s + 1 \<le> k" "k \<le> tick s + 2"
    by (rule save_sessions_full [of C conv "s\<lparr> tick := tick s + 1, disk := d \<rparr>"]) auto
  ultimately show ?thesis using that [of m k d'] by simp
qed

lemma holds_update [simp]:
  "holds conv (s\<lparr> disk := d, tick := k, double_ratchet_session_states := m \<rparr>) st \<longleftrightarrow> holds conv s st"
  "holds conv (s\<lparr> tick := k \<rparr>) st \<longleftrightarrow> holds conv s st"
  by (simp_all add: holds_def current_def deref_def)

lemma holds_assign:
  assumes "holds conv s st" and "current conv s = Some a"
  shows "holds conv (assign a st' s) st'"
  using assms by (auto simp: holds_def assign_def current_def deref_def)

lemma encrypt_run:
  assumes "holds conv s st"
  obtains t pad s' where "encrypt_for_conv C conv body s = (fst (dr_encrypt C (fresh_draw C t) (padded body pad) st), s')"
    and "holds conv s' (snd (dr_encrypt C (fresh_draw C t) (padded body pad) st))" and "is_ascii pad"
    and "tick s \<le> t" and "t + 2 \<le> tick s'" and "tick s' \<le> tick s + 5" and "uid s' = uid s"
proof -
  obtain pad k where p: "pack_plaintext C body s = (Inr (padded body pad), s\<lparr> tick := k \<rparr>)" "is_ascii pad" "tick s \<le> k" "k \<le> tick s + 1"
    by (rule packed)
  obtain a where a: "current conv s = Some a" "a < length (ratchets s)" "deref s a = st" and g: "conv \<notin> group_conv_ids s"
    using assms by (auto simp: holds_def)
  define e where "e = dr_encrypt C (fresh_draw C k) (padded body pad) st"
  define s1 where "s1 = assign a (snd e) (s\<lparr> tick := k + 2 \<rparr>)"
  have h: "holds conv s1 (snd e)"
    unfolding s1_def by (rule holds_assign [of _ _ st]) (use assms a in \<open>simp_all add: current_def\<close>)
  have ld: "load_double_ratchet C conv (s\<lparr> tick := k \<rparr>) = (Some a, s\<lparr> tick := k \<rparr>)"
    using a by (simp add: load_double_ratchet_def current_def)
  have enc: "ratchet_encrypt C a (padded body pad) (s\<lparr> tick := k \<rparr>) = (fst e, s1)"
    using a(3) by (simp add: ratchet_encrypt_def deref_def e_def s1_def split: prod.split)
  have run: "encrypt_for_conv C conv body s = (case fst e of Inl x \<Rightarrow> (Inl x, s1)
      | Inr w \<Rightarrow> sbind (save_double_ratchet C conv) (\<lambda>_. sret w) s1)"
    using g by (simp add: encrypt_for_conv_def sbind_def p(1) ld enc split: sum.split)
  have s1: "tick s1 = k + 2" "uid s1 = uid s" by (simp_all add: s1_def assign_def)
  show ?thesis
  proof (cases "fst e")
    case (Inl x)
    then show ?thesis using that [of k pad s1] run h s1 p by (simp add: e_def)
  next
    case (Inr w)
    obtain d k' m where sv: "save_double_ratchet C conv s1 = (Inr (), s1\<lparr> disk := d, tick := k', double_ratchet_session_states := m \<rparr>)"
      "tick s1 \<le> k'" "k' \<le> tick s1 + 2" by (rule save_ratchet_full)
    then have "encrypt_for_conv C conv body s = (fst e, s1\<lparr> disk := d, tick := k', double_ratchet_session_states := m \<rparr>)"
      using run Inr by (simp add: sbind_def)
    then show ?thesis using that [of k pad "s1\<lparr> disk := d, tick := k', double_ratchet_session_states := m \<rparr>"] h s1 p sv(2,3)
      by (simp add: e_def)
  qed
qed

text \<open>The message event the server forwards.\<close>

definition dm_event :: "int \<Rightarrow> int \<Rightarrow> string \<Rightarrow> dict" where
  "dm_event conv sender wire = [(''conversation_id'', JInt conv), (''from_id'', JInt sender), (''body'', JStr wire)]"

lemma starts_with_DR:
  assumes "starts_with w PREFIX_DR"
  shows "\<not> starts_with w PREFIX_PQ_INIT" and "\<not> starts_with w PREFIX_MLS" and "w \<noteq> []"
proof -
  have t: "take 3 w = take 3 p" if "starts_with w p" "3 \<le> length p" for p
    using that by (metis starts_with_def min.absorb1 take_take)
  have "take 3 w = ''S3D''" using t [OF assms] by (simp add: protocol_consts)
  moreover note t [of PREFIX_PQ_INIT] t [of PREFIX_MLS]
  ultimately show "\<not> starts_with w PREFIX_PQ_INIT" and "\<not> starts_with w PREFIX_MLS" and "w \<noteq> []"
    by (force simp: protocol_consts)+
qed

lemma event_fields:
  "int_or_0 (dm_event conv sender w) ''conversation_id'' = Inr conv"
  "py_int (py_or (py_or (dget (dm_event conv sender w) ''from_id'' (JInt 0)) (dget (dm_event conv sender w) ''sender_id'' (JInt 0))) (JInt 0)) = Inr sender"
  "body_of (dm_event conv sender w) = JStr w"
  by (auto simp: dm_event_def int_or_0_def dget_def py_or_def body_of_def truthy_def)

lemma live_dr_wire:
  assumes "starts_with w PREFIX_DR" and "sender \<noteq> uid s"
  shows "decrypt_live_message C (dm_event conv sender w) s = live_ratchet C conv w s"
  using assms starts_with_DR [OF assms(1)]
  by (simp add: decrypt_live_message_def event_fields is_prefixed_def handle_group_integrity_control_def sbind_def Let_def)

lemma decrypt_run:
  assumes "holds conv s st" and "starts_with w PREFIX_DR" and "sender \<noteq> uid s" and "wire_sid w \<in> {[], session_id st}" and "[] \<notin> seen st"
  obtains s' where "decrypt_live_message C (dm_event conv sender w) s = (Inr (case fst (dr_decrypt C (x_seed C (tick s)) w st) of
        Inr p \<Rightarrow> message_result (JStr (unpack_plaintext p)) | Inl _ \<Rightarrow> hidden_result ''[Cannot decrypt]''), s')"
    and "holds conv s' (case fst (dr_decrypt C (x_seed C (tick s)) w st) of
        Inr p \<Rightarrow> snd (dr_decrypt C (x_seed C (tick s)) w st) | Inl _ \<Rightarrow> st\<lparr> seen := set (newest_seen (seen st)) \<rparr>)"
    and "tick s < tick s'" and "tick s' \<le> tick s + 3" and "uid s' = uid s"
    and "\<And>e. fst (dr_decrypt C (x_seed C (tick s)) w st) = Inl e \<Longrightarrow> disk s' = disk s"
proof -
  obtain a where a: "current conv s = Some a" "a < length (ratchets s)" "deref s a = st" and g: "conv \<notin> group_conv_ids s"
    using assms(1) by (auto simp: holds_def)
  define e where "e = dr_decrypt C (x_seed C (tick s)) w st"
  define s1 where "s1 = assign a (snd e) (s\<lparr> tick := tick s + 1 \<rparr>)"
  have h: "holds conv s1 (snd e)"
    unfolding s1_def by (rule holds_assign [of _ _ st]) (use assms a in \<open>simp_all add: current_def\<close>)
  have s1: "tick s1 = tick s + 1" "uid s1 = uid s" "disk s1 = disk s" "current conv s1 = Some a"
    using a by (simp_all add: s1_def assign_def current_def)
  have pick: "state_for_double_ratchet_wire C conv w s = (Some a, s)"
    using a assms(4) by (auto simp: state_for_double_ratchet_wire_def load_double_ratchet_def Let_def)
  have d1: "deref (s\<lparr> tick := k \<rparr>) a = st" for k using a(3) by (simp add: deref_def)
  have rc: "receive_ratchet C conv w a s = (case fst e of
       Inr p \<Rightarrow> (Inr (Some p), keep_ratchet C conv a s1)
     | Inl _ \<Rightarrow> (Inr None, restore_ratchet conv a (session_id st) (st\<lparr> seen := set (newest_seen (seen st)) \<rparr>) s1))"
    by (simp add: receive_ratchet_def sbind_read a(3) from_to_dict [OF assms(5)] d1 e_def s1_def split: prod.split sum.split)
  note live = live_dr_wire [OF assms(2,3), of C conv, unfolded live_ratchet_def, simplified pick prod.case option.case]
  show ?thesis
  proof (cases "fst e")
    case (Inl x)
    define snap where "snap = st\<lparr> seen := set (newest_seen (seen st)) \<rparr>"
    define s2 where "s2 = restore_ratchet conv a (session_id st) snap s1"
    have s2: "s2 = s1\<lparr> ratchets := ratchets s1 @ [snap], double_ratchet_states := dset (double_ratchet_states s1) conv (length (ratchets s1)) \<rparr>"
      using s1(4) by (simp add: s2_def restore_ratchet_def alloc_def set_current_def)
    have "holds conv s2 snap" using h by (auto simp: s2 holds_def current_def deref_def update_conv')
    moreover have "receive_ratchet C conv w a s = (Inr None, s2)" using rc Inl by (simp add: s2_def snap_def)
    ultimately show ?thesis
      using that [of s2] live Inl s1 by (simp add: sbind_def e_def [symmetric] snap_def s2)
  next
    case (Inr p)
    obtain d k' m where sv: "save_double_ratchet C conv s1 = (Inr (), s1\<lparr> disk := d, tick := k', double_ratchet_session_states := m \<rparr>)"
      "tick s1 \<le> k'" "k' \<le> tick s1 + 2" by (rule save_ratchet_full)
    then have "receive_ratchet C conv w a s = (Inr (Some p), s1\<lparr> disk := d, tick := k', double_ratchet_session_states := m \<rparr>)"
      using rc Inr s1(4) by (simp add: keep_ratchet_def)
    then show ?thesis
      using that [of "s1\<lparr> disk := d, tick := k', double_ratchet_session_states := m \<rparr>"] live Inr h s1 sv(2,3)
      by (simp add: sbind_def e_def [symmetric])
  qed
qed

text \<open>
  C6: (refinement) Sending refines the ratchet: in a direct conversation that runs over the ratchet \<open>st\<close>,
  \<open>encrypt_for_conv\<close> returns (or raises) exactly what the ratchet's \<open>encrypt\<close> gives on a payload that
  unpacks to the body, and the session afterwards runs over the ratchet that \<open>encrypt\<close> leaves.
\<close>

theorem sending_refines_ratchet:
  assumes "holds conv s st" and "encrypt_for_conv C conv body s = (r, s')"
  shows "\<exists>t payload. unpack_plaintext payload = body \<and> tick s \<le> t \<and> t + 2 \<le> tick s'
    \<and> r = fst (dr_encrypt C (fresh_draw C t) payload st) \<and> holds conv s' (snd (dr_encrypt C (fresh_draw C t) payload st))"
proof -
  obtain t pad s2 where "encrypt_for_conv C conv body s = (fst (dr_encrypt C (fresh_draw C t) (padded body pad) st), s2)"
    "holds conv s2 (snd (dr_encrypt C (fresh_draw C t) (padded body pad) st))" "tick s \<le> t" "t + 2 \<le> tick s2"
    by (rule encrypt_run [OF assms(1), of C body]) blast
  then show ?thesis using assms(2) padded_unpacks by auto
qed

text \<open>
  C7: (error) A message that does not decrypt costs nothing but old replay ids: when the ratchet rejects a wire message
  of the peer (forged, replayed, out of the window) that names the current session or none, the user sees a
  placeholder, no file has changed, and the conversation runs over the ratchet as it was before, although the
  ratchet object has been changed halfway, with the 2048 greatest of its remembered ids: the rollback goes
  through \<open>to_dict\<close> and \<open>from_dict\<close>, which keep no more. A ratchet that remembers at most 2048 ids is exactly as before.
  Remembered ids are never empty, as \<open>_message_id\<close> makes them.
\<close>

theorem rejected_message_rolls_back:
  assumes "holds conv s st" and "starts_with w PREFIX_DR" and "sender \<noteq> uid s" and "wire_sid w \<in> {[], session_id st}"
    and "[] \<notin> seen st" and "finite (seen st)" and "fst (dr_decrypt C (x_seed C (tick s)) w st) = Inl e"
  shows "\<exists>s'. decrypt_live_message C (dm_event conv sender w) s = (Inr (hidden_result ''[Cannot decrypt]''), s')
    \<and> holds conv s' (st\<lparr> seen := set (newest_seen (seen st)) \<rparr>) \<and> disk s' = disk s
    \<and> (card (seen st) \<le> 2048 \<longrightarrow> holds conv s' st)"
proof -
  obtain s' where s': "decrypt_live_message C (dm_event conv sender w) s = (Inr (case fst (dr_decrypt C (x_seed C (tick s)) w st) of
        Inr p \<Rightarrow> message_result (JStr (unpack_plaintext p)) | Inl _ \<Rightarrow> hidden_result ''[Cannot decrypt]''), s')"
    "holds conv s' (case fst (dr_decrypt C (x_seed C (tick s)) w st) of
        Inr p \<Rightarrow> snd (dr_decrypt C (x_seed C (tick s)) w st) | Inl _ \<Rightarrow> st\<lparr> seen := set (newest_seen (seen st)) \<rparr>)"
    "\<And>e. fst (dr_decrypt C (x_seed C (tick s)) w st) = Inl e \<Longrightarrow> disk s' = disk s"
    by (rule decrypt_run [OF assms(1-5), of C]) blast
  have "st\<lparr> seen := set (newest_seen (seen st)) \<rparr> = st" if "card (seen st) \<le> 2048"
    using newest_seen_small [OF assms(6) that] by simp
  with s' assms(7) show ?thesis by (intro exI [of _ s']) auto
qed

subsection \<open>The wire of a sent message\<close>

lemma encrypted_wire:
  assumes "dr_encrypt C fr p s = (Inr w, s')" and "utf8_valid (session_id s)"
  shows "starts_with w PREFIX_DR" and "wire_sid w = session_id s" and "session_id s' = session_id s"
proof -
  obtain s1 where m: "maybe_send_ratchet C (f_sk fr) s = (Inr (), s1)" using assms(1) by (auto simp: dr_encrypt_def sbind_eq_Inr)
  have sid: "session_id s1 = session_id s" using m by (auto simp: maybe_send_ratchet_def Let_def split: if_splits sum.splits prod.splits)
  obtain n eh ct where w: "w = dr_wire (session_id s1) (dr_header s1 n) (b64e eh) (b64e ct)" and s': "session_id s' = session_id s1"
    using assms(1) by (auto simp: dr_encrypt_def sbind_def m Let_def aead_encrypt_def split: prod.splits)
  have ok: "wire_ok (JObj [(''v'', JInt SECCHAT_SCHEMA), (''sid'', JStr (session_id s1)), (''h'', JObj (dr_header s1 n)),
       (''eh'', JStr (b64e eh)), (''ct'', JStr (b64e ct))])"
    using header_wire_ok [of s1 n] assms(2) by (auto simp: sid ascii_utf8)
  show "starts_with w PREFIX_DR" by (simp add: w dr_wire_def starts_with_def)
  show "session_id s' = session_id s" using s' sid by simp
  have "json_unb64 (drop (length PREFIX_DR) w) = Inr (JObj [(''v'', JInt SECCHAT_SCHEMA), (''sid'', JStr (session_id s1)), (''h'', JObj (dr_header s1 n)),
       (''eh'', JStr (b64e eh)), (''ct'', JStr (b64e ct))])"
    unfolding w dr_wire_def using json_unb64_b64 [OF ok] by simp
  then show "wire_sid w = session_id s"
    by (simp add: wire_sid_def dget_def dr_header_def sid py_or_def truthy_def Let_def)
qed

subsection \<open>Conversations over a duplex link\<close>

text \<open>
  Messages in turn between two ends: \<open>True\<close> goes from the first to the second. A link may be
  good for a limited number of messages, because the randomness that is known to be fresh is limited.
\<close>

fun relay :: "('s \<Rightarrow> 's \<Rightarrow> 'm \<Rightarrow> 'r \<times> 's \<times> 's) \<Rightarrow> (bool \<times> 'm) list \<Rightarrow> 's \<times> 's \<Rightarrow> 'r list \<times> 's \<times> 's" where
  "relay del [] ab = ([], ab)"
| "relay del ((dir, m) # ms) (a, b) =
     (if dir then (case del a b m of (r, a', b') \<Rightarrow> case relay del ms (a', b') of (rs, ab) \<Rightarrow> (r # rs, ab))
      else (case del b a m of (r, b', a') \<Rightarrow> case relay del ms (a', b') of (rs, ab) \<Rightarrow> (r # rs, ab)))"

locale duplex =
  fixes good :: "nat \<Rightarrow> 's \<Rightarrow> 's \<Rightarrow> bool" and del :: "'s \<Rightarrow> 's \<Rightarrow> 'm \<Rightarrow> 'r \<times> 's \<times> 's"
    and fits :: "'m \<Rightarrow> bool" and shown :: "'m \<Rightarrow> 'r"
  assumes good_sym: "good n a b \<Longrightarrow> good n b a"
    and del_good: "good (Suc n) a b \<Longrightarrow> fits m \<Longrightarrow> \<exists>a' b'. del a b m = (shown m, a', b') \<and> good n a' b'"
begin

lemma relay_step:
  assumes "good (Suc n) a b" and "fits m"
  obtains a' b' where "good n a' b'"
    and "relay del ((dir, m) # ms) (a, b) = (case relay del ms (a', b') of (rs, ab) \<Rightarrow> (shown m # rs, ab))"
proof (cases dir)
  case True
  obtain a' b' where "del a b m = (shown m, a', b')" "good n a' b'" using del_good [OF assms] by blast
  with True show ?thesis by (intro that [of a' b']) simp_all
next
  case False
  obtain b' a' where d: "del b a m = (shown m, b', a')" "good n b' a'" using del_good [OF good_sym [OF assms(1)] assms(2)] by blast
  with False show ?thesis by (intro that [of a' b']) (simp_all add: good_sym [OF d(2)])
qed

lemma relay_delivers:
  assumes "good (length ms + n) a b" and "\<forall>m \<in> set ms. fits (snd m)"
  shows "\<exists>a' b'. relay del ms (a, b) = (map (shown \<circ> snd) ms, a', b') \<and> good n a' b'"
  using assms
proof (induction ms arbitrary: a b)
  case (Cons x ms)
  obtain dir m where x: "x = (dir, m)" by fastforce
  obtain a' b' where g: "good (length ms + n) a' b'"
    and r: "relay del (x # ms) (a, b) = (case relay del ms (a', b') of (rs, ab) \<Rightarrow> (shown m # rs, ab))"
    by (rule relay_step [of "length ms + n" a b m dir ms]) (use Cons.prems x in auto)
  have "\<forall>m \<in> set ms. fits (snd m)" using Cons.prems(2) by simp
  then obtain a2 b2 where "relay del ms (a', b') = (map (shown \<circ> snd) ms, a2, b2)" "good n a2 b2" using Cons.IH [OF g] by blast
  with r x show ?case by simp
qed simp

end

subsection \<open>Two clients whose ratchets are in step\<close>

definition key_at :: "crypto \<Rightarrow> nat \<Rightarrow> bytes" where
  "key_at C t = x_pub C (x_seed C t)"

definition tick_window :: "nat \<Rightarrow> crypto_session \<Rightarrow> nat set" where
  "tick_window n s = {tick s ..< tick s + 5 * n}"

text \<open>
  The two clients draw from the environment at disjoint ranges of ticks, and the keys of the next
  \<open>n\<close> messages are new: distinct from each other and from those in \<open>U\<close>.
\<close>

definition fresh_keys :: "crypto \<Rightarrow> bytes set \<Rightarrow> nat set \<Rightarrow> bool" where
  "fresh_keys C U T = (inj_on (key_at C) T \<and> key_at C ` T \<inter> U = {})"

definition linked :: "crypto \<Rightarrow> int \<Rightarrow> nat \<Rightarrow> crypto_session \<Rightarrow> crypto_session \<Rightarrow> bool" where
  "linked C conv n a b = (crypto_ok C \<and> aead_bound C \<and> uid a \<noteq> uid b \<and> tick_window n a \<inter> tick_window n b = {}
     \<and> (\<exists>U sa sb. holds conv a sa \<and> holds conv b sb \<and> synced C U sa sb \<and> fresh_keys C U (tick_window n a \<union> tick_window n b)))"

definition deliver :: "crypto \<Rightarrow> int \<Rightarrow> crypto_session \<Rightarrow> crypto_session \<Rightarrow> string \<Rightarrow> dict res \<times> crypto_session \<times> crypto_session" where
  "deliver C conv a b body = (case encrypt_for_conv C conv body a of
       (Inl e, a') \<Rightarrow> (Inl e, a', b)
     | (Inr w, a') \<Rightarrow> (case decrypt_live_message C (dm_event conv (uid a) w) b of (r, b') \<Rightarrow> (r, a', b')))"

definition shown_text :: "string \<Rightarrow> dict res" where
  "shown_text body = Inr (message_result (JStr body))"

lemma linked_sym: "linked C conv n a b \<Longrightarrow> linked C conv n b a"
  unfolding linked_def using synced_sym by (metis Int_commute Un_commute)

lemma fresh_draw_ok: "sizes_ok C \<Longrightarrow> fresh_ok (fresh_draw C t)"
  by (simp add: fresh_ok_def fresh_draw_def sizes_okD)

lemma padded_utf8: "utf8_valid body \<Longrightarrow> is_ascii pad \<Longrightarrow> utf8_valid (padded body pad)"
  unfolding padded_def by (rule utf8_valid_dumps_compact) (auto simp: PADDED_PLAINTEXT_MARKER_def ascii_utf8)

lemma synced_facts:
  assumes "synced C U s r"
  shows "utf8_valid (session_id s)" and "session_id r = session_id s" and "[] \<notin> seen r"
proof -
  obtain V W where p: "parties C U V W s r" using assms unfolding synced_def by blast
  then have "seen_ok V r" "addressed s r" "utf8_valid (session_id s)" unfolding parties_def by blast+
  then show "utf8_valid (session_id s)" "session_id r = session_id s" "[] \<notin> seen r"
    by (auto simp: addressed_def seen_ok_def)
qed

lemma fresh_keys_shrink:
  assumes "fresh_keys C U T" and "T' \<subseteq> T" and "t \<in> T - T'" and "u \<in> T - T'" and "t \<noteq> u"
  shows "key_at C t \<notin> U" and "key_at C u \<notin> insert (key_at C t) U"
    and "fresh_keys C (insert (key_at C u) (insert (key_at C t) U)) T'"
proof -
  have i: "inj_on (key_at C) T" and d: "key_at C ` T \<inter> U = {}" using assms(1) by (auto simp: fresh_keys_def)
  show "key_at C t \<notin> U" using d assms(3) by blast
  show "key_at C u \<notin> insert (key_at C t) U" using i d assms(3-5) by (auto dest: inj_onD)
  have "key_at C x \<noteq> key_at C y" if "x \<in> T'" "y \<in> T - T'" for x y using that assms(2) inj_onD [OF i, of x y] by blast
  then have "key_at C x \<notin> insert (key_at C u) (insert (key_at C t) U)" if "x \<in> T'" for x
    using that assms(2-4) d by blast
  then show "fresh_keys C (insert (key_at C u) (insert (key_at C t) U)) T'"
    using inj_on_subset [OF i assms(2)] unfolding fresh_keys_def by blast
qed

lemma deliver_linked:
  assumes "linked C conv (Suc n) a b" and "utf8_valid body"
  shows "\<exists>a' b'. deliver C conv a b body = (shown_text body, a', b') \<and> linked C conv n a' b'"
proof -
  obtain U sa sb where ok: "crypto_ok C" "aead_bound C" "uid a \<noteq> uid b" and dj: "tick_window (Suc n) a \<inter> tick_window (Suc n) b = {}"
    and hs: "holds conv a sa" "holds conv b sb" and sy: "synced C U sa sb"
    and fr: "fresh_keys C U (tick_window (Suc n) a \<union> tick_window (Suc n) b)"
    using assms(1) unfolding linked_def by blast
  have sz: "sizes_ok C" using ok(1) by (rule crypto_okD)
  obtain t pad a' where e: "encrypt_for_conv C conv body a = (fst (dr_encrypt C (fresh_draw C t) (padded body pad) sa), a')"
    "holds conv a' (snd (dr_encrypt C (fresh_draw C t) (padded body pad) sa))" "is_ascii pad"
    "tick a \<le> t" "t + 2 \<le> tick a'" "tick a' \<le> tick a + 5" "uid a' = uid a" by (rule encrypt_run [OF hs(1)])
  define u where "u = tick b"
  define p where "p = padded body pad"
  have pu: "utf8_valid p" unfolding p_def by (rule padded_utf8 [OF assms(2) e(3)])
  have t: "t \<in> tick_window (Suc n) a" and u: "u \<in> tick_window (Suc n) b" using e(4-6) by (auto simp: tick_window_def u_def)
  then have tu: "t \<noteq> u" using dj by blast
  have sk: "x_pub C (f_sk (fresh_draw C t)) = key_at C t" "x_pub C (x_seed C u) = key_at C u"
    by (simp_all add: fresh_draw_def key_at_def)
  have k: "key_at C t \<notin> U" "key_at C u \<notin> insert (key_at C t) U"
    using fresh_keys_shrink [OF fr, of "{}" t u] t u tu by auto
  obtain w sa' sb' where d: "dr_encrypt C (fresh_draw C t) p sa = (Inr w, sa')" "dr_decrypt C (x_seed C u) w sb = (Inr p, sb')"
    "synced C (insert (key_at C u) (insert (key_at C t) U)) sa' sb'"
    using synced_step [OF ok(1,2) fresh_draw_ok [OF sz, of t] pu sizes_okD(7) [OF sz, of u] sy, unfolded sk, OF k] by blast
  note wf = encrypted_wire [OF d(1) synced_facts(1) [OF sy]] and f = synced_facts [OF sy]
  obtain b' where r: "decrypt_live_message C (dm_event conv (uid a) w) b = (shown_text body, b')"
    "holds conv b' sb'" "tick b < tick b'" "tick b' \<le> tick b + 3" "uid b' = uid b"
    by (rule decrypt_run [OF hs(2) wf(1) ok(3) _ f(3), of C])
       (use wf(2) f(2) d(2) padded_unpacks in \<open>auto simp: u_def p_def shown_text_def\<close>)
  have "deliver C conv a b body = (shown_text body, a', b')"
    using e(1) d(1) r(1) by (simp add: deliver_def p_def)
  moreover have "linked C conv n a' b'"
  proof -
    have w: "tick_window n a' \<subseteq> tick_window (Suc n) a" "tick_window n b' \<subseteq> tick_window (Suc n) b" "t \<notin> tick_window n a'" "u \<notin> tick_window n b'"
      using e(4-6) r(3,4) by (auto simp: tick_window_def u_def)
    then have "fresh_keys C (insert (key_at C u) (insert (key_at C t) U)) (tick_window n a' \<union> tick_window n b')"
      using t u dj by (intro fresh_keys_shrink(3) [OF fr _ _ _ tu]) blast+
    moreover have "holds conv a' sa'" using e(2) d(1) by (simp add: p_def)
    moreover have "tick_window n a' \<inter> tick_window n b' = {}" using w dj by blast
    ultimately show ?thesis using ok e(7) r(2,5) d(3) unfolding linked_def by metis
  qed
  ultimately show ?thesis by blast
qed

interpretation dm: duplex "linked C conv" "deliver C conv" utf8_valid shown_text for C conv
  by unfold_locales (rule linked_sym, assumption, rule deliver_linked)

subsection \<open>Witnesses\<close>

lemma demo_holds: "holds 5 (demo_two 0) (demo_A\<lparr> session_id := ''b'' \<rparr>)"
  by (simp add: holds_def deref_def) (simp add: demo_two_def demo_session_def current_def)

theorem sending_refines_ratchet_witness:
  "\<exists>t payload. unpack_plaintext payload = ''hi''
     \<and> fst (encrypt_for_conv toy_crypto 5 ''hi'' (demo_two 0)) = fst (dr_encrypt toy_crypto (fresh_draw toy_crypto t) payload (demo_A\<lparr> session_id := ''b'' \<rparr>))"
  using sending_refines_ratchet [OF demo_holds prod.collapse [symmetric], where C = toy_crypto and body = "''hi''"] by blast

theorem rejected_message_rolls_back_witness:
  "\<exists>s'. decrypt_live_message toy_crypto (dm_event 5 2 (PREFIX_DR @ ''e30'')) (demo_two 0) = (Inr (hidden_result ''[Cannot decrypt]''), s')
     \<and> holds 5 s' (demo_A\<lparr> session_id := ''b'' \<rparr>)"
proof -
  let ?w = "PREFIX_DR @ ''e30''" and ?st = "demo_A\<lparr> session_id := ''b'' \<rparr>"
  have j: "json_unb64 ''e30'' = Inr (JObj [])" by code_simp
  have "read_header toy_crypto ?st [] = Inl (KeyError ''dh'')"
    by (simp add: read_header_def dget_def dkey_def py_or_def truthy_def int_or_0_def protocol_consts Let_def)
  then have "fst (dr_decrypt toy_crypto (x_seed toy_crypto (tick (demo_two 0))) ?w ?st) = Inl (KeyError ''dh'')"
    by (simp add: dr_decrypt_def unwrap_wire_def starts_with_def j sbind_def)
  moreover have "wire_sid ?w \<in> {[], session_id ?st}" by (simp add: wire_sid_def j dget_def py_or_def truthy_def Let_def)
  moreover have "starts_with ?w PREFIX_DR" by (simp add: starts_with_def)
  moreover have "2 \<noteq> uid (demo_two 0)" by (simp add: demo_two_def demo_session_def)
  moreover have "[] \<notin> seen ?st" "finite (seen ?st)" "card (seen ?st) \<le> 2048"
    by (simp_all add: demo_A_def init_state_def Let_def)
  ultimately show ?thesis using rejected_message_rolls_back [OF demo_holds, where w = ?w and sender = 2 and C = toy_crypto] by blast
qed

end
