(* ===== verification/Dm_Handshake.thy ===== *)
theory Dm_Handshake
  imports Dm_Chat
begin

text \<open>
  Starting a direct conversation, from the published prekeys to the first messages: the initiator's
  \<open>initiate_pqxdh_dm\<close> and the responder's \<open>decrypt_live_message\<close>
  (\<open>client/crypto_engine/session.py\<close>) leave two sessions whose ratchets are in step, so that the
  conversation that follows is delivered.
\<close>

subsection \<open>What the two sides start from\<close>

definition published :: "crypto \<Rightarrow> crypto_session \<Rightarrow> dict \<Rightarrow> bool" where
  "published C s upload = (identity_pk s = ed_pub C (identity_sk s) \<and> (\<exists>t now p n store. pqxdh_prekeys s = Some store
     \<and> generate_local_bundle C t now (identity_pk s) (identity_sk s) p n = Inr (upload, store)))"

definition new_chat :: "int \<Rightarrow> crypto_session \<Rightarrow> bool" where
  "new_chat conv s = (conv \<notin> group_conv_ids s \<and> current conv s = None \<and> \<not> dhas (double_ratchet_session_states s) conv
     \<and> \<not> has_file (double_ratchet_path conv) s \<and> \<not> has_file (double_ratchet_sessions_path conv) s)"

definition first_contact :: "int \<Rightarrow> crypto_session \<Rightarrow> bool" where
  "first_contact user s = (\<not> dhas (identity_audit_states s) user \<and> \<not> has_file (identity_audit_path user) s)"

text \<open>A new bundle published through the session puts the client into that position.\<close>

lemma new_bundle_published:
  assumes "kem_ready C" and "length (identity_sk s) = 32" and "identity_pk s = ed_pub C (identity_sk s)"
  obtains upload s' where "new_bundle C s = (Inr upload, s')" and "published C s' upload"
proof -
  obtain upload local where b: "generate_local_bundle C (tick s) (clock_ms C (tick s)) (identity_pk s) (identity_sk s) None 12 = Inr (upload, local)"
    "new_bundle C s = (Inr upload, snd (save_pqxdh_prekeys C (s\<lparr> tick := tick s + 13, pqxdh_prekeys := Some local \<rparr>)))"
    by (rule bundle_made [OF assms(1,2)])
  obtain d k where "snd (save_pqxdh_prekeys C (s\<lparr> tick := tick s + 13, pqxdh_prekeys := Some local \<rparr>))
      = s\<lparr> tick := tick s + 13, pqxdh_prekeys := Some local \<rparr>\<lparr> tick := k, disk := d \<rparr>" by (rule save_prekeys_keeps)
  then show ?thesis using that [OF b(2)] b(1) assms(3) by (auto simp: published_def)
qed

subsection \<open>Saving touches the ratchet files only\<close>

text \<open>What stays as it is while a session is installed.\<close>

definition calm :: "crypto_session \<Rightarrow> crypto_session \<Rightarrow> bool" where
  "calm s s' = (uid s' = uid s \<and> group_conv_ids s' = group_conv_ids s \<and> identity_audit_states s' = identity_audit_states s
     \<and> (\<forall>u. map_of (disk s') (identity_audit_path u) = map_of (disk s) (identity_audit_path u)))"

lemma calm_trans: "calm s t \<Longrightarrow> calm t u \<Longrightarrow> calm s u"
  by (simp add: calm_def)

lemma audit_path_other [simp]: "identity_audit_path u \<noteq> double_ratchet_path c" "identity_audit_path u \<noteq> double_ratchet_sessions_path c"
  "identity_audit_path u \<noteq> pqxdh_prekeys_path"
  by (simp_all add: identity_audit_path_def double_ratchet_path_def double_ratchet_sessions_path_def pqxdh_prekeys_path_def)

lemma save_ratchet_disk:
  assumes "n \<noteq> double_ratchet_path conv" and "n \<noteq> double_ratchet_sessions_path conv"
  shows "map_of (disk (snd (save_double_ratchet C conv s))) n = map_of (disk s) n"
proof (cases "current conv s = None \<or> \<not> can_store s")
  case True
  then show ?thesis by (auto simp: save_double_ratchet_def split: option.split)
next
  case False
  then obtain a where a: "current conv s = Some a" "can_store s" by auto
  obtain d where "snd (write_sealed C (double_ratchet_path conv) (dumps_ascii_compact (JObj (to_dict (deref s a)))) s)
      = s\<lparr> tick := tick s + 1, disk := d \<rparr>" "\<And>m. m \<noteq> double_ratchet_path conv \<Longrightarrow> map_of d m = map_of (disk s) m"
    by (rule write_sealed_effect) blast
  then show ?thesis using assms a save_sessions_disk(1) [OF assms(2)] by (simp add: save_double_ratchet_def sbind_def)
qed

lemma save_ratchet_calm:
  assumes "holds conv s st"
  obtains s' where "save_double_ratchet C conv s = (Inr (), s')" and "holds conv s' st" and "calm s s'"
    and "tick s \<le> tick s'" and "tick s' \<le> tick s + 2"
proof -
  obtain d k m where s: "save_double_ratchet C conv s = (Inr (), s\<lparr> disk := d, tick := k, double_ratchet_session_states := m \<rparr>)"
    "tick s \<le> k" "k \<le> tick s + 2" by (rule save_ratchet_full)
  then have "map_of d (identity_audit_path u) = map_of (disk s) (identity_audit_path u)" for u
    using save_ratchet_disk [of "identity_audit_path u" conv C s] by simp
  then show ?thesis using that [OF s(1)] s(2,3) assms by (simp add: calm_def)
qed

lemma remember_run:
  assumes "dhas (double_ratchet_session_states s) conv \<or> \<not> has_file (double_ratchet_sessions_path conv) s"
    and "current conv s = None \<or> current conv s = Some a" and "known_sessions conv s = [] \<or> known_sessions conv s = [(session_id (deref s a), a)]"
    and "session_id (deref s a) \<noteq> []"
  obtains m where "remember_double_ratchet_session C conv (Some a) s = s\<lparr> double_ratchet_session_states := m \<rparr>"
    and "dget m conv [] = [(session_id (deref s a), a)]" and "dhas m conv"
proof -
  define ss where "ss = with_current conv s (known_sessions conv s)"
  have ss: "dset ss (session_id (deref s a)) a = [(session_id (deref s a), a)]"
    using assms(2-4) by (auto simp: ss_def with_current_def split: option.splits)
  have "load_double_ratchet_sessions C conv s = (ss, set_sessions conv ss s)"
    using assms(1) by (auto simp: load_double_ratchet_sessions_def ss_def known_sessions_def dhas_def dget_def Let_def split: option.splits)
  then have "remember_double_ratchet_session C conv (Some a) s = set_sessions conv [(session_id (deref s a), a)] (set_sessions conv ss s)"
    using assms(4) ss by (simp add: remember_double_ratchet_session_def)
  then show ?thesis using that [of "dset (double_ratchet_session_states s) conv [(session_id (deref s a), a)]"] by (simp add: set_sessions_def)
qed

lemma start_session_first:
  assumes "new_chat conv s" and "session_id st \<noteq> []"
  obtains s' where "start_session C conv peer fp st s = (Inr (), s')" and "holds conv s' st"
    and "uid s' = uid s" and "tick s \<le> tick s'" and "tick s' \<le> tick s + 2"
proof -
  let ?a = "length (ratchets s)"
  define s1 where "s1 = set_current conv ?a (s\<lparr> ratchets := ratchets s @ [st] \<rparr>)"
  have d: "deref s1 ?a = st" by (simp add: s1_def set_current_def deref_def)
  obtain m where m: "remember_double_ratchet_session C conv (Some ?a) s1 = s1\<lparr> double_ratchet_session_states := m \<rparr>"
  proof (rule remember_run [of s1 conv ?a C])
    show "dhas (double_ratchet_session_states s1) conv \<or> \<not> has_file (double_ratchet_sessions_path conv) s1"
      using assms(1) by (simp add: new_chat_def s1_def set_current_def has_file_def)
    show "known_sessions conv s1 = [] \<or> known_sessions conv s1 = [(session_id (deref s1 ?a), ?a)]"
      using assms(1) by (simp add: new_chat_def s1_def set_current_def known_sessions_def dget_def dhas_def)
  qed (simp_all add: d assms(2), simp add: s1_def)
  define s2 where "s2 = set_peer conv peer fp (s1\<lparr> double_ratchet_session_states := m \<rparr>)"
  have h: "holds conv s2 st"
    using assms(1) by (auto simp: holds_def new_chat_def s2_def set_peer_def s1_def set_current_def current_def deref_def update_conv')
  have s2: "tick s2 = tick s" "uid s2 = uid s" by (simp_all add: s2_def set_peer_def s1_def set_current_def)
  have run: "start_session C conv peer fp st s = save_double_ratchet C conv s2"
    by (simp add: start_session_def alloc_def s1_def [symmetric] m s2_def)
  obtain s' where "save_double_ratchet C conv s2 = (Inr (), s')" "holds conv s' st" "calm s2 s'" "tick s2 \<le> tick s'" "tick s' \<le> tick s2 + 2"
    by (rule save_ratchet_calm [OF h])
  then show ?thesis using that [of s'] run s2 by (simp add: calm_def)
qed

text \<open>A conversation whose session map has been loaded and is empty.\<close>

lemma install_first:
  assumes "conv \<notin> group_conv_ids s" and "current conv s = None" and "known_sessions conv s = []"
    and "dhas (double_ratchet_session_states s) conv" and "\<not> has_file (double_ratchet_path conv) s" and "session_id st \<noteq> []"
  shows "holds conv (install_session C conv st peer fp s) st" and "calm s (install_session C conv st peer fp s)"
    and "tick s \<le> tick (install_session C conv st peer fp s)" and "tick (install_session C conv st peer fp s) \<le> tick s + 2"
proof -
  let ?a = "length (ratchets s)"
  define s1 where "s1 = s\<lparr> ratchets := ratchets s @ [st] \<rparr>"
  have d: "deref s1 ?a = st" "current conv s1 = None" "known_sessions conv s1 = []" "dhas (double_ratchet_session_states s1) conv"
    using assms by (simp_all add: s1_def deref_def current_def known_sessions_def)
  obtain m where m: "remember_double_ratchet_session C conv (Some ?a) s1 = s1\<lparr> double_ratchet_session_states := m \<rparr>"
    "dget m conv [] = [(session_id st, ?a)]" "dhas m conv"
    by (rule remember_run [of s1 conv ?a C]) (use d assms(6) in simp_all)
  define s2 where "s2 = s1\<lparr> double_ratchet_session_states := m \<rparr>"
  have d2: "deref s2 ?a = st" "current conv s2 = None" "known_sessions conv s2 = [(session_id st, ?a)]" "dhas (double_ratchet_session_states s2) conv"
    using d m by (simp_all add: s2_def deref_def current_def known_sessions_def)
  obtain m' where m': "remember_double_ratchet_session C conv (Some ?a) s2 = s2\<lparr> double_ratchet_session_states := m' \<rparr>"
    "dget m' conv [] = [(session_id st, ?a)]" "dhas m' conv"
    by (rule remember_run [of s2 conv ?a C]) (use d2 assms(6) in simp_all)
  define s3 where "s3 = set_sessions conv [(session_id st, ?a)] (s2\<lparr> double_ratchet_session_states := m' \<rparr>)"
  have c3: "with_current conv (s2\<lparr> double_ratchet_session_states := m' \<rparr>) x = x" for x
    using d2(2) by (simp add: with_current_def current_def)
  have "load_double_ratchet_sessions C conv (s2\<lparr> double_ratchet_session_states := m' \<rparr>) = ([(session_id st, ?a)], s3)"
    using m'(2,3) by (simp add: load_double_ratchet_sessions_def known_sessions_def s3_def c3 Let_def)
  moreover have "load_double_ratchet C conv s2 = (None, s2)"
    using d2(2) assms(5) by (simp add: load_double_ratchet_def s2_def s1_def has_file_def)
  ultimately have sel: "select_canonical_double_ratchet_state C conv (Some ?a) s2
      = (Some ?a, snd (save_double_ratchet C conv (set_current conv ?a s3)))"
    by (simp add: select_canonical_double_ratchet_state_def remember_double_ratchet_session_def [of _ _ None] m'(1) Let_def dget_def)
  define s4 where "s4 = set_current conv ?a s3"
  have h: "holds conv s4 st" "calm s s4" "tick s4 = tick s"
    using assms(1) by (simp_all add: s4_def s3_def s2_def s1_def holds_def calm_def set_current_def set_sessions_def current_def deref_def update_conv')
  obtain s' where s': "save_double_ratchet C conv s4 = (Inr (), s')" "holds conv s' st" "calm s4 s'" "tick s4 \<le> tick s'" "tick s' \<le> tick s4 + 2"
    by (rule save_ratchet_calm [OF h(1)])
  have run: "install_session C conv st peer fp s = set_peer conv peer fp s'"
    by (simp add: install_session_def alloc_def s1_def [symmetric] m(1) s2_def [symmetric] sel s4_def [symmetric] s'(1))
  have "holds conv (set_peer conv peer fp s') st" using s'(2) by (simp add: holds_def set_peer_def current_def deref_def)
  moreover have "calm s (set_peer conv peer fp s')" using calm_trans [OF h(2) s'(3)] by (simp add: calm_def set_peer_def)
  ultimately show "holds conv (install_session C conv st peer fp s) st" "calm s (install_session C conv st peer fp s)"
    "tick s \<le> tick (install_session C conv st peer fp s)" "tick (install_session C conv st peer fp s) \<le> tick s + 2"
    using run s'(4,5) h(3) by (simp_all add: set_peer_def)
qed

text \<open>The first sighting of a peer's key is recorded.\<close>

lemma note_first:
  assumes "first_contact peer s" and "opt_int (dget meta ''sender_identity_version'' JNull) = Inr version" and "holds conv s st"
  obtains s' where "note_identity C meta peer fp s = (Inr (), s')" and "holds conv s' st" and "uid s' = uid s"
    and "tick s \<le> tick s'" and "tick s' \<le> tick s + 1"
proof (cases "str_or_empty meta ''identity_pk'' = []")
  case True
  then show ?thesis using that [of s] assms(3) by (simp add: note_identity_def)
next
  case False
  have ld: "load_identity_audit C peer s = (unknown_audit peer, s)"
    using assms(1) by (auto simp: load_identity_audit_def first_contact_def dhas_def split: option.splits)
  obtain state where "record_identity_seen_unverified C peer (str_or_empty meta ''identity_pk'') version fp ''pqxdh_initial'' s
      = (Inr state, save_identity_audit C peer state s)"
    by (cases version) (auto simp: record_identity_seen_unverified_def ld Let_def unknown_audit_def dget_def list_or_empty_def py_or_def truthy_def)
  then have run: "note_identity C meta peer fp s = (Inr (), save_identity_audit C peer state s)"
    using False assms(2) by (simp add: note_identity_def sbind_def)
  define e where "e = dsetdefault (dset state ''user_id'' (JInt peer)) ''history'' (JArr [])"
  define s1 where "s1 = s\<lparr> identity_audit_states := dset (identity_audit_states s) peer e \<rparr>"
  obtain d where d: "snd (write_sealed C (identity_audit_path peer) (dumps_compact (JObj e)) s1) = s1\<lparr> tick := tick s1 + 1, disk := d \<rparr>"
    by (rule write_sealed_effect) blast
  have sv: "save_identity_audit C peer state s = (if \<not> can_store s1 then s1 else s1\<lparr> tick := tick s1 + 1, disk := d \<rparr>)"
    by (simp add: save_identity_audit_def e_def [symmetric] s1_def [symmetric] d Let_def)
  have "holds conv (save_identity_audit C peer state s) st"
    using assms(3) unfolding sv by (simp add: s1_def holds_def current_def deref_def)
  then show ?thesis using that [OF run] unfolding sv by (simp add: s1_def)
qed

subsection \<open>The handshake message\<close>

lemma init_token_meta:
  assumes "crypto_ok C" and "oqs_present C" and "bundle_ok C isk peer_store b csk alg qpk qsk c q"
    and "own_prekey C store kid sk" and "length me_sk = 32" and "init_fresh_ok fr"
    and "pqxdh_initiate C fr b store (ed_pub C me_sk) me_sk me peer body version conv = Inr (token, sA, fp)"
  obtains meta where "starts_with token PREFIX_PQ_INIT" and "init_meta token = Inr meta" and "session_id sA = b64e (i_sid fr)"
    and "str_or_empty meta ''sid'' = b64e (i_sid fr)" and "opt_int (dget meta ''sender_identity_version'' JNull) = Inr version"
proof -
  note sz = crypto_okD(5) [OF assms(1)]
  obtain ct ss d1 d2 d3 sig spk pqspk where
    init: "pqxdh_initiate C fr b store (ed_pub C me_sk) me_sk me peer body version conv =
      (let root = hkdf C (d1 @ d2 @ d3 @ ss) ''SecChat-PQXDH'' None 32;
           payload = init_payload (b64e (i_sid fr)) conv me peer (ed_pub C me_sk) (kid, x_pub C sk, sig) (x_pub C (i_eph fr))
             (spk, served_id c, pqspk, served_id q) (JStr alg) ct (x_pub C (i_dr fr)) version;
           mk = fst (kdf_ck C (fst (initial_chains C root True)))
       in Inr (PREFIX_PQ_INIT @ json_b64 (JObj (payload @ [(''ct'', JStr (b64e (i_nonce fr
                 @ aes_enc C mk (i_nonce fr) (dumps_compact (JObj [(''ts'', JInt (i_ts fr)), (''body'', JStr body)])) (canonical (JObj payload)))))])),
               init_state C fr root conv me peer version, safety_fingerprint C (ed_pub C me_sk) (ed_pub C isk)))"
    by (rule initiate_token [OF assms(1-6)]) blast
  define pl where "pl = init_payload (b64e (i_sid fr)) conv me peer (ed_pub C me_sk) (kid, x_pub C sk, sig) (x_pub C (i_eph fr))
             (spk, served_id c, pqspk, served_id q) (JStr alg) ct (x_pub C (i_dr fr)) version"
  obtain x root where t: "token = PREFIX_PQ_INIT @ json_b64 (JObj (pl @ [(''ct'', JStr (b64e x))]))" "sA = init_state C fr root conv me peer version"
    using init assms(7) unfolding Let_def pl_def by auto
  have "is_ascii alg" by (rule bundle_fields(10) [OF assms(3) sz])
  then have "wire_ok (JObj (pl @ [(''ct'', JStr (b64e x))]))" unfolding pl_def by (intro payload_wire_ok) (auto simp: ascii_utf8)
  then have "init_meta token = Inr (pl @ [(''ct'', JStr (b64e x))])" by (simp add: init_meta_def t(1))
  moreover have "str_or_empty (pl @ [(''ct'', JStr (b64e x))]) ''sid'' = b64e (i_sid fr)"
    unfolding str_or_empty_def pl_def payload_fields(14) by (simp add: py_or_def truthy_def)
  moreover have "opt_int (dget (pl @ [(''ct'', JStr (b64e x))]) ''sender_identity_version'' JNull) = Inr version"
    unfolding pl_def by (rule payload_fields(13))
  moreover have "session_id sA = b64e (i_sid fr)"
    using assms(6) by (auto simp: t(2) init_state_def Let_def init_fresh_ok_def)
  ultimately show ?thesis using that [of "pl @ [(''ct'', JStr (b64e x))]"] by (simp add: t(1) starts_with_def)
qed

lemma save_prekeys_frame:
  obtains d k where "snd (save_pqxdh_prekeys C s) = s\<lparr> tick := k, disk := d \<rparr>" and "tick s \<le> k" and "k \<le> tick s + 1"
    and "\<And>n. n \<noteq> pqxdh_prekeys_path \<Longrightarrow> map_of d n = map_of (disk s) n"
proof (cases "\<exists>kv store. pqxdh_prekeys s = Some (kv # store) \<and> can_store s")
  case True
  then obtain kv store where s: "pqxdh_prekeys s = Some (kv # store)" "can_store s" by blast
  obtain d where "snd (write_sealed C pqxdh_prekeys_path (dumps_compact (JObj (kv # store))) s) = s\<lparr> tick := tick s + 1, disk := d \<rparr>"
    "\<And>n. n \<noteq> pqxdh_prekeys_path \<Longrightarrow> map_of d n = map_of (disk s) n"
    by (rule write_sealed_effect) blast
  then show ?thesis using that [of d "tick s + 1"] s by (simp add: save_pqxdh_prekeys_def)
next
  case False
  then show ?thesis using that [of "disk s" "tick s"] by (auto simp: save_pqxdh_prekeys_def split: option.splits list.splits)
qed

lemma accept_first:
  assumes new: "conv \<notin> group_conv_ids s" "current conv s = None" "known_sessions conv s = []"
      "dhas (double_ratchet_session_states s) conv" "\<not> has_file (double_ratchet_path conv) s" "first_contact peer s"
    and st: "pqxdh_prekeys s = Some store" "store_ok store" "store \<noteq> []"
    and resp: "pqxdh_respond C (x_seed C (tick s)) (os_random C (tick s) 16) (Some (uid s)) token store = (Inr (plain, state, fp, peer), popped)"
    and sid: "session_id state \<noteq> []" and ver: "opt_int (dget meta ''sender_identity_version'' JNull) = Inr version"
  obtains s' where "accept_init C conv token meta s = (Inr (init_result meta plain peer fp), s')" and "holds conv s' state"
    and "uid s' = uid s" and "tick s < tick s'" and "tick s' \<le> tick s + 7"
proof -
  define s1 where "s1 = s\<lparr> tick := tick s + 1, pqxdh_prekeys := Some popped \<rparr>"
  obtain d k where sp: "snd (save_pqxdh_prekeys C s1) = s1\<lparr> tick := k, disk := d \<rparr>" "tick s1 \<le> k" "k \<le> tick s1 + 1"
    "\<And>n. n \<noteq> pqxdh_prekeys_path \<Longrightarrow> map_of d n = map_of (disk s1) n" by (rule save_prekeys_frame [of C s1]) blast
  define s2 where "s2 = s1\<lparr> tick := k, disk := d \<rparr>"
  have "double_ratchet_path conv \<noteq> pqxdh_prekeys_path" by (simp add: double_ratchet_path_def pqxdh_prekeys_path_def)
  then have s2: "conv \<notin> group_conv_ids s2" "current conv s2 = None" "known_sessions conv s2 = []"
      "dhas (double_ratchet_session_states s2) conv" "\<not> has_file (double_ratchet_path conv) s2" "calm s s2"
      "tick s < tick s2" "tick s2 \<le> tick s + 2"
    using new sp(2-4) by (simp_all add: s2_def s1_def current_def known_sessions_def has_file_def dhas_def calm_def)
  have r: "respond_pqxdh_with_current_prekey C token s = (Inr (plain, state, fp, peer), s2)"
    unfolding respond_with_store [OF st(1,3,2)] using resp sp(1) by (simp add: respond_on_copy_def s1_def s2_def)
  define s3 where "s3 = install_session C conv state peer fp s2"
  note i = install_first [OF s2(1-5) sid, of C peer fp, folded s3_def]
  obtain s4 where s4: "save_double_ratchet C conv s3 = (Inr (), s4)" "holds conv s4 state" "calm s3 s4" "tick s3 \<le> tick s4" "tick s4 \<le> tick s3 + 2"
    by (rule save_ratchet_calm [OF i(1)])
  have c: "calm s s4" using calm_trans calm_trans s2(6) i(2) s4(3) by blast
  then have "first_contact peer s4" using new(6) by (simp add: first_contact_def calm_def has_file_def dhas_def)
  then obtain s5 where s5: "note_identity C meta peer fp s4 = (Inr (), s5)" "holds conv s5 state" "uid s5 = uid s4" "tick s4 \<le> tick s5" "tick s5 \<le> tick s4 + 1"
    by (rule note_first [OF _ ver s4(2)])
  have "accept_init C conv token meta s = (Inr (init_result meta plain peer fp), s5)"
    by (simp add: accept_init_def sbind_def r s3_def [symmetric] s4(1) s5(1))
  then show ?thesis using that [of s5] s5 c s2(7,8) i(3,4) s4(4,5) by (simp add: calm_def)
qed

text \<open>The first contact of a responder, up to the acceptance of the handshake message.\<close>

lemma live_init_first:
  assumes "new_chat conv s" and "sender \<noteq> uid s" and "starts_with token PREFIX_PQ_INIT" and "init_meta token = Inr meta"
    and "pqxdh_prekeys s = Some store" and "store \<noteq> []"
  shows "decrypt_live_message C (dm_event conv sender token) s =
    scatch (accept_init C conv token meta) (\<lambda>_. sret (hidden_result ''[Cannot decrypt]''))
      (if str_or_empty meta ''sid'' = [] then s else set_sessions conv [] s)"
proof -
  have ld: "load_double_ratchet C conv s = (None, s)" using assms(1) by (simp add: load_double_ratchet_def new_chat_def)
  have "load_double_ratchet_sessions C conv s = ([], set_sessions conv [] s)"
    using assms(1) by (simp add: load_double_ratchet_sessions_def new_chat_def with_current_def Let_def)
  then have kn: "known_init C conv meta s = (False, if str_or_empty meta ''sid'' = [] then s else set_sessions conv [] s)"
    by (simp add: known_init_def Let_def dhas_def)
  define s1 where "s1 = (if str_or_empty meta ''sid'' = [] then s else set_sessions conv [] s)"
  have "load_pqxdh_prekeys C s1 = (Some store, s1)"
    using assms(5,6) by (auto simp: load_pqxdh_prekeys_def s1_def set_sessions_def)
  then show ?thesis
    using assms(2-4,6) kn
    by (simp add: decrypt_live_message_def event_fields is_prefixed_def Let_def live_init_def ld s1_def [symmetric])
qed

lemma first_ticks_fresh:
  assumes dj: "tick_window (n + 2) a \<inter> tick_window (n + 2) b = {}" and inj: "inj_on (key_at C) (tick_window (n + 2) a \<union> tick_window (n + 2) b)"
    and ta: "tick a + 2 \<le> tick a'" "tick a' \<le> tick a + 4" and tb: "tick b < tick b'" "tick b' \<le> tick b + 7"
  shows "fresh_keys C {key_at C (tick a + 1), key_at C (tick b)} (tick_window n a' \<union> tick_window n b')"
    and "tick_window n a' \<inter> tick_window n b' = {}"
proof -
  have w: "tick_window n a' \<subseteq> tick_window (n + 2) a" "tick_window n b' \<subseteq> tick_window (n + 2) b"
    "tick a + 1 \<in> tick_window (n + 2) a" "tick b \<in> tick_window (n + 2) b" "tick a + 1 \<notin> tick_window n a'" "tick b \<notin> tick_window n b'"
    using ta tb by (auto simp: tick_window_def)
  have ab: "x \<noteq> y" if "x \<in> tick_window (n + 2) a" "y \<in> tick_window (n + 2) b" for x y using that dj by auto
  have o: "tick a + 1 \<notin> tick_window n b'" "tick b \<notin> tick_window n a'" "tick b \<noteq> tick a + 1"
    using ab [OF w(3)] ab [OF _ w(4)] w(1,2,4) not_sym [OF ab [OF w(3,4)]] by blast+
  have f0: "fresh_keys C {} (tick_window (n + 2) a \<union> tick_window (n + 2) b)" using inj by (simp add: fresh_keys_def)
  show "fresh_keys C {key_at C (tick a + 1), key_at C (tick b)} (tick_window n a' \<union> tick_window n b')"
    by (rule fresh_keys_shrink(3) [OF f0 Un_mono [OF w(1,2)] _ _ o(3)]) (use w(3-6) o(1,2) in simp_all)
  show "tick_window n a' \<inter> tick_window n b' = {}" using w dj by blast
qed

lemma handshake_linked:
  assumes ok: "crypto_ok C" "aead_bound C" "oqs_present C" and pub: "published C a upA" "published C b upB"
    and otk: "uploaded upB ''curve_one_time_prekeys'' c" "uploaded upB ''pq_one_time_prekeys'' q"
    and new: "new_chat conv a" "new_chat conv b" "first_contact (uid a) b" "uid a \<noteq> uid b"
    and dj: "tick_window (n + 2) a \<inter> tick_window (n + 2) b = {}" and inj: "inj_on (key_at C) (tick_window (n + 2) a \<union> tick_window (n + 2) b)"
  obtains token fp a' b' r where "initiate_pqxdh_dm C (server_bundle upB c q) conv (uid b) version a = (Inr (token, fp), a')"
    and "decrypt_live_message C (dm_event conv (uid a) token) b = (Inr r, b')"
    and "dget r ''status'' JNull = JStr ''control''" and "dget r ''fingerprint'' JNull = JStr fp" and "linked C conv n a' b'"
proof -
  have sz: "sizes_ok C" using ok(1) by (rule crypto_okD)
  obtain tA nA pA mA storeA where A: "pqxdh_prekeys a = Some storeA" "generate_local_bundle C tA nA (ed_pub C (identity_sk a)) (identity_sk a) pA mA = Inr (upA, storeA)"
    and ia: "identity_pk a = ed_pub C (identity_sk a)" using pub(1) by (auto simp: published_def)
  obtain tB nB pB mB storeB where B: "pqxdh_prekeys b = Some storeB" "generate_local_bundle C tB nB (ed_pub C (identity_sk b)) (identity_sk b) pB mB = Inr (upB, storeB)"
    using pub(2) by (auto simp: published_def)
  obtain csk alg qpk qsk c' q' where bok: "bundle_ok C (identity_sk b) storeB (server_bundle upB c q) csk alg qpk qsk c' q'"
    using generated_bundle_ok [OF B(2) otk sz] by blast
  have own: "own_prekey C storeA (new_key_id nA) (x_seed C tA)" "length (identity_sk a) = 32"
    using generated_own_prekey [OF A(2) sz] by auto
  define fr where "fr = init_draw C (tick a)"
  have fr: "init_fresh_ok fr" "x_pub C (i_dr fr) = key_at C (tick a + 1)" "x_pub C (x_seed C (tick b)) = key_at C (tick b)"
    by (simp_all add: fr_def init_fresh_ok_def init_draw_def sizes_okD [OF sz] key_at_def)
  have hi: "utf8_valid ''__S3_INIT__''" by (intro ascii_utf8) (simp add: is_ascii_def)
  obtain token sA sB fp where
    i: "pqxdh_initiate C fr (server_bundle upB c q) storeA (ed_pub C (identity_sk a)) (identity_sk a) (uid a) (uid b) ''__S3_INIT__'' version conv = Inr (token, sA, fp)"
    and r: "pqxdh_respond C (x_seed C (tick b)) (os_random C (tick b) 16) (Some (uid b)) token storeB = (Inr (''__S3_INIT__'', sB, fp, uid a), consumed c' q' storeB)"
    and sy: "synced C {key_at C (tick a + 1), key_at C (tick b)} sA sB"
    using pqxdh_agree [OF ok(1,3) bok own fr(1) sizes_okD(7) [OF sz, of "tick b"] hi, of "uid a" "uid b" version conv "os_random C (tick b) 16"]
    unfolding fr(2,3) by metis
  obtain meta where m: "starts_with token PREFIX_PQ_INIT" "init_meta token = Inr meta" "session_id sA = b64e (i_sid fr)"
    "str_or_empty meta ''sid'' = b64e (i_sid fr)" "opt_int (dget meta ''sender_identity_version'' JNull) = Inr version"
    by (rule init_token_meta [OF ok(1,3) bok own fr(1) i])
  have "i_sid fr \<noteq> []" using fr(1) by (auto simp: init_fresh_ok_def)
  then have sid: "b64e (i_sid fr) \<noteq> []" "session_id sA \<noteq> []" "session_id sB \<noteq> []" using m(3) synced_facts(2) [OF sy] by auto
  have stA: "storeA \<noteq> []" by (rule generated_store_ok [OF A(2)])
  have stB: "store_ok storeB" "storeB \<noteq> []" by (rule generated_store_ok [OF B(2)])+
  obtain a' where a': "start_session C conv (uid b) fp sA (a\<lparr> tick := tick a + 2 \<rparr>) = (Inr (), a')" "holds conv a' sA" "uid a' = uid a"
    "tick a + 2 \<le> tick a'" "tick a' \<le> tick a + 4"
    by (rule start_session_first [of conv "a\<lparr> tick := tick a + 2 \<rparr>" sA C "uid b" fp])
       (use new(1) sid in \<open>auto simp: new_chat_def current_def has_file_def\<close>)
  have init: "initiate_pqxdh_dm C (server_bundle upB c q) conv (uid b) version a = (Inr (token, fp), a')"
  proof -
    have "load_double_ratchet C conv a = (None, a)" using new(1) by (simp add: load_double_ratchet_def new_chat_def)
    moreover have "load_pqxdh_prekeys C a = (Some storeA, a)" using A(1) stA by (simp add: load_pqxdh_prekeys_def)
    ultimately show ?thesis
      using i a'(1) stA ia by (cases storeA) (simp_all add: initiate_pqxdh_dm_def sbind_def fr_def)
  qed
  let ?b = "set_sessions conv [] b"
  obtain b' where b': "accept_init C conv token meta ?b = (Inr (init_result meta ''__S3_INIT__'' (uid a) fp), b')" "holds conv b' sB"
    "uid b' = uid b" "tick b < tick b'" "tick b' \<le> tick b + 7"
  proof (rule accept_first [of conv ?b "uid a" storeB C token "''__S3_INIT__''" sB fp _ meta version])
    show "pqxdh_respond C (x_seed C (tick ?b)) (os_random C (tick ?b) 16) (Some (uid ?b)) token storeB = (Inr (''__S3_INIT__'', sB, fp, uid a), consumed c' q' storeB)"
      using r by (simp add: set_sessions_def)
  qed (use new B(1) stB sid m(5) in \<open>simp_all add: new_chat_def first_contact_def set_sessions_def current_def known_sessions_def has_file_def\<close>)
  have live: "decrypt_live_message C (dm_event conv (uid a) token) b = (Inr (init_result meta ''__S3_INIT__'' (uid a) fp), b')"
    using live_init_first [OF new(2,4) m(1,2) B(1) stB(2), of C] b'(1) m(4) sid(1) by (simp add: scatch_def)
  have "linked C conv n a' b'"
    using ok new(4) a'(2,3) b'(2,3) sy first_ticks_fresh [OF dj inj a'(4,5) b'(4,5)] unfolding linked_def by metis
  then show ?thesis using that [OF init live] by (simp add: init_result_def dget_def)
qed

text \<open>
  C1: (liveness) A direct conversation works end to end. Two clients that have published prekeys and have no
  session yet: the initiator's handshake, made from the bundle the server hands out with any one-time
  prekeys of it or none, is accepted by the responder as a control message with the same safety
  number; and then every message either side sends, in any order of turns, is shown to the other side
  as exactly the text that was sent, through the padding, the ratchet steps, the session bookkeeping
  and the files written on the way. The keys the two clients draw are assumed distinct.
\<close>

theorem dm_end_to_end:
  assumes "crypto_ok C" and "aead_bound C" and "oqs_present C" and "published C a upA" and "published C b upB"
    and "uploaded upB ''curve_one_time_prekeys'' c" and "uploaded upB ''pq_one_time_prekeys'' q"
    and "new_chat conv a" and "new_chat conv b" and "first_contact (uid a) b" and "uid a \<noteq> uid b"
    and "tick_window (length ms + 2) a \<inter> tick_window (length ms + 2) b = {}"
    and "inj_on (key_at C) (tick_window (length ms + 2) a \<union> tick_window (length ms + 2) b)"
    and "\<forall>m \<in> set ms. utf8_valid (snd m)"
  shows "\<exists>token fp a' b' r. initiate_pqxdh_dm C (server_bundle upB c q) conv (uid b) version a = (Inr (token, fp), a')
    \<and> decrypt_live_message C (dm_event conv (uid a) token) b = (Inr r, b')
    \<and> dget r ''status'' JNull = JStr ''control'' \<and> dget r ''fingerprint'' JNull = JStr fp
    \<and> fst (relay (deliver C conv) ms (a', b')) = map (\<lambda>m. Inr (message_result (JStr (snd m)))) ms"
proof -
  obtain token fp a' b' r where h: "initiate_pqxdh_dm C (server_bundle upB c q) conv (uid b) version a = (Inr (token, fp), a')"
    "decrypt_live_message C (dm_event conv (uid a) token) b = (Inr r, b')"
    "dget r ''status'' JNull = JStr ''control''" "dget r ''fingerprint'' JNull = JStr fp" and l: "linked C conv (length ms + 0) a' b'"
    by (rule handshake_linked [OF assms(1-13)]) simp
  have "fst (relay (deliver C conv) ms (a', b')) = map (\<lambda>m. Inr (message_result (JStr (snd m)))) ms"
    using dm.relay_delivers [OF l assms(14)] by (auto simp: shown_text_def)
  with h show ?thesis by blast
qed

definition demo_client :: "int \<Rightarrow> nat \<Rightarrow> dict \<Rightarrow> crypto_session" where
  "demo_client me t store = demo_session\<lparr> uid := me, tick := t, identity_sk := ed_seed toy_crypto 1,
     identity_pk := ed_pub toy_crypto (ed_seed toy_crypto 1), pqxdh_prekeys := Some store \<rparr>"

lemma toy_keys_distinct: "inj_on (key_at toy_crypto) (set ([0..<15] @ [100..<115]))"
proof -
  have "distinct (map (key_at toy_crypto) ([0..<15] @ [100..<115]))" by code_simp
  then show ?thesis unfolding distinct_map by blast
qed

theorem dm_end_to_end_witness:
  "\<exists>upload store token fp a' b' r.
      initiate_pqxdh_dm toy_crypto (server_bundle upload None None) 5 2 None (demo_client 1 0 store) = (Inr (token, fp), a')
    \<and> decrypt_live_message toy_crypto (dm_event 5 1 token) (demo_client 2 100 store) = (Inr r, b')
    \<and> fst (relay (deliver toy_crypto 5) [(False, ''hi'')] (a', b')) = [Inr (message_result (JStr ''hi''))]"
proof -
  obtain upload store where g: "generate_local_bundle toy_crypto 3 1700000000000 (ed_pub toy_crypto (ed_seed toy_crypto 1))
      (ed_seed toy_crypto 1) None 2 = Inr (upload, store)" by (rule demo_generated)
  have p: "published toy_crypto (demo_client me t store) upload" for me t
    unfolding published_def demo_client_def using g by auto
  have nc: "new_chat 5 (demo_client me t store)" "first_contact u (demo_client me t store)" for me t u
    by (simp_all add: new_chat_def first_contact_def demo_client_def demo_session_def current_def dhas_def has_file_def)
  have w: "tick_window 3 (demo_client 1 0 store) = {0..<15}" "tick_window 3 (demo_client 2 100 store) = {100..<115}"
    by (simp_all add: tick_window_def demo_client_def)
  have u: "uid (demo_client me t store) = me" for me t by (simp add: demo_client_def)
  have "oqs_present toy_crypto" by (simp add: toy_crypto_def)
  moreover have n: "length [(False, ''hi'')] + 2 = 3" by simp
  moreover have j: "inj_on (key_at toy_crypto) ({0..<15} \<union> {100..<115})"
    using toy_keys_distinct unfolding set_append set_upt .
  moreover have "{0..<15} \<inter> {100..<115::nat} = {}" by auto
  moreover have "first_contact (uid (demo_client 1 0 store)) (demo_client 2 100 store)" "uid (demo_client 1 0 store) \<noteq> uid (demo_client 2 100 store)"
    using nc(2) by (simp_all add: u)
  moreover have "\<forall>m \<in> set [(False, ''hi'')]. utf8_valid (snd m)" using demo_hi by simp
  ultimately have "\<exists>token fp a' b' r. initiate_pqxdh_dm toy_crypto (server_bundle upload None None) 5 (uid (demo_client 2 100 store)) None (demo_client 1 0 store) = (Inr (token, fp), a')
    \<and> decrypt_live_message toy_crypto (dm_event 5 (uid (demo_client 1 0 store)) token) (demo_client 2 100 store) = (Inr r, b')
    \<and> dget r ''status'' JNull = JStr ''control'' \<and> dget r ''fingerprint'' JNull = JStr fp
    \<and> fst (relay (deliver toy_crypto 5) [(False, ''hi'')] (a', b')) = map (\<lambda>m. Inr (message_result (JStr (snd m)))) [(False, ''hi'')]"
    by (intro dm_end_to_end [OF toy_ok toy_bound _ p p demo_uploaded demo_uploaded nc(1) nc(1)]) (simp_all only: n w not_False_eq_True)
  then show ?thesis unfolding u list.map snd_conv by blast
qed

end
