(* ===== verification/Local_State.thy ===== *)
theory Local_State
  imports Keys Dr_Sessions Identity_State
begin

text \<open>
  Cleaning and rewrapping the local files (\<open>client/crypto_engine/session.py\<close>,
  \<open>clear_stale_local_state\<close> to \<open>rewrap_local_state\<close>). The patterns of the code hold no wildcard
  but \<open>*\<close>, and no name that starts with a dot matches one, so \<open>glob\<close> and \<open>fnmatchcase\<close>
  agree. \<open>glob\<close> returns names in the order of \<open>disk\<close>.
\<close>

subsection \<open>Patterns and lines\<close>

fun glob_match :: "string \<Rightarrow> string \<Rightarrow> bool" where
  "glob_match [] name = (name = [])"
| "glob_match (p # ps) name =
     (if p = CHR ''*'' then list_ex (\<lambda>k. glob_match ps (drop k name)) [0..<Suc (length name)]
      else (case name of [] \<Rightarrow> False | c # cs \<Rightarrow> c = p \<and> glob_match ps cs))"

definition files_matching :: "string list \<Rightarrow> crypto_session \<Rightarrow> string list" where
  "files_matching patterns s = filter (\<lambda>name. list_ex (\<lambda>p. glob_match p name) patterns) (map fst (disk s))"

text \<open>\<open>str.splitlines\<close> on UTF-8 text, with every line break made a newline; empty lines are skipped by all
  callers. The breaks beyond ASCII are U+0085, U+2028 and U+2029.\<close>

definition is_break :: "char \<Rightarrow> bool" where
  "is_break c = (c \<in> {CHR 0x0A, CHR 0x0B, CHR 0x0C, CHR 0x0D, CHR 0x1C, CHR 0x1D, CHR 0x1E})"

function unify_breaks :: "string \<Rightarrow> string" where
  "unify_breaks t = (case t of
       [] \<Rightarrow> []
     | c # cs \<Rightarrow>
         if is_break c then CHR 0x0A # unify_breaks cs
         else if starts_with t [CHR 0xC2, CHR 0x85] then CHR 0x0A # unify_breaks (drop 1 cs)
         else if starts_with t [CHR 0xE2, CHR 0x80, CHR 0xA8] \<or> starts_with t [CHR 0xE2, CHR 0x80, CHR 0xA9]
         then CHR 0x0A # unify_breaks (drop 2 cs)
         else c # unify_breaks cs)"
  by pat_completeness auto

termination unify_breaks
  by (relation "measure length") auto

declare unify_breaks.simps [simp del]

definition token_lines :: "string \<Rightarrow> string list" where
  "token_lines t = filter (\<lambda>l. l \<noteq> []) (map strip (split_on (CHR 0x0A) (unify_breaks t)))"

subsection \<open>Cleaning\<close>

definition STALE_PATTERNS :: "string list" where
  "STALE_PATTERNS = [''verified_*.bin'', ''msgs_*.bin'', ''identity_audit_*.bin'', ''auditor_state.bin'', ''cache_policy.bin'',
     ''transcript_*.bin'', ''pqxdh_prekeys.bin'', ''dr_*.bin'', ''mls_*.bin'']"

definition clear_stale_local_state :: "crypto_session \<Rightarrow> crypto_session" where
  "clear_stale_local_state s =
     (let s1 = s\<lparr> conv_fingerprints := [], conv_verified := [], identity_audit_states := [], auditor_state := [],
                 pqxdh_prekeys := None, double_ratchet_states := [], double_ratchet_session_states := [],
                 mls_group_ready := {}, mls_handshake_seen := {} \<rparr>
      in if secchat_dir s1 = [] then s1 else remove_files (files_matching STALE_PATTERNS s1) s1)"

definition cleanup_conversation_state :: "int \<Rightarrow> crypto_session \<Rightarrow> crypto_session" where
  "cleanup_conversation_state conv s =
     (let s1 = s\<lparr> conv_peer_uids := dpop (conv_peer_uids s) conv, conv_verified := dpop (conv_verified s) conv,
                 conv_fingerprints := dpop (conv_fingerprints s) conv,
                 double_ratchet_states := dpop (double_ratchet_states s) conv,
                 double_ratchet_session_states := dpop (double_ratchet_session_states s) conv,
                 mls_group_ready := mls_group_ready s - {conv} \<rparr>
      in if secchat_dir s1 = [] then s1
         else remove_files [double_ratchet_path conv, double_ratchet_sessions_path conv, verified_path conv] s1)"

subsection \<open>Rewrapping after a password change\<close>

text \<open>\<open>encrypt_with_key(key, body)\<close> on whatever value a sealed file held.\<close>

definition seal_value :: "crypto \<Rightarrow> bytes \<Rightarrow> json \<Rightarrow> string ses" where
  "seal_value C key body s =
     (rbind (aesgcm_encrypt C key (os_random C (tick s) 12) (dumps_plain (JObj [(''ts'', JInt (clock_ms C (tick s))), (''body'', body)])) [])
        (\<lambda>ct. Inr (b64encode (os_random C (tick s) 12 @ ct))), s\<lparr> tick := tick s + 1 \<rparr>)"

text \<open>\<open>open(path + ".tmp", "w")\<close> and \<open>os.replace\<close>.\<close>

definition replace_file :: "string \<Rightarrow> string \<Rightarrow> crypto_session \<Rightarrow> crypto_session" where
  "replace_file name t s = write_file name t (remove_file (name @ ''.tmp'') s)"

definition sealed_text :: "bool \<Rightarrow> string list \<Rightarrow> string" where
  "sealed_text line_mode tokens = (if line_mode then cache_text tokens else case tokens of [] \<Rightarrow> [] | t # _ \<Rightarrow> t)"

definition rewrap_token :: "crypto \<Rightarrow> bytes \<Rightarrow> bytes \<Rightarrow> string \<Rightarrow> string ses" where
  "rewrap_token C old new token = sbind (slift (decrypt_with_key C old token None)) (seal_value C new)"

definition rewrap_file :: "crypto \<Rightarrow> bytes \<Rightarrow> bytes \<Rightarrow> bool \<Rightarrow> string \<Rightarrow> unit ses" where
  "rewrap_file C old new line_mode name s = (case map_of (disk s) name of
       None \<Rightarrow> (Inr (), s)
     | Some t \<Rightarrow> sbind (smap (rewrap_token C old new) (token_lines t)) (\<lambda>out. smod (replace_file name (sealed_text line_mode out))) s)"

definition FIXED_FILES :: "string list" where
  "FIXED_FILES = [identity_key_path, cache_policy_path, backup_state_path, auditor_state_path, pqxdh_prekeys_path]"

definition SINGLE_PATTERNS :: "string list" where
  "SINGLE_PATTERNS = [''dr_*.bin'', ''mls_*.bin'', ''verified_*.bin'', ''identity_audit_*.bin'', ''transcript_*.bin'']"

definition single_files :: "crypto_session \<Rightarrow> string list" where
  "single_files s = FIXED_FILES @ concat (map (\<lambda>p. files_matching [p] s) SINGLE_PATTERNS)"

definition rewrap_local_state :: "crypto \<Rightarrow> bytes \<Rightarrow> bytes \<Rightarrow> unit ses" where
  "rewrap_local_state C old new s =
     (if secchat_dir s = [] then (Inr (), s)
      else sbind (smap (rewrap_file C old new False) (single_files s)) (\<lambda>_.
           sbind (sget (files_matching [''msgs_*.bin''])) (\<lambda>caches.
           sbind (smap (rewrap_file C old new True) caches) (\<lambda>_. sret ()))) s)"

subsection \<open>Sealed tokens in a file\<close>

definition clean_token :: "string \<Rightarrow> bool" where
  "clean_token t = (t \<noteq> [] \<and> is_ascii t \<and> (\<forall>c \<in> set t. \<not> py_space c))"

lemma break_space: "is_break c \<Longrightarrow> py_space c"
  by (auto simp: is_break_def py_space_def)

lemma clean_token_props:
  assumes "clean_token t"
  shows "strip t = t" and "CHR 0x0A \<notin> set t" and "CHR 0x0D \<notin> set t" and "t \<noteq> []"
proof -
  show "strip t = t" by (rule strip_id) (use assms in \<open>auto simp: clean_token_def\<close>)
  show "CHR 0x0A \<notin> set t" "CHR 0x0D \<notin> set t" "t \<noteq> []" using assms by (auto simp: clean_token_def py_space_def)
qed

lemma unify_ascii: "is_ascii t \<Longrightarrow> \<forall>c \<in> set t. is_break c \<longrightarrow> c = CHR 0x0A \<Longrightarrow> unify_breaks t = t"
proof (induction t)
  case (Cons c t)
  then have "code c < 128" by (simp add: is_ascii_set)
  then have "c \<noteq> CHR 0xC2" "c \<noteq> CHR 0xE2" by auto
  with Cons show ?case by (subst unify_breaks.simps) (auto simp: is_ascii_set)
qed (simp add: unify_breaks.simps)

lemma token_lines_cache_text:
  assumes "list_all clean_token ks"
  shows "token_lines (cache_text ks) = ks"
proof -
  have ascii: "is_ascii (cache_text ks)" and br: "\<forall>c \<in> set (cache_text ks). is_break c \<longrightarrow> c = CHR 0x0A"
  proof -
    have "\<forall>c \<in> set (join [CHR 0x0A] ks). code c < 128 \<and> (is_break c \<longrightarrow> c = CHR 0x0A)"
      using assms by (induction "[CHR 0x0A]" ks rule: join.induct)
        (auto simp: clean_token_def is_ascii_set dest: break_space)
    then show "is_ascii (cache_text ks)" "\<forall>c \<in> set (cache_text ks). is_break c \<longrightarrow> c = CHR 0x0A"
      by (auto simp: cache_text_def is_ascii_set)
  qed
  have "CHR 0x0D \<notin> set (cache_text ks)" using br by (auto simp: is_break_def)
  then have "split_on (CHR 0x0A) (cache_text ks) = ks @ [[]]"
    using text_lines_cache_text [of ks] assms clean_token_props
    by (simp add: text_lines_def replace_char_id list_all_iff)
  moreover have "map strip ks = ks" "filter (\<lambda>l. l \<noteq> []) ks = ks"
    using assms clean_token_props by (auto simp: list_all_iff intro!: map_idI)
  ultimately show ?thesis by (simp add: token_lines_def unify_ascii [OF ascii br] strip_def)
qed

lemma token_lines_single: "clean_token t \<Longrightarrow> token_lines t = [t]"
proof -
  assume t: "clean_token t"
  then have "unify_breaks t = t" by (intro unify_ascii) (auto simp: clean_token_def dest: break_space)
  then show ?thesis using clean_token_props [OF t] by (simp add: token_lines_def split_on_free)
qed

text \<open>What the lines of a file open to under a key.\<close>

definition opened :: "crypto \<Rightarrow> bytes \<Rightarrow> string \<Rightarrow> json list res" where
  "opened C key t = rmap (\<lambda>token. decrypt_with_key C key token None) (token_lines t)"

lemma sealed_text_opened:
  assumes "list_all clean_token toks" and "line_mode \<or> length toks \<le> 1"
  shows "opened C key (sealed_text line_mode toks) = rmap (\<lambda>token. decrypt_with_key C key token None) toks"
proof (cases line_mode)
  case True
  then show ?thesis by (simp add: opened_def sealed_text_def token_lines_cache_text [OF assms(1)])
next
  case False
  then consider "toks = []" | t where "toks = [t]" using assms(2) by (cases toks) auto
  then show ?thesis
    using False assms(1) token_lines_cache_text [of "[]"]
    by cases (simp_all add: opened_def sealed_text_def token_lines_single cache_text_def)
qed

lemma b64_token: "b \<noteq> [] \<Longrightarrow> clean_token (b64encode b)"
proof -
  assume "b \<noteq> []"
  moreover have "\<not> py_space c" if "c \<in> set (b64encode b)" for c
    using that b64_body_chars [of b] b64_char_props(5) by (auto simp: b64encode_def list_all_iff py_space_def split: if_splits)
  ultimately show ?thesis by (simp add: clean_token_def)
qed

text \<open>A key and an environment under which text can be sealed.\<close>

definition can_seal :: "crypto \<Rightarrow> bytes \<Rightarrow> bool" where
  "can_seal C key = (aead_ok C \<and> sizes_ok C \<and> length key = 32)"

lemma seal_value_text:
  assumes "can_seal C key" and "utf8_valid p"
  obtains token where "seal_value C key (JStr p) s = (Inr token, s\<lparr> tick := tick s + 1 \<rparr>)" and "clean_token token"
    and "decrypt_with_key C key token None = Inr (JStr p)"
proof -
  have n: "length (os_random C (tick s) 12) = 12" using assms(1) by (simp add: can_seal_def sizes_okD)
  obtain token where t: "encrypt_with_key C (os_random C (tick s) 12) (clock_ms C (tick s)) key p = Inr token"
    using encrypt_with_key_total [OF _ n] assms(1) unfolding can_seal_def by blast
  have "seal_ok C key (os_random C (tick s) 12)" using assms(1) n by (simp add: seal_ok_def can_seal_def)
  then have "decrypt_with_key C key token None = Inr (JStr p)" using decrypt_with_key_sealed [OF _ assms(2) t, of None] by simp
  moreover have "seal_value C key (JStr p) s = (Inr token, s\<lparr> tick := tick s + 1 \<rparr>)"
    using t by (simp add: seal_value_def encrypt_with_key_def Let_def)
  moreover have "clean_token token"
  proof -
    obtain ct where "token = b64encode (os_random C (tick s) 12 @ ct)" using t by (auto simp: encrypt_with_key_def Let_def)
    moreover have "os_random C (tick s) 12 @ ct \<noteq> []" using n by auto
    ultimately show ?thesis using b64_token by blast
  qed
  ultimately show ?thesis by (intro that)
qed

lemma seal_all:
  assumes "can_seal C key" and "list_all utf8_valid ps"
  obtains toks where "smap (\<lambda>p. seal_value C key (JStr p)) ps s = (Inr toks, s\<lparr> tick := tick s + length ps \<rparr>)"
    and "list_all clean_token toks" and "length toks = length ps"
    and "rmap (\<lambda>token. decrypt_with_key C key token None) toks = Inr (map JStr ps)"
proof -
  have "\<exists>toks. smap (\<lambda>p. seal_value C key (JStr p)) ps s = (Inr toks, s\<lparr> tick := tick s + length ps \<rparr>)
    \<and> list_all clean_token toks \<and> length toks = length ps
    \<and> rmap (\<lambda>token. decrypt_with_key C key token None) toks = Inr (map JStr ps)"
    using assms(2)
  proof (induction ps arbitrary: s)
    case (Cons p ps)
    obtain token where t: "seal_value C key (JStr p) s = (Inr token, s\<lparr> tick := tick s + 1 \<rparr>)" "clean_token token"
      "decrypt_with_key C key token None = Inr (JStr p)" by (rule seal_value_text [OF assms(1)]) (use Cons.prems in auto)
    obtain toks where "smap (\<lambda>p. seal_value C key (JStr p)) ps (s\<lparr> tick := tick s + 1 \<rparr>) = (Inr toks, s\<lparr> tick := tick s + 1 \<rparr>\<lparr> tick := tick s + 1 + length ps \<rparr>)"
      "list_all clean_token toks" "length toks = length ps"
      "rmap (\<lambda>token. decrypt_with_key C key token None) toks = Inr (map JStr ps)"
      using Cons.IH [of "s\<lparr> tick := tick s + 1 \<rparr>"] Cons.prems by auto
    with t show ?case by (intro exI [of _ "token # toks"]) (simp add: sbind_def)
  qed simp
  then show ?thesis using that by blast
qed

subsection \<open>Rewrapping keeps what the files hold\<close>

definition contents :: "crypto \<Rightarrow> bytes \<Rightarrow> crypto_session \<Rightarrow> string \<Rightarrow> json list res option" where
  "contents C key s name = map_option (opened C key) (map_of (disk s) name)"

text \<open>A file, if it is there, opens to texts; one that is not kept line by line holds at most one.\<close>

definition readable :: "crypto \<Rightarrow> bytes \<Rightarrow> bool \<Rightarrow> crypto_session \<Rightarrow> string \<Rightarrow> bool" where
  "readable C key line_mode s name = (case contents C key s name of
       None \<Rightarrow> True
     | Some r \<Rightarrow> (\<exists>ps. r = Inr (map JStr ps) \<and> list_all utf8_valid ps \<and> (line_mode \<or> length ps \<le> 1)))"

lemma readable_cong: "map_of (disk t) n = map_of (disk s) n \<Longrightarrow> readable C key m t n = readable C key m s n"
  by (simp add: readable_def contents_def)

lemma smap_rewrap:
  "rmap (\<lambda>token. decrypt_with_key C old token None) toks = Inr (map JStr ps) \<Longrightarrow>
   smap (rewrap_token C old new) toks s = smap (\<lambda>p. seal_value C new (JStr p)) ps s"
proof (induction toks arbitrary: ps s)
  case (Cons tok toks)
  then obtain p qs where ps: "ps = p # qs" and p: "decrypt_with_key C old tok None = Inr (JStr p)"
    and qs: "rmap (\<lambda>token. decrypt_with_key C old token None) toks = Inr (map JStr qs)"
    by (cases ps) auto
  have "rewrap_token C old new tok = seal_value C new (JStr p)" by (rule ext) (simp add: rewrap_token_def p)
  with Cons.IH [OF qs] show ?case by (simp add: ps sbind_def split: prod.split sum.split)
qed simp

lemma smap_rewrap_err:
  "rmap (\<lambda>token. decrypt_with_key C old token None) toks = Inl e \<Longrightarrow> can_seal C new \<Longrightarrow>
   \<forall>tok \<in> set toks. \<forall>j. decrypt_with_key C old tok None = Inr j \<longrightarrow> (\<exists>p. j = JStr p \<and> utf8_valid p) \<Longrightarrow>
   \<exists>k. smap (rewrap_token C old new) toks s = (Inl e, s\<lparr> tick := k \<rparr>)"
proof (induction toks arbitrary: s)
  case (Cons tok toks)
  show ?case
  proof (cases "decrypt_with_key C old tok None")
    case (Inl d)
    then have "d = e" using Cons.prems(1) by simp
    then have "smap (rewrap_token C old new) (tok # toks) s = (Inl e, s\<lparr> tick := tick s \<rparr>)"
      by (simp add: rewrap_token_def Inl sbind_def)
    then show ?thesis by (rule exI)
  next
    case (Inr j)
    then obtain p where p: "j = JStr p" "utf8_valid p" using Cons.prems(3) by auto
    obtain token where t: "seal_value C new (JStr p) s = (Inr token, s\<lparr> tick := tick s + 1 \<rparr>)"
      by (rule seal_value_text [OF Cons.prems(2) p(2)])
    have "rmap (\<lambda>token. decrypt_with_key C old token None) toks = Inl e" using Cons.prems(1) Inr by (auto simp: rbind_def split: sum.splits)
    then obtain k where "smap (rewrap_token C old new) toks (s\<lparr> tick := tick s + 1 \<rparr>) = (Inl e, s\<lparr> tick := tick s + 1 \<rparr>\<lparr> tick := k \<rparr>)"
      using Cons.IH [of "s\<lparr> tick := tick s + 1 \<rparr>"] Cons.prems by auto
    moreover have "rewrap_token C old new tok s = (Inr token, s\<lparr> tick := tick s + 1 \<rparr>)" by (simp add: rewrap_token_def Inr p t)
    ultimately have "smap (rewrap_token C old new) (tok # toks) s = (Inl e, s\<lparr> tick := k \<rparr>)" by (simp add: sbind_def)
    then show ?thesis by (rule exI)
  qed
next
  case Nil
  from Nil.prems(1) have False by simp
  then show ?case by (rule FalseE)
qed

lemma rewrap_file_run:
  assumes "can_seal C new" and "readable C old line_mode s n" and "\<not> ends_with n ''.tmp''"
  obtains k d where "rewrap_file C old new line_mode n s = (Inr (), s\<lparr> tick := k, disk := d \<rparr>)"
    and "map_option (opened C new) (map_of d n) = contents C old s n" and "\<And>m. m \<noteq> n \<Longrightarrow> \<not> ends_with m ''.tmp'' \<Longrightarrow> map_of d m = map_of (disk s) m"
    and "distinct (map fst (disk s)) \<Longrightarrow> distinct (map fst d)"
proof (cases "map_of (disk s) n")
  case None
  then show ?thesis using that [of "disk s" "tick s"] by (simp add: rewrap_file_def contents_def)
next
  case (Some t)
  then obtain ps where ps: "opened C old t = Inr (map JStr ps)" "list_all utf8_valid ps" "line_mode \<or> length ps \<le> 1"
    using assms(2) by (auto simp: readable_def contents_def)
  obtain toks where toks: "smap (\<lambda>p. seal_value C new (JStr p)) ps s = (Inr toks, s\<lparr> tick := tick s + length ps \<rparr>)"
    "list_all clean_token toks" "length toks = length ps" "rmap (\<lambda>token. decrypt_with_key C new token None) toks = Inr (map JStr ps)"
    by (rule seal_all [OF assms(1) ps(2)])
  let ?t = "sealed_text line_mode toks"
  let ?d = "dset (dpop (disk s) (n @ ''.tmp'')) n ?t"
  have tmp: "ends_with (n @ ''.tmp'') ''.tmp''" by (simp add: ends_with_def)
  have "rewrap_file C old new line_mode n s = (Inr (), s\<lparr> tick := tick s + length ps, disk := ?d \<rparr>)"
    using smap_rewrap [OF ps(1) [unfolded opened_def], of new s] toks(1)
    by (simp add: rewrap_file_def Some sbind_def replace_file_def write_file_def remove_file_def)
  moreover have "opened C new ?t = Inr (map JStr ps)" using sealed_text_opened [OF toks(2), of line_mode] ps(3) toks(3,4) by simp
  moreover have "map_of ?d m = map_of (disk s) m" if "m \<noteq> n" "\<not> ends_with m ''.tmp''" for m
    using that tmp by (auto simp: update_conv' delete_conv')
  ultimately show ?thesis
    using that [of ?d "tick s + length ps"] by (simp add: contents_def Some ps(1) update_conv' distinct_update distinct_delete)
qed

lemma rewrap_files_run:
  assumes "can_seal C new" and "distinct ns" and "\<forall>n \<in> set ns. readable C old line_mode s n \<and> \<not> ends_with n ''.tmp''"
  obtains us k d where "smap (rewrap_file C old new line_mode) ns s = (Inr us, s\<lparr> tick := k, disk := d \<rparr>)"
    and "\<And>n. n \<in> set ns \<Longrightarrow> map_option (opened C new) (map_of d n) = contents C old s n"
    and "\<And>m. m \<notin> set ns \<Longrightarrow> \<not> ends_with m ''.tmp'' \<Longrightarrow> map_of d m = map_of (disk s) m"
    and "distinct (map fst (disk s)) \<Longrightarrow> distinct (map fst d)"
proof -
  have "\<exists>us k d. smap (rewrap_file C old new line_mode) ns s = (Inr us, s\<lparr> tick := k, disk := d \<rparr>)
    \<and> (\<forall>n \<in> set ns. map_option (opened C new) (map_of d n) = contents C old s n)
    \<and> (\<forall>m. m \<notin> set ns \<longrightarrow> \<not> ends_with m ''.tmp'' \<longrightarrow> map_of d m = map_of (disk s) m)
    \<and> (distinct (map fst (disk s)) \<longrightarrow> distinct (map fst d))"
    using assms(2,3)
  proof (induction ns arbitrary: s)
    case Nil
    show ?case by (intro exI [of _ "[]"] exI [of _ "tick s"] exI [of _ "disk s"]) simp
  next
    case (Cons n ns)
    have n: "readable C old line_mode s n" "\<not> ends_with n ''.tmp''" using Cons.prems(2) by simp_all
    obtain k d where r: "rewrap_file C old new line_mode n s = (Inr (), s\<lparr> tick := k, disk := d \<rparr>)"
      "map_option (opened C new) (map_of d n) = contents C old s n"
      "\<And>m. m \<noteq> n \<Longrightarrow> \<not> ends_with m ''.tmp'' \<Longrightarrow> map_of d m = map_of (disk s) m"
      "distinct (map fst (disk s)) \<Longrightarrow> distinct (map fst d)" by (rule rewrap_file_run [OF assms(1) n]) blast
    let ?s = "s\<lparr> tick := k, disk := d \<rparr>"
    have same: "map_of (disk ?s) m = map_of (disk s) m" if "m \<in> set ns" for m
    proof -
      have "m \<noteq> n" "\<not> ends_with m ''.tmp''" using that Cons.prems by auto
      then show ?thesis using r(3) by simp
    qed
    have "\<forall>m \<in> set ns. readable C old line_mode ?s m \<and> \<not> ends_with m ''.tmp''"
      using Cons.prems(2) readable_cong [OF same] by simp
    with Cons.IH [of ?s] Cons.prems(1) obtain us k' d' where
      i: "smap (rewrap_file C old new line_mode) ns ?s = (Inr us, ?s\<lparr> tick := k', disk := d' \<rparr>)"
      "\<forall>n \<in> set ns. map_option (opened C new) (map_of d' n) = contents C old ?s n"
      "\<forall>m. m \<notin> set ns \<longrightarrow> \<not> ends_with m ''.tmp'' \<longrightarrow> map_of d' m = map_of d m" "distinct (map fst d) \<longrightarrow> distinct (map fst d')"
      by auto
    have "map_of d' n = map_of d n" using i(3) n(2) Cons.prems(1) by simp
    moreover have "contents C old ?s m = contents C old s m" if "m \<in> set ns" for m using same [OF that] by (simp add: contents_def)
    ultimately have "\<forall>m \<in> set (n # ns). map_option (opened C new) (map_of d' m) = contents C old s m" using i(2) r(2) by simp
    moreover have "smap (rewrap_file C old new line_mode) (n # ns) s = (Inr (() # us), s\<lparr> tick := k', disk := d' \<rparr>)"
      using r(1) i(1) by (simp add: sbind_def)
    moreover have "\<forall>m. m \<notin> set (n # ns) \<longrightarrow> \<not> ends_with m ''.tmp'' \<longrightarrow> map_of d' m = map_of (disk s) m" using i(3) r(3) by simp
    ultimately show ?case using i(4) r(4) by blast
  qed
  then show ?thesis using that by blast
qed

subsection \<open>Names and patterns\<close>

lemma glob_star_free: "CHR ''*'' \<notin> set b \<Longrightarrow> glob_match b n \<longleftrightarrow> n = b"
  by (induction b arbitrary: n) (auto split: list.split)

lemma glob_star:
  assumes "CHR ''*'' \<notin> set a" and "CHR ''*'' \<notin> set b"
  shows "glob_match (a @ CHR ''*'' # b) n \<longleftrightarrow> (\<exists>m. n = a @ m @ b)"
  using assms(1)
proof (induction a arbitrary: n)
  case Nil
  have "(\<exists>k < Suc (length n). drop k n = b) \<longleftrightarrow> (\<exists>m. n = m @ b)"
  proof
    assume "\<exists>k < Suc (length n). drop k n = b"
    then obtain k where "drop k n = b" by blast
    then have "n = take k n @ b" by (metis append_take_drop_id)
    then show "\<exists>m. n = m @ b" by blast
  next
    assume "\<exists>m. n = m @ b"
    then obtain m where "n = m @ b" by blast
    then show "\<exists>k < Suc (length n). drop k n = b" by (intro exI [of _ "length m"]) simp
  qed
  then show ?case by (simp add: glob_star_free [OF assms(2)] list_ex_iff del: upt_Suc) (auto simp: Bex_def)
next
  case (Cons x a)
  then show ?case by (auto split: list.split)
qed

lemma state_globs:
  "glob_match ''dr_*.bin'' n \<longleftrightarrow> (\<exists>m. n = ''dr_'' @ m @ ''.bin'')" "glob_match ''mls_*.bin'' n \<longleftrightarrow> (\<exists>m. n = ''mls_'' @ m @ ''.bin'')"
  "glob_match ''verified_*.bin'' n \<longleftrightarrow> (\<exists>m. n = ''verified_'' @ m @ ''.bin'')"
  "glob_match ''identity_audit_*.bin'' n \<longleftrightarrow> (\<exists>m. n = ''identity_audit_'' @ m @ ''.bin'')"
  "glob_match ''transcript_*.bin'' n \<longleftrightarrow> (\<exists>m. n = ''transcript_'' @ m @ ''.bin'')"
  "glob_match ''msgs_*.bin'' n \<longleftrightarrow> (\<exists>m. n = ''msgs_'' @ m @ ''.bin'')"
  using glob_star [of "''dr_''" "''.bin''" n] glob_star [of "''mls_''" "''.bin''" n] glob_star [of "''verified_''" "''.bin''" n]
    glob_star [of "''identity_audit_''" "''.bin''" n] glob_star [of "''transcript_''" "''.bin''" n] glob_star [of "''msgs_''" "''.bin''" n]
  by (simp_all del: glob_match.simps)

text \<open>The files a login keeps one token in, and those it keeps line by line.\<close>

definition single_name :: "string \<Rightarrow> bool" where
  "single_name n = (n \<in> set FIXED_FILES \<or> list_ex (\<lambda>p. glob_match p n) SINGLE_PATTERNS)"

definition cache_name :: "string \<Rightarrow> bool" where
  "cache_name n = glob_match ''msgs_*.bin'' n"

lemmas fixed_paths = FIXED_FILES_def identity_key_path_def cache_policy_path_def backup_state_path_def auditor_state_path_def pqxdh_prekeys_path_def

lemma ends_bin: "\<not> ends_with (a @ ''.bin'') ''.tmp''"
  by (simp add: ends_with_def)

lemma state_names_end:
  "single_name n \<Longrightarrow> \<not> ends_with n ''.tmp''" "cache_name n \<Longrightarrow> \<not> ends_with n ''.tmp''" "single_name n \<Longrightarrow> \<not> cache_name n"
proof -
  show "cache_name n \<Longrightarrow> \<not> ends_with n ''.tmp''"
    using ends_bin [of "''msgs_'' @ _"] by (auto simp: cache_name_def state_globs simp del: glob_match.simps)
  assume n: "single_name n"
  then have "n \<in> set FIXED_FILES \<or> (\<exists>p m. n = p @ m @ ''.bin'')"
    unfolding single_name_def SINGLE_PATTERNS_def list_ex_iff list.set ball_simps bex_simps state_globs by blast
  then show "\<not> ends_with n ''.tmp''"
    using ends_bin [of "_ @ _"] by (auto simp: fixed_paths ends_with_def)
  show "\<not> cache_name n"
    using n by (auto simp: single_name_def cache_name_def SINGLE_PATTERNS_def state_globs fixed_paths simp del: glob_match.simps)
qed

lemma set_single_files: "set (single_files s) = set FIXED_FILES \<union> {n. single_name n \<and> has_file n s \<and> n \<notin> set FIXED_FILES}"
proof -
  have "\<not> list_ex (\<lambda>p. glob_match p n) SINGLE_PATTERNS" if "n \<in> set FIXED_FILES" for n
    using that by (auto simp: SINGLE_PATTERNS_def state_globs fixed_paths simp del: glob_match.simps)
  then show ?thesis
    by (auto simp: single_files_def files_matching_def single_name_def has_file_def dhas_def list_ex_iff map_of_eq_None_iff image_iff
        simp del: glob_match.simps dest: map_of_SomeD)
qed

lemma distinct_single_files: "distinct (map fst (disk s)) \<Longrightarrow> distinct (single_files s)"
  by (auto simp: single_files_def files_matching_def SINGLE_PATTERNS_def state_globs fixed_paths distinct_filter simp del: glob_match.simps)

text \<open>One of the two passes: the names of a kind are all those with a file.\<close>

lemma rewrap_stage:
  assumes "can_seal C new" and "distinct (map fst (disk s))" and "distinct ns"
    and "\<And>n. n \<in> set ns \<Longrightarrow> P n" and "\<And>n. P n \<Longrightarrow> has_file n s \<Longrightarrow> n \<in> set ns"
    and "\<And>n. P n \<Longrightarrow> readable C old line_mode s n \<and> \<not> ends_with n ''.tmp''"
  obtains us k d where "smap (rewrap_file C old new line_mode) ns s = (Inr us, s\<lparr> tick := k, disk := d \<rparr>)"
    and "\<And>n. P n \<Longrightarrow> map_option (opened C new) (map_of d n) = contents C old s n"
    and "\<And>m. \<not> P m \<Longrightarrow> \<not> ends_with m ''.tmp'' \<Longrightarrow> map_of d m = map_of (disk s) m" and "distinct (map fst d)"
proof -
  have "\<forall>n \<in> set ns. readable C old line_mode s n \<and> \<not> ends_with n ''.tmp''" using assms(4,6) by blast
  then obtain us k d where r: "smap (rewrap_file C old new line_mode) ns s = (Inr us, s\<lparr> tick := k, disk := d \<rparr>)"
    "\<And>n. n \<in> set ns \<Longrightarrow> map_option (opened C new) (map_of d n) = contents C old s n"
    "\<And>m. m \<notin> set ns \<Longrightarrow> \<not> ends_with m ''.tmp'' \<Longrightarrow> map_of d m = map_of (disk s) m" "distinct (map fst d)"
    by (rule rewrap_files_run [OF assms(1,3)]) (use assms(2) in blast)
  have "map_option (opened C new) (map_of d n) = contents C old s n" if "P n" for n
  proof (cases "n \<in> set ns")
    case False
    then have "\<not> has_file n s" using assms(5) [OF that] by blast
    then have "map_of (disk s) n = None" by (simp add: has_file_def dhas_def)
    then show ?thesis using r(3) [OF False] assms(6) [OF that] by (simp add: contents_def)
  qed (rule r(2))
  then show ?thesis using that r assms(4) by blast
qed

text \<open>
  Changing the password loses nothing: when every local state file opens under the old
  master key, \<open>rewrap_local_state\<close> ends without an error, every state file holds under the new key
  exactly the entries it held under the old one (in order, and no file is added or lost), and every
  other file is left alone.
\<close>

theorem rewrap_keeps_contents:
  assumes "can_seal C new" and "secchat_dir s \<noteq> []" and "distinct (map fst (disk s))"
    and "\<forall>n. single_name n \<longrightarrow> readable C old False s n" and "\<forall>n. cache_name n \<longrightarrow> readable C old True s n"
  shows "\<exists>s'. rewrap_local_state C old new s = (Inr (), s')
    \<and> (\<forall>n. single_name n \<or> cache_name n \<longrightarrow> contents C new s' n = contents C old s n)
    \<and> (\<forall>n. \<not> single_name n \<and> \<not> cache_name n \<and> \<not> ends_with n ''.tmp'' \<longrightarrow> map_of (disk s') n = map_of (disk s) n)"
proof -
  have n1: "\<And>n. n \<in> set (single_files s) \<Longrightarrow> single_name n" "\<And>n. single_name n \<Longrightarrow> has_file n s \<Longrightarrow> n \<in> set (single_files s)"
    unfolding set_single_files by (auto simp: single_name_def)
  obtain us k d where r: "smap (rewrap_file C old new False) (single_files s) s = (Inr us, s\<lparr> tick := k, disk := d \<rparr>)"
    "\<And>n. single_name n \<Longrightarrow> map_option (opened C new) (map_of d n) = contents C old s n"
    "\<And>m. \<not> single_name m \<Longrightarrow> \<not> ends_with m ''.tmp'' \<Longrightarrow> map_of d m = map_of (disk s) m" "distinct (map fst d)"
    by (rule rewrap_stage [OF assms(1,3) distinct_single_files [OF assms(3)] n1]) (use assms(4) state_names_end(1) in auto)
  define s1 where "s1 = s\<lparr> tick := k, disk := d \<rparr>"
  define ns where "ns = files_matching [''msgs_*.bin''] s1"
  have n2: "\<And>n. n \<in> set ns \<Longrightarrow> cache_name n" "\<And>n. cache_name n \<Longrightarrow> has_file n s1 \<Longrightarrow> n \<in> set ns" "distinct ns" "distinct (map fst (disk s1))"
    using r(4) by (auto simp: ns_def files_matching_def cache_name_def has_file_names s1_def simp del: glob_match.simps)
  have c: "map_of (disk s1) n = map_of (disk s) n" if "cache_name n" for n
    using that r(3) state_names_end(2,3) by (auto simp: s1_def)
  obtain vs k' d' where q: "smap (rewrap_file C old new True) ns s1 = (Inr vs, s1\<lparr> tick := k', disk := d' \<rparr>)"
    "\<And>n. cache_name n \<Longrightarrow> map_option (opened C new) (map_of d' n) = contents C old s1 n"
    "\<And>m. \<not> cache_name m \<Longrightarrow> \<not> ends_with m ''.tmp'' \<Longrightarrow> map_of d' m = map_of (disk s1) m"
    by (rule rewrap_stage [OF assms(1) n2(4,3,1,2), where old = old and line_mode = True])
       (use assms(5) readable_cong [OF c] state_names_end(2) in auto)
  let ?s = "s1\<lparr> tick := k', disk := d' \<rparr>"
  have "rewrap_local_state C old new s = (Inr (), ?s)"
    using assms(2) q(1) by (simp add: rewrap_local_state_def sbind_def r(1) s1_def [symmetric] ns_def [symmetric])
  moreover have "contents C new ?s n = contents C old s n" if "single_name n \<or> cache_name n" for n
    using that r(2) q(2,3) state_names_end c by (auto simp: contents_def s1_def)
  moreover have "map_of (disk ?s) n = map_of (disk s) n" if "\<not> single_name n" "\<not> cache_name n" "\<not> ends_with n ''.tmp''" for n
    using that q(3) r(3) by (simp add: s1_def)
  ultimately show ?thesis by blast
qed

text \<open>
  A password change that meets a damaged file splits the keys: with a readable identity file and a
  cache policy that does not open under the old key, \<open>rewrap_local_state\<close> raises, the identity key is
  by then sealed under the new key only, and the policy file, like all files after it, is still as it
  was.
\<close>

theorem rewrap_splits_keys:
  assumes "can_seal C new" and "secchat_dir s \<noteq> []" and "readable C old False s identity_key_path"
    and "map_of (disk s) cache_policy_path = Some t" and "token_lines t = [token]" and "decrypt_with_key C old token None = Inl e"
  shows "\<exists>s'. rewrap_local_state C old new s = (Inl e, s')
    \<and> contents C new s' identity_key_path = contents C old s identity_key_path
    \<and> (\<forall>n. n \<noteq> identity_key_path \<and> \<not> ends_with n ''.tmp'' \<longrightarrow> map_of (disk s') n = map_of (disk s) n)"
proof -
  have i: "\<not> ends_with identity_key_path ''.tmp''" "\<not> ends_with cache_policy_path ''.tmp''" "cache_policy_path \<noteq> identity_key_path"
    by (simp_all add: fixed_paths ends_with_def)
  obtain k d where r: "rewrap_file C old new False identity_key_path s = (Inr (), s\<lparr> tick := k, disk := d \<rparr>)"
    "map_option (opened C new) (map_of d identity_key_path) = contents C old s identity_key_path"
    "\<And>m. m \<noteq> identity_key_path \<Longrightarrow> \<not> ends_with m ''.tmp'' \<Longrightarrow> map_of d m = map_of (disk s) m"
    by (rule rewrap_file_run [OF assms(1,3) i(1)]) blast
  let ?s = "s\<lparr> tick := k, disk := d \<rparr>"
  have "map_of d cache_policy_path = Some t" using r(3) [OF i(3,2)] assms(4) by simp
  then have "rewrap_file C old new False cache_policy_path ?s = (Inl e, ?s)"
    by (simp add: rewrap_file_def assms(5) rewrap_token_def assms(6) sbind_def)
  then have "smap (rewrap_file C old new False) (single_files s) s = (Inl e, ?s)"
    by (simp add: single_files_def FIXED_FILES_def r(1) sbind_def)
  then have "rewrap_local_state C old new s = (Inl e, ?s)"
    using assms(2) by (simp add: rewrap_local_state_def sbind_def)
  then show ?thesis using r(2,3) by (intro exI [of _ ?s]) (simp add: contents_def)
qed

subsection \<open>Cleaning leaves no trace\<close>

lemma remove_files_map: "map_of (disk (remove_files ns s)) n = (if n \<in> set ns then None else map_of (disk s) n)"
  by (induction ns arbitrary: s) (simp_all add: remove_file_def delete_conv')

lemma conversation_paths [simp]:
  "verified_path c \<noteq> double_ratchet_path b" "verified_path c \<noteq> double_ratchet_sessions_path b"
  "double_ratchet_path c \<noteq> verified_path b" "double_ratchet_sessions_path c \<noteq> verified_path b"
  "double_ratchet_sessions_path c \<noteq> double_ratchet_path b"
  "verified_path c = verified_path b \<longleftrightarrow> c = b" "double_ratchet_path c = double_ratchet_path b \<longleftrightarrow> c = b"
  "double_ratchet_sessions_path c = double_ratchet_sessions_path b \<longleftrightarrow> c = b"
  using dr_paths_distinct [of b c]
  by (auto simp: verified_path_def double_ratchet_path_def double_ratchet_sessions_path_def)

text \<open>
  Leaving a conversation removes its keys: after \<open>cleanup_conversation_state\<close> the session
  has no ratchet, no parallel session, no group readiness and no verified flag of the conversation, in
  memory or on disk, and everything it keeps about every other conversation is as before.
\<close>

theorem cleanup_forgets_conversation:
  assumes "secchat_dir s \<noteq> []" and "s' = cleanup_conversation_state conv s"
  shows "fst (load_double_ratchet C conv s') = None \<and> fst (load_double_ratchet_sessions C conv s') = []
    \<and> \<not> fst (load_verified C conv s') \<and> conv \<notin> mls_group_ready s'
    \<and> (\<forall>c. c \<noteq> conv \<longrightarrow> current c s' = current c s \<and> known_sessions c s' = known_sessions c s
         \<and> map_of (conv_verified s') c = map_of (conv_verified s) c \<and> (c \<in> mls_group_ready s') = (c \<in> mls_group_ready s)
         \<and> map_of (disk s') (double_ratchet_path c) = map_of (disk s) (double_ratchet_path c)
         \<and> map_of (disk s') (double_ratchet_sessions_path c) = map_of (disk s) (double_ratchet_sessions_path c)
         \<and> map_of (disk s') (verified_path c) = map_of (disk s) (verified_path c))
    \<and> ratchets s' = ratchets s"
proof -
  let ?s = "s\<lparr> conv_peer_uids := dpop (conv_peer_uids s) conv, conv_verified := dpop (conv_verified s) conv,
     conv_fingerprints := dpop (conv_fingerprints s) conv, double_ratchet_states := dpop (double_ratchet_states s) conv,
     double_ratchet_session_states := dpop (double_ratchet_session_states s) conv, mls_group_ready := mls_group_ready s - {conv} \<rparr>"
  let ?ns = "[double_ratchet_path conv, double_ratchet_sessions_path conv, verified_path conv]"
  have s': "s' = remove_files ?ns ?s" using assms by (simp add: cleanup_conversation_state_def)
  obtain d where d: "s' = ?s\<lparr> disk := d \<rparr>" using remove_files_keeps [of ?ns ?s] unfolding s' by blast
  have m: "map_of d n = (if n \<in> set ?ns then None else map_of (disk s) n)" for n
    using remove_files_map [of ?ns ?s n] d unfolding s' by simp
  have "current conv s' = None" "\<not> has_file (double_ratchet_path conv) s'" "\<not> has_file (verified_path conv) s'"
    "map_of (conv_verified s') conv = None" "\<not> has_file (double_ratchet_sessions_path conv) s'"
    "\<not> dhas (double_ratchet_session_states s') conv"
    by (simp_all add: d m current_def has_file_def dhas_def delete_conv')
  then have "fst (load_double_ratchet C conv s') = None" "fst (load_double_ratchet_sessions C conv s') = []" "\<not> fst (load_verified C conv s')"
    by (simp_all add: load_double_ratchet_def load_double_ratchet_sessions_def load_verified_def with_current_def Let_def)
  moreover have "current c s' = current c s \<and> known_sessions c s' = known_sessions c s
      \<and> map_of (conv_verified s') c = map_of (conv_verified s) c" if "c \<noteq> conv" for c
    using that by (simp add: d current_def known_sessions_def dget_def delete_conv')
  ultimately show ?thesis by (simp add: d m)
qed

subsection \<open>Witnesses\<close>

definition demo_new_key :: bytes where
  "demo_new_key = replicate 32 (CHR ''n'')"

definition demo_files :: "(string \<times> string) list \<Rightarrow> crypto_session" where
  "demo_files d = demo_session\<lparr> disk := d \<rparr>"

lemma demo_can_seal: "can_seal toy_crypto demo_new_key" "can_seal toy_crypto (master_key demo_session)"
  using crypto_okD(1) [OF toy_ok] by (simp_all add: can_seal_def demo_new_key_def demo_session_def)

lemma demo_token:
  obtains token where "clean_token token" and "decrypt_with_key toy_crypto (master_key demo_session) token None = Inr (JStr ''key'')"
proof -
  have "utf8_valid ''key''" by (intro ascii_utf8) (simp add: is_ascii_def)
  then show ?thesis using that by (rule seal_value_text [OF demo_can_seal(2), of _ demo_session]) blast
qed

lemma demo_contents:
  assumes "clean_token token" and "decrypt_with_key toy_crypto (master_key demo_session) token None = Inr (JStr ''key'')"
  shows "contents toy_crypto (master_key demo_session) (demo_files ((identity_key_path, token) # d)) identity_key_path = Some (Inr [JStr ''key''])"
    and "readable toy_crypto (master_key demo_session) False (demo_files ((identity_key_path, token) # d)) identity_key_path"
proof -
  show c: "contents toy_crypto (master_key demo_session) (demo_files ((identity_key_path, token) # d)) identity_key_path = Some (Inr [JStr ''key''])"
    using assms by (simp add: contents_def demo_files_def opened_def token_lines_single)
  have "utf8_valid ''key''" by (intro ascii_utf8) (simp add: is_ascii_def)
  then show "readable toy_crypto (master_key demo_session) False (demo_files ((identity_key_path, token) # d)) identity_key_path"
    unfolding readable_def c by (simp add: exI [of _ "[''key'']"])
qed

theorem rewrap_keeps_contents_witness:
  "\<exists>token s'. rewrap_local_state toy_crypto (master_key demo_session) demo_new_key (demo_files [(identity_key_path, token)]) = (Inr (), s')
     \<and> contents toy_crypto demo_new_key s' identity_key_path = Some (Inr [JStr ''key''])"
proof -
  obtain token where t: "clean_token token" "decrypt_with_key toy_crypto (master_key demo_session) token None = Inr (JStr ''key'')"
    by (rule demo_token)
  let ?s = "demo_files [(identity_key_path, token)]"
  have "secchat_dir ?s \<noteq> []" "distinct (map fst (disk ?s))" by (simp_all add: demo_files_def demo_session_def)
  moreover have "readable toy_crypto (master_key demo_session) m ?s n" if "n \<noteq> identity_key_path" for n m
    using that by (simp add: readable_def contents_def demo_files_def)
  moreover have "single_name identity_key_path" by (simp add: single_name_def FIXED_FILES_def)
  moreover have "\<not> cache_name identity_key_path" using state_names_end(3) calculation(4) by blast
  ultimately show ?thesis
    using rewrap_keeps_contents [OF demo_can_seal(1), of ?s "master_key demo_session"] demo_contents [OF t, of "[]"] by metis
qed

theorem rewrap_splits_keys_witness:
  "\<exists>token e s'. rewrap_local_state toy_crypto (master_key demo_session) demo_new_key
       (demo_files [(identity_key_path, token), (cache_policy_path, ''bad'')]) = (Inl e, s')
     \<and> contents toy_crypto demo_new_key s' identity_key_path = Some (Inr [JStr ''key''])"
proof -
  obtain token where t: "clean_token token" "decrypt_with_key toy_crypto (master_key demo_session) token None = Inr (JStr ''key'')"
    by (rule demo_token)
  let ?s = "demo_files [(identity_key_path, token), (cache_policy_path, ''bad'')]"
  have "secchat_dir ?s \<noteq> []" "map_of (disk ?s) cache_policy_path = Some ''bad''"
    by (simp_all add: demo_files_def demo_session_def fixed_paths)
  moreover have "token_lines ''bad'' = [''bad'']" by code_simp
  moreover obtain e where "decrypt_with_key toy_crypto (master_key demo_session) ''bad'' None = Inl e"
  proof -
    have "b64decode ''bad'' = Inl (ValueError ''Incorrect padding'')" by code_simp
    then show ?thesis using that by (simp add: decrypt_with_key_def)
  qed
  ultimately show ?thesis
    using rewrap_splits_keys [OF demo_can_seal(1), of ?s "master_key demo_session"] demo_contents [OF t] by metis
qed

theorem cleanup_forgets_conversation_witness:
  "let s = demo_session\<lparr> mls_group_ready := {7, 8}, disk := [(verified_path 7, ''a''), (verified_path 8, ''b'')] \<rparr>;
       s' = cleanup_conversation_state 7 s
   in \<not> fst (load_verified toy_crypto 7 s') \<and> 7 \<notin> mls_group_ready s' \<and> 8 \<in> mls_group_ready s'
      \<and> map_of (disk s') (verified_path 8) = Some ''b''"
proof -
  let ?s = "demo_session\<lparr> mls_group_ready := {7, 8}, disk := [(verified_path 7, ''a''), (verified_path 8, ''b'')] \<rparr>"
  have "secchat_dir ?s \<noteq> []" by (simp add: demo_session_def)
  from cleanup_forgets_conversation [OF this refl, of toy_crypto 7] show ?thesis by (simp add: Let_def)
qed

end
