(* ===== verification/Backup.thy ===== *)
theory Backup
  imports Local_State
begin

text \<open>
  The encrypted backup of the local state (\<open>client/crypto_engine/session.py\<close>,
  \<open>_backup_name_allowed\<close> to \<open>_merge_cache_entries\<close>). The backup file lies outside the state
  directory: \<open>export_e2ee_backup\<close> returns its text and \<open>restore_e2ee_backup\<close> takes it. The
  Unicode character classes behind \<open>islower\<close> and its kin are a parameter.
\<close>

subsection \<open>Names, keys and passphrases\<close>

definition BACKUP_FORMAT :: string where
  "BACKUP_FORMAT = ''secchat-e2ee-state-backup''"

definition BACKUP_VERSION :: int where
  "BACKUP_VERSION = 3"

definition BACKUP_MIN_VERSION :: int where
  "BACKUP_MIN_VERSION = 1"

definition BACKUP_KDF_ITERS :: int where
  "BACKUP_KDF_ITERS = 600000"

definition BACKUP_PATTERNS :: "string list" where
  "BACKUP_PATTERNS = [''identity_sk.bin'', ''pqxdh_prekeys.bin'', ''dr_*.bin'', ''mls_*.bin'', ''verified_*.bin'',
     ''identity_audit_*.bin'', ''auditor_state.bin'', ''cache_policy.bin'', ''transcript_*.bin'', ''msgs_*.bin'']"

text \<open>\<open>os.path.basename\<close> (POSIX)\<close>

definition basename :: "string \<Rightarrow> string" where
  "basename path = rev (takeWhile (\<lambda>c. c \<noteq> CHR ''/'') (rev path))"

definition backup_name_allowed :: "string \<Rightarrow> bool" where
  "backup_name_allowed name =
     (let base = basename name
      in if base \<noteq> name \<or> base = [] then False else list_ex (\<lambda>pat. glob_match pat base) BACKUP_PATTERNS)"

definition backup_key :: "crypto \<Rightarrow> string \<Rightarrow> bytes \<Rightarrow> int \<Rightarrow> bytes res" where
  "backup_key C passphrase salt iterations =
     rguard (passphrase = []) (CryptoStateError ''Backup passphrase is required.'') (Inr (pbkdf2_sha256 C salt iterations passphrase))"

text \<open>The classes of a character, given as its UTF-8 bytes.\<close>

record char_classes =
  is_lower_ch :: "string \<Rightarrow> bool"
  is_upper_ch :: "string \<Rightarrow> bool"
  is_digit_ch :: "string \<Rightarrow> bool"
  is_alnum_ch :: "string \<Rightarrow> bool"

definition passphrase_score :: "char_classes \<Rightarrow> string \<Rightarrow> nat" where
  "passphrase_score U value =
     (let chars = points_from [] value; one = (\<lambda>b. if b then 1 else 0)
      in one (list_ex (is_lower_ch U) chars) + one (list_ex (is_upper_ch U) chars) + one (list_ex (is_digit_ch U) chars)
         + one (list_ex (\<lambda>ch. \<not> is_alnum_ch U ch) chars) + (one (16 \<le> length chars) + one (24 \<le> length chars)))"

definition backup_passphrase_report :: "char_classes \<Rightarrow> string \<Rightarrow> bool \<times> nat \<times> string" where
  "backup_passphrase_report U value =
     (let len = length (points_from [] value); score = passphrase_score U value
      in (12 \<le> len \<and> 3 \<le> score, score,
          if len < 12 then ''Use at least 12 characters for the backup passphrase.''
          else if score < 3 then ''Use a longer passphrase or mix words with numbers or symbols.''
          else ''Backup passphrase strength is acceptable.''))"

subsection \<open>The record of known backups\<close>

definition load_backup_state :: "crypto \<Rightarrow> crypto_session \<Rightarrow> dict" where
  "load_backup_state C s =
     (if \<not> can_store s \<or> \<not> has_file backup_state_path s then []
      else case read_sealed_json C s backup_state_path of Inr (JObj d) \<Rightarrow> d | _ \<Rightarrow> [])"

definition save_backup_state :: "crypto \<Rightarrow> dict \<Rightarrow> unit ses" where
  "save_backup_state C state s =
     (if \<not> can_store s then (Inr (), s) else logged (write_sealed C backup_state_path (dumps_compact (JObj state))) s)"

definition get_backup_status :: "crypto \<Rightarrow> crypto_session \<Rightarrow> dict res" where
  "get_backup_status C s =
     (let state = load_backup_state C s
      in rbind (int_or_0 state ''latest_created_at'') (\<lambda>created.
         rbind (int_or_0 state ''latest_generation'') (\<lambda>gen.
         rbind (int_or_0 state ''restored_at'') (\<lambda>restored_at.
         rbind (int_or_0 state ''revoked_before_generation'') (\<lambda>before.
         rbind (list_or_empty state ''revoked_backup_ids'') (\<lambda>ids.
         Inr [(''latest_backup_id'', JStr (str_or_empty state ''latest_backup_id'')), (''latest_created_at'', JInt created),
              (''latest_generation'', JInt gen), (''latest_device_label'', JStr (str_or_empty state ''latest_device_label'')),
              (''latest_include_cache'', JBool (truthy (dget state ''latest_include_cache'' (JBool False)))),
              (''restored_from_backup_id'', JStr (str_or_empty state ''restored_from_backup_id'')),
              (''restored_at'', JInt restored_at), (''revoked_before_generation'', JInt before),
              (''revoked_count'', JInt (int (length ids)))]))))))"

text \<open>\<open>{str(x) for x in state.get("revoked_backup_ids", []) if x}\<close>\<close>

definition revoked_ids :: "dict \<Rightarrow> string set res" where
  "revoked_ids state = rbind (as_list (dget state ''revoked_backup_ids'' (JArr []))) (\<lambda>xs. Inr (set (map py_str (filter truthy xs))))"

definition mark_revoked :: "int \<Rightarrow> dict \<Rightarrow> dict res" where
  "mark_revoked now state =
     (let latest_id = str_or_empty state ''latest_backup_id''
      in rbind (int_or_0 state ''latest_generation'') (\<lambda>latest_generation.
         rbind (revoked_ids state) (\<lambda>revoked.
         let ids = sorted_list_of_set (if latest_id \<noteq> [] then insert latest_id revoked else revoked);
             state1 = dset state ''revoked_backup_ids'' (JArr (map JStr ids))
         in rbind (int_or_0 state1 ''revoked_before_generation'') (\<lambda>before.
            Inr (dset (dset state1 ''revoked_before_generation'' (JInt (max before latest_generation))) ''revoked_at'' (JInt now))))))"

definition revoke_local_backups :: "crypto \<Rightarrow> dict ses" where
  "revoke_local_backups C =
     sbind (\<lambda>s. (mark_revoked (now_s C s) (load_backup_state C s), s)) (\<lambda>state.
     sbind (save_backup_state C state) (\<lambda>_ s. (get_backup_status C s, s)))"
subsection \<open>Reading the header\<close>

text \<open>\<open>outer.get(k, d) or manifest.get(k, d) or d\<close>: the manifest is consulted only when the outer field is falsy.\<close>

definition header_field :: "dict \<Rightarrow> json \<Rightarrow> string \<Rightarrow> json \<Rightarrow> json res" where
  "header_field outer manifest k d =
     (let v = dget outer k d in if truthy v then Inr v else rbind (as_dict manifest) (\<lambda>m. Inr (py_or (dget m k d) d)))"

definition read_header_file :: "string \<Rightarrow> (dict \<times> json) res" where
  "read_header_file t =
     rbind (rbind (rbind (utf8_decode t) loads) as_dict) (\<lambda>outer.
     rguard (dget outer ''format'' JNull \<noteq> JStr BACKUP_FORMAT) (CryptoStateError ''This is not a SecChat E2EE backup file.'')
       (Inr (outer, py_or (dget outer ''manifest'' JNull) (JObj []))))"

definition inspect_e2ee_backup :: "string \<Rightarrow> dict res" where
  "inspect_e2ee_backup t =
     rbind (read_header_file t) (\<lambda>(outer, manifest).
     rbind (py_int (py_or (dget outer ''version'' (JInt 1)) (JInt 1))) (\<lambda>version.
     rbind (header_field outer manifest ''backup_id'' (JStr [])) (\<lambda>backup_id.
     rbind (rbind (header_field outer manifest ''generation'' (JInt 0)) py_int) (\<lambda>generation.
     rbind (rbind (header_field outer manifest ''created_at'' (JInt 0)) py_int) (\<lambda>created_at.
     rbind (as_dict manifest) (\<lambda>m.
     rbind (int_or_0 m ''user_id'') (\<lambda>user.
     rbind (int_or_0 m ''file_count'') (\<lambda>file_count.
     rbind (int_or_0 m ''entry_count'') (\<lambda>entry_count.
       Inr [(''format'', dget outer ''format'' JNull), (''version'', JInt version), (''backup_id'', JStr (py_str backup_id)),
            (''generation'', JInt generation), (''created_at'', JInt created_at),
            (''account_username'', JStr (str_or_empty m ''account_username'')), (''user_id'', JInt user),
            (''device_label'', JStr (str_or_empty m ''device_label'')),
            (''include_cache'', JBool (truthy (dget m ''include_cache'' (JBool False)))),
            (''identity_fingerprint'', JStr (str_or_empty m ''identity_fingerprint'')),
            (''file_count'', JInt file_count), (''entry_count'', JInt entry_count)])))))))))"

definition canonical_backup_manifest :: "json \<Rightarrow> bytes" where
  "canonical_backup_manifest manifest = canonical manifest"

definition new_backup_id :: "crypto \<Rightarrow> nat \<Rightarrow> string" where
  "new_backup_id C t = rstrip_char (CHR ''='') (to_urlsafe (b64encode (os_random C t 18)))"

definition identity_backup_fingerprint :: "crypto \<Rightarrow> crypto_session \<Rightarrow> string res" where
  "identity_backup_fingerprint C s =
     rbind (if identity_pk s = [] \<and> identity_sk s \<noteq> [] then identity_pk_from_sk C (identity_sk s) else Inr (identity_pk s)) (\<lambda>pk.
       Inr (if pk = [] then [] else take 24 (to_hex (sha256 C pk))))"

definition unb64 :: "json \<Rightarrow> bytes res" where
  "unb64 j = rbind (ascii_encode (py_str j)) b64decode"

subsection \<open>Exporting\<close>

definition state_files_for_backup :: "bool \<Rightarrow> crypto_session \<Rightarrow> (string \<times> bool) list" where
  "state_files_for_backup include_cache s =
     (if secchat_dir s = [] then []
      else map (\<lambda>name. (name, starts_with name ''msgs_''))
             (sort (filter backup_name_allowed
               (remdups (concat (map (\<lambda>p. files_matching [p] s) (filter (\<lambda>p. include_cache \<or> p \<noteq> ''msgs_*.bin'') BACKUP_PATTERNS)))))))"

definition backup_tokens :: "bool \<Rightarrow> string \<Rightarrow> string list" where
  "backup_tokens line_mode t = (if line_mode then token_lines t else filter (\<lambda>l. l \<noteq> []) [strip t])"

definition backup_entries :: "crypto \<Rightarrow> bytes \<Rightarrow> bool \<Rightarrow> string \<Rightarrow> json list res" where
  "backup_entries C key line_mode t = rmap (\<lambda>token. decrypt_with_key C key token None) (backup_tokens line_mode t)"

text \<open>The files of the payload; one with no entry is left out.\<close>

fun collect_files :: "crypto \<Rightarrow> crypto_session \<Rightarrow> (string \<times> bool) list \<Rightarrow> (string \<times> bool \<times> json list) list res" where
  "collect_files C s [] = Inr []"
| "collect_files C s ((name, line_mode) # srcs) =
     rbind (rbind (opt_res (OSError ''No such file or directory'') (map_of (disk s) name)) (backup_entries C (master_key s) line_mode)) (\<lambda>es.
     rbind (collect_files C s srcs) (\<lambda>rest. Inr (if es = [] then rest else (name, line_mode, es) # rest)))"

definition file_json :: "string \<times> bool \<times> json list \<Rightarrow> json" where
  "file_json f = (case f of (name, line_mode, es) \<Rightarrow>
     JObj [(''name'', JStr name), (''line_mode'', JBool line_mode), (''entries'', JArr es)])"

definition count_entries :: "(string \<times> bool \<times> json list) list \<Rightarrow> int" where
  "count_entries files = int (sum_list (map (\<lambda>(_, _, es). length es) files))"

record backup_info =
  b_id :: string
  b_generation :: int
  b_created :: int
  b_account :: string
  b_user :: int
  b_cache :: bool

definition backup_manifest :: "backup_info \<Rightarrow> string \<Rightarrow> string \<Rightarrow> (string \<times> bool \<times> json list) list \<Rightarrow> dict" where
  "backup_manifest b label fingerprint files =
     [(''format'', JStr BACKUP_FORMAT), (''version'', JInt BACKUP_VERSION), (''backup_id'', JStr (b_id b)),
      (''generation'', JInt (b_generation b)), (''created_at'', JInt (b_created b)), (''account_username'', JStr (b_account b)),
      (''user_id'', JInt (b_user b)), (''include_cache'', JBool (b_cache b)), (''device_label'', JStr label),
      (''identity_fingerprint'', JStr fingerprint), (''file_count'', JInt (int (length files))),
      (''entry_count'', JInt (count_entries files))]"

definition backup_payload :: "backup_info \<Rightarrow> dict \<Rightarrow> (string \<times> bool \<times> json list) list \<Rightarrow> dict" where
  "backup_payload b manifest files =
     [(''format'', JStr BACKUP_FORMAT), (''version'', JInt BACKUP_VERSION), (''manifest'', JObj manifest), (''backup_id'', JStr (b_id b)),
      (''generation'', JInt (b_generation b)), (''created_at'', JInt (b_created b)), (''account_username'', JStr (b_account b)),
      (''user_id'', JInt (b_user b)), (''include_cache'', JBool (b_cache b)), (''files'', JArr (map file_json files))]"

definition backup_outer :: "backup_info \<Rightarrow> dict \<Rightarrow> bytes \<Rightarrow> bytes \<Rightarrow> bytes \<Rightarrow> dict" where
  "backup_outer b manifest salt nonce ct =
     [(''format'', JStr BACKUP_FORMAT), (''version'', JInt BACKUP_VERSION), (''backup_id'', JStr (b_id b)),
      (''generation'', JInt (b_generation b)), (''created_at'', JInt (b_created b)), (''include_cache'', JBool (b_cache b)),
      (''manifest'', JObj manifest), (''kdf'', JStr ''PBKDF2-HMAC-SHA256''), (''iterations'', JInt BACKUP_KDF_ITERS),
      (''salt'', JStr (b64encode salt)), (''nonce'', JStr (b64encode nonce)), (''ciphertext'', JStr (b64encode ct))]"

definition encrypt_backup :: "crypto \<Rightarrow> string \<Rightarrow> bytes \<Rightarrow> bytes \<Rightarrow> dict \<Rightarrow> dict \<Rightarrow> bytes res" where
  "encrypt_backup C passphrase salt nonce manifest payload =
     rbind (backup_key C passphrase salt BACKUP_KDF_ITERS) (\<lambda>key.
       aesgcm_encrypt C key nonce (dumps_compact (JObj payload)) (canonical_backup_manifest (JObj manifest)))"

definition remember_backup :: "backup_info \<Rightarrow> string \<Rightarrow> dict \<Rightarrow> dict" where
  "remember_backup b label state =
     dupdate state [(''latest_backup_id'', JStr (b_id b)), (''latest_generation'', JInt (b_generation b)),
       (''latest_created_at'', JInt (b_created b)), (''latest_device_label'', JStr label), (''latest_include_cache'', JBool (b_cache b))]"

definition export_result :: "backup_info \<Rightarrow> (string \<times> bool \<times> json list) list \<Rightarrow> dict" where
  "export_result b files =
     [(''files'', JInt (int (length files))), (''entries'', JInt (count_entries files)), (''backup_id'', JStr (b_id b)),
      (''backup_generation'', JInt (b_generation b)), (''created_at'', JInt (b_created b)), (''include_cache'', JBool (b_cache b))]"

text \<open>Everything after the files are read.\<close>

definition seal_backup ::
  "crypto \<Rightarrow> string \<Rightarrow> string \<Rightarrow> bool \<Rightarrow> (string \<times> bool \<times> json list) list \<Rightarrow> (string \<times> dict) ses" where
  "seal_backup C passphrase account include_cache files =
     sbind (sget (load_backup_state C)) (\<lambda>state.
     sbind (slift (int_or_0 state ''latest_generation'')) (\<lambda>latest.
     sbind (sget (\<lambda>s. (now_s C s, uid s))) (\<lambda>(created, me).
     sbind (draw 1) (\<lambda>t.
     sbind (\<lambda>s. (identity_backup_fingerprint C s, s)) (\<lambda>fingerprint.
     sbind (draw 2) (\<lambda>u.
     let b = \<lparr> b_id = new_backup_id C t, b_generation = latest + 1, b_created = created, b_account = account, b_user = me,
               b_cache = include_cache \<rparr>;
         label = py_str (py_or (dget state ''device_label'' (JStr [])) (JStr ''primary device''));
         salt = os_random C u 16; nonce = os_random C (u + 1) 12;
         manifest = backup_manifest b label fingerprint files
     in sbind (slift (encrypt_backup C passphrase salt nonce manifest (backup_payload b manifest files))) (\<lambda>ct.
        sbind (save_backup_state C (remember_backup b label state)) (\<lambda>_.
          sret (dumps_compact (JObj (backup_outer b manifest salt nonce ct)), export_result b files)))))))))"

definition export_e2ee_backup :: "crypto \<Rightarrow> char_classes \<Rightarrow> string \<Rightarrow> string \<Rightarrow> bool \<Rightarrow> (string \<times> dict) ses" where
  "export_e2ee_backup C U passphrase account include_cache s =
     (if \<not> can_store s then (Inl (CryptoStateError ''Login is required before exporting backup.''), s)
      else case backup_passphrase_report U passphrase of (ok, _, msg) \<Rightarrow>
        if \<not> ok then (Inl (CryptoStateError msg), s)
        else sbind (save_mls_state C) (\<lambda>_.
             sbind (\<lambda>s. (collect_files C s (state_files_for_backup include_cache s), s)) (\<lambda>files.
               seal_backup C passphrase account include_cache files)) s)"
subsection \<open>Restoring\<close>

definition restore_should_skip_for_merge :: "string \<Rightarrow> bool" where
  "restore_should_skip_for_merge name =
     (name \<in> {''identity_sk.bin'', ''pqxdh_prekeys.bin'', ''auditor_state.bin'', ''cache_policy.bin''}
      \<or> starts_with name ''dr_'' \<or> starts_with name ''mls_'' \<or> starts_with name ''verified_''
      \<or> starts_with name ''identity_audit_'' \<or> starts_with name ''transcript_'')"

definition merge_key_for :: "crypto \<Rightarrow> string \<Rightarrow> string" where
  "merge_key_for C raw =
     (case rbind (rbind (loads raw) as_dict) (\<lambda>item.
           rbind (int_or_0 item ''id'') (\<lambda>mid.
             let wire_hash = str_or_empty item ''wire_hash''
             in Inr (if mid \<noteq> 0 then Some (''id:'' @ show_int mid)
                     else if wire_hash \<noteq> [] then Some (''wire:'' @ wire_hash) else None)))
      of Inr (Some key) \<Rightarrow> key | _ \<Rightarrow> ''raw:'' @ to_hex (sha256 C raw))"

definition merge_quality :: "string \<Rightarrow> nat" where
  "merge_quality raw =
     (case rbind (loads raw) as_dict of
        Inl _ \<Rightarrow> 0
      | Inr item \<Rightarrow>
          let body = str_or_empty item ''body''
          in if body = [] then 0
             else if list_ex (starts_with body) [''[Forward-secret]'', ''[Message deleted]'', ''[Encrypted'', ''[Cannot''] then 1
             else 2)"

definition merge_keep :: "crypto \<Rightarrow> string \<Rightarrow> (string \<times> string) list \<Rightarrow> (string \<times> string) list" where
  "merge_keep C raw merged =
     (let key = merge_key_for C raw
      in case map_of merged key of
           None \<Rightarrow> dset merged key raw
         | Some old \<Rightarrow> if merge_quality old < merge_quality raw then dset merged key raw else merged)"

text \<open>The entries the present file opens to; a line that does not open is passed over.\<close>

definition cached_entries :: "crypto \<Rightarrow> crypto_session \<Rightarrow> string \<Rightarrow> string list" where
  "cached_entries C s dst = (case map_of (disk s) dst of
       None \<Rightarrow> []
     | Some t \<Rightarrow> List.map_filter (\<lambda>l. if strip l = [] then None else res_opt (unseal_text C s (strip l))) (text_lines t))"

definition merge_cache_entries :: "crypto \<Rightarrow> crypto_session \<Rightarrow> string \<Rightarrow> string list \<Rightarrow> string list" where
  "merge_cache_entries C s dst incoming = map snd (fold (merge_keep C) (cached_entries C s dst @ incoming) [])"

definition check_not_revoked :: "dict \<Rightarrow> string \<Rightarrow> int \<Rightarrow> unit res" where
  "check_not_revoked state backup_id generation =
     rbind (revoked_ids state) (\<lambda>revoked.
     rbind (int_or_0 state ''revoked_before_generation'') (\<lambda>revoked_before.
     rguard (backup_id \<noteq> [] \<and> backup_id \<in> revoked)
         (CryptoStateError ''This backup was revoked on this device and will not be restored.'')
       (rguard (generation \<noteq> 0 \<and> revoked_before \<noteq> 0 \<and> generation \<le> revoked_before)
           (CryptoStateError ''This backup generation was revoked on this device and will not be restored.'')
         (Inr ()))))"

definition decrypt_backup :: "crypto \<Rightarrow> string \<Rightarrow> dict \<Rightarrow> json \<Rightarrow> dict res" where
  "decrypt_backup C passphrase outer manifest =
     rbind (rbind (dkey outer ''salt'') unb64) (\<lambda>salt.
     rbind (py_int (dget outer ''iterations'' (JInt BACKUP_KDF_ITERS))) (\<lambda>iterations.
     rbind (backup_key C passphrase salt iterations) (\<lambda>key.
     rbind (rbind (dkey outer ''nonce'') unb64) (\<lambda>nonce.
     rbind (rbind (dkey outer ''ciphertext'') unb64) (\<lambda>ct.
     rbind (aesgcm_decrypt C key nonce ct (if truthy manifest then canonical_backup_manifest manifest else [])) (\<lambda>plain.
       rbind (rbind (utf8_decode plain) loads) as_dict))))))"

definition check_payload :: "dict \<Rightarrow> json \<Rightarrow> unit res" where
  "check_payload payload manifest =
     rbind (int_or_0 payload ''version'') (\<lambda>version.
     rguard (dget payload ''format'' JNull \<noteq> JStr BACKUP_FORMAT \<or> version < BACKUP_MIN_VERSION \<or> BACKUP_VERSION < version)
         (CryptoStateError ''Unsupported SecChat backup version.'')
       (rguard (truthy manifest \<and> \<not> py_eq (py_or (dget payload ''manifest'' JNull) (JObj [])) manifest)
           (CryptoStateError ''Backup manifest does not match encrypted payload.'')
         (Inr ())))"

text \<open>The counters \<open>restored\<close>, \<open>entries\<close> and \<open>skipped\<close>.\<close>

type_synonym tally = "int \<times> int \<times> int"

definition restore_entries :: "crypto \<Rightarrow> string \<Rightarrow> bool \<Rightarrow> string list \<Rightarrow> tally \<Rightarrow> tally ses" where
  "restore_entries C name line_mode raw_entries n = (case n of (restored, entries, passed) \<Rightarrow>
     sbind (smap (seal C) raw_entries) (\<lambda>encrypted.
     sbind (smod (replace_file name (sealed_text line_mode encrypted))) (\<lambda>_.
       sret (restored + 1, entries + int (length encrypted), passed))))"

definition restore_item :: "crypto \<Rightarrow> bool \<Rightarrow> bool \<Rightarrow> json \<Rightarrow> tally \<Rightarrow> tally ses" where
  "restore_item C overwrite preserve item n s = (case n of (restored, entries, passed) \<Rightarrow>
     sbind (slift (as_dict item)) (\<lambda>d s.
       let name = basename (py_str (dget d ''name'' (JStr [])));
           line_mode = truthy (dget d ''line_mode'' (JBool False));
           merging = preserve \<and> starts_with name ''msgs_'' \<and> line_mode;
           skip = (Inr (restored, entries, passed + 1), s)
       in if \<not> backup_name_allowed name then (Inr n, s)
          else if preserve \<and> restore_should_skip_for_merge name then skip
          else if has_file name s \<and> \<not> overwrite \<and> \<not> merging then skip
          else sbind (slift (as_list (dget d ''entries'' (JArr [])))) (\<lambda>es s.
            let raw = map py_str es
            in if merging then restore_entries C name line_mode (merge_cache_entries C s name raw) n s
               else if preserve \<and> has_file name s then skip
               else restore_entries C name line_mode raw n s) s) s)"

definition forget_before_restore :: "crypto_session \<Rightarrow> crypto_session" where
  "forget_before_restore s = s\<lparr> conv_verified := [], conv_fingerprints := [], identity_audit_states := [], auditor_state := [],
     pqxdh_prekeys := None, double_ratchet_states := [], double_ratchet_session_states := [], group_epochs := [],
     group_conv_ids := {}, mls_group_ready := {}, mls_handshake_seen := {}, mls_bridge := False,
     mls_proc := (if mls_bridge s then None else mls_proc s), mls_identity_ready := False, mls_credential_identity_b64 := [] \<rparr>"

definition restored_state :: "string \<Rightarrow> int \<Rightarrow> int \<Rightarrow> json \<Rightarrow> dict \<Rightarrow> dict \<Rightarrow> dict res" where
  "restored_state backup_id generation now manifest payload state =
     rbind (int_or_0 state ''latest_generation'') (\<lambda>latest.
     rbind (int_or_0 state ''latest_created_at'') (\<lambda>known.
     rbind (if known \<noteq> 0 then Inr known
            else rbind (as_dict manifest) (\<lambda>m.
              py_int (py_or (dget m ''created_at'' (dget payload ''created_at'' (JInt 0))) (JInt 0)))) (\<lambda>created.
     rbind (let label = dget state ''latest_device_label'' (JStr [])
            in if truthy label then Inr label else rbind (as_dict manifest) (\<lambda>m. Inr (JStr (str_or_empty m ''device_label'')))) (\<lambda>label.
       Inr (dupdate state [(''restored_from_backup_id'', JStr backup_id), (''restored_generation'', JInt generation),
         (''restored_at'', JInt now), (''latest_backup_id'', py_or (dget state ''latest_backup_id'' (JStr [])) (JStr backup_id)),
         (''latest_generation'', JInt (max latest generation)), (''latest_created_at'', JInt created),
         (''latest_device_label'', label),
         (''latest_include_cache'', JBool (truthy (py_or (dget state ''latest_include_cache'' (JBool False))
                                                         (dget payload ''include_cache'' (JBool False)))))])))))"

definition restore_result :: "tally \<Rightarrow> dict \<Rightarrow> string \<Rightarrow> int \<Rightarrow> bool \<Rightarrow> dict res" where
  "restore_result n payload backup_id generation preserve = (case n of (restored, entries, passed) \<Rightarrow>
     rbind (int_or_0 payload ''user_id'') (\<lambda>user.
     rbind (int_or_0 payload ''created_at'') (\<lambda>created.
       Inr [(''files'', JInt restored), (''entries'', JInt entries), (''skipped'', JInt passed),
            (''account_username'', dget payload ''account_username'' (JStr [])), (''user_id'', JInt user),
            (''include_cache'', JBool (truthy (dget payload ''include_cache'' (JBool False)))), (''backup_id'', JStr backup_id),
            (''backup_generation'', JInt generation), (''created_at'', JInt created),
            (''identity_review_recommended'', JBool True), (''preserved_current_identity'', JBool preserve)])))"

text \<open>Writing the files of an accepted payload and reloading the session from them.\<close>

definition restore_payload :: "crypto \<Rightarrow> bool \<Rightarrow> bool \<Rightarrow> json \<Rightarrow> dict \<Rightarrow> string \<Rightarrow> int \<Rightarrow> dict ses" where
  "restore_payload C overwrite preserve manifest payload backup_id generation =
     sbind (slift (as_list (dget payload ''files'' (JArr [])))) (\<lambda>items.
     sbind (sfold (restore_item C overwrite preserve) items (0, 0, 0)) (\<lambda>n.
     sbind (smod (\<lambda>s. if preserve then s else forget_before_restore s)) (\<lambda>_.
     sbind (load_cache_policy C) (\<lambda>_.
     sbind (load_or_create_identity_key C) (\<lambda>_.
     sbind (smod (\<lambda>s. if preserve then s else snd (load_mls_state_into_bridge C s))) (\<lambda>_.
     sbind (\<lambda>s. (restored_state backup_id generation (now_s C s) manifest payload (load_backup_state C s), s)) (\<lambda>state.
     sbind (save_backup_state C state) (\<lambda>_.
       slift (restore_result n payload backup_id generation preserve)))))))))"

definition restore_e2ee_backup :: "crypto \<Rightarrow> string \<Rightarrow> string \<Rightarrow> bool \<Rightarrow> bool \<Rightarrow> dict ses" where
  "restore_e2ee_backup C t passphrase overwrite preserve s =
     (if \<not> can_store s then (Inl (CryptoStateError ''Login is required before restoring backup.''), s)
      else sbind (slift (read_header_file t)) (\<lambda>(outer, manifest).
           sbind (slift (header_field outer manifest ''backup_id'' (JStr []))) (\<lambda>bid.
           let backup_id = py_str bid in
           sbind (slift (rbind (header_field outer manifest ''generation'' (JInt 0)) py_int)) (\<lambda>generation.
           sbind (\<lambda>s. (check_not_revoked (load_backup_state C s) backup_id generation, s)) (\<lambda>_.
           sbind (slift (decrypt_backup C passphrase outer manifest)) (\<lambda>payload.
           sbind (slift (check_payload payload manifest)) (\<lambda>_.
             restore_payload C overwrite preserve manifest payload backup_id generation)))))) s)"
subsection \<open>Merging message caches\<close>

definition merged_ok :: "crypto \<Rightarrow> (string \<times> string) list \<Rightarrow> bool" where
  "merged_ok C m = (distinct (map fst m) \<and> (\<forall>kr \<in> set m. merge_key_for C (snd kr) = fst kr))"

text \<open>An entry at least as good as a given one is held under its key.\<close>

definition covers :: "crypto \<Rightarrow> (string \<times> string) list \<Rightarrow> string \<Rightarrow> bool" where
  "covers C m x = (\<exists>r. map_of m (merge_key_for C x) = Some r \<and> merge_quality x \<le> merge_quality r)"

lemma merge_keep_step:
  assumes "merged_ok C m"
  shows "merged_ok C (merge_keep C x m)" and "covers C (merge_keep C x m) x" and "covers C m y \<Longrightarrow> covers C (merge_keep C x m) y"
    and "snd ` set (merge_keep C x m) \<subseteq> insert x (snd ` set m)"
proof -
  show "merged_ok C (merge_keep C x m)"
    using assms by (auto simp: merged_ok_def merge_keep_def Let_def distinct_update split: option.splits if_splits dest!: set_dset)
  show "covers C (merge_keep C x m) x"
    by (auto simp: covers_def merge_keep_def Let_def update_conv' split: option.splits)
  show "covers C (merge_keep C x m) y" if "covers C m y"
    using that by (auto simp: covers_def merge_keep_def Let_def update_conv' split: option.splits)
  show "snd ` set (merge_keep C x m) \<subseteq> insert x (snd ` set m)"
    by (auto simp: merge_keep_def Let_def image_iff split: option.splits if_splits dest!: set_dset)
qed

lemma merge_fold:
  assumes "merged_ok C m"
  shows "merged_ok C (fold (merge_keep C) xs m)" and "\<forall>y. covers C m y \<or> y \<in> set xs \<longrightarrow> covers C (fold (merge_keep C) xs m) y"
    and "snd ` set (fold (merge_keep C) xs m) \<subseteq> set xs \<union> snd ` set m"
proof -
  have "merged_ok C (fold (merge_keep C) xs m) \<and> (\<forall>y. covers C m y \<or> y \<in> set xs \<longrightarrow> covers C (fold (merge_keep C) xs m) y)
    \<and> snd ` set (fold (merge_keep C) xs m) \<subseteq> set xs \<union> snd ` set m" using assms
  proof (induction xs arbitrary: m)
    case (Cons x xs)
    note step = merge_keep_step [OF Cons.prems]
    have "covers C (fold (merge_keep C) (x # xs) m) y" if "covers C m y \<or> y \<in> set (x # xs)" for y
      using that Cons.IH [OF step(1)] step(2) [of x] step(3) [of y x] by auto
    moreover have "snd ` set (fold (merge_keep C) (x # xs) m) \<subseteq> set (x # xs) \<union> snd ` set m"
      using Cons.IH [OF step(1)] step(4) [of x] unfolding fold.simps o_apply by (simp only: list.set) blast
    ultimately show ?case using Cons.IH [OF step(1)] by simp
  qed simp
  then show "merged_ok C (fold (merge_keep C) xs m)" "\<forall>y. covers C m y \<or> y \<in> set xs \<longrightarrow> covers C (fold (merge_keep C) xs m) y"
    "snd ` set (fold (merge_keep C) xs m) \<subseteq> set xs \<union> snd ` set m" by blast+
qed

text \<open>
  C14: (functional) Merging a backup into a message cache invents nothing and hides nothing: every merged entry
  comes from the present file or from the backup, no two have the same message key, and for every
  entry of either side the merge holds one of the same message that is at least as readable, so a
  placeholder never displaces recovered plaintext.
\<close>

theorem merge_keeps_best:
  "let out = merge_cache_entries C s dst incoming; given = cached_entries C s dst @ incoming
   in set out \<subseteq> set given \<and> distinct (map (merge_key_for C) out)
      \<and> (\<forall>x \<in> set given. \<exists>r \<in> set out. merge_key_for C r = merge_key_for C x \<and> merge_quality x \<le> merge_quality r)"
proof -
  define xs where "xs = cached_entries C s dst @ incoming"
  define m where "m = fold (merge_keep C) xs []"
  have "merged_ok C []" by (simp add: merged_ok_def)
  note f = merge_fold [OF this, of xs, folded m_def]
  have keys: "map (merge_key_for C) (map snd m) = map fst m"
    using f(1) by (auto simp: merged_ok_def)
  have "\<exists>r \<in> set (map snd m). merge_key_for C r = merge_key_for C x \<and> merge_quality x \<le> merge_quality r" if x: "x \<in> set xs" for x
  proof -
    obtain r where "map_of m (merge_key_for C x) = Some r" "merge_quality x \<le> merge_quality r"
      using f(2) x unfolding covers_def by blast
    moreover have "merge_key_for C r = merge_key_for C x" using f(1) map_of_SomeD [OF calculation(1)] unfolding merged_ok_def by force
    ultimately show ?thesis by (auto dest: map_of_SomeD simp: image_iff intro!: bexI [of _ "(merge_key_for C x, r)"])
  qed
  moreover have "set (map snd m) \<subseteq> set xs" using f(3) by simp
  moreover have "distinct (map (merge_key_for C) (map snd m))" using f(1) unfolding keys merged_ok_def by blast
  ultimately show ?thesis by (simp add: merge_cache_entries_def Let_def xs_def m_def)
qed

theorem merge_keeps_best_witness:
  "let old = ''{\"id\":5,\"body\":\"[Forward-secret]\"}''; new = ''{\"id\":5,\"body\":\"hello\"}''
   in merge_quality old < merge_quality new \<and> merge_key_for toy_crypto old = merge_key_for toy_crypto new
      \<and> new \<in> set (merge_cache_entries toy_crypto demo_session ''msgs_1.bin'' [old, new])"
proof -
  define old where "old = ''{\"id\":5,\"body\":\"[Forward-secret]\"}''"
  define new where "new = ''{\"id\":5,\"body\":\"hello\"}''"
  have q: "merge_quality old = 1" "merge_quality new = 2" unfolding old_def new_def by code_simp+
  have k: "merge_key_for toy_crypto old = merge_key_for toy_crypto new" unfolding old_def new_def by code_simp
  have c: "cached_entries toy_crypto demo_session ''msgs_1.bin'' = []" by (simp add: cached_entries_def demo_session_def)
  let ?out = "merge_cache_entries toy_crypto demo_session ''msgs_1.bin'' [old, new]"
  have "set ?out \<subseteq> {old, new}" and "\<exists>r \<in> set ?out. merge_quality new \<le> merge_quality r"
    using merge_keeps_best [of toy_crypto demo_session "''msgs_1.bin''" "[old, new]"] unfolding c Let_def by auto
  then have "new \<in> set ?out" using q by auto
  then show ?thesis using q k unfolding old_def [symmetric] new_def [symmetric] Let_def by simp
qed

end
