(* ===== verification/Backup_Restore.thy ===== *)
theory Backup_Restore
  imports Backup
begin

text \<open>
  What the encrypted backup promises: the record of known backups stays well formed, a backup
  revoked on a device is refused there, and a backup restored under another master key gives every
  file its contents back.
\<close>

subsection \<open>What saving and loading the group state leaves alone\<close>

definition mls_frame :: "crypto_session \<Rightarrow> crypto_session \<Rightarrow> bool" where
  "mls_frame s t = (master_key t = master_key s \<and> secchat_dir t = secchat_dir s \<and> uid t = uid s \<and> identity_pk t = identity_pk s
     \<and> identity_sk t = identity_sk s \<and> (\<forall>n. n \<noteq> mls_state_path \<longrightarrow> map_of (disk t) n = map_of (disk s) n))"

lemma mls_frame_refl [simp]: "mls_frame s s"
  by (simp add: mls_frame_def)

lemma frame_bridge: "preserves (mls_frame s) (bridge_command C cmd args)"
  unfolding bridge_command_def
  by (rule preserves_sbind) (auto simp: preserves_def bridge_start_def mls_frame_def Let_def)

lemma frame_save: "preserves (mls_frame s) (save_mls_state C)"
proof -
  have w: "preserves (mls_frame s) (write_sealed C mls_state_path t)" for t
    unfolding preserves_def
  proof (intro allI impI)
    fix u
    assume "mls_frame s u"
    then show "mls_frame s (snd (write_sealed C mls_state_path t u))"
      by (rule_tac write_sealed_effect [of C mls_state_path t u]) (simp add: mls_frame_def)
  qed
  let ?m = "sbind (bridge_export_state C) (\<lambda>snapshot.
     sbind (\<lambda>s. (mls_snapshot snapshot (mls_credential_identity_b64 s), s)) (\<lambda>payload.
     if dget payload ''state_b64'' JNull = JStr [] then sret () else write_sealed C mls_state_path (dumps_compact (JObj payload))))"
  have "preserves (mls_frame s) ?m"
    unfolding bridge_export_state_def by (intro preserves_sbind preserves_if frame_bridge w preserves_pure)
  then show ?thesis by (auto simp: preserves_def save_mls_state_def)
qed

lemma frame_load: "mls_frame s (snd (load_mls_state_into_bridge C s))"
proof -
  have smod: "preserves (mls_frame s) (smod f)" if "\<And>t. master_key (f t) = master_key t \<and> secchat_dir (f t) = secchat_dir t
      \<and> uid (f t) = uid t \<and> identity_pk (f t) = identity_pk t \<and> identity_sk (f t) = identity_sk t \<and> disk (f t) = disk t" for f
    using that by (intro preserves_smod) (simp add: mls_frame_def)
  have "preserves (mls_frame s) (import_mls_state C)"
    unfolding import_mls_state_def bridge_import_state_def Let_def
    by (intro preserves_sbind preserves_if frame_bridge preserves_pure smod) (simp_all add: make_bridge_def)
  then have i: "mls_frame s (snd (import_mls_state C s))" by (rule preservesD) simp
  then have "mls_frame s (discard_mls_state C (snd (import_mls_state C s)))"
    by (simp add: discard_mls_state_def mls_frame_def remove_file_def delete_conv')
  with i show ?thesis
    by (cases "import_mls_state C s") (auto simp: load_mls_state_into_bridge_def split: sum.splits)
qed

lemma load_backup_state_cong:
  "map_of (disk t) backup_state_path = map_of (disk s) backup_state_path \<Longrightarrow> master_key t = master_key s \<Longrightarrow>
   secchat_dir t = secchat_dir s \<Longrightarrow> load_backup_state C t = load_backup_state C s"
  by (simp add: load_backup_state_def can_store_def has_file_cong [of t backup_state_path s] read_sealed_json_def read_sealed_cong [of t backup_state_path s])

lemma frame_backup_state: "mls_frame s t \<Longrightarrow> load_backup_state C t = load_backup_state C s"
  by (rule load_backup_state_cong) (simp_all add: mls_frame_def mls_state_path_def backup_state_path_def)

subsection \<open>The record of known backups\<close>

text \<open>The shape every record written by the client has.\<close>

definition ledger_ok :: "dict \<Rightarrow> bool" where
  "ledger_ok d = (wire_ok (JObj d)
     \<and> (\<forall>k \<in> {''latest_generation'', ''latest_created_at'', ''restored_at'', ''revoked_before_generation''}. \<exists>i. dget d k (JInt 0) = JInt i)
     \<and> (\<forall>k \<in> {''latest_backup_id'', ''device_label''}. \<exists>l. dget d k (JStr []) = JStr l \<and> utf8_valid l)
     \<and> (\<exists>ids. dget d ''revoked_backup_ids'' (JArr []) = JArr (map JStr ids) \<and> list_all utf8_valid ids))"

lemma ledger_ok_empty: "ledger_ok []"
  by (simp add: ledger_ok_def dget_def exI [of _ "[]"])

lemma save_backup_run:
  assumes "key_ok C s" and "can_store s" and "wire_ok (JObj d)"
  obtains s' where "save_backup_state C d s = (Inr (), s')" and "load_backup_state C s' = d"
    and "s' = s\<lparr> tick := tick s + 1, disk := disk s' \<rparr>" and "\<And>n. n \<noteq> backup_state_path \<Longrightarrow> map_of (disk s') n = map_of (disk s) n"
proof -
  have u: "utf8_valid (dumps_compact (JObj d))" and j: "json_ok (JObj d)"
    using assms(3) by (simp_all add: wire_ok_def del: wire_ok_simps json_ok.simps json_text.simps)
  obtain s' where w: "write_sealed C backup_state_path (dumps_compact (JObj d)) s = (Inr (), s')"
    "stores C s' backup_state_path (dumps_compact (JObj d))" "s' = s\<lparr> tick := tick s + 1, disk := disk s' \<rparr>"
    "\<And>n. n \<noteq> backup_state_path \<Longrightarrow> map_of (disk s') n = map_of (disk s) n" by (rule write_stores [OF assms(1) u]) blast
  have "can_store s'" using assms(2) by (subst w(3)) (simp add: can_store_def)
  then have "load_backup_state C s' = d"
    using w(2) loads_dumps_compact [OF j] by (simp add: load_backup_state_def stores_def read_sealed_json_def del: json_ok.simps)
  moreover have "save_backup_state C d s = (Inr (), s')" using assms(2) w(1) by (simp add: save_backup_state_def)
  ultimately show ?thesis using that w(3,4) by blast
qed
lemmas ledger_dset = wire_ok_dset [OF _ _ ascii_utf8]

lemma remember_fields:
  "dget (remember_backup b label d) k v =
     (if k = ''latest_backup_id'' then JStr (b_id b) else if k = ''latest_generation'' then JInt (b_generation b)
      else if k = ''latest_created_at'' then JInt (b_created b) else if k = ''latest_device_label'' then JStr label
      else if k = ''latest_include_cache'' then JBool (b_cache b) else dget d k v)"
  by (auto simp: remember_backup_def)

lemma ledger_remember:
  assumes "ledger_ok d" and "utf8_valid (b_id b)" and "utf8_valid label"
  shows "ledger_ok (remember_backup b label d)"
proof -
  have "wire_ok (JObj (remember_backup b label d))"
    using assms unfolding ledger_ok_def remember_backup_def dupdate.simps
    by (intro ledger_dset) (auto simp: is_ascii_def)
  then show ?thesis using assms unfolding ledger_ok_def by (auto simp: remember_fields)
qed

lemma ledger_ints:
  assumes "ledger_ok d"
  obtains g c r v where "int_or_0 d ''latest_generation'' = Inr g" and "int_or_0 d ''latest_created_at'' = Inr c"
    and "int_or_0 d ''restored_at'' = Inr r" and "int_or_0 d ''revoked_before_generation'' = Inr v"
  using assms by (auto simp: ledger_ok_def int_or_0_def)

lemma ledger_list:
  assumes "ledger_ok d"
  shows "\<exists>xs. list_or_empty d ''revoked_backup_ids'' = Inr xs"
proof -
  obtain ids where "dget d ''revoked_backup_ids'' (JArr []) = JArr (map JStr ids)" using assms by (auto simp: ledger_ok_def)
  then have "dget d ''revoked_backup_ids'' JNull \<in> {JNull, JArr (map JStr ids)}" by (auto simp: dget_def split: option.splits)
  then show ?thesis by (auto simp: list_or_empty_def py_or_def)
qed

lemma revoked_texts: "dget d ''revoked_backup_ids'' (JArr []) = JArr (map JStr ids) \<Longrightarrow> revoked_ids d = Inr (set ids - {[]})"
proof -
  have "py_str ` {x \<in> JStr ` set ids. truthy x} = set ids - {[]}" by force
  then show "dget d ''revoked_backup_ids'' (JArr []) = JArr (map JStr ids) \<Longrightarrow> revoked_ids d = Inr (set ids - {[]})"
    by (simp add: revoked_ids_def)
qed

lemma ledger_revoked:
  assumes "ledger_ok d"
  obtains ids where "revoked_ids d = Inr (set ids)" and "list_all utf8_valid ids" and "[] \<notin> set ids"
proof -
  have "\<exists>ids. dget d ''revoked_backup_ids'' (JArr []) = JArr (map JStr ids) \<and> list_all utf8_valid ids"
    using assms by (simp add: ledger_ok_def)
  then obtain ids where ids: "dget d ''revoked_backup_ids'' (JArr []) = JArr (map JStr ids)" "list_all utf8_valid ids" by blast
  have "set ids - {[]} = set (filter (\<lambda>i. i \<noteq> []) ids)" by auto
  then show ?thesis using that [of "filter (\<lambda>i. i \<noteq> []) ids"] revoked_texts [OF ids(1)] ids(2) by (auto simp: list_all_iff)
qed

text \<open>Revoking adds the latest backup to the revoked ones and moves the bar up to its generation.\<close>

lemma mark_revoked_run:
  assumes "ledger_ok d"
  obtains d' ids before where "mark_revoked now d = Inr d'" and "ledger_ok d'" and "revoked_ids d' = Inr (set ids)"
    and "str_or_empty d ''latest_backup_id'' \<noteq> [] \<Longrightarrow> str_or_empty d ''latest_backup_id'' \<in> set ids"
    and "int_or_0 d' ''revoked_before_generation'' = Inr before"
proof -
  obtain g v where g: "dget d ''latest_generation'' (JInt 0) = JInt g" "dget d ''revoked_before_generation'' (JInt 0) = JInt v"
    using assms by (auto simp: ledger_ok_def)
  obtain l where l: "dget d ''latest_backup_id'' (JStr []) = JStr l" "utf8_valid l" using assms by (auto simp: ledger_ok_def)
  obtain old where old: "revoked_ids d = Inr (set old)" "list_all utf8_valid old" "[] \<notin> set old" by (rule ledger_revoked [OF assms])
  define ids where "ids = sorted_list_of_set (if l \<noteq> [] then insert l (set old) else set old)"
  define d1 where "d1 = dset d ''revoked_backup_ids'' (JArr (map JStr ids))"
  define d' where "d' = dset (dset d1 ''revoked_before_generation'' (JInt (max v g))) ''revoked_at'' (JInt now)"
  have set_ids: "set ids = (if l \<noteq> [] then insert l (set old) else set old)" by (simp add: ids_def)
  have ids: "list_all utf8_valid ids" using old(2) l(2) by (auto simp: list_all_iff set_ids)
  have run: "mark_revoked now d = Inr d'"
    by (simp add: mark_revoked_def int_or_0_def str_or_empty_def g l(1) old(1) Let_def ids_def [symmetric] d1_def d'_def)
  have f: "dget d' k v' = (if k = ''revoked_at'' then JInt now else if k = ''revoked_before_generation'' then JInt (max v g)
      else if k = ''revoked_backup_ids'' then JArr (map JStr ids) else dget d k v')" for k v'
    by (auto simp: d'_def d1_def)
  have "wire_ok (JObj d')"
    using assms ids unfolding ledger_ok_def d'_def d1_def
    by (intro ledger_dset) (auto simp: is_ascii_def list_all_iff)
  then have ok: "ledger_ok d'" using assms ids unfolding ledger_ok_def by (auto simp: f)
  have "revoked_ids d' = Inr (set ids - {[]})" by (rule revoked_texts) (simp add: f)
  moreover have "[] \<notin> set ids" using old(3) by (auto simp: set_ids split: if_splits)
  ultimately have "revoked_ids d' = Inr (set ids)" by simp
  moreover have "int_or_0 d' ''revoked_before_generation'' = Inr (max v g)" by (simp add: int_or_0_def f)
  moreover have "str_or_empty d ''latest_backup_id'' = l" by (simp add: str_or_empty_def l(1))
  moreover have "l \<noteq> [] \<Longrightarrow> l \<in> set ids" by (simp add: set_ids)
  ultimately show ?thesis using that [OF run ok] by blast
qed

subsection \<open>Exporting\<close>

text \<open>The key derivation gives AES-256 keys.\<close>

definition kdf_ok :: "crypto \<Rightarrow> bool" where
  "kdf_ok C = (\<forall>salt iterations p. length (pbkdf2_sha256 C salt iterations p) = 32)"

lemma hex_ascii [simp]: "is_ascii (to_hex b)"
proof -
  have "code (hex_digit n) < 128" if "n < 16" for n
    using that by (auto simp: hex_digit_def)
  then show ?thesis by (induction b) (auto simp: is_ascii_def)
qed

lemma fingerprint_run: "identity_pk s \<noteq> [] \<Longrightarrow> \<exists>fp. identity_backup_fingerprint C s = Inr fp \<and> is_ascii fp"
proof -
  have "is_ascii (take n (to_hex b))" for n b using hex_ascii [of b] by (auto simp: is_ascii_set dest: in_set_takeD)
  then show "identity_pk s \<noteq> [] \<Longrightarrow> \<exists>fp. identity_backup_fingerprint C s = Inr fp \<and> is_ascii fp"
    by (simp add: identity_backup_fingerprint_def)
qed

lemma new_backup_id_text: "sizes_ok C \<Longrightarrow> is_ascii (new_backup_id C t) \<and> new_backup_id C t \<noteq> []"
proof -
  assume "sizes_ok C"
  then have n: "length (os_random C t 18) = 18" by (rule sizes_okD)
  have b: "new_backup_id C t = b64e (os_random C t 18)" by (simp add: new_backup_id_def b64e_def)
  have "b64e (os_random C t 18) \<noteq> []"
  proof
    assume "b64e (os_random C t 18) = []"
    then have "b64d [] = Inr (os_random C t 18)" by (metis b64d_b64e)
    moreover have "b64d [] = Inr []" by code_simp
    ultimately show False using n by simp
  qed
  then show ?thesis by (simp add: b)
qed
text \<open>What the file says, given the backup's data, the salt and the nonce.\<close>

definition sealed_outer ::
  "crypto \<Rightarrow> string \<Rightarrow> backup_info \<Rightarrow> dict \<Rightarrow> (string \<times> bool \<times> json list) list \<Rightarrow> bytes \<Rightarrow> bytes \<Rightarrow> dict" where
  "sealed_outer C p b manifest files salt nonce = backup_outer b manifest salt nonce
     (aes_enc C (pbkdf2_sha256 C salt BACKUP_KDF_ITERS p) nonce (dumps_compact (JObj (backup_payload b manifest files)))
        (canonical_backup_manifest (JObj manifest)))"

text \<open>The texts in a backup's data can be written.\<close>

definition info_ok :: "backup_info \<Rightarrow> string \<Rightarrow> string \<Rightarrow> bool" where
  "info_ok b label fp = (b_id b \<noteq> [] \<and> utf8_valid (b_id b) \<and> utf8_valid (b_account b) \<and> utf8_valid label \<and> utf8_valid fp)"

lemma format_utf8: "utf8_valid BACKUP_FORMAT"
  by (intro ascii_utf8) (simp add: is_ascii_def BACKUP_FORMAT_def)

lemma manifest_wire: "info_ok b label fp \<Longrightarrow> wire_ok (JObj (backup_manifest b label fp files))"
  by (auto simp: backup_manifest_def info_ok_def format_utf8 is_ascii_def intro: ascii_utf8)

lemma outer_wire: "info_ok b label fp \<Longrightarrow> wire_ok (JObj m) \<Longrightarrow> wire_ok (JObj (backup_outer b m salt nonce ct))"
  by (auto simp: backup_outer_def info_ok_def format_utf8 ascii_utf8 [OF b64encode_ascii] is_ascii_def intro: ascii_utf8)

lemma seal_backup_run:
  assumes "key_ok C s" and "kdf_ok C" and "can_store s" and "ledger_ok (load_backup_state C s)" and "identity_pk s \<noteq> []"
    and "p \<noteq> []" and "utf8_valid account"
  obtains b label fp salt nonce s' where
    "seal_backup C p account include_cache files s =
       (Inr (dumps_compact (JObj (sealed_outer C p b (backup_manifest b label fp files) files salt nonce)), export_result b files), s')"
    and "info_ok b label fp" and "length nonce = 12" and "load_backup_state C s' = remember_backup b label (load_backup_state C s)"
    and "s' = s\<lparr> tick := tick s + 4, disk := disk s' \<rparr>" and "\<And>n. n \<noteq> backup_state_path \<Longrightarrow> map_of (disk s') n = map_of (disk s) n"
proof -
  let ?d = "load_backup_state C s"
  have sz: "sizes_ok C" using assms(1) by (simp add: key_ok_def)
  obtain g where g: "int_or_0 ?d ''latest_generation'' = Inr g" by (rule ledger_ints [OF assms(4)])
  obtain fp where fp: "identity_backup_fingerprint C (s\<lparr> tick := tick s + 1 \<rparr>) = Inr fp" "is_ascii fp"
    using fingerprint_run [of "s\<lparr> tick := tick s + 1 \<rparr>" C] assms(5) by auto
  let ?b = "\<lparr> b_id = new_backup_id C (tick s), b_generation = g + 1, b_created = now_s C s, b_account = account, b_user = uid s,
     b_cache = include_cache \<rparr>"
  define label where "label = py_str (py_or (dget ?d ''device_label'' (JStr [])) (JStr ''primary device''))"
  obtain l where l: "dget ?d ''device_label'' (JStr []) = JStr l" "utf8_valid l" using assms(4) by (auto simp: ledger_ok_def)
  have "utf8_valid ''primary device''" by (intro ascii_utf8) (simp add: is_ascii_def)
  then have "utf8_valid label" using l by (simp add: label_def py_or_def)
  then have info: "info_ok ?b label fp"
    using new_backup_id_text [OF sz] fp(2) assms(7) by (auto simp: info_ok_def)
  let ?u = "s\<lparr> tick := tick s + 1 + 2 \<rparr>"
  let ?salt = "os_random C (tick s + 1) 16"
  let ?nonce = "os_random C (tick s + 1 + 1) 12"
  have n: "length ?nonce = 12" using sz by (simp add: sizes_okD)
  let ?m = "backup_manifest ?b label fp files"
  have ct: "encrypt_backup C p ?salt ?nonce ?m (backup_payload ?b ?m files) =
      Inr (aes_enc C (pbkdf2_sha256 C ?salt BACKUP_KDF_ITERS p) ?nonce (dumps_compact (JObj (backup_payload ?b ?m files))) (canonical_backup_manifest (JObj ?m)))"
    using assms(2,6) n by (simp add: encrypt_backup_def backup_key_def kdf_ok_def aesgcm_encrypt_32)
  have "ledger_ok (remember_backup ?b label ?d)"
    by (rule ledger_remember [OF assms(4)]) (use info in \<open>simp_all add: info_ok_def\<close>)
  then have w: "wire_ok (JObj (remember_backup ?b label ?d))" by (simp add: ledger_ok_def del: wire_ok_simps)
  have "key_ok C ?u" "can_store ?u" using assms(1,3) by (simp_all add: key_ok_def can_store_def)
  then obtain s' where s': "save_backup_state C (remember_backup ?b label ?d) ?u = (Inr (), s')" "load_backup_state C s' = remember_backup ?b label ?d"
    "s' = ?u\<lparr> tick := tick ?u + 1, disk := disk s' \<rparr>" "\<And>n. n \<noteq> backup_state_path \<Longrightarrow> map_of (disk s') n = map_of (disk ?u) n"
    by (rule save_backup_run [OF _ _ w]) blast
  have "seal_backup C p account include_cache files s =
      (Inr (dumps_compact (JObj (sealed_outer C p ?b ?m files ?salt ?nonce)), export_result ?b files), s')"
    using g fp(1) ct s'(1)
    by (simp add: seal_backup_def sbind_def draw_def Let_def label_def [symmetric] sealed_outer_def)
  moreover have "s' = s\<lparr> tick := tick s + 4, disk := disk s' \<rparr>" by (subst s'(3)) simp
  ultimately show ?thesis using that [OF _ info n s'(2)] s'(4) by simp
qed
lemma report_ok: "backup_passphrase_report U p = (True, score, msg) \<Longrightarrow> p \<noteq> []"
  by (auto simp: backup_passphrase_report_def Let_def)

text \<open>The session an export seals from: the group state has been saved.\<close>

definition exporting :: "crypto \<Rightarrow> crypto_session \<Rightarrow> crypto_session" where
  "exporting C s = snd (save_mls_state C s)"

lemma exporting_frame: "mls_frame s (exporting C s)"
  unfolding exporting_def by (rule preservesD [OF frame_save]) simp

lemma save_mls_ok: "save_mls_state C s = (Inr (), exporting C s)"
  by (simp add: exporting_def save_mls_state_def)

lemma exporting_same:
  "master_key (exporting C s) = master_key s" "secchat_dir (exporting C s) = secchat_dir s" "identity_pk (exporting C s) = identity_pk s"
  "load_backup_state C (exporting C s) = load_backup_state C s"
  using exporting_frame [of s C] frame_backup_state [OF exporting_frame, of C] by (simp_all add: mls_frame_def)

text \<open>A login from which a backup can be made.\<close>

definition can_export :: "crypto \<Rightarrow> crypto_session \<Rightarrow> bool" where
  "can_export C s = (key_ok C s \<and> kdf_ok C \<and> can_store s \<and> ledger_ok (load_backup_state C s) \<and> identity_pk s \<noteq> [])"

lemma export_run:
  assumes "can_export C s" and "fst (backup_passphrase_report U p)" and "utf8_valid account"
    and "collect_files C (exporting C s) (state_files_for_backup include_cache (exporting C s)) = Inr files"
  obtains b label fp salt nonce s' where
    "export_e2ee_backup C U p account include_cache s =
       (Inr (dumps_compact (JObj (sealed_outer C p b (backup_manifest b label fp files) files salt nonce)), export_result b files), s')"
    and "info_ok b label fp" and "length nonce = 12" and "load_backup_state C s' = remember_backup b label (load_backup_state C s)"
    and "master_key s' = master_key s" and "secchat_dir s' = secchat_dir s" and "p \<noteq> []"
proof -
  obtain score msg where rep: "backup_passphrase_report U p = (True, score, msg)"
    using assms(2) by (cases "backup_passphrase_report U p") auto
  have "key_ok C (exporting C s)" "kdf_ok C" "can_store (exporting C s)" "ledger_ok (load_backup_state C (exporting C s))" "identity_pk (exporting C s) \<noteq> []"
    using assms(1) by (simp_all add: can_export_def key_ok_def can_store_def exporting_same)
  then obtain b label fp salt nonce s' where
    e: "seal_backup C p account include_cache files (exporting C s) =
       (Inr (dumps_compact (JObj (sealed_outer C p b (backup_manifest b label fp files) files salt nonce)), export_result b files), s')"
    "info_ok b label fp" "length nonce = 12" "load_backup_state C s' = remember_backup b label (load_backup_state C (exporting C s))"
    "s' = (exporting C s)\<lparr> tick := tick (exporting C s) + 4, disk := disk s' \<rparr>"
    by (rule seal_backup_run [OF _ _ _ _ _ report_ok [OF rep] assms(3)])
  have "export_e2ee_backup C U p account include_cache s =
       (Inr (dumps_compact (JObj (sealed_outer C p b (backup_manifest b label fp files) files salt nonce)), export_result b files), s')"
    using assms(1,4) e(1) rep by (simp add: export_e2ee_backup_def can_export_def sbind_def save_mls_ok)
  moreover have "master_key s' = master_key s" "secchat_dir s' = secchat_dir s" by (subst e(5), simp add: exporting_same)+
  ultimately show ?thesis using that e(2-4) report_ok [OF rep] by (simp add: exporting_same)
qed

subsection \<open>Reading the header back\<close>

lemma read_header_dumps:
  assumes "wire_ok (JObj outer)" and "dget outer ''format'' JNull = JStr BACKUP_FORMAT" and "dget outer ''manifest'' JNull = JObj m"
  shows "read_header_file (dumps_compact (JObj outer)) = Inr (outer, JObj m)"
proof -
  have "utf8_valid (dumps_compact (JObj outer))" "loads (dumps_compact (JObj outer)) = Inr (JObj outer)"
    using assms(1) by (simp_all add: wire_ok_def del: wire_ok_simps json_ok.simps json_text.simps)
  then show ?thesis using assms(2,3) by (simp add: read_header_file_def utf8_decode_def)
qed

lemma outer_fields:
  "dget (backup_outer b m salt nonce ct) ''format'' v = JStr BACKUP_FORMAT" "dget (backup_outer b m salt nonce ct) ''manifest'' v = JObj m"
  "dget (backup_outer b m salt nonce ct) ''backup_id'' v = JStr (b_id b)" "dget (backup_outer b m salt nonce ct) ''generation'' v = JInt (b_generation b)"
  "dget (backup_outer b m salt nonce ct) ''iterations'' v = JInt BACKUP_KDF_ITERS"
  "dkey (backup_outer b m salt nonce ct) ''salt'' = Inr (JStr (b64encode salt))" "dkey (backup_outer b m salt nonce ct) ''nonce'' = Inr (JStr (b64encode nonce))"
  "dkey (backup_outer b m salt nonce ct) ''ciphertext'' = Inr (JStr (b64encode ct))"
  by (simp_all add: backup_outer_def dget_def)

lemma header_generation:
  assumes "m = backup_manifest b label fp files"
  shows "rbind (header_field (backup_outer b m salt nonce ct) (JObj m) ''generation'' (JInt 0)) py_int = Inr (b_generation b)"
proof -
  have "dget m ''generation'' (JInt 0) = JInt (b_generation b)" by (simp add: assms backup_manifest_def dget_def)
  then show ?thesis by (simp add: header_field_def outer_fields Let_def)
qed

lemma header_backup_id: "b_id b \<noteq> [] \<Longrightarrow> header_field (backup_outer b m salt nonce ct) (JObj m) ''backup_id'' (JStr []) = Inr (JStr (b_id b))"
  by (simp add: header_field_def outer_fields)

text \<open>What remains once the header is read: the revocation check, the decryption and the check of the payload.\<close>

lemma restore_prologue:
  assumes "can_store s" and "read_header_file t = Inr (outer, manifest)"
    and "header_field outer manifest ''backup_id'' (JStr []) = Inr bid" and "rbind (header_field outer manifest ''generation'' (JInt 0)) py_int = Inr g"
  shows "restore_e2ee_backup C t p overwrite preserve s =
    (case check_not_revoked (load_backup_state C s) (py_str bid) g of
       Inl e \<Rightarrow> (Inl e, s)
     | Inr _ \<Rightarrow>
         (case rbind (decrypt_backup C p outer manifest) (\<lambda>payload. rbind (check_payload payload manifest) (\<lambda>_. Inr payload)) of
            Inl e \<Rightarrow> (Inl e, s)
          | Inr payload \<Rightarrow> restore_payload C overwrite preserve manifest payload (py_str bid) g s))"
  using assms by (simp add: restore_e2ee_backup_def sbind_def Let_def rbind_def split: sum.splits)

subsection \<open>Revocation\<close>

text \<open>
  C9: (error) A backup revoked on a device is refused there: after \<open>revoke_local_backups\<close> the backup the
  login exported last is rejected by \<open>restore_e2ee_backup\<close>, with the message that says so, whatever
  passphrase and options are given, and the session is left as it was.
\<close>

theorem revoked_backup_refused:
  assumes "can_export C s" and "fst (backup_passphrase_report U p)" and "utf8_valid account"
    and "collect_files C (exporting C s) (state_files_for_backup include_cache (exporting C s)) = Inr files"
  shows "\<exists>t r s1 st s2. export_e2ee_backup C U p account include_cache s = (Inr (t, r), s1) \<and> revoke_local_backups C s1 = (Inr st, s2)
    \<and> restore_e2ee_backup C t q overwrite preserve s2
      = (Inl (CryptoStateError ''This backup was revoked on this device and will not be restored.''), s2)"
proof -
  obtain b label fp salt nonce s1 where e: "export_e2ee_backup C U p account include_cache s =
       (Inr (dumps_compact (JObj (sealed_outer C p b (backup_manifest b label fp files) files salt nonce)), export_result b files), s1)"
    "info_ok b label fp" "load_backup_state C s1 = remember_backup b label (load_backup_state C s)"
    "master_key s1 = master_key s" "secchat_dir s1 = secchat_dir s" by (rule export_run [OF assms]) blast
  let ?m = "backup_manifest b label fp files"
  have led: "ledger_ok (load_backup_state C s1)"
    unfolding e(3) by (rule ledger_remember) (use assms(1) e(2) in \<open>simp_all add: can_export_def info_ok_def\<close>)
  have id: "str_or_empty (load_backup_state C s1) ''latest_backup_id'' = b_id b"
    by (simp add: str_or_empty_def e(3) remember_fields)
  obtain d ids before where d: "mark_revoked (now_s C s1) (load_backup_state C s1) = Inr d" "ledger_ok d" "revoked_ids d = Inr (set ids)"
    "b_id b \<in> set ids" "int_or_0 d ''revoked_before_generation'' = Inr before"
    by (rule mark_revoked_run [OF led, of "now_s C s1"]) (use e(2) id in \<open>simp add: info_ok_def\<close>)
  have k: "key_ok C s1" "can_store s1" using assms(1) e(4,5) by (simp_all add: can_export_def key_ok_def can_store_def)
  have "wire_ok (JObj d)" using d(2) by (simp add: ledger_ok_def del: wire_ok_simps)
  then obtain s2 where s2: "save_backup_state C d s1 = (Inr (), s2)" "load_backup_state C s2 = d" "s2 = s1\<lparr> tick := tick s1 + 1, disk := disk s2 \<rparr>"
    by (rule save_backup_run [OF k])
  have c2: "can_store s2" using k(2) by (subst s2(3)) (simp add: can_store_def)
  have "\<exists>st. get_backup_status C s2 = Inr st"
  proof -
    obtain g c v w where "int_or_0 d ''latest_generation'' = Inr g" "int_or_0 d ''latest_created_at'' = Inr c"
      "int_or_0 d ''restored_at'' = Inr v" "int_or_0 d ''revoked_before_generation'' = Inr w" by (rule ledger_ints [OF d(2)])
    moreover have "\<exists>xs. list_or_empty d ''revoked_backup_ids'' = Inr xs" by (rule ledger_list [OF d(2)])
    ultimately show ?thesis by (auto simp: get_backup_status_def s2(2) Let_def)
  qed
  then obtain st where "revoke_local_backups C s1 = (Inr st, s2)"
    by (auto simp: revoke_local_backups_def sbind_def d(1) s2(1))
  moreover have "restore_e2ee_backup C (dumps_compact (JObj (sealed_outer C p b ?m files salt nonce))) q overwrite preserve s2
      = (Inl (CryptoStateError ''This backup was revoked on this device and will not be restored.''), s2)"
  proof -
    note w = outer_wire [OF e(2) manifest_wire [OF e(2)]]
    note h = read_header_dumps [OF w outer_fields(1,2)]
    have "b_id b \<noteq> []" using e(2) by (simp add: info_ok_def)
    note restore_prologue [where p = q and C = C and overwrite = overwrite and preserve = preserve,
        OF c2 h header_backup_id [OF this] header_generation [OF refl]]
    then show ?thesis using d(3-5) \<open>b_id b \<noteq> []\<close> by (simp add: sealed_outer_def s2(2) check_not_revoked_def)
  qed
  ultimately show ?thesis using e(1) by blast
qed

text \<open>A backup whose id and generation were overwritten outside the encryption.\<close>

definition edited_outer :: "string \<Rightarrow> int \<Rightarrow> dict \<Rightarrow> dict" where
  "edited_outer x g outer = dset (dset outer ''backup_id'' (JStr x)) ''generation'' (JInt g)"

lemma edited_fields:
  "k \<noteq> ''backup_id'' \<Longrightarrow> k \<noteq> ''generation'' \<Longrightarrow> dget (edited_outer x g outer) k v = dget outer k v"
  "k \<noteq> ''backup_id'' \<Longrightarrow> k \<noteq> ''generation'' \<Longrightarrow> dkey (edited_outer x g outer) k = dkey outer k"
  by (auto simp: edited_outer_def dkey_def update_conv')

text \<open>
  C10: (safety) The revocation list is checked against fields that the passphrase does not protect. Take a backup
  file that decrypts under the passphrase: writing another id and another generation over the outer
  fields leaves the manifest, the key and the ciphertext as they were, so the file still decrypts, and
  it is restored as long as the new values are not on the list, although the manifest inside still
  carries the revoked id.
\<close>

theorem edited_backup_evades_revocation:
  assumes "can_store s" and "wire_ok (JObj outer)" and "read_header_file (dumps_compact (JObj outer)) = Inr (outer, JObj m)" and "m \<noteq> []"
    and "rbind (decrypt_backup C p outer (JObj m)) (\<lambda>payload. rbind (check_payload payload (JObj m)) (\<lambda>_. Inr payload)) = Inr payload"
    and "x \<noteq> []" and "utf8_valid x" and "g \<noteq> 0" and "check_not_revoked (load_backup_state C s) x g = Inr ()"
  shows "restore_e2ee_backup C (dumps_compact (JObj (edited_outer x g outer))) p overwrite preserve s
    = restore_payload C overwrite preserve (JObj m) payload x g s"
proof -
  let ?o = "edited_outer x g outer"
  have fmt: "dget outer ''format'' JNull = JStr BACKUP_FORMAT" "py_or (dget outer ''manifest'' JNull) (JObj []) = JObj m"
    using assms(2,3) by (auto simp: read_header_file_def wire_ok_def utf8_decode_def simp del: wire_ok_simps json_ok.simps json_text.simps)
  have man: "dget outer ''manifest'' JNull = JObj m" using fmt(2) assms(4) by (auto simp: py_or_def split: if_splits)
  have "wire_ok (JObj ?o)" unfolding edited_outer_def using assms(2,7) by (intro ledger_dset) (auto simp: is_ascii_def)
  then have h: "read_header_file (dumps_compact (JObj ?o)) = Inr (?o, JObj m)"
    by (rule read_header_dumps) (simp_all add: edited_fields fmt(1) man)
  have "decrypt_backup C p ?o (JObj m) = decrypt_backup C p outer (JObj m)"
    by (simp add: decrypt_backup_def edited_fields)
  moreover have "header_field ?o (JObj m) ''backup_id'' (JStr []) = Inr (JStr x)"
    "rbind (header_field ?o (JObj m) ''generation'' (JInt 0)) py_int = Inr g"
    using assms(6,8) by (simp_all add: header_field_def edited_outer_def Let_def)
  ultimately show ?thesis using restore_prologue [OF assms(1) h] assms(5,9) by simp
qed
subsection \<open>The files of a backup\<close>

lemma allowed_names:
  assumes "backup_name_allowed n"
  shows "basename n = n" and "\<not> ends_with n ''.tmp''" and "n \<noteq> backup_state_path"
proof -
  show "basename n = n" using assms by (auto simp: backup_name_allowed_def Let_def split: if_splits)
  have ex: "list_ex (\<lambda>p. glob_match p n) BACKUP_PATTERNS" using assms by (auto simp: backup_name_allowed_def Let_def split: if_splits)
  have g: "glob_match ''identity_sk.bin'' n \<longleftrightarrow> n = ''identity_sk.bin''" "glob_match ''pqxdh_prekeys.bin'' n \<longleftrightarrow> n = ''pqxdh_prekeys.bin''"
    "glob_match ''auditor_state.bin'' n \<longleftrightarrow> n = ''auditor_state.bin''" "glob_match ''cache_policy.bin'' n \<longleftrightarrow> n = ''cache_policy.bin''"
    by (intro glob_star_free; simp)+
  consider "glob_match ''identity_sk.bin'' n" | "glob_match ''pqxdh_prekeys.bin'' n" | "glob_match ''dr_*.bin'' n" | "glob_match ''mls_*.bin'' n"
    | "glob_match ''verified_*.bin'' n" | "glob_match ''identity_audit_*.bin'' n" | "glob_match ''auditor_state.bin'' n"
    | "glob_match ''cache_policy.bin'' n" | "glob_match ''transcript_*.bin'' n" | "glob_match ''msgs_*.bin'' n"
    using ex unfolding BACKUP_PATTERNS_def list_ex_iff list.set bex_simps by metis
  then have "ends_with n ''.bin'' \<and> hd n \<noteq> CHR ''b''"
    unfolding g state_globs by cases (auto simp: ends_with_def)
  then show "\<not> ends_with n ''.tmp''" "n \<noteq> backup_state_path" by (auto simp: ends_with_def backup_state_path_def)
qed

lemma backup_files:
  assumes "(n, m) \<in> set (state_files_for_backup include_cache s)"
  shows "backup_name_allowed n" and "m = starts_with n ''msgs_''" and "has_file n s"
  using assms by (auto simp: state_files_for_backup_def files_matching_def has_file_def dhas_def map_of_eq_None_iff image_iff
      simp del: glob_match.simps split: if_splits)

lemma backup_files_distinct: "distinct (map fst (state_files_for_backup include_cache s))"
  by (simp add: state_files_for_backup_def o_def)

text \<open>What a file holds under the key of its session, read the way an export reads it.\<close>

definition held :: "crypto \<Rightarrow> crypto_session \<Rightarrow> string \<Rightarrow> json list res option" where
  "held C s n = map_option (backup_entries C (master_key s) (starts_with n ''msgs_'')) (map_of (disk s) n)"

definition sound_file :: "crypto \<Rightarrow> crypto_session \<Rightarrow> string \<Rightarrow> bool" where
  "sound_file C s n = (utf8_valid n \<and> (\<exists>ps. held C s n = Some (Inr (map JStr ps)) \<and> list_all utf8_valid ps))"

text \<open>A file of a payload: nonempty texts, one of them when the file is not kept line by line.\<close>

definition packed :: "string \<times> bool \<times> json list \<Rightarrow> bool" where
  "packed f = (case f of (n, m, es) \<Rightarrow> utf8_valid n \<and> backup_name_allowed n \<and> m = starts_with n ''msgs_''
     \<and> (\<exists>ps. es = map JStr ps \<and> list_all utf8_valid ps \<and> ps \<noteq> [] \<and> (m \<or> length ps \<le> 1)))"

lemma rmap_length: "rmap f xs = Inr ys \<Longrightarrow> length ys = length xs"
  by (induction xs arbitrary: ys) auto

lemma held_single: "held C s n = Some (Inr es) \<Longrightarrow> starts_with n ''msgs_'' \<or> length es \<le> 1"
proof (cases "starts_with n ''msgs_''")
  case False
  assume "held C s n = Some (Inr es)"
  with False obtain t where "backup_entries C (master_key s) False t = Inr es" by (auto simp: held_def)
  then have "length es = length (backup_tokens False t)" unfolding backup_entries_def by (rule rmap_length)
  then show ?thesis by (simp add: backup_tokens_def)
qed simp

lemma collect_run:
  assumes "\<forall>f \<in> set srcs. backup_name_allowed (fst f) \<and> snd f = starts_with (fst f) ''msgs_'' \<and> sound_file C s (fst f)" and "distinct (map fst srcs)"
  shows "\<exists>files. collect_files C s srcs = Inr files \<and> list_all packed files \<and> distinct (map fst files)
    \<and> fst ` set files \<subseteq> fst ` set srcs \<and> (\<forall>n m es. (n, m, es) \<in> set files \<longrightarrow> held C s n = Some (Inr es))
    \<and> (\<forall>n \<in> fst ` set srcs. n \<notin> fst ` set files \<longrightarrow> held C s n = Some (Inr []))"
  using assms
proof (induction srcs)
  case (Cons f srcs)
  obtain n m where f: "f = (n, m)" by (cases f)
  have n: "backup_name_allowed n" "m = starts_with n ''msgs_''" "sound_file C s n" using Cons.prems(1) by (simp_all add: f)
  then obtain ps where ps: "held C s n = Some (Inr (map JStr ps))" "list_all utf8_valid ps" and u: "utf8_valid n" unfolding sound_file_def by blast
  then obtain t where t: "map_of (disk s) n = Some t" "backup_entries C (master_key s) m t = Inr (map JStr ps)" by (auto simp: held_def n(2))
  obtain files where i: "collect_files C s srcs = Inr files" "list_all packed files" "distinct (map fst files)"
    "fst ` set files \<subseteq> fst ` set srcs" "\<forall>n m es. (n, m, es) \<in> set files \<longrightarrow> held C s n = Some (Inr es)"
    "\<forall>n \<in> fst ` set srcs. n \<notin> fst ` set files \<longrightarrow> held C s n = Some (Inr [])"
    using Cons.IH Cons.prems by auto
  have new: "n \<notin> fst ` set files" using Cons.prems(2) i(4) by (auto simp: f)
  show ?case
  proof (cases "ps = []")
    case True
    then have "collect_files C s (f # srcs) = Inr files" using t i(1) by (simp add: f opt_res_def)
    moreover have "held C s n = Some (Inr [])" using ps(1) True by simp
    ultimately show ?thesis using i(2-6) by (intro exI [of _ files]) (auto simp: f)
  next
    case False
    then have "collect_files C s (f # srcs) = Inr ((n, m, map JStr ps) # files)" using t i(1) by (simp add: f opt_res_def)
    moreover have "packed (n, m, map JStr ps)" using n u ps(2) False held_single [OF ps(1)] by (auto simp: packed_def)
    ultimately show ?thesis using i(2-6) ps(1) new by (intro exI [of _ "(n, m, map JStr ps) # files"]) (auto simp: f)
  qed
qed simp
subsection \<open>Writing them back\<close>

lemma smap_seal: "smap (seal C) ps s = smap (\<lambda>p. seal_value C (master_key s) (JStr p)) ps s"
proof -
  have "master_key s = key \<Longrightarrow> smap (seal C) ps s = smap (\<lambda>p. seal_value C key (JStr p)) ps s" for key
  proof (induction ps arbitrary: s)
    case (Cons p ps)
    have one: "seal C p s = seal_value C key (JStr p) s"
      using Cons.prems by (simp add: seal_def seal_value_def encrypt_with_key_def Let_def)
    show ?case
    proof (cases "fst (seal_value C key (JStr p) s)")
      case (Inl e)
      then have "seal_value C key (JStr p) s = (Inl e, snd (seal_value C key (JStr p) s))" by (metis prod.collapse)
      then show ?thesis using one by (simp add: sbind_err)
    next
      case (Inr token)
      then have "seal_value C key (JStr p) s = (Inr token, s\<lparr> tick := tick s + 1 \<rparr>)" by (auto simp: seal_value_def)
      then show ?thesis using one Cons.IH [of "s\<lparr> tick := tick s + 1 \<rparr>"] Cons.prems by (simp add: sbind_def)
    qed
  qed simp
  then show ?thesis by blast
qed

lemma backup_entries_sealed:
  assumes "list_all clean_token toks" and "line_mode \<or> length toks \<le> 1"
  shows "backup_entries C key line_mode (sealed_text line_mode toks) = rmap (\<lambda>token. decrypt_with_key C key token None) toks"
proof (cases line_mode)
  case True
  then show ?thesis by (simp add: backup_entries_def backup_tokens_def sealed_text_def token_lines_cache_text [OF assms(1)])
next
  case False
  then consider "toks = []" | t where "toks = [t]" using assms(2) by (cases toks) auto
  then show ?thesis
    by cases (use False assms(1) clean_token_props in \<open>auto simp: backup_entries_def backup_tokens_def sealed_text_def strip_def\<close>)
qed

lemma restore_item_run:
  assumes "key_ok C s" and "packed (n, m, es)"
  obtains tally' k d where "restore_item C True False (file_json (n, m, es)) tally s = (Inr tally', s\<lparr> tick := k, disk := d \<rparr>)"
    and "\<And>t. disk t = d \<Longrightarrow> master_key t = master_key s \<Longrightarrow> held C t n = Some (Inr es)"
    and "\<And>n'. n' \<noteq> n \<Longrightarrow> \<not> ends_with n' ''.tmp'' \<Longrightarrow> map_of d n' = map_of (disk s) n'"
proof -
  obtain ps where p: "es = map JStr ps" "list_all utf8_valid ps" "m \<or> length ps \<le> 1" and n: "backup_name_allowed n" "m = starts_with n ''msgs_''"
    using assms(2) by (auto simp: packed_def)
  have "can_seal C (master_key s)" using assms(1) by (simp add: can_seal_def key_ok_def)
  then obtain toks where toks: "smap (\<lambda>p. seal_value C (master_key s) (JStr p)) ps s = (Inr toks, s\<lparr> tick := tick s + length ps \<rparr>)"
    "list_all clean_token toks" "length toks = length ps"
    "rmap (\<lambda>token. decrypt_with_key C (master_key s) token None) toks = Inr (map JStr ps)" by (rule seal_all [OF _ p(2)])
  obtain a b c where tally: "tally = (a, b, c)" by (cases tally) auto
  let ?d = "dset (dpop (disk s) (n @ ''.tmp'')) n (sealed_text m toks)"
  have texts: "map py_str es = ps" by (simp add: p(1) o_def)
  have "restore_item C True False (file_json (n, m, es)) tally s =
      (Inr (a + 1, b + int (length toks), c), s\<lparr> tick := tick s + length ps, disk := ?d \<rparr>)"
    using n(1) allowed_names(1) [OF n(1)] toks(1)
    by (simp add: restore_item_def file_json_def tally dget_def Let_def texts restore_entries_def sbind_def smap_seal
        replace_file_def write_file_def remove_file_def)
  moreover have "held C t n = Some (Inr es)" if "disk t = ?d" "master_key t = master_key s" for t
    using that backup_entries_sealed [OF toks(2), of m] p(1,3) toks(3,4) by (simp add: held_def update_conv' n(2) [symmetric])
  moreover have "map_of ?d n' = map_of (disk s) n'" if "n' \<noteq> n" "\<not> ends_with n' ''.tmp''" for n'
    using that by (auto simp: update_conv' delete_conv' ends_with_def)
  ultimately show ?thesis using that [of "(a + 1, b + int (length toks), c)" ?d "tick s + length ps"] by blast
qed

lemma restore_files_run:
  assumes "key_ok C s" and "list_all packed files" and "distinct (map fst files)"
  shows "\<exists>tally' k d. sfold (restore_item C True False) (map file_json files) tally s = (Inr tally', s\<lparr> tick := k, disk := d \<rparr>)
    \<and> (\<forall>n m es t. (n, m, es) \<in> set files \<longrightarrow> disk t = d \<longrightarrow> master_key t = master_key s \<longrightarrow> held C t n = Some (Inr es))
    \<and> (\<forall>n. n \<notin> fst ` set files \<longrightarrow> \<not> ends_with n ''.tmp'' \<longrightarrow> map_of d n = map_of (disk s) n)"
  using assms
proof (induction files arbitrary: s tally)
  case Nil
  show ?case by (intro exI [of _ tally] exI [of _ "tick s"] exI [of _ "disk s"]) simp
next
  case (Cons f files)
  obtain n m es where f: "f = (n, m, es)" by (cases f)
  have n: "packed (n, m, es)" "n \<notin> fst ` set files" using Cons.prems by (auto simp: f)
  have tmp: "\<not> ends_with n ''.tmp''" using n(1) allowed_names(2) by (auto simp: packed_def)
  obtain tally1 k d where r: "restore_item C True False (file_json (n, m, es)) tally s = (Inr tally1, s\<lparr> tick := k, disk := d \<rparr>)"
    "\<And>t. disk t = d \<Longrightarrow> master_key t = master_key s \<Longrightarrow> held C t n = Some (Inr es)"
    "\<And>n'. n' \<noteq> n \<Longrightarrow> \<not> ends_with n' ''.tmp'' \<Longrightarrow> map_of d n' = map_of (disk s) n'" by (rule restore_item_run [OF Cons.prems(1) n(1)]) blast
  let ?s = "s\<lparr> tick := k, disk := d \<rparr>"
  have "key_ok C ?s" using Cons.prems(1) by (simp add: key_ok_def)
  then obtain tally2 k' d' where i: "sfold (restore_item C True False) (map file_json files) tally1 ?s = (Inr tally2, ?s\<lparr> tick := k', disk := d' \<rparr>)"
    "\<forall>n m es t. (n, m, es) \<in> set files \<longrightarrow> disk t = d' \<longrightarrow> master_key t = master_key s \<longrightarrow> held C t n = Some (Inr es)"
    "\<forall>n. n \<notin> fst ` set files \<longrightarrow> \<not> ends_with n ''.tmp'' \<longrightarrow> map_of d' n = map_of d n"
    using Cons.IH [of ?s tally1] Cons.prems by auto
  have same: "map_of d' n = map_of d n" using i(3) n(2) tmp by blast
  have first: "held C t n = Some (Inr es)" if "disk t = d'" "master_key t = master_key s" for t
    using r(2) [of "t\<lparr> disk := d \<rparr>"] that same by (simp add: held_def)
  have "sfold (restore_item C True False) (map file_json (f # files)) tally s = (Inr tally2, s\<lparr> tick := k', disk := d' \<rparr>)"
    using r(1) i(1) by (simp add: f sbind_def)
  moreover have "\<forall>n' m' es' t. (n', m', es') \<in> set (f # files) \<longrightarrow> disk t = d' \<longrightarrow> master_key t = master_key s \<longrightarrow> held C t n' = Some (Inr es')"
    using first i(2) by (auto simp: f)
  moreover have "\<forall>n'. n' \<notin> fst ` set (f # files) \<longrightarrow> \<not> ends_with n' ''.tmp'' \<longrightarrow> map_of d' n' = map_of (disk s) n'"
    using i(3) r(3) by (simp add: f)
  ultimately show ?case by blast
qed
subsection \<open>Opening the file again\<close>

lemma file_json_wire: "packed f \<Longrightarrow> wire_ok (file_json f)"
  by (cases f) (auto simp: packed_def file_json_def list_all_iff is_ascii_def intro: ascii_utf8)

lemma payload_wire: "info_ok b label fp \<Longrightarrow> wire_ok (JObj m) \<Longrightarrow> list_all packed files \<Longrightarrow> wire_ok (JObj (backup_payload b m files))"
  using file_json_wire
  by (auto simp: backup_payload_def info_ok_def format_utf8 is_ascii_def list_all_iff intro: ascii_utf8)

lemma backup_payload_fields:
  "dget (backup_payload b m files) ''format'' v = JStr BACKUP_FORMAT" "dget (backup_payload b m files) ''version'' v = JInt BACKUP_VERSION"
  "dget (backup_payload b m files) ''manifest'' v = JObj m" "dget (backup_payload b m files) ''files'' v = JArr (map file_json files)"
  "dget (backup_payload b m files) ''user_id'' v = JInt (b_user b)" "dget (backup_payload b m files) ''created_at'' v = JInt (b_created b)"
  by (simp_all add: backup_payload_def dget_def)

lemma manifest_eq: "py_eq (JObj (backup_manifest b label fp files)) (JObj (backup_manifest b label fp files))"
  by (simp add: py_eq.simps backup_manifest_def num_parts_def num_eq_def)

lemma decrypt_exported:
  assumes "aead_ok C" and "kdf_ok C" and "p \<noteq> []" and "length nonce = 12" and "info_ok b label fp" and "list_all packed files"
    and "m = backup_manifest b label fp files"
  shows "rbind (decrypt_backup C p (sealed_outer C p b m files salt nonce) (JObj m)) (\<lambda>payload. rbind (check_payload payload (JObj m)) (\<lambda>_. Inr payload))
    = Inr (backup_payload b m files)"
proof -
  let ?pl = "backup_payload b m files"
  have w: "wire_ok (JObj m)" using manifest_wire [OF assms(5)] assms(7) by blast
  have "utf8_valid (dumps_compact (JObj ?pl))" "loads (dumps_compact (JObj ?pl)) = Inr (JObj ?pl)"
    using payload_wire [OF assms(5) w assms(6)] by (simp_all add: wire_ok_def del: wire_ok_simps json_ok.simps json_text.simps)
  moreover have "m \<noteq> []" using assms(7) by (simp add: backup_manifest_def)
  moreover have "aes_dec C k nonce (aes_enc C k nonce pt a) a = Some pt" for k pt a using assms(1) unfolding aead_ok_def by blast
  ultimately have "decrypt_backup C p (sealed_outer C p b m files salt nonce) (JObj m) = Inr ?pl"
    using assms(2-4)
    by (simp add: decrypt_backup_def sealed_outer_def outer_fields unb64_def backup_key_def aesgcm_decrypt_def kdf_ok_def utf8_decode_def opt_res_def)
  moreover have "check_payload ?pl (JObj m) = Inr ()"
    using manifest_eq assms(7)
    by (simp add: check_payload_def backup_payload_fields int_or_0_def py_or_def BACKUP_VERSION_def BACKUP_MIN_VERSION_def)
  ultimately show ?thesis by simp
qed

subsection \<open>Reloading the session\<close>

lemma policy_frame:
  obtains r where "load_cache_policy C s = (Inr r, snd (load_cache_policy C s))" and "disk (snd (load_cache_policy C s)) = disk s"
    and "master_key (snd (load_cache_policy C s)) = master_key s" and "secchat_dir (snd (load_cache_policy C s)) = secchat_dir s"
proof -
  let ?P = "\<lambda>t. disk t = disk s \<and> master_key t = master_key s \<and> secchat_dir t = secchat_dir s"
  have "preserves ?P (read_cache_policy C)"
    unfolding read_cache_policy_def by (intro preserves_sbind preserves_pure preserves_smod) simp_all
  then have "?P (snd (read_cache_policy C s))" by (rule preservesD) simp
  then have p: "?P (snd (load_cache_policy C s))" by (simp add: load_cache_policy_def sbind_def)
  have "\<exists>r. fst (load_cache_policy C s) = Inr r" by (simp add: load_cache_policy_def sbind_def)
  then obtain r where "load_cache_policy C s = (Inr r, snd (load_cache_policy C s))" by (metis prod.collapse)
  with p show ?thesis by (intro that) auto
qed

lemma held_stores: "held C s n = Some (Inr [JStr p]) \<Longrightarrow> \<not> starts_with n ''msgs_'' \<Longrightarrow> stores C s n p"
  by (auto simp: held_def backup_entries_def backup_tokens_def stores_def has_file_def dhas_def read_sealed_def unseal_text_def
      open_at_rest_def as_str_def split: if_splits)

lemma held_cong: "map_of (disk t) n = map_of (disk s) n \<Longrightarrow> master_key t = master_key s \<Longrightarrow> held C t n = held C s n"
  by (simp add: held_def)

lemma restored_ledger:
  assumes "ledger_ok d" and "m = backup_manifest b label fp files"
  shows "\<exists>d'. restored_state bid g now (JObj m) (backup_payload b m files) d = Inr d'"
proof -
  obtain lg c where "int_or_0 d ''latest_generation'' = Inr lg" "int_or_0 d ''latest_created_at'' = Inr c" by (rule ledger_ints [OF assms(1)])
  moreover have "dget m ''created_at'' v = JInt (b_created b)" for v by (simp add: assms(2) backup_manifest_def dget_def)
  ultimately show ?thesis by (simp add: restored_state_def Let_def)
qed

lemma save_backup_effect:
  obtains s' where "save_backup_state C d s = (Inr (), s')" and "master_key s' = master_key s" and "identity_sk s' = identity_sk s"
    and "\<And>n. n \<noteq> backup_state_path \<Longrightarrow> map_of (disk s') n = map_of (disk s) n"
proof (cases "can_store s")
  case True
  obtain e where "snd (write_sealed C backup_state_path (dumps_compact (JObj d)) s) = s\<lparr> tick := tick s + 1, disk := e \<rparr>"
    "\<And>n. n \<noteq> backup_state_path \<Longrightarrow> map_of e n = map_of (disk s) n" by (rule write_sealed_effect [of C backup_state_path "dumps_compact (JObj d)" s]) blast
  with True show ?thesis using that [of "s\<lparr> tick := tick s + 1, disk := e \<rparr>"] by (simp add: save_backup_state_def)
qed (simp add: save_backup_state_def that)

text \<open>Reloading from a disk that holds an identity key: the session has that key and the files are left, the group state apart.\<close>

lemma reload_run:
  assumes "can_store s" and "stores C s identity_key_path (b64encode sk)" and "length sk = 32"
  obtains s' where "sbind (load_cache_policy C) (\<lambda>_. sbind (load_or_create_identity_key C) (\<lambda>_.
      smod (\<lambda>s. snd (load_mls_state_into_bridge C s)))) s = (Inr (), s')"
    and "identity_sk s' = sk" and "master_key s' = master_key s" and "secchat_dir s' = secchat_dir s"
    and "\<And>n. n \<noteq> mls_state_path \<Longrightarrow> map_of (disk s') n = map_of (disk s) n"
proof -
  obtain r where p: "load_cache_policy C s = (Inr r, snd (load_cache_policy C s))" "disk (snd (load_cache_policy C s)) = disk s"
    "master_key (snd (load_cache_policy C s)) = master_key s" "secchat_dir (snd (load_cache_policy C s)) = secchat_dir s" by (rule policy_frame)
  define u where "u = snd (load_cache_policy C s)"
  have u: "can_store u" "stores C u identity_key_path (b64encode sk)"
    using assms(1) stores_cong [OF assms(2), of u] p by (simp_all add: u_def can_store_def)
  let ?v = "u\<lparr> identity_sk := sk, identity_pk := ed_pub C sk \<rparr>"
  have "load_or_create_identity_key C u = (Inr (), ?v)"
    using u read_identity_stored [OF u(2) assms(3)] by (simp add: load_or_create_identity_key_def stores_def scatch_ok)
  then have "sbind (load_cache_policy C) (\<lambda>_. sbind (load_or_create_identity_key C) (\<lambda>_.
      smod (\<lambda>s. snd (load_mls_state_into_bridge C s)))) s = (Inr (), snd (load_mls_state_into_bridge C ?v))"
    by (subst sbind_ok [where m = "load_cache_policy C" and s = s, OF p(1)]) (simp add: sbind_def u_def)
  then show ?thesis using that frame_load [of ?v C] p(2-4) by (simp add: mls_frame_def u_def)
qed

lemma restore_payload_run:
  assumes "key_ok C s" and "can_store s" and "ledger_ok (load_backup_state C s)" and "m = backup_manifest b label fp files"
    and "list_all packed files" and "distinct (map fst files)"
    and "(identity_key_path, False, [JStr (b64encode sk)]) \<in> set files" and "length sk = 32"
  shows "\<exists>r s'. restore_payload C True False (JObj m) (backup_payload b m files) bid g s = (Inr r, s') \<and> identity_sk s' = sk
    \<and> (\<forall>n l es. (n, l, es) \<in> set files \<longrightarrow> n \<noteq> mls_state_path \<longrightarrow> held C s' n = Some (Inr es))
    \<and> (\<forall>n. n \<notin> fst ` set files \<longrightarrow> n \<noteq> mls_state_path \<longrightarrow> n \<noteq> backup_state_path \<longrightarrow> \<not> ends_with n ''.tmp'' \<longrightarrow>
          map_of (disk s') n = map_of (disk s) n)"
proof -
  obtain n k d where f: "sfold (restore_item C True False) (map file_json files) (0, 0, 0) s = (Inr n, s\<lparr> tick := k, disk := d \<rparr>)"
    and h: "\<And>n l es t. (n, l, es) \<in> set files \<Longrightarrow> disk t = d \<Longrightarrow> master_key t = master_key s \<Longrightarrow> held C t n = Some (Inr es)"
    and o: "\<And>n. n \<notin> fst ` set files \<Longrightarrow> \<not> ends_with n ''.tmp'' \<Longrightarrow> map_of d n = map_of (disk s) n"
    using restore_files_run [OF assms(1,5,6), of "(0, 0, 0)"] by blast
  define u where "u = forget_before_restore (s\<lparr> tick := k, disk := d \<rparr>)"
  have u: "disk u = d" "master_key u = master_key s" "secchat_dir u = secchat_dir s" by (simp_all add: u_def forget_before_restore_def)
  have "\<not> starts_with identity_key_path ''msgs_''" by (simp add: identity_key_path_def starts_with_def)
  then have "stores C u identity_key_path (b64encode sk)" by (rule held_stores [OF h [OF assms(7) u(1,2)]])
  then have i: "can_store u" "stores C u identity_key_path (b64encode sk)" using assms(2) u by (simp_all add: can_store_def)
  obtain v where v: "sbind (load_cache_policy C) (\<lambda>_. sbind (load_or_create_identity_key C) (\<lambda>_.
      smod (\<lambda>s. snd (load_mls_state_into_bridge C s)))) u = (Inr (), v)" "identity_sk v = sk" "master_key v = master_key u"
    "secchat_dir v = secchat_dir u" "\<And>n. n \<noteq> mls_state_path \<Longrightarrow> map_of (disk v) n = map_of (disk u) n"
    by (rule reload_run [OF i assms(8)]) blast
  have bp: "backup_state_path \<notin> fst ` set files" "backup_state_path \<noteq> mls_state_path" "\<not> ends_with backup_state_path ''.tmp''"
    using assms(5) allowed_names(3) by (force simp: list_all_iff packed_def, simp_all add: backup_state_path_def mls_state_path_def ends_with_def)
  have "load_backup_state C v = load_backup_state C s"
    by (rule load_backup_state_cong) (simp_all add: v u o [OF bp(1,3)] bp(2))
  then obtain d' where d': "restored_state bid g (now_s C v) (JObj m) (backup_payload b m files) (load_backup_state C v) = Inr d'"
    using restored_ledger [OF assms(3,4)] by fastforce
  obtain w where w: "save_backup_state C d' v = (Inr (), w)" "master_key w = master_key v" "identity_sk w = identity_sk v"
    "\<And>n. n \<noteq> backup_state_path \<Longrightarrow> map_of (disk w) n = map_of (disk v) n" by (rule save_backup_effect) blast
  obtain r where r: "restore_result n (backup_payload b m files) bid g False = Inr r"
    by (cases n) (simp add: restore_result_def backup_payload_fields int_or_0_def)
  have "restore_payload C True False (JObj m) (backup_payload b m files) bid g s = (Inr r, w)"
    using f v(1) d' w(1) r
    by (auto simp: restore_payload_def backup_payload_fields sbind_def u_def [symmetric] split: prod.splits sum.splits)
  moreover have "held C w n' = Some (Inr es)" if "(n', l, es) \<in> set files" "n' \<noteq> mls_state_path" for n' l es
  proof -
    have "n' \<noteq> backup_state_path" using that(1) bp(1) by force
    then have "map_of (disk w) n' = map_of (disk u) n'" using w(4) v(5) [OF that(2)] by simp
    then have "held C w n' = held C u n'" by (rule held_cong) (simp add: w v)
    then show ?thesis using h [OF that(1) u(1,2)] by simp
  qed
  moreover have "map_of (disk w) n' = map_of (disk s) n'"
    if "n' \<notin> fst ` set files" "n' \<noteq> mls_state_path" "n' \<noteq> backup_state_path" "\<not> ends_with n' ''.tmp''" for n'
    using that w(4) v(5) u(1) o by simp
  ultimately show ?thesis using w(3) v(2) by blast
qed
lemma identity_backed_up:
  assumes "can_store s" and "has_file identity_key_path s"
  shows "(identity_key_path, False) \<in> set (state_files_for_backup include_cache s)"
proof -
  have p: "''identity_sk.bin'' \<in> set BACKUP_PATTERNS" "glob_match ''identity_sk.bin'' identity_key_path"
    by (simp_all add: BACKUP_PATTERNS_def identity_key_path_def glob_star_free del: glob_match.simps)
  have "basename identity_key_path = identity_key_path" by code_simp
  with p have "backup_name_allowed identity_key_path" by (auto simp: backup_name_allowed_def identity_key_path_def list_ex_iff simp del: glob_match.simps)
  moreover have "identity_key_path \<in> set (files_matching [''identity_sk.bin''] s)"
    using p(2) assms(2) by (auto simp: files_matching_def has_file_def dhas_def map_of_eq_None_iff simp del: glob_match.simps)
  moreover have "''identity_sk.bin'' \<noteq> ''msgs_*.bin''" "\<not> starts_with identity_key_path ''msgs_''" by (simp_all add: identity_key_path_def starts_with_def)
  ultimately show ?thesis using p(1) assms(1) by (force simp: state_files_for_backup_def can_store_def)
qed

lemma identity_collected:
  assumes "can_store s" and "held C s identity_key_path = Some (Inr [JStr k])" and "list_all packed files"
    and "\<And>n l es. (n, l, es) \<in> set files \<Longrightarrow> held C s n = Some (Inr es)"
    and "\<And>n. n \<in> fst ` set (state_files_for_backup include_cache s) \<Longrightarrow> n \<notin> fst ` set files \<Longrightarrow> held C s n = Some (Inr [])"
  shows "(identity_key_path, False, [JStr k]) \<in> set files"
proof -
  have "has_file identity_key_path s" using assms(2) by (auto simp: held_def has_file_def dhas_def)
  then have "identity_key_path \<in> fst ` set (state_files_for_backup include_cache s)" using identity_backed_up [OF assms(1)] by force
  then have "identity_key_path \<in> fst ` set files" using assms(5) [of identity_key_path] assms(2) by force
  then obtain l es where l: "(identity_key_path, l, es) \<in> set files" by auto
  moreover have "\<not> l" using l assms(3) by (auto simp: list_all_iff packed_def identity_key_path_def starts_with_def)
  ultimately show ?thesis using assms(4) [OF l] assms(2) by simp
qed

text \<open>A device whose record of backups is well formed and revokes none.\<close>

definition accepts_backups :: "crypto \<Rightarrow> crypto_session \<Rightarrow> bool" where
  "accepts_backups C s = (key_ok C s \<and> can_store s \<and> ledger_ok (load_backup_state C s)
     \<and> revoked_ids (load_backup_state C s) = Inr {} \<and> int_or_0 (load_backup_state C s) ''revoked_before_generation'' = Inr 0)"

lemma restore_exported:
  assumes "can_export C s" and "accepts_backups C other" and "p \<noteq> []" and "length nonce = 12" and "info_ok b label fp"
    and "list_all packed files" and "m = backup_manifest b label fp files"
  shows "restore_e2ee_backup C (dumps_compact (JObj (sealed_outer C p b m files salt nonce))) p overwrite preserve other
    = restore_payload C overwrite preserve (JObj m) (backup_payload b m files) (b_id b) (b_generation b) other"
proof -
  have w: "wire_ok (JObj (sealed_outer C p b m files salt nonce))"
    unfolding sealed_outer_def assms(7) by (rule outer_wire [OF assms(5) manifest_wire [OF assms(5)]])
  have id: "b_id b \<noteq> []" using assms(5) by (simp add: info_ok_def)
  have c: "can_store other" "check_not_revoked (load_backup_state C other) (b_id b) (b_generation b) = Inr ()"
    using assms(2) by (simp_all add: accepts_backups_def check_not_revoked_def)
  have "aead_ok C" "kdf_ok C" using assms(1) by (simp_all add: can_export_def key_ok_def)
  then show ?thesis
    using restore_prologue [OF c(1) read_header_dumps [OF w], of m "JStr (b_id b)" "b_generation b" C p overwrite preserve]
      decrypt_exported [OF _ _ assms(3,4,5,6,7), of C salt] c(2) header_generation [OF assms(7)] header_backup_id [OF id]
    by (simp add: sealed_outer_def outer_fields)
qed

text \<open>
  C8: (roundtrip) A backup carries a login to another device: when every state file of the login opens, the
  export succeeds, and restoring it with the passphrase on a device with a different master key gives
  that device the same identity key and, in every file that held something (the group state
  \<open>mls_state.bin\<close>, which the bridge may reject, apart), exactly the entries it held on the first device, sealed
  under the new key. Every other file of the second device is left alone, except \<open>mls_state.bin\<close>, the ledger
  \<open>backup_state.bin\<close>, where the restore is noted, and the temporary files the writes go through.
\<close>

theorem backup_roundtrip:
  assumes "can_export C s" and "fst (backup_passphrase_report U p)" and "utf8_valid account"
    and "\<forall>f \<in> set (state_files_for_backup include_cache (exporting C s)). sound_file C (exporting C s) (fst f)"
    and "held C (exporting C s) identity_key_path = Some (Inr [JStr (b64encode sk)])" and "length sk = 32" and "accepts_backups C other"
  shows "\<exists>t r s' r' other'. export_e2ee_backup C U p account include_cache s = (Inr (t, r), s')
    \<and> restore_e2ee_backup C t p True False other = (Inr r', other') \<and> identity_sk other' = sk
    \<and> (\<forall>n \<in> fst ` set (state_files_for_backup include_cache (exporting C s)). n \<noteq> mls_state_path \<longrightarrow>
         held C (exporting C s) n \<noteq> Some (Inr []) \<longrightarrow> held C other' n = held C (exporting C s) n)
    \<and> (\<forall>n. n \<notin> fst ` set (state_files_for_backup include_cache (exporting C s)) \<longrightarrow> n \<noteq> mls_state_path \<longrightarrow> n \<noteq> backup_state_path \<longrightarrow>
         \<not> ends_with n ''.tmp'' \<longrightarrow> map_of (disk other') n = map_of (disk other) n)"
proof -
  let ?s = "exporting C s"
  let ?srcs = "state_files_for_backup include_cache ?s"
  have "\<forall>f \<in> set ?srcs. backup_name_allowed (fst f) \<and> snd f = starts_with (fst f) ''msgs_'' \<and> sound_file C ?s (fst f)"
    using assms(4) backup_files by (metis prod.collapse)
  from collect_run [OF this backup_files_distinct] obtain files where g: "collect_files C ?s ?srcs = Inr files \<and> list_all packed files
    \<and> distinct (map fst files) \<and> fst ` set files \<subseteq> fst ` set ?srcs \<and> (\<forall>n m es. (n, m, es) \<in> set files \<longrightarrow> held C ?s n = Some (Inr es))
    \<and> (\<forall>n \<in> fst ` set ?srcs. n \<notin> fst ` set files \<longrightarrow> held C ?s n = Some (Inr []))" by (elim exE)
  then have f: "collect_files C ?s ?srcs = Inr files" "list_all packed files" "distinct (map fst files)" "fst ` set files \<subseteq> fst ` set ?srcs"
    by simp_all
  have full: "held C ?s n = Some (Inr es)" if "(n, l, es) \<in> set files" for n l es using g that by metis
  have gone: "held C ?s n = Some (Inr [])" if "n \<in> fst ` set ?srcs" "n \<notin> fst ` set files" for n using g that by metis
  obtain b label fp salt nonce s' where e: "export_e2ee_backup C U p account include_cache s =
       (Inr (dumps_compact (JObj (sealed_outer C p b (backup_manifest b label fp files) files salt nonce)), export_result b files), s')"
    "info_ok b label fp" "length nonce = 12" "p \<noteq> []" by (rule export_run [OF assms(1-3) f(1)]) blast
  define m where "m = backup_manifest b label fp files"
  have "can_store ?s" using assms(1) by (simp add: can_export_def can_store_def exporting_same)
  then have id: "(identity_key_path, False, [JStr (b64encode sk)]) \<in> set files"
    by (rule identity_collected [OF _ assms(5) f(2)]) (use full gone in blast)+
  have acc: "key_ok C other" "can_store other" "ledger_ok (load_backup_state C other)" using assms(7) by (simp_all add: accepts_backups_def)
  have restored: "restore_e2ee_backup C (dumps_compact (JObj (sealed_outer C p b m files salt nonce))) p True False other
      = restore_payload C True False (JObj m) (backup_payload b m files) (b_id b) (b_generation b) other"
    by (rule restore_exported [OF assms(1,7) e(4,3,2) f(2) m_def])
  from restore_payload_run [OF acc m_def f(2,3) id assms(6), of "b_id b" "b_generation b"] obtain r' other' where
    run: "restore_payload C True False (JObj m) (backup_payload b m files) (b_id b) (b_generation b) other = (Inr r', other') \<and> identity_sk other' = sk
      \<and> (\<forall>n l es. (n, l, es) \<in> set files \<longrightarrow> n \<noteq> mls_state_path \<longrightarrow> held C other' n = Some (Inr es))
      \<and> (\<forall>n. n \<notin> fst ` set files \<longrightarrow> n \<noteq> mls_state_path \<longrightarrow> n \<noteq> backup_state_path \<longrightarrow> \<not> ends_with n ''.tmp'' \<longrightarrow>
            map_of (disk other') n = map_of (disk other) n)" by (elim exE)
  have "held C other' n = held C ?s n" if n: "n \<in> fst ` set ?srcs" "n \<noteq> mls_state_path" "held C ?s n \<noteq> Some (Inr [])" for n
  proof -
    have "n \<in> fst ` set files" using gone [OF n(1)] n(3) by blast
    then obtain l es where l: "(n, l, es) \<in> set files" by auto
    moreover have "held C other' n = Some (Inr es)" using run l n(2) by metis
    ultimately show ?thesis using full [OF l] by simp
  qed
  then have "\<forall>n \<in> fst ` set ?srcs. n \<noteq> mls_state_path \<longrightarrow> held C ?s n \<noteq> Some (Inr []) \<longrightarrow> held C other' n = held C ?s n" by blast
  moreover have "\<forall>n. n \<notin> fst ` set ?srcs \<longrightarrow> n \<noteq> mls_state_path \<longrightarrow> n \<noteq> backup_state_path \<longrightarrow> \<not> ends_with n ''.tmp'' \<longrightarrow>
      map_of (disk other') n = map_of (disk other) n" using run f(4) by (meson subsetD)
  moreover note e(1) [folded m_def]
  ultimately show ?thesis using run restored by (intro exI conjI) (assumption | simp)+
qed
subsection \<open>Witnesses\<close>

definition demo_classes :: char_classes where
  "demo_classes = \<lparr> is_lower_ch = list_all (\<lambda>c. 97 \<le> code c \<and> code c \<le> 122), is_upper_ch = list_all (\<lambda>c. 65 \<le> code c \<and> code c \<le> 90),
     is_digit_ch = list_all is_digit, is_alnum_ch = list_all (\<lambda>c. is_digit c \<or> (65 \<le> code c \<and> code c \<le> 90) \<or> (97 \<le> code c \<and> code c \<le> 122)) \<rparr>"

definition demo_phrase :: string where
  "demo_phrase = ''correct-Horse-42''"

definition demo_login :: "(string \<times> string) list \<Rightarrow> crypto_session" where
  "demo_login d = demo_session\<lparr> identity_pk := ''pk'', disk := d \<rparr>"

definition demo_other :: crypto_session where
  "demo_other = demo_session\<lparr> master_key := demo_new_key \<rparr>"

lemma demo_phrase_ok: "fst (backup_passphrase_report demo_classes demo_phrase)"
  by code_simp

lemma demo_account: "utf8_valid ''bob''"
  by (intro ascii_utf8) (simp add: is_ascii_def)

lemma toy_kdf: "kdf_ok toy_crypto"
  by (simp add: kdf_ok_def toy_crypto_def)

lemma demo_exporting: "exporting toy_crypto (demo_login d) = demo_login d"
  by (simp add: exporting_def save_mls_state_def demo_login_def demo_session_def)

lemma demo_can_export:
  assumes "map_of d backup_state_path = None"
  shows "can_export toy_crypto (demo_login d)"
proof -
  have "load_backup_state toy_crypto (demo_login d) = []"
    using assms by (simp add: load_backup_state_def has_file_def dhas_def demo_login_def)
  moreover have "key_ok toy_crypto (demo_login d)" "can_store (demo_login d)"
    using demo_stores by (simp_all add: demo_login_def key_ok_def can_store_def)
  ultimately show ?thesis by (simp add: can_export_def toy_kdf ledger_ok_empty) (simp add: demo_login_def)
qed

lemma demo_no_files: "collect_files toy_crypto (exporting toy_crypto (demo_login [])) (state_files_for_backup True (exporting toy_crypto (demo_login []))) = Inr []"
proof -
  have "state_files_for_backup True (demo_login []) = []"
    using backup_files(3) [of _ _ True "demo_login []"] by (cases "state_files_for_backup True (demo_login [])") (fastforce simp: has_file_def dhas_def demo_login_def)+
  then show ?thesis by (simp add: demo_exporting)
qed

lemma demo_accepts: "accepts_backups toy_crypto demo_other"
proof -
  have "load_backup_state toy_crypto demo_other = []"
    by (simp add: load_backup_state_def has_file_def dhas_def demo_other_def demo_session_def)
  moreover have "key_ok toy_crypto demo_other" "can_store demo_other"
    using demo_stores by (simp_all add: demo_other_def key_ok_def can_store_def demo_new_key_def)
  ultimately show ?thesis by (simp add: accepts_backups_def ledger_ok_empty revoked_ids_def int_or_0_def dget_def)
qed

theorem revoked_backup_refused_witness:
  "\<exists>t r s1 st s2. export_e2ee_backup toy_crypto demo_classes demo_phrase ''bob'' True (demo_login []) = (Inr (t, r), s1)
    \<and> revoke_local_backups toy_crypto s1 = (Inr st, s2)
    \<and> restore_e2ee_backup toy_crypto t demo_phrase True False s2
      = (Inl (CryptoStateError ''This backup was revoked on this device and will not be restored.''), s2)"
  by (rule revoked_backup_refused [OF demo_can_export demo_phrase_ok demo_account demo_no_files]) simp

theorem backup_roundtrip_witness:
  "\<exists>token t r s' r' other'. export_e2ee_backup toy_crypto demo_classes demo_phrase ''bob'' True (demo_login [(identity_key_path, token)]) = (Inr (t, r), s')
    \<and> restore_e2ee_backup toy_crypto t demo_phrase True False demo_other = (Inr r', other')
    \<and> identity_sk other' = replicate 32 (CHR ''i'') \<and> held toy_crypto other' identity_key_path = Some (Inr [JStr (b64encode (replicate 32 (CHR ''i'')))])"
proof -
  define sk where "sk = replicate 32 (CHR ''i'')"
  have u: "utf8_valid (b64encode sk)" by (intro ascii_utf8) simp
  obtain token where tok: "clean_token token" "decrypt_with_key toy_crypto (master_key demo_session) token None = Inr (JStr (b64encode sk))"
    by (rule seal_value_text [OF demo_can_seal(2) u, of demo_session]) blast
  let ?s = "demo_login [(identity_key_path, token)]"
  have h: "held toy_crypto ?s identity_key_path = Some (Inr [JStr (b64encode sk)])"
    using tok clean_token_props [OF tok(1)]
    by (simp add: held_def demo_login_def backup_entries_def backup_tokens_def identity_key_path_def starts_with_def)
  have "utf8_valid identity_key_path" by (intro ascii_utf8) (simp add: is_ascii_def identity_key_path_def)
  then have "sound_file toy_crypto ?s identity_key_path" using h u unfolding sound_file_def by (intro conjI exI [of _ "[b64encode sk]"]) simp_all
  moreover have "fst f = identity_key_path" if "f \<in> set (state_files_for_backup True ?s)" for f
    using that backup_files(3) [of "fst f" "snd f" True ?s] by (auto simp: has_file_def dhas_def demo_login_def split: if_splits)
  ultimately have sound: "\<forall>f \<in> set (state_files_for_backup True (exporting toy_crypto ?s)). sound_file toy_crypto (exporting toy_crypto ?s) (fst f)"
    by (simp add: demo_exporting)
  have "can_store ?s" "has_file identity_key_path ?s" using demo_stores(2) by (simp_all add: demo_login_def can_store_def has_file_def dhas_def)
  then have "identity_key_path \<in> fst ` set (state_files_for_backup True ?s)" using identity_backed_up by force
  then have fetched: "held toy_crypto o' identity_key_path = Some (Inr [JStr (b64encode sk)])"
    if "\<forall>n \<in> fst ` set (state_files_for_backup True (exporting toy_crypto ?s)). n \<noteq> mls_state_path \<longrightarrow>
         held toy_crypto (exporting toy_crypto ?s) n \<noteq> Some (Inr []) \<longrightarrow> held toy_crypto o' n = held toy_crypto (exporting toy_crypto ?s) n" for o'
    using that h by (auto simp: demo_exporting identity_key_path_def mls_state_path_def)
  have ce: "can_export toy_crypto ?s" by (rule demo_can_export) (simp add: identity_key_path_def backup_state_path_def)
  have len: "length sk = 32" by (simp add: sk_def)
  have he: "held toy_crypto (exporting toy_crypto ?s) identity_key_path = Some (Inr [JStr (b64encode sk)])" using h by (simp add: demo_exporting)
  from backup_roundtrip [OF ce demo_phrase_ok demo_account sound he len demo_accepts]
  show ?thesis unfolding sk_def [symmetric] by (elim exE conjE) (intro exI conjI, assumption+, erule fetched)
qed
theorem edited_backup_evades_revocation_witness:
  "\<exists>outer s r payload. restore_e2ee_backup toy_crypto (dumps_compact (JObj outer)) demo_phrase True False s
       = (Inl (CryptoStateError ''This backup was revoked on this device and will not be restored.''), s)
    \<and> restore_e2ee_backup toy_crypto (dumps_compact (JObj (edited_outer ''x'' 9 outer))) demo_phrase True False s
       = restore_payload toy_crypto True False (JObj r) payload ''x'' 9 s"
proof -
  have x: "utf8_valid ''x''" by (intro ascii_utf8) (simp add: is_ascii_def)
  define b where "b = \<lparr> b_id = ''id'', b_generation = 1, b_created = 0, b_account = [], b_user = 1, b_cache = True \<rparr>"
  define m where "m = backup_manifest b [] [] []"
  define outer where "outer = sealed_outer toy_crypto demo_phrase b m [] [] (replicate 12 (CHR ''n''))"
  have info: "info_ok b [] []" by (simp add: info_ok_def b_def)
  have w: "wire_ok (JObj outer)" unfolding outer_def sealed_outer_def m_def by (rule outer_wire [OF info manifest_wire [OF info]])
  then have h: "read_header_file (dumps_compact (JObj outer)) = Inr (outer, JObj m)"
    by (rule read_header_dumps) (simp_all add: outer_def sealed_outer_def outer_fields)
  have m: "m \<noteq> []" by (simp add: m_def backup_manifest_def)
  have p: "demo_phrase \<noteq> []" by (simp add: demo_phrase_def)
  have n: "length (replicate 12 (CHR ''n'')) = 12" by simp
  have d: "rbind (decrypt_backup toy_crypto demo_phrase outer (JObj m)) (\<lambda>payload. rbind (check_payload payload (JObj m)) (\<lambda>_. Inr payload))
      = Inr (backup_payload b m [])"
    unfolding outer_def by (rule decrypt_exported [OF crypto_okD(1) [OF toy_ok] toy_kdf p n info _ m_def]) simp
  define led where "led = [(''revoked_backup_ids'', JArr [JStr ''id''])]"
  have "wire_ok (JObj led)" by (simp add: led_def)
  then obtain s where s: "load_backup_state toy_crypto s = led" "s = demo_session\<lparr> tick := tick demo_session + 1, disk := disk s \<rparr>"
    by (rule save_backup_run [OF demo_stores])
  have c: "can_store s" by (subst s(2)) (simp add: can_store_def demo_session_def)
  have rv: "revoked_ids led = Inr {''id''}" using revoked_texts [of led "[''id'']"] by (simp add: led_def dget_def)
  have before: "int_or_0 led ''revoked_before_generation'' = Inr 0" by (simp add: led_def int_or_0_def dget_def)
  have b: "b_id b = ''id''" "b_generation b = 1" by (simp_all add: b_def)
  have hid: "header_field outer (JObj m) ''backup_id'' (JStr []) = Inr (JStr ''id'')"
    unfolding outer_def sealed_outer_def using header_backup_id [of b] b(1) by simp
  have hg: "rbind (header_field outer (JObj m) ''generation'' (JInt 0)) py_int = Inr 1"
    unfolding outer_def sealed_outer_def using header_generation [OF m_def] b(2) by simp
  have "restore_e2ee_backup toy_crypto (dumps_compact (JObj outer)) demo_phrase True False s
      = (Inl (CryptoStateError ''This backup was revoked on this device and will not be restored.''), s)"
    unfolding restore_prologue [OF c h hid hg] by (simp add: s(1) check_not_revoked_def rv before)
  moreover have "check_not_revoked (load_backup_state toy_crypto s) ''x'' 9 = Inr ()"
    by (simp add: s(1) check_not_revoked_def rv before)
  then have "restore_e2ee_backup toy_crypto (dumps_compact (JObj (edited_outer ''x'' 9 outer))) demo_phrase True False s
       = restore_payload toy_crypto True False (JObj m) (backup_payload b m []) ''x'' 9 s"
    by (intro edited_backup_evades_revocation [OF c w h m d _ x]) simp_all
  ultimately show ?thesis by blast
qed

end
