(* ===== verification/Timeline.thy ===== *)
theory Timeline
  imports Identity_State "HOL-Library.Product_Lexorder"
begin

text \<open>
  The conversation history as the chat page keeps it (\<open>client/pages/chat_page.py\<close>, class \<open>ChatPage\<close>,
  \<open>invalidate_history\<close> to \<open>mark_group_disbanded\<close>): live messages, local bubbles of messages being sent,
  system events, edits that arrive before their message, reactions, pins, the read state, and the merge
  of a history from the server. Drawing is left out: a call that only draws leaves the state alone.
\<close>

subsection \<open>State\<close>

text \<open>
  An entry of \<open>hist\<close>. A key an entry of the code lacks has its falsy value here. \<open>e_after\<close> is both
  \<open>after_message_id\<close> and \<open>sort_after_message_id\<close>, which the code always sets together.
\<close>

record reaction =
  r_emoji :: string
  r_count :: int
  r_me :: bool

type_synonym event_key = "int \<times> string list"

record entry =
  e_sender :: int
  e_body :: json
  e_ts :: string
  e_id :: int
  e_edited :: bool
  e_deleted :: bool
  e_pinned :: bool
  e_reactions :: "(string \<times> reaction) list"
  e_forwarded :: int
  e_reply :: int
  e_hidden :: bool
  e_failed :: bool
  e_sending :: bool
  e_reason :: string
  e_retry :: "string option"
  e_retry_file :: string
  e_system :: bool
  e_persisted :: bool
  e_keys :: "event_key list"
  e_event_id :: int
  e_after :: int

record edit_event =
  ed_target :: int
  ed_body :: json
  ed_sender :: int
  ed_ts :: string

record page =
  my_id :: int
  active_conv_id :: int
  current_view :: string
  hist :: "(int \<times> entry list) list"
  history_loaded_convs :: "int set"
  history_loading_convs :: "int set"
  failed_send_counter :: int
  notifications_enabled :: bool
  system_event_keys :: "event_key set"
  dm_convs :: "dict list"
  group_convs :: "dict list"
  unread_convs :: "int set"
  disbanded_convs :: "int set"
  pending_edit_events :: "(int \<times> edit_event list) list"
  metadata_protection :: bool
  last_read_sent :: "(int \<times> int) list"
  pending_read_clear :: "int set"
  scroll_to_latest :: "int set"
  commands :: "dict list"

type_synonym 'a pg = "(page, 'a) act"

definition plain_entry :: "int \<Rightarrow> json \<Rightarrow> string \<Rightarrow> int \<Rightarrow> entry" where
  "plain_entry sender body ts mid = \<lparr> e_sender = sender, e_body = body, e_ts = ts, e_id = mid, e_edited = False, e_deleted = False,
     e_pinned = False, e_reactions = [], e_forwarded = 0, e_reply = 0, e_hidden = False, e_failed = False, e_sending = False, e_reason = [],
     e_retry = None, e_retry_file = [], e_system = False, e_persisted = False, e_keys = [], e_event_id = 0, e_after = 0 \<rparr>"

definition conv_hist :: "int \<Rightarrow> page \<Rightarrow> entry list" where
  "conv_hist conv g = dget (hist g) conv []"

definition set_hist :: "int \<Rightarrow> entry list \<Rightarrow> page \<Rightarrow> page" where
  "set_hist conv es g = g\<lparr> hist := dset (hist g) conv es \<rparr>"

text \<open>\<open>self.hist.setdefault(conv_id, []).append(entry)\<close>\<close>

definition append_entry :: "int \<Rightarrow> entry \<Rightarrow> page \<Rightarrow> page" where
  "append_entry conv e g = set_hist conv (conv_hist conv g @ [e]) g"

definition CONTROL_BODIES :: "json set" where
  "CONTROL_BODIES = {JStr ''__KEM_INIT__'', JStr ''__S2_CONTROL__'', JStr ''__S3_INIT__''}"

text \<open>\<open>int(x or 0)\<close> in a \<open>try\<close> whose \<open>except\<close> gives 0\<close>

definition safe_int :: "json \<Rightarrow> int" where
  "safe_int j = (case py_int (py_or j (JInt 0)) of Inl _ \<Rightarrow> 0 | Inr i \<Rightarrow> i)"

definition ts_of :: "json \<Rightarrow> string res" where
  "ts_of j = (if \<not> truthy j then Inr [] else case j of JStr t \<Rightarrow> Inr (ts_short t) | _ \<Rightarrow> Inl (AttributeError ''split''))"

definition is_unavailable_history_body :: "json \<Rightarrow> bool" where
  "is_unavailable_history_body body = (case body of
       JStr b \<Rightarrow> contains ''Forward-secret'' b \<or> contains ''Cannot decrypt'' b \<or> starts_with b ''[Cannot'' \<or> starts_with b ''[Encrypted''
     | _ \<Rightarrow> False)"

definition invalidate_history :: "int \<Rightarrow> bool \<Rightarrow> page \<Rightarrow> page" where
  "invalidate_history conv clear_messages g =
     (let g1 = g\<lparr> history_loaded_convs := history_loaded_convs g - {conv} \<rparr>
      in if clear_messages then g1\<lparr> hist := dpop (hist g1) conv \<rparr> else g1)"

subsection \<open>Conversation records and the read state\<close>

text \<open>\<open>c.get("conversation_id")\<close> of the records of the sidebar is an integer the server sent.\<close>

definition record_id :: "dict \<Rightarrow> int res" where
  "record_id c = int_or_0 c ''conversation_id''"

fun find_record :: "int \<Rightarrow> dict list \<Rightarrow> dict res" where
  "find_record conv [] = Inr []"
| "find_record conv (c # cs) = rbind (record_id c) (\<lambda>i. if i = conv then Inr c else find_record conv cs)"

definition conversation_record :: "int \<Rightarrow> page \<Rightarrow> dict res" where
  "conversation_record conv g = find_record conv (dm_convs g @ group_convs g)"

definition is_conversation_muted :: "int \<Rightarrow> page \<Rightarrow> bool res" where
  "is_conversation_muted conv g = rbind (conversation_record conv g) (\<lambda>c. Inr (truthy (dget c ''muted'' JNull)))"

definition conversation_has_unread_record :: "int \<Rightarrow> page \<Rightarrow> bool res" where
  "conversation_has_unread_record conv g =
     rbind (conversation_record conv g) (\<lambda>rec.
     rbind (int_or_0 rec ''unread_count'') (\<lambda>unread_count.
       Inr (conv \<in> unread_convs g \<or> 0 < unread_count \<or> truthy (dget rec ''force_unread'' JNull))))"

text \<open>The keyword arguments of \<open>_update_conversation_pref\<close>; an absent one is \<open>None\<close>.\<close>

record pref_change =
  set_muted :: "bool option"
  set_archived :: "bool option"
  toggle_archived :: bool
  set_pinned :: "bool option"
  toggle_pinned :: bool
  set_unread :: "bool option"
  set_disappear :: "json option"

definition no_change :: pref_change where
  "no_change = \<lparr> set_muted = None, set_archived = None, toggle_archived = False, set_pinned = None, toggle_pinned = False,
     set_unread = None, set_disappear = None \<rparr>"

definition put_opt :: "string \<Rightarrow> json option \<Rightarrow> dict \<Rightarrow> dict" where
  "put_opt k v c = (case v of None \<Rightarrow> c | Some x \<Rightarrow> dset c k x)"

definition flip :: "string \<Rightarrow> dict \<Rightarrow> dict" where
  "flip k c = dset c k (JBool (\<not> truthy (dget c k JNull)))"

text \<open>Every caller passes one argument, so a record that raises has not been changed.\<close>

definition change_record :: "pref_change \<Rightarrow> dict \<Rightarrow> dict res" where
  "change_record ch c0 =
     (let c1 = put_opt ''archived'' (map_option JBool (set_archived ch)) (put_opt ''muted'' (map_option JBool (set_muted ch)) c0);
          c2 = (if toggle_archived ch then flip ''archived'' c1 else c1);
          c3 = put_opt ''pinned_conversation'' (map_option JBool (set_pinned ch)) c2;
          c4 = (if toggle_pinned ch then flip ''pinned_conversation'' c3 else c3);
          c = put_opt ''disappear_after_secs'' (set_disappear ch) c4
      in case set_unread ch of
           None \<Rightarrow> Inr c
         | Some True \<Rightarrow> rbind (int_or_0 c ''unread_count'') (\<lambda>n.
             Inr (dset (dset c ''unread_count'' (JInt (max 1 n))) ''force_unread'' (JBool True)))
         | Some False \<Rightarrow> Inr (dset (dset c ''unread_count'' (JInt 0)) ''force_unread'' (JBool False)))"

text \<open>The loop over one of the two lists: the first record of the conversation is changed.\<close>

fun change_first :: "pref_change \<Rightarrow> int \<Rightarrow> dict list \<Rightarrow> (bool \<times> dict list) res" where
  "change_first ch conv [] = Inr (False, [])"
| "change_first ch conv (c # cs) = rbind (record_id c) (\<lambda>i.
     if i \<noteq> conv then rbind (change_first ch conv cs) (\<lambda>(hit, cs'). Inr (hit, c # cs'))
     else rbind (change_record ch c) (\<lambda>c'. Inr (True, c' # cs)))"

definition update_conversation_pref :: "int \<Rightarrow> pref_change \<Rightarrow> unit pg" where
  "update_conversation_pref conv ch g =
     (if conv \<le> 0 then (Inr (), g)
      else let quiet = (\<lambda>hit g. if hit \<and> set_muted ch = Some True then g\<lparr> unread_convs := unread_convs g - {conv} \<rparr> else g)
           in sbind (\<lambda>g. (change_first ch conv (dm_convs g), g)) (\<lambda>(hit, dms).
              sbind (smod (\<lambda>g. quiet hit (g\<lparr> dm_convs := dms \<rparr>))) (\<lambda>_.
              sbind (\<lambda>g. (change_first ch conv (group_convs g), g)) (\<lambda>(hit', gs).
              sbind (smod (\<lambda>g. quiet hit' (g\<lparr> group_convs := gs \<rparr>))) (\<lambda>_.
              smod (\<lambda>g. case set_unread ch of
                  None \<Rightarrow> g
                | Some True \<Rightarrow> g\<lparr> unread_convs := insert conv (unread_convs g) \<rparr>
                | Some False \<Rightarrow> g\<lparr> unread_convs := unread_convs g - {conv} \<rparr>))))) g)"

definition send_conversation_pref :: "dict \<Rightarrow> unit pg" where
  "send_conversation_pref command =
     sbind (slift (int_or_0 command ''conversation_id'')) (\<lambda>conv.
     if conv \<le> 0 then sret ()
     else let typ = py_str (dget command ''type'' (JStr []))
          in sbind (if typ = ''mute_conversation''
                    then sbind (slift (int_or_0 command ''mute_secs'')) (\<lambda>secs.
                         update_conversation_pref conv (no_change\<lparr> set_muted := Some (0 < secs) \<rparr>))
                    else if typ = ''archive_conversation'' then update_conversation_pref conv (no_change\<lparr> toggle_archived := True \<rparr>)
                    else if typ = ''pin_conversation'' then update_conversation_pref conv (no_change\<lparr> toggle_pinned := True \<rparr>)
                    else if typ = ''mark_unread'' then update_conversation_pref conv (no_change\<lparr> set_unread := Some True \<rparr>)
                    else sret ()) (\<lambda>_.
             smod (\<lambda>g. g\<lparr> commands := commands g @ [command] \<rparr>)))"

definition visible_message_ids :: "int \<Rightarrow> page \<Rightarrow> int list" where
  "visible_message_ids conv g = map e_id (filter (\<lambda>e. 0 < e_id e \<and> \<not> e_deleted e \<and> \<not> e_hidden e) (conv_hist conv g))"

text \<open>\<open>max(ids or [0])\<close>\<close>

definition last_visible :: "int \<Rightarrow> page \<Rightarrow> int" where
  "last_visible conv g = fold max (visible_message_ids conv g) 0"

definition mark_active_conversation_read :: "unit pg" where
  "mark_active_conversation_read g =
     (let conv = active_conv_id g; last_id = last_visible conv g;
          done = (\<lambda>g. g\<lparr> pending_read_clear := pending_read_clear g - {conv} \<rparr>)
      in if conv \<le> 0 then (Inr (), g)
         else sbind (\<lambda>g. (if conv \<in> pending_read_clear g then Inr True else conversation_has_unread_record conv g, g)) (\<lambda>needs.
              if last_id \<le> 0 \<and> \<not> needs then sret ()
              else (\<lambda>g. if metadata_protection g \<or> (0 < last_id \<and> last_id \<le> dget (last_read_sent g) conv 0)
                       then sbind (update_conversation_pref conv (no_change\<lparr> set_unread := Some False \<rparr>)) (\<lambda>_. smod done) g
                       else sbind (smod (\<lambda>g. if 0 < last_id then g\<lparr> last_read_sent := dset (last_read_sent g) conv last_id \<rparr> else g)) (\<lambda>_.
                            sbind (update_conversation_pref conv (no_change\<lparr> set_unread := Some False \<rparr>)) (\<lambda>_.
                            smod (\<lambda>g. done (g\<lparr> commands := commands g @ [[(''type'', JStr ''mark_read''), (''conversation_id'', JInt conv),
                              (''last_message_id'', JInt last_id)]] \<rparr>)))) g)) g)"
subsection \<open>Editing entries\<close>

text \<open>\<open>update_message\<close> changes the first entry with the id; whether there was one is the result.\<close>

fun update_entry :: "int \<Rightarrow> json \<Rightarrow> bool \<Rightarrow> bool \<Rightarrow> entry list \<Rightarrow> entry option \<times> entry list" where
  "update_entry mid body ed del [] = (None, [])"
| "update_entry mid body ed del (e # es) =
     (if e_id e = mid then (let e' = e\<lparr> e_body := body, e_edited := ed, e_deleted := del \<rparr> in (Some e', e' # es))
      else (case update_entry mid body ed del es of (hit, es') \<Rightarrow> (hit, e # es')))"

definition update_message :: "int \<Rightarrow> int \<Rightarrow> json \<Rightarrow> bool \<Rightarrow> bool \<Rightarrow> page \<Rightarrow> entry option \<times> page" where
  "update_message conv mid body ed del g = (case update_entry mid body ed del (conv_hist conv g) of
     (hit, es) \<Rightarrow> (hit, if hit = None then g else set_hist conv es g))"

definition apply_edit_event :: "int \<Rightarrow> edit_event \<Rightarrow> page \<Rightarrow> entry option \<times> page" where
  "apply_edit_event conv ev g = (case update_message conv (ed_target ev) (ed_body ev) True False g of
       (None, g') \<Rightarrow> (None, g'\<lparr> pending_edit_events := dset (pending_edit_events g') conv (dget (pending_edit_events g') conv [] @ [ev]) \<rparr>)
     | (Some e, g') \<Rightarrow> (Some e, g'))"

fun retry_edits :: "int \<Rightarrow> edit_event list \<Rightarrow> page \<Rightarrow> edit_event list \<times> page" where
  "retry_edits conv [] g = ([], g)"
| "retry_edits conv (ev # evs) g = (case update_message conv (ed_target ev) (ed_body ev) True False g of
     (hit, g') \<Rightarrow> (case retry_edits conv evs g' of (rest, g'') \<Rightarrow> (if hit = None then ev # rest else rest, g'')))"

definition apply_pending_edit_events :: "int \<Rightarrow> page \<Rightarrow> page" where
  "apply_pending_edit_events conv g = (case dget (pending_edit_events g) conv [] of
       [] \<Rightarrow> g
     | pending \<Rightarrow> (case retry_edits conv pending g of (remaining, g') \<Rightarrow>
         g'\<lparr> pending_edit_events := (if remaining \<noteq> [] then dset (pending_edit_events g') conv remaining
                                      else dpop (pending_edit_events g') conv) \<rparr>))"

definition normal_reaction :: "json \<Rightarrow> (string \<times> reaction) list \<Rightarrow> (string \<times> reaction) list res" where
  "normal_reaction r out = (case r of
       JObj d \<Rightarrow>
         let emoji = py_str (dget d ''emoji'' (JStr []))
         in if emoji = [] then Inr out
            else rbind (int_or_0 d ''count'') (\<lambda>count.
              Inr (dset out emoji \<lparr> r_emoji = emoji, r_count = count, r_me = truthy (dget d ''me'' (JBool False)) \<rparr>))
     | _ \<Rightarrow> Inr out)"

definition normalize_reactions :: "json \<Rightarrow> (string \<times> reaction) list res" where
  "normalize_reactions reactions =
     rbind (case reactions of JObj d \<Rightarrow> Inr (map snd d) | _ \<Rightarrow> as_list (py_or reactions (JArr []))) (\<lambda>xs.
       rfold normal_reaction xs [])"

text \<open>A change of the first entry with the id (\<open>for m in ...: if m.get("msg_id") == msg_id: ...; break\<close>).\<close>

fun change_entry :: "int \<Rightarrow> (entry \<Rightarrow> entry) \<Rightarrow> entry list \<Rightarrow> entry list" where
  "change_entry mid f [] = []"
| "change_entry mid f (e # es) = (if e_id e = mid then f e # es else e # change_entry mid f es)"

definition set_message_pinned :: "int \<Rightarrow> int \<Rightarrow> bool \<Rightarrow> page \<Rightarrow> page" where
  "set_message_pinned conv mid pin g =
     (if dhas (hist g) conv then set_hist conv (change_entry mid (e_pinned_update (\<lambda>_. pin)) (conv_hist conv g)) g else g)"

definition change_reaction :: "bool \<Rightarrow> bool \<Rightarrow> string \<Rightarrow> (string \<times> reaction) list \<Rightarrow> (string \<times> reaction) list" where
  "change_reaction mine added emoji rs =
     (let rs = dsetdefault rs emoji \<lparr> r_emoji = emoji, r_count = 0, r_me = False \<rparr>;
          cur = dget rs emoji \<lparr> r_emoji = emoji, r_count = 0, r_me = False \<rparr>
      in if added
         then (if mine \<and> r_me cur then rs
               else dset rs emoji (cur\<lparr> r_count := r_count cur + 1, r_me := r_me cur \<or> mine \<rparr>))
         else if mine \<and> \<not> r_me cur then rs
         else let n = max 0 (r_count cur - 1)
              in if n \<le> 0 then dpop rs emoji else dset rs emoji (cur\<lparr> r_count := n, r_me := r_me cur \<and> \<not> mine \<rparr>))"

definition update_reaction :: "int \<Rightarrow> int \<Rightarrow> string \<Rightarrow> int \<Rightarrow> bool \<Rightarrow> page \<Rightarrow> page" where
  "update_reaction conv mid emoji user added g =
     (if emoji = [] \<or> \<not> dhas (hist g) conv then g
      else set_hist conv (change_entry mid (e_reactions_update (change_reaction (user = my_id g) added emoji)) (conv_hist conv g)) g)"

subsection \<open>New entries\<close>

definition add_msg :: "int \<Rightarrow> int \<Rightarrow> json \<Rightarrow> string \<Rightarrow> int \<Rightarrow> bool \<Rightarrow> json \<Rightarrow> int \<Rightarrow> int \<Rightarrow> unit pg" where
  "add_msg conv sender body ts mid pin reactions forwarded reply =
     sbind (slift (normalize_reactions (py_or reactions (JArr [])))) (\<lambda>rs.
     sbind (smod (\<lambda>g. apply_pending_edit_events conv (append_entry conv
        ((plain_entry sender body ts mid)\<lparr> e_pinned := pin, e_reactions := rs, e_forwarded := forwarded, e_reply := reply \<rparr>) g))) (\<lambda>_ g.
     if conv = active_conv_id g \<and> current_view g = ''chat'' then mark_active_conversation_read g
     else if sender \<noteq> my_id g \<and> truthy body \<and> body \<notin> CONTROL_BODIES \<and> \<not> is_unavailable_history_body body \<and> notifications_enabled g
     then sbind (\<lambda>g. (is_conversation_muted conv g, g)) (\<lambda>muted.
          smod (\<lambda>g. if muted then g else g\<lparr> unread_convs := insert conv (unread_convs g) \<rparr>)) g
     else (Inr (), g)))"

text \<open>The event key is a tuple of the client's own or a value from the server.\<close>

definition system_event_keys_for :: "int \<Rightarrow> json \<Rightarrow> json \<Rightarrow> event_key list" where
  "system_event_keys_for conv sid key =
     (let i = safe_int sid
      in (if 0 < i then [(conv, [''system_event_id'', show_int i])] else [])
         @ (case key of JNull \<Rightarrow> [] | JArr xs \<Rightarrow> [(conv, map py_str xs)] | v \<Rightarrow> [(conv, [py_str v])]))"

definition event_anchor :: "entry \<Rightarrow> int \<Rightarrow> int" where
  "event_anchor e fallback = (if 0 < e_after e then e_after e else fallback)"

definition system_entry :: "string \<Rightarrow> string \<Rightarrow> int \<Rightarrow> event_key list \<Rightarrow> int \<Rightarrow> int \<Rightarrow> entry" where
  "system_entry t ts mid keys sid after =
     (plain_entry 0 (JStr (''__SYSTEM__:'' @ t)) ts mid)\<lparr> e_keys := keys, e_event_id := sid, e_after := after, e_system := True \<rparr>"

definition event_msg_id :: "int \<Rightarrow> int \<Rightarrow> int" where
  "event_msg_id sid counter = (if 0 < sid then - (1000000000 + sid) else - counter)"

definition add_system_event :: "int \<Rightarrow> string \<Rightarrow> string \<Rightarrow> json \<Rightarrow> json \<Rightarrow> json option \<Rightarrow> page \<Rightarrow> page" where
  "add_system_event conv t ts key system_event_id after g =
     (let keys = system_event_keys_for conv system_event_id key; sid = safe_int system_event_id
      in if t = [] \<or> set keys \<inter> system_event_keys g \<noteq> {} then g
         else let after_id = (case after of None \<Rightarrow> last_visible conv g | Some j \<Rightarrow> safe_int j);
                  g1 = g\<lparr> system_event_keys := system_event_keys g \<union> set keys, failed_send_counter := failed_send_counter g + 1 \<rparr>
              in append_entry conv (system_entry t ts (event_msg_id sid (failed_send_counter g1)) keys sid after_id) g1)"

subsection \<open>Messages being sent\<close>

definition show_send_failed :: "int \<Rightarrow> string \<Rightarrow> string \<Rightarrow> string \<Rightarrow> page \<Rightarrow> page" where
  "show_send_failed conv body reason path g =
     (let n = failed_send_counter g + 1
      in append_entry conv ((plain_entry (my_id g) (JStr body) ''not sent'' (- n))\<lparr> e_failed := True,
           e_reason := (if reason = [] then ''Message was not sent.'' else reason), e_retry := Some body, e_retry_file := path \<rparr>)
           (g\<lparr> failed_send_counter := n \<rparr>))"

definition show_send_pending :: "int \<Rightarrow> string \<Rightarrow> string \<Rightarrow> int \<Rightarrow> page \<Rightarrow> int \<times> page" where
  "show_send_pending conv body path reply g =
     (let n = failed_send_counter g + 1
      in (- n, append_entry conv ((plain_entry (my_id g) (JStr body) ''sending'' (- n))\<lparr> e_reply := reply, e_sending := True,
           e_retry := Some body, e_retry_file := path \<rparr>) (g\<lparr> failed_send_counter := n \<rparr>)))"

text \<open>\<open>str(msg.get("retry_body", msg.get("body", "")))\<close>\<close>

definition retry_text :: "entry \<Rightarrow> string" where
  "retry_text e = (case e_retry e of Some b \<Rightarrow> b | None \<Rightarrow> py_str (e_body e))"

definition is_pending_send :: "string \<Rightarrow> int \<Rightarrow> entry \<Rightarrow> bool" where
  "is_pending_send body pending_id e =
     (e_sending e \<and> (if pending_id \<noteq> 0 then e_id e = pending_id else body \<noteq> [] \<and> retry_text e = body))"

fun drop_first :: "('a \<Rightarrow> bool) \<Rightarrow> 'a list \<Rightarrow> bool \<times> 'a list" where
  "drop_first P [] = (False, [])"
| "drop_first P (x # xs) = (if P x then (True, xs) else (case drop_first P xs of (hit, ys) \<Rightarrow> (hit, x # ys)))"

definition remove_pending_send :: "int \<Rightarrow> string \<Rightarrow> int \<Rightarrow> page \<Rightarrow> page" where
  "remove_pending_send conv body pending_id g = (case drop_first (is_pending_send body pending_id) (conv_hist conv g) of
     (removed, kept) \<Rightarrow> if removed then set_hist conv kept g else g)"

definition fail_pending :: "string \<Rightarrow> entry \<Rightarrow> entry" where
  "fail_pending reason e =
     (if e_sending e then e\<lparr> e_sending := False, e_failed := True, e_ts := ''not sent'',
        e_reason := (if reason = [] then ''Connection was interrupted.'' else reason) \<rparr> else e)"

definition mark_pending_sends_failed :: "string \<Rightarrow> page \<Rightarrow> page" where
  "mark_pending_sends_failed reason g = g\<lparr> hist := map (\<lambda>(conv, es). (conv, map (fail_pending reason) es)) (hist g) \<rparr>"

definition remove_failed_message :: "int \<Rightarrow> page \<Rightarrow> page" where
  "remove_failed_message mid g =
     (let conv = active_conv_id g
      in if conv \<le> 0 then g else set_hist conv (filter (\<lambda>e. e_id e \<noteq> mid) (conv_hist conv g)) g)"

definition find_message :: "int \<Rightarrow> int \<Rightarrow> page \<Rightarrow> entry option" where
  "find_message conv mid g = find (\<lambda>e. e_id e = mid) (conv_hist conv g)"

text \<open>The signal that is emitted: a file or a text to send again.\<close>

datatype resend = Resend_File int string | Resend_Text int string

definition retry_failed_message :: "int \<Rightarrow> page \<Rightarrow> resend option \<times> page" where
  "retry_failed_message mid g = (case find_message (active_conv_id g) mid g of
       None \<Rightarrow> (None, g)
     | Some e \<Rightarrow>
         let body = (case e_retry e of Some (c # cs) \<Rightarrow> c # cs | _ \<Rightarrow> py_str (e_body e))
         in (Some (if e_retry_file e \<noteq> [] then Resend_File (active_conv_id g) (e_retry_file e) else Resend_Text (active_conv_id g) body),
             remove_failed_message mid g))"
subsection \<open>Merging a history\<close>

definition is_system_entry :: "entry \<Rightarrow> bool" where
  "is_system_entry e = (e_system e \<or> starts_with (py_str (e_body e)) ''__SYSTEM__:'')"

text \<open>The first loop: local system events with their anchors, and the local bubbles.\<close>

fun split_old :: "int \<Rightarrow> int \<Rightarrow> entry list \<Rightarrow> entry list \<times> entry list" where
  "split_old conv prev [] = ([], [])"
| "split_old conv prev (e # es) =
     (if 0 < e_id e then split_old conv (e_id e) es
      else (case split_old conv prev es of (events, transient) \<Rightarrow>
        if is_system_entry e
        then (e\<lparr> e_after := event_anchor e prev,
                 e_keys := (if e_keys e = [] then system_event_keys_for conv (JInt (e_event_id e)) JNull else e_keys e) \<rparr> # events, transient)
        else (events, e # transient)))"

definition by_id :: "entry list \<Rightarrow> (int \<times> entry) list" where
  "by_id es = fold (\<lambda>e m. dset m (e_id e) e) (filter (\<lambda>e. 0 < e_id e) es) []"

definition history_edit :: "int \<Rightarrow> dict \<Rightarrow> edit_event res" where
  "history_edit target m =
     rbind (py_int (dget m ''sender_id'' (JInt 0))) (\<lambda>sender.
     rbind (ts_of (dget m ''time'' (JStr []))) (\<lambda>ts.
       Inr \<lparr> ed_target = target, ed_body = dget m ''body'' (JStr []), ed_sender = sender, ed_ts = ts \<rparr>))"

definition history_entry_of :: "dict \<Rightarrow> entry res" where
  "history_entry_of m =
     rbind (py_int (dget m ''id'' (JInt 0))) (\<lambda>mid.
     rbind (py_int (dget m ''sender_id'' (JInt 0))) (\<lambda>sender.
     rbind (ts_of (dget m ''time'' (JStr []))) (\<lambda>ts.
     rbind (normalize_reactions (dget m ''reactions'' (JArr []))) (\<lambda>rs.
     rbind (int_or_0 m ''forwarded_from_id'') (\<lambda>forwarded.
     rbind (int_or_0 m ''reply_to_message_id'') (\<lambda>reply.
       Inr ((plain_entry sender (dget m ''body'' (JStr [])) ts mid)\<lparr> e_edited := truthy (dget m ''edited'' (JBool False)),
              e_deleted := truthy (dget m ''deleted'' (JBool False)), e_pinned := truthy (dget m ''pinned'' (JBool False)),
              e_reactions := rs, e_forwarded := forwarded, e_reply := reply, e_hidden := truthy (dget m ''hidden'' (JBool False)) \<rparr>)))))))"

text \<open>A readable text already shown is kept when the history only has a placeholder for it.\<close>

definition keep_readable :: "(int \<times> entry) list \<Rightarrow> entry \<Rightarrow> entry" where
  "keep_readable existing e = (case map_of existing (e_id e) of
       None \<Rightarrow> e
     | Some p \<Rightarrow>
         if is_unavailable_history_body (e_body e) \<and> \<not> is_unavailable_history_body (e_body p)
         then e\<lparr> e_body := e_body p, e_edited := e_edited e \<or> e_edited p, e_hidden := False \<rparr>
         else e)"

definition is_control :: "json \<Rightarrow> bool \<Rightarrow> bool" where
  "is_control body deleted = (body \<in> CONTROL_BODIES \<and> \<not> deleted)"

definition read_item :: "(int \<times> entry) list \<Rightarrow> json \<Rightarrow> (int \<times> entry) list \<times> edit_event list \<Rightarrow> ((int \<times> entry) list \<times> edit_event list) res" where
  "read_item existing j acc = (case acc of (incoming, edits) \<Rightarrow>
     rbind (as_dict j) (\<lambda>m.
       let body = dget m ''body'' (JStr [])
       in if is_control body (truthy (dget m ''deleted'' (JBool False))) then Inr acc
          else rbind (int_or_0 m ''edit_target_message_id'') (\<lambda>target.
            if 0 < target
            then (if is_unavailable_history_body body then Inr acc
                  else rbind (history_edit target m) (\<lambda>ev. Inr (incoming, edits @ [ev])))
            else rbind (history_entry_of m) (\<lambda>e.
              Inr (if 0 < e_id e then dset incoming (e_id e) (keep_readable existing e) else incoming, edits)))))"

definition merged_messages :: "(int \<times> entry) list \<Rightarrow> (int \<times> entry) list \<Rightarrow> entry list" where
  "merged_messages existing incoming =
     (let merged = dupdate existing incoming
      in filter (\<lambda>e. \<not> is_control (e_body e) (e_deleted e))
           (map (\<lambda>i. the (map_of merged i)) (filter (\<lambda>i. 0 < i) (sort (map fst merged)))))"

definition event_text :: "dict \<Rightarrow> string" where
  "event_text ev =
     (let t = py_str (py_or (py_or (py_or (dget ev ''text'' (JStr [])) (dget ev ''body'' (JStr []))) (dget ev ''message'' (JStr []))) (JStr []))
      in if starts_with t ''__SYSTEM__:'' then drop 11 t else t)"

text \<open>The loop over the server's system events, with the keys met so far.\<close>

definition read_event :: "int \<Rightarrow> json \<Rightarrow> event_key set \<times> entry list \<Rightarrow> (event_key set \<times> entry list) pg" where
  "read_event conv j acc = (case acc of (keys_met, events) \<Rightarrow>
     sbind (slift (as_dict j)) (\<lambda>ev.
       let t = event_text ev; sid = safe_int (dget ev ''system_event_id'' (dget ev ''id'' (JInt 0)));
           after = safe_int (dget ev ''after_message_id'' (JInt 0));
           keys = system_event_keys_for conv (JInt sid) (dget ev ''event_key'' JNull)
       in if t = [] \<or> set keys \<inter> keys_met \<noteq> {} then sret acc
          else sbind (smod (\<lambda>g. g\<lparr> system_event_keys := system_event_keys g \<union> set keys,
                                    failed_send_counter := failed_send_counter g + (if sid \<le> 0 then 1 else 0) \<rparr>)) (\<lambda>_.
               sbind (sget failed_send_counter) (\<lambda>counter.
               sbind (slift (ts_of (dget ev ''time'' (dget ev ''event_time'' (JStr []))))) (\<lambda>ts.
                 sret (keys_met \<union> set keys, events @ [(system_entry t ts (event_msg_id sid counter) keys sid after)\<lparr> e_persisted := True \<rparr>]))))))"

definition timeline_key :: "int \<times> entry \<Rightarrow> int \<times> int \<times> int" where
  "timeline_key p = (case p of (seq, e) \<Rightarrow> (event_anchor e 0, 1, if 0 < e_event_id e then e_event_id e else 100000000 + seq))"

definition timeline :: "entry list \<Rightarrow> entry list \<Rightarrow> entry list" where
  "timeline messages events =
     map snd (sort_key fst (map (\<lambda>e. ((e_id e, 0, e_id e), e)) messages
       @ map (\<lambda>(seq, e). (timeline_key (int seq, e), e)) (enumerate 0 events)))"

definition apply_edits :: "int \<Rightarrow> edit_event list \<Rightarrow> page \<Rightarrow> page" where
  "apply_edits conv edits g = fold (\<lambda>ev g. snd (apply_edit_event conv ev g)) edits g"

text \<open>The end of \<open>load_history\<close>: the timeline is stored and the edits are applied to it.\<close>

definition install_history :: "int \<Rightarrow> entry list \<Rightarrow> event_key set \<Rightarrow> edit_event list \<Rightarrow> unit pg" where
  "install_history conv es keys edits =
     sbind (smod (\<lambda>g. set_hist conv es (g\<lparr> system_event_keys := system_event_keys g \<union> keys \<rparr>))) (\<lambda>_.
     sbind (smod (\<lambda>g. apply_pending_edit_events conv (apply_edits conv edits g))) (\<lambda>_.
     sbind (smod (\<lambda>g. g\<lparr> history_loaded_convs := insert conv (history_loaded_convs g) \<rparr>)) (\<lambda>_ g.
       if conv = active_conv_id g
       then mark_active_conversation_read (g\<lparr> scroll_to_latest := scroll_to_latest g - {conv} \<rparr>)
       else (Inr (), g))))"

definition load_history :: "int \<Rightarrow> json list \<Rightarrow> json list \<Rightarrow> unit pg" where
  "load_history conv msgs system_events =
     sbind (smod (\<lambda>g. g\<lparr> history_loading_convs := history_loading_convs g - {conv} \<rparr>)) (\<lambda>_.
     sbind (sget (conv_hist conv)) (\<lambda>old.
     sbind (slift (rfold (read_item (by_id old)) msgs ([], []))) (\<lambda>(incoming, edits).
     sbind (sfold (read_event conv) system_events ({}, [])) (\<lambda>(keys_met, persisted).
       case split_old conv 0 old of (events, transient) \<Rightarrow>
         let kept = filter (\<lambda>e. set (e_keys e) \<inter> keys_met = {}) events
         in install_history conv (timeline (merged_messages (by_id old) incoming) (persisted @ kept) @ transient)
              (\<Union> (set ` e_keys ` set kept)) edits))))"

text \<open>\<open>c["conversation_id"] == conv_id\<close>\<close>

definition names_conv :: "int \<Rightarrow> dict \<Rightarrow> bool res" where
  "names_conv conv c = rbind (dkey c ''conversation_id'') (\<lambda>v. Inr (py_eq v (JInt conv)))"

fun other_records :: "int \<Rightarrow> dict list \<Rightarrow> dict list res" where
  "other_records conv [] = Inr []"
| "other_records conv (c # cs) = rbind (names_conv conv c) (\<lambda>same. rbind (other_records conv cs) (\<lambda>rest. Inr (if same then rest else c # rest)))"

definition remove_conversation :: "int \<Rightarrow> unit pg" where
  "remove_conversation conv =
     sbind (smod (invalidate_history conv True)) (\<lambda>_.
     sbind (\<lambda>g. (other_records conv (dm_convs g), g)) (\<lambda>dms.
     sbind (smod (dm_convs_update (\<lambda>_. dms))) (\<lambda>_.
     sbind (\<lambda>g. (other_records conv (group_convs g), g)) (\<lambda>gs.
     smod (\<lambda>g. if active_conv_id g = conv then g\<lparr> group_convs := gs, active_conv_id := 0 \<rparr> else g\<lparr> group_convs := gs \<rparr>)))))"

fun disband_record :: "int \<Rightarrow> dict list \<Rightarrow> dict list res" where
  "disband_record conv [] = Inr []"
| "disband_record conv (c # cs) = rbind (names_conv conv c) (\<lambda>same.
     if same then Inr (dset c ''is_disbanded'' (JBool True) # cs) else rbind (disband_record conv cs) (\<lambda>rest. Inr (c # rest)))"

definition mark_group_disbanded :: "int \<Rightarrow> unit pg" where
  "mark_group_disbanded conv =
     sbind (smod (\<lambda>g. g\<lparr> disbanded_convs := insert conv (disbanded_convs g) \<rparr>)) (\<lambda>_.
     sbind (\<lambda>g. (disband_record conv (group_convs g), g)) (\<lambda>gs. smod (group_convs_update (\<lambda>_. gs))))"

end
