(* ===== verification/App.thy ===== *)
theory App
  imports Messaging Audit_Client Timeline
begin

text \<open>
  The controller (\<open>client/app.py\<close>, class \<open>App\<close>): the connection, the badges that tell the user what is
  known of a contact's identity key, the audit of a key before it is used, and the start of a key
  exchange. It holds the login session and the chat page and moves data between them and the server.
  Dialogs, timers and labels are left out.
\<close>

subsection \<open>State\<close>

text \<open>
  What the controller gets from outside: the auditor's public key and its answers, the element
  \<open>set.pop\<close> takes, and the monotonic clock.
\<close>

record world =
  w_auditor :: string
  w_http :: "string \<Rightarrow> http_reply"
  w_pick :: "int set \<Rightarrow> int"
  w_mono_ms :: "nat \<Rightarrow> int"

text \<open>
  \<open>a_ws\<close> is the socket object, if any, and whether it can send. Lists of waiting messages are kept in
  \<open>a_lists\<close> and referred to by index, since \<open>_flush_pending\<close> goes on with the old list while
  a nested call replaces it. \<open>a_security\<close> to \<open>a_warnings\<close> and \<open>a_active_group\<close> are fields of the chat page.
\<close>

record app =
  a_session :: crypto_session
  a_chat :: page
  a_stack :: nat
  a_active :: bool
  a_ws :: "bool option"
  a_sent :: "dict list"
  a_login :: bool
  a_reconnect :: bool
  a_attempts :: int
  a_action :: string
  a_security :: "(int \<times> dict) list"
  a_blocked_convs :: "int set"
  a_warnings :: "(int \<times> string list) list"
  a_active_group :: bool
  a_pending_dm :: "(int \<times> int) list"
  a_kem_queue :: "(int \<times> int) list"
  a_kem_ready :: bool
  a_bundle_ready :: bool
  a_uploading :: bool
  a_publish_blocked :: bool
  a_version :: int
  a_lists :: "dict list list"
  a_pending :: nat
  a_seen :: "(int \<times> int set) list"
  a_texts :: "(int \<times> string list) list"
  a_ids :: "(int \<times> int list) list"
  a_checkpointed :: "(int \<times> int) list"

type_synonym 'a ap = "(app, 'a) act"

definition in_session :: "'a ses \<Rightarrow> 'a ap" where
  "in_session m a = (case m (a_session a) of (r, s) \<Rightarrow> (r, a\<lparr> a_session := s \<rparr>))"

definition in_chat :: "'a pg \<Rightarrow> 'a ap" where
  "in_chat m a = (case m (a_chat a) of (r, g) \<Rightarrow> (r, a\<lparr> a_chat := g \<rparr>))"

definition no_raise :: "('s \<Rightarrow> 'a \<times> 's) \<Rightarrow> ('s, 'a) act" where
  "no_raise f s = (case f s of (x, s') \<Rightarrow> (Inr x, s'))"

subsection \<open>Connection\<close>

definition show_security_warning :: "int \<Rightarrow> string list \<Rightarrow> app \<Rightarrow> app" where
  "show_security_warning conv ws a =
     (let shown = filter (\<lambda>w. strip w \<noteq> []) ws
      in a\<lparr> a_warnings := (if shown \<noteq> [] then dset (a_warnings a) conv shown else dpop (a_warnings a) conv) \<rparr>)"

definition RECONNECT_WARNING :: string where
  "RECONNECT_WARNING = ''Connection was interrupted. SecChat will reconnect automatically; failed messages can be retried after reconnect.''"

definition INTERRUPTED :: string where
  "INTERRUPTED = ''Connection was interrupted. Retry after SecChat reconnects.''"

definition schedule_reconnect :: "app \<Rightarrow> app" where
  "schedule_reconnect a =
     (if \<not> a_login a \<or> a_reconnect a then a
      else show_security_warning (active_conv_id (a_chat a)) [RECONNECT_WARNING] (a\<lparr> a_reconnect := True \<rparr>))"

text \<open>On the login and register pages (0 and 2) only the status line changes.\<close>

definition net_close :: "app \<Rightarrow> app" where
  "net_close a =
     (if a_ws a = None \<or> a_stack a = 0 \<or> a_stack a = 2 then a
      else schedule_reconnect (a\<lparr> a_active := False, a_chat := mark_pending_sends_failed INTERRUPTED (a_chat a) \<rparr>))"

text \<open>
  \<open>WSNet.send\<close> catches every error and emits \<open>on_close\<close>, which runs \<open>_net_close\<close> before it returns; so
  \<open>_safe_send\<close> returns \<open>True\<close> also when nothing was sent.
\<close>

definition safe_send :: "dict \<Rightarrow> bool ap" where
  "safe_send obj a =
     (if \<not> a_active a then (Inr False, a)
      else case a_ws a of
             None \<Rightarrow> (Inr False, a)
           | Some True \<Rightarrow> (Inr True, a\<lparr> a_sent := a_sent a @ [obj] \<rparr>)
           | Some False \<Rightarrow> (Inr True, net_close a))"

definition attempt_reconnect :: "app \<Rightarrow> app" where
  "attempt_reconnect a0 =
     (let a = a0\<lparr> a_reconnect := False \<rparr>
      in if a_active a \<or> a_stack a \<noteq> 1 \<or> \<not> a_login a then a
         else a\<lparr> a_attempts := a_attempts a + 1, a_action := ''reconnect'', a_ws := Some False \<rparr>)"

text \<open>\<open>_handle_ok\<close> for the authentication of a reconnect.\<close>

definition reconnected :: "unit ap" where
  "reconnected =
     sbind (smod (\<lambda>a. show_security_warning 0 [] (a\<lparr> a_active := True, a_attempts := 0, a_action := [] \<rparr>))) (\<lambda>_.
     sbind (safe_send [(''type'', JStr ''get_friends'')]) (\<lambda>_.
     sbind (safe_send [(''type'', JStr ''get_requests'')]) (\<lambda>_.
     sbind (safe_send [(''type'', JStr ''get_inbox'')]) (\<lambda>_. sret ()))))"

subsection \<open>What is known of an identity\<close>

definition is_group_conv :: "int \<Rightarrow> app \<Rightarrow> bool" where
  "is_group_conv conv a = (conv \<in> group_conv_ids (a_session a))"

text \<open>\<open>int(c.get(k1, 0) or c.get(k2, 0) or ... or 0)\<close>\<close>

definition first_int :: "string list \<Rightarrow> dict \<Rightarrow> int res" where
  "first_int ks c = py_int (py_or (fold (\<lambda>k j. py_or j (dget c k (JInt 0))) ks (JInt 0)) (JInt 0))"

fun find_dm :: "int \<Rightarrow> dict list \<Rightarrow> dict option res" where
  "find_dm conv [] = Inr None"
| "find_dm conv (c # cs) = rbind (record_id c) (\<lambda>i. if i = conv then Inr (Some c) else find_dm conv cs)"

definition peer_uid_for_conv :: "int \<Rightarrow> app \<Rightarrow> int res" where
  "peer_uid_for_conv conv a = (case map_of (conv_peer_uids (a_session a)) conv of
       Some u \<Rightarrow> Inr u
     | None \<Rightarrow>
         rbind (find_dm conv (dm_convs (a_chat a))) (\<lambda>hit. case hit of
             None \<Rightarrow> Inr 0
           | Some c \<Rightarrow> rbind (first_int [''with_user_id'', ''other_id'', ''user_id'', ''friend_id''] c) (\<lambda>peer.
               Inr (if peer = uid (a_session a) then 0 else peer))))"

definition safety_for :: "crypto \<Rightarrow> crypto_session \<Rightarrow> string \<Rightarrow> string res" where
  "safety_for C s pk = rbind (b64d pk) (\<lambda>raw. Inr (safety_fingerprint C (identity_pk s) raw))"

definition safety_fingerprint_for_conv :: "crypto \<Rightarrow> int \<Rightarrow> string ap" where
  "safety_fingerprint_for_conv C conv =
     sbind (\<lambda>a. (peer_uid_for_conv conv a, a)) (\<lambda>peer a.
       let known = (\<lambda>a. (Inr (dget (conv_fingerprints (a_session a)) conv []), a))
       in if 0 < peer \<and> identity_pk (a_session a) \<noteq> []
          then case load_identity_audit C peer (a_session a) of (audit, s) \<Rightarrow>
                 let pk = str_or_empty audit ''identity_pk''
                 in if pk = [] then known (a\<lparr> a_session := s \<rparr>)
                    else case safety_for C s pk of
                           Inl _ \<Rightarrow> known (a\<lparr> a_session := s \<rparr>)
                         | Inr fp \<Rightarrow> (Inr fp, a\<lparr> a_session := s\<lparr> conv_fingerprints := dset (conv_fingerprints s) conv fp \<rparr> \<rparr>)
          else known a)"

definition audit_error_badge_label :: "dict \<Rightarrow> string" where
  "audit_error_badge_label audit =
     (let ecode = str_or_empty audit ''last_error_code''
      in if ecode \<noteq> [] then ''audit '' @ audit_error_label ecode
         else if str_or_empty audit ''status'' = ''audit_unavailable'' then ''audit unavailable'' else ''audit warning'')"

definition audit_error_detail_text :: "dict \<Rightarrow> string" where
  "audit_error_detail_text audit =
     (let ecode = str_or_empty audit ''last_error_code''; message = str_or_empty audit ''last_error''
      in if ecode \<noteq> [] then audit_error_detail ecode message else message)"

text \<open>Status, label and detail of the badge; \<open>blocked\<close> is always false.\<close>

type_synonym badge = "json \<times> string \<times> string"

definition PQ_HYBRID_DETAIL :: string where
  "PQ_HYBRID_DETAIL = ''Group MLS ciphersuite: X-Wing ML-KEM-768 + X25519. PQ confidentiality; Ed25519 classical authentication.''"

definition dm_badge :: "json \<Rightarrow> bool \<Rightarrow> bool \<Rightarrow> dict \<Rightarrow> json \<times> string" where
  "dm_badge status verified has_fp audit =
     (if status = JStr ''key_changed'' then (status, ''key changed'')
      else if status = JStr ''audit_mismatch'' \<or> status = JStr ''audit_unavailable'' then (status, audit_error_badge_label audit)
      else if verified then (JStr ''verified'', ''verified'')
      else if status = JStr ''reviewed_unverified'' then (status, ''unverified'')
      else if has_fp then (JStr ''unverified'', ''verify'')
      else (status, ''verify''))"

definition security_status_for_conv :: "crypto \<Rightarrow> int \<Rightarrow> badge ap" where
  "security_status_for_conv C conv a =
     (if is_group_conv conv a then (Inr (JStr ''group_mls_pq'', ''MLS PQ'', PQ_HYBRID_DETAIL), a)
      else sbind (\<lambda>a. (peer_uid_for_conv conv a, a)) (\<lambda>peer.
           sbind (if peer \<noteq> 0 then in_session (no_raise (load_identity_audit C peer)) else sret []) (\<lambda>audit.
           sbind (safety_fingerprint_for_conv C conv) (\<lambda>fp a.
             let verified = dget (conv_verified (a_session a)) conv False;
                 has_fp = (fp \<noteq> [] \<or> dget (conv_fingerprints (a_session a)) conv [] \<noteq> [])
             in case dm_badge (dget audit ''status'' (JStr ''unknown'')) verified has_fp audit of
                  (status, label) \<Rightarrow> (Inr (status, label, audit_error_detail_text audit), a)))) a)"

fun any_record :: "int \<Rightarrow> dict list \<Rightarrow> bool res" where
  "any_record conv [] = Inr False"
| "any_record conv (c # cs) = rbind (record_id c) (\<lambda>i. if i = conv then Inr True else any_record conv cs)"

definition is_group_conversation_id :: "int \<Rightarrow> app \<Rightarrow> bool res" where
  "is_group_conversation_id conv a =
     (if conv \<le> 0 then Inr False
      else if conv = active_conv_id (a_chat a) \<and> a_active_group a then Inr True
      else any_record conv (group_convs (a_chat a)))"

definition IDENTITY_REVIEW_STATUSES :: "string list" where
  "IDENTITY_REVIEW_STATUSES = [''unverified'', ''reviewed_unverified'', ''key_changed'', ''audit_mismatch'', ''audit_unavailable'']"

definition set_conversation_security :: "int \<Rightarrow> string \<Rightarrow> string \<Rightarrow> string \<Rightarrow> bool \<Rightarrow> unit ap" where
  "set_conversation_security conv status0 label0 detail0 blocked0 =
     (let status1 = (if status0 = [] then ''unverified'' else status0)
      in sbind (\<lambda>a. (is_group_conversation_id conv a, a)) (\<lambda>group.
         let grouped = (group \<and> status1 \<in> set (IDENTITY_REVIEW_STATUSES @ [''verified'', ''unknown'']));
             status = (if grouped then ''group_mls_pq'' else status1);
             label1 = (if grouped \<and> label0 \<in> {[], ''verify'', ''unverified'', ''key changed''} then ''MLS PQ'' else label0);
             detail = (if grouped \<and> detail0 = [] then ''Group security is tracked through MLS state and member roles.'' else detail0);
             blocked = (\<not> grouped \<and> blocked0);
             label = (if label1 = [] then replace_char (CHR ''_'') (CHR '' '') status else label1)
         in smod (\<lambda>a. if status = ''none'' \<or> status = ''saved''
              then a\<lparr> a_security := dpop (a_security a) conv, a_blocked_convs := a_blocked_convs a - {conv} \<rparr>
              else a\<lparr> a_security := dset (a_security a) conv [(''status'', JStr status), (''label'', JStr label),
                       (''detail'', JStr detail), (''blocked'', JBool blocked)],
                     a_blocked_convs := (if blocked then insert conv (a_blocked_convs a) else a_blocked_convs a - {conv}) \<rparr>)))"

definition refresh_security_ui :: "crypto \<Rightarrow> int \<Rightarrow> unit ap" where
  "refresh_security_ui C conv =
     sbind (security_status_for_conv C conv) (\<lambda>(status, label, detail).
       set_conversation_security conv (py_str status) label detail False)"

subsection \<open>Auditing a key before it is used\<close>

definition dict_or_empty :: "json \<Rightarrow> dict" where
  "dict_or_empty j = (case j of JObj d \<Rightarrow> d | _ \<Rightarrow> [])"

text \<open>The pinned checkpoint of the client's own file is a dictionary or absent.\<close>

definition pinned_checkpoint :: "dict \<Rightarrow> dict" where
  "pinned_checkpoint state = dict_or_empty (dget state ''checkpoint'' JNull)"

definition audit_now :: "world \<Rightarrow> crypto \<Rightarrow> int \<Rightarrow> int \<Rightarrow> string \<Rightarrow> dict \<Rightarrow> dict ap" where
  "audit_now W C peer version pk previous =
     slift (verify_identity_from_auditor C (w_auditor W) (w_http W) peer version pk (pinned_checkpoint previous))"

definition record_ok :: "crypto \<Rightarrow> int \<Rightarrow> string \<Rightarrow> int \<Rightarrow> string \<Rightarrow> dict \<Rightarrow> dict ap" where
  "record_ok C peer pk version safety result = in_session (record_identity_audit_ok C peer pk version safety
     (dict_or_empty (dget result ''checkpoint'' JNull)) (dict_or_empty (dget result ''leaf'' JNull)))"

fun matching_entry :: "string \<Rightarrow> json list \<Rightarrow> dict res" where
  "matching_entry pk [] = Inr []"
| "matching_entry pk (j # js) = rbind (as_dict j) (\<lambda>e.
     if Audit_Client.same_identity_key (py_str (dget e ''identity_pk'' (JStr []))) pk then Inr e else matching_entry pk js)"

definition audit_again :: "world \<Rightarrow> crypto \<Rightarrow> int \<Rightarrow> string \<Rightarrow> int \<Rightarrow> string \<Rightarrow> dict \<Rightarrow> dict ap" where
  "audit_again W C peer pk version safety found =
     sbind (slift (py_int (py_or (dget found ''identity_version'' (JInt version)) (JInt 0)))) (\<lambda>effective.
     sbind (in_session (no_raise (load_auditor_state C))) (\<lambda>state.
     sbind (audit_now W C peer effective pk state) (\<lambda>result.
     sbind (in_session (record_auditor_checkpoint C (dict_or_empty (dget result ''checkpoint'' JNull)) ''pqxdh_bundle_version_recovered'' peer effective)) (\<lambda>_.
       record_ok C peer pk effective safety result))))"

definition recover_identity_audit_version_mismatch :: "world \<Rightarrow> crypto \<Rightarrow> int \<Rightarrow> string \<Rightarrow> int \<Rightarrow> string \<Rightarrow> string \<Rightarrow> dict option ap" where
  "recover_identity_audit_version_mismatch W C peer pk version safety ecode =
     (if ecode \<noteq> ''identity_version_mismatch'' \<and> ecode \<noteq> ''identity_version_not_found'' then sret None
      else case fetch_identity_history C (w_auditor W) (w_http W) peer of
             Inl _ \<Rightarrow> sret None
           | Inr history \<Rightarrow>
               sbind (slift (as_list (py_or (dget history ''entries'' JNull) (JArr [])))) (\<lambda>entries.
               sbind (slift (matching_entry pk (rev entries))) (\<lambda>found.
                 if found = [] then sret None
                 else scatch (sbind (audit_again W C peer pk version safety found) (\<lambda>state. sret (Some state))) (\<lambda>_. sret None))))"

definition note_auditor_problem :: "crypto \<Rightarrow> bool \<Rightarrow> string \<Rightarrow> string \<Rightarrow> string \<Rightarrow> crypto_session \<Rightarrow> crypto_session" where
  "note_auditor_problem C unless_pinned status error ecode s = (case load_auditor_state C s of (state, s1) \<Rightarrow>
     if unless_pinned \<and> truthy (dget state ''checkpoint'' JNull) then s1
     else save_auditor_state C (dupdate state [(''status'', JStr status), (''last_error'', JStr error), (''last_error_code'', JStr ecode),
            (''updated_at'', JInt (now_s C s1))]) s1)"

definition audit_failed :: "world \<Rightarrow> crypto \<Rightarrow> int \<Rightarrow> string \<Rightarrow> int \<Rightarrow> string \<Rightarrow> exc \<Rightarrow> dict ap" where
  "audit_failed W C peer pk version safety e = (case e of
       AuditError m c \<Rightarrow>
         let ecode = (if c \<noteq> [] then c else classify_audit_error m); status = audit_status_for_code ecode
         in sbind (in_session (smod (note_auditor_problem C False status m ecode))) (\<lambda>_.
            sbind (recover_identity_audit_version_mismatch W C peer pk version safety ecode) (\<lambda>state.
              if state = None \<or> state = Some []
              then in_session (record_identity_audit_problem C peer pk version safety status m ecode)
              else sret (the state)))
     | _ \<Rightarrow>
         let error = ''Auditor is unavailable: '' @ exc_msg e
         in sbind (in_session (smod (note_auditor_problem C True ''audit_unavailable'' error ''auditor_unavailable''))) (\<lambda>_.
            in_session (record_identity_audit_problem C peer pk version safety ''audit_unavailable'' error ''auditor_unavailable'')))"

definition audit_identity :: "world \<Rightarrow> crypto \<Rightarrow> int \<Rightarrow> string \<Rightarrow> int \<Rightarrow> string \<Rightarrow> dict ap" where
  "audit_identity W C peer pk version safety =
     sbind (in_session (no_raise (load_auditor_state C))) (\<lambda>previous.
       scatch (sbind (audit_now W C peer version pk previous) (\<lambda>result.
               sbind (scatch (in_session (record_auditor_checkpoint C (dict_or_empty (dget result ''checkpoint'' JNull)) ''pqxdh_bundle'' peer version))
                        (\<lambda>e. sraise (audit_error (exc_msg e) (classify_audit_error (exc_msg e))))) (\<lambda>_.
                 record_ok C peer pk version safety result)))
         (audit_failed W C peer pk version safety))"

definition own_safety :: "crypto \<Rightarrow> crypto_session \<Rightarrow> string \<Rightarrow> string" where
  "own_safety C s pk = (if identity_pk s = [] \<or> pk = [] then [] else case safety_for C s pk of Inl _ \<Rightarrow> [] | Inr n \<Rightarrow> n)"

definition audit_pqxdh_bundle_identity :: "world \<Rightarrow> crypto \<Rightarrow> int \<Rightarrow> dict \<Rightarrow> dict ap" where
  "audit_pqxdh_bundle_identity W C conv msg =
     sbind (slift (int_or_0 msg ''user_id'')) (\<lambda>peer.
     sbind (slift (int_or_0 msg ''identity_version'')) (\<lambda>version.
       let pk = str_or_empty msg ''identity_pk''
       in if peer \<le> 0 then sret [(''status'', JStr ''none''), (''identity_pk'', JStr pk)]
          else sbind (sget (\<lambda>a. own_safety C (a_session a) pk)) (\<lambda>safety.
               sbind (in_session (smod (\<lambda>s. s\<lparr> conv_fingerprints := dset (conv_fingerprints s) conv
                 (if safety \<noteq> [] then safety else dget (conv_fingerprints s) conv []) \<rparr>))) (\<lambda>_.
               sbind (audit_identity W C peer pk version safety) (\<lambda>state.
               sbind (refresh_security_ui C conv) (\<lambda>_. sret state))))))"

definition record_incoming_pq_identity :: "world \<Rightarrow> crypto \<Rightarrow> int \<Rightarrow> dict \<Rightarrow> unit ap" where
  "record_incoming_pq_identity W C conv result =
     sbind (slift (int_or_0 result ''peer_uid'')) (\<lambda>peer.
       let pk = str_or_empty result ''peer_identity_pk'';
           version = (case dget result ''peer_identity_version'' JNull of JNull \<Rightarrow> None | j \<Rightarrow> res_opt (py_int j))
       in if peer \<le> 0 \<or> pk = [] then sret ()
          else sbind (\<lambda>a. case safety_for C (a_session a) pk of
                 Inl _ \<Rightarrow> (Inr (str_or_empty result ''fingerprint''), a)
               | Inr n \<Rightarrow> (Inr n, a\<lparr> a_session := (a_session a)\<lparr> conv_fingerprints := dset (conv_fingerprints (a_session a)) conv n \<rparr> \<rparr>)) (\<lambda>safety.
               sbind (case version of
                   None \<Rightarrow> in_session (record_identity_seen_unverified C peer pk None safety ''pqxdh_initial'')
                 | Some v \<Rightarrow> audit_pqxdh_bundle_identity W C conv
                     [(''user_id'', JInt peer), (''identity_pk'', JStr pk), (''identity_version'', JInt v)]) (\<lambda>_.
               refresh_security_ui C conv)))"

text \<open>The server says that a contact has a new key: the same for every conversation with the contact.\<close>

definition flag_key_change :: "crypto \<Rightarrow> int \<Rightarrow> string \<Rightarrow> int \<Rightarrow> unit ses" where
  "flag_key_change C u pk version s =
     (let safety = (case safety_for C s pk of Inl _ \<Rightarrow> [] | Inr n \<Rightarrow> n)
      in case load_identity_audit C u s of (old, s1) \<Rightarrow>
           case list_or_empty old ''history'' of
             Inl e \<Rightarrow> (Inl e, s1)
           | Inr past \<Rightarrow>
               let entry = JObj (history_entry (now_s C s1) (JStr ''rotation'') version pk safety (JStr ''primary device'') (JStr []))
               in (Inr (), save_identity_audit C u (dupdate old [(''status'', JStr ''key_changed''), (''identity_pk'', JStr pk),
                     (''identity_version'', JInt version), (''safety_number'', JStr safety), (''history'', JArr (last_n 20 (past @ [entry]))),
                     (''last_error'', JStr ''Safety number changed and needs review.''), (''last_error_code'', JStr [])]) s1))"

definition changed_in_conv :: "crypto \<Rightarrow> int \<Rightarrow> string \<Rightarrow> int \<Rightarrow> int \<times> int \<Rightarrow> unit \<Rightarrow> unit ap" where
  "changed_in_conv C u pk version item _ = (case item of (conv, peer) \<Rightarrow>
     if peer \<noteq> u then sret ()
     else sbind (in_session (smod (\<lambda>s. s\<lparr> conv_verified := dset (conv_verified s) conv False \<rparr>))) (\<lambda>_.
          sbind (scatch (in_session (save_verified C conv False)) (\<lambda>_. sret ())) (\<lambda>_.
          sbind (if pk \<noteq> [] then in_session (flag_key_change C u pk version) else sret ()) (\<lambda>_.
          refresh_security_ui C conv))))"

definition handle_identity_changed :: "crypto \<Rightarrow> dict \<Rightarrow> unit ap" where
  "handle_identity_changed C msg =
     sbind (slift (int_or_0 msg ''user_id'')) (\<lambda>u.
     sbind (sget (\<lambda>a. uid (a_session a))) (\<lambda>me.
       if u \<le> 0 \<or> u = me then sret ()
       else sbind (slift (int_or_0 msg ''identity_version'')) (\<lambda>version.
            sbind (sget (\<lambda>a. conv_peer_uids (a_session a))) (\<lambda>items.
              sfold (changed_in_conv C u (str_or_empty msg ''identity_pk'') version) items ()))))"

subsection \<open>Starting a key exchange\<close>

fun dm_peer :: "int \<Rightarrow> dict list \<Rightarrow> int res" where
  "dm_peer conv [] = Inr 0"
| "dm_peer conv (c # cs) = rbind (record_id c) (\<lambda>i.
     if i \<noteq> conv then dm_peer conv cs
     else rbind (first_int [''with_user_id'', ''user_id'', ''other_id''] c) (\<lambda>peer. if 0 < peer then Inr peer else dm_peer conv cs))"

definition peer_uid_for_dm_conv :: "int \<Rightarrow> int ap" where
  "peer_uid_for_dm_conv conv a =
     (let known = dget (conv_peer_uids (a_session a)) conv 0
      in if 0 < known then (Inr known, a)
         else case dm_peer conv (dm_convs (a_chat a)) of
                Inl e \<Rightarrow> (Inl e, a)
              | Inr peer \<Rightarrow> (Inr peer, if 0 < peer
                  then a\<lparr> a_session := (a_session a)\<lparr> conv_peer_uids := dset (conv_peer_uids (a_session a)) conv peer \<rparr> \<rparr> else a))"

definition ask_for_bundle :: "int \<Rightarrow> unit ap" where
  "ask_for_bundle peer = sbind (safe_send [(''type'', JStr ''get_pqxdh_bundle''), (''user_id'', JInt peer)]) (\<lambda>_. sret ())"

definition request_bundle :: "int \<Rightarrow> int \<Rightarrow> bool ap" where
  "request_bundle conv peer a0 =
     (let a = a0\<lparr> a_pending_dm := dset (a_pending_dm a0) peer conv \<rparr>
      in if a_kem_ready a \<and> \<not> a_uploading a then sbind (ask_for_bundle peer) (\<lambda>_. sret False) a
         else (Inr False, if (conv, peer) \<in> set (a_kem_queue a) then a else a\<lparr> a_kem_queue := a_kem_queue a @ [(conv, peer)] \<rparr>))"

definition want_session :: "int \<Rightarrow> bool ap" where
  "want_session conv =
     sbind (peer_uid_for_dm_conv conv) (\<lambda>peer a.
       if peer \<le> 0 \<or> peer = uid (a_session a) \<or> dget (a_pending_dm a) peer 0 = conv then (Inr False, a)
       else request_bundle conv peer a)"

definition ensure_pqxdh_dm_session :: "crypto \<Rightarrow> int \<Rightarrow> bool ap" where
  "ensure_pqxdh_dm_session C conv a =
     (if conv \<le> 0 \<or> is_group_conv conv a then (Inr False, a)
      else sbind (in_session (no_raise (load_double_ratchet C conv))) (\<lambda>state a.
           if state \<noteq> None then (Inr True, a)
           else if a_publish_blocked a then (Inr False, a)
           else want_session conv a) a)"

definition drain_pending_key_requests :: "unit ap" where
  "drain_pending_key_requests a =
     (if a_uploading a \<or> a_publish_blocked a \<or> \<not> a_bundle_ready a then (Inr (), a)
      else sfold (\<lambda>(conv, u) _. if 0 < u then sbind (smod (\<lambda>a. a\<lparr> a_pending_dm := dset (a_pending_dm a) u conv \<rparr>)) (\<lambda>_. ask_for_bundle u)
                               else sret ())
             (a_kem_queue a) () (a\<lparr> a_kem_ready := True, a_kem_queue := [] \<rparr>))"

definition not_published :: "app \<Rightarrow> app" where
  "not_published a = a\<lparr> a_uploading := False, a_bundle_ready := False, a_kem_ready := False \<rparr>"

definition publish_fresh_pqxdh_bundle_for_current_device :: "crypto \<Rightarrow> bool ap" where
  "publish_fresh_pqxdh_bundle_for_current_device C a = (case in_session (fresh_pqxdh_bundle_command C) a of
       (Inl _, a1) \<Rightarrow> (Inr False, not_published a1)
     | (Inr None, a1) \<Rightarrow> (Inr False, not_published a1)
     | (Inr (Some upload), a1) \<Rightarrow>
         if upload = [] then (Inr False, not_published a1)
         else sbind (smod (\<lambda>a. a\<lparr> a_uploading := True, a_publish_blocked := False, a_bundle_ready := False, a_kem_ready := False \<rparr>)) (\<lambda>_.
              sbind (safe_send upload) (\<lambda>ok.
              sbind (smod (\<lambda>a. if ok then a else a\<lparr> a_uploading := False \<rparr>)) (\<lambda>_. sret ok))) a1)"

definition handle_pqxdh_status :: "crypto \<Rightarrow> dict \<Rightarrow> unit ap" where
  "handle_pqxdh_status C msg =
     sbind (smod (\<lambda>a. case py_int (py_or (dget msg ''identity_version'' (JInt (a_version a))) (JInt 0)) of
         Inl _ \<Rightarrow> a | Inr v \<Rightarrow> a\<lparr> a_version := v \<rparr>)) (\<lambda>_ a.
       if a_publish_blocked a then (Inr (), not_published a)
       else if a_uploading a then (Inr (), a\<lparr> a_bundle_ready := False, a_kem_ready := False \<rparr>)
       else sbind (slift (int_or_0 msg ''curve_prekeys'')) (\<lambda>curve.
            sbind (slift (int_or_0 msg ''pq_prekeys'')) (\<lambda>pq.
            sbind (if \<not> truthy (dget msg ''has_bundle'' (JBool False)) \<or> curve < 3 \<or> pq < 3 then sret True
                   else sbind (in_session (no_raise (load_pqxdh_prekeys C))) (\<lambda>store. sret (store = None))) (\<lambda>need.
              if need then sbind (publish_fresh_pqxdh_bundle_for_current_device C) (\<lambda>_. sret ())
              else sbind (smod (\<lambda>a. a\<lparr> a_uploading := False, a_bundle_ready := True \<rparr>)) (\<lambda>_. drain_pending_key_requests)))) a)"

text \<open>\<open>_handle_ok\<close> for an accepted upload.\<close>

definition bundle_uploaded :: "unit ap" where
  "bundle_uploaded =
     sbind (smod (\<lambda>a. a\<lparr> a_uploading := False, a_publish_blocked := False, a_bundle_ready := True, a_kem_ready := True \<rparr>)) (\<lambda>_.
       drain_pending_key_requests)"

definition BLOCKED_WARNING :: string where
  "BLOCKED_WARNING = ''This VNC cannot publish a matching SecChat key bundle for this account yet. Restore an E2EE backup on this VNC or rotate the safety key deliberately before starting a new encrypted DM segment.''"

text \<open>The conversation to open next and the refresh of the inbox are the page's.\<close>

definition handle_dm_ready :: "crypto \<Rightarrow> dict \<Rightarrow> unit ap" where
  "handle_dm_ready C msg =
     sbind (slift (py_int (dget msg ''conversation_id'' (JInt 0)))) (\<lambda>conv.
     sbind (slift (py_int (dget msg ''with_user_id'' (JInt 0)))) (\<lambda>peer.
     sbind (in_session (smod (\<lambda>s. if 0 < conv \<and> 0 < peer \<and> peer \<noteq> uid s then s\<lparr> conv_peer_uids := dset (conv_peer_uids s) conv peer \<rparr> else s))) (\<lambda>_.
     sbind (safe_send [(''type'', JStr ''get_inbox'')]) (\<lambda>_.
     sbind (if 0 < conv \<and> 0 < peer then in_session (no_raise (load_double_ratchet C conv)) else sret None) (\<lambda>state a.
       if state \<noteq> None then (Inr (), a)
       else if a_publish_blocked a then (Inr (), show_security_warning conv [BLOCKED_WARNING] a)
       else if 0 < conv \<and> 0 < peer
       then sbind (smod (\<lambda>a. a\<lparr> a_pending_dm := dset (a_pending_dm a) peer conv \<rparr>)) (\<lambda>_ a.
              if a_kem_ready a then ask_for_bundle peer a
              else (Inr (), a\<lparr> a_kem_queue := a_kem_queue a @ [(conv, peer)] \<rparr>)) a
       else (Inr (), a))))))"

end
