(* ===== verification/App_Messages.thy ===== *)
theory App_Messages
  imports App Transcript Cache
begin

text \<open>
  The messages of the controller (\<open>client/app.py\<close>): sending with a local bubble and the queue of texts
  that waits for the server's echo, receiving, the list of messages that wait for a key, edits and deletions,
  and the key exchange that ends the waiting.
\<close>

subsection \<open>Messages seen and messages waiting\<close>

definition waiting_messages :: "app \<Rightarrow> dict list" where
  "waiting_messages a = a_lists a ! a_pending a"

text \<open>\<open>while len(seen) > 9_000: seen.pop()\<close> once there are more than 10 000\<close>

definition trim_seen :: "world \<Rightarrow> int set \<Rightarrow> int set" where
  "trim_seen W S = (if 10000 < card S then ((\<lambda>S. S - {w_pick W S}) ^^ (card S - 9000)) S else S)"

definition seen_ids :: "int \<Rightarrow> app \<Rightarrow> int set" where
  "seen_ids conv a = dget (a_seen a) conv {}"

definition mark_msg_seen :: "world \<Rightarrow> int \<Rightarrow> int \<Rightarrow> app \<Rightarrow> app" where
  "mark_msg_seen W conv mid a =
     (if mid = 0 then a else a\<lparr> a_seen := dset (a_seen a) conv (trim_seen W (insert mid (seen_ids conv a))) \<rparr>)"

fun any_waiting :: "int \<Rightarrow> dict list \<Rightarrow> bool res" where
  "any_waiting mid [] = Inr False"
| "any_waiting mid (p # ps) = rbind (int_or_0 p ''id'') (\<lambda>i. if i = mid \<and> 0 < mid then Inr True else any_waiting mid ps)"

definition wait_for_key :: "int \<Rightarrow> dict \<Rightarrow> unit ap" where
  "wait_for_key mid msg a = (case any_waiting mid (waiting_messages a) of
       Inl e \<Rightarrow> (Inl e, a)
     | Inr True \<Rightarrow> (Inr (), a)
     | Inr False \<Rightarrow> (Inr (), a\<lparr> a_lists := (a_lists a)[a_pending a := waiting_messages a @ [msg]] \<rparr>))"

subsection \<open>Showing a message\<close>

definition maybe_send_transcript_checkpoint :: "world \<Rightarrow> crypto \<Rightarrow> int \<Rightarrow> bool \<Rightarrow> unit ap" where
  "maybe_send_transcript_checkpoint W C conv force a =
     (let s = a_session a; now = w_mono_ms W (tick s)
      in if conv \<le> 0 \<or> conv \<notin> group_conv_ids s \<or> identity_sk s = [] \<or> identity_pk s = []
            \<or> (\<not> force \<and> now - dget (a_checkpointed a) conv 0 < 5000)
         then (Inr (), a)
         else case in_session (create_transcript_checkpoint C conv) a of
                (Inl _, a1) \<Rightarrow> (Inr (), a1)
              | (Inr wire, a1) \<Rightarrow>
                  if wire = [] then (Inr (), a1)
                  else sbind (safe_send [(''type'', JStr ''message''), (''conversation_id'', JInt conv), (''body'', JStr wire)]) (\<lambda>ok.
                       smod (\<lambda>a. if ok then a\<lparr> a_checkpointed := dset (a_checkpointed a) conv now \<rparr> else a)) a1)"

definition LOCK_PREFIX :: string where
  "LOCK_PREFIX = ''['' @ map char_of [0xC3, 0xB0, 0xC5, 0xB8, 0xE2, 0x80, 0x9D, 0xC2, 0x90 :: nat]"

definition is_plain :: "string \<Rightarrow> bool" where
  "is_plain body = (body \<noteq> ''[message sent]'' \<and> \<not> starts_with body LOCK_PREFIX
     \<and> \<not> starts_with body ''[Cannot'' \<and> \<not> starts_with body ''[Encrypted'')"

definition note_transcript :: "crypto \<Rightarrow> dict \<Rightarrow> int \<Rightarrow> int \<Rightarrow> int \<Rightarrow> string \<Rightarrow> string \<Rightarrow> int \<Rightarrow> unit ap" where
  "note_transcript C raw conv mid sender body ts target =
     (if 0 < mid then in_session (record_transcript_message C conv mid sender body (py_str (dget raw ''time'' (JStr ts))) target
        (truthy (dget raw ''deleted'' (JBool False)))) else sret ())"

definition cache_plain :: "crypto \<Rightarrow> int \<Rightarrow> int \<Rightarrow> int \<Rightarrow> string \<Rightarrow> string \<Rightarrow> unit ap" where
  "cache_plain C conv mid sender body ts = in_session (cache_message C conv mid sender body ts)"

definition show_edit :: "world \<Rightarrow> crypto \<Rightarrow> dict \<Rightarrow> int \<Rightarrow> int \<Rightarrow> string \<Rightarrow> string \<Rightarrow> int \<Rightarrow> int \<Rightarrow> unit ap" where
  "show_edit W C raw conv sender body ts mid target =
     sbind (in_chat (no_raise (apply_edit_event conv \<lparr> ed_target = target, ed_body = JStr body, ed_sender = sender, ed_ts = ts \<rparr>))) (\<lambda>updated.
     sbind (note_transcript C raw conv mid sender body ts target) (\<lambda>_.
     sbind (if is_plain body
            then sbind (cache_plain C conv mid sender body ts) (\<lambda>_.
                 if updated \<noteq> None then cache_plain C conv target sender body ts else sret ())
            else sret ()) (\<lambda>_.
     maybe_send_transcript_checkpoint W C conv False)))"

definition show_new :: "world \<Rightarrow> crypto \<Rightarrow> dict \<Rightarrow> int \<Rightarrow> int \<Rightarrow> string \<Rightarrow> string \<Rightarrow> int \<Rightarrow> unit ap" where
  "show_new W C raw conv sender body ts mid =
     sbind (slift (int_or_0 raw ''forwarded_from_id'')) (\<lambda>forwarded.
     sbind (slift (int_or_0 raw ''reply_to_message_id'')) (\<lambda>reply.
     sbind (in_chat (add_msg conv sender (JStr body) ts mid (truthy (dget raw ''pinned'' (JBool False))) (dget raw ''reactions'' (JArr [])) forwarded reply)) (\<lambda>_.
     sbind (note_transcript C raw conv mid sender body ts 0) (\<lambda>_.
     sbind (if is_plain body then cache_plain C conv mid sender body ts else sret ()) (\<lambda>_.
     maybe_send_transcript_checkpoint W C conv False)))))"

definition handle_decrypted_message :: "world \<Rightarrow> crypto \<Rightarrow> dict \<Rightarrow> int \<Rightarrow> int \<Rightarrow> json \<Rightarrow> string \<Rightarrow> int \<Rightarrow> unit ap" where
  "handle_decrypted_message W C raw conv sender body0 ts mid =
     sbind (slift (int_or_0 raw ''edit_target_message_id'')) (\<lambda>target.
       case unpack_value body0 of
         JStr body \<Rightarrow> if 0 < target then show_edit W C raw conv sender body ts mid target else show_new W C raw conv sender body ts mid
       | _ \<Rightarrow> sraise (AttributeError ''startswith''))"

subsection \<open>Receiving\<close>

text \<open>\<open>deque.popleft()\<close> of a queue that is there and not empty\<close>

definition pop_text :: "int \<Rightarrow> app \<Rightarrow> string \<times> app" where
  "pop_text conv a = (case dget (a_texts a) conv [] of
       [] \<Rightarrow> (''[message sent]'', a)
     | t # ts \<Rightarrow> (t, a\<lparr> a_texts := dset (a_texts a) conv ts \<rparr>))"

definition pop_id :: "int \<Rightarrow> app \<Rightarrow> int \<times> app" where
  "pop_id conv a = (case dget (a_ids a) conv [] of
       [] \<Rightarrow> (0, a)
     | i # is \<Rightarrow> (i, a\<lparr> a_ids := dset (a_ids a) conv is \<rparr>))"

definition note_peer :: "world \<Rightarrow> crypto \<Rightarrow> int \<Rightarrow> dict \<Rightarrow> unit ap" where
  "note_peer W C conv result =
     sbind (if truthy (dget result ''peer_uid'' JNull)
            then sbind (slift (int_or_0 result ''peer_uid'')) (\<lambda>peer.
                 in_session (smod (\<lambda>s. s\<lparr> conv_peer_uids := dset (conv_peer_uids s) conv peer \<rparr>)))
            else sret ()) (\<lambda>_.
     if truthy (dget result ''peer_identity_pk'' JNull) then record_incoming_pq_identity W C conv result else sret ())"

definition note_fingerprint :: "crypto \<Rightarrow> int \<Rightarrow> dict \<Rightarrow> unit ap" where
  "note_fingerprint C conv result =
     (if \<not> truthy (dget result ''fingerprint'' JNull) then sret ()
      else sbind (in_session (smod (\<lambda>s. s\<lparr> conv_fingerprints := dset (conv_fingerprints s) conv (py_str (dget result ''fingerprint'' JNull)) \<rparr>))) (\<lambda>_.
           sbind (\<lambda>a. if conv = active_conv_id (a_chat a) then safety_fingerprint_for_conv C conv a else (Inr [], a)) (\<lambda>_.
           scatch (refresh_security_ui C conv) (\<lambda>_. sret ()))))"

definition echoed_text :: "int \<Rightarrow> string ap" where
  "echoed_text conv =
     sbind (no_raise (pop_text conv)) (\<lambda>body.
     sbind (no_raise (pop_id conv)) (\<lambda>pending_id.
     sbind (in_chat (smod (remove_pending_send conv body pending_id))) (\<lambda>_. sret body)))"

text \<open>A decrypted message or an echo.\<close>

definition receive_visible :: "world \<Rightarrow> crypto \<Rightarrow> dict \<Rightarrow> int \<Rightarrow> int \<Rightarrow> int \<Rightarrow> bool \<Rightarrow> dict \<Rightarrow> unit ap" where
  "receive_visible W C msg conv sender mid echo result =
     sbind (note_peer W C conv result) (\<lambda>_.
     sbind (if echo then sbind (echoed_text conv) (\<lambda>t. sret (JStr t)) else sret (dget result ''body'' (dget msg ''body'' (JStr [])))) (\<lambda>body.
     sbind (slift (ts_of (dget msg ''time'' (JStr [])))) (\<lambda>ts.
     sbind (handle_decrypted_message W C msg conv sender body ts mid) (\<lambda>_.
     if echo then sret () else sbind (safe_send [(''type'', JStr ''get_friends'')]) (\<lambda>_. sret ())))))"

text \<open>What was received as control material; the result is whether waiting messages are tried again.\<close>

definition receive_control :: "world \<Rightarrow> crypto \<Rightarrow> int \<Rightarrow> dict \<Rightarrow> bool ap" where
  "receive_control W C conv result =
     sbind (in_session (no_raise (pop_control_warnings conv))) (\<lambda>ws.
     sbind (smod (\<lambda>a. if ws \<noteq> [] then show_security_warning conv ws a else a)) (\<lambda>_.
     sbind (note_peer W C conv result) (\<lambda>_.
     sbind (note_fingerprint C conv result) (\<lambda>_.
     sret (truthy (dget result ''ready'' JNull))))))"

text \<open>
  \<open>_handle_message\<close> up to the call of \<open>_flush_pending\<close>; the result says for which conversation it is called.
\<close>

definition receive :: "world \<Rightarrow> crypto \<Rightarrow> dict \<Rightarrow> int option ap" where
  "receive W C msg =
     sbind (slift (int_or_0 msg ''conversation_id'')) (\<lambda>conv.
     sbind (slift (py_int (py_or (py_or (dget msg ''from_id'' (JInt 0)) (dget msg ''sender_id'' (JInt 0))) (JInt 0)))) (\<lambda>sender.
     sbind (slift (int_or_0 msg ''id'')) (\<lambda>mid a.
       if mid \<noteq> 0 \<and> mid \<in> seen_ids conv a then (Inr None, a)
       else sbind (in_session (decrypt_live_message C msg)) (\<lambda>result.
            let status = dget result ''status'' JNull
            in if status = JStr ''pending'' then sbind (wait_for_key mid msg) (\<lambda>_. sret None)
               else sbind (smod (mark_msg_seen W conv mid)) (\<lambda>_.
                    if status = JStr ''hidden'' then sret None
                    else if status = JStr ''control''
                    then sbind (receive_control W C conv result) (\<lambda>ready. sret (if ready then Some conv else None))
                    else sbind (receive_visible W C msg conv sender mid (status = JStr ''self_echo'') result) (\<lambda>_. sret None))) a)))"

text \<open>
  \<open>_handle_message\<close> and \<open>_flush_pending\<close> call each other, and the loop of \<open>_flush_pending\<close> runs over a list that
  may grow while it runs. A call is one of the two, or the loop at an index of a list with the messages kept so
  far; the first argument of \<open>run\<close> bounds the depth, and \<open>None\<close> is a run that did not end within it.
\<close>

datatype call = Handle dict | Flush int | Loop int nat nat "dict list"

definition and_then :: "(unit res \<times> app) option \<Rightarrow> (app \<Rightarrow> (unit res \<times> app) option) \<Rightarrow> (unit res \<times> app) option" where
  "and_then r k = (case r of None \<Rightarrow> None | Some (x, a) \<Rightarrow> (case x of Inl e \<Rightarrow> Some (Inl e, a) | Inr _ \<Rightarrow> k a))"

primrec run :: "nat \<Rightarrow> world \<Rightarrow> crypto \<Rightarrow> call \<Rightarrow> app \<Rightarrow> (unit res \<times> app) option" where
  "run 0 W C c a = None"
| "run (Suc n) W C c a = (case c of
       Handle msg \<Rightarrow>
         (case receive W C msg a of
            (Inl e, a') \<Rightarrow> Some (Inl e, a')
          | (Inr None, a') \<Rightarrow> Some (Inr (), a')
          | (Inr (Some conv), a') \<Rightarrow> run n W C (Flush conv) a')
     | Flush conv \<Rightarrow> run n W C (Loop conv (a_pending a) 0 []) a
     | Loop conv ref i remaining \<Rightarrow>
         if length (a_lists a ! ref) \<le> i
         then Some (Inr (), a\<lparr> a_lists := a_lists a @ [remaining], a_pending := length (a_lists a) \<rparr>)
         else let m = a_lists a ! ref ! i
              in case py_int (dget m ''conversation_id'' (JInt 0)) of
                   Inl e \<Rightarrow> Some (Inl e, a)
                 | Inr c \<Rightarrow>
                     if c \<noteq> conv then run n W C (Loop conv ref (i + 1) (remaining @ [m])) a
                     else and_then (run n W C (Handle m) a) (run n W C (Loop conv ref (i + 1) remaining)))"

definition handle_message :: "nat \<Rightarrow> world \<Rightarrow> crypto \<Rightarrow> dict \<Rightarrow> app \<Rightarrow> (unit res \<times> app) option" where
  "handle_message n W C msg a = run n W C (Handle msg) a"

definition flush_pending :: "nat \<Rightarrow> world \<Rightarrow> crypto \<Rightarrow> int \<Rightarrow> app \<Rightarrow> (unit res \<times> app) option" where
  "flush_pending n W C conv a = run n W C (Flush conv) a"

definition handle_message_edited :: "crypto \<Rightarrow> dict \<Rightarrow> unit ap" where
  "handle_message_edited C msg =
     sbind (slift (py_int (dget msg ''conversation_id'' (JInt 0)))) (\<lambda>conv.
     sbind (slift (py_int (dget msg ''id'' (JInt 0)))) (\<lambda>mid.
     sbind (in_chat (no_raise (update_message conv mid (dget msg ''new_body'' (JStr [])) True False))) (\<lambda>updated.
       case dget msg ''new_body'' (JStr []) of
         JStr body \<Rightarrow>
           if starts_with body ''[Cannot'' then sret ()
           else sbind (slift (int_or_0 msg ''from_id'')) (\<lambda>from.
                sbind (slift (ts_of (dget msg ''time'' (JStr [])))) (\<lambda>ts.
                  cache_plain C conv mid (if from = 0 then (case updated of Some e \<Rightarrow> e_sender e | None \<Rightarrow> 0) else from) body
                    (if ts = [] then (case updated of Some e \<Rightarrow> e_ts e | None \<Rightarrow> []) else ts)))
       | _ \<Rightarrow> sraise (AttributeError ''startswith''))))"

definition handle_message_deleted :: "dict \<Rightarrow> unit ap" where
  "handle_message_deleted msg =
     sbind (slift (py_int (dget msg ''conversation_id'' (JInt 0)))) (\<lambda>conv.
     sbind (slift (py_int (dget msg ''id'' (JInt 0)))) (\<lambda>mid.
     sbind (in_chat (no_raise (update_message conv mid (JStr []) False True))) (\<lambda>_. sret ())))"

subsection \<open>Sending\<close>

text \<open>\<open>None\<close> is a failure the user was told about.\<close>

definition encrypt_body :: "crypto \<Rightarrow> int \<Rightarrow> string \<Rightarrow> string option ap" where
  "encrypt_body C conv body a = (case (if \<not> is_group_conv conv a \<and> a_publish_blocked a
         then (Inl (CryptoStateError BLOCKED_WARNING), a) else in_session (encrypt_for_conv C conv body) a) of
       (Inr wire, a1) \<Rightarrow> (Inr (if wire = [] then None else Some wire), a1)
     | (Inl (CryptoStateError m), a1) \<Rightarrow>
         if is_group_conv conv a1 then (Inr None, a1)
         else sbind (ensure_pqxdh_dm_session C conv) (\<lambda>_. sret None) a1
     | (Inl e, a1) \<Rightarrow> (Inl e, a1))"

definition NOT_READY :: string where
  "NOT_READY = ''Encryption is not ready yet. Retry after the key exchange finishes.''"

definition NO_CONNECTION :: string where
  "NO_CONNECTION = ''Connection is not available. Retry after reconnecting.''"

definition push_text :: "int \<Rightarrow> string \<Rightarrow> app \<Rightarrow> app" where
  "push_text conv body a = a\<lparr> a_texts := dset (a_texts a) conv (dget (a_texts a) conv [] @ [body]) \<rparr>"

definition push_id :: "int \<Rightarrow> int \<Rightarrow> app \<Rightarrow> app" where
  "push_id conv i a = a\<lparr> a_ids := dset (a_ids a) conv (dget (a_ids a) conv [] @ [i]) \<rparr>"

text \<open>\<open>deque.pop()\<close>; an empty queue raises, which is ignored.\<close>

definition unpush :: "int \<Rightarrow> app \<Rightarrow> app" where
  "unpush conv a = a\<lparr> a_texts := (if dget (a_texts a) conv [] = [] then a_texts a else dset (a_texts a) conv (butlast (dget (a_texts a) conv []))),
                      a_ids := (if dget (a_ids a) conv [] = [] then a_ids a else dset (a_ids a) conv (butlast (dget (a_ids a) conv []))) \<rparr>"

definition message_command :: "int \<Rightarrow> string \<Rightarrow> int \<Rightarrow> dict" where
  "message_command conv wire reply =
     [(''type'', JStr ''message''), (''conversation_id'', JInt conv), (''body'', JStr wire)]
     @ (if 0 < reply then [(''reply_to_message_id'', JInt reply)] else [])"

text \<open>The send itself: bubble, cache, queues, command, and what is undone when there is no session.\<close>

definition send_wire :: "crypto \<Rightarrow> int \<Rightarrow> string \<Rightarrow> string \<Rightarrow> int \<Rightarrow> unit ap" where
  "send_wire C conv body wire reply =
     sbind (in_chat (no_raise (show_send_pending conv body [] reply))) (\<lambda>pending_id.
     sbind (in_session (\<lambda>s. cache_outgoing_wire C conv wire (uid s) body [] s)) (\<lambda>_.
     sbind (smod (\<lambda>a. push_id conv pending_id (push_text conv body a))) (\<lambda>_.
     sbind (safe_send (message_command conv wire reply)) (\<lambda>ok.
       if ok then sret ()
       else smod (\<lambda>a. let a1 = unpush conv (a\<lparr> a_chat := remove_pending_send conv [] pending_id (a_chat a) \<rparr>)
                      in a1\<lparr> a_chat := show_send_failed conv body NO_CONNECTION [] (a_chat a1) \<rparr>)))))"

definition send_message :: "crypto \<Rightarrow> int \<Rightarrow> string \<Rightarrow> int \<Rightarrow> unit ap" where
  "send_message C conv body reply =
     sbind (refresh_security_ui C conv) (\<lambda>_.
     sbind (encrypt_body C conv body) (\<lambda>payload. case payload of
         None \<Rightarrow> in_chat (smod (show_send_failed conv body NOT_READY []))
       | Some wire \<Rightarrow> send_wire C conv body wire reply))"

definition edit_message :: "crypto \<Rightarrow> int \<Rightarrow> int \<Rightarrow> string \<Rightarrow> unit ap" where
  "edit_message C conv mid body =
     sbind (encrypt_body C conv body) (\<lambda>payload. case payload of
         None \<Rightarrow> sret ()
       | Some wire \<Rightarrow>
           sbind (smod (push_text conv body)) (\<lambda>_.
           sbind (safe_send [(''type'', JStr ''edit_message''), (''message_id'', JInt mid), (''new_body'', JStr wire)]) (\<lambda>_. sret ())))"

definition delete_message :: "int \<Rightarrow> unit ap" where
  "delete_message mid = sbind (safe_send [(''type'', JStr ''delete_message''), (''message_id'', JInt mid)]) (\<lambda>_. sret ())"

text \<open>The server refuses a message (\<open>_handle_error\<close>): its errors do not say which one.\<close>

definition SEND_ERRORS :: "string list" where
  "SEND_ERRORS = [''Cannot send message'', ''Not a member of this conversation'', ''Group has been disbanded'', ''Rate limit exceeded'',
     ''Message body is empty or too large'', ''Unsupported or unsupported encrypted message'']"

definition send_refused :: "string \<Rightarrow> app \<Rightarrow> app" where
  "send_refused t a = (if a_stack a = 1 \<and> list_ex (\<lambda>f. contains f t) SEND_ERRORS
     then a\<lparr> a_chat := mark_pending_sends_failed t (a_chat a) \<rparr> else a)"

subsection \<open>The key exchange\<close>

text \<open>The answer to \<open>get_pqxdh_bundle\<close>; errors of the exchange are shown to the user.\<close>

definition start_exchange :: "world \<Rightarrow> crypto \<Rightarrow> int \<Rightarrow> int \<Rightarrow> dict \<Rightarrow> unit ap" where
  "start_exchange W C conv peer msg =
     sbind (\<lambda>a. in_session (initiate_pqxdh_dm C msg conv peer (Some (a_version a))) a) (\<lambda>(token, fp).
     sbind (\<lambda>a. if conv = active_conv_id (a_chat a) then safety_fingerprint_for_conv C conv a else (Inr [], a)) (\<lambda>_.
     sbind (safe_send [(''type'', JStr ''message''), (''conversation_id'', JInt conv), (''body'', JStr token)]) (\<lambda>_. sret ())))"

definition handle_pqxdh_bundle :: "nat \<Rightarrow> world \<Rightarrow> crypto \<Rightarrow> dict \<Rightarrow> app \<Rightarrow> (unit res \<times> app) option" where
  "handle_pqxdh_bundle n W C msg a = (case int_or_0 msg ''user_id'' of
       Inl e \<Rightarrow> Some (Inl e, a)
     | Inr peer \<Rightarrow>
         if peer \<le> 0 then Some (Inr (), a)
         else let dm = dget (a_pending_dm a) peer 0;
                  started = (\<lambda>a. case load_double_ratchet C dm (a_session a) of (state, s) \<Rightarrow> (state \<noteq> None, a\<lparr> a_session := s \<rparr>))
              in case (if 0 < dm then started a else (False, a)) of
                   (True, a1) \<Rightarrow> Some (Inr (), a1\<lparr> a_pending_dm := dpop (a_pending_dm a1) peer \<rparr>)
                 | (False, a1) \<Rightarrow>
                     (case load_pqxdh_prekeys C (a_session a1) of (store, s) \<Rightarrow>
                        let a2 = a1\<lparr> a_session := s \<rparr>
                        in if store = None \<or> store = Some [] then Some (Inr (), a2)
                           else let a3 = a2\<lparr> a_pending_dm := dpop (a_pending_dm a2) peer \<rparr>
                                in if dm \<le> 0 then Some (Inr (), a3)
                                   else case started a3 of
                                          (True, a4) \<Rightarrow> Some (Inr (), a4)
                                        | (False, a4) \<Rightarrow>
                                            (case audit_pqxdh_bundle_identity W C dm msg a4 of
                                               (Inl e, a5) \<Rightarrow> Some (Inl e, a5)
                                             | (Inr _, a5) \<Rightarrow>
                                                 (case start_exchange W C dm peer msg a5 of
                                                    (Inl _, a6) \<Rightarrow> Some (Inr (), a6)
                                                  | (Inr _, a6) \<Rightarrow> map_option (\<lambda>(_, a'). (Inr (), a')) (flush_pending n W C dm a6)))))"

end
