(* ===== verification/Timeline_Facts.thy ===== *)
theory Timeline_Facts
  imports Timeline
begin

text \<open>
  What the conversation history keeps: the merge of a history from the server is in order, loses no
  message and no bubble, and never trades a text for a placeholder; edits may arrive before or after
  their message; and what edits can do that they should not.
\<close>

text \<open>A page with one conversation open, and a history for it, for the examples.\<close>

definition blank_page :: page where
  "blank_page = \<lparr> my_id = 7, active_conv_id = 1, current_view = ''chat'', hist = [], history_loaded_convs = {}, history_loading_convs = {},
     failed_send_counter = 0, notifications_enabled = True, system_event_keys = {}, dm_convs = [], group_convs = [], unread_convs = {},
     disbanded_convs = {}, pending_edit_events = [], metadata_protection = False, last_read_sent = [], pending_read_clear = {},
     scroll_to_latest = {}, commands = [] \<rparr>"

definition row_5 :: dict where
  "row_5 = [(''id'', JInt 5), (''sender_id'', JInt 8), (''body'', JStr ''hi''), (''deleted'', JBool True)]"

definition row_6 :: dict where
  "row_6 = [(''id'', JInt 6), (''sender_id'', JInt 8), (''body'', JStr ''hello''), (''edit_target_message_id'', JInt 5)]"

subsection \<open>Edits on a list of entries\<close>

text \<open>What a run of edits may have done to an entry.\<close>

definition edit_of :: "entry \<Rightarrow> entry \<Rightarrow> bool" where
  "edit_of e e' = (e' = e \<or> (0 < e_id e \<and> (\<exists>b x d. \<not> is_unavailable_history_body b \<and> e' = e\<lparr> e_body := b, e_edited := x, e_deleted := d \<rparr>)))"

lemma edit_of_refl [simp]: "edit_of e e"
  by (simp add: edit_of_def)

lemma edit_of_trans: "edit_of a b \<Longrightarrow> edit_of b c \<Longrightarrow> edit_of a c"
  unfolding edit_of_def by (elim disjE exE conjE) auto

lemma edit_of_props:
  assumes "edit_of e e'"
  shows "e_id e' = e_id e" and "e_id e \<le> 0 \<Longrightarrow> e' = e" and "\<not> is_unavailable_history_body (e_body e) \<Longrightarrow> \<not> is_unavailable_history_body (e_body e')"
  using assms by (auto simp: edit_of_def)

lemma update_entry_edits:
  assumes "0 < mid" and "\<not> is_unavailable_history_body b"
  shows "list_all2 edit_of es (snd (update_entry mid b x d es))"
proof (induction es)
  case (Cons e es)
  have "edit_of e (e\<lparr> e_body := b, e_edited := x, e_deleted := d \<rparr>)" if "e_id e = mid"
    using that assms unfolding edit_of_def by blast
  then show ?case using Cons by (auto simp: Let_def list.rel_refl split: prod.splits)
qed simp

lemma update_entry_hit: "fst (update_entry mid b x d es) = None \<longleftrightarrow> mid \<notin> e_id ` set es"
  by (induction es) (auto simp: Let_def split: prod.splits)

lemma update_entry_miss: "mid \<notin> e_id ` set es \<Longrightarrow> update_entry mid b x d es = (None, es)"
  by (induction es) (auto simp: Let_def)

definition good_edit :: "edit_event \<Rightarrow> bool" where
  "good_edit ev = (0 < ed_target ev \<and> \<not> is_unavailable_history_body (ed_body ev))"

lemma conv_hist_set [simp]: "conv_hist c (set_hist c es g) = es"
  by (simp add: conv_hist_def set_hist_def)

lemma conv_hist_other [simp]: "c \<noteq> c' \<Longrightarrow> conv_hist c (set_hist c' es g) = conv_hist c g"
  by (simp add: conv_hist_def set_hist_def)

lemma conv_hist_update [simp]:
  "conv_hist c (pending_edit_events_update f g) = conv_hist c g" "conv_hist c (history_loaded_convs_update h g) = conv_hist c g"
  "conv_hist c (scroll_to_latest_update h g) = conv_hist c g" "conv_hist c (system_event_keys_update k g) = conv_hist c g"
  "conv_hist c (history_loading_convs_update h g) = conv_hist c g" "conv_hist c (failed_send_counter_update i g) = conv_hist c g"
  "conv_hist c (unread_convs_update h g) = conv_hist c g" "conv_hist c (commands_update m g) = conv_hist c g"
  "conv_hist c (pending_read_clear_update h g) = conv_hist c g" "conv_hist c (last_read_sent_update l g) = conv_hist c g"
  "conv_hist c (dm_convs_update r g) = conv_hist c g" "conv_hist c (group_convs_update r g) = conv_hist c g"
  by (simp_all add: conv_hist_def)

lemma conv_hist_update_message: "conv_hist conv (snd (update_message conv mid b x d g)) = snd (update_entry mid b x d (conv_hist conv g))"
proof (cases "update_entry mid b x d (conv_hist conv g)")
  case (Pair hit es)
  then show ?thesis using update_entry_miss [of mid "conv_hist conv g" b x d] update_entry_hit [of mid b x d "conv_hist conv g"]
    by (cases hit) (auto simp: update_message_def)
qed

lemma edits_trans: "list_all2 edit_of a b \<Longrightarrow> list_all2 edit_of b c \<Longrightarrow> list_all2 edit_of a c"
  by (rule list_all2_trans [OF edit_of_trans])

lemma edits_refl [simp]: "list_all2 edit_of es es"
  by (rule list.rel_refl) simp

text \<open>Every edit that waits for its message is one the page may apply.\<close>

definition edits_ok :: "int \<Rightarrow> page \<Rightarrow> bool" where
  "edits_ok conv g = list_all good_edit (dget (pending_edit_events g) conv [])"

subsection \<open>Edits and messages in any order\<close>

text \<open>A run of edits, as it acts on the list of entries.\<close>

definition edit_list :: "edit_event list \<Rightarrow> entry list \<Rightarrow> entry list" where
  "edit_list evs es = fold (\<lambda>ev es. snd (update_entry (ed_target ev) (ed_body ev) True False es)) evs es"

definition waiting :: "int \<Rightarrow> page \<Rightarrow> edit_event list" where
  "waiting conv g = dget (pending_edit_events g) conv []"

definition unmatched :: "entry list \<Rightarrow> edit_event list \<Rightarrow> edit_event list" where
  "unmatched es evs = filter (\<lambda>ev. ed_target ev \<notin> e_id ` set es) evs"

lemma edit_list_simps [simp]:
  "edit_list [] es = es" "edit_list (ev # evs) es = edit_list evs (snd (update_entry (ed_target ev) (ed_body ev) True False es))"
  "edit_list evs [] = []" "edit_list (evs @ evs') es = edit_list evs' (edit_list evs es)"
proof -
  show "edit_list evs [] = []" by (induction evs) (simp_all add: edit_list_def)
qed (simp_all add: edit_list_def)

lemma update_entry_ids [simp]: "map e_id (snd (update_entry mid b x d es)) = map e_id es"
  by (induction es) (auto simp: Let_def split: prod.splits)

lemma update_entry_id_set [simp]: "e_id ` set (snd (update_entry mid b x d es)) = e_id ` set es"
  by (metis list.set_map update_entry_ids)

lemma edit_list_ids [simp]: "e_id ` set (edit_list evs es) = e_id ` set es"
  by (induction evs arbitrary: es) simp_all

lemma edit_list_miss: "\<forall>ev \<in> set evs. ed_target ev \<notin> e_id ` set es \<Longrightarrow> edit_list evs es = es"
  by (induction evs) (simp_all add: update_entry_miss)

lemma update_entry_append:
  "e_id e \<notin> e_id ` set es \<Longrightarrow> snd (update_entry mid b x d (es @ [e])) = snd (update_entry mid b x d es) @ snd (update_entry mid b x d [e])"
  by (induction es) (auto simp: Let_def split: prod.splits)

lemma edit_list_append: "e_id e \<notin> e_id ` set es \<Longrightarrow> edit_list evs (es @ [e]) = edit_list evs es @ edit_list evs [e]"
proof (induction evs arbitrary: es e)
  case (Cons ev evs)
  obtain e' where e': "snd (update_entry (ed_target ev) (ed_body ev) True False [e]) = [e']" "e_id e' = e_id e"
    by (cases "e_id e = ed_target ev") (simp_all add: Let_def)
  show ?case using Cons.IH [of e'] Cons.prems e' by (simp add: update_entry_append)
qed simp

lemma edit_list_unmatched: "\<forall>e \<in> set es'. e_id e \<notin> e_id ` set es \<Longrightarrow> edit_list (unmatched es evs) es' = edit_list evs es'"
proof (induction evs arbitrary: es')
  case (Cons ev evs)
  have r: "unmatched es (ev # evs) = (if ed_target ev \<in> e_id ` set es then unmatched es evs else ev # unmatched es evs)" by (simp add: unmatched_def)
  have ids: "\<forall>e \<in> set (snd (update_entry (ed_target ev) (ed_body ev) True False es')). e_id e \<notin> e_id ` set es"
    using Cons.prems update_entry_id_set [of "ed_target ev" "ed_body ev" True False es'] by (metis (no_types, lifting) image_iff)
  have "update_entry (ed_target ev) (ed_body ev) True False es' = (None, es')" if "ed_target ev \<in> e_id ` set es"
    using that Cons.prems by (intro update_entry_miss) fastforce
  then show ?case using Cons.IH [OF ids] Cons.IH [OF Cons.prems] by (auto simp: r)
qed (simp add: unmatched_def)

lemma update_message_hit: "fst (update_message conv mid b x d g) = None \<longleftrightarrow> mid \<notin> e_id ` set (conv_hist conv g)"
  using update_entry_hit by (simp add: update_message_def split: prod.splits) (metis fst_conv)

lemma update_message_pending [simp]: "pending_edit_events (snd (update_message conv i b x d g)) = pending_edit_events g"
  by (simp add: update_message_def set_hist_def split: prod.splits)

lemma apply_edit_hist: "conv_hist conv (snd (apply_edit_event conv ev g)) = conv_hist conv (snd (update_message conv (ed_target ev) (ed_body ev) True False g))"
  by (auto simp: apply_edit_event_def split: prod.splits option.splits)

lemma retry_edits_run:
  "fst (retry_edits conv evs g) = unmatched (conv_hist conv g) evs \<and> conv_hist conv (snd (retry_edits conv evs g)) = edit_list evs (conv_hist conv g)"
proof (induction evs arbitrary: g)
  case (Cons ev evs)
  let ?u = "update_message conv (ed_target ev) (ed_body ev) True False g"
  have h: "conv_hist conv (snd ?u) = snd (update_entry (ed_target ev) (ed_body ev) True False (conv_hist conv g))" by (rule conv_hist_update_message)
  have "fst (retry_edits conv (ev # evs) g) = (if fst ?u = None then ev # fst (retry_edits conv evs (snd ?u)) else fst (retry_edits conv evs (snd ?u)))"
    "snd (retry_edits conv (ev # evs) g) = snd (retry_edits conv evs (snd ?u))" by (simp_all split: prod.splits)
  then show ?case using Cons.IH [of "snd ?u"] by (simp add: h unmatched_def update_message_hit)
qed (simp add: unmatched_def)

lemma dget_pop: "dget (dpop d k) k v = v"
  by (simp add: dget_def delete_conv')

lemma apply_pending_run:
  "conv_hist conv (apply_pending_edit_events conv g) = edit_list (waiting conv g) (conv_hist conv g)
   \<and> waiting conv (apply_pending_edit_events conv g) = unmatched (conv_hist conv g) (waiting conv g)"
proof (cases "waiting conv g")
  case Nil
  then show ?thesis by (simp add: apply_pending_edit_events_def waiting_def unmatched_def)
next
  case (Cons ev evs)
  have "apply_pending_edit_events conv g = (let r = retry_edits conv (waiting conv g) g in
      (snd r)\<lparr> pending_edit_events := (if fst r \<noteq> [] then dset (pending_edit_events (snd r)) conv (fst r) else dpop (pending_edit_events (snd r)) conv) \<rparr>)"
    using Cons by (simp add: apply_pending_edit_events_def waiting_def Let_def split: list.splits prod.splits)
  then show ?thesis using retry_edits_run [of conv "waiting conv g" g] by (simp add: waiting_def Let_def dget_pop)
qed

lemma apply_edits_run:
  "conv_hist conv (apply_edits conv evs g) = edit_list evs (conv_hist conv g)
   \<and> waiting conv (apply_edits conv evs g) = waiting conv g @ unmatched (conv_hist conv g) evs"
proof (induction evs arbitrary: g)
  case (Cons ev evs)
  let ?g = "snd (apply_edit_event conv ev g)"
  have h: "conv_hist conv ?g = snd (update_entry (ed_target ev) (ed_body ev) True False (conv_hist conv g))"
    unfolding apply_edit_hist by (rule conv_hist_update_message)
  have "waiting conv ?g = waiting conv g @ unmatched (conv_hist conv g) [ev]"
  proof -
    obtain hit g1 where u: "update_message conv (ed_target ev) (ed_body ev) True False g = (hit, g1)"
      by (cases "update_message conv (ed_target ev) (ed_body ev) True False g")
    have "hit = None \<longleftrightarrow> ed_target ev \<notin> e_id ` set (conv_hist conv g)" "pending_edit_events g1 = pending_edit_events g"
      using update_message_hit [of conv "ed_target ev" "ed_body ev" True False g]
        update_message_pending [of conv "ed_target ev" "ed_body ev" True False g] by (simp_all add: u)
    then show ?thesis by (cases hit) (auto simp: apply_edit_event_def waiting_def unmatched_def u)
  qed
  moreover have "apply_edits conv (ev # evs) g = apply_edits conv evs ?g" by (simp add: apply_edits_def)
  ultimately show ?case using Cons.IH [of ?g] by (simp add: h unmatched_def)
qed (simp add: apply_edits_def unmatched_def)

lemma edit_list_edits: "list_all good_edit evs \<Longrightarrow> list_all2 edit_of es (edit_list evs es)"
proof (induction evs arbitrary: es)
  case (Cons ev evs)
  have "list_all2 edit_of es (snd (update_entry (ed_target ev) (ed_body ev) True False es))"
    by (rule update_entry_edits) (use Cons.prems in \<open>simp_all add: good_edit_def\<close>)
  from edits_trans [OF this Cons.IH] Cons.prems show ?case by simp
qed simp

text \<open>The entries of other conversations, their waiting edits and the counter of local ids stay.\<close>

definition only :: "int \<Rightarrow> page \<Rightarrow> page \<Rightarrow> bool" where
  "only conv g g' = (failed_send_counter g' = failed_send_counter g \<and> (\<forall>c. c \<noteq> conv \<longrightarrow> conv_hist c g' = conv_hist c g \<and> waiting c g' = waiting c g))"

lemma only_refl [simp]: "only conv g g"
  by (simp add: only_def)

lemma only_trans: "only conv a b \<Longrightarrow> only conv b c \<Longrightarrow> only conv a c"
  by (simp add: only_def)

lemma only_update_message: "only conv g (snd (update_message conv i b x d g))"
  by (auto simp: only_def update_message_def waiting_def set_hist_def conv_hist_def split: prod.splits)

lemma only_waiting: "only conv g (g\<lparr> pending_edit_events := dset (pending_edit_events g) conv evs \<rparr>)" "only conv g (g\<lparr> pending_edit_events := dpop (pending_edit_events g) conv \<rparr>)"
  by (simp_all add: only_def waiting_def dget_def update_conv' delete_conv')

lemma only_apply_edit: "only conv g (snd (apply_edit_event conv ev g))"
proof -
  obtain hit g1 where u: "update_message conv (ed_target ev) (ed_body ev) True False g = (hit, g1)"
    by (cases "update_message conv (ed_target ev) (ed_body ev) True False g")
  then have "only conv g g1" using only_update_message [of conv g] by (metis snd_conv)
  then show ?thesis using only_trans [OF _ only_waiting(1)] by (cases hit) (simp_all add: apply_edit_event_def u)
qed

lemma only_apply_edits: "only conv g (apply_edits conv evs g)"
proof (induction evs arbitrary: g)
  case (Cons ev evs)
  show ?case using only_trans [OF only_apply_edit Cons.IH] by (simp add: apply_edits_def)
qed (simp add: apply_edits_def)

lemma only_retry_edits: "only conv g (snd (retry_edits conv evs g))"
proof (induction evs arbitrary: g)
  case (Cons ev evs)
  show ?case using only_trans [OF only_update_message Cons.IH] by (simp split: prod.splits) (metis snd_conv)
qed simp

lemma only_apply_pending: "only conv g (apply_pending_edit_events conv g)"
proof (cases "waiting conv g")
  case Nil
  then show ?thesis by (simp add: apply_pending_edit_events_def waiting_def)
next
  case (Cons ev evs)
  obtain rest g1 where r: "retry_edits conv (ev # evs) g = (rest, g1)" by (cases "retry_edits conv (ev # evs) g")
  then have "only conv g g1" using only_retry_edits [of conv g "ev # evs"] by simp
  then show ?thesis
    using Cons only_trans [OF _ only_waiting(1)] only_trans [OF _ only_waiting(2)]
    by (cases "rest = []") (simp_all only: apply_pending_edit_events_def waiting_def list.case r prod.case if_True if_False not_True_eq_False simp_thms)
qed

lemma edit_list_single: "\<exists>x. edit_list evs [e] = [x] \<and> e_id x = e_id e"
proof (induction evs arbitrary: e)
  case (Cons ev evs)
  obtain e' where "snd (update_entry (ed_target ev) (ed_body ev) True False [e]) = [e']" "e_id e' = e_id e"
    by (cases "e_id e = ed_target ev") (simp_all add: Let_def)
  then show ?case using Cons.IH [of e'] by simp
qed simp

lemma waiting_update [simp]:
  "waiting c (set_hist c' es g) = waiting c g" "waiting c (hist_update h0 g) = waiting c g" "waiting c (history_loaded_convs_update h g) = waiting c g"
  "waiting c (scroll_to_latest_update h g) = waiting c g" "waiting c (system_event_keys_update k g) = waiting c g"
  "waiting c (history_loading_convs_update h g) = waiting c g" "waiting c (failed_send_counter_update i g) = waiting c g"
  "waiting c (unread_convs_update h g) = waiting c g" "waiting c (commands_update m g) = waiting c g"
  "waiting c (pending_read_clear_update h g) = waiting c g" "waiting c (last_read_sent_update l g) = waiting c g"
  "waiting c (dm_convs_update r g) = waiting c g" "waiting c (group_convs_update r g) = waiting c g"
  by (simp_all add: waiting_def set_hist_def)

text \<open>Marking a conversation as read changes no entry, no waiting edit and no local id.\<close>

definition history_part :: "page \<Rightarrow> (int \<times> entry list) list \<times> (int \<times> edit_event list) list \<times> int" where
  "history_part g = (hist g, pending_edit_events g, failed_send_counter g)"

lemma update_pref_part: "history_part (snd (update_conversation_pref conv ch g)) = history_part g"
  unfolding update_conversation_pref_def history_part_def
  by (auto simp: sbind_def Let_def split: sum.splits prod.splits option.splits bool.splits)

lemma mark_read_part: "history_part (snd (mark_active_conversation_read g)) = history_part g"
proof -
  have u: "history_part t' = history_part t" if "update_conversation_pref conv ch t = (r, t')" for conv ch t r t'
    using update_pref_part [of conv ch t] that by simp
  show ?thesis
    by (auto simp: mark_active_conversation_read_def sbind_def Let_def split: sum.splits prod.splits dest!: u) (auto simp: history_part_def)
qed

lemma mark_read_hist: "hist (snd (mark_active_conversation_read g)) = hist g"
  using mark_read_part [of g] by (simp add: history_part_def)

lemma history_partD:
  assumes "history_part t = history_part u"
  shows "conv_hist c t = conv_hist c u" "waiting c t = waiting c u" "failed_send_counter t = failed_send_counter u"
  using assms by (simp_all add: history_part_def conv_hist_def waiting_def)

text \<open>What is left of \<open>add_msg\<close> when the read state is set aside.\<close>

lemma add_msg_run:
  assumes "normalize_reactions (py_or reactions (JArr [])) = Inr rs"
  shows "history_part (snd (add_msg conv sender body ts mid pin reactions fwd reply g)) =
    history_part (apply_pending_edit_events conv (append_entry conv ((plain_entry sender body ts mid)
               \<lparr> e_pinned := pin, e_reactions := rs, e_forwarded := fwd, e_reply := reply \<rparr>) g))"
proof -
  define u where "u = apply_pending_edit_events conv (append_entry conv ((plain_entry sender body ts mid)
               \<lparr> e_pinned := pin, e_reactions := rs, e_forwarded := fwd, e_reply := reply \<rparr>) g)"
  have muted: "history_part (snd (sbind (\<lambda>g. (is_conversation_muted conv g, g)) (\<lambda>muted.
      smod (\<lambda>g. if muted then g else g\<lparr> unread_convs := insert conv (unread_convs g) \<rparr>)) u)) = history_part u"
    by (simp add: sbind_def history_part_def split: sum.splits)
  show ?thesis
    unfolding add_msg_def assms sbind_slift_Inr sbind_smod u_def [symmetric]
    using muted mark_read_part [of u] by (simp only: split: if_split) simp
qed

text \<open>
  C17: (equivalence) An edit may overtake its message. Any run of edits that arrives before a new message
  leaves the same history and the same waiting edits as the same run after it, as long as the edits
  that wait already are for messages that are not shown. So the order in which the server delivers
  a message and its edits does not change what is read.
\<close>

theorem edits_commute_with_arrival:
  assumes "normalize_reactions (py_or reactions (JArr [])) = Inr rs" and "mid \<notin> e_id ` set (conv_hist conv g)"
    and "\<forall>ev \<in> set (waiting conv g). ed_target ev \<notin> e_id ` set (conv_hist conv g)"
  shows "let early = snd (add_msg conv sender body ts mid pin reactions fwd reply (apply_edits conv evs g));
             late = apply_edits conv evs (snd (add_msg conv sender body ts mid pin reactions fwd reply g))
         in conv_hist conv early = conv_hist conv late \<and> waiting conv early = waiting conv late"
proof -
  define e where "e = (plain_entry sender body ts mid)\<lparr> e_pinned := pin, e_reactions := rs, e_forwarded := fwd, e_reply := reply \<rparr>"
  let ?add = "\<lambda>t. snd (add_msg conv sender body ts mid pin reactions fwd reply t)"
  let ?es = "conv_hist conv g" let ?old = "waiting conv g"
  have e: "e_id e = mid" by (simp add: e_def plain_entry_def)
  have add: "conv_hist conv (?add t) = edit_list (waiting conv t) (conv_hist conv t @ [e])
      \<and> waiting conv (?add t) = unmatched (conv_hist conv t @ [e]) (waiting conv t)" for t
  proof -
    have "conv_hist conv (?add t) = conv_hist conv (apply_pending_edit_events conv (append_entry conv e t))
      \<and> waiting conv (?add t) = waiting conv (apply_pending_edit_events conv (append_entry conv e t))"
      using history_partD [OF add_msg_run [OF assms(1)]] unfolding e_def by blast
    then show ?thesis using apply_pending_run [of conv "append_entry conv e t"] by (simp add: append_entry_def waiting_def set_hist_def conv_hist_def)
  qed
  have new: "e_id e \<notin> e_id ` set ?es" using assms(2) e by simp
  have un: "edit_list (unmatched ?es evs) [x] = edit_list evs [x]" if "e_id x = mid" for x
    by (rule edit_list_unmatched) (use that assms(2) in simp)
  obtain x where x: "edit_list ?old [e] = [x]" "e_id x = mid" using edit_list_single [of ?old e] e by metis
  have "conv_hist conv (?add (apply_edits conv evs g)) = edit_list evs ?es @ edit_list evs [x]"
    using add [of "apply_edits conv evs g"] apply_edits_run [of conv evs g] new assms(2,3) x un [OF x(2)]
    by (simp add: edit_list_append edit_list_miss unmatched_def)
  moreover have "conv_hist conv (?add g) = ?es @ [x]"
    using add [of g] new assms(3) x by (simp add: edit_list_append edit_list_miss)
  moreover have "e_id x \<notin> e_id ` set ?es" using x(2) assms(2) by simp
  moreover have "waiting conv (?add (apply_edits conv evs g)) = unmatched (?es @ [e]) (?old @ evs)"
    using add [of "apply_edits conv evs g"] apply_edits_run [of conv evs g] by (simp add: unmatched_def) (auto intro: filter_cong)
  ultimately show ?thesis
    using add [of g] apply_edits_run [of conv evs "?add g"] e x(2) by (simp add: Let_def edit_list_append unmatched_def)
qed

theorem edits_commute_with_arrival_witness:
  "conv_hist 1 (snd (add_msg 1 8 (JStr ''hi'') [] 5 False JNull 0 0 (apply_edits 1 [\<lparr> ed_target = 5, ed_body = JStr ''hello'', ed_sender = 8, ed_ts = [] \<rparr>] blank_page)))
   = conv_hist 1 (apply_edits 1 [\<lparr> ed_target = 5, ed_body = JStr ''hello'', ed_sender = 8, ed_ts = [] \<rparr>] (snd (add_msg 1 8 (JStr ''hi'') [] 5 False JNull 0 0 blank_page)))"
proof -
  have "normalize_reactions (py_or JNull (JArr [])) = Inr []" by code_simp
  moreover have "conv_hist 1 blank_page = []" "waiting 1 blank_page = []" by (simp_all add: blank_page_def conv_hist_def waiting_def dget_def)
  ultimately show ?thesis using edits_commute_with_arrival [of JNull "[]" 5 1 blank_page] by (simp add: Let_def)
qed

subsection \<open>The merge\<close>

lemma map_of_dupdate_distinct: "distinct (map fst e) \<Longrightarrow> map_of (dupdate d e) = map_of d ++ map_of e"
proof (induction d e rule: dupdate.induct)
  case (2 d k v kvs)
  then have "map_of (dupdate d ((k, v) # kvs)) = (map_of d)(k \<mapsto> v) ++ map_of kvs" by (simp add: update_conv' fun_upd_def)
  also have "\<dots> = map_of d ++ map_of ((k, v) # kvs)"
  proof -
    have "map_of kvs k = None" using 2(2) by (simp add: map_of_eq_None_iff)
    then show ?thesis by (auto simp: map_add_def fun_eq_iff split: option.splits)
  qed
  finally show ?case .
qed simp

lemma distinct_dupdate: "distinct (map fst d) \<Longrightarrow> distinct (map fst (dupdate d e))"
  by (induction d e rule: dupdate.induct) auto

text \<open>A table of entries under their ids.\<close>

definition id_keyed :: "(int \<times> entry) list \<Rightarrow> bool" where
  "id_keyed m = (distinct (map fst m) \<and> (\<forall>i e. map_of m i = Some e \<longrightarrow> e_id e = i \<and> 0 < i))"

lemma id_keyed_dset: "id_keyed m \<Longrightarrow> 0 < e_id e \<Longrightarrow> id_keyed (dset m (e_id e) e)"
  by (auto simp: id_keyed_def update_conv')

lemma id_keyed_Nil [simp]: "id_keyed []"
  by (simp add: id_keyed_def)

lemma by_id_keyed: "id_keyed (by_id es)"
proof -
  have "id_keyed m \<Longrightarrow> id_keyed (fold (\<lambda>e m. dset m (e_id e) e) (filter (\<lambda>e. 0 < e_id e) es) m)" for m
    by (induction es arbitrary: m) (auto intro: id_keyed_dset)
  then show ?thesis by (simp add: by_id_def)
qed

lemma by_id_None: "i \<notin> e_id ` set es \<Longrightarrow> map_of (by_id es) i = None"
proof -
  have "i \<notin> e_id ` set es \<Longrightarrow> map_of m i = None \<Longrightarrow> map_of (fold (\<lambda>e m. dset m (e_id e) e) (filter (\<lambda>e. 0 < e_id e) es) m) i = None" for m
    by (induction es arbitrary: m) (auto simp: update_conv')
  then show "i \<notin> e_id ` set es \<Longrightarrow> map_of (by_id es) i = None" by (simp add: by_id_def)
qed

lemma id_keyed_dupdate: "id_keyed a \<Longrightarrow> id_keyed b \<Longrightarrow> id_keyed (dupdate a b)"
  by (auto simp: id_keyed_def map_of_dupdate_distinct distinct_dupdate map_add_def split: option.splits)

text \<open>What the merge knows of an incoming message, given what was there before.\<close>

definition is_bubble :: "entry \<Rightarrow> bool" where
  "is_bubble e = (e_sending e \<or> e_failed e)"

definition incoming_ok :: "(int \<times> entry) list \<Rightarrow> (int \<times> entry) list \<Rightarrow> bool" where
  "incoming_ok existing incoming = (id_keyed incoming \<and> (\<forall>i e. map_of incoming i = Some e \<longrightarrow>
     (\<forall>p. map_of existing i = Some p \<and> \<not> is_unavailable_history_body (e_body p) \<longrightarrow> \<not> is_unavailable_history_body (e_body e))
     \<and> (\<not> is_control (e_body e) (e_deleted e) \<or> (\<exists>p. map_of existing i = Some p \<and> e_body e = e_body p)) \<and> \<not> is_bubble e))"

lemma keep_readable_id [simp]:
  "e_id (keep_readable existing e) = e_id e" "e_deleted (keep_readable existing e) = e_deleted e" "is_bubble (keep_readable existing e) = is_bubble e"
  by (simp_all add: keep_readable_def is_bubble_def split: option.splits)

lemma history_entry_fields:
  "history_entry_of m = Inr e \<Longrightarrow> e_body e = dget m ''body'' (JStr []) \<and> e_deleted e = truthy (dget m ''deleted'' (JBool False)) \<and> \<not> is_bubble e"
  by (auto simp: history_entry_of_def plain_entry_def is_bubble_def)

lemma read_item_ok:
  assumes "read_item existing j (incoming, edits) = Inr (incoming', edits')" and "incoming_ok existing incoming" and "list_all good_edit edits"
  shows "incoming_ok existing incoming' \<and> list_all good_edit edits'"
proof -
  obtain m where j: "j = JObj m" using assms(1) by (cases j) (auto simp: read_item_def as_dict_def)
  let ?body = "dget m ''body'' (JStr [])"
  let ?del = "truthy (dget m ''deleted'' (JBool False))"
  consider "incoming' = incoming" "edits' = edits"
    | target ev where "0 < target" "\<not> is_unavailable_history_body ?body" "history_edit target m = Inr ev" "incoming' = incoming" "edits' = edits @ [ev]"
    | e where "\<not> is_control ?body ?del" "history_entry_of m = Inr e" "0 < e_id e" "incoming' = dset incoming (e_id e) (keep_readable existing e)" "edits' = edits"
    using assms(1) by (auto simp: read_item_def j Let_def split: if_splits)
  then show ?thesis
  proof cases
    case 1
    then show ?thesis using assms(2,3) by simp
  next
    case 2
    then have "good_edit ev" by (auto simp: history_edit_def good_edit_def)
    then show ?thesis using 2 assms(2,3) by simp
  next
    case 3
    have "id_keyed incoming'" using id_keyed_dset [of incoming "keep_readable existing e"] assms(2) 3 by (simp add: incoming_ok_def)
    moreover have "\<not> is_unavailable_history_body (e_body (keep_readable existing e))"
      if "map_of existing (e_id e) = Some p" "\<not> is_unavailable_history_body (e_body p)" for p
      using that by (simp add: keep_readable_def)
    moreover have "\<not> is_control (e_body (keep_readable existing e)) (e_deleted e)
        \<or> (\<exists>p. map_of existing (e_id e) = Some p \<and> e_body (keep_readable existing e) = e_body p)"
      using 3(1) history_entry_fields [OF 3(2)] by (auto simp: keep_readable_def split: option.splits)
    ultimately show ?thesis using 3(4,5) assms(2,3) history_entry_fields [OF 3(2)] by (auto simp: incoming_ok_def update_conv')
  qed
qed

lemma read_items_ok:
  "rfold (read_item existing) msgs (incoming, edits) = Inr (incoming', edits') \<Longrightarrow> incoming_ok existing incoming \<Longrightarrow> list_all good_edit edits \<Longrightarrow>
   incoming_ok existing incoming' \<and> list_all good_edit edits'"
proof (induction msgs arbitrary: incoming edits)
  case (Cons j msgs)
  then obtain a b where "read_item existing j (incoming, edits) = Inr (a, b)" "rfold (read_item existing) msgs (a, b) = Inr (incoming', edits')" by auto
  with Cons.IH Cons.prems(2,3) read_item_ok show ?case by blast
qed simp

lemma merged_ids:
  assumes "id_keyed existing" and "id_keyed incoming"
  shows "sorted_wrt (<) (map e_id (merged_messages existing incoming))" and "e \<in> set (merged_messages existing incoming) \<Longrightarrow> 0 < e_id e"
    and "e \<in> set (merged_messages existing incoming) \<longleftrightarrow> map_of (dupdate existing incoming) (e_id e) = Some e \<and> \<not> is_control (e_body e) (e_deleted e)"
proof -
  define d where "d = dupdate existing incoming"
  have d: "id_keyed d" unfolding d_def by (rule id_keyed_dupdate [OF assms])
  define ks where "ks = filter (\<lambda>i. 0 < i) (sort (map fst d))"
  have ks: "sorted_wrt (<) ks" "set ks = dom (map_of d)"
    using d unfolding ks_def id_keyed_def
    by (auto simp: strict_sorted_iff dom_map_of_conv_image_fst intro!: sorted_wrt_filter)
  have id: "map e_id (map (\<lambda>i. the (map_of d i)) ks) = ks"
    using d ks(2) by (auto simp: id_keyed_def intro!: map_idI)
  have m: "merged_messages existing incoming = filter (\<lambda>e. \<not> is_control (e_body e) (e_deleted e)) (map (\<lambda>i. the (map_of d i)) ks)"
    by (simp add: merged_messages_def d_def ks_def Let_def)
  define es where "es = map (\<lambda>i. the (map_of d i)) ks"
  have "sorted_wrt (\<lambda>a b. e_id a < e_id b) es" using ks(1) id unfolding es_def by (metis sorted_wrt_map)
  then show "sorted_wrt (<) (map e_id (merged_messages existing incoming))"
    unfolding m es_def [symmetric] sorted_wrt_map by (rule sorted_wrt_filter)
  have es: "e \<in> set es \<longleftrightarrow> map_of d (e_id e) = Some e" for e
  proof
    assume "e \<in> set es"
    then obtain i where "i \<in> dom (map_of d)" "e = the (map_of d i)" using ks(2) by (auto simp: es_def)
    then have "map_of d i = Some e" by auto
    then show "map_of d (e_id e) = Some e" using d by (simp add: id_keyed_def)
  next
    assume e: "map_of d (e_id e) = Some e"
    then have "e_id e \<in> set ks" using ks(2) by (simp add: domI)
    then show "e \<in> set es" using e by (auto simp: es_def intro!: image_eqI [of _ _ "e_id e"])
  qed
  show eq: "e \<in> set (merged_messages existing incoming) \<longleftrightarrow> map_of (dupdate existing incoming) (e_id e) = Some e \<and> \<not> is_control (e_body e) (e_deleted e)"
    unfolding m es_def [symmetric] d_def [symmetric] using es by auto
  show "e \<in> set (merged_messages existing incoming) \<Longrightarrow> 0 < e_id e" using d eq unfolding d_def [symmetric] id_keyed_def by blast
qed
lemma set_timeline: "set (timeline messages events) = set messages \<union> set events"
proof -
  have "snd ` (\<lambda>(seq, e). (timeline_key (int seq, e), e)) ` set (enumerate 0 events) = snd ` set (enumerate 0 events)" by force
  moreover have "snd ` set (enumerate 0 events) = set events" by (metis list.set_map map_snd_enumerate)
  ultimately show ?thesis by (force simp: timeline_def image_Un image_image)
qed

lemma timeline_messages:
  assumes "sorted_wrt (<) (map e_id messages)" and "\<forall>e \<in> set messages. 0 < e_id e" and "\<forall>e \<in> set events. e_id e \<le> 0"
  shows "filter (\<lambda>e. 0 < e_id e) (timeline messages events) = messages"
proof -
  let ?a = "map (\<lambda>e. ((e_id e, 0 :: int, e_id e), e)) messages"
  let ?b = "map (\<lambda>(seq, e). (timeline_key (int seq, e), e)) (enumerate 0 events)"
  have a: "filter (\<lambda>p. 0 < e_id (snd p)) ?a = ?a" using assms(2) by (intro filter_True) auto
  have "e \<in> set events" if "(i, e) \<in> set (enumerate 0 events)" for i e using that by (metis enumerate_eq_zip set_zip_rightD)
  then have b: "filter (\<lambda>p. 0 < e_id (snd p)) ?b = []" using assms(3) by (intro filter_False) fastforce
  have "sorted (map fst ?a)"
    using assms(1) by (simp add: o_def sorted_wrt_map sorted_map) (auto elim: sorted_wrt_mono_rel [rotated])
  then have "sort_key fst ?a = ?a" by (rule sort_key_id_if_sorted)
  moreover have "filter (\<lambda>e. 0 < e_id e) (timeline messages events) = map snd (filter (\<lambda>p. 0 < e_id (snd p)) (sort_key fst (?a @ ?b)))"
    unfolding timeline_def by (simp only: filter_map o_def)
  ultimately show ?thesis by (simp only: filter_sort filter_append a b append_Nil2) (simp add: o_def)
qed

lemma split_old_parts:
  assumes "split_old conv prev es = (events, transient)"
  shows "transient = filter (\<lambda>e. e_id e \<le> 0 \<and> \<not> is_system_entry e) es" and "\<forall>e \<in> set events. e_id e \<le> 0 \<and> is_system_entry e"
proof -
  have "transient = filter (\<lambda>e. e_id e \<le> 0 \<and> \<not> is_system_entry e) es \<and> (\<forall>e \<in> set events. e_id e \<le> 0 \<and> is_system_entry e)"
    using assms
  proof (induction es arbitrary: prev events transient)
    case (Cons e es)
    show ?case
    proof (cases "0 < e_id e")
      case True
      with Cons show ?thesis by auto
    next
      case False
      obtain ev tr where r: "split_old conv prev es = (ev, tr)" by (cases "split_old conv prev es")
      have "is_system_entry (e\<lparr> e_after := a, e_keys := k \<rparr>) = is_system_entry e" "is_system_entry (e\<lparr> e_after := a \<rparr>) = is_system_entry e" for a k
        by (simp_all add: is_system_entry_def)
      with False r Cons.prems Cons.IH [OF r] show ?thesis by (auto simp: not_less split: if_splits)
    qed
  qed simp
  then show "transient = filter (\<lambda>e. e_id e \<le> 0 \<and> \<not> is_system_entry e) es" "\<forall>e \<in> set events. e_id e \<le> 0 \<and> is_system_entry e" by blast+
qed

lemma system_entry_props:
  "is_system_entry ((system_entry t ts mid keys sid after)\<lparr> e_persisted := p \<rparr>)" "e_id (system_entry t ts mid keys sid after) = mid"
  "\<not> is_bubble ((system_entry t ts mid keys sid after)\<lparr> e_persisted := p \<rparr>)" "\<not> is_bubble (system_entry t ts mid keys sid after)"
  by (simp_all add: is_system_entry_def system_entry_def plain_entry_def is_bubble_def)

definition event_ok :: "entry \<Rightarrow> bool" where
  "event_ok e = (e_id e \<le> 0 \<and> is_system_entry e \<and> \<not> is_bubble e)"

lemma read_event_run:
  assumes "read_event conv j (K, es) g = (r, g')"
  shows "hist g' = hist g \<and> pending_edit_events g' = pending_edit_events g \<and> failed_send_counter g \<le> failed_send_counter g'"
    and "r = Inr (K', es') \<Longrightarrow> 0 \<le> failed_send_counter g \<Longrightarrow> \<forall>e \<in> set es. event_ok e \<Longrightarrow> \<forall>e \<in> set es'. event_ok e"
proof -
  show "hist g' = hist g \<and> pending_edit_events g' = pending_edit_events g \<and> failed_send_counter g \<le> failed_send_counter g'"
    using assms by (auto simp: read_event_def sbind_def Let_def split: sum.splits if_splits)
  show "r = Inr (K', es') \<Longrightarrow> 0 \<le> failed_send_counter g \<Longrightarrow> \<forall>e \<in> set es. event_ok e \<Longrightarrow> \<forall>e \<in> set es'. event_ok e"
    using assms by (auto simp: read_event_def sbind_def Let_def event_msg_id_def system_entry_props event_ok_def split: sum.splits if_splits)
qed

lemma read_events_keep:
  "sfold (read_event conv) js (K, es) g = (r, g') \<Longrightarrow> hist g' = hist g \<and> pending_edit_events g' = pending_edit_events g \<and> failed_send_counter g \<le> failed_send_counter g'"
proof (induction js arbitrary: K es g)
  case (Cons j js)
  obtain r1 g1 where step: "read_event conv j (K, es) g = (r1, g1)" by (cases "read_event conv j (K, es) g")
  note one = read_event_run(1) [OF step]
  show ?case
  proof (cases r1)
    case (Inl e)
    then have "g' = g1" using Cons.prems step by (simp add: sbind_def)
    then show ?thesis using one by simp
  next
    case (Inr p)
    then have "sfold (read_event conv) js (fst p, snd p) g1 = (r, g')" using Cons.prems step by (simp add: sbind_def)
    from Cons.IH [OF this] one show ?thesis by simp
  qed
qed simp

lemma read_events_ok:
  "sfold (read_event conv) js (K, es) g = (Inr (K', es'), g') \<Longrightarrow> 0 \<le> failed_send_counter g \<Longrightarrow> \<forall>e \<in> set es. event_ok e \<Longrightarrow> \<forall>e \<in> set es'. event_ok e"
proof (induction js arbitrary: K es g)
  case (Cons j js)
  then obtain K1 es1 g1 where one: "read_event conv j (K, es) g = (Inr (K1, es1), g1)" "sfold (read_event conv) js (K1, es1) g1 = (Inr (K', es'), g')"
    by (auto simp: sbind_eq_Inr)
  show ?case
    by (rule Cons.IH [OF one(2)]) (use read_event_run(1) [OF one(1)] read_event_run(2) [OF one(1) refl] Cons.prems(2,3) in simp_all)
qed simp

text \<open>The history a load leaves: the merged one, with the edits of the list and then the waiting ones applied.\<close>

lemma install_history_run:
  assumes "install_history conv es keys edits g = (r, g')"
  shows "conv_hist conv g' = edit_list (waiting conv g) (edit_list edits es)" and "waiting conv g' = unmatched es (waiting conv g @ edits)"
    and "failed_send_counter g' = failed_send_counter g" and "c \<noteq> conv \<Longrightarrow> conv_hist c g' = conv_hist c g \<and> waiting c g' = waiting c g"
proof -
  define g1 where "g1 = set_hist conv es (g\<lparr> system_event_keys := system_event_keys g \<union> keys \<rparr>)"
  define g2 where "g2 = apply_pending_edit_events conv (apply_edits conv edits g1)"
  define g3 where "g3 = g2\<lparr> history_loaded_convs := insert conv (history_loaded_convs g2) \<rparr>"
  have "(if conv = active_conv_id g3 then mark_active_conversation_read (g3\<lparr> scroll_to_latest := scroll_to_latest g3 - {conv} \<rparr>) else (Inr (), g3)) = (r, g')"
    using assms unfolding install_history_def sbind_smod g1_def [symmetric] g2_def [symmetric] g3_def [symmetric] by blast
  then have "g' = g3 \<or> g' = snd (mark_active_conversation_read (g3\<lparr> scroll_to_latest := scroll_to_latest g3 - {conv} \<rparr>))"
    by (cases "conv = active_conv_id g3") auto
  then have same: "history_part g' = history_part g2"
    using mark_read_part [of "g3\<lparr> scroll_to_latest := scroll_to_latest g3 - {conv} \<rparr>"] by (auto simp: history_part_def g3_def)
  have w: "waiting conv g1 = waiting conv g" "conv_hist conv g1 = es" by (simp_all add: g1_def)
  note runs = apply_edits_run [of conv edits g1] apply_pending_run [of conv "apply_edits conv edits g1"]
  have "edit_list (waiting conv g @ unmatched es edits) (edit_list edits es) = edit_list (waiting conv g) (edit_list edits es)"
    by (simp add: edit_list_miss unmatched_def)
  then show "conv_hist conv g' = edit_list (waiting conv g) (edit_list edits es)" "waiting conv g' = unmatched es (waiting conv g @ edits)"
    using runs history_partD(1,2) [OF same] by (simp_all add: g2_def w unmatched_def)
  have fr: "only conv g1 g2" unfolding g2_def by (rule only_trans [OF only_apply_edits only_apply_pending])
  then show "failed_send_counter g' = failed_send_counter g" using history_partD(3) [OF same] by (simp add: only_def g1_def set_hist_def)
  show "c \<noteq> conv \<Longrightarrow> conv_hist c g' = conv_hist c g \<and> waiting c g' = waiting c g"
    using fr history_partD(1,2) [OF same] by (simp add: only_def g1_def)
qed

lemma load_history_run:
  assumes "load_history conv msgs evs g = (Inr (), g')" and "0 \<le> failed_send_counter g"
  obtains incoming edits events where "rfold (read_item (by_id (conv_hist conv g))) msgs ([], []) = Inr (incoming, edits)"
    and "\<forall>e \<in> set events. e_id e \<le> 0 \<and> is_system_entry e"
    and "conv_hist conv g' = edit_list (waiting conv g) (edit_list edits (timeline (merged_messages (by_id (conv_hist conv g)) incoming) events
           @ filter (\<lambda>e. e_id e \<le> 0 \<and> \<not> is_system_entry e) (conv_hist conv g)))"
proof -
  obtain events transient where sp: "split_old conv 0 (conv_hist conv g) = (events, transient)" by (cases "split_old conv 0 (conv_hist conv g)")
  let ?g0 = "g\<lparr> history_loading_convs := history_loading_convs g - {conv} \<rparr>"
  obtain incoming edits where r: "rfold (read_item (by_id (conv_hist conv g))) msgs ([], []) = Inr (incoming, edits)"
    using assms(1) by (cases "rfold (read_item (by_id (conv_hist conv g))) msgs ([], [])") (auto simp: load_history_def)
  obtain K persisted g1 where e: "sfold (read_event conv) evs ({}, []) ?g0 = (Inr (K, persisted), g1)"
    using assms(1) by (auto simp: load_history_def r sbind_eq_Inr)
  let ?kept = "filter (\<lambda>e. set (e_keys e) \<inter> K = {}) events"
  have i: "install_history conv (timeline (merged_messages (by_id (conv_hist conv g)) incoming) (persisted @ ?kept) @ transient)
      (\<Union> (set ` e_keys ` set ?kept)) edits g1 = (Inr (), g')"
    using assms(1) by (simp add: load_history_def r sbind_def e sp Let_def)
  have p: "\<forall>e \<in> set persisted. e_id e \<le> 0 \<and> is_system_entry e" "pending_edit_events g1 = pending_edit_events g"
    using read_events_ok [OF e] read_events_keep [OF e] assms(2) by (simp_all add: event_ok_def)
  have "waiting conv g1 = waiting conv g" using p(2) by (simp add: waiting_def)
  moreover have "\<forall>e \<in> set (persisted @ ?kept). e_id e \<le> 0 \<and> is_system_entry e" using p(1) split_old_parts(2) [OF sp] by auto
  ultimately show ?thesis using install_history_run(1) [OF i, unfolded split_old_parts(1) [OF sp]] by (intro that [OF r]) simp_all
qed

lemma read_item_dom:
  assumes "read_item existing j (incoming, edits) = Inr (incoming', edits')"
  shows "dom (map_of incoming) \<subseteq> dom (map_of incoming')"
    and "j = JObj m \<Longrightarrow> \<not> is_control (dget m ''body'' (JStr [])) (truthy (dget m ''deleted'' (JBool False))) \<Longrightarrow>
         int_or_0 m ''edit_target_message_id'' = Inr 0 \<Longrightarrow> py_int (dget m ''id'' (JInt 0)) = Inr i \<Longrightarrow> 0 < i \<Longrightarrow> i \<in> dom (map_of incoming')"
proof -
  show "dom (map_of incoming) \<subseteq> dom (map_of incoming')"
    using assms by (auto simp: read_item_def Let_def update_conv' split: if_splits)
  assume "j = JObj m" "\<not> is_control (dget m ''body'' (JStr [])) (truthy (dget m ''deleted'' (JBool False)))"
    "int_or_0 m ''edit_target_message_id'' = Inr 0" "py_int (dget m ''id'' (JInt 0)) = Inr i" "0 < i"
  moreover from this obtain e where "history_entry_of m = Inr e" using assms by (auto simp: read_item_def Let_def)
  moreover have "e_id e = i" using calculation by (auto simp: history_entry_of_def plain_entry_def)
  ultimately show "i \<in> dom (map_of incoming')" using assms by (auto simp: read_item_def Let_def update_conv')
qed

lemma read_items_dom:
  "rfold (read_item existing) msgs (incoming, edits) = Inr (incoming', edits') \<Longrightarrow> dom (map_of incoming) \<subseteq> dom (map_of incoming')
   \<and> (\<forall>m i. JObj m \<in> set msgs \<longrightarrow> \<not> is_control (dget m ''body'' (JStr [])) (truthy (dget m ''deleted'' (JBool False))) \<longrightarrow>
        int_or_0 m ''edit_target_message_id'' = Inr 0 \<longrightarrow> py_int (dget m ''id'' (JInt 0)) = Inr i \<longrightarrow> 0 < i \<longrightarrow> i \<in> dom (map_of incoming'))"
proof (induction msgs arbitrary: incoming edits)
  case (Cons j msgs)
  then obtain a b where r: "read_item existing j (incoming, edits) = Inr (a, b)" "rfold (read_item existing) msgs (a, b) = Inr (incoming', edits')" by auto
  note later = Cons.IH [OF r(2)]
  note d = read_item_dom [OF r(1)]
  show ?case
  proof (intro conjI allI impI)
    show "dom (map_of incoming) \<subseteq> dom (map_of incoming')" using later d(1) by blast
    fix m i
    assume m: "JObj m \<in> set (j # msgs)" "\<not> is_control (dget m ''body'' (JStr [])) (truthy (dget m ''deleted'' (JBool False)))"
      "int_or_0 m ''edit_target_message_id'' = Inr 0" "py_int (dget m ''id'' (JInt 0)) = Inr i" "0 < i"
    show "i \<in> dom (map_of incoming')"
    proof (cases "j = JObj m")
      case True
      then show ?thesis using d(2) [OF True m(2-5)] later by blast
    next
      case False
      then have "JObj m \<in> set msgs" using m(1) by auto
      then show ?thesis using later m(2-5) by blast
    qed
  qed
qed simp

lemma edits_ids: "list_all2 edit_of a b \<Longrightarrow> map e_id b = map e_id a"
  by (induction rule: list_all2_induct) (simp_all add: edit_of_props)

lemma edits_local: "list_all2 edit_of a b \<Longrightarrow> filter (\<lambda>e. e_id e \<le> 0 \<and> Q e) b = filter (\<lambda>e. e_id e \<le> 0 \<and> Q e) a"
proof (induction rule: list_all2_induct)
  case (Cons x xs y ys)
  then show ?case using edit_of_props(1,2) [OF Cons.hyps(1)] by (cases "e_id x \<le> 0") auto
qed simp

lemma edits_member: "list_all2 edit_of a b \<Longrightarrow> e \<in> set a \<Longrightarrow> \<exists>e' \<in> set b. edit_of e e'"
  by (induction rule: list_all2_induct) auto

text \<open>What becomes of one message in the merge.\<close>

lemma merge_shows_readable:
  assumes "id_keyed old" and "id_keyed incoming" and "incoming_ok old incoming" and "map_of old i = Some p"
    and "e_body p \<notin> CONTROL_BODIES" and "\<not> is_unavailable_history_body (e_body p)"
    and "\<And>e. map_of (dupdate old incoming) i = Some e \<Longrightarrow> \<not> is_control (e_body e) (e_deleted e) \<Longrightarrow> \<exists>e' \<in> S. edit_of e e'"
  shows "\<exists>e' \<in> S. e_id e' = i \<and> \<not> is_unavailable_history_body (e_body e')"
proof -
  have d: "map_of (dupdate old incoming) = map_of old ++ map_of incoming" using assms(2) by (simp add: map_of_dupdate_distinct id_keyed_def)
  obtain e where e: "map_of (dupdate old incoming) i = Some e" "\<not> is_control (e_body e) (e_deleted e)" "\<not> is_unavailable_history_body (e_body e)"
  proof (cases "map_of incoming i")
    case None
    then show ?thesis using that [of p] assms(4-6) by (simp add: d map_add_def is_control_def)
  next
    case (Some e)
    then have "\<not> is_control (e_body e) (e_deleted e) \<or> e_body e = e_body p" and u: "\<not> is_unavailable_history_body (e_body e)"
      using assms(3,4,6) unfolding incoming_ok_def by fastforce+
    then have "\<not> is_control (e_body e) (e_deleted e)" using assms(5) by (auto simp: is_control_def)
    note this u
    then show ?thesis using that [of e] Some by (simp add: d)
  qed
  obtain e' where "e' \<in> S" "edit_of e e'" using assms(7) [OF e(1,2)] by blast
  moreover have "e_id e = i" using e(1) id_keyed_dupdate [OF assms(1,2)] by (simp add: id_keyed_def)
  ultimately show ?thesis using edit_of_props(1,3) e(3) by metis
qed

lemma merge_shows_incoming:
  assumes "id_keyed old" and "id_keyed incoming" and "incoming_ok old incoming" and "i \<in> dom (map_of incoming)"
    and "\<forall>e. map_of old i = Some e \<longrightarrow> e_body e \<notin> CONTROL_BODIES"
    and "\<And>e. map_of (dupdate old incoming) i = Some e \<Longrightarrow> \<not> is_control (e_body e) (e_deleted e) \<Longrightarrow> \<exists>e' \<in> S. edit_of e e'"
  shows "i \<in> e_id ` S"
proof -
  have d: "map_of (dupdate old incoming) = map_of old ++ map_of incoming" using assms(2) by (simp add: map_of_dupdate_distinct id_keyed_def)
  obtain e where e: "map_of incoming i = Some e" using assms(4) by auto
  then have "\<not> is_control (e_body e) (e_deleted e) \<or> (\<exists>p. map_of old i = Some p \<and> e_body e = e_body p)"
    using assms(3) unfolding incoming_ok_def by blast
  then have "\<not> is_control (e_body e) (e_deleted e)" using assms(5) by (auto simp: is_control_def)
  then obtain e' where "e' \<in> S" "edit_of e e'" using assms(6) [of e] e by (auto simp: d)
  moreover have "e_id e = i" using e assms(2) by (simp add: id_keyed_def)
  ultimately show ?thesis using edit_of_props(1) [of e e'] by (intro image_eqI [of _ _ e']) simp_all
qed

text \<open>
  C15: (functional) Loading a history from the server is a merge that loses nothing. When it ends without an
  error: the messages are in the order of their ids, each id once; the bubbles of messages being
  sent or failed are all kept, in their order, after them; a message that could be read before can be
  read after, even if the server's copy does not decrypt any more; and every message of the
  server's list is there, control messages and edits apart, unless its id was taken by a control
  message.
\<close>

theorem history_merge_keeps_messages:
  assumes "load_history conv msgs evs g = (Inr (), g')" and "0 \<le> failed_send_counter g" and "edits_ok conv g"
  shows "sorted_wrt (<) (filter (\<lambda>i. 0 < i) (map e_id (conv_hist conv g')))
    \<and> filter (\<lambda>e. e_id e \<le> 0 \<and> \<not> is_system_entry e) (conv_hist conv g') = filter (\<lambda>e. e_id e \<le> 0 \<and> \<not> is_system_entry e) (conv_hist conv g)
    \<and> (\<forall>i e. map_of (by_id (conv_hist conv g)) i = Some e \<longrightarrow> e_body e \<notin> CONTROL_BODIES \<longrightarrow> \<not> is_unavailable_history_body (e_body e) \<longrightarrow>
          (\<exists>e' \<in> set (conv_hist conv g'). e_id e' = i \<and> \<not> is_unavailable_history_body (e_body e')))
    \<and> (\<forall>m i. JObj m \<in> set msgs \<longrightarrow> \<not> is_control (dget m ''body'' (JStr [])) (truthy (dget m ''deleted'' (JBool False))) \<longrightarrow>
          int_or_0 m ''edit_target_message_id'' = Inr 0 \<longrightarrow> py_int (dget m ''id'' (JInt 0)) = Inr i \<longrightarrow> 0 < i \<longrightarrow>
          (\<forall>e. map_of (by_id (conv_hist conv g)) i = Some e \<longrightarrow> e_body e \<notin> CONTROL_BODIES) \<longrightarrow> i \<in> e_id ` set (conv_hist conv g'))"
proof -
  let ?old = "by_id (conv_hist conv g)"
  let ?T = "\<lambda>e. e_id e \<le> 0 \<and> \<not> is_system_entry e"
  obtain incoming edits events where r: "rfold (read_item ?old) msgs ([], []) = Inr (incoming, edits)" and ok: "incoming_ok ?old incoming"
    and ev: "\<forall>e \<in> set events. e_id e \<le> 0 \<and> is_system_entry e"
    and es: "list_all2 edit_of (timeline (merged_messages ?old incoming) events @ filter ?T (conv_hist conv g)) (conv_hist conv g')"
  proof (rule load_history_run [OF assms(1,2)])
    fix incoming edits events
    assume r: "rfold (read_item ?old) msgs ([], []) = Inr (incoming, edits)" and ev: "\<forall>e \<in> set events. e_id e \<le> 0 \<and> is_system_entry e"
      and h: "conv_hist conv g' = edit_list (waiting conv g) (edit_list edits (timeline (merged_messages ?old incoming) events @ filter ?T (conv_hist conv g)))"
    have ok: "incoming_ok ?old incoming" "list_all good_edit edits" using read_items_ok [OF r] by (simp_all add: incoming_ok_def)
    have "list_all good_edit (edits @ waiting conv g)" using ok(2) assms(3) by (simp add: edits_ok_def waiting_def)
    from edit_list_edits [OF this] h show thesis by (intro that [OF r ok(1) ev]) simp
  qed
  have k: "id_keyed ?old" "id_keyed incoming" using by_id_keyed ok by (simp_all add: incoming_ok_def)
  note m = merged_ids [OF k]
  define d where "d = map_of (dupdate ?old incoming)"
  have d: "d = map_of ?old ++ map_of incoming" using k(2) by (simp add: d_def map_of_dupdate_distinct id_keyed_def)
  have t: "filter (\<lambda>e. 0 < e_id e) (timeline (merged_messages ?old incoming) events) = merged_messages ?old incoming"
    by (rule timeline_messages) (use m(1,2) ev in auto)
  have pos: "filter (\<lambda>e. 0 < e_id e) (filter ?T xs) = []" for xs by (auto simp: filter_empty_conv)
  have "filter (\<lambda>i. 0 < i) (map e_id (conv_hist conv g')) = map e_id (merged_messages ?old incoming)"
    unfolding edits_ids [OF es] by (simp add: filter_map o_def t pos)
  moreover have "filter ?T (timeline (merged_messages ?old incoming) events) = []"
    using m(2) ev by (force simp: filter_empty_conv set_timeline)
  then have "filter ?T (conv_hist conv g') = filter ?T (conv_hist conv g)" unfolding edits_local [OF es] by simp
  moreover have shown: "\<exists>e' \<in> set (conv_hist conv g'). edit_of e e'" if "d i = Some e" "\<not> is_control (e_body e) (e_deleted e)" for i e
  proof -
    have "e_id e = i" using that(1) id_keyed_dupdate [OF k] by (simp add: d_def id_keyed_def)
    then have "e \<in> set (merged_messages ?old incoming)" using m(3) that by (simp add: d_def)
    then show ?thesis using edits_member [OF es, of e] by (simp add: set_timeline)
  qed
  moreover have "\<exists>e' \<in> set (conv_hist conv g'). e_id e' = i \<and> \<not> is_unavailable_history_body (e_body e')"
    if e: "map_of ?old i = Some e" "e_body e \<notin> CONTROL_BODIES" "\<not> is_unavailable_history_body (e_body e)" for i e
    by (rule merge_shows_readable [OF k ok e, folded d_def]) (use shown in blast)
  moreover have "i \<in> e_id ` set (conv_hist conv g')"
    if "i \<in> dom (map_of incoming)" "\<forall>e. map_of ?old i = Some e \<longrightarrow> e_body e \<notin> CONTROL_BODIES" for i
    by (rule merge_shows_incoming [OF k ok that, folded d_def]) (use shown in blast)
  ultimately show ?thesis using m(1) read_items_dom [OF r] by auto
qed

lemma load_example: "\<exists>g'. load_history 1 [JObj row_5, JObj row_6] [] blank_page = (Inr (), g')"
proof -
  have "fst (load_history 1 [JObj row_5, JObj row_6] [] blank_page) = Inr ()" by code_simp
  then show ?thesis by (metis prod.collapse)
qed

theorem history_merge_keeps_messages_witness:
  "\<exists>g'. load_history 1 [JObj row_5, JObj row_6] [] blank_page = (Inr (), g') \<and> 5 \<in> e_id ` set (conv_hist 1 g')"
proof -
  obtain g' where g': "load_history 1 [JObj row_5, JObj row_6] [] blank_page = (Inr (), g')" using load_example by blast
  have "0 \<le> failed_send_counter blank_page" "edits_ok 1 blank_page" "by_id (conv_hist 1 blank_page) = []"
    by (simp_all add: blank_page_def edits_ok_def conv_hist_def by_id_def dget_def)
  moreover have "\<not> is_control (dget row_5 ''body'' (JStr [])) (truthy (dget row_5 ''deleted'' (JBool False)))"
    "int_or_0 row_5 ''edit_target_message_id'' = Inr 0" "py_int (dget row_5 ''id'' (JInt 0)) = Inr 5" by code_simp+
  ultimately show ?thesis using history_merge_keeps_messages [OF g'] g' by simp
qed

subsection \<open>A deleted message that was edited\<close>

definition revived :: "int \<Rightarrow> entry list \<Rightarrow> bool" where
  "revived i es = (\<exists>e \<in> set es. e_id e = i \<and> e_edited e \<and> \<not> e_deleted e)"

lemma revived_simps [simp]: "\<not> revived i []" "revived i (e # es) \<longleftrightarrow> (e_id e = i \<and> e_edited e \<and> \<not> e_deleted e) \<or> revived i es"
  by (auto simp: revived_def)

lemma update_entry_revives:
  "mid \<in> e_id ` set es \<Longrightarrow> revived mid (snd (update_entry mid b True False es))"
  "revived i es \<Longrightarrow> revived i (snd (update_entry mid b True False es))"
  by (induction es) (auto simp: Let_def split: prod.splits)

lemma edit_list_revives:
  "revived i es \<or> (i \<in> e_id ` set es \<and> i \<in> ed_target ` set evs) \<Longrightarrow> revived i (edit_list evs es)"
proof (induction evs arbitrary: es)
  case (Cons ev evs)
  have "revived i (snd (update_entry (ed_target ev) (ed_body ev) True False es))
      \<or> i \<in> e_id ` set (snd (update_entry (ed_target ev) (ed_body ev) True False es)) \<and> i \<in> ed_target ` set evs"
    using Cons.prems update_entry_revives(1) [of i es "ed_body ev"] update_entry_revives(2) [of i es "ed_target ev" "ed_body ev"]
    by (cases "i = ed_target ev") (simp_all, blast+)
  from Cons.IH [OF this] show ?case by simp
qed simp

text \<open>The rows of the list that are edits all become edits.\<close>

definition edit_row :: "int \<Rightarrow> json \<Rightarrow> bool" where
  "edit_row i j = (\<exists>m. j = JObj m \<and> int_or_0 m ''edit_target_message_id'' = Inr i \<and> 0 < i
     \<and> \<not> is_control (dget m ''body'' (JStr [])) (truthy (dget m ''deleted'' (JBool False))) \<and> \<not> is_unavailable_history_body (dget m ''body'' (JStr [])))"

lemma read_item_edit:
  assumes "read_item existing j (incoming, edits) = Inr (incoming', edits')"
  shows "ed_target ` set edits \<subseteq> ed_target ` set edits'" and "edit_row i j \<Longrightarrow> i \<in> ed_target ` set edits'"
  using assms by (auto simp: read_item_def edit_row_def history_edit_def Let_def split: if_splits)

lemma read_items_edit:
  "rfold (read_item existing) msgs (incoming, edits) = Inr (incoming', edits') \<Longrightarrow>
   ed_target ` set edits \<subseteq> ed_target ` set edits' \<and> (\<forall>j \<in> set msgs. edit_row i j \<longrightarrow> i \<in> ed_target ` set edits')"
proof (induction msgs arbitrary: incoming edits)
  case (Cons j msgs)
  then obtain a b where r: "read_item existing j (incoming, edits) = Inr (a, b)" "rfold (read_item existing) msgs (a, b) = Inr (incoming', edits')" by auto
  show ?case using Cons.IH [OF r(2)] read_item_edit(1) [OF r(1)] read_item_edit(2) [OF r(1), of i]
    by (simp only: list.set ball_simps) blast
qed simp

text \<open>
  C18: (safety) A deleted message comes back. When the history has the row of a deleted message and a row
  that edits it, which is what the server sends for a message that was edited and deleted after, the
  load shows the message again: not deleted, with the text of an edit. An edit always clears
  the deletion, whatever the order of the two.
\<close>

theorem deleted_message_reappears:
  assumes "load_history conv msgs evs g = (Inr (), g')" and "0 \<le> failed_send_counter g"
    and "JObj m \<in> set msgs" "truthy (dget m ''deleted'' (JBool False))" "int_or_0 m ''edit_target_message_id'' = Inr 0"
    and "py_int (dget m ''id'' (JInt 0)) = Inr i" "0 < i" "i \<notin> e_id ` set (conv_hist conv g)"
    and "j \<in> set msgs" "edit_row i j"
  shows "\<exists>e \<in> set (conv_hist conv g'). e_id e = i \<and> e_edited e \<and> \<not> e_deleted e"
proof -
  let ?old = "by_id (conv_hist conv g)"
  obtain incoming edits events where r: "rfold (read_item ?old) msgs ([], []) = Inr (incoming, edits)"
    and h: "conv_hist conv g' = edit_list (waiting conv g) (edit_list edits (timeline (merged_messages ?old incoming) events
           @ filter (\<lambda>e. e_id e \<le> 0 \<and> \<not> is_system_entry e) (conv_hist conv g)))" by (rule load_history_run [OF assms(1,2)])
  have ok: "incoming_ok ?old incoming" using read_items_ok [OF r] by (simp add: incoming_ok_def)
  then have k: "id_keyed ?old" "id_keyed incoming" using by_id_keyed by (simp_all add: incoming_ok_def)
  have fresh: "map_of ?old i = None" using assms(8) by (rule by_id_None)
  have in_dom: "i \<in> dom (map_of incoming)"
    using read_items_dom [OF r] assms(3-7) by (auto simp: is_control_def)
  have "i \<in> e_id ` set (merged_messages ?old incoming)"
  proof (rule merge_shows_incoming [OF k ok in_dom])
    fix e
    assume e: "map_of (dupdate ?old incoming) i = Some e" "\<not> is_control (e_body e) (e_deleted e)"
    then have "e_id e = i" using id_keyed_dupdate [OF k] unfolding id_keyed_def by blast
    then show "\<exists>e' \<in> set (merged_messages ?old incoming). edit_of e e'" using e merged_ids(3) [OF k] edit_of_refl by metis
  qed (use fresh in simp)
  moreover have "i \<in> ed_target ` set edits" using read_items_edit [OF r] assms(9,10) by blast
  ultimately have "revived i (edit_list edits (timeline (merged_messages ?old incoming) events
           @ filter (\<lambda>e. e_id e \<le> 0 \<and> \<not> is_system_entry e) (conv_hist conv g)))"
    by (intro edit_list_revives) (auto simp: set_timeline image_Un)
  then have "revived i (conv_hist conv g')" unfolding h by (intro edit_list_revives) simp
  then show ?thesis by (simp add: revived_def)
qed

theorem deleted_message_reappears_witness:
  "\<exists>g'. load_history 1 [JObj row_5, JObj row_6] [] blank_page = (Inr (), g') \<and> (\<exists>e \<in> set (conv_hist 1 g'). e_id e = 5 \<and> e_edited e \<and> \<not> e_deleted e)"
proof -
  obtain g' where g': "load_history 1 [JObj row_5, JObj row_6] [] blank_page = (Inr (), g')" using load_example by blast
  have "edit_row 5 (JObj row_6)" unfolding edit_row_def by (intro exI [of _ row_6] conjI) code_simp+
  moreover have "truthy (dget row_5 ''deleted'' (JBool False))" "int_or_0 row_5 ''edit_target_message_id'' = Inr 0"
    "py_int (dget row_5 ''id'' (JInt 0)) = Inr 5" by code_simp+
  moreover have "0 \<le> failed_send_counter blank_page" "5 \<notin> e_id ` set (conv_hist 1 blank_page)" by (simp_all add: blank_page_def conv_hist_def dget_def)
  ultimately show ?thesis using deleted_message_reappears [OF g', of row_5 5 "JObj row_6"] g' by simp
qed

end
