(* ===== verification/Timeline_Steps.thy ===== *)
theory Timeline_Steps
  imports Timeline_Facts "HOL-Library.Multiset"
begin

text \<open>
  The chat page as a state machine: every operation of the conversation history is a step, and an
  invariant of all reachable pages makes the bubbles of messages being sent identifiable and keeps
  the edits that wait apart from the messages that are shown.
\<close>

subsection \<open>The invariant\<close>

definition bubbles :: "entry list \<Rightarrow> int list" where
  "bubbles es = map e_id (filter is_bubble es)"

definition hist_ok :: "int \<Rightarrow> entry list \<Rightarrow> edit_event list \<Rightarrow> bool" where
  "hist_ok n es evs = (distinct (bubbles es) \<and> (\<forall>i \<in> set (bubbles es). - n \<le> i \<and> i < 0)
     \<and> (\<forall>ev \<in> set evs. 0 < ed_target ev \<and> ed_target ev \<notin> e_id ` set es))"

definition page_ok :: "page \<Rightarrow> bool" where
  "page_ok g = (0 \<le> failed_send_counter g \<and> (\<forall>conv. hist_ok (failed_send_counter g) (conv_hist conv g) (waiting conv g)))"

lemma bubbles_simps [simp]:
  "bubbles [] = []" "bubbles (e # es) = (if is_bubble e then e_id e # bubbles es else bubbles es)" "bubbles (es @ es') = bubbles es @ bubbles es'"
  by (simp_all add: bubbles_def)

lemma hist_ok_mono: "hist_ok n es evs \<Longrightarrow> n \<le> n' \<Longrightarrow> hist_ok n' es evs"
  by (fastforce simp: hist_ok_def)

text \<open>A step that touches one conversation.\<close>

lemma page_ok_change:
  assumes "page_ok g" and "failed_send_counter g \<le> failed_send_counter g'"
    and "\<And>c. c \<noteq> conv \<Longrightarrow> conv_hist c g' = conv_hist c g \<and> waiting c g' = waiting c g"
    and "hist_ok (failed_send_counter g') (conv_hist conv g') (waiting conv g')"
  shows "page_ok g'"
proof -
  have "hist_ok (failed_send_counter g') (conv_hist c g') (waiting c g')" for c
    using assms hist_ok_mono [OF _ assms(2)] by (cases "c = conv") (simp_all add: page_ok_def)
  then show ?thesis using assms(1,2) by (simp add: page_ok_def)
qed

lemma page_ok_part: "page_ok g \<Longrightarrow> history_part g' = history_part g \<Longrightarrow> page_ok g'"
  using history_partD [of g' g] by (simp add: page_ok_def)

text \<open>What edits leave of an entry for the invariant.\<close>

definition shape :: "entry list \<Rightarrow> (int \<times> bool) list" where
  "shape es = map (\<lambda>e. (e_id e, is_bubble e)) es"

lemma shape_hist_ok: "shape es = shape es' \<Longrightarrow> hist_ok n es evs = hist_ok n es' evs"
proof -
  assume s: "shape es = shape es'"
  have "bubbles xs = map fst (filter snd (shape xs))" for xs by (simp add: bubbles_def shape_def filter_map o_def)
  moreover have "e_id ` set xs = fst ` set (shape xs)" for xs by (force simp: shape_def)
  ultimately show ?thesis using s by (simp add: hist_ok_def)
qed

lemma update_entry_shape [simp]: "shape (snd (update_entry mid b x d es)) = shape es"
  by (induction es) (auto simp: shape_def is_bubble_def Let_def split: prod.splits)

lemma edit_list_shape [simp]: "shape (edit_list evs es) = shape es"
  by (induction evs arbitrary: es) simp_all

lemma change_entry_shape: "(\<And>e. e_id (f e) = e_id e \<and> is_bubble (f e) = is_bubble e) \<Longrightarrow> shape (change_entry mid f es) = shape es"
  by (induction es) (simp_all add: shape_def)

lemma fail_pending_shape: "shape (map (fail_pending reason) es) = shape es"
  by (simp add: shape_def fail_pending_def is_bubble_def)

lemma page_ok_shape:
  assumes "page_ok g" and "failed_send_counter g' = failed_send_counter g"
    and "\<And>c. c \<noteq> conv \<Longrightarrow> conv_hist c g' = conv_hist c g" and "pending_edit_events g' = pending_edit_events g"
    and "shape (conv_hist conv g') = shape (conv_hist conv g)"
  shows "page_ok g'"
proof -
  have w: "waiting c g' = waiting c g" for c using assms(4) by (simp add: waiting_def)
  show ?thesis
    by (rule page_ok_change [OF assms(1), of _ conv]) (use assms w shape_hist_ok [OF assms(5)] in \<open>simp_all add: page_ok_def\<close>)
qed

subsection \<open>Every operation keeps it\<close>

lemma hist_ok_append:
  "hist_ok n es evs \<Longrightarrow> \<not> is_bubble e \<or> (e_id e < - n \<and> - n' \<le> e_id e \<and> e_id e < 0) \<Longrightarrow> n \<le> n' \<Longrightarrow> e_id e \<notin> ed_target ` set evs \<Longrightarrow> hist_ok n' (es @ [e]) evs"
  by (cases "is_bubble e") (force simp: hist_ok_def)+

lemma append_keeps:
  assumes "page_ok g" and "n \<ge> failed_send_counter g" and "e_id e \<le> 0" and "is_bubble e \<longrightarrow> e_id e = - n \<and> failed_send_counter g < n"
  shows "page_ok (append_entry conv e (g\<lparr> failed_send_counter := n \<rparr>))"
proof (rule page_ok_change [OF assms(1), of _ conv])
  have "hist_ok (failed_send_counter g) (conv_hist conv g) (waiting conv g)" "0 \<le> failed_send_counter g" using assms(1) by (simp_all add: page_ok_def)
  moreover from this have "e_id e \<notin> ed_target ` set (waiting conv g)" using assms(3) by (auto simp: hist_ok_def)
  ultimately have "hist_ok n (conv_hist conv g @ [e]) (waiting conv g)" using assms(2,4) by (intro hist_ok_append) auto
  then show "hist_ok (failed_send_counter (append_entry conv e (g\<lparr> failed_send_counter := n \<rparr>)))
      (conv_hist conv (append_entry conv e (g\<lparr> failed_send_counter := n \<rparr>))) (waiting conv (append_entry conv e (g\<lparr> failed_send_counter := n \<rparr>)))"
    by (simp add: append_entry_def) (simp add: set_hist_def)
qed (use assms(2) in \<open>simp_all add: append_entry_def\<close>, simp add: set_hist_def)

lemma only_append: "only conv g (append_entry conv e g)"
  by (simp add: only_def append_entry_def) (simp add: set_hist_def)

lemma add_msg_keeps:
  assumes "page_ok g"
  shows "page_ok (snd (add_msg conv sender body ts mid pin reactions fwd reply g))"
proof (cases "normalize_reactions (py_or reactions (JArr []))")
  case (Inl x)
  then show ?thesis using assms by (simp add: add_msg_def)
next
  case (Inr rs)
  define e where "e = (plain_entry sender body ts mid)\<lparr> e_pinned := pin, e_reactions := rs, e_forwarded := fwd, e_reply := reply \<rparr>"
  let ?u = "append_entry conv e g"
  have w: "waiting conv ?u = waiting conv g" "conv_hist conv ?u = conv_hist conv g @ [e]" by (simp_all add: append_entry_def)
  have e: "\<not> is_bubble e" by (simp add: e_def plain_entry_def is_bubble_def)
  have o: "only conv g (apply_pending_edit_events conv ?u)" by (rule only_trans [OF only_append only_apply_pending])
  have "shape (conv_hist conv (apply_pending_edit_events conv ?u)) = shape (conv_hist conv g @ [e])" using apply_pending_run [of conv ?u] w by simp
  moreover have "hist_ok (failed_send_counter g) (conv_hist conv g @ [e]) (unmatched (conv_hist conv g @ [e]) (waiting conv g))"
    using assms e by (auto simp: page_ok_def hist_ok_def unmatched_def)
  ultimately have "page_ok (apply_pending_edit_events conv ?u)"
    using o apply_pending_run [of conv ?u] w shape_hist_ok [of "conv_hist conv (apply_pending_edit_events conv ?u)" "conv_hist conv g @ [e]"]
    by (intro page_ok_change [OF assms, of _ conv]) (simp_all add: only_def)
  then show ?thesis using page_ok_part add_msg_run [OF Inr] unfolding e_def by blast
qed

lemma apply_edit_keeps: "page_ok g \<Longrightarrow> 0 < ed_target ev \<Longrightarrow> page_ok (snd (apply_edit_event conv ev g))"
proof (rule page_ok_change [of g _ conv])
  assume ok: "page_ok g" and t: "0 < ed_target ev"
  have r: "apply_edits conv [ev] g = snd (apply_edit_event conv ev g)" by (simp add: apply_edits_def)
  have "shape (conv_hist conv (snd (apply_edit_event conv ev g))) = shape (conv_hist conv g)"
    "waiting conv (snd (apply_edit_event conv ev g)) = waiting conv g @ unmatched (conv_hist conv g) [ev]"
    using apply_edits_run [of conv "[ev]" g] r by simp_all
  moreover have "hist_ok (failed_send_counter g) (conv_hist conv g) (waiting conv g @ unmatched (conv_hist conv g) [ev])"
    using ok t by (auto simp: page_ok_def hist_ok_def unmatched_def)
  ultimately show "hist_ok (failed_send_counter (snd (apply_edit_event conv ev g))) (conv_hist conv (snd (apply_edit_event conv ev g))) (waiting conv (snd (apply_edit_event conv ev g)))"
    using only_apply_edit [of conv g ev] shape_hist_ok [of "conv_hist conv (snd (apply_edit_event conv ev g))" "conv_hist conv g"] by (simp add: only_def)
qed (use only_apply_edit [of conv g ev] in \<open>simp_all add: only_def\<close>)

lemma update_message_keeps: "page_ok g \<Longrightarrow> page_ok (snd (update_message conv mid b x d g))"
  by (rule page_ok_shape [of g _ conv]) (use only_update_message [of conv g mid b x d] in \<open>simp_all add: only_def conv_hist_update_message\<close>)

lemma change_entry_keeps:
  "page_ok g \<Longrightarrow> (\<And>e. e_id (f e) = e_id e \<and> is_bubble (f e) = is_bubble e) \<Longrightarrow> page_ok (set_hist conv (change_entry mid f (conv_hist conv g)) g)"
  by (rule page_ok_shape [of g _ conv]) (simp_all add: change_entry_shape set_hist_def conv_hist_def dget_def update_conv')

text \<open>Dropping entries keeps it.\<close>

lemma submset_distinct: "mset xs \<subseteq># mset ys \<Longrightarrow> distinct ys \<Longrightarrow> distinct xs"
proof -
  assume sub: "mset xs \<subseteq># mset ys" and d: "distinct ys"
  have "count (mset xs) a \<le> (if a \<in> set xs then 1 else 0)" for a
    using mset_subset_eq_count [OF sub, of a] d by (auto simp: distinct_count_atmost_1 not_in_iff split: if_splits)
  moreover have "count (mset xs) a \<ge> (if a \<in> set xs then 1 else 0)" for a by (simp add: Suc_leI)
  ultimately show "distinct xs" unfolding distinct_count_atmost_1 by (simp add: le_antisym)
qed

lemma hist_ok_sub:
  assumes "mset (bubbles es') \<subseteq># mset (bubbles es)" and "hist_ok n es evs" and "\<forall>ev \<in> set evs. ed_target ev \<notin> e_id ` set es'"
  shows "hist_ok n es' evs"
proof -
  have "set (bubbles es') \<subseteq> set (bubbles es)" using set_mset_mono [OF assms(1)] by simp
  then show ?thesis using assms(2,3) submset_distinct [OF assms(1)] unfolding hist_ok_def by blast
qed

lemma bubbles_sub: "mset es \<subseteq># mset es' \<Longrightarrow> mset (bubbles es) \<subseteq># mset (bubbles es')"
  using image_mset_subseteq_mono [OF multiset_filter_mono, of "mset es" "mset es'" e_id is_bubble] by (simp add: bubbles_def)

lemma sub_keeps:
  assumes "page_ok g" and "mset es \<subseteq># mset (conv_hist conv g)"
  shows "page_ok (set_hist conv es g)"
proof (rule page_ok_change [OF assms(1), of _ conv])
  have ok: "hist_ok (failed_send_counter g) (conv_hist conv g) (waiting conv g)" using assms(1) by (simp add: page_ok_def)
  have "mset (bubbles es) \<subseteq># mset (bubbles (conv_hist conv g))"
    by (rule bubbles_sub [OF assms(2)])
  moreover have "\<forall>ev \<in> set (waiting conv g). ed_target ev \<notin> e_id ` set es"
    using ok set_mset_mono [OF assms(2)] unfolding hist_ok_def set_mset_mset by blast
  ultimately have "hist_ok (failed_send_counter g) es (waiting conv g)" using hist_ok_sub [OF _ ok] by blast
  then show "hist_ok (failed_send_counter (set_hist conv es g)) (conv_hist conv (set_hist conv es g)) (waiting conv (set_hist conv es g))"
    by simp (simp add: set_hist_def)
qed (simp_all, simp add: set_hist_def)

lemma drop_first_sub: "mset (snd (drop_first P es)) \<subseteq># mset es"
  by (induction es) (auto split: prod.splits)

lemma remove_pending_keeps: "page_ok g \<Longrightarrow> page_ok (remove_pending_send conv body pid g)"
  using drop_first_sub [of "is_pending_send body pid" "conv_hist conv g"]
  by (auto simp: remove_pending_send_def intro: sub_keeps split: prod.splits)

lemma remove_failed_keeps: "page_ok g \<Longrightarrow> page_ok (remove_failed_message mid g)"
  by (simp add: remove_failed_message_def Let_def sub_keeps)

lemma mark_failed_keeps: "page_ok g \<Longrightarrow> page_ok (mark_pending_sends_failed reason g)"
proof -
  assume ok: "page_ok g"
  let ?g = "mark_pending_sends_failed reason g"
  have "conv_hist c ?g = map (fail_pending reason) (conv_hist c g)" for c
    by (simp add: mark_pending_sends_failed_def conv_hist_def dget_def map_of_map split: option.splits)
  then have "shape (conv_hist c ?g) = shape (conv_hist c g)" for c by (simp add: fail_pending_shape)
  then have "hist_ok n (conv_hist c ?g) evs = hist_ok n (conv_hist c g) evs" for c n evs by (rule shape_hist_ok)
  then show ?thesis using ok by (simp add: page_ok_def) (simp add: mark_pending_sends_failed_def)
qed

text \<open>The merge of a history keeps the bubbles, whatever was loaded.\<close>

lemma timeline_mset: "mset (timeline messages events) = mset messages + mset events"
proof -
  have "mset (timeline messages events) = mset (map snd (map (\<lambda>e. ((e_id e, 0 :: int, e_id e), e)) messages
       @ map (\<lambda>(seq, e). (timeline_key (int seq, e), e)) (enumerate 0 events)))" unfolding timeline_def by (simp only: mset_map mset_sort)
  also have "\<dots> = mset messages + mset (map snd (enumerate 0 events))" by (simp add: o_def split_def)
  finally show ?thesis by simp
qed

lemma bubbles_timeline: "mset (bubbles (timeline messages events)) = mset (bubbles messages) + mset (bubbles events)"
  using timeline_mset [of messages events] by (simp add: bubbles_def)

lemma by_id_set: "map_of (by_id es) i = Some e \<Longrightarrow> e \<in> set es"
proof -
  have "map_of (fold (\<lambda>e m. dset m (e_id e) e) (filter (\<lambda>e. 0 < e_id e) es) m) i = Some e \<Longrightarrow> e \<in> set es \<or> map_of m i = Some e" for m
    by (induction es arbitrary: m) (fastforce simp: update_conv' split: if_splits)+
  then show "map_of (by_id es) i = Some e \<Longrightarrow> e \<in> set es" by (force simp: by_id_def)
qed

lemma split_old_bubbles:
  "split_old conv prev es = (events, transient) \<Longrightarrow> mset (bubbles events) + mset (bubbles transient) \<subseteq># mset (bubbles es)"
proof (induction es arbitrary: prev events transient)
  case (Cons e es)
  show ?case
  proof (cases "0 < e_id e")
    case True
    then have "mset (bubbles events) + mset (bubbles transient) \<subseteq># mset (bubbles es)" using Cons.prems Cons.IH [of "e_id e"] by simp
    moreover have "mset (bubbles es) \<subseteq># mset (bubbles (e # es))" by simp
    ultimately show ?thesis by (rule subset_mset.order_trans)
  next
    case False
    obtain ev tr where r: "split_old conv prev es = (ev, tr)" by (cases "split_old conv prev es")
    have "is_bubble (e\<lparr> e_after := a, e_keys := k \<rparr>) = is_bubble e" "is_bubble (e\<lparr> e_after := a \<rparr>) = is_bubble e" for a k by (simp_all add: is_bubble_def)
    then show ?thesis using False r Cons.prems Cons.IH [OF r] by (auto simp: Let_def split: if_splits)
  qed
qed simp

lemma merged_no_bubbles:
  assumes "\<forall>e \<in> set es. is_bubble e \<longrightarrow> e_id e < 0" and "incoming_ok (by_id es) incoming"
  shows "bubbles (merged_messages (by_id es) incoming) = []"
proof -
  have k: "id_keyed (by_id es)" "id_keyed incoming" using by_id_keyed assms(2) by (simp_all add: incoming_ok_def)
  have "\<not> is_bubble e" if "e \<in> set (merged_messages (by_id es) incoming)" for e
  proof -
    have "map_of (by_id es) (e_id e) = Some e \<or> map_of incoming (e_id e) = Some e"
      using that merged_ids(3) [OF k] k(2) by (auto simp: map_of_dupdate_distinct id_keyed_def map_add_Some_iff)
    then show ?thesis
    proof
      assume "map_of (by_id es) (e_id e) = Some e"
      then have "e \<in> set es" "0 < e_id e" using by_id_set k(1) unfolding id_keyed_def by blast+
      then show ?thesis using assms(1) by fastforce
    qed (use assms(2) in \<open>auto simp: incoming_ok_def\<close>)
  qed
  then show ?thesis by (simp add: bubbles_def filter_empty_conv)
qed

lemma hist_okD: "hist_ok n es evs \<Longrightarrow> e \<in> set es \<Longrightarrow> is_bubble e \<Longrightarrow> e_id e < 0"
  by (auto simp: hist_ok_def bubbles_def)

lemma load_history_keeps:
  assumes ok: "page_ok g" and run: "load_history conv msgs evs g = (r, g')"
  shows "page_ok g'"
proof -
  let ?es = "conv_hist conv g" let ?g0 = "g\<lparr> history_loading_convs := history_loading_convs g - {conv} \<rparr>"
  have ok0: "page_ok ?g0" by (rule page_ok_part [OF ok]) (simp add: history_part_def)
  have h: "hist_ok (failed_send_counter g) ?es (waiting conv g)" using ok by (simp add: page_ok_def)
  obtain events transient where sp: "split_old conv 0 ?es = (events, transient)" by (cases "split_old conv 0 ?es")
  show ?thesis
  proof (cases "rfold (read_item (by_id ?es)) msgs ([], [])")
    case (Inl x)
    then show ?thesis using run ok0 by (auto simp: load_history_def)
  next
    case (Inr p)
    obtain incoming edits where r: "rfold (read_item (by_id ?es)) msgs ([], []) = Inr (incoming, edits)" using Inr by (cases p) simp
    obtain r1 g1 where e: "sfold (read_event conv) evs ({}, []) ?g0 = (r1, g1)" by (cases "sfold (read_event conv) evs ({}, []) ?g0")
    note keep = read_events_keep [OF e]
    have same: "conv_hist c g1 = conv_hist c g" "waiting c g1 = waiting c g" "failed_send_counter g \<le> failed_send_counter g1" for c
      using keep by (simp_all add: conv_hist_def waiting_def)
    have ok1: "page_ok g1" by (rule page_ok_change [OF ok, of _ conv]) (use same hist_ok_mono [OF h same(3)] in simp_all)
    show ?thesis
    proof (cases r1)
      case (Inl x)
      then show ?thesis using run ok1 r e by (simp add: load_history_def sbind_def)
    next
      case (Inr q)
      obtain K persisted where q: "q = (K, persisted)" by (cases q)
      let ?kept = "filter (\<lambda>e. set (e_keys e) \<inter> K = {}) events"
      let ?base = "timeline (merged_messages (by_id ?es) incoming) (persisted @ ?kept) @ transient"
      have i: "install_history conv ?base (\<Union> (set ` e_keys ` set ?kept)) edits g1 = (r, g')"
        using run by (simp add: load_history_def r sbind_def e Inr q sp Let_def)
      note after = install_history_run [OF i]
      have in_ok: "incoming_ok (by_id ?es) incoming" "list_all good_edit edits" using read_items_ok [OF r] by (simp_all add: incoming_ok_def)
      have "bubbles persisted = []"
        using read_events_ok [of conv evs "{}" "[]" ?g0 K persisted g1] e Inr q ok by (simp add: page_ok_def bubbles_def filter_empty_conv event_ok_def)
      moreover have "bubbles (merged_messages (by_id ?es) incoming) = []" by (rule merged_no_bubbles [OF _ in_ok(1)]) (use hist_okD [OF h] in blast)
      ultimately have "mset (bubbles ?base) = mset (bubbles ?kept) + mset (bubbles transient)" by (simp add: bubbles_timeline)
      moreover have "mset (bubbles ?kept) \<subseteq># mset (bubbles events)" by (intro bubbles_sub) simp
      ultimately have sub: "mset (bubbles ?base) \<subseteq># mset (bubbles ?es)"
        using subset_mset.order_trans [OF subset_mset.add_right_mono split_old_bubbles [OF sp]] by (simp only:)
      have "hist_ok (failed_send_counter g) ?es []" using h by (simp add: hist_ok_def)
      from hist_ok_sub [OF sub this] have b: "hist_ok (failed_send_counter g) ?base []" by simp
      have "\<forall>ev \<in> set (waiting conv g @ edits). 0 < ed_target ev" using h in_ok(2) by (auto simp: hist_ok_def list_all_iff good_edit_def)
      then have "hist_ok (failed_send_counter g) ?base (unmatched ?base (waiting conv g @ edits))" using b by (auto simp: hist_ok_def unmatched_def)
      from hist_ok_mono [OF this same(3)] have "hist_ok (failed_send_counter g') (conv_hist conv g') (waiting conv g')"
        unfolding after(1) after(2) after(3) same(2) using shape_hist_ok [of "edit_list (waiting conv g) (edit_list edits ?base)" ?base] by simp
      then show ?thesis by (intro page_ok_change [OF ok1, of _ conv]) (use after(3,4) in simp_all)
    qed
  qed
qed

subsection \<open>The page as a state machine\<close>

text \<open>
  Every operation of the history, with any arguments and whether or not it raises. An edit event names
  a positive id: both callers ignore the others.
\<close>

inductive page_step :: "page \<Rightarrow> page \<Rightarrow> bool" where
  Add: "page_step g (snd (add_msg conv sender body ts mid pin reactions fwd reply g))"
| Edit: "0 < ed_target ev \<Longrightarrow> page_step g (snd (apply_edit_event conv ev g))"
| Update: "page_step g (snd (update_message conv mid b x d g))"
| Pin: "page_step g (set_message_pinned conv mid pin g)"
| React: "page_step g (update_reaction conv mid emoji user added g)"
| Event: "page_step g (add_system_event conv t ts key sid after g)"
| Failed: "page_step g (show_send_failed conv s reason path g)"
| Pending: "page_step g (snd (show_send_pending conv s path reply g))"
| Confirm: "page_step g (remove_pending_send conv s pid g)"
| Disconnect: "page_step g (mark_pending_sends_failed reason g)"
| Discard: "page_step g (remove_failed_message mid g)"
| Retry: "page_step g (snd (retry_failed_message mid g))"
| Load: "page_step g (snd (load_history conv msgs evs g))"
| Invalidate: "page_step g (invalidate_history conv clear g)"
| Preference: "page_step g (snd (send_conversation_pref command g))"
| Read: "page_step g (snd (mark_active_conversation_read g))"
| Remove: "page_step g (snd (remove_conversation conv g))"
| Disband: "page_step g (snd (mark_group_disbanded conv g))"

lemma invalidate_keeps: "page_ok g \<Longrightarrow> page_ok (invalidate_history conv clear g)"
proof -
  assume ok: "page_ok g"
  have 1: "page_ok (history_loaded_convs_update f g)" for f by (rule page_ok_part [OF ok]) (simp add: history_part_def)
  have "page_ok (t\<lparr> hist := dpop (hist t) conv \<rparr>)" if "page_ok t" for t
  proof (rule page_ok_change [OF that, of _ conv])
    have "hist_ok n [] evs \<longleftrightarrow> (\<forall>ev \<in> set evs. 0 < ed_target ev)" for n evs by (simp add: hist_ok_def)
    then show "hist_ok (failed_send_counter (t\<lparr> hist := dpop (hist t) conv \<rparr>)) (conv_hist conv (t\<lparr> hist := dpop (hist t) conv \<rparr>))
        (waiting conv (t\<lparr> hist := dpop (hist t) conv \<rparr>))"
      using that by (simp add: conv_hist_def dget_pop) (simp add: page_ok_def hist_ok_def)
  qed (simp_all add: conv_hist_def dget_def delete_conv')
  from this [OF 1, of "\<lambda>_. history_loaded_convs g - {conv}"] 1 show ?thesis by (simp add: invalidate_history_def Let_def)
qed

lemma send_pref_part: "history_part (snd (send_conversation_pref command g)) = history_part g"
proof -
  have u: "history_part t' = history_part t" if "update_conversation_pref conv ch t = (r, t')" for conv ch t r t'
    using update_pref_part [of conv ch t] that by simp
  have c: "history_part (t\<lparr> commands := cs \<rparr>) = history_part t" for t cs by (simp add: history_part_def)
  show ?thesis unfolding send_conversation_pref_def
    by (auto simp: sbind_def Let_def c split: sum.splits prod.splits if_splits dest!: u)
qed

lemma remove_conversation_keeps: "page_ok g \<Longrightarrow> page_ok (snd (remove_conversation conv g))"
proof -
  assume "page_ok g"
  then have "page_ok (invalidate_history conv True g)" by (rule invalidate_keeps)
  moreover have "history_part (snd (remove_conversation conv g)) = history_part (invalidate_history conv True g)"
    unfolding remove_conversation_def by (simp add: sbind_def history_part_def split: sum.splits)
  ultimately show ?thesis by (rule page_ok_part)
qed

lemma disband_part: "history_part (snd (mark_group_disbanded conv g)) = history_part g"
  unfolding mark_group_disbanded_def by (simp add: sbind_def history_part_def split: sum.splits)

lemma show_keeps:
  assumes "page_ok g"
  shows "page_ok (show_send_failed conv s reason path g)" and "page_ok (snd (show_send_pending conv s path reply g))"
    and "page_ok (add_system_event conv t ts key sid after g)"
proof -
  have n: "0 \<le> failed_send_counter g" using assms by (simp add: page_ok_def)
  show "page_ok (show_send_failed conv s reason path g)" unfolding show_send_failed_def Let_def
    by (rule append_keeps [OF assms]) (use n in \<open>simp_all add: plain_entry_def\<close>)
  show "page_ok (snd (show_send_pending conv s path reply g))" unfolding show_send_pending_def Let_def snd_conv
    by (rule append_keeps [OF assms]) (use n in \<open>simp_all add: plain_entry_def\<close>)
  have k: "page_ok (g\<lparr> system_event_keys := ks \<rparr>)" for ks by (rule page_ok_part [OF assms]) (simp add: history_part_def)
  have "page_ok (append_entry conv (system_entry t ts (event_msg_id i (failed_send_counter g + 1)) keys i a)
      ((g\<lparr> system_event_keys := ks \<rparr>)\<lparr> failed_send_counter := failed_send_counter g + 1 \<rparr>))" for ks keys i a
    by (rule append_keeps [OF k]) (use n in \<open>simp_all add: system_entry_props event_msg_id_def\<close>)
  then show "page_ok (add_system_event conv t ts key sid after g)" using assms by (simp add: add_system_event_def Let_def)
qed

lemma page_step_ok: "page_step g g' \<Longrightarrow> page_ok g \<Longrightarrow> page_ok g'"
proof (induction rule: page_step.induct)
  case (Load g conv msgs evs)
  then show ?case using load_history_keeps [of g conv msgs evs] by (metis prod.collapse)
next
  case (Retry g mid)
  then show ?case by (simp add: retry_failed_message_def Let_def remove_failed_keeps split: option.splits)
next
  case (Pin g conv mid pin)
  then show ?case by (simp add: set_message_pinned_def change_entry_keeps is_bubble_def)
next
  case (React g conv mid emoji user added)
  then show ?case by (simp add: update_reaction_def change_entry_keeps is_bubble_def)
qed (simp_all add: add_msg_keeps apply_edit_keeps update_message_keeps show_keeps remove_pending_keeps mark_failed_keeps remove_failed_keeps
      invalidate_keeps remove_conversation_keeps page_ok_part send_pref_part mark_read_part disband_part)

text \<open>The page as \<open>ChatPage.__init__\<close> leaves it, as far as the history goes.\<close>

definition fresh_page :: "page \<Rightarrow> bool" where
  "fresh_page g = (hist g = [] \<and> pending_edit_events g = [] \<and> failed_send_counter g = 0)"

lemma reachable_ok: "page_step\<^sup>*\<^sup>* g0 g \<Longrightarrow> fresh_page g0 \<Longrightarrow> page_ok g"
proof (induction rule: rtranclp_induct)
  case base
  then show ?case by (simp add: fresh_page_def page_ok_def hist_ok_def conv_hist_def waiting_def dget_def)
qed (auto intro: page_step_ok)

text \<open>
  C16: (invariant) In every page that operations can reach from a new one, in every conversation: the
  bubbles of messages being sent or failed have ids of their own, negative and not below the
  counter they are drawn from; and an edit that waits for its message names a positive id that no entry has. So
  no edit is left waiting for a message that is shown.
\<close>

theorem reachable_page_invariant:
  assumes "page_step\<^sup>*\<^sup>* g0 g" and "fresh_page g0"
  shows "distinct (map e_id (filter (\<lambda>e. e_sending e \<or> e_failed e) (conv_hist conv g)))
    \<and> (\<forall>e \<in> set (conv_hist conv g). e_sending e \<or> e_failed e \<longrightarrow> - failed_send_counter g \<le> e_id e \<and> e_id e < 0)
    \<and> (\<forall>ev \<in> set (dget (pending_edit_events g) conv []). 0 < ed_target ev \<and> ed_target ev \<notin> e_id ` set (conv_hist conv g))"
proof -
  have "hist_ok (failed_send_counter g) (conv_hist conv g) (waiting conv g)" using reachable_ok [OF assms] by (simp add: page_ok_def)
  moreover have b: "is_bubble = (\<lambda>e. e_sending e \<or> e_failed e)" by (simp add: is_bubble_def fun_eq_iff)
  ultimately show ?thesis unfolding hist_ok_def bubbles_def waiting_def b by fastforce
qed

lemma drop_first_unique:
  assumes "distinct (bubbles es)" and "e \<in> set es" and "e_sending e"
  shows "drop_first (\<lambda>x. e_sending x \<and> e_id x = e_id e) es = (True, filter (\<lambda>x. x \<noteq> e) es)"
  using assms
proof (induction es)
  case (Cons a es)
  have inb: "e_id x \<in> set (bubbles es)" if "x \<in> set es" "e_sending x" for x using that by (auto simp: bubbles_def is_bubble_def)
  show ?case
  proof (cases "e_sending a \<and> e_id a = e_id e")
    case True
    then have "e_id e \<notin> set (bubbles es)" using Cons.prems(1) by (auto simp: is_bubble_def)
    then have "e \<notin> set es" "a = e" using inb [of e] Cons.prems by auto
    moreover from this have "filter (\<lambda>x. x \<noteq> e) es = es" by (auto simp: filter_id_conv)
    ultimately show ?thesis using True by simp
  next
    case False
    then have "a \<noteq> e" "e \<in> set es" using Cons.prems by auto
    moreover have "distinct (bubbles es)" using Cons.prems(1) by (auto split: if_splits)
    ultimately show ?thesis using Cons.IH Cons.prems(3) False by auto
  qed
qed simp

text \<open>
  The confirmation of a send removes its bubble and nothing else: in every reachable page
  with the bubble of a message being sent, removing it by the id that \<open>show_send_pending\<close> gave leaves all other
  entries of the conversation, in order, and all other conversations.
\<close>

theorem confirmation_removes_one_bubble:
  assumes "page_step\<^sup>*\<^sup>* g0 g" and "fresh_page g0" and "e \<in> set (conv_hist conv g)" and "e_sending e"
  shows "conv_hist c (remove_pending_send conv s (e_id e) g) = (if c = conv then filter (\<lambda>x. x \<noteq> e) (conv_hist conv g) else conv_hist c g)"
proof -
  have ok: "hist_ok (failed_send_counter g) (conv_hist conv g) (waiting conv g)" using reachable_ok [OF assms(1,2)] by (simp add: page_ok_def)
  then have "e_id e < 0" using hist_okD [OF ok assms(3)] assms(4) by (simp add: is_bubble_def)
  then have "is_pending_send s (e_id e) = (\<lambda>x. e_sending x \<and> e_id x = e_id e)" by (auto simp: is_pending_send_def fun_eq_iff)
  moreover have "distinct (bubbles (conv_hist conv g))" using ok by (simp add: hist_ok_def)
  ultimately show ?thesis using drop_first_unique [OF _ assms(3,4)] by (simp add: remove_pending_send_def)
qed

text \<open>Two bubbles of the same text.\<close>

definition two_sends :: page where
  "two_sends = snd (show_send_pending 1 ''hi'' [] 0 (snd (show_send_pending 1 ''hi'' [] 0 blank_page)))"

lemma two_sends_reachable: "page_step\<^sup>*\<^sup>* blank_page two_sends" "fresh_page blank_page"
  unfolding two_sends_def by (meson page_step.Pending rtranclp.rtrancl_into_rtrancl rtranclp.rtrancl_refl) (simp add: fresh_page_def blank_page_def)

lemma two_sends_hist: "map (\<lambda>e. (e_id e, e_sending e)) (conv_hist 1 two_sends) = [(- 1, True), (- 2, True)]"
  by code_simp

theorem reachable_page_invariant_witness: "distinct (map e_id (filter (\<lambda>e. e_sending e \<or> e_failed e) (conv_hist 1 two_sends)))"
  using reachable_page_invariant [OF two_sends_reachable] by blast

theorem confirmation_removes_one_bubble_witness: "map e_id (conv_hist 1 (remove_pending_send 1 ''hi'' (- 2) two_sends)) = [- 1]"
proof -
  obtain a b where h: "conv_hist 1 two_sends = [a, b]" "e_id a = - 1" "e_id b = - 2" "e_sending b" using two_sends_hist by (auto simp: map_eq_Cons_conv)
  then have "a \<noteq> b" by auto
  then show ?thesis using confirmation_removes_one_bubble [OF two_sends_reachable, of b 1 1] h by simp
qed

end
