(* ===== verification/App_Facts.thy ===== *)
theory App_Facts
  imports App_Messages Timeline_Steps
begin

text \<open>
  What the controller promises of messages: texts sent in a conversation come back from the echoes in the order
  they were sent, a message is handled once, trying waiting messages again ends; and where it does not keep its
  promises.
\<close>

subsection \<open>What actions leave alone\<close>

definition in_a :: "('s \<Rightarrow> 'p) \<Rightarrow> 'p \<Rightarrow> 's \<Rightarrow> bool" where
  "in_a part v a = (part a = v)"

text \<open>The session is not the controller's own part.\<close>

definition outside_session :: "(app \<Rightarrow> 'p) \<Rightarrow> bool" where
  "outside_session part = (\<forall>a s. part (a\<lparr> a_session := s \<rparr>) = part a)"

named_theorems keep_intros

lemma keep_sbind [keep_intros]: "preserves P m \<Longrightarrow> (\<And>x. preserves P (f x)) \<Longrightarrow> preserves P (sbind m f)"
  by (rule preserves_sbind)

lemma keep_scatch [keep_intros]: "preserves P m \<Longrightarrow> (\<And>e. preserves P (h e)) \<Longrightarrow> preserves P (scatch m h)"
  by (rule preserves_scatch)

lemma keep_if [keep_intros]: "preserves P m \<Longrightarrow> preserves P k \<Longrightarrow> preserves P (if b then m else k)"
  by simp

lemma keep_option [keep_intros]: "preserves P n \<Longrightarrow> (\<And>x. preserves P (f x)) \<Longrightarrow> preserves P (case v of None \<Rightarrow> n | Some x \<Rightarrow> f x)"
  by (simp split: option.splits)

lemma keep_sum [keep_intros]: "(\<And>e. preserves P (f e)) \<Longrightarrow> (\<And>x. preserves P (g x)) \<Longrightarrow> preserves P (case v of Inl e \<Rightarrow> f e | Inr x \<Rightarrow> g x)"
  by (simp split: sum.splits)

lemma keep_prod [keep_intros]: "(\<And>x y. preserves P (f x y)) \<Longrightarrow> preserves P (case v of (x, y) \<Rightarrow> f x y)"
  by (simp split: prod.splits)

lemmas keep_pure [keep_intros] = preserves_pure

lemma keep_let [keep_intros]: "preserves P (f v) \<Longrightarrow> preserves P (let x = v in f x)"
  by simp

lemma keep_in_session [keep_intros]: "outside_session part \<Longrightarrow> preserves (in_a part v) (in_session m)"
  by (auto simp: preserves_def in_session_def in_a_def outside_session_def split: prod.splits)

lemma keep_peer [keep_intros]: "preserves P (\<lambda>a. (peer_uid_for_conv conv a, a))" "preserves P (\<lambda>a. (is_group_conversation_id conv a, a))"
  by (simp_all add: preserves_def)

text \<open>Parts that the security badges do not belong to, either.\<close>

definition outside_badges :: "(app \<Rightarrow> 'p) \<Rightarrow> bool" where
  "outside_badges part = (outside_session part \<and> (\<forall>a x y. part (a\<lparr> a_security := x, a_blocked_convs := y \<rparr>) = part a))"

lemma keep_fingerprint [keep_intros]: "outside_session part \<Longrightarrow> preserves (in_a part v) (safety_fingerprint_for_conv C conv)"
  unfolding safety_fingerprint_for_conv_def
  by (intro keep_sbind keep_peer) (auto simp: preserves_def in_a_def outside_session_def Let_def split: prod.splits sum.splits)

lemma keep_refresh [keep_intros]:
  assumes "outside_badges part"
  shows "preserves (in_a part v) (refresh_security_ui C conv)"
proof -
  have s: "outside_session part" using assms by (simp add: outside_badges_def)
  have badge: "preserves (in_a part v) (sbind (\<lambda>a. (peer_uid_for_conv conv a, a)) (\<lambda>peer.
           sbind (if peer \<noteq> 0 then in_session (no_raise (load_identity_audit C peer)) else sret []) (\<lambda>audit.
           sbind (safety_fingerprint_for_conv C conv) (\<lambda>fp a.
             let verified = dget (conv_verified (a_session a)) conv False;
                 has_fp = (fp \<noteq> [] \<or> dget (conv_fingerprints (a_session a)) conv [] \<noteq> [])
             in case dm_badge (dget audit ''status'' (JStr ''unknown'')) verified has_fp audit of
                  (status, label) \<Rightarrow> (Inr (status, label, audit_error_detail_text audit), a)))))"
    by (intro keep_intros s) (auto simp: preserves_def in_a_def Let_def split: prod.splits)
  then have "preserves (in_a part v) (security_status_for_conv C conv)"
    by (auto simp: security_status_for_conv_def preserves_def)
  moreover have "preserves (in_a part v) (set_conversation_security conv st lb d b)" for st lb d b
    unfolding set_conversation_security_def Let_def
    by (intro keep_intros preserves_smod) (use assms in \<open>auto simp: in_a_def outside_badges_def outside_session_def\<close>)
  ultimately show ?thesis unfolding refresh_security_ui_def by (intro keep_intros)
qed

text \<open>The lists of waiting messages with the ids seen, and what the user and the connection see.\<close>

definition waiting_part :: "app \<Rightarrow> dict list list \<times> nat \<times> (int \<times> int set) list" where
  "waiting_part a = (a_lists a, a_pending a, a_seen a)"

definition view_part :: "app \<Rightarrow> page \<times> (int \<times> string list) list \<times> (int \<times> int list) list \<times> bool \<times> bool option \<times> nat" where
  "view_part a = (a_chat a, a_texts a, a_ids a, a_active a, a_ws a, a_stack a)"

lemma parts_outside [simp, keep_intros]: "outside_badges waiting_part" "outside_badges view_part" "outside_session waiting_part" "outside_session view_part"
  by (simp_all add: outside_badges_def outside_session_def waiting_part_def view_part_def)

lemma outside_badgesD: "outside_badges part \<Longrightarrow> outside_session part"
  by (simp add: outside_badges_def)

lemma keep_audit [keep_intros]:
  assumes "outside_badges part"
  shows "preserves (in_a part v) (audit_pqxdh_bundle_identity W C conv msg)"
proof -
  note s = outside_badgesD [OF assms]
  have "preserves (in_a part v) (audit_now W C peer version pk state)" for peer version pk state unfolding audit_now_def by (intro keep_intros)
  moreover have ok: "preserves (in_a part v) (record_ok C peer pk version safety result)" for peer pk version safety result
    unfolding record_ok_def by (intro keep_intros s)
  ultimately have "preserves (in_a part v) (audit_again W C peer pk version safety found)" for peer pk version safety found
    unfolding audit_again_def by (intro keep_intros s)
  then have "preserves (in_a part v) (recover_identity_audit_version_mismatch W C peer pk version safety ecode)" for peer pk version safety ecode
    unfolding recover_identity_audit_version_mismatch_def by (intro keep_intros)
  then have "preserves (in_a part v) (audit_failed W C peer pk version safety e)" for peer pk version safety e
    unfolding audit_failed_def Let_def by (cases e) (simp_all add: s keep_intros)
  then have "preserves (in_a part v) (audit_identity W C peer pk version safety)" for peer pk version safety
    unfolding audit_identity_def using ok by (intro keep_intros s) (simp_all add: audit_now_def keep_intros)
  then show ?thesis unfolding audit_pqxdh_bundle_identity_def Let_def by (intro keep_intros s assms)
qed

lemma keep_incoming_identity [keep_intros]: "outside_badges part \<Longrightarrow> preserves (in_a part v) (record_incoming_pq_identity W C conv result)"
  unfolding record_incoming_pq_identity_def Let_def
  by (intro keep_intros outside_badgesD; assumption?) (auto simp: preserves_def in_a_def outside_badges_def outside_session_def split: sum.splits)

lemma keep_note_peer [keep_intros]: "outside_badges part \<Longrightarrow> preserves (in_a part v) (note_peer W C conv result)"
  unfolding note_peer_def by (intro keep_intros outside_badgesD)

lemma keep_note_fingerprint [keep_intros]:
  assumes "outside_badges part"
  shows "preserves (in_a part v) (note_fingerprint C conv result)"
proof -
  note s = outside_badgesD [OF assms]
  have "preserves (in_a part v) (\<lambda>a. if conv = active_conv_id (a_chat a) then safety_fingerprint_for_conv C conv a else (Inr [], a))"
    using keep_fingerprint [OF s, of v C conv] unfolding preserves_def by auto
  then show ?thesis unfolding note_fingerprint_def by (intro keep_intros s assms)
qed

lemma keep_warning [keep_intros]:
  "preserves (in_a waiting_part v) (smod (\<lambda>a. if b then show_security_warning conv ws a else a))"
  "preserves (in_a view_part v') (smod (\<lambda>a. if b then show_security_warning conv ws a else a))"
  by (simp_all add: preserves_def in_a_def waiting_part_def view_part_def show_security_warning_def Let_def)

lemma keep_receive_control: "part = waiting_part \<Longrightarrow> preserves (in_a part v) (receive_control W C conv result)"
  unfolding receive_control_def by (simp only:) (intro keep_intros)

lemma keep_send [keep_intros]: "preserves (in_a waiting_part v) (safe_send obj)"
  by (auto simp: preserves_def in_a_def waiting_part_def safe_send_def net_close_def schedule_reconnect_def show_security_warning_def Let_def
      split: option.splits bool.splits)

text \<open>A send that does not break the connection.\<close>

definition steady :: "page \<times> (int \<times> string list) list \<times> (int \<times> int list) list \<times> bool \<times> bool option \<times> nat \<Rightarrow> bool" where
  "steady v = (case v of (_, _, _, active, ws, _) \<Rightarrow> \<not> active \<or> ws \<noteq> Some False)"

lemma keep_send_view: "steady v \<Longrightarrow> preserves (in_a view_part v) (safe_send obj)"
  by (auto simp: preserves_def in_a_def view_part_def safe_send_def steady_def split: option.splits bool.splits)

lemma keep_checkpoint:
  assumes "outside_session part" and "\<And>obj. preserves (in_a part v) (safe_send obj)" and "\<And>a x. part (a\<lparr> a_checkpointed := x \<rparr>) = part a"
  shows "preserves (in_a part v) (maybe_send_transcript_checkpoint W C conv force)"
proof -
  have "preserves (in_a part v) (sbind (safe_send [(''type'', JStr ''message''), (''conversation_id'', JInt conv), (''body'', JStr wire)]) (\<lambda>ok.
      smod (\<lambda>a. if ok then a\<lparr> a_checkpointed := dset (a_checkpointed a) conv now \<rparr> else a)))" for wire now
    by (intro keep_intros assms(2) preserves_smod) (simp add: in_a_def assms(3))
  moreover have "preserves (in_a part v) (in_session (create_transcript_checkpoint C conv))" by (intro keep_intros assms(1))
  ultimately show ?thesis
    unfolding maybe_send_transcript_checkpoint_def Let_def preserves_def
    by (auto split: prod.splits sum.splits)
qed

subsection \<open>Receiving and the list of waiting messages\<close>

lemma keep_in_chat [keep_intros]: "preserves (in_a waiting_part v) (in_chat m)"
  by (auto simp: preserves_def in_chat_def in_a_def waiting_part_def split: prod.splits)

lemma keep_pops [keep_intros]: "preserves (in_a waiting_part v) (no_raise (pop_text conv))" "preserves (in_a waiting_part v) (no_raise (pop_id conv))"
  by (auto simp: preserves_def no_raise_def pop_text_def pop_id_def in_a_def waiting_part_def split: list.splits)

lemma keep_shown [keep_intros]:
  "preserves (in_a waiting_part v) (note_transcript C raw conv mid sender body ts target)" "preserves (in_a waiting_part v) (cache_plain C conv mid sender body ts)"
  "preserves (in_a waiting_part v) (maybe_send_transcript_checkpoint W C conv force)"
  unfolding note_transcript_def cache_plain_def
  by (intro keep_intros, intro keep_intros, rule keep_checkpoint) (auto simp: waiting_part_def intro!: keep_intros)

lemma keep_receive_visible: "preserves (in_a waiting_part v) (receive_visible W C msg conv sender mid echo result)"
proof -
  have "preserves (in_a waiting_part v) (handle_decrypted_message W C raw conv sender body ts mid)" for raw conv sender body ts mid
    unfolding handle_decrypted_message_def show_edit_def show_new_def
    by (rule keep_sbind, intro keep_intros, cases "unpack_value body") (simp_all add: keep_intros)
  then show ?thesis unfolding receive_visible_def echoed_text_def by (intro keep_intros)
qed

text \<open>The handler after decryption, when the message does not wait.\<close>

definition settle :: "world \<Rightarrow> crypto \<Rightarrow> dict \<Rightarrow> int \<Rightarrow> int \<Rightarrow> int \<Rightarrow> dict \<Rightarrow> int option ap" where
  "settle W C msg conv sender mid result =
     (let st = dget result ''status'' JNull
      in if st = JStr ''hidden'' then sret None
         else if st = JStr ''control'' then sbind (receive_control W C conv result) (\<lambda>ready. sret (if ready then Some conv else None))
         else sbind (receive_visible W C msg conv sender mid (st = JStr ''self_echo'') result) (\<lambda>_. sret None))"

lemma settle_waiting:
  assumes "settle W C msg conv sender mid result a = (r, b)"
  shows "waiting_part b = waiting_part a" and "r = Inr None \<or> r = Inr (Some conv) \<or> (\<exists>e. r = Inl e)"
proof -
  have "preserves (in_a waiting_part (waiting_part a)) (settle W C msg conv sender mid result)"
    unfolding settle_def Let_def by (intro keep_intros keep_receive_control [OF refl] keep_receive_visible)
  then show "waiting_part b = waiting_part a" using preservesD [of "in_a waiting_part (waiting_part a)" _ a] assms by (force simp: in_a_def)
  show "r = Inr None \<or> r = Inr (Some conv) \<or> (\<exists>e. r = Inl e)"
    using assms by (auto simp: settle_def sbind_def sret_def Let_def split: if_splits prod.splits sum.splits)
qed

lemma receive_run:
  assumes "int_or_0 msg ''conversation_id'' = Inr conv" and "int_or_0 msg ''id'' = Inr mid" and "\<not> (mid \<noteq> 0 \<and> mid \<in> seen_ids conv a)"
    and "py_int (py_or (py_or (dget msg ''from_id'' (JInt 0)) (dget msg ''sender_id'' (JInt 0))) (JInt 0)) = Inr sender"
    and "in_session (decrypt_live_message C msg) a = (Inr result, a1)"
  shows "receive W C msg a = (if dget result ''status'' JNull = JStr ''pending'' then sbind (wait_for_key mid msg) (\<lambda>_. sret None) a1
     else settle W C msg conv sender mid result (mark_msg_seen W conv mid a1))"
  using assms by (auto simp: receive_def settle_def sbind_def Let_def)

text \<open>The three things a received message can do to the waiting messages.\<close>

lemma receive_waiting:
  assumes "receive W C msg a = (r, b)"
  shows "waiting_part b = waiting_part a \<and> (r = Inr None \<or> (\<exists>e. r = Inl e))
    \<or> (\<exists>mid. int_or_0 msg ''id'' = Inr mid \<and> r = Inr None \<and> any_waiting mid (waiting_messages a) = Inr False
         \<and> waiting_part b = ((a_lists a)[a_pending a := waiting_messages a @ [msg]], a_pending a, a_seen a))
    \<or> (\<exists>conv mid. int_or_0 msg ''conversation_id'' = Inr conv \<and> int_or_0 msg ''id'' = Inr mid \<and> \<not> (mid \<noteq> 0 \<and> mid \<in> seen_ids conv a)
         \<and> waiting_part b = waiting_part (mark_msg_seen W conv mid a) \<and> (r = Inr None \<or> r = Inr (Some conv) \<or> (\<exists>e. r = Inl e)))"
proof -
  consider (bad) e where "r = Inl e" "b = a"
    | (ids) conv sender mid where "int_or_0 msg ''conversation_id'' = Inr conv" "int_or_0 msg ''id'' = Inr mid"
        "py_int (py_or (py_or (dget msg ''from_id'' (JInt 0)) (dget msg ''sender_id'' (JInt 0))) (JInt 0)) = Inr sender"
    using assms by (cases "int_or_0 msg ''conversation_id''"; cases "int_or_0 msg ''id''";
        cases "py_int (py_or (py_or (dget msg ''from_id'' (JInt 0)) (dget msg ''sender_id'' (JInt 0))) (JInt 0))") (auto simp: receive_def)
  then show ?thesis
  proof cases
    case ids
    show ?thesis
    proof (cases "mid \<noteq> 0 \<and> mid \<in> seen_ids conv a")
      case True
      then show ?thesis using assms ids by (auto simp: receive_def)
    next
      case fresh: False
      obtain d a1 where d: "in_session (decrypt_live_message C msg) a = (d, a1)" by (cases "in_session (decrypt_live_message C msg) a")
      have a1: "waiting_part a1 = waiting_part a"
        using preservesD [OF keep_in_session [of waiting_part "waiting_part a" "decrypt_live_message C msg"], of a] d by (simp add: in_a_def)
      then have parts: "waiting_messages a1 = waiting_messages a" "a_lists a1 = a_lists a" "a_pending a1 = a_pending a" "a_seen a1 = a_seen a"
        by (simp_all add: waiting_part_def waiting_messages_def)
      show ?thesis
      proof (cases d)
        case (Inl e)
        then show ?thesis using assms ids fresh d a1 by (auto simp: receive_def sbind_def)
      next
        case (Inr result)
        note run = receive_run [OF ids(1,2) fresh ids(3) d [unfolded Inr], of W, unfolded assms]
        show ?thesis
        proof (cases "dget result ''status'' JNull = JStr ''pending''")
          case True
          then show ?thesis using run parts ids(2) by (auto simp: sbind_def wait_for_key_def waiting_part_def split: sum.splits bool.splits)
        next
          case False
          moreover have "waiting_part (mark_msg_seen W conv mid a1) = waiting_part (mark_msg_seen W conv mid a)"
            using parts by (simp add: waiting_part_def mark_msg_seen_def seen_ids_def)
          ultimately show ?thesis using settle_waiting [of W C msg conv sender mid result "mark_msg_seen W conv mid a1" r b] run ids fresh by auto
        qed
      qed
    qed
  qed auto
qed

end
