(* ===== verification/App_Retry.thy ===== *)
theory App_Retry
  imports App_Facts
begin

text \<open>
  Trying the waiting messages again (\<open>_flush_pending\<close>): it ends when every message has an id, since each message
  that starts another round is seen from then on; and a message without an id makes it run for ever.
\<close>

subsection \<open>Runs\<close>

lemma run_Suc: "run n W C c a = Some x \<Longrightarrow> run (Suc n) W C c a = Some x"
proof (induction n arbitrary: c a x)
  case (Suc n)
  note step = run.simps(2) [of n W C c a] run.simps(2) [of "Suc n" W C c a]
  show ?case
  proof (cases c)
    case (Handle m)
    then show ?thesis using Suc.prems Suc.IH unfolding step by (auto split: prod.splits sum.splits option.splits simp del: run.simps)
  next
    case (Flush conv)
    then show ?thesis using Suc.prems Suc.IH unfolding step by (simp del: run.simps)
  next
    case (Loop conv ref i rest)
    then show ?thesis using Suc.prems Suc.IH unfolding step
      by (auto simp: and_then_def Let_def split: if_splits sum.splits option.splits prod.splits simp del: run.simps)
  qed
qed simp

lemma run_mono: "run n W C c a = Some x \<Longrightarrow> n \<le> m \<Longrightarrow> run m W C c a = Some x"
  by (induction m) (auto simp: le_Suc_eq run_Suc simp del: run.simps)

text \<open>A call ends with a given result, within some depth.\<close>

definition ends :: "world \<Rightarrow> crypto \<Rightarrow> call \<Rightarrow> app \<Rightarrow> unit res \<times> app \<Rightarrow> bool" where
  "ends W C c a x = (\<exists>n. run n W C c a = Some x)"

lemma ends_Handle:
  assumes "receive W C m a = (r, b)"
  shows "r = Inl e \<Longrightarrow> ends W C (Handle m) a (Inl e, b)" and "r = Inr None \<Longrightarrow> ends W C (Handle m) a (Inr (), b)"
    and "r = Inr (Some conv) \<Longrightarrow> ends W C (Flush conv) b x \<Longrightarrow> ends W C (Handle m) a x"
proof -
  show "r = Inl e \<Longrightarrow> ends W C (Handle m) a (Inl e, b)" "r = Inr None \<Longrightarrow> ends W C (Handle m) a (Inr (), b)"
    using assms by (auto simp: ends_def intro!: exI [of _ "Suc 0"])
  assume r: "r = Inr (Some conv)" and "ends W C (Flush conv) b x"
  then obtain n where "run n W C (Flush conv) b = Some x" by (auto simp: ends_def)
  then have "run (Suc n) W C (Handle m) a = Some x" using assms r by simp
  then show "ends W C (Handle m) a x" unfolding ends_def by blast
qed

lemma ends_Flush: "ends W C (Loop conv (a_pending a) 0 []) a x \<Longrightarrow> ends W C (Flush conv) a x"
proof -
  assume "ends W C (Loop conv (a_pending a) 0 []) a x"
  then obtain n where "run n W C (Loop conv (a_pending a) 0 []) a = Some x" by (auto simp: ends_def)
  then have "run (Suc n) W C (Flush conv) a = Some x" by simp
  then show ?thesis unfolding ends_def by blast
qed

lemma ends_Loop:
  defines "L a ref \<equiv> a_lists a ! ref"
  shows "length (L a ref) \<le> i \<Longrightarrow> ends W C (Loop conv ref i rest) a (Inr (), a\<lparr> a_lists := a_lists a @ [rest], a_pending := length (a_lists a) \<rparr>)"
    and "i < length (L a ref) \<Longrightarrow> py_int (dget (L a ref ! i) ''conversation_id'' (JInt 0)) = Inl e \<Longrightarrow> ends W C (Loop conv ref i rest) a (Inl e, a)"
    and "i < length (L a ref) \<Longrightarrow> py_int (dget (L a ref ! i) ''conversation_id'' (JInt 0)) = Inr c \<Longrightarrow> c \<noteq> conv \<Longrightarrow>
         ends W C (Loop conv ref (i + 1) (rest @ [L a ref ! i])) a x \<Longrightarrow> ends W C (Loop conv ref i rest) a x"
    and "i < length (L a ref) \<Longrightarrow> py_int (dget (L a ref ! i) ''conversation_id'' (JInt 0)) = Inr conv \<Longrightarrow>
         ends W C (Handle (L a ref ! i)) a (Inl e, b) \<Longrightarrow> ends W C (Loop conv ref i rest) a (Inl e, b)"
    and "i < length (L a ref) \<Longrightarrow> py_int (dget (L a ref ! i) ''conversation_id'' (JInt 0)) = Inr conv \<Longrightarrow>
         ends W C (Handle (L a ref ! i)) a (Inr (), b) \<Longrightarrow> ends W C (Loop conv ref (i + 1) rest) b x \<Longrightarrow> ends W C (Loop conv ref i rest) a x"
proof -
  show "length (L a ref) \<le> i \<Longrightarrow> ends W C (Loop conv ref i rest) a (Inr (), a\<lparr> a_lists := a_lists a @ [rest], a_pending := length (a_lists a) \<rparr>)"
    by (auto simp: ends_def L_def intro!: exI [of _ "Suc 0"])
  show "i < length (L a ref) \<Longrightarrow> py_int (dget (L a ref ! i) ''conversation_id'' (JInt 0)) = Inl e \<Longrightarrow> ends W C (Loop conv ref i rest) a (Inl e, a)"
    by (auto simp: ends_def L_def intro!: exI [of _ "Suc 0"])
  assume i: "i < length (L a ref)"
  show "ends W C (Loop conv ref i rest) a x"
    if h: "py_int (dget (L a ref ! i) ''conversation_id'' (JInt 0)) = Inr c" "c \<noteq> conv" "ends W C (Loop conv ref (i + 1) (rest @ [L a ref ! i])) a x"
  proof -
    obtain n where "run n W C (Loop conv ref (i + 1) (rest @ [L a ref ! i])) a = Some x" using h(3) by (auto simp: ends_def)
    then have "run (Suc n) W C (Loop conv ref i rest) a = Some x" using i h by (simp add: L_def)
    then show ?thesis unfolding ends_def by blast
  qed
  assume c: "py_int (dget (L a ref ! i) ''conversation_id'' (JInt 0)) = Inr conv"
  show "ends W C (Loop conv ref i rest) a (Inl e, b)" if h: "ends W C (Handle (L a ref ! i)) a (Inl e, b)"
  proof -
    obtain n where "run n W C (Handle (L a ref ! i)) a = Some (Inl e, b)" using h by (auto simp: ends_def)
    then have "run (Suc n) W C (Loop conv ref i rest) a = Some (Inl e, b)" using i c by (simp add: L_def and_then_def)
    then show ?thesis unfolding ends_def by blast
  qed
  show "ends W C (Loop conv ref i rest) a x" if h: "ends W C (Handle (L a ref ! i)) a (Inr (), b)" "ends W C (Loop conv ref (i + 1) rest) b x"
  proof -
    obtain n m where n: "run n W C (Handle (L a ref ! i)) a = Some (Inr (), b)" "run m W C (Loop conv ref (i + 1) rest) b = Some x"
      using h by (auto simp: ends_def)
    have "run (max n m) W C (Handle (L a ref ! i)) a = Some (Inr (), b)" "run (max n m) W C (Loop conv ref (i + 1) rest) b = Some x"
      using run_mono [OF n(1)] run_mono [OF n(2)] by simp_all
    then have "run (Suc (max n m)) W C (Loop conv ref i rest) a = Some x" using i c by (simp add: L_def and_then_def)
    then show ?thesis unfolding ends_def by blast
  qed
qed

subsection \<open>Messages with ids\<close>

definition key_of :: "dict \<Rightarrow> int \<Rightarrow> int \<Rightarrow> bool" where
  "key_of m c i = (int_or_0 m ''conversation_id'' = Inr c \<and> int_or_0 m ''id'' = Inr i)"

definition unseen :: "dict set \<Rightarrow> app \<Rightarrow> (int \<times> int) set" where
  "unseen M a = {(c, i). (\<exists>m \<in> M. key_of m c i) \<and> i \<notin> seen_ids c a}"

definition ids_of :: "dict set \<Rightarrow> int \<Rightarrow> int set" where
  "ids_of M c = {i. \<exists>m \<in> M. key_of m c i}"

text \<open>Every message has an id, and the sets of seen ids stay below the bound at which they are cut.\<close>

definition retriable :: "dict set \<Rightarrow> app \<Rightarrow> bool" where
  "retriable M a = (finite M \<and> (\<forall>m \<in> M. \<exists>i. int_or_0 m ''id'' = Inr i \<and> 0 < i) \<and> a_pending a < length (a_lists a)
     \<and> set (waiting_messages a) \<subseteq> M \<and> (\<forall>c. finite (seen_ids c a) \<and> card (seen_ids c a \<union> ids_of M c) \<le> 10000))"

lemma finite_keys: "finite M \<Longrightarrow> finite {(c, i). \<exists>m \<in> M. key_of m c i}" "finite M \<Longrightarrow> finite (ids_of M c)"
proof -
  assume f: "finite M"
  have "{(c, i). \<exists>m \<in> M. key_of m c i} \<subseteq> (\<lambda>m. (projr (int_or_0 m ''conversation_id''), projr (int_or_0 m ''id''))) ` M"
    by (force simp: key_of_def)
  then show "finite {(c, i). \<exists>m \<in> M. key_of m c i}" by (rule finite_subset) (simp add: f)
  have "ids_of M c \<subseteq> (\<lambda>m. projr (int_or_0 m ''id'')) ` M" by (force simp: ids_of_def key_of_def)
  then show "finite (ids_of M c)" by (rule finite_subset) (simp add: f)
qed

lemma finite_unseen: "finite M \<Longrightarrow> finite (unseen M a)"
  by (rule finite_subset [OF _ finite_keys(1)]) (auto simp: unseen_def)

lemma waiting_part_eq:
  assumes "waiting_part b = waiting_part a"
  shows "a_lists b = a_lists a" "a_pending b = a_pending a" "seen_ids c b = seen_ids c a" "waiting_messages b = waiting_messages a" "unseen M b = unseen M a"
    "retriable M b = retriable M a"
  using assms by (simp_all add: waiting_part_def seen_ids_def waiting_messages_def unseen_def retriable_def)

lemma mark_seen_room:
  assumes "retriable M a" and "m \<in> M" and "key_of m c i" and "i \<notin> seen_ids c a" and "i \<noteq> 0"
  shows "retriable M (mark_msg_seen W c i a)" and "unseen M (mark_msg_seen W c i a) \<subset> unseen M a"
proof -
  have fin: "finite (seen_ids c a)" "finite M" and room: "card (seen_ids c a \<union> ids_of M c) \<le> 10000" using assms(1) by (simp_all add: retriable_def)
  have i: "i \<in> ids_of M c" using assms(2,3) by (auto simp: ids_of_def)
  have "card (insert i (seen_ids c a)) \<le> card (seen_ids c a \<union> ids_of M c)" by (rule card_mono) (use fin finite_keys(2) i in auto)
  then have trim: "trim_seen W (insert i (seen_ids c a)) = insert i (seen_ids c a)" using room by (simp add: trim_seen_def)
  have seen: "seen_ids d (mark_msg_seen W c i a) = (if d = c then insert i (seen_ids c a) else seen_ids d a)" for d
    using assms(5) trim by (simp add: mark_msg_seen_def seen_ids_def dget_def update_conv')
  have "seen_ids d (mark_msg_seen W c i a) \<union> ids_of M d = seen_ids d a \<union> ids_of M d" for d using i by (auto simp: seen)
  moreover have "waiting_messages (mark_msg_seen W c i a) = waiting_messages a" "a_lists (mark_msg_seen W c i a) = a_lists a" "a_pending (mark_msg_seen W c i a) = a_pending a"
    by (simp_all add: mark_msg_seen_def waiting_messages_def)
  ultimately show "retriable M (mark_msg_seen W c i a)" using assms(1) seen by (simp add: retriable_def)
  have "(c, i) \<in> unseen M a" using assms by (auto simp: unseen_def)
  moreover have "(c, i) \<notin> unseen M (mark_msg_seen W c i a)" "unseen M (mark_msg_seen W c i a) \<subseteq> unseen M a" using seen by (auto simp: unseen_def split: if_splits)
  ultimately show "unseen M (mark_msg_seen W c i a) \<subset> unseen M a" by blast
qed

lemma any_waiting_self:
  "m \<in> set ms \<Longrightarrow> \<forall>p \<in> set ms. \<exists>i. int_or_0 p ''id'' = Inr i \<and> 0 < i \<Longrightarrow> int_or_0 m ''id'' = Inr i \<Longrightarrow> any_waiting i ms = Inr True"
  by (induction ms) auto

text \<open>What a call leaves of the lists, apart from the one it may extend.\<close>

definition keeps_lists :: "dict set \<Rightarrow> (nat \<Rightarrow> bool) \<Rightarrow> app \<Rightarrow> app \<Rightarrow> bool" where
  "keeps_lists M frozen a b = (retriable M b \<and> unseen M b \<subseteq> unseen M a \<and> length (a_lists a) \<le> length (a_lists b)
     \<and> (\<forall>j < length (a_lists a). frozen j \<longrightarrow> a_lists b ! j = a_lists a ! j)
     \<and> (a_pending b = a_pending a \<or> length (a_lists a) \<le> a_pending b))"

definition untouched :: "dict \<Rightarrow> app \<Rightarrow> nat \<Rightarrow> bool" where
  "untouched m a j = (j \<noteq> a_pending a \<or> m \<in> set (waiting_messages a))"

lemma keeps_lists_refl: "retriable M a \<Longrightarrow> keeps_lists M f a a"
  by (simp add: keeps_lists_def)

lemma keeps_lists_part: "waiting_part b = waiting_part a \<Longrightarrow> retriable M a \<Longrightarrow> keeps_lists M f a b"
  using waiting_part_eq [of b a] by (simp add: keeps_lists_def)

lemma keeps_lists_trans:
  assumes "keeps_lists M (\<lambda>j. j \<noteq> a_pending a \<or> j = ref) a b" and "keeps_lists M (\<lambda>j. j \<noteq> a_pending b \<or> j = ref) b d"
  shows "keeps_lists M (\<lambda>j. j \<noteq> a_pending a \<or> j = ref) a d"
proof -
  have "a_lists d ! j = a_lists a ! j" if j: "j < length (a_lists a)" "j \<noteq> a_pending a \<or> j = ref" for j
  proof -
    have "j \<noteq> a_pending b \<or> j = ref" using j assms(1) by (auto simp: keeps_lists_def)
    then show ?thesis using j assms by (auto simp: keeps_lists_def)
  qed
  then show ?thesis using assms by (auto simp: keeps_lists_def)
qed

text \<open>One message, given that a flush with fewer unseen messages ends.\<close>

lemma handle_ends:
  assumes "retriable M a" and "m \<in> M"
    and flush: "\<And>conv b. retriable M b \<Longrightarrow> unseen M b \<subset> unseen M a \<Longrightarrow> \<exists>r d. ends W C (Flush conv) b (r, d) \<and> keeps_lists M (\<lambda>_. True) b d"
  shows "\<exists>r b. ends W C (Handle m) a (r, b) \<and> keeps_lists M (untouched m a) a b"
proof -
  obtain r b where rb: "receive W C m a = (r, b)" by (cases "receive W C m a")
  obtain i where i: "int_or_0 m ''id'' = Inr i" "0 < i" using assms(1,2) by (auto simp: retriable_def)
  have stop: "\<exists>r' d. ends W C (Handle m) a (r', d) \<and> keeps_lists M (untouched m a) a d"
    if "r = Inr None \<or> (\<exists>e. r = Inl e)" "keeps_lists M (untouched m a) a b"
    using that ends_Handle(1,2) [OF rb] by blast
  consider (same) "waiting_part b = waiting_part a" "r = Inr None \<or> (\<exists>e. r = Inl e)"
    | (wait) "r = Inr None" "any_waiting i (waiting_messages a) = Inr False"
        "waiting_part b = ((a_lists a)[a_pending a := waiting_messages a @ [m]], a_pending a, a_seen a)"
    | (seen) c where "key_of m c i" "i \<notin> seen_ids c a" "waiting_part b = waiting_part (mark_msg_seen W c i a)" "r = Inr None \<or> r = Inr (Some c) \<or> (\<exists>e. r = Inl e)"
    using receive_waiting [OF rb] i by (fastforce simp: key_of_def)
  then show ?thesis
  proof cases
    case same
    then show ?thesis using stop keeps_lists_part assms(1) by blast
  next
    case wait
    have "m \<notin> set (waiting_messages a)" using any_waiting_self [of m "waiting_messages a" i] wait(2) i assms(1) by (auto simp: retriable_def)
    moreover have b: "a_lists b = (a_lists a)[a_pending a := waiting_messages a @ [m]]" "a_pending b = a_pending a" "a_seen b = a_seen a"
      using wait(3) by (simp_all add: waiting_part_def)
    moreover have "waiting_messages b = waiting_messages a @ [m]" using b assms(1) by (simp add: waiting_messages_def retriable_def)
    ultimately have "keeps_lists M (untouched m a) a b"
      using assms(1,2) by (auto simp: keeps_lists_def untouched_def retriable_def unseen_def seen_ids_def)
    then show ?thesis using stop wait(1) by blast
  next
    case seen
    note mark = mark_seen_room [OF assms(1,2) seen(1,2), of W] 
    have b: "retriable M b" "unseen M b \<subset> unseen M a" using mark i(2) waiting_part_eq(5,6) [OF seen(3)] by auto
    have l: "a_lists b = a_lists a" "a_pending b = a_pending a" using waiting_part_eq(1,2) [OF seen(3)] by (simp_all add: mark_msg_seen_def)
    show ?thesis
    proof (cases "r = Inr (Some c)")
      case True
      obtain r' d where d: "ends W C (Flush c) b (r', d)" "keeps_lists M (\<lambda>_. True) b d" using flush [OF b] by blast
      have "keeps_lists M (untouched m a) a d" using d(2) b(2) l by (auto simp: keeps_lists_def)
      then show ?thesis using ends_Handle(3) [OF rb True d(1)] by blast
    next
      case False
      have "keeps_lists M (untouched m a) a b" using b l by (auto simp: keeps_lists_def)
      then show ?thesis using stop seen(4) False by blast
    qed
  qed
qed

text \<open>The loop, given that each message ends.\<close>

lemma loop_ends:
  assumes handle: "\<And>b m. retriable M b \<Longrightarrow> unseen M b \<subseteq> U \<Longrightarrow> m \<in> M \<Longrightarrow> \<exists>r d. ends W C (Handle m) b (r, d) \<and> keeps_lists M (untouched m b) b d"
    and "retriable M a" and "unseen M a \<subseteq> U" and "ref < length (a_lists a)" and "set (a_lists a ! ref) \<subseteq> M" and "set rest \<subseteq> M"
  shows "\<exists>r b. ends W C (Loop conv ref i rest) a (r, b) \<and> keeps_lists M (\<lambda>j. j \<noteq> a_pending a \<or> j = ref) a b
    \<and> (r = Inr () \<longrightarrow> waiting_messages b = rest @ filter (\<lambda>m. py_int (dget m ''conversation_id'' (JInt 0)) \<noteq> Inr conv) (drop i (a_lists a ! ref)))"
  using assms(2-)
proof (induction "length (a_lists a ! ref) - i" arbitrary: a i rest)
  case 0
  let ?b = "a\<lparr> a_lists := a_lists a @ [rest], a_pending := length (a_lists a) \<rparr>"
  have "unseen M ?b = unseen M a" "\<And>c. seen_ids c ?b = seen_ids c a" by (simp_all add: unseen_def seen_ids_def)
  then have "keeps_lists M (\<lambda>j. j \<noteq> a_pending a \<or> j = ref) a ?b"
    using 0 by (auto simp: keeps_lists_def retriable_def waiting_messages_def nth_append)
  moreover have "waiting_messages ?b = rest" by (simp add: waiting_messages_def)
  ultimately show ?case using ends_Loop(1) [of a ref i W C conv rest] 0(1) by (intro exI [of _ "Inr ()"] exI [of _ ?b]) simp
next
  case (Suc k)
  let ?l = "a_lists a ! ref" let ?m = "?l ! i"
  have i: "i < length ?l" and k: "k = length ?l - (i + 1)" using Suc(2) by simp_all
  have m: "?m \<in> M" using i Suc.prems(4) by (meson nth_mem subsetD)
  have dr: "drop i ?l = ?m # drop (i + 1) ?l" using i by (simp add: Cons_nth_drop_Suc)
  show ?case
  proof (cases "py_int (dget ?m ''conversation_id'' (JInt 0))")
    case (Inl e)
    then show ?thesis using ends_Loop(2) [OF i Inl] keeps_lists_refl [OF Suc.prems(1)] by blast
  next
    case (Inr c)
    show ?thesis
    proof (cases "c = conv")
      case False
      have "set (rest @ [?m]) \<subseteq> M" using m Suc.prems(5) by simp
      from Suc.hyps(1) [OF k Suc.prems(1-4) this] show ?thesis
        using ends_Loop(3) [OF i Inr False] Inr False dr by fastforce
    next
      case True
      obtain r1 b where b: "ends W C (Handle ?m) a (r1, b)" "keeps_lists M (untouched ?m a) a b" using handle [OF Suc.prems(1,2) m] by blast
      have kb: "keeps_lists M (\<lambda>j. j \<noteq> a_pending a \<or> j = ref) a b"
        using b(2) i by (auto simp: keeps_lists_def untouched_def waiting_messages_def)
      show ?thesis
      proof (cases r1)
        case (Inl e)
        then show ?thesis using ends_Loop(4) [OF i Inr [unfolded True]] b(1) kb by blast
      next
        case ok: (Inr u)
        have l: "a_lists b ! ref = ?l" "ref < length (a_lists b)" using kb Suc.prems(3) by (auto simp: keeps_lists_def)
        have g: "retriable M b" "unseen M b \<subseteq> U" using kb Suc.prems(2) by (auto simp: keeps_lists_def)
        obtain r d where d: "ends W C (Loop conv ref (i + 1) rest) b (r, d)" "keeps_lists M (\<lambda>j. j \<noteq> a_pending b \<or> j = ref) b d"
          "r = Inr () \<longrightarrow> waiting_messages d = rest @ filter (\<lambda>m. py_int (dget m ''conversation_id'' (JInt 0)) \<noteq> Inr conv) (drop (i + 1) ?l)"
          using Suc.hyps(1) [of b "i + 1" rest] k l g Suc.prems(4,5) by auto
        have "keeps_lists M (\<lambda>j. j \<noteq> a_pending a \<or> j = ref) a d" using kb d(2) by (rule keeps_lists_trans)
        then show ?thesis using ends_Loop(5) [OF i Inr [unfolded True], of W C b rest "(r, d)"] b(1) ok d(1,3) dr Inr True by auto
      qed
    qed
  qed
qed

lemma flush_ends:
  assumes "retriable M a"
  shows "\<exists>r b. ends W C (Flush conv) a (r, b) \<and> keeps_lists M (\<lambda>_. True) a b
    \<and> (r = Inr () \<longrightarrow> waiting_messages b = filter (\<lambda>m. py_int (dget m ''conversation_id'' (JInt 0)) \<noteq> Inr conv) (waiting_messages a))"
  using assms
proof (induction "card (unseen M a)" arbitrary: a conv rule: less_induct)
  case less
  have fin: "finite M" using less.prems by (simp add: retriable_def)
  have handle: "\<exists>r d. ends W C (Handle m) b (r, d) \<and> keeps_lists M (untouched m b) b d" if "retriable M b" "unseen M b \<subseteq> unseen M a" "m \<in> M" for b m
  proof (rule handle_ends [OF that(1,3)])
    fix c d
    assume d: "retriable M d" "unseen M d \<subset> unseen M b"
    then have "card (unseen M d) < card (unseen M a)" using that(2) by (intro psubset_card_mono finite_unseen [OF fin]) blast
    then show "\<exists>r e. ends W C (Flush c) d (r, e) \<and> keeps_lists M (\<lambda>_. True) d e" using less.hyps d(1) by blast
  qed
  have p: "a_pending a < length (a_lists a)" "set (a_lists a ! a_pending a) \<subseteq> M" using less.prems by (simp_all add: retriable_def waiting_messages_def)
  obtain r b where b: "ends W C (Loop conv (a_pending a) 0 []) a (r, b)" "keeps_lists M (\<lambda>j. j \<noteq> a_pending a \<or> j = a_pending a) a b"
    "r = Inr () \<longrightarrow> waiting_messages b = filter (\<lambda>m. py_int (dget m ''conversation_id'' (JInt 0)) \<noteq> Inr conv) (waiting_messages a)"
    using loop_ends [OF handle less.prems order_refl p, of "[]" conv 0] by (auto simp: waiting_messages_def)
  have "keeps_lists M (\<lambda>_. True) a b" using b(2) by (simp add: keeps_lists_def)
  then show ?case using ends_Flush [OF b(1)] b(3) by blast
qed

text \<open>
  C24: (termination) Trying the waiting messages of a conversation again ends, although handling one of them may start
  another round in the middle of the loop: when every waiting message has a positive id and the sets of seen ids are
  below the size at which they are cut. Without an error, the messages of the other conversations wait on, in order, and
  none of this conversation does: also one that still has no key is no longer kept.
\<close>

theorem retry_of_waiting_messages_ends:
  assumes "a_pending a < length (a_lists a)" and "\<forall>m \<in> set (waiting_messages a). \<exists>i. int_or_0 m ''id'' = Inr i \<and> 0 < i"
    and "\<forall>c. finite (seen_ids c a) \<and> card (seen_ids c a) + length (waiting_messages a) \<le> 10000"
  shows "\<exists>n r b. flush_pending n W C conv a = Some (r, b)
    \<and> (r = Inr () \<longrightarrow> waiting_messages b = filter (\<lambda>m. py_int (dget m ''conversation_id'' (JInt 0)) \<noteq> Inr conv) (waiting_messages a))"
proof -
  let ?M = "set (waiting_messages a)"
  have "card (seen_ids c a \<union> ids_of ?M c) \<le> 10000" for c
  proof -
    have "ids_of ?M c \<subseteq> (\<lambda>m. projr (int_or_0 m ''id'')) ` ?M" by (force simp: ids_of_def key_of_def)
    then have "card (ids_of ?M c) \<le> card ?M" by (meson List.finite_set card_image_le card_mono finite_imageI le_trans)
    also have "\<dots> \<le> length (waiting_messages a)" by (rule card_length)
    finally have "card (seen_ids c a) + card (ids_of ?M c) \<le> 10000" using assms(3) by (meson add_left_mono le_trans)
    then show ?thesis using card_Un_le [of "seen_ids c a" "ids_of ?M c"] by linarith
  qed
  then have "retriable ?M a" using assms by (simp add: retriable_def)
  from flush_ends [OF this, of W C conv] show ?thesis by (auto simp: ends_def flush_pending_def)
qed

text \<open>
  C25: (error) A waiting message without an id makes the client hang. When such a message still has no key, which is
  decided without a change of the session, every round of the loop appends it to the list the loop runs over:
  no depth is enough, and the list grows without bound. The test against a message that waits already only looks at
  positive ids.
\<close>

theorem waiting_message_without_id_never_ends:
  assumes "waiting_messages a = [m]" and "a_pending a < length (a_lists a)" and "py_int (dget m ''conversation_id'' (JInt 0)) = Inr conv"
    and "int_or_0 m ''id'' = Inr 0" and "decrypt_live_message C m (a_session a) = (Inr (status_result ''pending''), a_session a)"
  shows "flush_pending n W C conv a = None"
proof -
  have ids: "\<exists>c s. int_or_0 m ''conversation_id'' = Inr c \<and> py_int (py_or (py_or (dget m ''from_id'' (JInt 0)) (dget m ''sender_id'' (JInt 0))) (JInt 0)) = Inr s"
    using assms(5) by (cases "int_or_0 m ''conversation_id''";
        cases "py_int (py_or (py_or (dget m ''from_id'' (JInt 0)) (dget m ''sender_id'' (JInt 0))) (JInt 0))") (auto simp: decrypt_live_message_def)
  have free: "any_waiting 0 (replicate k m) = Inr False" for k using assms(4) by (induction k) simp_all
  have step: "receive W C m b = (Inr None, b\<lparr> a_lists := (a_lists b)[a_pending b := waiting_messages b @ [m]] \<rparr>)"
    if "waiting_messages b = replicate k m" "a_session b = a_session a" for b k
  proof -
    have same: "b\<lparr> a_session := a_session a \<rparr> = b" using that(2) by (metis app.surjective app.update_convs(1))
    have "dget (status_result ''pending'') ''status'' JNull = JStr ''pending''" by (simp add: status_result_def dget_def)
    then show ?thesis using ids assms(4,5) free [of k] that
      by (auto simp: receive_def in_session_def sbind_def wait_for_key_def same)
  qed
  have "run n W C (Loop conv (a_pending b) i rest) b = None"
    if "waiting_messages b = replicate k m" "i < k" "a_session b = a_session a" "a_pending b < length (a_lists b)" for n i k rest b
    using that
  proof (induction n arbitrary: b i k rest)
    case (Suc n)
    let ?b = "b\<lparr> a_lists := (a_lists b)[a_pending b := waiting_messages b @ [m]] \<rparr>"
    have l: "a_lists b ! a_pending b = replicate k m" using Suc.prems(1) by (simp add: waiting_messages_def)
    have grown: "waiting_messages ?b = replicate (Suc k) m" using Suc.prems(1,4) by (simp add: waiting_messages_def replicate_append_same)
    have "run n W C (Loop conv (a_pending b) (i + 1) rest) ?b = None" using Suc.IH [OF grown] Suc.prems by simp
    moreover have "run n W C (Handle m) b = None \<or> run n W C (Handle m) b = Some (Inr (), ?b)"
      using step [OF Suc.prems(1,3)] by (cases n) simp_all
    ultimately show ?case using l Suc.prems(2) assms(3) by (auto simp: and_then_def)
  qed simp
  from this [of a 1 0 "n - 1"] show ?thesis using assms(1,2) by (cases n) (auto simp: flush_pending_def)
qed

subsection \<open>Examples\<close>

definition demo_app :: app where
  "demo_app = \<lparr> a_session = demo_session, a_chat = blank_page, a_stack = 1, a_active = True, a_ws = Some True, a_sent = [], a_login = True,
     a_reconnect = False, a_attempts = 0, a_action = [], a_security = [], a_blocked_convs = {}, a_warnings = [], a_active_group = False,
     a_pending_dm = [], a_kem_queue = [], a_kem_ready = True, a_bundle_ready = True, a_uploading = False, a_publish_blocked = False, a_version = 0,
     a_lists = [[]], a_pending = 0, a_seen = [], a_texts = [], a_ids = [], a_checkpointed = [] \<rparr>"

definition demo_world :: world where
  "demo_world = \<lparr> w_auditor = [], w_http = (\<lambda>_. HttpFail []), w_pick = Min, w_mono_ms = int \<rparr>"

definition early_message :: dict where
  "early_message = [(''conversation_id'', JInt 1), (''from_id'', JInt 8), (''body'', JStr PREFIX_DR)]"

text \<open>The session once it has looked for a ratchet of the conversation.\<close>

definition keyless_session :: crypto_session where
  "keyless_session = snd (decrypt_live_message toy_crypto early_message demo_session)"

theorem retry_of_waiting_messages_ends_witness:
  "\<exists>n r b. flush_pending n demo_world toy_crypto 1 (demo_app\<lparr> a_lists := [[(''id'', JInt 5) # early_message]] \<rparr>) = Some (r, b)"
proof -
  let ?a = "demo_app\<lparr> a_lists := [[(''id'', JInt 5) # early_message]] \<rparr>"
  have "a_pending ?a < length (a_lists ?a)" "\<forall>m \<in> set (waiting_messages ?a). \<exists>i. int_or_0 m ''id'' = Inr i \<and> 0 < i"
    "\<forall>c. finite (seen_ids c ?a) \<and> card (seen_ids c ?a) + length (waiting_messages ?a) \<le> 10000"
    by (simp_all add: demo_app_def waiting_messages_def seen_ids_def dget_def int_or_0_def py_or_def truthy_def py_int_def)
  from retry_of_waiting_messages_ends [OF this] show ?thesis by blast
qed

theorem waiting_message_without_id_never_ends_witness:
  "\<forall>n. flush_pending n demo_world toy_crypto 1 (demo_app\<lparr> a_session := keyless_session, a_lists := [[early_message]] \<rparr>) = None"
proof
  fix n
  let ?a = "demo_app\<lparr> a_session := keyless_session, a_lists := [[early_message]] \<rparr>"
  have "decrypt_live_message toy_crypto early_message keyless_session = (Inr (status_result ''pending''), keyless_session)" by code_simp
  then have "decrypt_live_message toy_crypto early_message (a_session ?a) = (Inr (status_result ''pending''), a_session ?a)" by (simp add: demo_app_def)
  moreover have "py_int (dget early_message ''conversation_id'' (JInt 0)) = Inr 1" "int_or_0 early_message ''id'' = Inr 0" by code_simp+
  moreover have "waiting_messages ?a = [early_message]" "a_pending ?a < length (a_lists ?a)" by (simp_all add: demo_app_def waiting_messages_def)
  ultimately show "flush_pending n demo_world toy_crypto 1 ?a = None" using waiting_message_without_id_never_ends [of ?a early_message 1] by blast
qed

end
