(* ===== verification/App_Identity.thy ===== *)
theory App_Identity
  imports App_Retry
begin

text \<open>
  What the controller does when the server announces that a contact has a new key: the verification of every
  conversation with the contact is withdrawn, in memory and on disk, and the contact needs a review.
\<close>

subsection \<open>What drawing a badge leaves alone\<close>

text \<open>The verified conversations, and the audit state of a contact once it is loaded.\<close>

definition trust_kept :: "int \<Rightarrow> (int \<times> bool) list \<Rightarrow> dict option \<Rightarrow> crypto_session \<Rightarrow> bool" where
  "trust_kept u v d s = (conv_verified s = v \<and> (d \<noteq> None \<longrightarrow> map_of (identity_audit_states s) u = d))"

definition trust_in :: "int \<Rightarrow> (int \<times> bool) list \<Rightarrow> dict option \<Rightarrow> app \<Rightarrow> bool" where
  "trust_in u v d a = trust_kept u v d (a_session a)"

lemma load_keeps_trust: "trust_kept u v d s \<Longrightarrow> trust_kept u v d (snd (load_identity_audit C peer s))"
  by (auto simp: trust_kept_def load_identity_audit_def Let_def update_conv' split: option.splits sum.splits)

lemma trust_in_session [keep_intros]: "preserves (trust_kept u v d) m \<Longrightarrow> preserves (trust_in u v d) (in_session m)"
  by (auto simp: preserves_def in_session_def trust_in_def split: prod.splits)

lemma snd_no_raise: "snd (no_raise f s) = snd (f s)"
  by (simp add: no_raise_def split: prod.split)

lemma trust_load [keep_intros]: "preserves (trust_kept u v d) (no_raise (load_identity_audit C peer))"
  using load_keeps_trust by (simp add: preserves_def snd_no_raise)

lemma trust_fingerprint: "preserves (trust_in u v d) (safety_fingerprint_for_conv C conv)"
proof -
  have f: "trust_kept u v d (s\<lparr> conv_fingerprints := x \<rparr>) = trust_kept u v d s" for s x by (simp add: trust_kept_def)
  have l: "trust_kept u v d s'" if "trust_kept u v d s" "load_identity_audit C peer s = (audit, s')" for s s' peer audit
    using load_keeps_trust [OF that(1), of C peer] that(2) by simp
  show ?thesis unfolding safety_fingerprint_for_conv_def
    by (intro keep_sbind keep_peer) (auto simp: preserves_def trust_in_def Let_def f l split: prod.splits sum.splits)
qed

lemma trust_refresh: "preserves (trust_in u v d) (refresh_security_ui C conv)"
proof -
  have "preserves (trust_in u v d) (sbind (\<lambda>a. (peer_uid_for_conv conv a, a)) (\<lambda>peer.
           sbind (if peer \<noteq> 0 then in_session (no_raise (load_identity_audit C peer)) else sret []) (\<lambda>audit.
           sbind (safety_fingerprint_for_conv C conv) (\<lambda>fp a.
             let verified = dget (conv_verified (a_session a)) conv False;
                 has_fp = (fp \<noteq> [] \<or> dget (conv_fingerprints (a_session a)) conv [] \<noteq> [])
             in case dm_badge (dget audit ''status'' (JStr ''unknown'')) verified has_fp audit of
                  (status, label) \<Rightarrow> (Inr (status, label, audit_error_detail_text audit), a)))))"
    by (intro keep_intros trust_fingerprint) (auto simp: preserves_def Let_def split: prod.splits)
  then have "preserves (trust_in u v d) (security_status_for_conv C conv)" by (auto simp: security_status_for_conv_def preserves_def)
  moreover have "preserves (trust_in u v d) (set_conversation_security conv st lb x b)" for st lb x b
    unfolding set_conversation_security_def Let_def by (intro keep_intros preserves_smod) (simp add: trust_in_def)
  ultimately show ?thesis unfolding refresh_security_ui_def by (intro keep_intros)
qed

subsection \<open>One conversation, and all of them\<close>

lemma written_keeps_verified: "conv_verified (snd (write_sealed C n p s)) = conv_verified s"
  by (rule write_sealed_effect [of C n p s]) simp

lemma save_keeps_verified: "conv_verified (save_identity_audit C u d s) = conv_verified s"
  by (simp add: save_identity_audit_def Let_def written_keeps_verified)

lemma flag_run:
  assumes "flag_key_change C u pk version s = (r, s')"
  shows "conv_verified s' = conv_verified s"
    and "r = Inr () \<Longrightarrow> \<exists>d. map_of (identity_audit_states s') u = Some d \<and> status_of d = JStr ''key_changed''"
proof -
  obtain old s1 where l: "load_identity_audit C u s = (old, s1)" by (cases "load_identity_audit C u s")
  have v: "conv_verified s1 = conv_verified s" using load_keeps_trust [of u "conv_verified s" None s C u] l by (simp add: trust_kept_def)
  have save: "conv_verified (save_identity_audit C u d t) = conv_verified t" for d t by (rule save_keeps_verified)
  show "conv_verified s' = conv_verified s" using assms l v save by (auto simp: flag_key_change_def Let_def split: sum.splits)
  show "\<exists>d. map_of (identity_audit_states s') u = Some d \<and> status_of d = JStr ''key_changed''" if "r = Inr ()"
    using assms l that by (auto simp: flag_key_change_def Let_def save_audit_effect status_saved split: sum.splits)
      (simp_all add: status_of_def)
qed
lemma save_verified_run: "conv_verified (snd (save_verified C conv b s)) = dset (conv_verified s) conv b"
  by (simp add: save_verified_def Let_def written_keeps_verified)

definition withdrawn :: "(int \<times> bool) list \<Rightarrow> int set \<Rightarrow> (int \<times> bool) list \<Rightarrow> bool" where
  "withdrawn v X v' = (\<forall>c. dget v' c False = (dget v c False \<and> c \<notin> X))"

definition under_review :: "int \<Rightarrow> crypto_session \<Rightarrow> bool" where
  "under_review u s = (\<exists>d. map_of (identity_audit_states s) u = Some d \<and> status_of d = JStr ''key_changed'')"

lemma changed_in_conv_run:
  assumes "changed_in_conv C u pk version (conv, u) x a = (Inr y, b)"
  shows "withdrawn (conv_verified (a_session a)) {conv} (conv_verified (a_session b))" and "pk \<noteq> [] \<Longrightarrow> under_review u (a_session b)"
proof -
  let ?s1 = "(a_session a)\<lparr> conv_verified := dset (conv_verified (a_session a)) conv False \<rparr>"
  let ?s2 = "snd (save_verified C conv False ?s1)"
  have sv: "scatch (in_session (save_verified C conv False)) (\<lambda>_. sret ()) (a\<lparr> a_session := ?s1 \<rparr>) = (Inr (), a\<lparr> a_session := ?s2 \<rparr>)"
    by (auto simp: scatch_def in_session_def sret_def split: prod.splits sum.splits)
  obtain s3 where s3: "(if pk \<noteq> [] then flag_key_change C u pk version ?s2 else (Inr (), ?s2)) = (Inr (), s3)"
    and r: "refresh_security_ui C conv (a\<lparr> a_session := s3 \<rparr>) = (Inr y, b)"
    using assms sv by (auto simp: changed_in_conv_def sbind_def in_session_def smod_def sret_def split: prod.splits sum.splits if_splits)
  have v3: "conv_verified s3 = conv_verified ?s2" using s3 flag_run(1) [of C u pk version ?s2] by (auto split: if_splits)
  have kept: "trust_kept u (conv_verified s3) (map_of (identity_audit_states s3) u) (a_session b)"
    using preservesD [OF trust_refresh [of u "conv_verified s3" "map_of (identity_audit_states s3) u" C conv], of "a\<lparr> a_session := s3 \<rparr>"] r
    by (simp add: trust_in_def trust_kept_def)
  then show "withdrawn (conv_verified (a_session a)) {conv} (conv_verified (a_session b))"
    using v3 by (auto simp: trust_kept_def withdrawn_def save_verified_run)
  show "under_review u (a_session b)" if "pk \<noteq> []"
    using flag_run(2) [of C u pk version ?s2 "Inr ()" s3] s3 that kept by (auto simp: trust_kept_def under_review_def)
qed

lemma changed_other: "peer \<noteq> u \<Longrightarrow> changed_in_conv C u pk version (conv, peer) x a = (Inr (), a)"
  by (simp add: changed_in_conv_def sret_def)

lemma changed_all:
  assumes "sfold (changed_in_conv C u pk version) pairs x a = (Inr y, b)"
  shows "withdrawn (conv_verified (a_session a)) {c. (c, u) \<in> set pairs} (conv_verified (a_session b))
    \<and> (pk \<noteq> [] \<and> (under_review u (a_session a) \<or> u \<in> snd ` set pairs) \<longrightarrow> under_review u (a_session b))"
  using assms
proof (induction pairs arbitrary: a x)
  case Nil
  then show ?case by (simp add: withdrawn_def sret_def)
next
  case (Cons pair pairs)
  obtain conv peer where pair: "pair = (conv, peer)" by (cases pair)
  obtain z a1 where a1: "changed_in_conv C u pk version pair x a = (Inr z, a1)" "sfold (changed_in_conv C u pk version) pairs z a1 = (Inr y, b)"
    using Cons.prems by (auto simp: sbind_def split: prod.splits sum.splits)
  show ?case
  proof (cases "peer = u")
    case True
    note one = changed_in_conv_run [OF a1(1) [unfolded pair True]]
    show ?thesis using Cons.IH [OF a1(2)] one pair True by (auto simp: withdrawn_def)
  next
    case False
    then have "a1 = a" using a1(1) changed_other pair by simp
    then show ?thesis using Cons.IH [OF a1(2)] pair False by (auto simp: withdrawn_def)
  qed
qed

text \<open>
  C27: (safety) When the server announces that a contact has a new key, every conversation with the contact stops being
  verified and no other conversation changes; when the new key came with the announcement, the contact is
  under review (\<open>key_changed\<close>) until the user has looked at it.
\<close>

theorem key_change_withdraws_verification:
  assumes "handle_identity_changed C msg a = (Inr (), b)" and "int_or_0 msg ''user_id'' = Inr u" and "0 < u" and "u \<noteq> uid (a_session a)"
  shows "(\<forall>c. dget (conv_verified (a_session b)) c False = (dget (conv_verified (a_session a)) c False \<and> (c, u) \<notin> set (conv_peer_uids (a_session a))))
    \<and> (str_or_empty msg ''identity_pk'' \<noteq> [] \<and> u \<in> snd ` set (conv_peer_uids (a_session a))
        \<longrightarrow> status_of (fst (load_identity_audit C u (a_session b))) = JStr ''key_changed'')"
proof -
  obtain version where "int_or_0 msg ''identity_version'' = Inr version"
    "sfold (changed_in_conv C u (str_or_empty msg ''identity_pk'') version) (conv_peer_uids (a_session a)) () a = (Inr (), b)"
    using assms by (auto simp: handle_identity_changed_def sbind_def slift_def sget_def split: sum.splits)
  from changed_all [OF this(2)] show ?thesis by (auto simp: withdrawn_def under_review_def load_identity_audit_def)
qed
definition trusting_app :: app where
  "trusting_app = demo_app\<lparr> a_session := demo_session\<lparr> master_key := [], conv_peer_uids := [(5, 2), (6, 3)], conv_verified := [(5, True), (6, True)] \<rparr> \<rparr>"

definition new_key :: dict where
  "new_key = [(''user_id'', JInt 2), (''identity_pk'', JStr ''k''), (''identity_version'', JInt 2)]"

theorem key_change_withdraws_verification_witness:
  "dget (conv_verified (a_session (snd (handle_identity_changed toy_crypto new_key trusting_app)))) 5 False = False
   \<and> dget (conv_verified (a_session (snd (handle_identity_changed toy_crypto new_key trusting_app)))) 6 False = True"
proof -
  have "fst (handle_identity_changed toy_crypto new_key trusting_app) = Inr ()" by code_simp
  then have run: "handle_identity_changed toy_crypto new_key trusting_app = (Inr (), snd (handle_identity_changed toy_crypto new_key trusting_app))"
    by (metis prod.collapse)
  have s: "int_or_0 new_key ''user_id'' = Inr 2" "2 \<noteq> uid (a_session trusting_app)" "conv_peer_uids (a_session trusting_app) = [(5, 2), (6, 3)]"
    "conv_verified (a_session trusting_app) = [(5, True), (6, True)]" by code_simp+
  from key_change_withdraws_verification [OF run s(1) _ s(2)] show ?thesis by (simp add: s(3,4) dget_def)
qed

end
