(* ===== verification/App_Echo.thy ===== *)
theory App_Echo
  imports App_Retry Dm_Chat
begin

text \<open>
  The queue of texts that wait for their echo. The server sends every message back to its sender, who cannot decrypt it
  and shows the oldest text of the queue instead. That is right as long as every text of the queue is
  echoed, in order.
\<close>

subsection \<open>The queue and the bubbles\<close>

abbreviation queue :: "int \<Rightarrow> app \<Rightarrow> string list" where
  "queue conv a \<equiv> dget (a_texts a) conv []"

abbreviation queue_ids :: "int \<Rightarrow> app \<Rightarrow> int list" where
  "queue_ids conv a \<equiv> dget (a_ids a) conv []"

text \<open>
  What \<open>_send_message\<close> and \<open>_handle_message\<close> rely on: queues by key, filled at one end and emptied at the other, with a value
  that stands for an empty queue.
\<close>

locale keyed_queue =
  fixes held :: "'k \<Rightarrow> 's \<Rightarrow> 'v list" and push :: "'k \<Rightarrow> 'v \<Rightarrow> 's \<Rightarrow> 's" and pop :: "'k \<Rightarrow> 's \<Rightarrow> 'v \<times> 's" and nothing :: 'v
  assumes push_same: "held k (push k v s) = held k s @ [v]"
    and push_other: "k' \<noteq> k \<Longrightarrow> held k' (push k v s) = held k' s"
    and pop_empty: "held k s = [] \<Longrightarrow> pop k s = (nothing, s)"
    and pop_first: "held k s = v # vs \<Longrightarrow> fst (pop k s) = v \<and> held k (snd (pop k s)) = vs"
    and pop_other: "k' \<noteq> k \<Longrightarrow> held k' (snd (pop k s)) = held k' s"
begin

lemma held_pushes: "held k (fold (push k) vs s) = held k s @ vs"
  by (induction vs arbitrary: s) (simp_all add: push_same)

lemma held_pop: "held k (snd (pop k s)) = drop 1 (held k s)"
  by (cases "held k s") (simp_all add: pop_empty pop_first)

lemma held_pops: "held k (((\<lambda>s. snd (pop k s)) ^^ n) s) = drop n (held k s)"
  by (induction n) (simp_all add: held_pop)

lemma pop_value: "fst (pop k s) = (if held k s = [] then nothing else hd (held k s))"
  by (cases "held k s") (simp_all add: pop_empty pop_first)

text \<open>What is taken out after \<open>n\<close> others is what was put in after \<open>n\<close> others.\<close>

lemma nth_popped: "n < length (held k s) + length vs \<Longrightarrow> fst (pop k (((\<lambda>s. snd (pop k s)) ^^ n) (fold (push k) vs s))) = (held k s @ vs) ! n"
  using hd_drop_conv_nth [of n "held k s @ vs"] by (auto simp: pop_value held_pops held_pushes simp del: drop_append)

end

interpretation texts: keyed_queue queue push_text pop_text "''[message sent]''"
  by unfold_locales (auto simp: push_text_def pop_text_def split: list.splits)

interpretation ids: keyed_queue queue_ids push_id pop_id 0
  by unfold_locales (auto simp: push_id_def pop_id_def split: list.splits)

text \<open>One text that never gets its echo shifts all later ones: the echo after \<open>n\<close> others shows the text before its own.\<close>

lemma stuck_text_shifts_all:
  assumes "queue conv a = [t]" and "n < length ts"
  shows "fst (pop_text conv (((\<lambda>a. snd (pop_text conv a)) ^^ Suc n) (fold (push_text conv) ts a))) = ts ! n"
    and "fst (pop_text conv (fold (push_text conv) ts a)) = t"
  using texts.nth_popped [where n = "Suc n" and k = conv and s = a and vs = ts] texts.nth_popped [where n = 0 and k = conv and s = a and vs = ts] assms by simp_all

definition online :: "app \<Rightarrow> bool" where
  "online a = (a_active a \<and> a_ws a = Some True)"

definition sending :: "entry list \<Rightarrow> (int \<times> string option) list" where
  "sending es = map (\<lambda>e. (e_id e, e_retry e)) (filter e_sending es)"

text \<open>The bubbles being sent are the queue, text by text and id by id.\<close>

definition in_sync :: "int \<Rightarrow> app \<Rightarrow> bool" where
  "in_sync conv a = (length (queue_ids conv a) = length (queue conv a)
     \<and> sending (conv_hist conv (a_chat a)) = zip (queue_ids conv a) (map Some (queue conv a)))"

lemma online_steady: "online a \<Longrightarrow> steady (view_part a)"
  by (simp add: online_def steady_def view_part_def)

lemma keepD: "preserves (in_a part v) m \<Longrightarrow> part a = v \<Longrightarrow> m a = (r, b) \<Longrightarrow> part b = v"
  by (auto simp: preserves_def in_a_def)

lemma view_eq:
  assumes "view_part b = view_part a"
  shows "a_chat b = a_chat a" "a_texts b = a_texts a" "a_ids b = a_ids a" "online b = online a" "a_stack b = a_stack a"
  using assms by (simp_all add: view_part_def online_def)

lemma sending_simps [simp]: "sending [] = []" "sending (es @ es') = sending es @ sending es'"
  "sending [e] = (if e_sending e then [(e_id e, e_retry e)] else [])"
  by (simp_all add: sending_def)

subsection \<open>One send\<close>

lemma keep_ensure_view:
  assumes "steady v"
  shows "preserves (in_a view_part v) (ensure_pqxdh_dm_session C conv)"
proof -
  have ask: "preserves (in_a view_part v) (sbind (ask_for_bundle peer) (\<lambda>_. sret False))" for peer
    unfolding ask_for_bundle_def by (intro keep_intros keep_send_view [OF assms])
  have request: "preserves (in_a view_part v) (request_bundle conv peer)" for peer
    using ask [of peer] by (auto simp: preserves_def request_bundle_def in_a_def view_part_def Let_def)
  have peer: "preserves (in_a view_part v) (peer_uid_for_dm_conv conv)"
    by (auto simp: preserves_def in_a_def view_part_def peer_uid_for_dm_conv_def Let_def split: sum.splits)
  have want: "preserves (in_a view_part v) (want_session conv)"
    unfolding want_session_def by (rule keep_sbind [OF peer]) (use request in \<open>auto simp: preserves_def\<close>)
  have "preserves (in_a view_part v) (sbind (in_session (no_raise (load_double_ratchet C conv))) (\<lambda>state a.
      if state \<noteq> None then (Inr True, a) else if a_publish_blocked a then (Inr False, a) else want_session conv a))"
    by (rule keep_sbind [OF keep_in_session]) (use want in \<open>auto simp: preserves_def\<close>)
  then show ?thesis unfolding preserves_def ensure_pqxdh_dm_session_def by auto
qed

lemma keep_encrypt_view:
  assumes "steady (view_part a)" and "encrypt_body C conv body a = (r, b)"
  shows "view_part b = view_part a"
proof -
  let ?m = "if \<not> is_group_conv conv a \<and> a_publish_blocked a then (Inl (CryptoStateError BLOCKED_WARNING), a) else in_session (encrypt_for_conv C conv body) a"
  obtain x a1 where x: "?m = (x, a1)" by (cases ?m)
  then have a1: "view_part a1 = view_part a" by (auto simp: in_session_def view_part_def split: if_splits prod.splits)
  have e: "view_part d = view_part a" if "sbind (ensure_pqxdh_dm_session C conv) (\<lambda>_. sret None) a1 = (y, d)" for y d
    using keepD [OF keep_sbind [OF keep_ensure_view [OF assms(1)]] a1 that] by (simp add: preserves_def)
  have "view_part b = view_part a1 \<or> sbind (ensure_pqxdh_dm_session C conv) (\<lambda>_. sret None) a1 = (r, b)"
    using assms(2) x unfolding encrypt_body_def by (auto split: sum.splits exc.splits if_splits)
  then show ?thesis using a1 e by metis
qed
lemma keep_after:
  assumes "m a = (x, a1)" and "\<And>y. preserves (in_a part (part a1)) (f y)" and "sbind m f a = (r, b)"
  shows "part b = part a1"
  using assms keepD [OF assms(2) refl] by (cases x) (auto simp: sbind_def)

lemma send_wire_run:
  assumes "online a" and "send_wire C conv body wire reply a = (r, b)"
  shows "r = Inr ()" and "online b" and "queue conv b = queue conv a @ [body]"
    and "queue_ids conv b = queue_ids conv a @ [fst (show_send_pending conv body [] reply (a_chat a))]"
    and "a_chat b = snd (show_send_pending conv body [] reply (a_chat a))"
    and "a_seen b = a_seen a" and "a_session b = snd (cache_outgoing_wire C conv wire (uid (a_session a)) body [] (a_session a))"
proof -
  obtain i g where p: "show_send_pending conv body [] reply (a_chat a) = (i, g)" by (cases "show_send_pending conv body [] reply (a_chat a)")
  obtain s where s: "cache_outgoing_wire C conv wire (uid (a_session a)) body [] (a_session a) = (Inr (), s)"
    by (cases "cache_outgoing_wire C conv wire (uid (a_session a)) body [] (a_session a)") (auto simp: cache_outgoing_wire_def split: if_splits)
  have "b = (let a1 = push_id conv i (push_text conv body (a\<lparr> a_chat := g, a_session := s \<rparr>))
      in a1\<lparr> a_sent := a_sent a1 @ [message_command conv wire reply] \<rparr>) \<and> r = Inr ()"
    using assms p s by (auto simp: send_wire_def sbind_def in_chat_def in_session_def no_raise_def smod_def safe_send_def online_def push_id_def push_text_def
        sret_def Let_def)
  then show "r = Inr ()" "online b" "queue conv b = queue conv a @ [body]" "a_chat b = snd (show_send_pending conv body [] reply (a_chat a))"
    "queue_ids conv b = queue_ids conv a @ [fst (show_send_pending conv body [] reply (a_chat a))]"
    "a_seen b = a_seen a" "a_session b = snd (cache_outgoing_wire C conv wire (uid (a_session a)) body [] (a_session a))"
    using assms(1) p s by (simp_all add: push_id_def push_text_def online_def Let_def)
qed

lemma pending_hist:
  "sending (conv_hist conv (snd (show_send_pending conv body path reply g))) =
     sending (conv_hist conv g) @ [(fst (show_send_pending conv body path reply g), Some body)]"
  "sending (conv_hist conv (show_send_failed conv body reason path g)) = sending (conv_hist conv g)"
  "waiting conv (snd (show_send_pending conv body path reply g)) = waiting conv g"
  "waiting conv (show_send_failed conv body reason path g) = waiting conv g"
  by (simp_all add: show_send_pending_def show_send_failed_def append_entry_def Let_def plain_entry_def waiting_def) (simp_all add: set_hist_def)

text \<open>Whether a text is taken: the badge could be drawn and the text be encrypted.\<close>

definition taken :: "crypto \<Rightarrow> int \<Rightarrow> string \<Rightarrow> app \<Rightarrow> bool" where
  "taken C conv body a = (case refresh_security_ui C conv a of
       (Inl _, _) \<Rightarrow> False
     | (Inr _, a1) \<Rightarrow> (case fst (encrypt_body C conv body a1) of Inr (Some _) \<Rightarrow> True | _ \<Rightarrow> False))"

lemma send_message_run:
  assumes "online a" and "send_message C conv body reply a = (r, b)"
  obtains (untaken) "\<not> taken C conv body a" "online b" "a_texts b = a_texts a" "a_ids b = a_ids a"
      "a_chat b = a_chat a \<or> a_chat b = show_send_failed conv body NOT_READY [] (a_chat a)"
    | (taken) "taken C conv body a" "r = Inr ()" "online b" "queue conv b = queue conv a @ [body]"
      "queue_ids conv b = queue_ids conv a @ [fst (show_send_pending conv body [] reply (a_chat a))]"
      "a_chat b = snd (show_send_pending conv body [] reply (a_chat a))"
proof -
  obtain x a1 where x: "refresh_security_ui C conv a = (x, a1)" by (cases "refresh_security_ui C conv a")
  have v1: "view_part a1 = view_part a" using keepD [OF keep_refresh [OF parts_outside(2)] refl x] .
  obtain y a2 where y: "encrypt_body C conv body a1 = (y, a2)" by (cases "encrypt_body C conv body a1")
  have "view_part a2 = view_part a1" using keep_encrypt_view [OF _ y] v1 online_steady [OF assms(1)] by simp
  note v2 = view_eq [OF this [unfolded v1]] and v1 = view_eq [OF v1]
  consider (one) e where "x = Inl e" | (two) u e where "x = Inr u" "y = Inl e" | (none) u where "x = Inr u" "y = Inr None" | (wire) u w where "x = Inr u" "y = Inr (Some w)"
    by (metis option.exhaust sum.exhaust)
  then show thesis
  proof cases
    case one
    then have "b = a1" "\<not> taken C conv body a" using assms(2) x by (auto simp: send_message_def sbind_def taken_def)
    then show thesis using untaken v1 assms(1) by simp
  next
    case two
    then have "b = a2" "\<not> taken C conv body a" using assms(2) x y by (auto simp: send_message_def sbind_def taken_def)
    then show thesis using untaken v2 assms(1) by simp
  next
    case none
    then have "b = a2\<lparr> a_chat := show_send_failed conv body NOT_READY [] (a_chat a2) \<rparr>" "\<not> taken C conv body a"
      using assms(2) x y by (auto simp: send_message_def sbind_def taken_def in_chat_def smod_def)
    then show thesis using untaken v2 assms(1) by (simp add: online_def)
  next
    case wire
    then have run: "send_wire C conv body w reply a2 = (r, b)" and "taken C conv body a"
      using assms(2) x y by (auto simp: send_message_def sbind_def taken_def)
    then show thesis using taken send_wire_run [OF _ run] v2 assms(1) by simp
  qed
qed

subsection \<open>One echo\<close>

text \<open>An echo of a new message: the fields the handler reads can be read.\<close>

definition readable_echo :: "int \<Rightarrow> int \<Rightarrow> dict \<Rightarrow> bool" where
  "readable_echo conv mid msg = (int_or_0 msg ''conversation_id'' = Inr conv \<and> int_or_0 msg ''id'' = Inr mid \<and> 0 < mid
     \<and> int_or_0 msg ''edit_target_message_id'' = Inr 0 \<and> \<not> isl (ts_of (dget msg ''time'' (JStr [])))
     \<and> \<not> isl (int_or_0 msg ''forwarded_from_id'') \<and> \<not> isl (int_or_0 msg ''reply_to_message_id'')
     \<and> \<not> isl (normalize_reactions (py_or (dget msg ''reactions'' (JArr [])) (JArr []))))"

definition own_echo :: "crypto \<Rightarrow> dict \<Rightarrow> app \<Rightarrow> bool" where
  "own_echo C msg a = (fst (decrypt_live_message C msg (a_session a)) = Inr (status_result ''self_echo''))"

definition shown_as :: "json \<Rightarrow> int \<Rightarrow> entry \<Rightarrow> bool" where
  "shown_as body mid e = (e_body e = body \<and> e_id e = mid \<and> \<not> e_sending e \<and> \<not> e_failed e)"

lemma show_new_run:
  assumes "online a" and "readable_echo conv mid msg" and "show_new W C msg conv sender body ts mid a = (r, b)"
    and "page_ok (a_chat a)" and "mid \<notin> ed_target ` set (waiting conv (a_chat a))"
  shows "online b" and "a_texts b = a_texts a" and "a_ids b = a_ids a" and "page_ok (a_chat b)"
    and "\<exists>e. shown_as (JStr body) mid e \<and> conv_hist conv (a_chat b) = conv_hist conv (a_chat a) @ [e]"
    and "set (waiting conv (a_chat b)) \<subseteq> set (waiting conv (a_chat a))"
proof -
  obtain fwd reply rs where f: "int_or_0 msg ''forwarded_from_id'' = Inr fwd" "int_or_0 msg ''reply_to_message_id'' = Inr reply"
    "normalize_reactions (py_or (dget msg ''reactions'' (JArr [])) (JArr [])) = Inr rs"
    using assms(2) by (auto simp: readable_echo_def isl_def) (metis sum.exhaust)
  define p where "p = truthy (dget msg ''pinned'' (JBool False))"
  define add where "add = add_msg conv sender (JStr body) ts mid p (dget msg ''reactions'' (JArr [])) fwd reply"
  define e where "e = (plain_entry sender (JStr body) ts mid)\<lparr> e_pinned := p, e_reactions := rs, e_forwarded := fwd, e_reply := reply \<rparr>"
  let ?g = "a_chat a" and ?u = "append_entry conv e (a_chat a)"
  obtain x a1 where x: "in_chat add a = (x, a1)" by (cases "in_chat add a")
  then have a1: "a1 = a\<lparr> a_chat := snd (add ?g) \<rparr>" by (auto simp: in_chat_def split: prod.splits)
  have on: "steady (view_part a1)" using assms(1) a1 by (simp add: online_def steady_def view_part_def)
  have "preserves (in_a view_part (view_part a1)) (sbind (note_transcript C msg conv mid sender body ts 0) (\<lambda>_.
     sbind (if is_plain body then cache_plain C conv mid sender body ts else sret ()) (\<lambda>_. maybe_send_transcript_checkpoint W C conv False)))"
    unfolding note_transcript_def cache_plain_def
    by (intro keep_intros keep_checkpoint keep_send_view [OF on]) (simp add: view_part_def)
  with x assms(3) have v: "view_part b = view_part a1"
    by (intro keep_after [where m = "in_chat add" and a = a]) (auto simp: show_new_def f add_def p_def)
  note b = view_eq [OF v]
  show "online b" "a_texts b = a_texts a" "a_ids b = a_ids a" using b a1 assms(1) by (simp_all add: online_def)
  show "page_ok (a_chat b)" using b(1) a1 add_msg_keeps [OF assms(4)] by (simp add: add_def)
  have h: "history_part (a_chat b) = history_part (apply_pending_edit_events conv ?u)"
    using b(1) a1 add_msg_run [OF f(3), of conv sender "JStr body" ts mid p fwd reply ?g] by (simp add: add_def e_def)
  have w: "waiting conv ?u = waiting conv ?g" by (simp add: append_entry_def waiting_def set_hist_def)
  have e: "e_id e = mid" "shown_as (JStr body) mid e" by (simp_all add: e_def plain_entry_def shown_as_def)
  have ce: "conv_hist conv ?u = conv_hist conv ?g @ [e]" by (simp add: append_entry_def)
  have miss: "\<forall>ev \<in> set (waiting conv ?g). ed_target ev \<notin> e_id ` set (conv_hist conv ?g @ [e])"
    using assms(4,5) e(1) by (auto simp: page_ok_def hist_ok_def image_iff)
  have "conv_hist conv (a_chat b) = conv_hist conv ?g @ [e]"
    using history_partD(1) [OF h] apply_pending_run [of conv ?u] edit_list_miss [OF miss] w ce by simp
  then show "\<exists>e. shown_as (JStr body) mid e \<and> conv_hist conv (a_chat b) = conv_hist conv ?g @ [e]" using e(2) by blast
  show "set (waiting conv (a_chat b)) \<subseteq> set (waiting conv ?g)"
    using history_partD(2) [OF h] apply_pending_run [of conv ?u] w by (auto simp: unmatched_def)
qed
text \<open>What the handler does with an echo, up to the entry it adds.\<close>

lemma echo_run:
  assumes "readable_echo conv mid msg" and "own_echo C msg a" and "mid \<notin> seen_ids conv a" and "receive W C msg a = (r, b)"
    and "queue conv a = t # ts" and "queue_ids conv a = i # is"
  obtains sender time r' s S where
    "show_new W C msg conv sender (unpack_plaintext t) time mid (a\<lparr> a_session := s, a_seen := S, a_texts := dset (a_texts a) conv ts,
        a_ids := dset (a_ids a) conv is, a_chat := remove_pending_send conv t i (a_chat a) \<rparr>) = (r', b)"
proof -
  obtain s where d: "decrypt_live_message C msg (a_session a) = (Inr (status_result ''self_echo''), s)"
    using assms(2) by (cases "decrypt_live_message C msg (a_session a)") (simp add: own_echo_def)
  obtain time where time: "ts_of (dget msg ''time'' (JStr [])) = Inr time"
    using assms(1) by (cases "ts_of (dget msg ''time'' (JStr []))") (auto simp: readable_echo_def)
  obtain sender where sender: "py_int (py_or (py_or (dget msg ''from_id'' (JInt 0)) (dget msg ''sender_id'' (JInt 0))) (JInt 0)) = Inr sender"
    using d assms(1) by (cases "py_int (py_or (py_or (dget msg ''from_id'' (JInt 0)) (dget msg ''sender_id'' (JInt 0))) (JInt 0))")
      (auto simp: decrypt_live_message_def readable_echo_def)
  define S where "S = dset (a_seen a) conv (trim_seen W (insert mid (seen_ids conv a)))"
  let ?a1 = "a\<lparr> a_session := s, a_seen := S \<rparr>"
  let ?a2 = "a\<lparr> a_session := s, a_seen := S, a_texts := dset (a_texts a) conv ts, a_ids := dset (a_ids a) conv is,
      a_chat := remove_pending_send conv t i (a_chat a) \<rparr>"
  have result: "dget (status_result ''self_echo'') ''status'' JNull = JStr ''self_echo''"
    "dget (status_result ''self_echo'') ''peer_uid'' JNull = JNull" "dget (status_result ''self_echo'') ''peer_identity_pk'' JNull = JNull"
    by (simp_all add: status_result_def dget_def)
  have ids: "int_or_0 msg ''conversation_id'' = Inr conv" "int_or_0 msg ''id'' = Inr mid" "mid \<noteq> 0" "int_or_0 msg ''edit_target_message_id'' = Inr 0"
    using assms(1) by (auto simp: readable_echo_def)
  have echoed: "echoed_text conv ?a1 = (Inr t, ?a2)"
    using assms(5,6) by (simp add: echoed_text_def sbind_def no_raise_def pop_text_def pop_id_def in_chat_def smod_def sret_def)
  have "sbind (show_new W C msg conv sender (unpack_plaintext t) time mid) (\<lambda>_. sret ()) ?a2 = receive_visible W C msg conv sender mid True (status_result ''self_echo'') ?a1"
    using echoed time ids(4) result
    by (simp add: receive_visible_def note_peer_def truthy_def sbind_def slift_def sret_def handle_decrypted_message_def unpack_value_def)
  moreover have "receive W C msg a = sbind (receive_visible W C msg conv sender mid True (status_result ''self_echo'')) (\<lambda>_. sret None) ?a1"
    using ids(1-3) sender d assms(3) result
    by (simp add: receive_def sbind_def slift_def in_session_def smod_def mark_msg_seen_def S_def seen_ids_def Let_def)
  ultimately have "\<exists>r'. show_new W C msg conv sender (unpack_plaintext t) time mid ?a2 = (r', b)"
    using assms(4) by (auto simp: sbind_def sret_def split: prod.splits sum.splits)
  then show thesis using that by blast
qed

text \<open>When the bubbles are the queue, the echo takes the oldest bubble away.\<close>

lemma first_bubble_removed:
  assumes "sending es = (i, v) # rest" and "distinct (bubbles es)" and "i \<noteq> 0"
  shows "\<exists>kept. drop_first (is_pending_send t i) es = (True, kept) \<and> sending kept = rest"
  using assms
proof (induction es)
  case (Cons e es)
  show ?case
  proof (cases "e_sending e")
    case True
    then show ?thesis using Cons.prems by (auto simp: sending_def is_pending_send_def)
  next
    case False
    then have "sending es = (i, v) # rest" "distinct (bubbles es)" using Cons.prems by (auto simp: sending_def split: if_splits)
    then show ?thesis using Cons.IH Cons.prems(3) False by (auto simp: sending_def is_pending_send_def)
  qed
qed simp

lemma echo_removes_bubble:
  assumes "page_ok g" and "sending (conv_hist conv g) = (i, v) # rest"
  shows "sending (conv_hist conv (remove_pending_send conv t i g)) = rest" "waiting conv (remove_pending_send conv t i g) = waiting conv g"
proof -
  have ok: "hist_ok (failed_send_counter g) (conv_hist conv g) (waiting conv g)" using assms(1) by (simp add: page_ok_def)
  obtain e where e: "e \<in> set (conv_hist conv g)" "e_sending e" "e_id e = i" using assms(2) by (fastforce simp: sending_def filter_eq_Cons_iff map_eq_Cons_conv)
  then have "i \<noteq> 0" using hist_okD [OF ok e(1)] by (auto simp: is_bubble_def)
  moreover have "distinct (bubbles (conv_hist conv g))" using ok by (simp add: hist_ok_def)
  ultimately show "sending (conv_hist conv (remove_pending_send conv t i g)) = rest"
    using first_bubble_removed [OF assms(2), of t] by (auto simp: remove_pending_send_def)
  show "waiting conv (remove_pending_send conv t i g) = waiting conv g"
    by (simp add: remove_pending_send_def waiting_def set_hist_def split: prod.splits)
qed
subsection \<open>A dialog with the server\<close>

text \<open>
  Sends and echoes of a conversation, in any order, over a connection that holds, with anything in between that leaves the
  timeline, the queues and the connection alone. The lists are the texts taken and the bodies the echoes showed.
\<close>

inductive dialog :: "world \<Rightarrow> crypto \<Rightarrow> int \<Rightarrow> app \<Rightarrow> string list \<Rightarrow> json list \<Rightarrow> app \<Rightarrow> bool" for W C conv a0 where
  Begin: "dialog W C conv a0 [] [] a0"
| Send: "dialog W C conv a0 sent shown a \<Longrightarrow> send_message C conv body reply a = (r, b)
    \<Longrightarrow> dialog W C conv a0 (if taken C conv body a then sent @ [body] else sent) shown b"
| Echo: "dialog W C conv a0 sent shown a \<Longrightarrow> queue conv a \<noteq> [] \<Longrightarrow> readable_echo conv mid msg \<Longrightarrow> own_echo C msg a \<Longrightarrow> mid \<notin> seen_ids conv a
    \<Longrightarrow> receive W C msg a = (r, b) \<Longrightarrow> dialog W C conv a0 sent (shown @ [e_body (last (conv_hist conv (a_chat b)))]) b"
| Other: "dialog W C conv a0 sent shown a \<Longrightarrow> view_part b = view_part a \<Longrightarrow> dialog W C conv a0 sent shown b"

text \<open>The invariant: the queue holds what was taken and not yet shown, and the bubbles are the queue.\<close>

definition fifo :: "int \<Rightarrow> string list \<Rightarrow> json list \<Rightarrow> app \<Rightarrow> bool" where
  "fifo conv sent shown a = (online a \<and> page_ok (a_chat a) \<and> waiting conv (a_chat a) = [] \<and> in_sync conv a
     \<and> shown @ map (\<lambda>t. JStr (unpack_plaintext t)) (queue conv a) = map (\<lambda>t. JStr (unpack_plaintext t)) sent)"

lemma fifo_send:
  assumes "fifo conv sent shown a" and "send_message C conv body reply a = (r, b)"
  shows "fifo conv (if taken C conv body a then sent @ [body] else sent) shown b"
proof -
  have on: "online a" and ok: "page_ok (a_chat a)" using assms(1) by (simp_all add: fifo_def)
  from on assms(2) show ?thesis
  proof (cases rule: send_message_run)
    case untaken
    then show ?thesis using assms(1) show_keeps(1) [OF ok] by (auto simp: fifo_def in_sync_def pending_hist)
  next
    case taken
    then show ?thesis using assms(1) show_keeps(2) [OF ok] by (auto simp: fifo_def in_sync_def pending_hist)
  qed
qed

lemma fifo_echo:
  assumes "fifo conv sent shown a" and "queue conv a \<noteq> []" and "readable_echo conv mid msg" and "own_echo C msg a" and "mid \<notin> seen_ids conv a"
    and "receive W C msg a = (r, b)"
  shows "fifo conv sent (shown @ [e_body (last (conv_hist conv (a_chat b)))]) b"
proof -
  obtain t ts i "is" where q: "queue conv a = t # ts" "queue_ids conv a = i # is"
    using assms(1,2) by (cases "queue conv a"; cases "queue_ids conv a") (auto simp: fifo_def in_sync_def)
  obtain sender time r' s S where run: "show_new W C msg conv sender (unpack_plaintext t) time mid (a\<lparr> a_session := s, a_seen := S, a_texts := dset (a_texts a) conv ts,
        a_ids := dset (a_ids a) conv is, a_chat := remove_pending_send conv t i (a_chat a) \<rparr>) = (r', b)" (is "show_new _ _ _ _ _ _ _ _ ?a2 = _")
    using echo_run [OF assms(3-6) q] by metis
  have inv: "page_ok (a_chat a)" "sending (conv_hist conv (a_chat a)) = (i, Some t) # zip is (map Some ts)" "length is = length ts"
    "waiting conv (a_chat a) = []" "online a"
    using assms(1) q by (simp_all add: fifo_def in_sync_def)
  note gone = echo_removes_bubble [OF inv(1,2), of t]
  have a2: "online ?a2" "page_ok (a_chat ?a2)" "mid \<notin> ed_target ` set (waiting conv (a_chat ?a2))"
    using inv(5) remove_pending_keeps [OF inv(1)] gone(2) inv(4) by (simp_all add: online_def)
  note shown = show_new_run [OF a2(1) assms(3) run a2(2,3)]
  obtain e where e: "shown_as (JStr (unpack_plaintext t)) mid e" "conv_hist conv (a_chat b) = conv_hist conv (remove_pending_send conv t i (a_chat a)) @ [e]"
    using shown(5) by auto
  have "sending (conv_hist conv (a_chat b)) = zip is (map Some ts)" "e_body (last (conv_hist conv (a_chat b))) = JStr (unpack_plaintext t)"
    using e gone(1) by (simp_all add: shown_as_def)
  moreover have "queue conv b = ts" "queue_ids conv b = is" "waiting conv (a_chat b) = []" using shown(2,3,6) gone(2) inv(4) by simp_all
  ultimately show ?thesis using assms(1) q shown(1,4) inv(3) by (simp add: fifo_def in_sync_def)
qed

lemma dialog_fifo: "dialog W C conv a0 sent shown a \<Longrightarrow> fifo conv [] [] a0 \<Longrightarrow> fifo conv sent shown a"
proof (induction rule: dialog.induct)
  case (Send sent shown a body reply r b)
  then show ?case using fifo_send by blast
next
  case (Other sent shown a b)
  then show ?case using view_eq [OF Other(2)] by (simp add: fifo_def in_sync_def)
qed (auto intro: fifo_echo)

text \<open>
  C20: (refinement) Over a connection that holds, the echo queue is a first-in first-out channel: the bodies the echoes
  have shown, followed by the texts still in the queue, are the texts taken, in the order they were sent. The bubbles marked
  as being sent are the queue, one bubble for each text, each with the id its echo removes.
\<close>

theorem echoes_show_texts_in_order:
  assumes "dialog W C conv a0 sent shown a" and "online a0" and "page_ok (a_chat a0)" and "waiting conv (a_chat a0) = []"
    and "queue conv a0 = []" and "queue_ids conv a0 = []" and "\<forall>e \<in> set (conv_hist conv (a_chat a0)). \<not> e_sending e"
  shows "shown @ map (\<lambda>t. JStr (unpack_plaintext t)) (queue conv a) = map (\<lambda>t. JStr (unpack_plaintext t)) sent
    \<and> map (\<lambda>e. (e_id e, e_retry e)) (filter e_sending (conv_hist conv (a_chat a))) = zip (queue_ids conv a) (map Some (queue conv a))"
proof -
  have "sending (conv_hist conv (a_chat a0)) = []" using assms(7) by (simp add: sending_def filter_empty_conv)
  then have "fifo conv [] [] a0" using assms(2-6) by (simp add: fifo_def in_sync_def)
  from dialog_fifo [OF assms(1) this] show ?thesis by (simp add: fifo_def in_sync_def sending_def)
qed
subsection \<open>A lost send\<close>

lemma drop_first_others: "x \<in> set es \<Longrightarrow> \<not> P x \<Longrightarrow> x \<in> set (snd (drop_first P es))"
  by (induction es) (auto split: prod.splits)

lemma other_bubble_stays:
  assumes "e \<in> set (conv_hist conv g)" and "e_id e \<noteq> i" and "i \<noteq> 0"
  shows "e \<in> set (conv_hist conv (remove_pending_send conv t i g))"
  using assms drop_first_others [of e "conv_hist conv g" "is_pending_send t i"]
  by (auto simp: remove_pending_send_def is_pending_send_def split: prod.splits)

lemma send_refused_run:
  shows "online (send_refused err a) = online a" "a_texts (send_refused err a) = a_texts a" "a_ids (send_refused err a) = a_ids a"
    "failed_send_counter (a_chat (send_refused err a)) = failed_send_counter (a_chat a)"
    "waiting conv (a_chat (send_refused err a)) = waiting conv (a_chat a)"
    "page_ok (a_chat a) \<Longrightarrow> page_ok (a_chat (send_refused err a))"
  by (simp_all add: send_refused_def online_def mark_pending_sends_failed_def waiting_def mark_failed_keeps [unfolded mark_pending_sends_failed_def])

text \<open>
  C21: (error) A message the server refuses puts the echoes out of step. Its text stays in the queue, whatever the error
  was, so the echo of the next message shows the refused text under the id of the next message, and the bubble
  of the message that did arrive stays \<open>sending\<close>.
\<close>

theorem refused_send_shifts_echoes:
  assumes "online a" and "page_ok (a_chat a)" and "waiting conv (a_chat a) = []" and "queue conv a = []" and "queue_ids conv a = []"
    and "send_wire C conv t1 w1 reply1 a = (r1, a1)" and "send_wire C conv t2 w2 reply2 (send_refused err a1) = (r2, a2)"
    and "readable_echo conv mid msg" and "own_echo C msg a2" and "mid \<notin> seen_ids conv a2" and "receive W C msg a2 = (r, b)"
  shows "e_id (last (conv_hist conv (a_chat b))) = mid \<and> e_body (last (conv_hist conv (a_chat b))) = JStr (unpack_plaintext t1)
    \<and> (\<exists>e \<in> set (conv_hist conv (a_chat b)). e_sending e \<and> e_retry e = Some t2) \<and> queue conv b = [t2]"
proof -
  note one = send_wire_run [OF assms(1,6)] and refused = send_refused_run [where err = err and a = a1]
  have on: "online (send_refused err a1)" using one(2) refused(1) by simp
  note two = send_wire_run [OF on assms(7)]
  let ?i = "- (failed_send_counter (a_chat a) + 1)" and ?j = "- (failed_send_counter (a_chat a) + 2)"
  have n: "0 \<le> failed_send_counter (a_chat a)" using assms(2) by (simp add: page_ok_def)
  have i: "fst (show_send_pending conv t1 [] reply1 (a_chat a)) = ?i" "failed_send_counter (a_chat a1) = failed_send_counter (a_chat a) + 1"
    using one(5) by (simp_all add: show_send_pending_def Let_def append_entry_def set_hist_def)
  have j: "fst (show_send_pending conv t2 [] reply2 (a_chat (send_refused err a1))) = ?j" using refused(4) i(2) by (simp add: show_send_pending_def Let_def)
  have q: "queue conv a2 = [t1, t2]" "queue_ids conv a2 = [?i, ?j]" using one(3,4) two(3,4) refused(2,3) i j assms(4,5) by simp_all
  have ok1: "page_ok (a_chat a1)" using one(5) show_keeps(2) [OF assms(2)] by simp
  have ok: "page_ok (a_chat a2)" "waiting conv (a_chat a2) = []"
    using two(5) one(5) show_keeps(2) [OF refused(6) [OF ok1]] refused(5) assms(3) by (simp_all add: pending_hist)
  have "(?j, Some t2) \<in> set (sending (conv_hist conv (a_chat a2)))" using two(5) j by (simp add: pending_hist)
  then obtain e where e: "e \<in> set (conv_hist conv (a_chat a2))" "e_sending e" "e_id e = ?j" "e_retry e = Some t2" by (auto simp: sending_def)
  have stays: "e \<in> set (conv_hist conv (remove_pending_send conv t1 ?i (a_chat a2)))" using other_bubble_stays [OF e(1), of ?i] e(3) n by simp
  obtain sender time r' s S where run: "show_new W C msg conv sender (unpack_plaintext t1) time mid (a2\<lparr> a_session := s, a_seen := S,
      a_texts := dset (a_texts a2) conv [t2], a_ids := dset (a_ids a2) conv [?j], a_chat := remove_pending_send conv t1 ?i (a_chat a2) \<rparr>) = (r', b)"
    (is "show_new _ _ _ _ _ _ _ _ ?a3 = _")
    using echo_run [OF assms(8-11) q] by metis
  have "waiting conv (remove_pending_send conv t1 ?i (a_chat a2)) = waiting conv (a_chat a2)"
    by (simp add: remove_pending_send_def waiting_def set_hist_def split: prod.splits)
  then have a3: "online ?a3" "page_ok (a_chat ?a3)" "mid \<notin> ed_target ` set (waiting conv (a_chat ?a3))"
    using two(2) remove_pending_keeps [OF ok(1)] ok(2) by (simp_all add: online_def)
  note shown = show_new_run [OF a3(1) assms(8) run a3(2,3)]
  obtain x where "shown_as (JStr (unpack_plaintext t1)) mid x" "conv_hist conv (a_chat b) = conv_hist conv (remove_pending_send conv t1 ?i (a_chat a2)) @ [x]"
    using shown(5) by auto
  then show ?thesis using stays e(2,4) shown(2) by (auto simp: shown_as_def)
qed

subsection \<open>Examples\<close>

definition dm_app :: app where
  "dm_app = demo_app\<lparr> a_session := (demo_two 0)\<lparr> cache_enabled := False \<rparr> \<rparr>"

definition own_message :: dict where
  "own_message = [(''conversation_id'', JInt 5), (''from_id'', JInt 1), (''id'', JInt 9), (''body'', JStr PREFIX_DR)]"

lemma own_message_readable: "readable_echo 5 9 own_message"
  by code_simp
lemma dm_app_facts: "a_session dm_app = (demo_two 0)\<lparr> cache_enabled := False \<rparr>" "a_chat dm_app = blank_page" "a_publish_blocked dm_app = False"
  "online dm_app" "queue 5 dm_app = []" "queue_ids 5 dm_app = []" "waiting 5 blank_page = []" "conv_hist 5 blank_page = []"
  by (simp_all add: dm_app_def demo_app_def online_def waiting_def conv_hist_def blank_page_def dget_def)

lemma dm_app_page: "page_ok (a_chat dm_app)"
  by (simp add: dm_app_facts page_ok_def hist_ok_def) (simp add: waiting_def conv_hist_def blank_page_def dget_def)

lemma if_badge: "(if P then a\<lparr> a_security := x, a_blocked_convs := y \<rparr> else a\<lparr> a_security := x', a_blocked_convs := y' \<rparr>)
    = a\<lparr> a_security := (if P then x else x'), a_blocked_convs := (if P then y else y') \<rparr>"
  by simp

lemma set_security_run:
  assumes "is_group_conversation_id conv a = Inr g"
  shows "\<exists>x y. set_conversation_security conv st lb d b a = (Inr (), a\<lparr> a_security := x, a_blocked_convs := y \<rparr>)"
  unfolding set_conversation_security_def Let_def sbind_def smod_def assms prod.case sum.case if_badge by blast

lemma dm_refresh: "\<exists>x y. refresh_security_ui toy_crypto 5 dm_app = (Inr (), dm_app\<lparr> a_security := x, a_blocked_convs := y \<rparr>)"
proof -
  have s: "is_group_conv 5 dm_app = False" "peer_uid_for_conv 5 dm_app = Inr 0" "is_group_conversation_id 5 dm_app = Inr False"
    by (simp_all add: is_group_conv_def peer_uid_for_conv_def is_group_conversation_id_def dm_app_facts demo_two_def demo_session_def blank_page_def)
  have "\<exists>st lb d. security_status_for_conv toy_crypto 5 dm_app = (Inr (st, lb, d), dm_app)"
    by (simp add: security_status_for_conv_def s safety_fingerprint_for_conv_def sbind_def sret_def Let_def split: prod.splits)
  then show ?thesis
    using set_security_run [OF s(3)] by (auto simp: refresh_security_ui_def sbind_def)
qed

lemma dm_encrypts:
  obtains w s where "encrypt_for_conv toy_crypto 5 ''hi'' ((demo_two 0)\<lparr> cache_enabled := False \<rparr>) = (Inr w, s)" "w \<noteq> []" "uid s = 1"
proof -
  let ?st = "demo_A\<lparr> session_id := ''b'' \<rparr>" and ?s = "(demo_two 0)\<lparr> cache_enabled := False \<rparr>"
  have "holds 5 ?s ?st" using demo_holds by (simp add: holds_def current_def deref_def)
  then obtain t pad s where e: "encrypt_for_conv toy_crypto 5 ''hi'' ?s = (fst (dr_encrypt toy_crypto (fresh_draw toy_crypto t) (padded ''hi'' pad) ?st), s)" "uid s = uid ?s"
    by (rule encrypt_run)
  have sz: "sizes_ok toy_crypto" using toy_ok by (rule crypto_okD)
  have "length (hk_send ?st) = 32" "\<not> needs_send_ratchet ?st" using demo_parties demo_in_step(2) by (auto simp: parties_def own_key_def)
  then have "\<exists>w. fst (dr_encrypt toy_crypto (fresh_draw toy_crypto t) (padded ''hi'' pad) ?st) = Inr w \<and> w \<noteq> []"
    using encrypt_in_chain [OF sz fresh_draw_ok [OF sz], of ?st] by (simp add: sealed_def dr_wire_def PREFIX_DR_def)
  then show thesis using that e by (auto simp: demo_two_def demo_session_def)
qed
lemma own_echo_of_1: "uid (a_session a) = 1 \<Longrightarrow> own_echo C own_message a"
  by (simp add: own_echo_def decrypt_live_message_def own_message_def body_of_def handle_group_integrity_control_def sbind_def slift_def Let_def
      dget_def int_or_0_def py_or_def truthy_def py_int_def is_prefixed_def starts_with_def protocol_consts)

lemma dm_sent:
  assumes "online a" and "send_wire C conv body wire reply a = (r, b)" and "uid (a_session a) = 1" and "seen_ids 5 a = {}"
  shows "uid (a_session b) = 1 \<and> seen_ids 5 b = {}"
proof -
  have "uid (snd (append_sealed C p pt s)) = uid s" for p pt s
    using seal_effect [of C pt s] by (auto simp: append_sealed_def sbind_def smod_def append_file_def write_file_def split: prod.splits sum.splits)
  then show ?thesis using send_wire_run(6,7) [OF assms(1,2)] assms(3,4) by (simp add: cache_outgoing_wire_def seen_ids_def)
qed

lemma dm_sends:
  obtains r a where "send_message toy_crypto 5 ''hi'' 0 dm_app = (r, a)" "taken toy_crypto 5 ''hi'' dm_app" "own_echo toy_crypto own_message a" "seen_ids 5 a = {}"
proof -
  obtain w s where w: "encrypt_for_conv toy_crypto 5 ''hi'' ((demo_two 0)\<lparr> cache_enabled := False \<rparr>) = (Inr w, s)" "w \<noteq> []" "uid s = 1" by (rule dm_encrypts)
  obtain x y where x: "refresh_security_ui toy_crypto 5 dm_app = (Inr (), dm_app\<lparr> a_security := x, a_blocked_convs := y \<rparr>)" using dm_refresh by blast
  let ?a = "dm_app\<lparr> a_security := x, a_blocked_convs := y, a_session := s \<rparr>"
  have e: "encrypt_body toy_crypto 5 ''hi'' (dm_app\<lparr> a_security := x, a_blocked_convs := y \<rparr>) = (Inr (Some w), ?a)"
    using w(1,2) by (simp add: encrypt_body_def in_session_def dm_app_facts)
  obtain r a where a: "send_wire toy_crypto 5 ''hi'' w 0 ?a = (r, a)" by (cases "send_wire toy_crypto 5 ''hi'' w 0 ?a")
  then have "send_message toy_crypto 5 ''hi'' 0 dm_app = (r, a)" using x e by (simp add: send_message_def sbind_def)
  moreover have "taken toy_crypto 5 ''hi'' dm_app" using x e by (simp add: taken_def)
  moreover have "uid (a_session a) = 1 \<and> seen_ids 5 a = {}"
    using dm_sent [OF _ a] w(3) dm_app_facts(4) by (simp add: online_def seen_ids_def dm_app_def demo_app_def dget_def)
  ultimately show thesis using that own_echo_of_1 by blast
qed

text \<open>A text is sent, and its echo shows it.\<close>

theorem echoes_show_texts_in_order_witness:
  "e_body (last (conv_hist 5 (a_chat (snd (receive demo_world toy_crypto own_message (snd (send_message toy_crypto 5 ''hi'' 0 dm_app))))))) = JStr ''hi''"
proof -
  obtain r a where a: "send_message toy_crypto 5 ''hi'' 0 dm_app = (r, a)" "taken toy_crypto 5 ''hi'' dm_app" "own_echo toy_crypto own_message a" "seen_ids 5 a = {}"
    by (rule dm_sends)
  obtain r' b where b: "receive demo_world toy_crypto own_message a = (r', b)" by (cases "receive demo_world toy_crypto own_message a")
  have sent: "dialog demo_world toy_crypto 5 dm_app [''hi''] [] a" using dialog.Send [OF dialog.Begin a(1)] a(2) by simp
  have q: "queue 5 a \<noteq> []" using dm_app_facts(4) a(1) by (cases rule: send_message_run) (use a(2) in auto)
  have "dialog demo_world toy_crypto 5 dm_app [''hi''] [e_body (last (conv_hist 5 (a_chat b)))] b"
    using dialog.Echo [OF sent q own_message_readable a(3) _ b] a(4) by simp
  from echoes_show_texts_in_order [OF this dm_app_facts(4) dm_app_page] show ?thesis
    using a(1) b by (simp add: dm_app_facts unpack_plaintext_def starts_with_def)
qed

theorem refused_send_shifts_echoes_witness:
  "\<exists>a1 a2 b. send_wire toy_crypto 5 ''one'' ''v'' 0 dm_app = (Inr (), a1)
     \<and> send_wire toy_crypto 5 ''two'' ''w'' 0 (send_refused ''Rate limit exceeded'' a1) = (Inr (), a2)
     \<and> b = snd (receive demo_world toy_crypto own_message a2) \<and> e_body (last (conv_hist 5 (a_chat b))) = JStr ''one'' \<and> queue 5 b = [''two'']"
proof -
  obtain r1 a1 where a1: "send_wire toy_crypto 5 ''one'' ''v'' 0 dm_app = (r1, a1)" by (cases "send_wire toy_crypto 5 ''one'' ''v'' 0 dm_app")
  let ?a = "send_refused ''Rate limit exceeded'' a1"
  obtain r2 a2 where a2: "send_wire toy_crypto 5 ''two'' ''w'' 0 ?a = (r2, a2)" by (cases "send_wire toy_crypto 5 ''two'' ''w'' 0 ?a")
  have on: "online ?a" using send_wire_run(2) [OF dm_app_facts(4) a1] by (simp add: send_refused_run)
  have "uid (a_session a1) = 1 \<and> seen_ids 5 a1 = {}"
    by (rule dm_sent [OF dm_app_facts(4) a1]) (simp_all add: dm_app_facts demo_two_def demo_session_def seen_ids_def dm_app_def demo_app_def dget_def)
  then have s: "uid (a_session a2) = 1 \<and> seen_ids 5 a2 = {}" using dm_sent [OF on a2] by (simp add: send_refused_def seen_ids_def)
  then have "9 \<notin> seen_ids 5 a2" by simp
  note shift = refused_send_shifts_echoes [OF dm_app_facts(4) dm_app_page _ dm_app_facts(5,6) a1 a2 own_message_readable own_echo_of_1 this prod.collapse [symmetric],
      where W = demo_world]
  have "r2 = Inr ()" "r1 = Inr ()" using send_wire_run(1) [OF on a2] send_wire_run(1) [OF dm_app_facts(4) a1] by simp_all
  then show ?thesis using shift s a1 a2 by (simp add: dm_app_facts unpack_plaintext_def starts_with_def)
qed

subsection \<open>A message is handled once\<close>

text \<open>The client after further messages were handled.\<close>

fun receive_all :: "world \<Rightarrow> crypto \<Rightarrow> dict list \<Rightarrow> app \<Rightarrow> app" where
  "receive_all W C [] a = a"
| "receive_all W C (m # ms) a = receive_all W C ms (snd (receive W C m a))"

lemma mark_keeps_seen:
  assumes "finite (seen_ids conv a)" and "card (seen_ids conv a) < 10000"
  shows "seen_ids conv a \<subseteq> seen_ids conv (mark_msg_seen W c m a) \<and> finite (seen_ids conv (mark_msg_seen W c m a))
    \<and> card (seen_ids conv (mark_msg_seen W c m a)) \<le> card (seen_ids conv a) + 1"
proof (cases "c = conv \<and> m \<noteq> 0")
  case True
  have "trim_seen W (insert m (seen_ids conv a)) = insert m (seen_ids conv a)"
    using assms by (simp add: trim_seen_def card_insert_if)
  then have "seen_ids conv (mark_msg_seen W c m a) = insert m (seen_ids conv a)"
    using True by (simp add: seen_ids_def mark_msg_seen_def)
  then show ?thesis using assms by (auto simp: card_insert_if)
next
  case False
  then have "seen_ids conv (mark_msg_seen W c m a) = seen_ids conv a" by (auto simp: seen_ids_def mark_msg_seen_def)
  then show ?thesis using assms by simp
qed

lemma receive_keeps_seen:
  assumes "finite (seen_ids conv a)" and "card (seen_ids conv a) < 10000"
  shows "seen_ids conv a \<subseteq> seen_ids conv (snd (receive W C m a)) \<and> finite (seen_ids conv (snd (receive W C m a)))
    \<and> card (seen_ids conv (snd (receive W C m a))) \<le> card (seen_ids conv a) + 1"
proof -
  obtain r b where b: "receive W C m a = (r, b)" by fastforce
  from receive_waiting [OF b] have "a_seen b = a_seen a \<or> (\<exists>c mid. a_seen b = a_seen (mark_msg_seen W c mid a))"
    by (auto simp: waiting_part_def)
  then have "seen_ids conv b = seen_ids conv a \<or> (\<exists>c mid. seen_ids conv b = seen_ids conv (mark_msg_seen W c mid a))"
    unfolding seen_ids_def by metis
  then show ?thesis using mark_keeps_seen [OF assms, of W] assms b by auto
qed

lemma receive_all_keeps_seen:
  "finite (seen_ids conv a) \<Longrightarrow> card (seen_ids conv a) + length ms \<le> 10000 \<Longrightarrow> seen_ids conv a \<subseteq> seen_ids conv (receive_all W C ms a)"
proof (induction W C ms a rule: receive_all.induct)
  case (2 W C m ms a)
  with receive_keeps_seen [of conv a W C m] show ?case by auto
qed simp

text \<open>
  C26: (safety) A message that the server delivers twice is handled once: after a message with an id was handled and did
  not have to wait for a key, the second delivery changes nothing, even when the first one ended in an
  error, and whatever other messages were handled in between, as long as the seen ids of the conversation stay
  below 10000 with one counted for each of these messages: the set is then cut to 9000 ids of which nobody chooses the ones
  that stay.
\<close>

theorem message_handled_once:
  assumes "int_or_0 msg ''conversation_id'' = Inr conv" and "int_or_0 msg ''id'' = Inr mid" and "0 < mid"
    and "finite (seen_ids conv a)" and "card (seen_ids conv a) + length later < 10000"
    and "fst (decrypt_live_message C msg (a_session a)) = Inr result" and "dget result ''status'' JNull \<noteq> JStr ''pending''"
    and "receive W C msg a = (r, b)"
  shows "receive W C msg (receive_all W C later b) = (Inr None, receive_all W C later b)"
proof -
  obtain s where d: "decrypt_live_message C msg (a_session a) = (Inr result, s)" using assms(6) by (metis prod.collapse)
  obtain sender where sender: "py_int (py_or (py_or (dget msg ''from_id'' (JInt 0)) (dget msg ''sender_id'' (JInt 0))) (JInt 0)) = Inr sender"
    using d assms(1) by (cases "py_int (py_or (py_or (dget msg ''from_id'' (JInt 0)) (dget msg ''sender_id'' (JInt 0))) (JInt 0))")
      (auto simp: decrypt_live_message_def)
  have again: "receive W C msg x = (Inr None, x)" if "mid \<in> seen_ids conv x" for x using that assms(1-3) sender by (simp add: receive_def)
  have "mid \<in> seen_ids conv b"
  proof (cases "mid \<in> seen_ids conv a")
    case True
    then show ?thesis using again assms(8) by simp
  next
    case False
    let ?a = "mark_msg_seen W conv mid (a\<lparr> a_session := s \<rparr>)"
    have "settle W C msg conv sender mid result ?a = (r, b)"
      using receive_run [OF assms(1,2) _ sender, of a C result "a\<lparr> a_session := s \<rparr>" W] False d assms(7,8) by (simp add: in_session_def)
    then have "a_seen b = a_seen ?a" using settle_waiting(1) by (fastforce simp: waiting_part_def)
    moreover have "trim_seen W (insert mid (seen_ids conv a)) = insert mid (seen_ids conv a)" using assms(4,5) by (simp add: trim_seen_def card_insert_if)
    ultimately show ?thesis using assms(3) by (simp add: seen_ids_def mark_msg_seen_def)
  qed
  moreover have "seen_ids conv b \<subseteq> seen_ids conv (receive_all W C later b)"
    by (rule receive_all_keeps_seen) (use receive_keeps_seen [OF assms(4), of W C msg] assms(5,8) in auto)
  ultimately show ?thesis using again by blast
qed

definition second_message :: dict where
  "second_message = dset own_message ''id'' (JInt 10)"

theorem message_handled_once_witness:
  "receive demo_world toy_crypto own_message (receive_all demo_world toy_crypto [second_message] (snd (receive demo_world toy_crypto own_message dm_app)))
     = (Inr None, receive_all demo_world toy_crypto [second_message] (snd (receive demo_world toy_crypto own_message dm_app)))"
proof (rule message_handled_once [where result = "status_result ''self_echo''", OF _ _ _ _ _ _ _ prod.collapse [symmetric]])
  show "int_or_0 own_message ''conversation_id'' = Inr 5" "int_or_0 own_message ''id'' = Inr 9" by code_simp+
  show "fst (decrypt_live_message toy_crypto own_message (a_session dm_app)) = Inr (status_result ''self_echo'')"
    using own_echo_of_1 [of dm_app toy_crypto] by (simp add: own_echo_def dm_app_facts demo_two_def demo_session_def)
qed (simp_all add: seen_ids_def dm_app_def demo_app_def dget_def status_result_def)

end
