(* ===== verification/App_Groups.thy ===== *)
theory App_Groups
  imports App_Echo Local_State
begin

text \<open>
  The controller's part in changes of a group (\<open>client/app.py\<close>): an intent of the user waits until the server has
  prepared the operation, the key packages of new members are claimed one by one, the commit is made by the OpenMLS
  process, and the server is asked to apply it; and what the controller remembers of the members.
\<close>

subsection \<open>State\<close>

text \<open>An entry of \<open>_pending_mls_prepare\<close>; a missing key is read as the empty value.\<close>

record intent =
  i_operation :: string
  i_conv :: int
  i_target :: int
  i_role :: string
  i_name :: string
  i_description :: string
  i_members :: "int list"

text \<open>
  The dictionary \<open>ctx\<close> of a prepared operation. \<open>x_dict\<close> has the keys with JSON values, among them those of the answers of
  the OpenMLS process, which has no keys \<open>intent\<close>, \<open>targets\<close> or \<open>claimed\<close>.
\<close>

record group_op =
  x_dict :: dict
  x_intent :: intent
  x_targets :: "int list"
  x_claimed :: "(int \<times> string) list"

record gapp =
  g_app :: app
  g_prepare :: "intent list"
  g_ops :: "(string \<times> group_op) list"
  g_claims :: "(int \<times> string list) list"
  g_members :: "(int \<times> dict list) list"
  g_expected :: "int set"
  g_manual :: "int set"
  g_created :: "(string \<times> int list) list"
  g_friends :: "(int \<times> dict) list"

type_synonym 'a ga = "(gapp, 'a) act"

definition in_app :: "'a ap \<Rightarrow> 'a ga" where
  "in_app m g = (case m (g_app g) of (r, a) \<Rightarrow> (r, g\<lparr> g_app := a \<rparr>))"

definition send_cmd :: "dict \<Rightarrow> unit ga" where
  "send_cmd obj = sbind (in_app (safe_send obj)) (\<lambda>_. sret ())"

definition warn_group :: "int \<Rightarrow> string list \<Rightarrow> unit ga" where
  "warn_group conv ws = in_app (smod (show_security_warning conv ws))"

subsection \<open>Intents of the user\<close>

definition blank_intent :: intent where
  "blank_intent = \<lparr> i_operation = [], i_conv = 0, i_target = 0, i_role = [], i_name = [], i_description = [], i_members = [] \<rparr>"

definition create_group :: "string \<Rightarrow> int list \<Rightarrow> unit ga" where
  "create_group name members =
     sbind (smod (\<lambda>g. g\<lparr> g_created := dset (g_created g) name members,
        g_prepare := g_prepare g @ [blank_intent\<lparr> i_operation := ''create_group'', i_name := name, i_members := members \<rparr>] \<rparr>)) (\<lambda>_.
     send_cmd [(''type'', JStr ''prepare_group_change''), (''operation'', JStr ''create_group''), (''name'', JStr name), (''members'', JArr (map JInt members))])"

definition add_to_group :: "int \<Rightarrow> int \<Rightarrow> unit ga" where
  "add_to_group gid u =
     sbind (smod (\<lambda>g. g\<lparr> g_prepare := g_prepare g @ [blank_intent\<lparr> i_operation := ''add_member'', i_conv := gid, i_target := u \<rparr>] \<rparr>)) (\<lambda>_.
     send_cmd [(''type'', JStr ''prepare_group_change''), (''operation'', JStr ''add_member''), (''conversation_id'', JInt gid), (''user_id'', JInt u)])"

definition GROUP_COMMANDS :: "string list" where
  "GROUP_COMMANDS = [''remove_member'', ''set_member_role'', ''update_group_info'', ''leave_group'']"

definition prepare_command :: "intent \<Rightarrow> dict" where
  "prepare_command i =
     [(''type'', JStr ''prepare_group_change''), (''operation'', JStr (i_operation i)), (''conversation_id'', JInt (i_conv i))]
     @ (if 0 < i_target i then [(''user_id'', JInt (i_target i))] else [])
     @ (if i_role i \<noteq> [] then [(''role'', JStr (i_role i))] else [])
     @ (if i_operation i = ''update_group_info'' then [(''name'', JStr (i_name i)), (''description'', JStr (i_description i))] else [])"

definition handle_ui_command :: "dict \<Rightarrow> bool ga" where
  "handle_ui_command obj =
     (let t = py_str (dget obj ''type'' (JStr []))
      in sbind (slift (py_int (py_or (dget obj ''group_id'' (dget obj ''conversation_id'' (JInt 0))) (JInt 0)))) (\<lambda>gid.
         sbind (smod (\<lambda>g. if 0 < gid \<and> t = ''get_group_info'' then g\<lparr> g_manual := insert gid (g_manual g) \<rparr> else g)) (\<lambda>_.
           if 0 < gid \<and> t \<in> set GROUP_COMMANDS
           then sbind (slift (int_or_0 obj ''user_id'')) (\<lambda>u.
                sbind (sget (\<lambda>g. uid (a_session (g_app g)))) (\<lambda>me.
                  let i = blank_intent\<lparr> i_operation := t, i_conv := gid, i_target := (if t = ''leave_group'' then me else u),
                            i_role := str_or_empty obj ''role'', i_name := str_or_empty obj ''name'', i_description := str_or_empty obj ''description'' \<rparr>
                  in sbind (smod (\<lambda>g. g\<lparr> g_prepare := g_prepare g @ [i] \<rparr>)) (\<lambda>_. in_app (safe_send (prepare_command i)))))
           else in_app (safe_send obj))))"

subsection \<open>A prepared operation\<close>

definition mls_group_id_b64 :: "int \<Rightarrow> string" where
  "mls_group_id_b64 conv = b64e (''secchat-group:'' @ show_int conv)"

definition intent_matches :: "string \<Rightarrow> int \<Rightarrow> int \<Rightarrow> intent \<Rightarrow> bool" where
  "intent_matches operation conv target i =
     (i_operation i = operation \<and> \<not> (conv \<noteq> 0 \<and> i_conv i \<noteq> 0 \<and> i_conv i \<noteq> conv) \<and> \<not> (target \<noteq> 0 \<and> i_target i \<noteq> 0 \<and> i_target i \<noteq> target))"

definition pop_pending_mls_prepare :: "string \<Rightarrow> int \<Rightarrow> int \<Rightarrow> intent ga" where
  "pop_pending_mls_prepare operation conv target g = (case find (intent_matches operation conv target) (g_prepare g) of
       Some i \<Rightarrow> (Inr i, g\<lparr> g_prepare := snd (drop_first (intent_matches operation conv target) (g_prepare g)) \<rparr>)
     | None \<Rightarrow> (Inr (blank_intent\<lparr> i_operation := operation, i_conv := conv, i_target := target \<rparr>), g))"

definition queue_mls_claim :: "string \<Rightarrow> int \<Rightarrow> unit ga" where
  "queue_mls_claim op u =
     (if u \<le> 0 then sret ()
      else sbind (smod (\<lambda>g. g\<lparr> g_claims := dset (g_claims g) u (dget (g_claims g) u [] @ [op]) \<rparr>)) (\<lambda>_.
           send_cmd [(''type'', JStr ''claim_mls_key_package''), (''user_id'', JInt u)]))"

definition store_op :: "string \<Rightarrow> group_op \<Rightarrow> gapp \<Rightarrow> gapp" where
  "store_op op x g = g\<lparr> g_ops := dset (g_ops g) op x \<rparr>"

definition drop_op :: "string \<Rightarrow> gapp \<Rightarrow> gapp" where
  "drop_op op g = g\<lparr> g_ops := dpop (g_ops g) op \<rparr>"

text \<open>The command that asks the server to apply the operation.\<close>

definition apply_payload :: "dict \<Rightarrow> string \<Rightarrow> int \<Rightarrow> crypto_session \<Rightarrow> dict res" where
  "apply_payload d op conv s =
     rbind (py_int (py_or (dget d ''epoch'' (JInt (dget (group_epochs s) conv 0))) (JInt 0))) (\<lambda>epoch.
     Inr ([(''type'', JStr ''apply_group_change''), (''operation_id'', JStr op), (''conversation_id'', JInt conv),
           (''group_id_b64'', JStr (py_str (py_or (dget d ''group_id_b64'' (JStr [])) (JStr (mls_group_id_b64 conv))))), (''epoch'', JInt epoch)]
          @ concat (map (\<lambda>k. if truthy (dget d k JNull) then [(k, dget d k JNull)] else [])
              [''commit_b64'', ''group_info_b64'', ''ratchet_tree_b64'', ''control_b64'', ''welcomes''])))"

definition apply_mls_group_op :: "dict \<Rightarrow> unit ga" where
  "apply_mls_group_op d =
     (let op = str_or_empty d ''operation_id''
      in sbind (slift (int_or_0 d ''conversation_id'')) (\<lambda>conv g.
           if op = [] \<or> conv \<le> 0 then (Inr (), g)
           else case apply_payload d op conv (a_session (g_app g)) of Inl e \<Rightarrow> (Inl e, g) | Inr payload \<Rightarrow> send_cmd payload g))"

definition group_control :: "crypto \<Rightarrow> string \<Rightarrow> int \<Rightarrow> int \<Rightarrow> dict \<Rightarrow> intent \<Rightarrow> crypto_session \<Rightarrow> dict" where
  "group_control C operation conv target msg i s =
     [(''operation'', JStr operation), (''conversation_id'', JInt conv), (''target_user_id'', JInt target),
      (''role'', JStr (if i_role i \<noteq> [] then i_role i else str_or_empty msg ''role'')), (''name'', JStr (i_name i)),
      (''description'', JStr (i_description i)), (''actor_uid'', JInt (uid s)), (''ts'', JInt (clock_ms C (tick s)))]"

text \<open>The body of the \<open>try\<close> of \<open>_handle_group_change_prepared\<close>.\<close>

definition run_prepared :: "crypto \<Rightarrow> string \<Rightarrow> string \<Rightarrow> int \<Rightarrow> int \<Rightarrow> dict \<Rightarrow> group_op \<Rightarrow> unit ga" where
  "run_prepared C op operation conv target msg x =
     (let i = x_intent x
      in if operation = ''create_group''
         then sbind (in_app (in_session (create_mls_group C conv))) (\<lambda>created.
              let gid = py_or (dget created ''group_id_b64'' (dget (x_dict x) ''group_id_b64'' JNull)) (dget (x_dict x) ''group_id_b64'' JNull);
                  targets = filter (\<lambda>u. 0 < u) (i_members i);
                  x1 = x\<lparr> x_dict := dset (x_dict x) ''group_id_b64'' (JStr (py_str gid)), x_targets := targets \<rparr>
              in sbind (smod (store_op op x1)) (\<lambda>_.
                 if targets = [] then apply_mls_group_op (x_dict x1) else sfold (\<lambda>u _. queue_mls_claim op u) targets ()))
         else if operation = ''add_member''
         then let t = (if target \<noteq> 0 then target else i_target i)
              in sbind (smod (store_op op (x\<lparr> x_targets := (if 0 < t then [t] else []) \<rparr>))) (\<lambda>_.
                 if 0 < t then queue_mls_claim op t else sret ())
         else if operation = ''remove_member'' \<or> operation = ''leave_group''
         then sbind (sget (\<lambda>g. uid (a_session (g_app g)))) (\<lambda>me.
              let t = (if target \<noteq> 0 then target else if i_target i \<noteq> 0 then i_target i else me)
              in sbind (in_app (in_session (remove_mls_members C conv [t]))) (\<lambda>result.
                 let x1 = x\<lparr> x_dict := dupdate (x_dict x) result \<rparr>
                 in sbind (smod (store_op op x1)) (\<lambda>_. apply_mls_group_op (x_dict x1))))
         else if operation = ''set_member_role'' \<or> operation = ''update_group_info''
         then sbind (sget (\<lambda>g. group_control C operation conv target msg i (a_session (g_app g)))) (\<lambda>control.
              sbind (in_app (in_session (mls_control_message_b64 C conv control))) (\<lambda>token.
              let x1 = x\<lparr> x_dict := dset (x_dict x) ''control_b64'' (JStr token) \<rparr>
              in sbind (smod (store_op op x1)) (\<lambda>_. apply_mls_group_op (x_dict x1))))
         else sret ())"

definition handle_group_change_prepared :: "crypto \<Rightarrow> dict \<Rightarrow> unit ga" where
  "handle_group_change_prepared C msg =
     (let op = str_or_empty msg ''operation_id''; operation = str_or_empty msg ''operation''
      in sbind (slift (int_or_0 msg ''conversation_id'')) (\<lambda>conv.
         sbind (slift (int_or_0 msg ''target_user_id'')) (\<lambda>target.
           if op = [] \<or> operation = [] \<or> conv \<le> 0 then sret ()
           else sbind (pop_pending_mls_prepare operation conv target) (\<lambda>i.
             let x = \<lparr> x_dict = [(''operation_id'', JStr op), (''operation'', JStr operation), (''conversation_id'', JInt conv),
                        (''target_user_id'', JInt target), (''group_id_b64'', JStr (mls_group_id_b64 conv))],
                      x_intent = i, x_targets = [], x_claimed = [] \<rparr>
             in sbind (smod (store_op op x)) (\<lambda>_.
                scatch (run_prepared C op operation conv target msg x) (\<lambda>e.
                  sbind (smod (drop_op op)) (\<lambda>_. warn_group conv [''MLS group operation failed before apply: '' @ exc_msg e])))))))"

subsection \<open>Key packages of new members\<close>

definition welcomes_for :: "int list \<Rightarrow> string \<Rightarrow> json" where
  "welcomes_for targets welcome = JArr (map (\<lambda>u. JObj [(''target_user_id'', JInt u), (''welcome_b64'', JStr welcome)]) targets)"

definition with_welcomes :: "int list \<Rightarrow> dict \<Rightarrow> dict \<Rightarrow> dict" where
  "with_welcomes targets result d =
     (let welcome = str_or_empty result ''welcome_b64'' in if welcome \<noteq> [] then dset d ''welcomes'' (welcomes_for targets welcome) else d)"

definition finalize_mls_claimed_op :: "crypto \<Rightarrow> string \<Rightarrow> group_op \<Rightarrow> unit ga" where
  "finalize_mls_claimed_op C op x =
     (let targets = filter (\<lambda>u. 0 < u) (x_targets x)
      in if \<exists>u \<in> set targets. \<not> dhas (x_claimed x) u then sret ()
         else sbind (slift (int_or_0 (x_dict x) ''conversation_id'')) (\<lambda>conv.
           scatch (sbind (in_app (in_session (add_mls_members C conv (map (\<lambda>u. dget (x_claimed x) u []) targets)))) (\<lambda>result.
                   let d = with_welcomes targets result (dupdate (x_dict x) result)
                   in sbind (smod (store_op op (x\<lparr> x_dict := d \<rparr>))) (\<lambda>_. apply_mls_group_op d)))
             (\<lambda>e. sbind (smod (drop_op op)) (\<lambda>_. warn_group conv [''MLS add-member failed: '' @ exc_msg e]))))"

definition handle_mls_key_package :: "crypto \<Rightarrow> dict \<Rightarrow> unit ga" where
  "handle_mls_key_package C msg =
     sbind (slift (int_or_0 msg ''user_id'')) (\<lambda>u g.
       case dget (g_claims g) u [] of
         [] \<Rightarrow> (Inr (), g)
       | op # ops \<Rightarrow>
           let g1 = g\<lparr> g_claims := (if ops = [] then dpop (g_claims g) u else dset (g_claims g) u ops) \<rparr>
           in case map_of (g_ops g1) op of
                None \<Rightarrow> (Inr (), g1)
              | Some x \<Rightarrow>
                  if \<not> truthy (dget msg ''found'' JNull)
                  then sbind (smod (drop_op op)) (\<lambda>_.
                       sbind (slift (int_or_0 (x_dict x) ''conversation_id'')) (\<lambda>conv.
                       warn_group conv [''User '' @ show_int u @ '' has no available MLS KeyPackage. Ask them to log in once.''])) g1
                  else let x1 = x\<lparr> x_claimed := dset (x_claimed x) u (str_or_empty msg ''key_package_b64'') \<rparr>
                       in finalize_mls_claimed_op C op x1 (store_op op x1 g1))"

definition handle_group_change_applied :: "dict \<Rightarrow> unit ga" where
  "handle_group_change_applied msg g =
     (let op = str_or_empty msg ''operation_id'';
          known = (case map_of (g_ops g) op of Some x \<Rightarrow> if op = [] then [] else x_dict x | None \<Rightarrow> []);
          g1 = (if op = [] then g else drop_op op g)
      in sbind (slift (py_int (py_or (dget msg ''conversation_id'' (dget known ''conversation_id'' (JInt 0))) (JInt 0)))) (\<lambda>conv.
         sbind (if 0 < conv
                then sbind (in_app (in_session (smod (\<lambda>s. s\<lparr> group_conv_ids := insert conv (group_conv_ids s) \<rparr>)))) (\<lambda>_.
                     sbind (send_cmd [(''type'', JStr ''get_mls_handshake''), (''conversation_id'', JInt conv)]) (\<lambda>_.
                     send_cmd [(''type'', JStr ''get_group_info''), (''group_id'', JInt conv)]))
                else sret ()) (\<lambda>_.
         send_cmd [(''type'', JStr ''get_inbox'')])) g1)"
subsection \<open>Key packages may come in any order\<close>

definition package_of :: "int \<Rightarrow> string \<Rightarrow> dict" where
  "package_of u kp = [(''user_id'', JInt u), (''found'', JBool True), (''key_package_b64'', JStr kp)]"

text \<open>An operation that waits for the key package of each of its targets, and for nothing else.\<close>

definition claiming :: "string \<Rightarrow> int \<Rightarrow> int list \<Rightarrow> gapp \<Rightarrow> group_op \<Rightarrow> bool" where
  "claiming op conv ts g x = (map_of (g_ops g) op = Some x \<and> x_targets x = ts \<and> (\<forall>u \<in> set ts. 0 < u) \<and> op \<noteq> [] \<and> 0 < conv
     \<and> dget (x_dict x) ''operation_id'' JNull = JStr op \<and> dget (x_dict x) ''conversation_id'' JNull = JInt conv \<and> \<not> dhas (x_dict x) ''epoch'')"

text \<open>What the answers of the OpenMLS process leave alone.\<close>

definition plain_answer :: "dict \<Rightarrow> bool" where
  "plain_answer result = (distinct (map fst result) \<and> \<not> dhas result ''operation_id'' \<and> \<not> dhas result ''conversation_id'' \<and> \<not> dhas result ''welcomes'')"

lemma dget_default: "dget d k JNull = v \<Longrightarrow> v \<noteq> JNull \<Longrightarrow> dget d k w = v"
  by (auto simp: dget_def split: option.splits)

lemma claiming_fields:
  assumes "claiming op conv ts g x"
  shows "str_or_empty (x_dict x) ''operation_id'' = op" and "int_or_0 (x_dict x) ''conversation_id'' = Inr conv"
  using assms dget_default [of "x_dict x" "''operation_id''" "JStr op"] dget_default [of "x_dict x" "''conversation_id''" "JInt conv"]
  by (simp_all add: claiming_def str_or_empty_def int_or_0_def py_or_def truthy_def py_str_def py_int_def)

lemma package_run:
  assumes "map_of (g_ops g) op = Some x" and "dget (g_claims g) u [] = [op]" and "0 < u"
  shows "handle_mls_key_package C (package_of u kp) g =
    (let x1 = x\<lparr> x_claimed := dset (x_claimed x) u kp \<rparr>
     in finalize_mls_claimed_op C op x1 (store_op op x1 (g\<lparr> g_claims := dpop (g_claims g) u \<rparr>)))"
proof -
  have "int_or_0 (package_of u kp) ''user_id'' = Inr u" "truthy (dget (package_of u kp) ''found'' JNull)" "str_or_empty (package_of u kp) ''key_package_b64'' = kp"
    using assms(3) by (simp_all add: package_of_def int_or_0_def str_or_empty_def dget_def py_or_def truthy_def py_int_def py_str_def)
  then show ?thesis using assms(1,2) by (simp add: handle_mls_key_package_def Let_def)
qed

lemma finalize_waits:
  assumes "u \<in> set (x_targets x)" and "0 < u" and "\<not> dhas (x_claimed x) u"
  shows "finalize_mls_claimed_op C op x g = (Inr (), g)"
  using assms by (auto simp: finalize_mls_claimed_op_def sret_def Let_def)

lemma int_default:
  assumes "int_or_0 d k = Inr e"
  shows "\<exists>e'. py_int (py_or (dget d k (JInt n)) (JInt 0)) = Inr e'"
proof (cases "map_of d k")
  case None
  then have "dget d k (JInt n) = JInt n" by (simp add: dget_def)
  then show ?thesis by (simp add: py_or_def truthy_def py_int_def)
next
  case (Some v)
  then have "dget d k (JInt n) = dget d k (JInt 0)" by (simp add: dget_def)
  then show ?thesis using assms by (simp add: int_or_0_def)
qed

text \<open>The command sent when the last key package has come.\<close>

lemma apply_sends:
  assumes "claiming op conv ts g0 x" and "plain_answer result" and "int_or_0 result ''epoch'' = Inr e" and "online (g_app g)"
    and "str_or_empty result ''welcome_b64'' = w" and "w \<noteq> []" and "ts \<noteq> []"
  shows "\<exists>payload. apply_mls_group_op (with_welcomes ts result (dupdate (x_dict x) result)) g
      = (Inr (), g\<lparr> g_app := (g_app g)\<lparr> a_sent := a_sent (g_app g) @ [payload] \<rparr> \<rparr>)
    \<and> dget payload ''type'' JNull = JStr ''apply_group_change'' \<and> dget payload ''operation_id'' JNull = JStr op
    \<and> dget payload ''conversation_id'' JNull = JInt conv \<and> dget payload ''welcomes'' JNull = welcomes_for ts w"
proof -
  let ?s = "a_session (g_app g)"
  define d where "d = with_welcomes ts result (dupdate (x_dict x) result)"
  have keep: "dget d k v = dget (x_dict x) k v" if "\<not> dhas result k" "k \<noteq> ''welcomes''" for k v
    using that assms(5,6) by (simp add: d_def with_welcomes_def dhas_def map_of_eq_None_iff dget_dupdate)
  have ids: "str_or_empty d ''operation_id'' = op" "int_or_0 d ''conversation_id'' = Inr conv"
    using claiming_fields [OF assms(1)] assms(2) by (simp_all add: plain_answer_def str_or_empty_def int_or_0_def keep)
  have wel: "dget d ''welcomes'' JNull = welcomes_for ts w" using assms(5,6) by (simp add: d_def with_welcomes_def)
  have "dget d ''epoch'' (JInt n) = dget result ''epoch'' (JInt n)" for n
    using assms(1,2) map_of_dupdate_distinct [of result "x_dict x"]
    by (auto simp: d_def with_welcomes_def Let_def dget_def plain_answer_def claiming_def dhas_def update_conv' map_add_def split: option.splits)
  then have "\<exists>e'. py_int (py_or (dget d ''epoch'' (JInt n)) (JInt 0)) = Inr e'" for n
    using int_default [OF assms(3)] by simp
  then obtain e' where e': "py_int (py_or (dget d ''epoch'' (JInt (dget (group_epochs ?s) conv 0))) (JInt 0)) = Inr e'" by blast
  have t: "truthy (welcomes_for ts w)" using assms(7) by (simp add: welcomes_for_def truthy_def)
  obtain payload where p: "apply_payload d op conv ?s = Inr payload" "dget payload ''type'' JNull = JStr ''apply_group_change''"
      "dget payload ''operation_id'' JNull = JStr op" "dget payload ''conversation_id'' JNull = JInt conv" "dget payload ''welcomes'' JNull = welcomes_for ts w"
    using e' wel t by (simp add: apply_payload_def dget_def)
  have "apply_mls_group_op d g = (Inr (), g\<lparr> g_app := (g_app g)\<lparr> a_sent := a_sent (g_app g) @ [payload] \<rparr> \<rparr>)"
    using assms(1,4) ids p(1) by (simp add: apply_mls_group_op_def claiming_def send_cmd_def in_app_def safe_send_def online_def sbind_def sret_def)
  then show ?thesis using p(2-5) by (auto simp: d_def)
qed
lemma finalize_applies:
  assumes "claiming op conv ts g0 x" and "\<forall>u \<in> set ts. map_of (x_claimed x) u = Some (kp u)" and "online (g_app g)" and "ts \<noteq> []"
    and "add_mls_members C conv (map kp ts) (a_session (g_app g)) = (Inr result, s')" and "plain_answer result"
    and "int_or_0 result ''epoch'' = Inr e" and "str_or_empty result ''welcome_b64'' = w" and "w \<noteq> []"
  shows "\<exists>payload g'. finalize_mls_claimed_op C op x g = (Inr (), g') \<and> a_sent (g_app g') = a_sent (g_app g) @ [payload] \<and> a_session (g_app g') = s'
    \<and> dget payload ''type'' JNull = JStr ''apply_group_change'' \<and> dget payload ''operation_id'' JNull = JStr op
    \<and> dget payload ''conversation_id'' JNull = JInt conv \<and> dget payload ''welcomes'' JNull = welcomes_for ts w"
proof -
  have t: "filter (\<lambda>u. 0 < u) (x_targets x) = ts" using assms(1) by (auto simp: claiming_def)
  have kps: "map (\<lambda>u. dget (x_claimed x) u []) ts = map kp ts" using assms(2) by (simp add: dget_def)
  have all: "\<not> (\<exists>u \<in> set ts. \<not> dhas (x_claimed x) u)" using assms(2) by (simp add: dhas_def)
  let ?d = "with_welcomes ts result (dupdate (x_dict x) result)"
  let ?g = "store_op op (x\<lparr> x_dict := ?d \<rparr>) (g\<lparr> g_app := (g_app g)\<lparr> a_session := s' \<rparr> \<rparr>)"
  have on: "online (g_app ?g)" using assms(3) by (simp add: online_def store_op_def)
  obtain payload where p: "apply_mls_group_op ?d ?g = (Inr (), ?g\<lparr> g_app := (g_app ?g)\<lparr> a_sent := a_sent (g_app ?g) @ [payload] \<rparr> \<rparr>)"
    "dget payload ''type'' JNull = JStr ''apply_group_change''" "dget payload ''operation_id'' JNull = JStr op"
    "dget payload ''conversation_id'' JNull = JInt conv" "dget payload ''welcomes'' JNull = welcomes_for ts w"
    using apply_sends [OF assms(1,6,7) on assms(8,9,4)] by blast
  have "finalize_mls_claimed_op C op x g = (Inr (), ?g\<lparr> g_app := (g_app ?g)\<lparr> a_sent := a_sent (g_app ?g) @ [payload] \<rparr> \<rparr>)"
    using claiming_fields(2) [OF assms(1)] all p(1) assms(5)
    by (simp add: finalize_mls_claimed_op_def t kps sbind_def scatch_def slift_def smod_def in_app_def in_session_def Let_def)
  then show ?thesis using p(2-5) by (simp add: store_op_def)
qed

text \<open>The operation while some packages are there (\<open>D\<close>) and the others are claimed.\<close>

definition claimed_so_far :: "string \<Rightarrow> int \<Rightarrow> int list \<Rightarrow> (int \<Rightarrow> string) \<Rightarrow> int set \<Rightarrow> gapp \<Rightarrow> bool" where
  "claimed_so_far op conv ts kp D g = (\<exists>x. claiming op conv ts g x \<and> (\<forall>u. map_of (x_claimed x) u = (if u \<in> D then Some (kp u) else None))
     \<and> (\<forall>u \<in> set ts - D. dget (g_claims g) u [] = [op]))"

lemma next_package:
  assumes "claimed_so_far op conv ts kp D g" and "u \<in> set ts" and "u \<notin> D"
  shows "\<exists>x g1. handle_mls_key_package C (package_of u (kp u)) g = finalize_mls_claimed_op C op x g1 \<and> g_app g1 = g_app g
    \<and> claimed_so_far op conv ts kp (insert u D) g1 \<and> claiming op conv ts g1 x \<and> (\<forall>v. map_of (x_claimed x) v = (if v \<in> insert u D then Some (kp v) else None))"
proof -
  obtain x where x: "claiming op conv ts g x" "\<forall>u. map_of (x_claimed x) u = (if u \<in> D then Some (kp u) else None)"
    "\<forall>u \<in> set ts - D. dget (g_claims g) u [] = [op]" using assms(1) by (auto simp: claimed_so_far_def)
  let ?x = "x\<lparr> x_claimed := dset (x_claimed x) u (kp u) \<rparr>" let ?g = "store_op op ?x (g\<lparr> g_claims := dpop (g_claims g) u \<rparr>)"
  have u: "map_of (g_ops g) op = Some x" "0 < u" "dget (g_claims g) u [] = [op]" using x(1,3) assms(2,3) by (auto simp: claiming_def)
  have cx: "claiming op conv ts ?g ?x" using x(1) by (simp add: claiming_def store_op_def update_conv')
  moreover have cl: "\<forall>v. map_of (x_claimed ?x) v = (if v \<in> insert u D then Some (kp v) else None)" using x(2) by (simp add: update_conv')
  moreover have "\<forall>v \<in> set ts - insert u D. dget (g_claims ?g) v [] = [op]"
    using x(3) by (simp add: store_op_def) (simp add: dget_def delete_conv')
  ultimately have "claimed_so_far op conv ts kp (insert u D) ?g" unfolding claimed_so_far_def by blast
  then show ?thesis using package_run [OF u(1,3,2), of C "kp u"] cx cl by (intro exI [of _ ?x] exI [of _ ?g]) (simp add: Let_def store_op_def)
qed

lemma packages_run:
  assumes "claimed_so_far op conv ts kp D g" and "distinct us" and "set us = set ts - D" and "us \<noteq> []" and "online (g_app g)"
    and add: "add_mls_members C conv (map kp ts) (a_session (g_app g)) = (Inr result, s')" "plain_answer result"
      "int_or_0 result ''epoch'' = Inr e" "str_or_empty result ''welcome_b64'' = w" "w \<noteq> []"
  shows "\<exists>payload g'. sfold (\<lambda>u _. handle_mls_key_package C (package_of u (kp u))) us () g = (Inr (), g')
    \<and> a_sent (g_app g') = a_sent (g_app g) @ [payload] \<and> a_session (g_app g') = s'
    \<and> dget payload ''type'' JNull = JStr ''apply_group_change'' \<and> dget payload ''operation_id'' JNull = JStr op
    \<and> dget payload ''conversation_id'' JNull = JInt conv \<and> dget payload ''welcomes'' JNull = welcomes_for ts w"
  using assms(1-6)
proof (induction us arbitrary: g D)
  case (Cons u us)
  have u: "u \<in> set ts" "u \<notin> D" using Cons.prems(3) by auto
  obtain x g1 where g1: "handle_mls_key_package C (package_of u (kp u)) g = finalize_mls_claimed_op C op x g1" "g_app g1 = g_app g"
    "claimed_so_far op conv ts kp (insert u D) g1" "claiming op conv ts g1 x" "\<forall>v. map_of (x_claimed x) v = (if v \<in> insert u D then Some (kp v) else None)"
    using next_package [OF Cons.prems(1) u] by blast
  show ?case
  proof (cases "us = []")
    case True
    then have "\<forall>v \<in> set ts. map_of (x_claimed x) v = Some (kp v)" using g1(5) Cons.prems(3) by auto
    moreover have "ts \<noteq> []" using u(1) by auto
    ultimately show ?thesis using finalize_applies [OF g1(4) _ _ _ _ add(2-5), of kp g1 C s'] Cons.prems(5,6) g1(1,2) True
      by (auto simp: sbind_def sret_def)
  next
    case False
    have rest: "set us = set ts - insert u D" using Cons.prems(2,3) by auto
    obtain v where "v \<in> set us" using False by (cases us) auto
    then have v: "v \<in> set ts" "v \<notin> insert u D" using rest by auto
    have "\<not> dhas (x_claimed x) v" using g1(5) v(2) by (simp add: dhas_def)
    moreover have "v \<in> set (x_targets x)" "0 < v" using g1(4) v(1) by (auto simp: claiming_def)
    ultimately have "finalize_mls_claimed_op C op x g1 = (Inr (), g1)" by (rule finalize_waits [rotated 2])
    then show ?thesis using Cons.IH [OF g1(3) _ rest False] Cons.prems(2,5,6) g1(1,2) by (simp add: sbind_def)
  qed
qed simp
text \<open>
  C23: (liveness) A group operation that waits for key packages is completed whatever order they come in: once the package of
  every target has come, the commit is made from the packages in the order of the targets, exactly one command asks the
  server to apply the operation, and it carries the welcome for each target.
\<close>

theorem key_packages_in_any_order:
  assumes "claiming op conv ts g x" and "x_claimed x = []" and "\<forall>u \<in> set ts. dget (g_claims g) u [] = [op]"
    and "distinct us" and "set us = set ts" and "us \<noteq> []" and "online (g_app g)"
    and "add_mls_members C conv (map kp ts) (a_session (g_app g)) = (Inr result, s')" and "plain_answer result"
    and "int_or_0 result ''epoch'' = Inr e" and "str_or_empty result ''welcome_b64'' = w" and "w \<noteq> []"
  shows "\<exists>payload g'. sfold (\<lambda>u _. handle_mls_key_package C (package_of u (kp u))) us () g = (Inr (), g')
    \<and> a_sent (g_app g') = a_sent (g_app g) @ [payload] \<and> a_session (g_app g') = s'
    \<and> dget payload ''type'' JNull = JStr ''apply_group_change'' \<and> dget payload ''operation_id'' JNull = JStr op
    \<and> dget payload ''conversation_id'' JNull = JInt conv \<and> dget payload ''welcomes'' JNull = welcomes_for ts w"
proof (rule packages_run [where D = "{}", OF _ assms(4) _ assms(6-12)])
  show "claimed_so_far op conv ts kp {} g" using assms(1-3) by (auto simp: claimed_so_far_def)
qed (use assms(5) in simp)

subsection \<open>Operations nobody asked for\<close>

definition prepared_add :: "string \<Rightarrow> int \<Rightarrow> int \<Rightarrow> dict" where
  "prepared_add op conv u = [(''operation_id'', JStr op), (''operation'', JStr ''add_member''), (''conversation_id'', JInt conv), (''target_user_id'', JInt u)]"

lemma prepared_add_run:
  assumes "op \<noteq> []" and "0 < conv" and "0 < u" and "online (g_app g)" and "find (intent_matches ''add_member'' conv u) (g_prepare g) = None"
    and "dget (g_claims g) u [] = []"
  shows "\<exists>g1 x. handle_group_change_prepared C (prepared_add op conv u) g = (Inr (), g1) \<and> claiming op conv [u] g1 x \<and> x_claimed x = []
    \<and> dget (g_claims g1) u [] = [op]
    \<and> g_app g1 = (g_app g)\<lparr> a_sent := a_sent (g_app g) @ [[(''type'', JStr ''claim_mls_key_package''), (''user_id'', JInt u)]] \<rparr>"
proof -
  define i where "i = blank_intent\<lparr> i_operation := ''add_member'', i_conv := conv, i_target := u \<rparr>"
  define x where "x = \<lparr> x_dict = [(''operation_id'', JStr op), (''operation'', JStr ''add_member''), (''conversation_id'', JInt conv),
      (''target_user_id'', JInt u), (''group_id_b64'', JStr (mls_group_id_b64 conv))], x_intent = i, x_targets = [u], x_claimed = [] \<rparr>"
  let ?a = "(g_app g)\<lparr> a_sent := a_sent (g_app g) @ [[(''type'', JStr ''claim_mls_key_package''), (''user_id'', JInt u)]] \<rparr>"
  let ?g1 = "g\<lparr> g_ops := dset (dset (g_ops g) op (x\<lparr> x_targets := [] \<rparr>)) op x, g_claims := dset (g_claims g) u [op], g_app := ?a \<rparr>"
  have f: "str_or_empty (prepared_add op conv u) ''operation_id'' = op" "str_or_empty (prepared_add op conv u) ''operation'' = ''add_member''"
    "int_or_0 (prepared_add op conv u) ''conversation_id'' = Inr conv" "int_or_0 (prepared_add op conv u) ''target_user_id'' = Inr u"
    using assms(1-3) by (simp_all add: prepared_add_def str_or_empty_def int_or_0_def dget_def py_or_def truthy_def py_str_def py_int_def)
  have "handle_group_change_prepared C (prepared_add op conv u) g = (Inr (), ?g1)"
    using assms by (simp add: handle_group_change_prepared_def f pop_pending_mls_prepare_def run_prepared_def queue_mls_claim_def send_cmd_def in_app_def
        safe_send_def online_def store_op_def sbind_def scatch_def smod_def sret_def slift_def Let_def x_def i_def)
  moreover have "claiming op conv [u] ?g1 x" using assms(1-3) by (simp add: claiming_def x_def dget_def dhas_def update_conv')
  ultimately show ?thesis by (intro exI [of _ ?g1] exI [of _ x]) (simp add: x_def)
qed

text \<open>
  C22: (safety) The server can add a member to a group without anybody having asked for it. When the client has no intent to add
  a member, a \<open>group_change_prepared\<close> event that names a user, followed by a key package for the user, makes the client commit
  the addition and hand the server the welcome for the user: with the welcome the new member can read the group's messages.
\<close>

theorem server_adds_member_unasked:
  assumes "g_prepare g = []" and "op \<noteq> []" and "0 < conv" and "0 < u" and "online (g_app g)" and "dget (g_claims g) u [] = []"
    and "add_mls_members C conv [kp] (a_session (g_app g)) = (Inr result, s')" and "plain_answer result"
    and "int_or_0 result ''epoch'' = Inr e" and "str_or_empty result ''welcome_b64'' = w" and "w \<noteq> []"
  shows "\<exists>g1 g2 claim payload. handle_group_change_prepared C (prepared_add op conv u) g = (Inr (), g1)
    \<and> handle_mls_key_package C (package_of u kp) g1 = (Inr (), g2) \<and> a_sent (g_app g2) = a_sent (g_app g) @ [claim, payload]
    \<and> dget payload ''type'' JNull = JStr ''apply_group_change'' \<and> dget payload ''welcomes'' JNull = welcomes_for [u] w"
proof -
  have none: "find (intent_matches ''add_member'' conv u) (g_prepare g) = None" using assms(1) by simp
  obtain g1 x where g1: "handle_group_change_prepared C (prepared_add op conv u) g = (Inr (), g1)" "claiming op conv [u] g1 x" "x_claimed x = []"
    "dget (g_claims g1) u [] = [op]" "g_app g1 = (g_app g)\<lparr> a_sent := a_sent (g_app g) @ [[(''type'', JStr ''claim_mls_key_package''), (''user_id'', JInt u)]] \<rparr>"
    using prepared_add_run [OF assms(2-5) none assms(6), of C] by blast
  have so_far: "claimed_so_far op conv [u] (\<lambda>_. kp) {} g1" using g1(2-4) by (auto simp: claimed_so_far_def)
  have "online (g_app g1)" "add_mls_members C conv (map (\<lambda>_. kp) [u]) (a_session (g_app g1)) = (Inr result, s')"
    using assms(5,7) g1(5) by (simp_all add: online_def)
  from packages_run [OF so_far _ _ _ this assms(8-11), of "[u]"] show ?thesis
    using g1(1,5) by (fastforce simp: sbind_def sret_def split: prod.splits sum.splits)
qed
subsection \<open>Examples\<close>

text \<open>A bridge that answers every command with a welcome.\<close>

definition welcoming :: crypto where
  "welcoming = toy_crypto\<lparr> mls_serve := (\<lambda>_. dumps_compact (JObj [(''ok'', JBool True), (''epoch'', JInt 1), (''welcome_b64'', JStr ''dw'')])) \<rparr>"

definition quiet_group :: gapp where
  "quiet_group = \<lparr> g_app = demo_app\<lparr> a_session := demo_session\<lparr> master_key := [], mls_identity_ready := True \<rparr> \<rparr>, g_prepare = [], g_ops = [], g_claims = [],
     g_members = [], g_expected = {}, g_manual = {}, g_created = [], g_friends = [] \<rparr>"

definition waiting_op :: group_op where
  "waiting_op = \<lparr> x_dict = [(''operation_id'', JStr ''op''), (''conversation_id'', JInt 5)], x_intent = blank_intent, x_targets = [2, 3], x_claimed = [] \<rparr>"

definition waiting_group :: gapp where
  "waiting_group = quiet_group\<lparr> g_ops := [(''op'', waiting_op)], g_claims := [(2, [''op'']), (3, [''op''])] \<rparr>"

abbreviation welcome_answer :: dict where
  "welcome_answer \<equiv> [(''ok'', JBool True), (''epoch'', JInt 1), (''welcome_b64'', JStr ''dw'')]"

lemma welcome_answer_ok: "plain_answer welcome_answer" "int_or_0 welcome_answer ''epoch'' = Inr 1" "str_or_empty welcome_answer ''welcome_b64'' = ''dw''"
  by code_simp+

lemma quiet_online: "online (g_app quiet_group)" "online (g_app waiting_group)" "a_session (g_app waiting_group) = a_session (g_app quiet_group)"
  by (simp_all add: quiet_group_def waiting_group_def demo_app_def online_def)

lemma welcoming_adds: "fst (add_mls_members welcoming 5 [''k''] (a_session (g_app quiet_group))) = Inr welcome_answer"
  "fst (add_mls_members welcoming 5 [''k'', ''k''] (a_session (g_app quiet_group))) = Inr welcome_answer"
  by code_simp+

theorem key_packages_in_any_order_witness:
  "\<exists>payload g'. sfold (\<lambda>u _. handle_mls_key_package welcoming (package_of u ''k'')) [3, 2] () waiting_group = (Inr (), g')
     \<and> a_sent (g_app g') = [payload] \<and> dget payload ''welcomes'' JNull = welcomes_for [2, 3] ''dw''"
proof -
  obtain s' where s': "add_mls_members welcoming 5 (map (\<lambda>_. ''k'') [2, 3 :: int]) (a_session (g_app waiting_group)) = (Inr welcome_answer, s')"
    using welcoming_adds(2) quiet_online(3) by (cases "add_mls_members welcoming 5 [''k'', ''k''] (a_session (g_app quiet_group))") simp
  have x: "claiming ''op'' 5 [2, 3] waiting_group waiting_op" "x_claimed waiting_op = []" "\<forall>u \<in> set [2, 3]. dget (g_claims waiting_group) u [] = [''op'']"
    by code_simp+
  have "a_sent (g_app waiting_group) = []" by (simp add: waiting_group_def quiet_group_def demo_app_def)
  with key_packages_in_any_order [OF x _ _ _ quiet_online(2) s' welcome_answer_ok, of "[3, 2]"] show ?thesis by auto
qed

theorem server_adds_member_unasked_witness:
  "\<exists>g1 g2 claim payload. handle_group_change_prepared welcoming (prepared_add ''op'' 5 2) quiet_group = (Inr (), g1)
     \<and> handle_mls_key_package welcoming (package_of 2 ''k'') g1 = (Inr (), g2) \<and> a_sent (g_app g2) = [claim, payload]
     \<and> dget payload ''welcomes'' JNull = welcomes_for [2] ''dw''"
proof -
  obtain s' where s': "add_mls_members welcoming 5 [''k''] (a_session (g_app quiet_group)) = (Inr welcome_answer, s')"
    using welcoming_adds(1) by (cases "add_mls_members welcoming 5 [''k''] (a_session (g_app quiet_group))") simp
  have g: "g_prepare quiet_group = []" "dget (g_claims quiet_group) 2 [] = []" "a_sent (g_app quiet_group) = []"
    by (simp_all add: quiet_group_def demo_app_def dget_def)
  from server_adds_member_unasked [OF g(1) _ _ _ quiet_online(1) g(2) s' welcome_answer_ok, of "''op''"] g(3) show ?thesis by auto
qed

end
