(* ===== verification/App_Members.thy ===== *)
theory App_Members
  imports App_Groups
begin

text \<open>
  What the controller knows of the members of a group (\<open>client/app.py\<close>): the normal form of a member list, names to show,
  the system events of a group, the handlers of membership events, and the history of a conversation.
\<close>

subsection \<open>Member lists\<close>

definition first_text :: "dict \<Rightarrow> string list \<Rightarrow> string" where
  "first_text d ks = py_str (py_or (fold (\<lambda>k j. py_or j (dget d k (JStr []))) ks (JStr [])) (JStr []))"

text \<open>User, role and name an entry stands for.\<close>

definition member_entry :: "json \<Rightarrow> (int \<times> string \<times> string) res" where
  "member_entry m = (case m of
       JObj d \<Rightarrow> rbind (py_int (py_or (dget d ''user_id'' (dget d ''id'' (JInt 0))) (JInt 0))) (\<lambda>u.
         Inr (u, py_str (py_or (dget d ''role'' (JStr ''member'')) (JStr ''member'')), first_text d [''username'', ''name'', ''display_name'']))
     | v \<Rightarrow> rbind (py_int (py_or v (JInt 0))) (\<lambda>u. Inr (u, ''member'', [])))"

fun collect_members :: "json list \<Rightarrow> (int \<times> string) list \<Rightarrow> (int \<times> string) list \<Rightarrow> ((int \<times> string) list \<times> (int \<times> string) list) res" where
  "collect_members [] out names = Inr (out, names)"
| "collect_members (m # ms) out names = rbind (member_entry m) (\<lambda>(u, role0, name).
     if u \<le> 0 then collect_members ms out names
     else let role = (if role0 \<in> {''admin'', ''member''} then role0 else ''member'')
          in collect_members ms (dset out u (if map_of out u = Some ''admin'' \<or> role = ''admin'' then ''admin'' else role))
               (if name \<noteq> [] \<and> \<not> dhas names u then dset names u name else names))"

definition member_record :: "(int \<times> string) list \<Rightarrow> (int \<times> string) list \<Rightarrow> int \<Rightarrow> dict" where
  "member_record out names u = [(''user_id'', JInt u), (''role'', JStr (dget out u []))]
     @ (if dget names u [] \<noteq> [] then [(''username'', JStr (dget names u []))] else [])"

definition normalize_members :: "json list \<Rightarrow> dict list res" where
  "normalize_members ms = rbind (collect_members ms [] []) (\<lambda>(out, names).
     Inr (map (member_record out names) (sorted_list_of_set (fst ` set out))))"

definition user_of :: "dict \<Rightarrow> json" where
  "user_of m = dget m ''user_id'' JNull"

definition role_for_member :: "json list \<Rightarrow> int \<Rightarrow> string res" where
  "role_for_member ms u = rbind (normalize_members ms) (\<lambda>ds.
     Inr (case find (\<lambda>d. user_of d = JInt u) ds of None \<Rightarrow> [] | Some d \<Rightarrow> py_str (py_or (dget d ''role'' (JStr ''member'')) (JStr ''member''))))"

fun rename_member :: "int \<Rightarrow> string \<Rightarrow> dict list \<Rightarrow> dict list" where
  "rename_member u name [] = []"
| "rename_member u name (d # ds) = (if user_of d = JInt u then dset d ''username'' (JStr name) # ds else d # rename_member u name ds)"

definition cached_member :: "int \<Rightarrow> int \<Rightarrow> gapp \<Rightarrow> dict" where
  "cached_member gid u g = (case find (\<lambda>d. user_of d = JInt u) (dget (g_members g) gid []) of None \<Rightarrow> [] | Some d \<Rightarrow> d)"

text \<open>An id of \<open>member_ids\<close> with what is known of the member; what is no id is skipped.\<close>

definition known_member :: "int \<Rightarrow> gapp \<Rightarrow> json \<Rightarrow> json list" where
  "known_member gid g v = (case py_int v of
       Inl _ \<Rightarrow> []
     | Inr u \<Rightarrow> if u \<le> 0 then []
         else let m = cached_member gid u g
              in [JObj ([(''user_id'', JInt u), (''role'', JStr (py_str (py_or (dget m ''role'' (JStr ''member'')) (JStr ''member''))))]
                   @ (if truthy (dget m ''username'' JNull) then [(''username'', JStr (py_str (dget m ''username'' JNull)))] else []))])"

definition members_after_from_event :: "int \<Rightarrow> dict \<Rightarrow> json list \<Rightarrow> gapp \<Rightarrow> dict list res" where
  "members_after_from_event gid msg fallback g = (case dget msg ''members'' JNull of
       JArr (m # ms) \<Rightarrow>
         rbind (normalize_members (m # ms)) (\<lambda>ds.
         rbind (int_or_0 msg ''user_id'') (\<lambda>t.
         let name = first_text msg [''username'', ''target_username'']
         in Inr (if 0 < t \<and> name \<noteq> [] then rename_member t name ds else ds)))
     | _ \<Rightarrow>
         rbind (as_list (py_or (dget msg ''member_ids'' (JArr fallback)) (JArr []))) (\<lambda>ids.
         normalize_members (concat (map (known_member gid g) ids))))"

definition remember_members :: "int \<Rightarrow> dict \<Rightarrow> json list \<Rightarrow> unit ga" where
  "remember_members gid msg fallback g = (case members_after_from_event gid msg fallback g of
       Inl e \<Rightarrow> (Inl e, g)
     | Inr ds \<Rightarrow> (Inr (), if ds \<noteq> [] then g\<lparr> g_members := dset (g_members g) gid ds \<rparr> else g))"

definition members_before_for_change :: "int \<Rightarrow> json list \<Rightarrow> string \<Rightarrow> int \<Rightarrow> string \<Rightarrow> gapp \<Rightarrow> dict list res" where
  "members_before_for_change gid after operation target role g =
     (let cached = dget (g_members g) gid []
      in if cached \<noteq> [] then normalize_members (map JObj cached)
         else rbind (normalize_members after) (\<lambda>before.
              if operation = ''add_member'' then normalize_members (map JObj (filter (\<lambda>d. user_of d \<noteq> JInt target) before))
              else if operation \<in> {''remove_member'', ''member_left''} \<and> 0 < target
              then rbind (role_for_member (map JObj before) target) (\<lambda>r.
                   normalize_members (map JObj before @ (if r = []
                     then [JObj [(''user_id'', JInt target), (''role'', JStr (if role \<in> {''admin'', ''member''} then role else ''member''))]] else [])))
              else normalize_members (map JObj before)))"

subsection \<open>Names and events\<close>

definition is_member :: "int \<Rightarrow> json \<Rightarrow> bool" where
  "is_member u m = (case m of JObj d \<Rightarrow> py_int (py_or (dget d ''user_id'' (dget d ''id'' (JInt 0))) (JInt 0)) = Inr u | _ \<Rightarrow> False)"

definition name_in :: "int \<Rightarrow> json list \<Rightarrow> string" where
  "name_in u ms = (case filter (\<lambda>n. n \<noteq> []) (map (\<lambda>m. case m of JObj d \<Rightarrow> first_text d [''username'', ''name''] | _ \<Rightarrow> []) (filter (is_member u) ms)) of
       [] \<Rightarrow> [] | n # _ \<Rightarrow> n)"

definition display_name_for_user :: "int \<Rightarrow> int \<Rightarrow> dict \<Rightarrow> string \<Rightarrow> gapp \<Rightarrow> string res" where
  "display_name_for_user gid u msg field g =
     (if u \<le> 0 then Inr []
      else let direct = first_text msg [field, ''username'', ''target_username'']
           in if direct \<noteq> [] then Inr direct
              else rbind (list_or_empty msg ''members'') (\<lambda>ms.
                   let friend = dget (g_friends g) u [];
                       names = filter (\<lambda>n. n \<noteq> []) [name_in u ms, name_in u (map JObj (dget (g_members g) gid [])), first_text friend [''username'', ''name'']]
                   in Inr (case names of [] \<Rightarrow> ''User#'' @ show_int u | n # _ \<Rightarrow> n)))"

definition membership_event_key :: "string \<Rightarrow> int \<Rightarrow> string \<Rightarrow> string \<Rightarrow> json" where
  "membership_event_key event_type target role op =
     (if op = [] then JNull else JArr [JStr event_type, JInt target, JStr role, JStr op])"

text \<open>\<open>add_system_event(..., **self._system_event_kwargs(msg))\<close>\<close>

definition show_event :: "int \<Rightarrow> string \<Rightarrow> json \<Rightarrow> dict \<Rightarrow> unit ga" where
  "show_event gid t key msg =
     (let sid = safe_int (dget msg ''system_event_id'' (dget msg ''id'' (JInt 0))); after = safe_int (dget msg ''after_message_id'' (JInt 0))
      in sbind (slift (ts_of (dget msg ''event_time'' (dget msg ''time'' (JStr []))))) (\<lambda>ts.
         in_app (in_chat (smod (add_system_event gid t ts key (JInt (if 0 < sid then sid else 0)) (if 0 < after then Some (JInt after) else None))))))"

definition event_type_of :: "dict \<Rightarrow> string" where
  "event_type_of msg = py_str (py_or (dget msg ''event_type'' (dget msg ''type'' (JStr []))) (JStr []))"

definition event_user :: "dict \<Rightarrow> int res" where
  "event_user msg = py_int (py_or (dget msg ''user_id'' (dget msg ''target_user_id'' (JInt 0))) (JInt 0))"

definition group_system_event_key :: "dict \<Rightarrow> json res" where
  "group_system_event_key msg = rbind (event_user msg) (\<lambda>u.
     let t = event_type_of msg; role = str_or_empty msg ''role''; op = str_or_empty msg ''operation_id''
     in Inr (if t \<in> {''member_left'', ''member_removed''} then membership_event_key ''member_removed'' u [] op
             else if t = ''member_added'' then membership_event_key ''member_added'' u [] op
             else if t = ''member_role_changed'' then membership_event_key ''member_role_changed'' u role op
             else if t = ''group_info_updated'' then membership_event_key ''group_info_updated'' 0 [] op
             else membership_event_key t u role op))"

definition role_change_text :: "string \<Rightarrow> string \<Rightarrow> string \<Rightarrow> string" where
  "role_change_text actor who role =
     (let role_text = (if role = ''admin'' then ''admin'' else ''member'')
      in if actor \<noteq> [] \<and> actor \<noteq> who then actor @ '' made '' @ who @ '' '' @ role_text @ ''.'' else who @ '' was made '' @ role_text @ ''.'')"

definition who_text :: "int \<Rightarrow> int \<Rightarrow> dict \<Rightarrow> gapp \<Rightarrow> string res" where
  "who_text gid u msg g = (if u = uid (a_session (g_app g)) then Inr ''You'' else display_name_for_user gid u msg ''username'' g)"

definition group_system_event_text :: "int \<Rightarrow> dict \<Rightarrow> gapp \<Rightarrow> string res" where
  "group_system_event_text gid msg g =
     rbind (event_user msg) (\<lambda>u.
     rbind (py_int (py_or (dget msg ''by_user_id'' (dget msg ''actor_id'' (JInt 0))) (JInt 0))) (\<lambda>actor_uid.
     rbind (who_text gid u msg g) (\<lambda>who.
     rbind (let by = str_or_empty msg ''by_username''
            in if by = [] \<and> 0 < actor_uid \<and> actor_uid \<noteq> u then display_name_for_user gid actor_uid msg ''by_username'' g else Inr by) (\<lambda>actor.
     let t = event_type_of msg; me = (u = uid (a_session (g_app g)))
     in Inr (if t = ''member_added'' then (if me then (if actor \<noteq> [] then actor else ''Someone'') @ '' added you to the group.'' else who @ '' joined the group.'')
             else if t = ''member_left'' then (if me then ''You left the group.'' else who @ '' left the group.'')
             else if t = ''member_removed'' then (if me then ''You were removed from the group.'' else who @ '' was removed from the group.'')
             else if t = ''member_role_changed''
             then role_change_text actor who (py_str (py_or (dget msg ''role'' (JStr [])) (JStr ''member'')))
             else if t = ''group_info_updated'' then ''Group info was updated.'' else [])))))"

definition prepare_event :: "int \<Rightarrow> json \<Rightarrow> json list \<Rightarrow> json list ga" where
  "prepare_event gid raw prepared = (case raw of
       JObj d \<Rightarrow>
         sbind (remember_members gid d []) (\<lambda>_.
         sbind (\<lambda>g. (group_system_event_text gid d g, g)) (\<lambda>t.
           if t = [] then sret prepared
           else sbind (slift (group_system_event_key (dset d ''text'' (JStr t)))) (\<lambda>key.
                sret (prepared @ [JObj (dset (dset d ''text'' (JStr t)) ''event_key'' key)]))))
     | _ \<Rightarrow> sret prepared)"

definition prepare_group_system_events_for_history :: "int \<Rightarrow> json \<Rightarrow> json list ga" where
  "prepare_group_system_events_for_history gid events =
     sbind (slift (as_list (py_or events (JArr [])))) (\<lambda>es. sfold (prepare_event gid) es [])"

subsection \<open>Events of a group\<close>

definition know_group_conv :: "int \<Rightarrow> unit ga" where
  "know_group_conv gid = in_app (in_session (smod (\<lambda>s. s\<lparr> group_conv_ids := insert gid (group_conv_ids s) \<rparr>)))"

definition expect_change :: "int \<Rightarrow> unit ga" where
  "expect_change gid = smod (\<lambda>g. g\<lparr> g_expected := insert gid (g_expected g) \<rparr>)"

definition cmd :: "string \<Rightarrow> dict \<Rightarrow> unit ga" where
  "cmd t args = send_cmd ((''type'', JStr t) # args)"

definition refresh_group :: "int \<Rightarrow> unit ga" where
  "refresh_group gid =
     sbind (cmd ''get_mls_handshake'' [(''conversation_id'', JInt gid)]) (\<lambda>_. cmd ''get_group_info'' [(''group_id'', JInt gid)])"

definition handle_group_created :: "dict \<Rightarrow> unit ga" where
  "handle_group_created msg =
     sbind (slift (py_int (dget msg ''conversation_id'' (JInt 0)))) (\<lambda>conv.
     sbind (if 0 < conv
            then sbind (know_group_conv conv) (\<lambda>_.
                 sbind (\<lambda>g. case dget msg ''name'' (JStr []) of
                     JStr name \<Rightarrow> (Inr (dget (g_created g) name []), g\<lparr> g_created := dpop (g_created g) name \<rparr>)
                   | JArr _ \<Rightarrow> (Inl (TypeError ''unhashable type''), g)
                   | JObj _ \<Rightarrow> (Inl (TypeError ''unhashable type''), g)
                   | _ \<Rightarrow> (Inr [], g)) (\<lambda>members.
                 sbind (\<lambda>g. if members = [] then (Inr (), g)
                     else case normalize_members (JObj [(''user_id'', JInt (uid (a_session (g_app g)))), (''role'', JStr ''admin'')]
                            # map (\<lambda>u. JObj [(''user_id'', JInt u), (''role'', JStr ''member'')]) members) of
                          Inl e \<Rightarrow> (Inl e, g) | Inr ds \<Rightarrow> (Inr (), g\<lparr> g_members := dset (g_members g) conv ds \<rparr>)) (\<lambda>_.
                 cmd ''get_mls_handshake'' [(''conversation_id'', JInt conv)])))
            else sret ()) (\<lambda>_.
     cmd ''get_inbox'' []))"

definition handle_added_to_group :: "dict \<Rightarrow> unit ga" where
  "handle_added_to_group msg =
     sbind (slift (py_int (dget msg ''conversation_id'' (JInt 0)))) (\<lambda>conv.
     sbind (know_group_conv conv) (\<lambda>_.
     sbind (if 0 < conv
            then sbind (sget (\<lambda>g. uid (a_session (g_app g)))) (\<lambda>me.
                 let by = first_text msg [''by_username'', ''by'']
                 in sbind (show_event conv ((if by = [] then ''Someone'' else by) @ '' added you to the group.'')
                      (membership_event_key ''member_added'' me [] (str_or_empty msg ''operation_id'')) msg) (\<lambda>_.
                    sbind (expect_change conv) (\<lambda>_.
                    sbind (remember_members conv msg []) (\<lambda>_. refresh_group conv))))
            else sret ()) (\<lambda>_.
     cmd ''get_inbox'' [])))"

definition handle_member_added :: "dict \<Rightarrow> unit ga" where
  "handle_member_added msg =
     sbind (slift (py_int (dget msg ''group_id'' (JInt 0)))) (\<lambda>gid.
     sbind (slift (py_int (dget msg ''user_id'' (JInt 0)))) (\<lambda>u.
       if gid \<le> 0 then sret ()
       else sbind (expect_change gid) (\<lambda>_.
            sbind (know_group_conv gid) (\<lambda>_.
            sbind (remember_members gid msg [JInt u]) (\<lambda>_.
            sbind (\<lambda>g. (display_name_for_user gid u msg ''username'' g, g)) (\<lambda>name.
            sbind (sget (\<lambda>g. uid (a_session (g_app g)))) (\<lambda>me.
            sbind (if 0 < u \<and> u \<noteq> me
                   then show_event gid (name @ '' joined the group.'') (membership_event_key ''member_added'' u [] (str_or_empty msg ''operation_id'')) msg
                   else sret ()) (\<lambda>_.
            sbind (refresh_group gid) (\<lambda>_. cmd ''get_inbox'' [])))))))))"

definition cleanup_conv_state :: "int \<Rightarrow> unit ga" where
  "cleanup_conv_state conv = in_app (smod (\<lambda>a. a\<lparr> a_seen := dpop (a_seen a) conv, a_session := cleanup_conversation_state conv (a_session a) \<rparr>))"

definition removal_text :: "bool \<Rightarrow> bool \<Rightarrow> bool \<Rightarrow> string \<Rightarrow> string" where
  "removal_text me leaving by_me name =
     (if me then (if leaving \<or> by_me then ''You left the group.'' else ''You were removed from the group.'')
      else name @ (if leaving then '' left the group.'' else '' was removed from the group.''))"

definition handle_member_removed :: "dict \<Rightarrow> unit ga" where
  "handle_member_removed msg =
     sbind (slift (int_or_0 msg ''group_id'')) (\<lambda>gid.
     sbind (slift (int_or_0 msg ''user_id'')) (\<lambda>u.
       if gid \<le> 0 then sret ()
       else sbind (\<lambda>g. (display_name_for_user gid u msg ''username'' g, g)) (\<lambda>name.
            sbind (slift (int_or_0 msg ''by_user_id'')) (\<lambda>by.
            sbind (sget (\<lambda>g. uid (a_session (g_app g)))) (\<lambda>me.
            sbind (show_event gid (removal_text (u = me) (str_or_empty msg ''operation'' = ''leave_group'') (by = me) name)
                     (membership_event_key ''member_removed'' u [] (str_or_empty msg ''operation_id'')) msg) (\<lambda>_.
            sbind (expect_change gid) (\<lambda>_.
              if u = me
              then sbind (cleanup_conv_state gid) (\<lambda>_.
                   sbind (in_app (in_session (smod (\<lambda>s. s\<lparr> group_conv_ids := group_conv_ids s - {gid} \<rparr>)))) (\<lambda>_.
                   sbind (smod (\<lambda>g. g\<lparr> g_members := dpop (g_members g) gid \<rparr>)) (\<lambda>_. cmd ''get_inbox'' [])))
              else sbind (remember_members gid msg []) (\<lambda>_.
                   sbind (refresh_group gid) (\<lambda>_. cmd ''get_inbox'' [])))))))))"

definition refresh_event :: "int \<Rightarrow> string \<Rightarrow> dict \<Rightarrow> unit ga" where
  "refresh_event gid t msg =
     sbind (slift (int_or_0 msg ''user_id'')) (\<lambda>u.
     let op = str_or_empty msg ''operation_id''
     in if t = ''member_left''
        then sbind (\<lambda>g. (who_text gid u msg g, g)) (\<lambda>who. show_event gid (who @ '' left the group.'') (membership_event_key ''member_removed'' u [] op) msg)
        else if t = ''member_role_changed''
        then sbind (\<lambda>g. (who_text gid u msg g, g)) (\<lambda>who.
             sbind (slift (int_or_0 msg ''by_user_id'')) (\<lambda>actor_uid.
             sbind (\<lambda>g. (let by = str_or_empty msg ''by_username''
                        in if by = [] \<and> 0 < actor_uid \<and> actor_uid \<noteq> u then display_name_for_user gid actor_uid [] ''username'' g else Inr by, g)) (\<lambda>actor.
             let role = py_str (py_or (dget msg ''role'' (JStr [])) (JStr ''member''))
             in show_event gid (role_change_text actor who role) (membership_event_key ''member_role_changed'' u role op) msg)))
        else show_event gid ''Group info was updated.'' (membership_event_key ''group_info_updated'' 0 [] op) msg)"

definition handle_ui_refresh :: "dict \<Rightarrow> unit ga" where
  "handle_ui_refresh msg =
     sbind (slift (py_int (py_or (dget msg ''group_id'' (dget msg ''conversation_id'' (JInt 0))) (JInt 0)))) (\<lambda>gid.
     sbind (case dget msg ''type'' JNull of
         JStr t \<Rightarrow> if 0 < gid \<and> t \<in> {''member_left'', ''member_role_changed'', ''group_info_updated''}
           then sbind (refresh_event gid t msg) (\<lambda>_.
                sbind (expect_change gid) (\<lambda>_.
                sbind (remember_members gid msg []) (\<lambda>_. refresh_group gid)))
           else sret ()
       | _ \<Rightarrow> sret ()) (\<lambda>_.
     cmd ''get_inbox'' []))"

text \<open>Whether the dialog is opened is the result.\<close>

definition handle_group_info :: "crypto \<Rightarrow> dict \<Rightarrow> bool ga" where
  "handle_group_info C msg =
     sbind (slift (int_or_0 msg ''group_id'')) (\<lambda>gid.
       if gid \<le> 0 then sret False
       else sbind (sget (\<lambda>g. gid \<in> g_manual g)) (\<lambda>asked.
            sbind (smod (\<lambda>g. g\<lparr> g_manual := g_manual g - {gid} \<rparr>)) (\<lambda>_.
            sbind (slift (as_list (py_or (dget msg ''members'' (JArr [])) (JArr [])))) (\<lambda>members.
            sbind (in_app (in_session (no_raise (verify_group_membership C gid members)))) (\<lambda>ws.
            sbind (smod (\<lambda>g. g\<lparr> g_expected := g_expected g - {gid} \<rparr>)) (\<lambda>_.
            sbind (if ws \<noteq> [] then warn_group gid ws else sret ()) (\<lambda>_.
            sbind (if members = [] then sret ()
                   else sbind (slift (normalize_members members)) (\<lambda>ds. smod (\<lambda>g. g\<lparr> g_members := dset (g_members g) gid ds \<rparr>))) (\<lambda>_.
            sret asked))))))))"

definition handle_group_disbanded :: "dict \<Rightarrow> unit ga" where
  "handle_group_disbanded msg =
     sbind (slift (py_int (dget msg ''conversation_id'' (JInt 0)))) (\<lambda>conv.
     sbind (in_app (in_chat (mark_group_disbanded conv))) (\<lambda>_. cleanup_conv_state conv))"

subsection \<open>History\<close>

text \<open>A message of the history: it counts as seen, and the text of an edit is cached for the edited message.\<close>

definition note_history_message :: "world \<Rightarrow> crypto \<Rightarrow> int \<Rightarrow> dict \<Rightarrow> unit ap" where
  "note_history_message W C conv m =
     sbind (slift (int_or_0 m ''id'')) (\<lambda>mid.
     sbind (smod (mark_msg_seen W conv mid)) (\<lambda>_.
     sbind (slift (int_or_0 m ''edit_target_message_id'')) (\<lambda>target.
       let plain = dget m ''body'' (JStr [])
       in if target = 0 \<or> \<not> truthy plain \<or> plain = JStr ''[Forward-secret]'' then sret ()
          else case plain of
                 JStr body \<Rightarrow>
                   if starts_with body ''[Cannot'' \<or> starts_with body ''[Encrypted'' then sret ()
                   else sbind (slift (int_or_0 m ''sender_id'')) (\<lambda>sender.
                        sbind (slift (ts_of (dget m ''time'' (JStr [])))) (\<lambda>ts. cache_plain C conv target sender body ts))
               | _ \<Rightarrow> sraise (AttributeError ''startswith''))))"

definition warn_if :: "int \<Rightarrow> string list \<Rightarrow> unit ap" where
  "warn_if conv ws = smod (\<lambda>a. if ws \<noteq> [] then show_security_warning conv ws a else a)"

text \<open>Rows that are no dictionaries raise here before anything is read, in the source when they are reached.\<close>

definition read_history :: "world \<Rightarrow> crypto \<Rightarrow> int \<Rightarrow> json \<Rightarrow> dict list ap" where
  "read_history W C conv rows =
     sbind (slift (rbind (as_list rows) (rmap as_dict))) (\<lambda>ms0.
     sbind (in_session (decrypt_history_messages C conv ms0)) (\<lambda>ms.
     sbind (in_session (no_raise (pop_control_warnings conv))) (\<lambda>cws.
     sbind (warn_if conv cws) (\<lambda>_.
     sbind (in_session (verify_history_consistency C conv ms)) (\<lambda>ws.
     sbind (warn_if conv ws) (\<lambda>_.
     sbind (sfold (\<lambda>m _. note_history_message W C conv m) ms ()) (\<lambda>_. sret ms)))))))"

definition history_badge :: "crypto \<Rightarrow> int \<Rightarrow> unit ap" where
  "history_badge C conv a =
     (if conv \<noteq> active_conv_id (a_chat a) then (Inr (), a)
      else sbind (if is_group_conv conv a then sret ()
                  else sbind (safety_fingerprint_for_conv C conv) (\<lambda>_. sbind (in_session (no_raise (load_verified C conv))) (\<lambda>_. sret ()))) (\<lambda>_.
           refresh_security_ui C conv) a)"

definition handle_history :: "world \<Rightarrow> crypto \<Rightarrow> dict \<Rightarrow> unit ga" where
  "handle_history W C msg =
     sbind (slift (int_or_0 msg ''conversation_id'')) (\<lambda>conv.
     sbind (in_app (read_history W C conv (dget msg ''messages'' (JArr [])))) (\<lambda>ms.
     sbind (prepare_group_system_events_for_history conv (dget msg ''system_events'' (JArr []))) (\<lambda>es.
     sbind (in_app (in_chat (load_history conv (map JObj ms) es))) (\<lambda>_.
     sbind (in_app (history_badge C conv)) (\<lambda>_.
     in_app (maybe_send_transcript_checkpoint W C conv True))))))"

definition handle_mls_handshake :: "nat \<Rightarrow> world \<Rightarrow> crypto \<Rightarrow> dict \<Rightarrow> gapp \<Rightarrow> (unit res \<times> gapp) option" where
  "handle_mls_handshake n W C msg g = (case int_or_0 msg ''conversation_id'' of
       Inl e \<Rightarrow> Some (Inl e, g)
     | Inr conv \<Rightarrow>
         if conv \<le> 0 then Some (Inr (), g)
         else case sbind (slift (rbind (as_list (py_or (dget msg ''items'' (JArr [])) (JArr []))) (rmap as_dict))) (\<lambda>rows.
                   sbind (in_app (in_session (process_mls_handshake_items C conv rows))) (\<lambda>_.
                   sbind (know_group_conv conv) (\<lambda>_ g.
                     if conv = active_conv_id (a_chat (g_app g)) then cmd ''history'' [(''conversation_id'', JInt conv)] g else (Inr (), g)))) g of
                (Inl e, g1) \<Rightarrow> Some (Inl e, g1)
              | (Inr _, g1) \<Rightarrow> map_option (\<lambda>(r, a). (r, g1\<lparr> g_app := a \<rparr>)) (flush_pending n W C conv (g_app g1)))"
subsection \<open>The two normal forms agree\<close>

lemma int_value:
  assumes "py_int (py_or v (JInt 0)) = Inr u"
  shows "case py_int v of Inl _ \<Rightarrow> u = 0 | Inr n \<Rightarrow> n = u"
proof (cases "truthy v")
  case True
  then show ?thesis using assms by (simp add: py_or_def)
next
  case False
  then have "u = 0" using assms by (simp add: py_or_def py_int_def)
  then show ?thesis using False falsy_int [of v] by (simp split: sum.split)
qed

lemma member_entry_of:
  assumes "member_entry m = Inr (u, role, name)"
  shows "member_of m = (if u \<le> 0 then None else Some (u, if role \<in> {''admin'', ''member''} then role else ''member''))"
proof -
  have "fst (snd (u, role, name)) = snd (member_value m) \<and> py_int (py_or (fst (member_value m)) (JInt 0)) = Inr u"
    using assms by (cases m) (auto simp: member_entry_def member_value_def)
  then show ?thesis using int_value [of "fst (member_value m)" u]
    by (cases "member_value m") (auto simp: member_of_def split: sum.splits)
qed

lemma collect_fold: "collect_members ms out names = Inr (out', names') \<Longrightarrow> out' = fold add_member ms out"
proof (induction ms arbitrary: out names)
  case (Cons m ms)
  obtain u role name where m: "member_entry m = Inr (u, role, name)" using Cons.prems by (cases "member_entry m") auto
  show ?case
  proof (cases "u \<le> 0")
    case True
    then show ?thesis using Cons m member_entry_of [OF m] by (auto simp: add_member_def)
  next
    case False
    then show ?thesis using Cons.prems Cons.IH m member_entry_of [OF m] by (auto simp: add_member_def Let_def)
  qed
qed simp

text \<open>
  The controller and the session bring a member list to the same normal form: when the controller's
  \<open>_normalize_group_members\<close> returns, its entries are, user by user and role by role, those of
  \<open>normalize_group_members\<close> of the session, which the membership hashes are made of.
\<close>

theorem member_normal_forms_agree:
  assumes "normalize_members ms = Inr ds"
  shows "map (\<lambda>d. (dget d ''user_id'' JNull, dget d ''role'' JNull)) ds = map (\<lambda>(u, role). (JInt u, JStr role)) (normalize_group_members ms)"
proof -
  obtain out names where c: "collect_members ms [] [] = Inr (out, names)" and ds: "ds = map (member_record out names) (sorted_list_of_set (fst ` set out))"
    using assms by (cases "collect_members ms [] []") (auto simp: normalize_members_def)
  have "(dget (member_record out names u) ''user_id'' JNull, dget (member_record out names u) ''role'' JNull) = (JInt u, JStr (dget out u []))" for u
    by (simp add: member_record_def dget_def)
  then show ?thesis using collect_fold [OF c] by (simp add: ds normalize_group_members_def Let_def)
qed

theorem member_normal_forms_agree_witness:
  "map (\<lambda>(u, role). (JInt u, JStr role)) (normalize_group_members [JInt 3, JObj [(''user_id'', JInt 2), (''role'', JStr ''admin''), (''name'', JStr ''Ann'')], JNull])
     = [(JInt 2, JStr ''admin''), (JInt 3, JStr ''member'')]"
proof -
  have "normalize_members [JInt 3, JObj [(''user_id'', JInt 2), (''role'', JStr ''admin''), (''name'', JStr ''Ann'')], JNull]
      = Inr [[(''user_id'', JInt 2), (''role'', JStr ''admin''), (''username'', JStr ''Ann'')], [(''user_id'', JInt 3), (''role'', JStr ''member'')]]"
    by code_simp
  from member_normal_forms_agree [OF this] show ?thesis by (simp add: dget_def)
qed

subsection \<open>The actor of an event\<close>

text \<open>
  When an event does not name its actor, the name shown for the actor is the target's: the name fields of the event are
  those of the target, and they are read for every user.
\<close>

lemma actor_named_after_target:
  assumes "0 < actor" and "dget msg ''by_username'' (JStr []) = JStr []" and "dget msg ''username'' (JStr []) = JStr name" and "name \<noteq> []"
  shows "display_name_for_user gid actor msg ''by_username'' g = Inr name"
proof -
  have "first_text msg [''by_username'', ''username'', ''target_username''] = name"
    using assms by (simp add: first_text_def py_or_def truthy_def py_str_def)
  then show ?thesis using assms(1,4) by (simp add: display_name_for_user_def)
qed

end
