(* ===== verification/App_Inbox.thy ===== *)
theory App_Inbox
  imports App_Facts
begin

text \<open>
  The inbox (\<open>client/app.py\<close>, \<open>_handle_inbox\<close>, and \<open>client/pages/chat_page.py\<close>, \<open>update_inbox\<close>): the list of conversations the server
  sends is brought to a normal form, ciphertexts are replaced by texts the client has, and the set of unread
  conversations is computed. Drawing the lists, opening a conversation that waits to be opened, and the timer that reports the open
  conversation as read (\<open>mark_active_conversation_read\<close> in \<open>Timeline\<close>) are events of their own.
\<close>

subsection \<open>Previews\<close>

definition preview_plaintext :: "string \<Rightarrow> string" where
  "preview_plaintext body =
     (if starts_with body ''__SYSTEM__:'' then strip (drop 11 body)
      else if starts_with body ''FILE:'' then ''[File]''
      else if starts_with body ''SCMSG:1:''
      then case json_unb64 (drop 8 body) of
             Inr (JObj m) \<Rightarrow> let inner = py_str (dget m ''body'' (JStr body)) in if starts_with inner ''FILE:'' then ''[File]'' else inner
           | _ \<Rightarrow> body
      else body)"

text \<open>What is no JSON is no control message; JSON that is no dictionary raises.\<close>

definition is_secure_control_wire :: "string \<Rightarrow> bool res" where
  "is_secure_control_wire body =
     (if \<not> starts_with body PREFIX_MLS then Inr False
      else case json_unb64 (drop (length PREFIX_MLS) body) of
             Inl _ \<Rightarrow> Inr False
           | Inr payload \<Rightarrow> rbind (as_dict payload) (\<lambda>d.
               case py_or (dget d ''event'' JNull) (dget d ''kind'' JNull) of
                 JStr k \<Rightarrow> Inr (k \<in> {''commit'', ''welcome'', ''transcript_checkpoint''})
               | JArr _ \<Rightarrow> Inl (TypeError ''unhashable type'')
               | JObj _ \<Rightarrow> Inl (TypeError ''unhashable type'')
               | _ \<Rightarrow> Inr False))"

definition previewable :: "entry \<Rightarrow> bool" where
  "previewable e =
     (let body = py_str (py_or (e_body e) (JStr []))
      in \<not> e_hidden e \<and> \<not> e_deleted e \<and> body \<noteq> [] \<and> JStr body \<notin> CONTROL_BODIES
         \<and> (starts_with body ''__SYSTEM__:'' \<or> \<not> (starts_with body ''[Encrypted'' \<or> starts_with body ''[Cannot'')))"

definition latest_visible_preview :: "int \<Rightarrow> page \<Rightarrow> string" where
  "latest_visible_preview conv g = (case find previewable (rev (conv_hist conv g)) of
       None \<Rightarrow> [] | Some e \<Rightarrow> preview_plaintext (py_str (py_or (e_body e) (JStr []))))"

definition set_preview :: "string \<Rightarrow> bool \<Rightarrow> dict \<Rightarrow> dict" where
  "set_preview t read c = (let c1 = dset c ''last_message'' (JStr t) in if read then dset c1 ''unread_count'' (JInt 0) else c1)"

definition preview_cached :: "crypto \<Rightarrow> int \<Rightarrow> int \<Rightarrow> string \<Rightarrow> dict \<Rightarrow> dict ap" where
  "preview_cached C conv last_id t c =
     sbind (if last_id = 0 then sret [] else in_session (no_raise (load_cached_messages C conv))) (\<lambda>entries.
     let hit = dget entries (ById last_id) []
     in if hit = [] then sret (set_preview [] (starts_with t PREFIX_PQ_INIT) c)
        else case unpack_value (dget hit ''body'' (JStr [])) of
               JStr pt \<Rightarrow> sret (set_preview (preview_plaintext pt) False c)
             | _ \<Rightarrow> sraise (AttributeError ''startswith''))"

definition preview_record :: "crypto \<Rightarrow> int \<Rightarrow> int \<Rightarrow> string \<Rightarrow> dict \<Rightarrow> dict ap" where
  "preview_record C conv last_id t c =
     (if starts_with t ''__SYSTEM__:'' then sret (set_preview (preview_plaintext t) False c)
      else sbind (slift (is_secure_control_wire t)) (\<lambda>control.
           if control then sbind (sget (\<lambda>a. latest_visible_preview conv (a_chat a))) (\<lambda>p. sret (set_preview p (p = []) c))
           else if starts_with t PREFIX_PQ_INIT \<or> starts_with t PREFIX_DR \<or> starts_with t PREFIX_MLS then preview_cached C conv last_id t c
           else sret (if starts_with t ''FILE:'' then set_preview ''[File]'' False c else c)))"

subsection \<open>Records of conversations\<close>

definition is_group_record :: "dict \<Rightarrow> bool" where
  "is_group_record c = truthy (dget c ''is_group'' (JBool False))"

definition peer_of_record :: "dict \<Rightarrow> int res" where
  "peer_of_record c = (if is_group_record c then Inr 0 else first_int [''with_user_id'', ''other_id'', ''user_id'', ''friend_id''] c)"

text \<open>One round of the loop of \<open>_handle_inbox\<close>.\<close>

definition normal_record :: "crypto \<Rightarrow> int \<Rightarrow> dict \<Rightarrow> dict ap" where
  "normal_record C me c0 =
     sbind (slift (rbind (dkey c0 ''conversation_id'') py_int)) (\<lambda>conv.
     sbind (slift (peer_of_record c0)) (\<lambda>peer.
     let group = is_group_record c0; c1 = dset c0 ''conversation_id'' (JInt conv);
         c2 = (if group then c1 else dset (dset c1 ''with_user_id'' (JInt peer)) ''user_id'' (JInt peer))
     in if 0 < me \<and> \<not> group \<and> peer = me then sret (dset c2 ''hidden'' (JBool True))
        else sbind (slift (if group then int_or_0 c2 ''creator_id'' else Inr 0)) (\<lambda>creator.
             let c3 = (if group then dset (dset c2 ''creator_id'' (JInt creator)) ''is_disbanded'' (JBool (truthy (dget c2 ''is_disbanded'' (JBool False)))) else c2)
             in sbind (slift (int_or_0 c3 ''last_message_id'')) (\<lambda>last_id.
                sbind (slift (int_or_0 c3 ''last_sender_id'')) (\<lambda>last_sender.
                sbind (if \<not> group \<and> 0 < peer \<and> peer \<noteq> me
                       then in_session (smod (\<lambda>s. s\<lparr> conv_peer_uids := dset (conv_peer_uids s) conv peer \<rparr>)) else sret ()) (\<lambda>_.
                  case dget c3 ''last_message'' (JStr []) of
                    JStr t \<Rightarrow> preview_record C conv last_id t (dset (dset c3 ''last_message_id'' (JInt last_id)) ''last_sender_id'' (JInt last_sender))
                  | _ \<Rightarrow> sraise (AttributeError ''startswith'')))))))"

subsection \<open>Unread conversations\<close>

text \<open>The loop of \<open>update_inbox\<close>: the records seen so far, which it changes, and the sets it builds.\<close>

record inbox_scan =
  s_records :: "dict list"
  s_current :: "int set"
  s_unread :: "int set"
  s_pending :: "int set"

definition raw_unread :: "dict \<Rightarrow> bool res" where
  "raw_unread c = rbind (int_or_0 c ''unread_count'') (\<lambda>n.
     Inr ((0 < n \<or> truthy (dget c ''force_unread'' JNull)) \<and> \<not> truthy (dget c ''muted'' JNull)))"

definition scan_record :: "int \<Rightarrow> (int \<times> int) list \<Rightarrow> dict \<Rightarrow> (inbox_scan, unit) act" where
  "scan_record active sent c =
     sbind (slift (int_or_0 c ''conversation_id'')) (\<lambda>cid.
       if cid \<le> 0 then smod (\<lambda>s. s\<lparr> s_records := s_records s @ [c] \<rparr>)
       else sbind (smod (\<lambda>s. s\<lparr> s_current := insert cid (s_current s) \<rparr>)) (\<lambda>_.
            sbind (slift (int_or_0 c ''last_message_id'')) (\<lambda>last_id.
            sbind (slift (raw_unread c)) (\<lambda>raw.
            let stale = (raw \<and> (cid = active \<or> (0 < last_id \<and> last_id \<le> dget sent cid 0)))
            in smod (\<lambda>s. s\<lparr> s_records := s_records s @ [if stale then dset (dset c ''unread_count'' (JInt 0)) ''force_unread'' (JBool False) else c],
                 s_unread := (if raw \<and> \<not> stale then insert cid (s_unread s) else s_unread s),
                 s_pending := (if raw \<and> cid = active then insert cid (s_pending s) else s_pending s) \<rparr>)))))"

definition update_inbox :: "dict list \<Rightarrow> dict list \<Rightarrow> unit pg" where
  "update_inbox dms groups g =
     (let gone = (\<lambda>c. safe_int (dget c ''conversation_id'' (JInt 0))) ` set (filter (\<lambda>c. truthy (dget c ''is_disbanded'' JNull)) groups)
      in case sfold (\<lambda>c _. scan_record (active_conv_id g) (last_read_sent g) c) (dms @ groups) ()
                \<lparr> s_records = [], s_current = {}, s_unread = {}, s_pending = pending_read_clear g \<rparr> of (r, s) \<Rightarrow>
           let cs = s_records s @ drop (length (s_records s)) (dms @ groups);
               g1 = g\<lparr> dm_convs := take (length dms) cs, group_convs := drop (length dms) cs, disbanded_convs := disbanded_convs g \<union> gone,
                       pending_read_clear := s_pending s \<rparr>
           in case r of
                Inl e \<Rightarrow> (Inl e, g1)
              | Inr _ \<Rightarrow> (Inr (), g1\<lparr> unread_convs := (unread_convs g \<inter> s_current s - (s_current s - s_unread s)) \<union> s_unread s \<rparr>))"

definition record_conv :: "dict \<Rightarrow> int" where
  "record_conv c = safe_int (dget c ''conversation_id'' (JInt 0))"

definition handle_inbox :: "crypto \<Rightarrow> dict \<Rightarrow> unit ap" where
  "handle_inbox C msg =
     sbind (slift (rbind (as_list (dget msg ''conversations'' (JArr []))) (rmap as_dict))) (\<lambda>all.
     sbind (sget (\<lambda>a. uid (a_session a))) (\<lambda>me.
     sbind (sfold (\<lambda>c acc. sbind (normal_record C me c) (\<lambda>c'. sret (acc @ [c']))) (filter (Not \<circ> is_group_record) all) []) (\<lambda>dms0.
     sbind (sfold (\<lambda>c acc. sbind (normal_record C me c) (\<lambda>c'. sret (acc @ [c']))) (filter is_group_record all) []) (\<lambda>groups.
     let dms = filter (\<lambda>c. \<not> truthy (dget c ''hidden'' JNull)) dms0
     in sbind (in_session (smod (\<lambda>s. s\<lparr> group_conv_ids := set (map record_conv groups) \<rparr>))) (\<lambda>_.
        sbind (in_chat (update_inbox dms groups)) (\<lambda>_.
        sfold (\<lambda>conv _. scatch (refresh_security_ui C conv) (\<lambda>_. sret ())) (map record_conv (dms @ groups)) ()))))))"

subsection \<open>What counts as unread\<close>

text \<open>The specification: a record shows its conversation unread.\<close>

definition shows_unread :: "int \<Rightarrow> (int \<times> int) list \<Rightarrow> dict \<Rightarrow> int \<Rightarrow> bool" where
  "shows_unread active sent c cid = (int_or_0 c ''conversation_id'' = Inr cid \<and> 0 < cid \<and> cid \<noteq> active \<and> raw_unread c = Inr True
     \<and> (\<exists>last_id. int_or_0 c ''last_message_id'' = Inr last_id \<and> \<not> (0 < last_id \<and> last_id \<le> dget sent cid 0)))"

lemma scan_record_run:
  assumes "scan_record active sent c s = (Inr u, s')"
  shows "s_unread s' = s_unread s \<union> {cid. shows_unread active sent c cid}" and "s_unread s \<subseteq> s_current s \<Longrightarrow> s_unread s' \<subseteq> s_current s'"
proof -
  obtain cid where cid: "int_or_0 c ''conversation_id'' = Inr cid" using assms by (cases "int_or_0 c ''conversation_id''") (auto simp: scan_record_def)
  have "s_unread s' = s_unread s \<union> {cid. shows_unread active sent c cid} \<and> (s_unread s \<subseteq> s_current s \<longrightarrow> s_unread s' \<subseteq> s_current s')"
  proof (cases "cid \<le> 0")
    case True
    then have "s' = s\<lparr> s_records := s_records s @ [c] \<rparr>" using assms cid by (simp add: scan_record_def smod_def)
    then show ?thesis using True cid by (auto simp: shows_unread_def)
  next
    case False
    obtain last_id where l: "int_or_0 c ''last_message_id'' = Inr last_id"
      using assms cid False by (cases "int_or_0 c ''last_message_id''") (auto simp: scan_record_def sbind_def smod_def)
    obtain raw where r: "raw_unread c = Inr raw" using assms cid False l by (cases "raw_unread c") (auto simp: scan_record_def sbind_def smod_def)
    let ?stale = "raw \<and> (cid = active \<or> (0 < last_id \<and> last_id \<le> dget sent cid 0))"
    have s': "s_unread s' = (if raw \<and> \<not> ?stale then insert cid (s_unread s) else s_unread s)" "s_current s' = insert cid (s_current s)"
      using assms cid False l r by (auto simp: scan_record_def sbind_def smod_def Let_def)
    have "{cid. shows_unread active sent c cid} = (if raw \<and> \<not> ?stale then {cid} else {})"
      using cid l r False by (auto simp: shows_unread_def)
    then show ?thesis using s' by auto
  qed
  then show "s_unread s' = s_unread s \<union> {cid. shows_unread active sent c cid}" "s_unread s \<subseteq> s_current s \<Longrightarrow> s_unread s' \<subseteq> s_current s'" by auto
qed

lemma scan_run:
  assumes "sfold (\<lambda>c _. scan_record active sent c) cs u s = (Inr v, s')" and "s_unread s \<subseteq> s_current s"
  shows "s_unread s' = s_unread s \<union> {cid. \<exists>c \<in> set cs. shows_unread active sent c cid} \<and> s_unread s' \<subseteq> s_current s'"
  using assms
proof (induction cs arbitrary: s u)
  case Nil
  then show ?case by (simp add: sret_def)
next
  case (Cons c cs)
  obtain w s1 where c: "scan_record active sent c s = (Inr w, s1)" "sfold (\<lambda>c _. scan_record active sent c) cs w s1 = (Inr v, s')"
    using Cons.prems(1) by (auto simp: sbind_def split: prod.splits sum.splits)
  show ?case using Cons.IH [OF c(2)] scan_record_run [OF c(1)] Cons.prems(2) by auto
qed

text \<open>
  After an inbox of the server the unread conversations are exactly those of which some record says so: a positive
  unread count or the forced mark, not muted, not the open conversation, and a last message beyond what the client has
  reported as read. Marks the client had set on its own are gone.
\<close>

theorem inbox_unread_exact:
  assumes "update_inbox dms groups g = (Inr (), g')"
  shows "unread_convs g' = {cid. \<exists>c \<in> set (dms @ groups). shows_unread (active_conv_id g) (last_read_sent g) c cid}"
proof -
  let ?run = "sfold (\<lambda>c _. scan_record (active_conv_id g) (last_read_sent g) c) (dms @ groups) ()
      \<lparr> s_records = [], s_current = {}, s_unread = {}, s_pending = pending_read_clear g \<rparr>"
  obtain r s where rs: "?run = (r, s)" by (cases ?run)
  have "\<exists>v. r = Inr v" using assms unfolding update_inbox_def rs by (cases r) (simp_all add: Let_def)
  then obtain v where s: "?run = (Inr v, s)" using rs by blast
  have g': "unread_convs g' = (unread_convs g \<inter> s_current s - (s_current s - s_unread s)) \<union> s_unread s"
    using arg_cong [OF assms, of "\<lambda>x. unread_convs (snd x)"] unfolding update_inbox_def s by (simp add: Let_def)
  have "s_unread s = {cid. \<exists>c \<in> set (dms @ groups). shows_unread (active_conv_id g) (last_read_sent g) c cid}" using scan_run [OF s] by simp
  then show ?thesis using g' by auto
qed

definition inbox_rows :: "dict list" where
  "inbox_rows = [[(''conversation_id'', JInt 1), (''unread_count'', JInt 2)], [(''conversation_id'', JInt 2), (''unread_count'', JInt 1), (''last_message_id'', JInt 4)],
     [(''conversation_id'', JInt 3), (''unread_count'', JInt 1), (''muted'', JBool True)]]"

theorem inbox_unread_exact_witness: "unread_convs (snd (update_inbox inbox_rows [] (blank_page\<lparr> unread_convs := {3, 9} \<rparr>))) = {2}"
proof -
  let ?g = "blank_page\<lparr> unread_convs := {3, 9} \<rparr>"
  have run: "fst (update_inbox inbox_rows [] ?g) = Inr ()" by code_simp
  have g: "active_conv_id ?g = 1" "last_read_sent ?g = []" by (simp_all add: blank_page_def)
  have rows: "map (\<lambda>c. (int_or_0 c ''conversation_id'', int_or_0 c ''last_message_id'', raw_unread c)) inbox_rows
      = [(Inr 1, Inr 0, Inr True), (Inr 2, Inr 4, Inr True), (Inr 3, Inr 0, Inr False)]" by code_simp
  obtain x y z where xyz: "inbox_rows = [x, y, z]" using rows by (auto simp: map_eq_Cons_conv)
  have "{cid. \<exists>c \<in> set (inbox_rows @ []). shows_unread 1 [] c cid} = {2}"
    using rows unfolding xyz by (auto simp: shows_unread_def dget_def)
  moreover have "update_inbox inbox_rows [] ?g = (Inr (), snd (update_inbox inbox_rows [] ?g))" using run by (metis prod.collapse)
  ultimately show ?thesis using inbox_unread_exact [of inbox_rows "[]" ?g] g by simp
qed

end
