(* ===== verification/App_Account.thy ===== *)
theory App_Account
  imports App_Retry Local_State
begin

text \<open>
  The account (\<open>client/app.py\<close>): login, registration and logout, the replies \<open>ok\<close> and \<open>error\<close> of the server, which do not say
  what they answer, the change of the password, the rotation of the identity key and the own keys after a login.
  Status lines, message boxes and timers are left out.
\<close>

subsection \<open>State\<close>

text \<open>
  \<open>c_email\<close>, \<open>c_hash\<close> and \<open>c_name\<close> are the entries of \<open>_pending\<close>, whose action is \<open>a_action\<close>; \<open>c_change\<close> holds the old and the new
  master key of a password change that is not confirmed yet. The files of the directory of the login are \<open>disk\<close> of the
  session, those of other directories are in \<open>c_homes\<close>. The queues of group changes (\<open>App_Groups\<close>) are reset with the rest.
\<close>

record account =
  c_app :: app
  c_email :: string
  c_hash :: string
  c_name :: string
  c_password :: string
  c_account :: string
  c_credential :: string
  c_last_email :: string
  c_last_hash :: string
  c_change :: "(bytes \<times> bytes) option"
  c_rotating :: bool
  c_server_pk :: string
  c_packages :: bool
  c_avatars :: "int set"
  c_homes :: "(string \<times> (string \<times> string) list) list"

type_synonym 'a ac = "(account, 'a) act"

definition on_app :: "'a ap \<Rightarrow> 'a ac" where
  "on_app m c = (case m (c_app c) of (r, a) \<Rightarrow> (r, c\<lparr> c_app := a \<rparr>))"

definition of_session :: "'a ses \<Rightarrow> 'a ac" where
  "of_session m = on_app (in_session m)"

abbreviation c_session :: "account \<Rightarrow> crypto_session" where
  "c_session c \<equiv> a_session (c_app c)"

definition say :: "dict \<Rightarrow> unit ac" where
  "say obj = sbind (on_app (safe_send obj)) (\<lambda>_. sret ())"

definition ask :: "string \<Rightarrow> unit ac" where
  "ask t = say [(''type'', JStr t)]"

definition leave_dir :: "account \<Rightarrow> account" where
  "leave_dir c = (let s = c_session c
     in if secchat_dir s = [] then c
        else c\<lparr> c_app := (c_app c)\<lparr> a_session := s\<lparr> secchat_dir := [], disk := [] \<rparr> \<rparr>, c_homes := dset (c_homes c) (secchat_dir s) (disk s) \<rparr>)"

definition enter_dir :: "string \<Rightarrow> account \<Rightarrow> account" where
  "enter_dir d c0 = (let c = leave_dir c0
     in c\<lparr> c_app := (c_app c)\<lparr> a_session := (c_session c)\<lparr> secchat_dir := d, disk := dget (c_homes c) d [] \<rparr> \<rparr> \<rparr>)"

subsection \<open>Login, registration and logout\<close>

definition init_session_state :: "account \<Rightarrow> account" where
  "init_session_state c0 = (let c = leave_dir c0; a = c_app c
     in c\<lparr> c_app := a\<lparr> a_session := session_reset (a_session a), a_action := [], a_login := False, a_attempts := 0, a_kem_ready := False,
             a_kem_queue := [], a_lists := a_lists a @ [[]], a_pending := length (a_lists a), a_active := False, a_seen := [], a_texts := [],
             a_ids := [], a_pending_dm := [], a_bundle_ready := False, a_uploading := False, a_publish_blocked := False,
             a_checkpointed := [], a_version := 0 \<rparr>,
           c_email := [], c_hash := [], c_name := [], c_password := [], c_account := [], c_credential := [], c_last_email := [],
           c_last_hash := [], c_change := None, c_rotating := False, c_server_pk := [], c_packages := False, c_avatars := {} \<rparr>)"

definition teardown_ws :: "account \<Rightarrow> account" where
  "teardown_ws c = c\<lparr> c_app := (c_app c)\<lparr> a_ws := None \<rparr> \<rparr>"

text \<open>\<open>addr\<close> tells that host and port are given; the new socket cannot send before it is open.\<close>

definition begin_auth :: "bool \<Rightarrow> string \<Rightarrow> string \<Rightarrow> string \<Rightarrow> string \<Rightarrow> string \<Rightarrow> account \<Rightarrow> account" where
  "begin_auth addr action name email pw_hash password c0 = (let c = init_session_state (teardown_ws c0)
     in c\<lparr> c_app := (c_app c)\<lparr> a_login := (addr \<and> pw_hash \<noteq> []), a_action := action, a_ws := Some False \<rparr>,
           c_last_email := email, c_last_hash := pw_hash, c_email := email, c_hash := pw_hash, c_name := name, c_password := password \<rparr>)"

definition do_login :: "bool \<Rightarrow> string \<Rightarrow> string \<Rightarrow> string \<Rightarrow> account \<Rightarrow> account" where
  "do_login addr email pw_hash password = begin_auth addr ''login'' [] email pw_hash password"

definition do_register :: "bool \<Rightarrow> string \<Rightarrow> string \<Rightarrow> string \<Rightarrow> string \<Rightarrow> account \<Rightarrow> account" where
  "do_register addr name email pw_hash password = begin_auth addr ''register'' name email pw_hash password"

text \<open>\<open>self._ws.send\<close>, which does not ask whether the session is active.\<close>

definition send_now :: "dict \<Rightarrow> account \<Rightarrow> account" where
  "send_now obj c = (case a_ws (c_app c) of
       None \<Rightarrow> c
     | Some True \<Rightarrow> c\<lparr> c_app := (c_app c)\<lparr> a_sent := a_sent (c_app c) @ [obj] \<rparr> \<rparr>
     | Some False \<Rightarrow> c\<lparr> c_app := net_close (c_app c) \<rparr>)"

definition auth_command :: "string \<Rightarrow> string \<Rightarrow> dict" where
  "auth_command email pw_hash = [(''type'', JStr ''auth''), (''email'', JStr email), (''password'', JStr pw_hash)]"

definition net_open :: "account \<Rightarrow> account" where
  "net_open c =
     (if a_action (c_app c) = [] \<or> a_ws (c_app c) = None then c
      else if a_action (c_app c) \<in> {''login'', ''reconnect''} then send_now (auth_command (c_email c) (c_hash c)) c
      else send_now [(''type'', JStr ''register''), (''username'', JStr (c_name c)), (''email'', JStr (c_email c)), (''password'', JStr (c_hash c))] c)"

text \<open>\<open>_attempt_reconnect\<close>, with the entries of \<open>_pending\<close>.\<close>

definition reconnect :: "account \<Rightarrow> account" where
  "reconnect c = (let a = c_app c; c1 = c\<lparr> c_app := attempt_reconnect a \<rparr>
     in if a_active a \<or> a_stack a \<noteq> 1 \<or> \<not> a_login a then c1
        else c1\<lparr> c_email := (if c_last_email c \<noteq> [] then c_last_email c else c_credential c), c_hash := c_last_hash c, c_name := [] \<rparr>)"

definition chat_reset :: "app \<Rightarrow> app" where
  "chat_reset a = a\<lparr> a_chat := (a_chat a)\<lparr> active_conv_id := 0, current_view := ''chat'', hist := [], history_loaded_convs := {},
       history_loading_convs := {}, system_event_keys := {}, dm_convs := [], group_convs := [], unread_convs := {}, disbanded_convs := {},
       pending_edit_events := [], last_read_sent := [], scroll_to_latest := {} \<rparr>,
     a_security := [], a_blocked_convs := {}, a_warnings := [], a_active_group := False \<rparr>"

definition logout_local :: "bool \<Rightarrow> account \<Rightarrow> account" where
  "logout_local notify c0 = (let clear = cache_clear_on_logout (c_session c0);
       c1 = (if notify \<and> a_active (c_app c0) then send_now [(''type'', JStr ''logout'')] c0 else c0);
       c2 = (if clear then c1\<lparr> c_app := (c_app c1)\<lparr> a_session := snd (clear_message_cache None (c_session c1)) \<rparr> \<rparr> else c1);
       c3 = init_session_state (teardown_ws (c2\<lparr> c_app := (c_app c2)\<lparr> a_active := False \<rparr> \<rparr>))
     in c3\<lparr> c_app := (chat_reset (c_app c3))\<lparr> a_stack := 0 \<rparr> \<rparr>)"

subsection \<open>The password and the identity key\<close>

definition upload_current_key_bundle :: "crypto \<Rightarrow> unit ac" where
  "upload_current_key_bundle C = sbind (of_session (current_identity_key_record_command C)) (\<lambda>cmd.
     case cmd of None \<Rightarrow> sret () | Some d \<Rightarrow> if d = [] then sret () else say d)"

text \<open>When there is no record the frame \<open>null\<close> is sent, which is no command but meets a closed socket like one.\<close>

definition upload_identity_bundle :: "crypto \<Rightarrow> unit ac" where
  "upload_identity_bundle C = scatch (sbind (of_session (new_identity_key_record_command C)) (\<lambda>cmd.
     case cmd of
       None \<Rightarrow> on_app (smod (\<lambda>a. if a_active a \<and> a_ws a = Some False then net_close a else a))
     | Some d \<Rightarrow> say d)) (\<lambda>_. sret ())"

definition change_password :: "crypto \<Rightarrow> string \<Rightarrow> string \<Rightarrow> unit ac" where
  "change_password C old_pw new_pw c =
     (let credential = (if c_credential c \<noteq> [] then c_credential c else c_account c)
      in if \<not> a_active (c_app c) \<or> master_key (c_session c) = [] \<or> credential = [] \<or> c_account c = [] then (Inr (), c)
         else say [(''type'', JStr ''change_password''), (''old_password'', JStr (hash_password C old_pw credential)),
                   (''new_password'', JStr (hash_password C new_pw credential))]
                (c\<lparr> c_change := Some (master_key (c_session c), derive_master_key C new_pw (c_account c)) \<rparr>))"

definition complete_password_change :: "crypto \<Rightarrow> unit ac" where
  "complete_password_change C c = (case c_change c of
       None \<Rightarrow> (Inr (), c)
     | Some (old, new) \<Rightarrow>
         scatch (sbind (of_session (rewrap_local_state C old new)) (\<lambda>_.
                 sbind (of_session (smod (\<lambda>s. s\<lparr> master_key := new \<rparr>))) (\<lambda>_.
                 upload_current_key_bundle C))) (\<lambda>_. sret ()) (c\<lparr> c_change := None \<rparr>))"

text \<open>After the question of the message box was answered with yes.\<close>

definition rotate_identity :: "crypto \<Rightarrow> unit ac" where
  "rotate_identity C c =
     (if \<not> a_active (c_app c) \<or> master_key (c_session c) = [] then (Inr (), c)
      else scatch (sbind (of_session (rotate_identity_commands C)) (\<lambda>(rotate_cmd, prekey_cmd).
             sbind (smod (\<lambda>c. c\<lparr> c_rotating := True, c_app := (c_app c)\<lparr> a_publish_blocked := False, a_bundle_ready := False,
                 a_kem_ready := False, a_uploading := (prekey_cmd \<noteq> []) \<rparr> \<rparr>)) (\<lambda>_.
             sbind (say rotate_cmd) (\<lambda>_.
               if prekey_cmd = [] then sret ()
               else on_app (sbind (safe_send prekey_cmd) (\<lambda>ok. if ok then sret () else smod (\<lambda>a. a\<lparr> a_uploading := False \<rparr>)))))))
             (\<lambda>_. smod (\<lambda>c. c\<lparr> c_rotating := False, c_app := (c_app c)\<lparr> a_uploading := False \<rparr> \<rparr>)) c)"

subsection \<open>The reply ok\<close>

definition fetch_avatar :: "int \<Rightarrow> unit ac" where
  "fetch_avatar u c = (if u \<in> c_avatars c then (Inr (), c)
     else say [(''type'', JStr ''get_profile''), (''user_id'', JInt u)] (c\<lparr> c_avatars := insert u (c_avatars c) \<rparr>))"

definition identity_rotated :: "crypto \<Rightarrow> unit ac" where
  "identity_rotated C =
     sbind (smod (\<lambda>c. c\<lparr> c_rotating := False, c_app := (c_app c)\<lparr> a_publish_blocked := False \<rparr>,
        c_server_pk := (if identity_pk (c_session c) = [] then [] else b64encode (identity_pk (c_session c))) \<rparr>)) (\<lambda>_.
     sbind (of_session (no_raise (load_pqxdh_prekeys C))) (\<lambda>store c.
       if store \<noteq> None \<and> \<not> a_uploading (c_app c) \<and> \<not> a_bundle_ready (c_app c)
       then sbind (on_app (publish_fresh_pqxdh_bundle_for_current_device C)) (\<lambda>_. sret ()) c
       else (Inr (), c)))"

text \<open>\<open>os.path.join(home, ".secchat", username)\<close>\<close>

definition account_dir :: "string \<Rightarrow> string \<Rightarrow> string" where
  "account_dir home name = (if starts_with name ''/'' then name else home @ ''/.secchat/'' @ name)"

text \<open>\<open>set_me\<close> asks for the own avatar; an id that is no integer is read as 0.\<close>

definition logged_in :: "crypto \<Rightarrow> string \<Rightarrow> string \<Rightarrow> int \<Rightarrow> unit ac" where
  "logged_in C home name me =
     sbind (smod (\<lambda>c0. let c = enter_dir (account_dir home name) c0; a = c_app c
        in c\<lparr> c_app := chat_reset (a\<lparr> a_session := (a_session a)\<lparr> master_key := derive_master_key C (c_password c) name, uid := me \<rparr>,
                a_active := True, a_action := [] \<rparr>),
              c_account := name, c_credential := c_email c, c_password := [] \<rparr>)) (\<lambda>_.
     sbind (on_app (in_chat (smod (\<lambda>g. g\<lparr> my_id := me \<rparr>)))) (\<lambda>_.
     sbind (if 0 < me then fetch_avatar me else sret ()) (\<lambda>_.
     sbind (on_app (smod (show_security_warning 0 []))) (\<lambda>_.
     sbind (of_session (load_cache_policy C)) (\<lambda>_.
     sbind (of_session (no_raise (enforce_cache_policy C))) (\<lambda>_.
     sbind (on_app (smod (\<lambda>a. a\<lparr> a_stack := 1 \<rparr>))) (\<lambda>_.
     sbind (ask ''get_my_keys'') (\<lambda>_.
     sbind (ask ''get_friends'') (\<lambda>_.
     sbind (ask ''get_requests'') (\<lambda>_.
     ask ''get_inbox''))))))))))"

definition registered :: "unit ac" where
  "registered = smod (\<lambda>c. send_now (auth_command (c_email c) (c_hash c))
     (c\<lparr> c_app := (c_app c)\<lparr> a_action := ''login'' \<rparr>, c_name := [] \<rparr>))"

definition handle_ok :: "crypto \<Rightarrow> string \<Rightarrow> dict \<Rightarrow> unit ac" where
  "handle_ok C home msg c =
     (let t = dget msg ''msg'' JNull; action = a_action (c_app c)
      in if t = JStr ''PQXDH bundle uploaded'' then on_app bundle_uploaded c
         else if t \<in> {JStr ''Avatar uploaded'', JStr ''Avatar removed''}
         then sbind (fetch_avatar (uid (c_session c))) (\<lambda>_. sbind (ask ''get_friends'') (\<lambda>_. ask ''get_inbox'')) c
         else if c_change c \<noteq> None \<and> t = JStr ''Password changed successfully'' then complete_password_change C c
         else if c_rotating c \<and> t = JStr ''Identity rotated'' then identity_rotated C c
         else if action = [] then (Inr (), c)
         else if action = ''reconnect'' then on_app reconnected c
         else if a_stack (c_app c) \<notin> {0, 2} then (Inr (), c)
         else if action = ''register'' then registered c
         else case dget msg ''username'' (JStr (c_email c)) of
                JStr name \<Rightarrow> logged_in C home name (case dget msg ''user_id'' (JInt 0) of JInt u \<Rightarrow> u | _ \<Rightarrow> 0) c
              | _ \<Rightarrow> (Inl (AttributeError ''lower''), c))"

subsection \<open>The reply error\<close>

definition NO_BUNDLE_WARNING :: string where
  "NO_BUNDLE_WARNING = ''This contact has not published SecChat encryption keys yet. Ask them to log in once, then retry the conversation.''"

definition NO_BUNDLE_TEXT :: string where
  "NO_BUNDLE_TEXT = ''This contact has not published encryption keys yet. Ask them to log in once, then try again.''"

definition error_text :: "dict \<Rightarrow> json" where
  "error_text msg = (let t = dget msg ''msg'' (JStr ''Error'') in if t = JStr ''Invalid credentials'' then JStr ''Email or password is incorrect'' else t)"

text \<open>The peer of the error is no longer waited for.\<close>

definition no_bundle_found :: "dict \<Rightarrow> json ac" where
  "no_bundle_found msg =
     sbind (slift (int_or_0 msg ''user_id'')) (\<lambda>peer.
     sbind (smod (\<lambda>c. let a = c_app c; conv = dget (a_pending_dm a) peer 0; a1 = a\<lparr> a_pending_dm := dpop (a_pending_dm a) peer \<rparr>
        in c\<lparr> c_app := (if 0 < conv then show_security_warning conv [NO_BUNDLE_WARNING] a1 else a1) \<rparr>)) (\<lambda>_.
     sret (JStr NO_BUNDLE_TEXT)))"

text \<open>\<open>fragment in text\<close>\<close>

definition fragment_in :: "json \<Rightarrow> string \<Rightarrow> bool res" where
  "fragment_in j f = (case j of
       JStr t \<Rightarrow> Inr (contains f t)
     | JArr xs \<Rightarrow> Inr (JStr f \<in> set xs)
     | JObj d \<Rightarrow> Inr (dhas d f)
     | _ \<Rightarrow> Inl (TypeError ''argument is not iterable''))"

definition is_send_error :: "json \<Rightarrow> bool res" where
  "is_send_error j = rbind (rmap (fragment_in j) SEND_ERRORS) (\<lambda>bs. Inr (True \<in> set bs))"

definition upload_refused :: "json \<Rightarrow> account \<Rightarrow> bool" where
  "upload_refused t c = (a_uploading (c_app c) \<and> t \<in> {JStr ''Identity change requires rotate_identity'', JStr ''Invalid PQXDH bundle'',
     JStr ''Failed to upload PQXDH bundle''})"

definition handle_error :: "dict \<Rightarrow> unit ac" where
  "handle_error msg =
     sbind (if error_text msg = JStr ''No PQXDH bundle found'' then no_bundle_found msg else sret (error_text msg)) (\<lambda>t c.
       if upload_refused t c then (Inr (), c\<lparr> c_app := (not_published (c_app c))\<lparr> a_publish_blocked := True \<rparr> \<rparr>)
       else if c_change c \<noteq> None then (Inr (), c\<lparr> c_change := None \<rparr>)
       else if c_rotating c then (Inr (), c\<lparr> c_rotating := False \<rparr>)
       else if a_stack (c_app c) \<noteq> 1 then (Inr (), c)
       else sbind (slift (is_send_error t)) (\<lambda>failed.
              if failed then on_app (in_chat (smod (mark_pending_sends_failed (py_str t)))) else sret ()) c)"

subsection \<open>The own keys after a login\<close>

definition initialize_mls_for_current_account :: "crypto \<Rightarrow> bool ac" where
  "initialize_mls_for_current_account C =
     scatch (sbind (\<lambda>c. of_session (initialize_mls_identity C (if c_credential c \<noteq> [] then c_credential c else c_account c) (a_version (c_app c))) c)
              (\<lambda>_. sret True))
       (\<lambda>_ c. (Inr False, if a_stack (c_app c) = 1
          then c\<lparr> c_app := show_security_warning 0 [''OpenMLS identity is not available on this VNC. Group E2EE will not be ready until the MLS bridge starts successfully.''] (c_app c) \<rparr>
          else c))"

definition publish_mls_key_packages :: "crypto \<Rightarrow> int \<Rightarrow> bool ac" where
  "publish_mls_key_packages C n c =
     (if \<not> a_active (c_app c) then (Inr False, c)
      else scatch (sbind (if mls_identity_ready (c_session c) then sret True else initialize_mls_for_current_account C) (\<lambda>ready.
             if \<not> ready then sret False
             else sbind (of_session (mls_key_package_upload_command C n)) (\<lambda>cmd.
                  sbind (on_app (safe_send cmd)) (\<lambda>ok.
                  sbind (smod (\<lambda>c. if ok then c\<lparr> c_packages := True \<rparr> else c)) (\<lambda>_. sret ok)))))
             (\<lambda>e c. (Inr False, c\<lparr> c_packages := False,
                c_app := show_security_warning 0 [''Could not publish MLS KeyPackages: '' @ exc_msg e] (c_app c) \<rparr>)) c)"

text \<open>The record of the server was found but holds no secret key: upload ours, unless the server has another identity.\<close>

definition backup_missing :: "crypto \<Rightarrow> dict \<Rightarrow> unit ac" where
  "backup_missing C msg c =
     (let server = str_or_empty msg ''identity_pk''; s = c_session c; own = (if identity_pk s = [] then [] else b64encode (identity_pk s))
      in if identity_sk s \<noteq> [] \<and> (server = [] \<or> same_identity_key server own) then upload_current_key_bundle C c
         else if server \<noteq> [] then (Inr (), c\<lparr> c_app := (not_published (c_app c))\<lparr> a_publish_blocked := True \<rparr> \<rparr>)
         else (Inr (), c))"

definition restore_own_keys :: "crypto \<Rightarrow> dict \<Rightarrow> bool ac" where
  "restore_own_keys C msg =
     sbind (of_session (restore_identity_key_record C msg)) (\<lambda>result.
       if \<not> truthy (dget result ''found'' JNull)
       then sbind (case dget result ''upload'' JNull of JObj (kv # d) \<Rightarrow> say (kv # d) | _ \<Rightarrow> sret ()) (\<lambda>_. sret True)
       else sbind (if truthy (dget result ''identity_secret_backup_missing'' JNull) then backup_missing C msg else sret ()) (\<lambda>_.
            if truthy (dget result ''identity_secret_restored'' JNull) then sret True
            else sbind (of_session (no_raise (load_pqxdh_prekeys C))) (\<lambda>store. sret (store = None))))"

definition handle_my_keys :: "crypto \<Rightarrow> dict \<Rightarrow> unit ac" where
  "handle_my_keys C msg =
     sbind (smod (\<lambda>c. c\<lparr> c_server_pk := str_or_empty msg ''identity_pk'',
        c_app := (c_app c)\<lparr> a_version := (case int_or_0 msg ''identity_version'' of Inl _ \<Rightarrow> 0 | Inr v \<Rightarrow> v) \<rparr> \<rparr>)) (\<lambda>_.
     sbind (scatch (restore_own_keys C msg) (\<lambda>_. sbind (upload_identity_bundle C) (\<lambda>_. sret True))) (\<lambda>publish.
     sbind (\<lambda>c. if publish \<and> \<not> a_publish_blocked (c_app c)
              then sbind (on_app (publish_fresh_pqxdh_bundle_for_current_device C)) (\<lambda>_. sret ()) c else (Inr (), c)) (\<lambda>_.
     sbind (initialize_mls_for_current_account C) (\<lambda>_.
     sbind (publish_mls_key_packages C 12) (\<lambda>_.
     ask ''get_my_pqxdh_status'')))))"

definition poll_status :: "unit ac" where
  "poll_status c = (if a_active (c_app c) then sbind (ask ''get_friends'') (\<lambda>_. ask ''get_inbox'') c else (Inr (), c))"

definition handle_session_replaced :: "unit ac" where
  "handle_session_replaced = smod (logout_local False)"

subsection \<open>What the steps do to the session\<close>

lemma of_session_run: "of_session m c = (case m (c_session c) of (r, s) \<Rightarrow> (r, c\<lparr> c_app := (c_app c)\<lparr> a_session := s \<rparr> \<rparr>))"
  by (simp add: of_session_def on_app_def in_session_def split: prod.split)

lemma schedule_session [simp]: "a_session (schedule_reconnect a) = a_session a"
  by (simp add: schedule_reconnect_def show_security_warning_def Let_def)

lemma net_close_session [simp]: "a_session (net_close a) = a_session a"
  by (simp add: net_close_def)

lemma say_run:
  obtains c' where "say obj c = (Inr (), c')" and "c_session c' = c_session c" and "\<exists>a. c' = c\<lparr> c_app := a \<rparr>"
proof -
  have "\<exists>ok a. safe_send obj (c_app c) = (Inr ok, a) \<and> a_session a = a_session (c_app c)"
    by (auto simp: safe_send_def split: option.splits bool.splits)
  then obtain ok a where "safe_send obj (c_app c) = (Inr ok, a)" "a_session a = a_session (c_app c)" by blast
  then show ?thesis using that [of "c\<lparr> c_app := a \<rparr>"] by (auto simp: say_def on_app_def sbind_def)
qed

text \<open>A part of the session, kept by an action on the session and by every message to the server.\<close>

definition part_is :: "(crypto_session \<Rightarrow> 'p) \<Rightarrow> 'p \<Rightarrow> account \<Rightarrow> bool" where
  "part_is part v c = (part (c_session c) = v)"

lemma part_of_session: "preserves (\<lambda>s. part s = v) m \<Longrightarrow> preserves (part_is part v) (of_session m)"
  by (auto simp: preserves_def part_is_def of_session_run split: prod.splits; metis snd_conv)

lemma part_say: "preserves (part_is part v) (say obj)"
  unfolding preserves_def part_is_def by (metis say_run snd_conv)

lemma part_ask: "preserves (part_is part v) (ask t)"
  unfolding ask_def by (rule part_say)

lemma part_upload:
  assumes "\<And>s k. part (s\<lparr> tick := k \<rparr>) = part s"
  shows "preserves (part_is part v) (upload_current_key_bundle C)"
proof -
  have "preserves (\<lambda>s. part s = v) (current_identity_key_record_command C)"
    using assms by (auto simp: preserves_def current_identity_key_record_command_def seal_key_def draw_def sbind_def split: sum.splits)
  then show ?thesis unfolding upload_current_key_bundle_def
    by (intro preserves_sbind part_of_session) (auto intro: part_say split: option.splits)
qed

subsection \<open>A password change\<close>

lemma preserves_smap: "(\<And>x. preserves P (f x)) \<Longrightarrow> preserves P (smap f xs)"
  by (induction xs) (simp_all add: preserves_sbind)

lemma rewrap_part:
  assumes "\<And>s k. part (s\<lparr> tick := k \<rparr>) = part s" and "\<And>s d. part (s\<lparr> disk := d \<rparr>) = part s"
  shows "preserves (\<lambda>s. part s = v) (rewrap_local_state C old new)"
proof -
  have seal: "preserves (\<lambda>s. part s = v) (seal_value C new j)" for j
    using assms by (simp add: preserves_def seal_value_def)
  have token: "preserves (\<lambda>s. part s = v) (rewrap_token C old new t)" for t
    unfolding rewrap_token_def by (intro preserves_sbind preserves_pure seal)
  have out: "preserves (\<lambda>s. part s = v) (sbind (smap (rewrap_token C old new) ts) (\<lambda>toks. smod (replace_file name (sealed_text b toks))))" for ts name b
    by (intro preserves_sbind preserves_smap token preserves_smod) (simp add: replace_file_def write_file_def remove_file_def assms)
  have files: "preserves (\<lambda>s. part s = v) (rewrap_file C old new b name)" for b name
    using out by (auto simp: preserves_def rewrap_file_def split: option.splits)
  have "preserves (\<lambda>s. part s = v) (sbind (smap (rewrap_file C old new False) ns) (\<lambda>_. sbind (sget (files_matching [''msgs_*.bin'']))
      (\<lambda>caches. sbind (smap (rewrap_file C old new True) caches) (\<lambda>_. sret ()))))" for ns
    by (intro preserves_sbind preserves_smap files preserves_pure)
  then show ?thesis by (auto simp: preserves_def rewrap_local_state_def)
qed

text \<open>The confirmation of the server.\<close>

definition password_changed :: dict where
  "password_changed = [(''type'', JStr ''ok''), (''msg'', JStr ''Password changed successfully'')]"

lemma confirmation_completes: "c_change c \<noteq> None \<Longrightarrow> handle_ok C home password_changed c = complete_password_change C c"
  by (simp add: handle_ok_def password_changed_def dget_def)

lemma change_requested:
  assumes "a_active (c_app c)" and "master_key (c_session c) \<noteq> []" and "c_account c \<noteq> []"
  obtains c1 where "change_password C old_pw new_pw c = (Inr (), c1)" and "c_session c1 = c_session c"
    and "c_change c1 = Some (master_key (c_session c), derive_master_key C new_pw (c_account c))"
    and "\<exists>a. c1 = c\<lparr> c_change := c_change c1, c_app := a \<rparr>"
proof -
  let ?c = "c\<lparr> c_change := Some (master_key (c_session c), derive_master_key C new_pw (c_account c)) \<rparr>"
  let ?cred = "if c_credential c \<noteq> [] then c_credential c else c_account c"
  obtain c1 where c1: "say [(''type'', JStr ''change_password''), (''old_password'', JStr (hash_password C old_pw ?cred)),
                   (''new_password'', JStr (hash_password C new_pw ?cred))] ?c = (Inr (), c1)" "c_session c1 = c_session ?c" "\<exists>a. c1 = ?c\<lparr> c_app := a \<rparr>"
    by (rule say_run)
  have "change_password C old_pw new_pw c = (Inr (), c1)" using assms c1(1) by (auto simp: change_password_def Let_def)
  moreover have "c_change c1 = c_change ?c" using c1(3) by auto
  ultimately show ?thesis using that [of c1] c1(2,3) by auto
qed

lemma enforce_policy_same: "same_policy s (snd (enforce_cache_policy C s))"
proof -
  obtain k t where f: "fold (enforce_file C) (filter is_msg_cache (map fst (disk s))) (0, s) = (k, t)" by fastforce
  then show ?thesis using enforce_fold_effect [OF f] clear_effect(1) by (simp add: enforce_cache_policy_def)
qed

lemma part_login:
  assumes "\<And>s f. part (cache_enabled_update f s) = part s" "\<And>s f. part (cache_ttl_days_update f s) = part s"
    "\<And>s f. part (cache_clear_on_logout_update f s) = part s" "\<And>s f. part (cache_disabled_convs_update f s) = part s"
    and "\<And>s t. same_policy s t \<Longrightarrow> part t = part s"
  shows "preserves (\<lambda>s. part s = v) (load_cache_policy C)" and "preserves (\<lambda>s. part s = v) (no_raise (enforce_cache_policy C))"
proof -
  have "preserves (\<lambda>s. part s = v) (sbind (logged (read_cache_policy C)) (\<lambda>_. sget get_cache_policy))"
    unfolding read_cache_policy_def logged_def
    by (intro preserves_sbind preserves_scatch preserves_pure preserves_smod) (simp_all add: assms(1-4))
  then show "preserves (\<lambda>s. part s = v) (load_cache_policy C)" by (auto simp: preserves_def load_cache_policy_def)
  show "preserves (\<lambda>s. part s = v) (no_raise (enforce_cache_policy C))"
    using assms(5) [OF enforce_policy_same [of _ C]] by (auto simp: preserves_def no_raise_def case_prod_unfold)
qed

lemma login_key: "master_key (c_session (snd (logged_in C home name me c))) = derive_master_key C (c_password c) name"
proof -
  define k where "k = derive_master_key C (c_password c) name"
  define f where "f = (\<lambda>c0. let c = enter_dir (account_dir home name) c0; a = c_app c
        in c\<lparr> c_app := chat_reset (a\<lparr> a_session := (a_session a)\<lparr> master_key := derive_master_key C (c_password c) name, uid := me \<rparr>,
                a_active := True, a_action := [] \<rparr>),
              c_account := name, c_credential := c_email c, c_password := [] \<rparr>)"
  have policy: "preserves (part_is master_key k) (of_session (load_cache_policy C))"
    "preserves (part_is master_key k) (of_session (no_raise (enforce_cache_policy C)))"
    by (intro part_of_session part_login; simp add: same_policy_def)+
  have avatar: "preserves (part_is master_key k) (if 0 < me then fetch_avatar me else sret ())"
  proof -
    have "preserves (part_is master_key k) (fetch_avatar me)"
      using preservesD [OF part_say [of master_key k]] by (auto simp: preserves_def fetch_avatar_def part_is_def)
    then show ?thesis by simp
  qed
  have ui: "preserves (part_is master_key k) (on_app (smod h))" if "\<And>a. a_session (h a) = a_session a" for h
    using that by (simp add: preserves_def part_is_def on_app_def)
  have chat: "preserves (part_is master_key k) (on_app (in_chat m))" for m :: "unit pg"
    by (simp add: preserves_def part_is_def on_app_def in_chat_def split: prod.split)
  have start: "part_is master_key k (f c)"
    by (simp add: f_def part_is_def chat_reset_def enter_dir_def leave_dir_def Let_def k_def)
  have "part_is master_key k (snd (logged_in C home name me c))"
    unfolding logged_in_def f_def [symmetric]
    by (subst sbind_ok [OF smod_run], rule preservesD [where P = "part_is master_key k", OF _ start])
       (intro preserves_sbind avatar policy part_ask ui chat; simp add: show_security_warning_def Let_def)
  then show ?thesis by (simp add: part_is_def k_def)
qed

lemma completed_change:
  assumes "c_change c = Some (old, new)" and "rewrap_local_state C old new (c_session c) = (Inr (), s')"
    and "complete_password_change C c = (r, c')"
  shows "disk (c_session c') = disk s'" and "master_key (c_session c') = new" and "c_change c' = None"
proof -
  let ?c = "c\<lparr> c_change := None, c_app := (c_app c)\<lparr> a_session := s'\<lparr> master_key := new \<rparr> \<rparr> \<rparr>"
  have c': "c' = snd (upload_current_key_bundle C ?c)"
    using assms by (auto simp: complete_password_change_def scatch_def sbind_def of_session_run split: prod.splits sum.splits)
  have "part_is (\<lambda>s. (disk s, master_key s)) (disk s', new) c'"
    unfolding c' by (rule preservesD [OF part_upload]) (simp_all add: part_is_def)
  then show "disk (c_session c') = disk s'" "master_key (c_session c') = new" by (simp_all add: part_is_def)
  have "preserves (\<lambda>c. c_change c = None) (upload_current_key_bundle C)"
    unfolding upload_current_key_bundle_def
    by (intro preserves_sbind) (auto simp: preserves_def of_session_run say_def on_app_def sbind_def split: prod.splits option.splits sum.splits)
  from preservesD [OF this, of ?c] show "c_change c' = None" by (simp add: c')
qed

definition login_reply :: "string \<Rightarrow> int \<Rightarrow> dict" where
  "login_reply name me = [(''type'', JStr ''ok''), (''msg'', JStr ''Login successful''), (''user_id'', JInt me), (''username'', JStr name)]"

lemma login_completes:
  assumes "a_action (c_app d) = ''login''" and "a_stack (c_app d) = 0"
  shows "handle_ok C home (login_reply name me) d = logged_in C home name me d"
  using assms by (simp add: handle_ok_def login_reply_def dget_def)

text \<open>
  C11: (roundtrip) A password change that the server confirms loses nothing: when every line of every state file of the
  login opens under its master key, and every file but the message caches holds one line, then after the request and
  the confirmation every file holds, under the new master key, the entries it held before, and a later login with the
  new password, on whatever state of the client, derives that master key. A file with a line that does not open stops
  the change midway and leaves two keys in use (\<open>Local_State.rewrap_splits_keys\<close>).
\<close>

theorem password_change_keeps_state:
  assumes "a_active (c_app c)" and "master_key (c_session c) \<noteq> []" and "c_account c \<noteq> []" and "secchat_dir (c_session c) \<noteq> []"
    and "distinct (map fst (disk (c_session c)))" and "can_seal C (derive_master_key C new_pw (c_account c))"
    and "\<forall>n. single_name n \<longrightarrow> readable C (master_key (c_session c)) False (c_session c) n"
    and "\<forall>n. cache_name n \<longrightarrow> readable C (master_key (c_session c)) True (c_session c) n"
    and "change_password C old_pw new_pw c = (Inr (), c1)" and "handle_ok C home password_changed c1 = (r, c2)"
    and "a_action (c_app d) = ''login''" and "a_stack (c_app d) = 0" and "c_password d = new_pw"
  shows "(\<forall>n. single_name n \<or> cache_name n \<longrightarrow>
       contents C (master_key (c_session c2)) (c_session c2) n = contents C (master_key (c_session c)) (c_session c) n)
    \<and> master_key (c_session (snd (handle_ok C home (login_reply (c_account c) me) d))) = master_key (c_session c2)"
proof -
  let ?old = "master_key (c_session c)" and ?new = "derive_master_key C new_pw (c_account c)"
  have c1: "c_session c1 = c_session c" "c_change c1 = Some (?old, ?new)"
    using change_requested [OF assms(1-3), of C old_pw new_pw] assms(9) by auto
  obtain s' where s': "rewrap_local_state C ?old ?new (c_session c1) = (Inr (), s')"
    "\<forall>n. single_name n \<or> cache_name n \<longrightarrow> contents C ?new s' n = contents C ?old (c_session c) n"
    using rewrap_keeps_contents [OF assms(6,4,5,7,8)] c1(1) by auto
  have "complete_password_change C c1 = (r, c2)" using assms(10) c1(2) by (simp add: confirmation_completes)
  note c2 = completed_change [OF c1(2) s'(1) this]
  have "contents C ?new (c_session c2) n = contents C ?new s' n" for n by (simp add: contents_def c2(1))
  then show ?thesis using s'(2) c2(2) assms(13) by (simp add: login_completes [OF assms(11,12)] login_key)
qed

definition demo_account :: "crypto_session \<Rightarrow> account" where
  "demo_account s = \<lparr> c_app = demo_app\<lparr> a_session := s \<rparr>, c_email = ''a@b'', c_hash = ''h'', c_name = [], c_password = [], c_account = ''ann'',
     c_credential = ''a@b'', c_last_email = ''a@b'', c_last_hash = ''h'', c_change = None, c_rotating = False, c_server_pk = [],
     c_packages = False, c_avatars = {}, c_homes = [] \<rparr>"

lemma demo_account_facts [simp]:
  "c_session (demo_account s) = s" "a_active (c_app (demo_account s))" "c_account (demo_account s) = ''ann''" "c_change (demo_account s) = None"
  by (simp_all add: demo_account_def demo_app_def)

lemma demo_derived: "can_seal toy_crypto (derive_master_key toy_crypto ''new'' ''ann'')"
  using demo_can_seal(1) by (simp add: can_seal_def derive_master_key_def toy_crypto_def pad_to_def)

theorem password_change_keeps_state_witness:
  "\<exists>token c2. snd (handle_ok toy_crypto ''/home'' password_changed
        (snd (change_password toy_crypto ''old'' ''new'' (demo_account (demo_files [(identity_key_path, token)]))))) = c2
     \<and> contents toy_crypto (master_key (c_session c2)) (c_session c2) identity_key_path = Some (Inr [JStr ''key''])
     \<and> master_key (c_session (snd (handle_ok toy_crypto ''/home'' (login_reply ''ann'' 1)
          (do_login True ''a@b'' ''h'' ''new'' (logout_local True c2))))) = master_key (c_session c2)"
proof -
  obtain token where t: "clean_token token" "decrypt_with_key toy_crypto (master_key demo_session) token None = Inr (JStr ''key'')"
    by (rule demo_token)
  let ?s = "demo_files [(identity_key_path, token)]"
  let ?c = "demo_account ?s"
  have s: "master_key ?s = master_key demo_session" "master_key ?s \<noteq> []" "secchat_dir ?s \<noteq> []" "distinct (map fst (disk ?s))"
    by (simp_all add: demo_files_def demo_session_def)
  have other: "readable toy_crypto (master_key demo_session) m ?s n" if "n \<noteq> identity_key_path" for n m
    using that by (simp add: readable_def contents_def demo_files_def)
  have name: "single_name identity_key_path" by (simp add: single_name_def FIXED_FILES_def)
  have single: "\<forall>n. single_name n \<longrightarrow> readable toy_crypto (master_key ?s) False ?s n" using other demo_contents(2) [OF t, of "[]"] s(1) by metis
  have cache: "\<forall>n. cache_name n \<longrightarrow> readable toy_crypto (master_key ?s) True ?s n" using other state_names_end(3) [OF name] s(1) by metis
  obtain c1 where c1: "change_password toy_crypto ''old'' ''new'' ?c = (Inr (), c1)"
    by (rule change_requested [of ?c toy_crypto "''old''" "''new''"]) (use s(2) in simp_all)
  obtain r c2 where c2: "handle_ok toy_crypto ''/home'' password_changed c1 = (r, c2)" by fastforce
  let ?d = "do_login True ''a@b'' ''h'' ''new'' (logout_local True c2)"
  have d: "a_action (c_app ?d) = ''login''" "a_stack (c_app ?d) = 0" "c_password ?d = ''new''"
    by (simp_all add: do_login_def begin_auth_def init_session_state_def leave_dir_def teardown_ws_def logout_local_def chat_reset_def Let_def)
  note all = password_change_keeps_state [of ?c toy_crypto "''new''" "''old''" c1 "''/home''" r c2 ?d 1]
  have "contents toy_crypto (master_key (c_session c2)) (c_session c2) identity_key_path = Some (Inr [JStr ''key''])
     \<and> master_key (c_session (snd (handle_ok toy_crypto ''/home'' (login_reply ''ann'' 1) ?d))) = master_key (c_session c2)"
    using all s single cache c1 c2 d demo_derived demo_contents(1) [OF t, of "[]"] name by simp
  then show ?thesis using c1 c2 by (intro exI [of _ token] exI [of _ c2]) simp
qed

subsection \<open>An error while the password changes\<close>

lemma wrong_key_fails:
  assumes "aead_bound C" and "encrypt_with_key C nonce ts old p = Inr token" and "length nonce = 12" and "new \<noteq> old"
  obtains e where "decrypt_with_key C new token None = Inl e" and "clean_token token"
proof -
  let ?inner = "dumps_plain (JObj [(''ts'', JInt ts), (''body'', JStr p)])"
  have t: "token = b64encode (nonce @ aes_enc C old nonce ?inner [])"
    using assms(2) by (auto simp: encrypt_with_key_def aesgcm_encrypt_def rguard_def Let_def split: if_splits)
  have "aes_dec C new nonce (aes_enc C old nonce ?inner []) [] = None"
    using assms(1,4) unfolding aead_bound_def by blast
  then have "\<exists>e. decrypt_with_key C new token None = Inl e"
    using assms(3) by (auto simp: decrypt_with_key_def t aesgcm_decrypt_def rguard_def)
  moreover have "clean_token token" unfolding t by (rule b64_token) (use assms(3) in auto)
  ultimately show ?thesis using that by blast
qed

lemma error_drops_change:
  assumes "c_change c \<noteq> None" and "\<not> upload_refused (error_text msg) c" and "handle_error msg c = (Inr (), c1)"
  shows "c_change c1 = None" and "c_session c1 = c_session c" and "a_action (c_app c1) = a_action (c_app c)"
  using assms
  by (auto simp: handle_error_def no_bundle_found_def upload_refused_def NO_BUNDLE_TEXT_def sbind_def show_security_warning_def Let_def
      split: if_splits sum.splits)

text \<open>A login whose identity file and whose backup on the server are sealed under another key makes a new identity.\<close>

lemma sealed_elsewhere_replaced:
  assumes "aead_bound C" and "key_ok C s" and "can_store s" and "master_key s \<noteq> old"
    and "map_of (disk s) identity_key_path = Some token" and "encrypt_with_key C n ts old p = Inr token" and "length n = 12"
    and "truthy (dget msg ''found'' JNull)" and "dget msg ''identity_sk_enc'' (JStr []) = JStr enc"
    and "encrypt_with_key C n' ts' old p' = Inr enc" and "length n' = 12"
  obtains s' where "restore_identity_key_record C msg s
       = (Inr [(''found'', JBool True), (''identity_secret_restored'', JBool False), (''identity_secret_backup_missing'', JBool False)], s')"
    and "identity_sk s' = ed_seed C (tick s)" and "stores C s' identity_key_path (b64encode (ed_seed C (tick s)))"
proof -
  obtain e1 where e1: "decrypt_with_key C (master_key s) token None = Inl e1" "clean_token token"
    by (rule wrong_key_fails [OF assms(1,6,7,4)])
  obtain e2 where e2: "decrypt_with_key C (master_key s) enc None = Inl e2" "clean_token enc"
    by (rule wrong_key_fails [OF assms(1,10,11,4)])
  have secret: "restore_identity_secret C (JStr enc) claimed s = (Inl e2, s)" for claimed
    using e2(1) by (simp add: restore_identity_secret_def decrypt_key_with_master_def open_at_rest_def as_str_def sbind_def)
  have "read_sealed C s identity_key_path = Inl e1"
    using assms(5) e1 by (simp add: read_sealed_def unseal_text_def open_at_rest_def clean_token_props)
  then have read: "read_identity_key C s = (Inl e1, s)" by (simp add: read_identity_key_def sbind_def)
  let ?s = "s\<lparr> tick := tick s + 1, identity_pk := fst (identity_keygen C (tick s)), identity_sk := snd (identity_keygen C (tick s)) \<rparr>"
  have "length (ed_seed C (tick s)) = 32" using assms(2) by (simp add: key_ok_def sizes_okD)
  then have sk: "identity_sk ?s \<noteq> []" by (auto simp: identity_keygen_def)
  obtain s' where s': "save_identity_key C ?s = (Inr (), s')" "stores C s' identity_key_path (b64encode (identity_sk ?s))"
    "s' = ?s\<lparr> tick := tick ?s + 1, disk := disk s' \<rparr>"
    by (rule saved_identity [OF _ _ sk]) (use assms(2,3) in \<open>auto simp: key_ok_def can_store_def\<close>)
  have "load_or_create_identity_key C s = (Inr (), s')"
    using assms(3,5) read s'(1)
    by (simp add: load_or_create_identity_key_def has_file_def dhas_def scatch_def create_identity_key_def sbind_def)
  then have "restore_identity_key_record C msg s
       = (Inr [(''found'', JBool True), (''identity_secret_restored'', JBool False), (''identity_secret_backup_missing'', JBool False)], s')"
    using assms(8,9) secret e2(2) by (simp add: restore_identity_key_record_def Let_def py_or_def clean_token_def sbind_def)
  moreover have "identity_sk s' = ed_seed C (tick s)" by (subst s'(3)) (simp add: identity_keygen_def)
  ultimately show ?thesis using that s'(2) by (simp add: identity_keygen_def)
qed

text \<open>
  C12: (error) While a password change waits for its answer, any error of the server makes the client forget
  the change, whatever request the error answers; only the refusal of a key bundle whose upload is
  pending is dealt with before. When the server then confirms the change, nothing is sealed again. At the next
  login, with the new password, neither the identity file nor the backup on the server opens, and the client
  writes a fresh identity key over the file. No login or registration is waiting meanwhile, and handling the
  error raises no exception itself.
\<close>

theorem error_during_change_costs_identity:
  assumes "aead_bound C" and "c_change c = Some (old, new)" and "new \<noteq> old" and "\<not> upload_refused (error_text err) c" and "a_action (c_app c) = []"
    and "handle_error err c = (Inr (), c1)" and "handle_ok C home password_changed c1 = (r, c2)"
    and "map_of (disk (c_session c)) identity_key_path = Some token" and "encrypt_with_key C n ts old p = Inr token" and "length n = 12"
    and "disk (c_session d) = disk (c_session c2)" and "master_key (c_session d) = new" and "key_ok C (c_session d)" and "can_store (c_session d)"
    and "truthy (dget msg ''found'' JNull)" and "dget msg ''identity_sk_enc'' (JStr []) = JStr enc"
    and "encrypt_with_key C n' ts' old p' = Inr enc" and "length n' = 12" and "restore_own_keys C msg d = (q, d')"
  shows "c_session c2 = c_session c \<and> identity_sk (c_session d') = ed_seed C (tick (c_session d))
    \<and> stores C (c_session d') identity_key_path (b64encode (ed_seed C (tick (c_session d))))"
proof -
  have c1: "c_change c1 = None" "c_session c1 = c_session c" "a_action (c_app c1) = []"
    using error_drops_change [OF _ assms(4,6)] assms(2,5) by simp_all
  then have c2: "c2 = c1" using assms(7) by (simp add: handle_ok_def password_changed_def dget_def)
  have stored: "map_of (disk (c_session d)) identity_key_path = Some token" using assms(8,11) c1(2) c2 by simp
  have key: "master_key (c_session d) \<noteq> old" using assms(3,12) by simp
  obtain s' where s': "restore_identity_key_record C msg (c_session d)
       = (Inr [(''found'', JBool True), (''identity_secret_restored'', JBool False), (''identity_secret_backup_missing'', JBool False)], s')"
    "identity_sk s' = ed_seed C (tick (c_session d))" "stores C s' identity_key_path (b64encode (ed_seed C (tick (c_session d))))"
    by (rule sealed_elsewhere_replaced [OF assms(1,13,14) key stored assms(9,10,15-18)])
  obtain o' t where t: "load_pqxdh_prekeys C s' = (o', t)" by fastforce
  then have "identity_sk t = identity_sk s'" "disk t = disk s'" "master_key t = master_key s'"
    by (auto simp: load_pqxdh_prekeys_def split: if_splits sum.splits)
  moreover have "c_session d' = t"
    using assms(19) s'(1) t by (auto simp: restore_own_keys_def sbind_def of_session_run no_raise_def dget_def)
  ultimately show ?thesis using s'(2,3) stores_cong [OF s'(3), of t] c1(2) c2 by simp
qed

theorem error_during_change_costs_identity_witness:
  "\<exists>token d'. decrypt_with_key toy_crypto (master_key demo_session) token None = Inr (JStr ''key'')
     \<and> restore_own_keys toy_crypto [(''found'', JBool True), (''identity_sk_enc'', JStr token)]
          (demo_account (demo_session\<lparr> master_key := demo_new_key,
             disk := disk (c_session (snd (handle_ok toy_crypto ''/home'' password_changed (snd (handle_error [(''msg'', JStr ''Rate limit exceeded'')]
               ((demo_account (demo_files [(identity_key_path, token)]))\<lparr> c_change := Some (master_key demo_session, demo_new_key) \<rparr>)))))) \<rparr>)) = d'
     \<and> stores toy_crypto (c_session (snd d')) identity_key_path (b64encode (ed_seed toy_crypto 0))"
proof -
  let ?k = "master_key demo_session" and ?n = "replicate 12 (CHR ''n'')"
  have "length ?k = 32" by (simp add: demo_session_def)
  then obtain token where token: "encrypt_with_key toy_crypto ?n 1 ?k ''key'' = Inr token"
    using encrypt_with_key_total [of ?k ?n toy_crypto 1 "''key''"] by auto
  have sealed: "decrypt_with_key toy_crypto ?k token None = Inr (JStr ''key'')"
    using decrypt_with_key_sealed [OF _ _ token, of None] demo_can_seal(2) by (simp add: seal_ok_def can_seal_def ascii_utf8 is_ascii_def)
  let ?c = "(demo_account (demo_files [(identity_key_path, token)]))\<lparr> c_change := Some (?k, demo_new_key) \<rparr>"
  let ?e = "[(''msg'', JStr ''Rate limit exceeded'')]" and ?msg = "[(''found'', JBool True), (''identity_sk_enc'', JStr token)]"
  obtain c1 where c1: "handle_error ?e ?c = (Inr (), c1)"
    by (simp add: handle_error_def error_text_def dget_def upload_refused_def sbind_def demo_account_def demo_app_def)
  obtain r c2 where c2: "handle_ok toy_crypto ''/home'' password_changed c1 = (r, c2)" by fastforce
  let ?d = "demo_account (demo_session\<lparr> master_key := demo_new_key, disk := disk (c_session c2) \<rparr>)"
  obtain q d' where d': "restore_own_keys toy_crypto ?msg ?d = (q, d')" by fastforce
  have key: "key_ok toy_crypto (c_session ?d)" "can_store (c_session ?d)" "demo_new_key \<noteq> ?k"
    using demo_can_seal(1) by (auto simp: key_ok_def can_seal_def can_store_def demo_session_def demo_new_key_def)
  have "stores toy_crypto (c_session d') identity_key_path (b64encode (ed_seed toy_crypto (tick (c_session ?d))))"
    by (rule conjunct2 [OF conjunct2 [OF error_during_change_costs_identity [OF toy_bound _ key(3) _ _ c1 c2 _ token _ _ _ key(1,2) _ _ token _ d']]])
       (simp_all add: demo_account_def demo_app_def demo_files_def dget_def upload_refused_def)
  then show ?thesis using sealed c1 c2 d' by (intro exI [of _ token] exI [of _ "(q, d')"]) (auto simp: demo_session_def)
qed

subsection \<open>Reconnecting after a password change\<close>

text \<open>A client on the chat page that would log in again, and the credentials it would use.\<close>

definition would_reconnect :: "string \<Rightarrow> string \<Rightarrow> account \<Rightarrow> bool" where
  "would_reconnect email pw_hash c = (a_stack (c_app c) = 1 \<and> a_login (c_app c) \<and> a_ws (c_app c) \<noteq> None
     \<and> c_last_email c = email \<and> c_last_hash c = pw_hash)"

lemma reconnect_say: "preserves (would_reconnect email pw_hash) (say obj)"
  by (auto simp: preserves_def would_reconnect_def say_def on_app_def sbind_def safe_send_def net_close_def schedule_reconnect_def
      show_security_warning_def Let_def split: option.splits bool.splits)

lemma reconnect_session: "preserves (would_reconnect email pw_hash) (of_session m)"
  by (auto simp: preserves_def would_reconnect_def of_session_run split: prod.splits)

lemma would_reconnect_change [simp]: "would_reconnect email pw_hash (c\<lparr> c_change := x \<rparr>) = would_reconnect email pw_hash c"
  by (simp add: would_reconnect_def)

lemma reconnect_change: "preserves (would_reconnect email pw_hash) (change_password C old_pw new_pw)"
  unfolding preserves_def change_password_def Let_def
  by (auto intro!: preservesD [OF reconnect_say])

lemma reconnect_complete: "preserves (would_reconnect email pw_hash) (complete_password_change C)"
proof -
  have up: "preserves (would_reconnect email pw_hash) (upload_current_key_bundle C)"
    unfolding upload_current_key_bundle_def
    by (intro preserves_sbind reconnect_session) (auto intro: reconnect_say split: option.splits)
  have "preserves (would_reconnect email pw_hash) (scatch (sbind (of_session (rewrap_local_state C old new)) (\<lambda>_.
      sbind (of_session (smod (\<lambda>s. s\<lparr> master_key := new \<rparr>))) (\<lambda>_. upload_current_key_bundle C))) (\<lambda>_. sret ()))" for old new
    by (intro preserves_scatch preserves_sbind reconnect_session up preserves_pure)
  from preservesD [OF this] show ?thesis
    unfolding preserves_def complete_password_change_def by (auto split: option.splits)
qed

text \<open>The connection is lost, the timer runs out, and the new socket opens.\<close>

definition connection_back :: "account \<Rightarrow> account" where
  "connection_back c = (let c1 = reconnect (c\<lparr> c_app := net_close (c_app c) \<rparr>) in net_open (c1\<lparr> c_app := (c_app c1)\<lparr> a_ws := Some True \<rparr> \<rparr>))"

lemma connection_back_auth:
  assumes "would_reconnect email pw_hash c" and "email \<noteq> []"
  shows "a_sent (c_app (connection_back c)) = a_sent (c_app c) @ [auth_command email pw_hash]"
  using assms
  by (auto simp: connection_back_def reconnect_def net_open_def send_now_def would_reconnect_def attempt_reconnect_def net_close_def
      schedule_reconnect_def show_security_warning_def Let_def)

text \<open>
  C13: (error) After a confirmed password change the client still reconnects with the old password: when the connection is lost and
  comes back, the last command sent is the authentication with the hash kept from the login.
\<close>

theorem reconnect_uses_old_password:
  assumes "would_reconnect email (hash_password C old_pw email) c" and "email \<noteq> []"
    and "change_password C old_pw new_pw c = (Inr (), c1)" and "c_change c1 \<noteq> None" and "handle_ok C home password_changed c1 = (r, c2)"
  shows "last (a_sent (c_app (connection_back c2))) = auth_command email (hash_password C old_pw email)"
proof -
  have "would_reconnect email (hash_password C old_pw email) c1" using preservesD [OF reconnect_change assms(1)] assms(3) by (metis snd_conv)
  then have "would_reconnect email (hash_password C old_pw email) c2"
    using preservesD [OF reconnect_complete] assms(4,5) by (metis confirmation_completes snd_conv)
  then show ?thesis using assms(2) by (simp add: connection_back_auth)
qed

theorem reconnect_uses_old_password_witness:
  "last (a_sent (c_app (connection_back (snd (handle_ok toy_crypto ''/home'' password_changed (snd (change_password toy_crypto ''old'' ''new''
      ((demo_account demo_session)\<lparr> c_last_hash := hash_password toy_crypto ''old'' ''a@b'' \<rparr>))))))))
    = auth_command ''a@b'' (hash_password toy_crypto ''old'' ''a@b'')"
proof -
  let ?c = "(demo_account demo_session)\<lparr> c_last_hash := hash_password toy_crypto ''old'' ''a@b'' \<rparr>"
  have w: "would_reconnect ''a@b'' (hash_password toy_crypto ''old'' ''a@b'') ?c" by (simp add: would_reconnect_def demo_account_def demo_app_def)
  obtain c1 where c1: "change_password toy_crypto ''old'' ''new'' ?c = (Inr (), c1)" "c_change c1 \<noteq> None"
    by (rule change_requested [of ?c toy_crypto "''old''" "''new''"]) (auto simp: demo_account_def demo_app_def demo_session_def)
  obtain r c2 where c2: "handle_ok toy_crypto ''/home'' password_changed c1 = (r, c2)" by fastforce
  show ?thesis using reconnect_uses_old_password [OF w _ c1 c2] c1 c2 by simp
qed

subsection \<open>Logging out and in again\<close>

lemma send_now_session [simp]: "c_session (send_now obj c) = c_session c"
  by (simp add: send_now_def split: option.split bool.split)

lemma send_now_homes [simp]: "c_homes (send_now obj c) = c_homes c"
  by (simp add: send_now_def split: option.split bool.split)

lemma leave_dir_ws [simp]: "a_ws (c_app (leave_dir c)) = a_ws (c_app c)"
  by (simp add: leave_dir_def Let_def)

lemma clear_session_dir [simp]: "secchat_dir (snd (clear_message_cache conv s)) = secchat_dir s"
  using clear_effect(1) [of s conv] by (simp add: same_policy_def)

text \<open>What the directory of the login holds once it is logged out.\<close>

lemma logout_files:
  assumes "secchat_dir (c_session c) \<noteq> []"
  shows "map_of (c_homes (logout_local notify c)) (secchat_dir (c_session c))
    = Some (disk (if cache_clear_on_logout (c_session c) then snd (clear_message_cache None (c_session c)) else c_session c))"
  using assms by (simp add: logout_local_def init_session_state_def leave_dir_def teardown_ws_def Let_def update_conv')

text \<open>
  Logging out forgets the secrets: no key, no ratchet, no text that waits for its echo, no history, no password hash and no open
  socket is left, and where the policy says so no message cache is left in the directory.
\<close>

theorem logout_forgets:
  assumes "secchat_dir (c_session c) \<noteq> []" and "c' = logout_local notify c"
  shows "master_key (c_session c') = [] \<and> identity_sk (c_session c') = [] \<and> pqxdh_prekeys (c_session c') = None \<and> ratchets (c_session c') = []
    \<and> a_texts (c_app c') = [] \<and> hist (a_chat (c_app c')) = [] \<and> c_password c' = [] \<and> c_last_hash c' = [] \<and> c_change c' = None
    \<and> a_ws (c_app c') = None
    \<and> (cache_clear_on_logout (c_session c) \<longrightarrow> \<not> dhas (dget (c_homes c') (secchat_dir (c_session c)) []) (msg_cache_path conv))"
proof -
  have "\<not> dhas (dget (c_homes c') (secchat_dir (c_session c)) []) (msg_cache_path conv)" if "cache_clear_on_logout (c_session c)"
    using clear_removes [OF assms(1), of None conv] logout_files [OF assms(1), of notify] that
    by (simp add: assms(2) dget_def has_file_def)
  then show ?thesis
    by (simp add: assms(2) logout_local_def init_session_state_def teardown_ws_def chat_reset_def session_reset_def Let_def)
qed

text \<open>The server chooses the directory of a login: an absolute user name is the directory itself.\<close>

lemma server_chooses_directory: "account_dir home (''/'' @ rest) = ''/'' @ rest" "account_dir home ''../x'' = home @ ''/.secchat/../x''"
  by (simp_all add: account_dir_def starts_with_def)

text \<open>A registration that is accepted goes on with the login on the same socket.\<close>

lemma registration_logs_in:
  assumes "a_ws (c_app c) = Some True" and "a_action (c_app c) = ''register''" and "a_stack (c_app c) = 2" and "c_change c = None" and "\<not> c_rotating c"
    and "dget msg ''msg'' JNull = JStr ''Registration successful''"
  shows "\<exists>c'. handle_ok C home msg c = (Inr (), c') \<and> a_action (c_app c') = ''login'' \<and> c_password c' = c_password c
    \<and> a_sent (c_app c') = a_sent (c_app c) @ [auth_command (c_email c) (c_hash c)]"
  using assms by (simp add: handle_ok_def registered_def send_now_def)

end
