(* ===== verification/App_Files.thy ===== *)
theory App_Files
  imports App_Retry
begin

text \<open>
  Files (\<open>client/app.py\<close>, \<open>_send_file\<close>, and \<open>client/pages/chat_page.py\<close>, \<open>_parse_file_payload\<close>): a file travels as a text, its name,
  type and size in JSON before its content in Base64. Reading the file and writing the copy that is shown are I/O: the model has
  their contents.
\<close>

subsection \<open>Names and types\<close>

text \<open>\<open>os.path.splitext(name)[1]\<close>\<close>

definition splitext_ext :: "string \<Rightarrow> string" where
  "splitext_ext name =
     (let base = rev (takeWhile (\<lambda>c. c \<noteq> CHR ''/'') (rev name)); e = rev (takeWhile (\<lambda>c. c \<noteq> CHR ''.'') (rev base));
          front = take (length base - length e - 1) base
      in if CHR ''.'' \<notin> set base \<or> list_all (\<lambda>c. c = CHR ''.'') front then [] else CHR ''.'' # e)"

definition MIME_TYPES :: "(string \<times> string) list" where
  "MIME_TYPES = [(''.png'', ''image/png''), (''.jpg'', ''image/jpeg''), (''.jpeg'', ''image/jpeg''), (''.gif'', ''image/gif''),
     (''.bmp'', ''image/bmp''), (''.webp'', ''image/webp''), (''.svg'', ''image/svg+xml''), (''.mp4'', ''video/mp4''), (''.webm'', ''video/webm''),
     (''.avi'', ''video/x-msvideo''), (''.mov'', ''video/quicktime''), (''.mkv'', ''video/x-matroska''), (''.pdf'', ''application/pdf''),
     (''.zip'', ''application/zip''), (''.txt'', ''text/plain''), (''.doc'', ''application/msword''),
     (''.docx'', ''application/vnd.openxmlformats-officedocument.wordprocessingml.document'')]"

definition guess_mime :: "string \<Rightarrow> string" where
  "guess_mime name = dget MIME_TYPES (lower (splitext_ext name)) ''application/octet-stream''"

definition MAX_FILE_SIZE :: nat where
  "MAX_FILE_SIZE = 1 * 1024 * 1024"

subsection \<open>Sending\<close>

definition file_meta :: "string \<Rightarrow> bytes \<Rightarrow> json" where
  "file_meta name raw = JObj [(''name'', JStr name), (''mime'', JStr (guess_mime name)), (''size'', JInt (int (length raw)))]"

definition file_body :: "string \<Rightarrow> bytes \<Rightarrow> string" where
  "file_body name raw = ''FILE:'' @ dumps_default (file_meta name raw) @ '':'' @ b64encode raw"

definition send_file_wire :: "int \<Rightarrow> string \<Rightarrow> string \<Rightarrow> string \<Rightarrow> unit ap" where
  "send_file_wire conv path body wire =
     sbind (in_chat (no_raise (show_send_pending conv body path 0))) (\<lambda>pending_id.
     sbind (smod (\<lambda>a. push_id conv pending_id (push_text conv body a))) (\<lambda>_.
     sbind (safe_send (message_command conv wire 0)) (\<lambda>ok.
       if ok then sret ()
       else smod (\<lambda>a. let a1 = unpush conv (a\<lparr> a_chat := remove_pending_send conv [] pending_id (a_chat a) \<rparr>)
                      in a1\<lparr> a_chat := show_send_failed conv body NO_CONNECTION path (a_chat a1) \<rparr>))))"

text \<open>\<open>content\<close> is what \<open>getsize\<close>, \<open>open\<close> and \<open>read\<close> give for the path, whose last component is \<open>name\<close>; every error is shown in a
  message box.\<close>

definition send_file :: "crypto \<Rightarrow> int \<Rightarrow> string \<Rightarrow> string \<Rightarrow> bytes res \<Rightarrow> unit ap" where
  "send_file C conv path name content =
     sbind (refresh_security_ui C conv) (\<lambda>_.
     scatch (sbind (slift content) (\<lambda>raw.
       if MAX_FILE_SIZE < length raw \<or> raw = [] then sret ()
       else let body = file_body name raw
            in sbind (encrypt_body C conv body) (\<lambda>payload. case payload of
                 None \<Rightarrow> in_chat (smod (show_send_failed conv body NOT_READY path))
               | Some wire \<Rightarrow> send_file_wire conv path body wire))) (\<lambda>_. sret ()))"

subsection \<open>Showing\<close>

record shown_file =
  f_name :: string
  f_mime :: string
  f_size :: int
  f_raw :: bytes

text \<open>\<open>s[1:]\<close> of a text that is the list of its UTF-8 bytes.\<close>

definition drop_char :: "string \<Rightarrow> string" where
  "drop_char s = dropWhile (\<lambda>c. 128 \<le> code c \<and> code c < 192) (tl s)"

definition parse_file_payload :: "string \<Rightarrow> shown_file option" where
  "parse_file_payload body =
     (let rest = drop 5 body; k = length (takeWhile (\<lambda>c. c \<noteq> CHR ''}'') rest) + 1
      in if CHR ''}'' \<notin> set rest then None
         else res_opt (rbind (loads (take k rest)) (\<lambda>j.
              rbind (b64decode (drop_char (drop k rest))) (\<lambda>raw.
              rbind (as_dict j) (\<lambda>meta.
              rbind (py_int (py_or (dget meta ''size'' (JInt (int (length raw)))) (JInt (int (length raw))))) (\<lambda>n.
              Inr \<lparr> f_name = py_str (dget meta ''name'' (JStr ''file'')), f_mime = py_str (dget meta ''mime'' (JStr ''application/octet-stream'')),
                   f_size = n, f_raw = raw \<rparr>))))))"

subsection \<open>What was sent is what is shown\<close>

lemma brace_hex: "n < 16 \<Longrightarrow> hex_digit n \<noteq> CHR ''}''"
proof -
  assume "n < 16"
  then have "n \<in> set [0..<16]" by simp
  moreover have "list_all (\<lambda>n. hex_digit n \<noteq> CHR ''}'') [0..<16]" by code_simp
  ultimately show ?thesis by (simp add: list_all_iff del: upt_Suc)
qed

lemma brace_escape: "CHR ''}'' \<notin> set (u_escape n)"
proof -
  have "hex_digit (m mod 16) \<noteq> CHR ''}''" for m by (rule brace_hex) simp
  then show ?thesis unfolding u_escape_def by (simp add: eq_commute [of "CHR ''}''"])
qed

lemma brace_esc_char: "CHR ''}'' \<in> set (esc_char c) \<longleftrightarrow> c = CHR ''}''"
  using brace_escape [of "code c"] unfolding esc_char_def by (cases "c = CHR ''}''") simp_all

lemma brace_esc: "CHR ''}'' \<notin> set s \<Longrightarrow> CHR ''}'' \<notin> set (concat (map esc_char s))"
  using brace_esc_char by auto

lemma esc_ascii_multi:
  assumes "utf8_valid (c # r)" and "128 \<le> code c"
  obtains x r' n where "r = x @ r'" and "\<And>d. d \<in> set x \<Longrightarrow> 128 \<le> code d" and "utf8_valid r'"
    and "\<And>t. utf8_valid (c # x @ t) = utf8_valid t" and "\<And>t. esc_ascii (c # x @ t) = u_escape_point n @ esc_ascii t"
proof -
  from assms consider
      (two) c1 r' where "r = [c1] @ r'" "194 \<le> code c" "code c < 224"
    | (three) c1 c2 r' where "r = [c1, c2] @ r'" "224 \<le> code c" "code c < 240"
    | (four) c1 c2 c3 r' where "r = [c1, c2, c3] @ r'" "240 \<le> code c" "code c < 245"
    by (auto split: if_splits list.splits)
  then show ?thesis
  proof cases
    case two
    with assms show ?thesis by (intro that [of "[c1]" r']) (auto simp: cont_byte_def)
  next
    case three
    with assms show ?thesis by (intro that [of "[c1, c2]" r']) (auto simp: cont_byte_def)
  next
    case four
    with assms show ?thesis by (intro that [of "[c1, c2, c3]" r']) (auto simp: cont_byte_def)
  qed
qed

lemma brace_low: "code (CHR ''}'') < 128"
  by simp

lemma brace_esc_ascii: "utf8_valid s \<Longrightarrow> CHR ''}'' \<notin> set s \<Longrightarrow> CHR ''}'' \<notin> set (esc_ascii s)"
proof (induction s rule: length_induct)
  case (1 s)
  have p: "CHR ''}'' \<notin> set (u_escape_point n)" for n using brace_escape unfolding u_escape_point_def by simp
  show ?case
  proof (cases s)
    case (Cons c r)
    show ?thesis
    proof (cases "code c < 128")
      case True
      then have "CHR ''}'' \<notin> set (esc_ascii r)" using 1 Cons by simp
      then show ?thesis using 1(3) True Cons brace_esc_char [of c] by auto
    next
      case False
      have "utf8_valid (c # r)" "128 \<le> code c" using 1(2) Cons False by simp_all
      then obtain x r' n where x: "r = x @ r'" "utf8_valid r'" "\<And>t. esc_ascii (c # x @ t) = u_escape_point n @ esc_ascii t"
        by (rule esc_ascii_multi) blast
      then have "CHR ''}'' \<notin> set (esc_ascii r')" using 1 Cons by simp
      then show ?thesis unfolding Cons x(1) x(3) using p by simp
    qed
  qed simp
qed

text \<open>A brace is never inside the bytes of another character.\<close>

lemma split_at_brace:
  "utf8_valid (u @ CHR ''}'' # v) \<Longrightarrow> utf8_valid u \<and> utf8_valid v
    \<and> esc_ascii (u @ CHR ''}'' # v) = esc_ascii u @ CHR ''}'' # esc_ascii v"
proof (induction u rule: length_induct)
  case (1 u)
  show ?case
  proof (cases u)
    case Nil
    with 1(2) show ?thesis by (simp add: esc_char_def)
  next
    case (Cons c r)
    show ?thesis
    proof (cases "code c < 128")
      case True
      then have "utf8_valid r \<and> utf8_valid v \<and> esc_ascii (r @ CHR ''}'' # v) = esc_ascii r @ CHR ''}'' # esc_ascii v"
        using 1(1) [rule_format, of r] 1(2) Cons by simp
      then show ?thesis using True Cons by simp
    next
      case False
      have "utf8_valid (c # r @ CHR ''}'' # v)" "128 \<le> code c" using 1(2) Cons False by simp_all
      then obtain x r' n where x: "r @ CHR ''}'' # v = x @ r'" "\<And>d. d \<in> set x \<Longrightarrow> 128 \<le> code d" "utf8_valid r'"
        "\<And>t. utf8_valid (c # x @ t) = utf8_valid t" "\<And>t. esc_ascii (c # x @ t) = u_escape_point n @ esc_ascii t"
        by (rule esc_ascii_multi) blast
      have "CHR ''}'' \<notin> set x" using x(2) brace_low by force
      obtain us where "r = x @ us \<and> us @ CHR ''}'' # v = r' \<or> x = r @ us \<and> CHR ''}'' # v = us @ r'"
        using x(1) by (auto simp: append_eq_append_conv2)
      with \<open>CHR ''}'' \<notin> set x\<close> obtain r2 where r: "r = x @ r2" "r' = r2 @ CHR ''}'' # v" by (cases us) auto
      then have "utf8_valid r2 \<and> utf8_valid v \<and> esc_ascii (r2 @ CHR ''}'' # v) = esc_ascii r2 @ CHR ''}'' # esc_ascii v"
        using 1(1) [rule_format, of r2] x(3) Cons by simp
      then show ?thesis unfolding Cons r(1) append_Cons append_assoc x(4,5) by simp
    qed
  qed
qed

lemma scan_str_open: "utf8_valid s \<Longrightarrow> scan_str (esc_ascii s @ [CHR ''}'']) = None"
  by (subst scan_str_ascii) simp_all

lemma mime_facts: "is_ascii (guess_mime name)" "CHR ''}'' \<notin> set (guess_mime name)"
proof -
  have all: "list_all (\<lambda>kv. is_ascii (snd kv) \<and> CHR ''}'' \<notin> set (snd kv)) MIME_TYPES" by code_simp
  have "is_ascii (guess_mime name) \<and> CHR ''}'' \<notin> set (guess_mime name)"
  proof (cases "map_of MIME_TYPES (lower (splitext_ext name))")
    case None
    then show ?thesis by (simp add: guess_mime_def dget_def is_ascii_def)
  next
    case (Some m)
    then have "(lower (splitext_ext name), m) \<in> set MIME_TYPES" by (rule map_of_SomeD)
    then show ?thesis using all Some by (auto simp: guess_mime_def dget_def list_all_iff)
  qed
  then show "is_ascii (guess_mime name)" "CHR ''}'' \<notin> set (guess_mime name)" by simp_all
qed

text \<open>The JSON of a file, without its last brace and cut open at the name.\<close>

definition meta_open :: string where
  "meta_open = ''{'' @ quote False ''name'' @ '': '' @ [CHR 0x22]"

definition meta_rest :: "string \<Rightarrow> bytes \<Rightarrow> string" where
  "meta_rest name raw = [CHR 0x22] @ '', '' @ quote False ''mime'' @ '': '' @ quote False (guess_mime name) @ '', '' @ quote False ''size'' @ '': ''
     @ show_int (int (length raw))"

lemma meta_shape: "dumps_default (file_meta name raw) = meta_open @ esc_ascii name @ meta_rest name raw @ ''}''"
  using esc_ascii_ascii [OF mime_facts(1) [of name]]
  by (simp add: dumps_default_def file_meta_def meta_open_def meta_rest_def quote_def esc_char_def)

lemma meta_free: "CHR ''}'' \<notin> set meta_open" "CHR ''}'' \<notin> set (meta_rest name raw)"
  using brace_esc [OF mime_facts(2) [of name]] show_int_chars [of "CHR ''}''" "int (length raw)"]
  by (auto simp: meta_open_def meta_rest_def quote_def esc_char_def num_char_def is_digit_def)

lemma open_meta_unreadable:
  assumes "utf8_valid u"
  shows "\<exists>e. loads (meta_open @ esc_ascii u @ ''}'') = Inl e"
proof -
  let ?s = "meta_open @ esc_ascii u @ ''}''"
  have "parse_val f ([CHR 0x22] @ esc_ascii u @ ''}'') = None" for f
    by (cases f) (simp_all add: scan_str_open [OF assms])
  then have "parse_members f (tl ?s) = None" for f
    by (cases f) (simp_all add: meta_open_def quote_def esc_char_def skip_ws_def json_ws_def)
  then have "parse_val (2 * length ?s + 2) ?s = None"
    by (simp add: meta_open_def quote_def esc_char_def skip_ws_def json_ws_def)
  moreover have "skip_ws ?s = ?s" by (simp add: meta_open_def skip_ws_def json_ws_def)
  ultimately show ?thesis by (simp add: loads_def)
qed

lemma drop_char_colon: "drop_char (CHR '':'' # b64encode raw) = b64encode raw"
proof -
  have "dropWhile (\<lambda>c. 128 \<le> code c \<and> code c < 192) s = s" if "is_ascii s" for s using that by (cases s) (auto simp: is_ascii_def)
  then show ?thesis by (simp add: drop_char_def)
qed

lemma payload_at:
  assumes "CHR ''}'' \<notin> set s"
  shows "parse_file_payload (''FILE:'' @ s @ ''}'' @ t) = res_opt (rbind (loads (s @ ''}'')) (\<lambda>j.
              rbind (b64decode (drop_char t)) (\<lambda>raw.
              rbind (as_dict j) (\<lambda>meta.
              rbind (py_int (py_or (dget meta ''size'' (JInt (int (length raw)))) (JInt (int (length raw))))) (\<lambda>n.
              Inr \<lparr> f_name = py_str (dget meta ''name'' (JStr ''file'')), f_mime = py_str (dget meta ''mime'' (JStr ''application/octet-stream'')),
                   f_size = n, f_raw = raw \<rparr>)))))"
  using takeWhile_free [OF assms, of "''}'' @ t"] by (simp add: parse_file_payload_def Let_def)

lemma payload_broken: "CHR ''}'' \<notin> set s \<Longrightarrow> loads (s @ ''}'') = Inl e \<Longrightarrow> parse_file_payload (''FILE:'' @ s @ ''}'' @ t) = None"
  by (subst payload_at) simp_all

text \<open>
  C19: (functional) A file is shown as it was sent, with its name, type, size and content, exactly when its name has no closing
  brace, whatever other characters it has (the JSON writes the ones beyond ASCII as one or two escapes, and the reader puts
  them together again); a file whose name has a closing brace is not shown at all, because the reader takes the first
  closing brace for the end of the JSON. The name is a text that can be encoded, that is, without lone surrogates.
\<close>

theorem file_shown_as_sent:
  assumes "utf8_valid name"
  shows "parse_file_payload (file_body name raw) = (if CHR ''}'' \<in> set name then None
    else Some \<lparr> f_name = name, f_mime = guess_mime name, f_size = int (length raw), f_raw = raw \<rparr>)"
proof (cases "CHR ''}'' \<in> set name")
  case True
  obtain u v where name: "name = u @ CHR ''}'' # v" "CHR ''}'' \<notin> set u" using split_list_first [OF True] by blast
  note sp = split_at_brace [OF assms [unfolded name(1)]]
  have "file_body name raw = ''FILE:'' @ (meta_open @ esc_ascii u) @ ''}''
      @ esc_ascii v @ meta_rest name raw @ ''}'' @ '':'' @ b64encode raw"
    using meta_shape [of name raw] sp name(1) by (simp add: file_body_def)
  moreover have "CHR ''}'' \<notin> set (meta_open @ esc_ascii u)" using meta_free(1) brace_esc_ascii [OF _ name(2)] sp by simp
  moreover obtain e where "loads ((meta_open @ esc_ascii u) @ ''}'') = Inl e" using open_meta_unreadable [of u] sp by auto
  ultimately show ?thesis using True payload_broken by metis
next
  case False
  let ?s = "meta_open @ esc_ascii name @ meta_rest name raw"
  have s: "dumps_default (file_meta name raw) = ?s @ ''}''" by (simp add: meta_shape)
  have "json_ok (file_meta name raw)" "json_utf8 (file_meta name raw)"
    using assms mime_facts(1) by (simp_all add: file_meta_def ascii_utf8 is_ascii_def)
  then have l: "loads (?s @ ''}'') = Inr (file_meta name raw)" unfolding s [symmetric] by (rule loads_dumps_ascii(2))
  have "CHR ''}'' \<notin> set ?s" using meta_free brace_esc_ascii [OF assms False] by simp
  note p = payload_at [OF this, of "'':'' @ b64encode raw"]
  have "file_body name raw = ''FILE:'' @ ?s @ ''}'' @ '':'' @ b64encode raw" by (simp add: file_body_def s)
  then show ?thesis using p l drop_char_colon False by (simp add: file_meta_def dget_def py_or_def)
qed

theorem file_shown_as_sent_witness:
  "parse_file_payload (file_body ''notes.txt'' ''hi'') = Some \<lparr> f_name = ''notes.txt'', f_mime = ''text/plain'', f_size = 2, f_raw = ''hi'' \<rparr>
   \<and> parse_file_payload (file_body [CHR 0xC3, CHR 0xA9] ''hi'')
       = Some \<lparr> f_name = [CHR 0xC3, CHR 0xA9], f_mime = ''application/octet-stream'', f_size = 2, f_raw = ''hi'' \<rparr>
   \<and> parse_file_payload (file_body ''a}b'' ''hi'') = None"
proof -
  have "guess_mime ''notes.txt'' = ''text/plain''" "guess_mime [CHR 0xC3, CHR 0xA9] = ''application/octet-stream''" by code_simp+
  moreover have "utf8_valid ''notes.txt''" "utf8_valid [CHR 0xC3, CHR 0xA9]" "utf8_valid ''a}b''" by (simp_all add: cont_byte_def)
  ultimately show ?thesis
    using file_shown_as_sent [of "''notes.txt''" "''hi''"] file_shown_as_sent [of "[CHR 0xC3, CHR 0xA9]" "''hi''"]
      file_shown_as_sent [of "''a}b''" "''hi''"] by simp
qed

end
