(* ===== verification/Spec2Isabelle.thy ===== *)
theory Spec2Isabelle
  imports Audit_Client Ws_Net Dm_Handshake Backup_Restore App_Identity App_Members App_Inbox App_Account App_Files
begin

text \<open>
  SecChat is an end-to-end encrypted messenger: a Python client with a Qt interface, a C server that
  stores and forwards what it cannot read, a Rust process that runs OpenMLS for groups, and an
  independent Python auditor that publishes a signed Merkle log of the users' identity keys. This
  development models the Python code that the security of the system rests on, the cryptographic
  engine of the client, its transport, its timeline and message handlers, and the auditor, and proves the
  theorems that make it correct.

  \<^bold>\<open>The parts and how they interact.\<close> A login (class \<open>CryptoSession\<close>, \<open>client/crypto_engine/session.py\<close>)
  owns an identity key, a store of prekeys, one Double Ratchet per direct conversation, the state of
  the OpenMLS process, and a directory of files sealed under the master key that the password gives.
  To write to a peer it verifies the peer's signed prekey bundle, runs a PQXDH handshake
  (\<open>secure_protocol.py\<close>) and starts a ratchet; the peer answers the handshake from its own prekeys and
  then both sides encrypt and decrypt message by message. Before it trusts an identity key it asks
  the auditor (\<open>audit.py\<close> against \<open>auditor_service.py\<close>) and keeps the checkpoints it has seen. It keeps a
  digest of every history to notice a server that changes it, a cache of plaintexts, and can export
  the whole state into a backup under a passphrase. Messages travel in WebSocket frames
  (\<open>client/network.py\<close>). The controller (class \<open>App\<close>, \<open>client/app.py\<close>) turns what arrives into calls of the session
  and changes of the conversation history (class \<open>ChatPage\<close>, \<open>client/pages/chat_page.py\<close>), and what the user types into
  encrypted commands.

  \<^bold>\<open>Theories and sources.\<close>

  \<^item> \<open>Prelude\<close>: errors as values (\<open>exc\<close>, \<open>'a res\<close>), actions on a mutable object that keep what was
    assigned before an exception (\<open>('s, 'a) act\<close>), JSON values, dictionaries in insertion order, and the
    named collections of simplification rules.
  \<^item> \<open>Py_Text\<close>, \<open>Codec\<close>, \<open>Json\<close>: what the code uses of Python's \<open>str\<close>, \<open>int\<close>, \<open>float\<close>, \<open>base64\<close> and
    \<open>json\<close>, executable, with the locale \<open>codec\<close> for encoders that read back; the token functions of
    \<open>secure_protocol.py\<close>.
  \<^item> \<open>Crypto\<close> (\<open>client/utils.py\<close>): the primitives as the record parameter \<open>crypto\<close> with what the code relies
    on as named predicates (\<open>aead_ok\<close>, \<open>aead_bound\<close>, \<open>sig_ok\<close>, \<open>dh_ok\<close>, \<open>kem_ok\<close>, \<open>sizes_ok\<close>, and \<open>kdf_ok\<close> for
    backups), each shown satisfiable by \<open>toy_crypto\<close>; sealing with a timestamp, identity keys.
  \<^item> \<open>Auditor\<close> (\<open>auditor_service.py\<close>), \<open>Audit_Client\<close> (\<open>audit.py\<close>): the Merkle tree and its proofs, the HTTP
    handler, and the client's verification of checkpoints, inclusion and consistency.
  \<^item> \<open>Prekeys\<close>, \<open>Ratchet\<close>, \<open>Pqxdh\<close> (\<open>secure_protocol.py\<close>): bundles and their signatures, the class
    \<open>DoubleRatchet\<close>, the handshake and the safety number.
  \<^item> \<open>Ws_Net\<close> (\<open>network.py\<close>): frames, the receive loop, and the connection workers as a step relation with one step for each
    access to the shared state: the check of the generation and the emission of a signal are two.
  \<^item> \<open>Session\<close>, \<open>Cache\<close>, \<open>Membership\<close>, \<open>Transcript\<close>, \<open>Identity_State\<close>, \<open>Dr_Sessions\<close>, \<open>Mls\<close>, \<open>Keys\<close>,
    \<open>Messaging\<close>, \<open>Local_State\<close>, \<open>Backup\<close> (\<open>session.py\<close>, \<open>openmls_bridge.py\<close>): \<open>CryptoSession\<close>, one theory for
    each of its sections. The record \<open>crypto_session\<close> has the fields of the class; ratchet objects are held
    in a list and referred to by index, because two dictionaries of the class share them.
  \<^item> \<open>Dm_Chat\<close>, \<open>Dm_Handshake\<close>: two clients composed, from the published bundle to the text shown;
    \<open>Backup_Restore\<close>: what a backup promises.
  \<^item> \<open>Timeline\<close> (\<open>chat_page.py\<close>): the record \<open>page\<close> has the fields of \<open>ChatPage\<close> that hold histories, waiting edits, read
    state and conversation records; messages, edits, reactions, pins, system events, the bubbles of messages being
    sent, and \<open>load_history\<close>. \<open>Timeline_Facts\<close> has what merging and editing promise, \<open>Timeline_Steps\<close> the step relation of
    the page and its invariant.
  \<^item> \<open>App\<close>, \<open>App_Messages\<close> (\<open>app.py\<close>): the record \<open>app\<close> holds a session, a page, the connection and the controller's own
    queues. \<open>App\<close> has the connection (\<open>_safe_send\<close>, \<open>_net_close\<close>, reconnection), the badge of a conversation, the audit of
    a key, announced key changes and the requests for bundles; \<open>App_Messages\<close> has \<open>_handle_message\<close> with everything it
    calls, \<open>_flush_pending\<close>, edits, deletions, \<open>_send_message\<close> and \<open>_handle_pqxdh_bundle\<close>. \<open>App_Facts\<close> shows which parts of
    the state each handler leaves alone, \<open>App_Retry\<close> is about messages that wait for a key, \<open>App_Echo\<close> about the echoes of
    own messages, \<open>App_Identity\<close> about key changes.
  \<^item> \<open>App_Groups\<close>, \<open>App_Members\<close> (\<open>app.py\<close>): the record \<open>gapp\<close> adds what the controller keeps of groups. \<open>App_Groups\<close> has the way of
    a group change from the intent over the prepared operation and the claimed key packages to the command that applies
    it; \<open>App_Members\<close> has member lists, names, system events, the membership handlers and \<open>_handle_history\<close>.
  \<^item> \<open>App_Inbox\<close> (\<open>app.py\<close>, \<open>chat_page.py\<close>): \<open>_handle_inbox\<close> and \<open>update_inbox\<close>, with the previews of ciphertexts and the set of
    unread conversations.
  \<^item> \<open>App_Account\<close> (\<open>app.py\<close>): the record \<open>account\<close> adds what the controller keeps of the login. Login, registration and logout,
    \<open>_handle_ok\<close>, \<open>_handle_error\<close>, \<open>_handle_my_keys\<close>, the password change and the rotation of the identity key.
  \<^item> \<open>App_Files\<close> (\<open>app.py\<close>, \<open>chat_page.py\<close>): files as texts, sent and read back.

  \<^bold>\<open>What the lemmas show.\<close> Codecs and JSON read back what they write. Auditor and client agree: an honest
  auditor is accepted, an accepted inclusion proof places the leaf under the root unless two inputs of
  the hash collide, and accepted checkpoints only extend one another. Both sides of a handshake derive
  the same keys; messages sent in any order of turns, skipped and late ones included, decrypt to what
  was sent; a replay is rejected as long as fewer than 4096 ids are remembered; the memory a peer can make a
  ratchet keep is bounded. The session's operations refine the ratchet: a message that fails leaves the ratchet as it was, a login restored from
  disk goes on where it stopped (both keep the 2048 greatest of the remembered ids), simultaneous starts settle on one ratchet, used prekeys stay used. Two
  clients that start from published bundles show each other exactly the texts sent
  (\<open>Dm_Handshake.dm_end_to_end\<close>). A history changed between recorded messages is flagged; a changed identity key is
  flagged, and stays flagged while audits succeed.
  Switching the cache off leaves no file. A confirmed password change and restoring a backup keep the contents
  of every state file when all of them open (the group state of a backup apart), a logout forgets the secrets, merging a backup never hides a readable message, and a revoked backup is refused. The
  receive loop ends, does not depend on how the stream is cut into chunks (\<open>Ws_Net.chunking_irrelevant\<close>), and a connection
  that was replaced emits at most the one signal whose check had already succeeded. In every reachable page the bubbles have ids of their own; merging a history keeps messages that could be
  read, and edits may arrive before or after their message. Echoes show the texts in the order they were sent
  while the connection holds, a message delivered twice is handled once while the set of seen ids is below its bound, trying waiting messages again ends when they
  have ids, and a key change ends the verification of the conversations it concerns. Key packages for a group may
  come in any order, and controller and session have the same normal form of member lists. The inbox marks exactly the
  conversations whose records say so (\<open>App_Inbox.inbox_unread_exact\<close>), and a file is shown as it was sent when its name has no closing brace. Where the code falls short of its intention, a lemma states what it does instead, among them
  \<open>Ratchet.header_mismatch_ignored\<close>, \<open>Pqxdh.unsigned_pq_key_used\<close>, \<open>Identity_State.outage_forgets_key_change\<close>,
  \<open>Ws_Net.stale_worker_takes_socket\<close>, \<open>Local_State.rewrap_splits_keys\<close>, \<open>Backup_Restore.edited_backup_evades_revocation\<close>,
  \<open>Timeline_Facts.deleted_message_reappears\<close>, \<open>App_Retry.waiting_message_without_id_never_ends\<close>,
  \<open>App_Echo.refused_send_shifts_echoes\<close>, \<open>App_Groups.server_adds_member_unasked\<close>,
  \<open>App_Account.error_during_change_costs_identity\<close> and \<open>App_Account.reconnect_uses_old_password\<close>.

  \<^bold>\<open>Interfaces.\<close> \<open>codec\<close> and \<open>codec_comp\<close> (an encoder and its decoder, and their composition) are interpreted for
  hex, both Base64 forms and JSON; \<open>duplex\<close> in \<open>Dm_Chat\<close> states what a pair of sessions needs of one
  another to talk, and is interpreted on the operations of \<open>Messaging\<close>; \<open>keyed_queue\<close> in \<open>App_Echo\<close> is the contract of the two
  queues of the controller, of texts and of local ids.

  \<^bold>\<open>Conventions, bounds and fuel.\<close> A Python text is the list of its UTF-8 bytes, a float is its literal, and
  integers are unbounded, as in Python; only frames use machine words. Time and randomness are functions of
  \<open>tick\<close>, which every draw advances: the clock does not move between draws, and two clients in one run
  share the environment at disjoint ticks. The files of a login are an association list from names to
  texts, and the file system does not fail; an operation whose errors the code only logs is \<open>logged\<close>. The
  JSON reader recurses on fuel; \<open>loads\<close> gives it twice the length of the text plus two, which
  \<open>loads_dumps_compact\<close> and its kin show to be enough for every value the client writes.
  \<open>_handle_message\<close> and \<open>_flush_pending\<close> call each other and may not return, so \<open>run\<close> has a bound on the depth of calls and gives
  \<open>None\<close> when it is reached; \<open>run_mono\<close> shows that a larger bound gives the same result, and
  \<open>App_Retry.retry_of_waiting_messages_ends\<close> that some bound is enough. All other recursions are structural or come with
  a measure. Timers of the controller are events: what a timer calls is a definition of its own.

  \<^bold>\<open>Not modelled.\<close> The drawing code of the Qt interface (\<open>pages\<close>, \<open>dialogs.py\<close>, \<open>components\<close>, \<open>styles.py\<close>), the handlers of
  \<open>app.py\<close> for profiles and its dialogs, the server window and the avatar helpers
  of \<open>utils.py\<close>: they read and fill widgets, and the operations of the session they call are modelled. The TLS and HTTP
  set-up of \<open>network.py\<close>, the search for the bridge binary, and the auditor's database connection: I/O. The C server and the
  Rust bridge are not Python code; the server is the adversary, so nothing is assumed of what it sends, and
  the bridge's answers are the parameter \<open>mls_serve\<close>. Report, test and tool scripts are no part of the running
  system.
\<close>

end
